(* ===== verification/Prelude.thy ===== *)
theory Prelude
  imports Main
begin

text \<open>
  Shared vocabulary of the development: JavaScript values as the code reads them out of
  JSON columns, results with an error (\<open>Inl\<close> is a thrown error, \<open>Inr\<close> a returned
  value), the stable comparator sort that \<open>Array.prototype.toSorted\<close> and SQL
  \<open>ORDER BY\<close> perform, and the generic facts about them that every component uses.
  The locale \<open>step_system\<close> states what a component with an invariant promises;
  every stateful component interprets it.
\<close>

named_theorems result_simps \<open>unfolding of the error-or-value combinators\<close>

section \<open>Results: thrown errors as values\<close>

definition rbind :: "'e + 'a \<Rightarrow> ('a \<Rightarrow> 'e + 'b) \<Rightarrow> 'e + 'b" where
  "rbind r f = (case r of Inl e \<Rightarrow> Inl e | Inr a \<Rightarrow> f a)"

definition guard_else :: "bool \<Rightarrow> 'e \<Rightarrow> 'e + unit" where
  "guard_else b e = (if b then Inr () else Inl e)"

fun rtraverse :: "('a \<Rightarrow> 'e + 'b) \<Rightarrow> 'a list \<Rightarrow> 'e + 'b list" where
  "rtraverse f [] = Inr []"
| "rtraverse f (x # xs) = rbind (f x) (\<lambda>y. rbind (rtraverse f xs) (\<lambda>ys. Inr (y # ys)))"

lemma rbind_simps [simp, result_simps]:
  "rbind (Inl e) f = Inl e"
  "rbind (Inr a) f = f a"
  by (simp_all add: rbind_def)

lemma rbind_Inr_iff [result_simps]:
  "rbind r f = Inr b \<longleftrightarrow> (\<exists>a. r = Inr a \<and> f a = Inr b)"
  by (cases r) auto

lemma rbind_Inl_iff [result_simps]:
  "rbind r f = Inl e \<longleftrightarrow> r = Inl e \<or> (\<exists>a. r = Inr a \<and> f a = Inl e)"
  by (cases r) auto

lemma guard_else_Inr_iff [simp, result_simps]: "guard_else b e = Inr u \<longleftrightarrow> b"
  by (simp add: guard_else_def)

lemma guard_else_Inl_iff [simp, result_simps]: "guard_else b e = Inl e' \<longleftrightarrow> \<not> b \<and> e' = e"
  by (auto simp: guard_else_def)

lemma guard_else_True [simp]: "guard_else True e = Inr ()"
  by (simp add: guard_else_def)

lemma guard_else_False [simp]: "guard_else False e = Inl e"
  by (simp add: guard_else_def)

lemma rtraverse_Inr_length: "rtraverse f xs = Inr ys \<Longrightarrow> length ys = length xs"
  by (induction xs arbitrary: ys) (auto simp: rbind_Inr_iff)

lemma rtraverse_Inr_iff:
  "rtraverse f xs = Inr ys \<longleftrightarrow> list_all2 (\<lambda>x y. f x = Inr y) xs ys"
proof (induction xs arbitrary: ys)
  case Nil
  then show ?case by auto
next
  case (Cons x xs)
  then show ?case by (cases ys) (auto simp: rbind_Inr_iff)
qed

lemma rtraverse_Inr_mem: "rtraverse f xs = Inr ys \<Longrightarrow> x \<in> set xs \<Longrightarrow> \<exists>y \<in> set ys. f x = Inr y"
  by (induction xs arbitrary: ys) (auto simp: rbind_Inr_iff)

lemma rtraverse_Inr_back: "rtraverse f xs = Inr ys \<Longrightarrow> y \<in> set ys \<Longrightarrow> \<exists>x \<in> set xs. f x = Inr y"
  by (induction xs arbitrary: ys) (auto simp: rbind_Inr_iff)

lemma rtraverse_total:
  assumes "\<And>x. x \<in> set xs \<Longrightarrow> f x = Inr (g x)"
  shows "rtraverse f xs = Inr (map g xs)"
  using assms by (induction xs) auto

section \<open>JavaScript values and numbers\<close>

text \<open>
  A value of a JSON payload, as far as the code distinguishes values: a number is either
  an integer or \<open>JFrac\<close> (any number that is not an integer, so also NaN and the infinities).
\<close>

datatype js_value = JUndefined | JNull | JBool bool | JInt int | JFrac | JStr string | JObject

definition max_safe_integer :: int where
  "max_safe_integer = 2 ^ 53 - 1"

fun is_safe_integer :: "js_value \<Rightarrow> bool" where
  "is_safe_integer (JInt n) \<longleftrightarrow> \<bar>n\<bar> \<le> max_safe_integer"
| "is_safe_integer _ \<longleftrightarrow> False"

fun js_number :: "js_value \<Rightarrow> int" where
  "js_number (JInt n) = n"
| "js_number _ = 0"

fun js_string_value :: "js_value \<Rightarrow> string option" where
  "js_string_value (JStr s) = Some s"
| "js_string_value _ = None"

text \<open>White space of \<open>String.prototype.trim\<close> among the code points below 256.\<close>

definition js_space :: "char \<Rightarrow> bool" where
  "js_space c \<longleftrightarrow> (let n = of_char c :: nat in (9 \<le> n \<and> n \<le> 13) \<or> n = 32 \<or> n = 160)"

definition blank :: "string \<Rightarrow> bool" where
  "blank s \<longleftrightarrow> list_all js_space s"

definition js_trim :: "string \<Rightarrow> string" where
  "js_trim s = rev (dropWhile js_space (rev (dropWhile js_space s)))"

lemma js_trim_Nil_iff: "js_trim s = [] \<longleftrightarrow> blank s"
proof -
  have "dropWhile js_space s = [] \<longleftrightarrow> blank s"
    by (simp add: blank_def list_all_iff dropWhile_eq_Nil_conv)
  moreover have "blank s" if "js_trim s = []"
  proof (rule ccontr)
    assume nb: "\<not> blank s"
    with calculation obtain c cs where d: "dropWhile js_space s = c # cs" by (cases "dropWhile js_space s") auto
    then have "\<not> js_space c" by (simp add: dropWhile_eq_Cons_conv)
    moreover from that d have "\<forall>x \<in> set (rev (c # cs)). js_space x"
      unfolding js_trim_def by (metis dropWhile_eq_Nil_conv rev_is_Nil_conv)
    ultimately show False by simp
  qed
  moreover have "js_trim s = []" if "blank s"
    using that by (auto simp: js_trim_def blank_def list_all_iff dropWhile_eq_Nil_conv dest: set_dropWhileD)
  ultimately show ?thesis by blast
qed

text \<open>
  A JSON document, as a \<open>text({ mode: "json" })\<close> column stores it: an integer, any other
  number by its decimal text, and objects with their keys in order (two documents print the
  same under \<open>JSON.stringify\<close> exactly when they are equal).
\<close>

datatype json = JsonNull | JsonBool bool | JsonInt int | JsonFrac string | JsonStr string
  | JsonArr "json list" | JsonObj "(string \<times> json) list"

fun json_field :: "json \<Rightarrow> string \<Rightarrow> json option" where
  "json_field (JsonObj kvs) k = map_of kvs k"
| "json_field _ k = None"

definition min_defined :: "int option \<Rightarrow> int option \<Rightarrow> int option" where
  "min_defined l r =
     (case l of None \<Rightarrow> r | Some a \<Rightarrow> (case r of None \<Rightarrow> l | Some b \<Rightarrow> Some (min a b)))"

fun exactly_one :: "'a list \<Rightarrow> 'a option" where
  "exactly_one [x] = Some x"
| "exactly_one _ = None"

lemma exactly_one_Some_iff: "exactly_one xs = Some x \<longleftrightarrow> xs = [x]"
  by (cases xs rule: exactly_one.cases) auto

lemma exactly_one_mem: "exactly_one xs = Some x \<Longrightarrow> x \<in> set xs"
  by (simp add: exactly_one_Some_iff)

fun head_option :: "'a list \<Rightarrow> 'a option" where
  "head_option [] = None"
| "head_option (x # xs) = Some x"

lemma head_option_Some_mem: "head_option xs = Some x \<Longrightarrow> x \<in> set xs"
  by (cases xs) auto

lemma head_option_None_iff [simp]: "head_option xs = None \<longleftrightarrow> xs = []"
  by (cases xs) auto

text \<open>The list \<open>1, 2, \<dots>, n\<close> that a gap-free numbering produces.\<close>

fun ordinals :: "nat \<Rightarrow> int list" where
  "ordinals 0 = []"
| "ordinals (Suc n) = ordinals n @ [int n + 1]"

lemma length_ordinals [simp]: "length (ordinals n) = n"
  by (induction n) auto

lemma set_ordinals: "k \<in> set (ordinals n) \<longleftrightarrow> 1 \<le> k \<and> k \<le> int n"
  by (induction n) auto

section \<open>Stable sorting by a comparator\<close>

text \<open>
  \<open>cmp a b\<close> is the number the JavaScript comparator returns: positive puts \<open>b\<close> first.
  Insertion keeps the earlier of two equal elements first, so the sort is stable.
\<close>

fun insert_by :: "('a \<Rightarrow> 'a \<Rightarrow> int) \<Rightarrow> 'a \<Rightarrow> 'a list \<Rightarrow> 'a list" where
  "insert_by cmp x [] = [x]"
| "insert_by cmp x (y # ys) = (if cmp x y \<le> 0 then x # y # ys else y # insert_by cmp x ys)"

fun sort_by :: "('a \<Rightarrow> 'a \<Rightarrow> int) \<Rightarrow> 'a list \<Rightarrow> 'a list" where
  "sort_by cmp [] = []"
| "sort_by cmp (x # xs) = insert_by cmp x (sort_by cmp xs)"

lemma set_insert_by [simp]: "set (insert_by cmp x ys) = insert x (set ys)"
  by (induction ys) auto

lemma set_sort_by [simp]: "set (sort_by cmp xs) = set xs"
  by (induction xs) auto

lemma length_insert_by [simp]: "length (insert_by cmp x ys) = Suc (length ys)"
  by (induction ys) auto

lemma length_sort_by [simp]: "length (sort_by cmp xs) = length xs"
  by (induction xs) auto

lemma sort_by_Nil_iff [simp]: "sort_by cmp xs = [] \<longleftrightarrow> xs = []"
  by (metis length_0_conv length_sort_by)

lemma distinct_insert_by [simp]: "distinct (insert_by cmp x ys) \<longleftrightarrow> x \<notin> set ys \<and> distinct ys"
  by (induction ys) auto

lemma distinct_sort_by [simp]: "distinct (sort_by cmp xs) \<longleftrightarrow> distinct xs"
  by (induction xs) auto

lemma insert_by_least:
  "(\<And>y. y \<in> set ys \<Longrightarrow> cmp x y \<le> 0) \<Longrightarrow> insert_by cmp x ys = x # ys"
  by (cases ys) auto

lemma sort_by_sorted_id:
  "sorted_wrt (\<lambda>a b. cmp a b \<le> 0) xs \<Longrightarrow> sort_by cmp xs = xs"
  by (induction xs) (auto intro: insert_by_least)

lemma map_insert_by:
  assumes "\<And>x y. cmp x y = cmp' (f x) (f y)"
  shows "map f (insert_by cmp x ys) = insert_by cmp' (f x) (map f ys)"
  using assms by (induction ys) auto

text \<open>
  A comparator is usable for sorting when it is a total preorder: that is the contract of
  ECMAScript's \<open>CompareArrayElements\<close>, and what a caller needs of the sorted list.
\<close>

locale comparator =
  fixes cmp :: "'a \<Rightarrow> 'a \<Rightarrow> int"
  assumes cmp_flip: "0 < cmp x y \<Longrightarrow> cmp y x < 0"
    and cmp_trans: "cmp x y \<le> 0 \<Longrightarrow> cmp y z \<le> 0 \<Longrightarrow> cmp x z \<le> 0"
begin

lemma cmp_refl: "cmp x x \<le> 0"
  using cmp_flip [of x x] by force

lemma cmp_total: "cmp x y \<le> 0 \<or> cmp y x \<le> 0"
  using cmp_flip [of x y] by force

lemma cmp_less_trans: "0 < cmp y x \<Longrightarrow> 0 < cmp z y \<Longrightarrow> 0 < cmp z x"
  using cmp_flip [of y x] cmp_trans [of z x y] by force

lemma sorted_insert_by:
  "sorted_wrt (\<lambda>a b. cmp a b \<le> 0) ys \<Longrightarrow> sorted_wrt (\<lambda>a b. cmp a b \<le> 0) (insert_by cmp x ys)"
proof (induction ys)
  case Nil
  then show ?case by simp
next
  case (Cons y ys)
  show ?case
  proof (cases "cmp x y \<le> 0")
    case True
    with Cons.prems show ?thesis by (auto intro: cmp_trans)
  next
    case False
    then have "cmp y x \<le> 0" using cmp_total by blast
    with Cons False show ?thesis by auto
  qed
qed

lemma sorted_sort_by: "sorted_wrt (\<lambda>a b. cmp a b \<le> 0) (sort_by cmp xs)"
  by (induction xs) (auto intro: sorted_insert_by)

lemma sort_by_head_least:
  assumes "sort_by cmp xs = h # t" and "y \<in> set xs"
  shows "cmp h y \<le> 0"
proof -
  have "sorted_wrt (\<lambda>a b. cmp a b \<le> 0) (h # t)"
    using sorted_sort_by [of xs] assms(1) by simp
  moreover have "y \<in> set (h # t)" using assms by (metis set_sort_by)
  ultimately show ?thesis by (auto intro: cmp_refl)
qed

end

text \<open>Lexicographic combination, \<open>c1(a, b) || c2(a, b)\<close> of the JavaScript source.\<close>

definition cmp_or :: "('a \<Rightarrow> 'a \<Rightarrow> int) \<Rightarrow> ('a \<Rightarrow> 'a \<Rightarrow> int) \<Rightarrow> 'a \<Rightarrow> 'a \<Rightarrow> int" where
  "cmp_or c1 c2 a b = (if c1 a b \<noteq> 0 then c1 a b else c2 a b)"

definition cmp_key :: "('a \<Rightarrow> int) \<Rightarrow> 'a \<Rightarrow> 'a \<Rightarrow> int" where
  "cmp_key f a b = f a - f b"

definition cmp_key_desc :: "('a \<Rightarrow> int) \<Rightarrow> 'a \<Rightarrow> 'a \<Rightarrow> int" where
  "cmp_key_desc f a b = f b - f a"

text \<open>
  The byte order of text: SQLite's BINARY collation and \<open>compareCanonicalStrings\<close>.
\<close>

fun text_cmp :: "string \<Rightarrow> string \<Rightarrow> int" where
  "text_cmp [] [] = 0"
| "text_cmp [] (b # bs) = -1"
| "text_cmp (a # as) [] = 1"
| "text_cmp (a # as) (b # bs) =
     (if (of_char a :: int) < of_char b then -1 else if (of_char b :: int) < of_char a then 1 else text_cmp as bs)"

lemma text_cmp_0_iff [simp]: "text_cmp a b = 0 \<longleftrightarrow> a = b"
proof (induction a b rule: text_cmp.induct)
  case (4 a as b bs)
  have "(of_char a :: int) = of_char b \<longleftrightarrow> a = b" by (rule of_char_eq_iff)
  with 4 show ?case by auto
qed auto

lemma text_cmp_refl [simp]: "text_cmp a a = 0"
  by simp

lemma text_cmp_flip: "text_cmp b a = - text_cmp a b"
  by (induction a b rule: text_cmp.induct) auto

lemma text_cmp_trans: "text_cmp a b \<le> 0 \<Longrightarrow> text_cmp b c \<le> 0 \<Longrightarrow> text_cmp a c \<le> 0"
proof (induction a b arbitrary: c rule: text_cmp.induct)
  case (2 b bs)
  then show ?case by (cases c) auto
next
  case (4 a as b bs)
  show ?case
  proof (cases c)
    case Nil
    with "4.prems" show ?thesis by simp
  next
    case (Cons d ds)
    have neq: "(of_char x :: int) = of_char y \<longleftrightarrow> x = y" for x y :: char by (rule of_char_eq_iff)
    from "4.prems" "4.IH" [of ds] Cons neq [of a b] neq [of b d] neq [of a d] show ?thesis
      by (auto split: if_splits)
  qed
next
  case 1
  then show ?case by (cases c) auto
qed auto

interpretation text_order: comparator text_cmp
proof unfold_locales
  show "text_cmp y x < 0" if "0 < text_cmp x y" for x y
    using that text_cmp_flip [of y x] by simp
  show "text_cmp x z \<le> 0" if "text_cmp x y \<le> 0" "text_cmp y z \<le> 0" for x y z
    using that by (rule text_cmp_trans)
qed

interpretation key_asc: comparator "cmp_key f" for f :: "'a \<Rightarrow> int"
  by unfold_locales (simp_all add: cmp_key_def)

interpretation key_desc: comparator "cmp_key_desc f" for f :: "'a \<Rightarrow> int"
  by unfold_locales (simp_all add: cmp_key_desc_def)

text \<open>The newest of a gap-free numbering, read as \<open>ORDER BY n DESC LIMIT 1\<close>.\<close>

lemma sort_desc_ordinals:
  assumes run: "map f xs = ordinals n"
  shows "(case sort_by (cmp_key_desc f) xs of [] \<Rightarrow> 0 | x # _ \<Rightarrow> f x) = int n"
proof (cases n)
  case (Suc m)
  have len: "length xs = n" using run by (metis length_map length_ordinals)
  then obtain g t where s: "sort_by (cmp_key_desc f) xs = g # t"
    using Suc by (cases "sort_by (cmp_key_desc f) xs") auto
  have "int n \<in> set (map f xs)" unfolding run Suc by simp
  then obtain h where "h \<in> set xs" "f h = int n" by auto
  with key_desc.sort_by_head_least [OF s this(1)] have "int n \<le> f g" by (simp add: cmp_key_desc_def)
  moreover have "g \<in> set xs" using s by (metis list.set_intros(1) set_sort_by)
  then have "f g \<in> set (ordinals n)" unfolding run [symmetric] by simp
  then have "f g \<le> int n" by (simp add: set_ordinals)
  ultimately show ?thesis by (simp add: s)
qed (use run in simp)

section \<open>Transition systems with an invariant\<close>

text \<open>
  Several components promise the same thing: every operation keeps an invariant. The
  locale proves once that a whole run keeps it and that runs compose.
\<close>

fun run_steps :: "('s \<Rightarrow> 'e \<Rightarrow> 's) \<Rightarrow> 's \<Rightarrow> 'e list \<Rightarrow> 's" where
  "run_steps step s [] = s"
| "run_steps step s (e # es) = run_steps step (step s e) es"

lemma run_steps_append: "run_steps step s (xs @ ys) = run_steps step (run_steps step s xs) ys"
  by (induction xs arbitrary: s) auto

locale step_system =
  fixes step :: "'s \<Rightarrow> 'e \<Rightarrow> 's" and init :: 's and inv :: "'s \<Rightarrow> bool"
  assumes init_inv: "inv init"
    and step_inv: "inv s \<Longrightarrow> inv (step s e)"
begin

lemma run_inv: "inv s \<Longrightarrow> inv (run_steps step s es)"
  by (induction es arbitrary: s) (auto intro: step_inv)

lemma reachable_inv: "inv (run_steps step init es)"
  by (rule run_inv [OF init_inv])

end

end
