(* ===== verification/ProtocolLog.thy ===== *)
theory ProtocolLog
  imports Prelude
begin

text \<open>
  The append-only protocol event table (\<open>protocol/store.ts\<close>,
  \<open>protocol/protocol.sql.ts\<close>): per-aggregate sequence numbers, the unique indexes the
  schema declares, and the trigger that freezes a deleted Task. Only the columns the
  lifecycle of a Task reads are kept. An identifier that the code draws from
  \<open>Identifier.ascending\<close> is the argument \<open>fresh\<close> of an operation.
\<close>

datatype event_type =
    TaskExecutionOpened | TaskExecutionReopened
  | TaskCancellationRequested
  | TaskCompleted | TaskFailed | TaskCancelled | TaskDeleted
  | OtherEvent string

datatype aggregate_kind = AggTask | AggSession | AggOther string

record protocol_event =
  event_id :: string
  event_kind :: event_type
  aggregate :: aggregate_kind
  aggregate_id :: string
  event_session :: "string option"
  event_source :: string
  causation_id :: "string option"
  seq_no :: int
  emitted_at :: int
  payload_epoch :: js_value
  payload_error :: js_value
  payload_reason :: js_value

record event_input =
  in_kind :: event_type
  in_aggregate :: aggregate_kind
  in_aggregate_id :: string
  in_session :: "string option"
  in_source :: string
  in_causation :: "string option"
  in_seq :: "int option"
  in_emitted_at :: int
  in_epoch :: js_value
  in_error :: js_value
  in_reason :: js_value

datatype log_error =
    SequenceConflict int int
  | MissingTaskRow string
  | MissingSessionRow string
  | InvalidOrderTime
  | DeletedTaskRejectsFacts
  | UniqueViolation string

text \<open>The rows of one aggregate, and its next sequence number (\<open>coalesce(max(seq), 0) + 1\<close>).\<close>

definition aggregate_rows :: "aggregate_kind \<Rightarrow> string \<Rightarrow> protocol_event list \<Rightarrow> protocol_event list" where
  "aggregate_rows agg aid tbl = filter (\<lambda>r. aggregate r = agg \<and> aggregate_id r = aid) tbl"

definition next_aggregate_sequence :: "protocol_event list \<Rightarrow> aggregate_kind \<Rightarrow> string \<Rightarrow> int" where
  "next_aggregate_sequence tbl agg aid =
     (case map seq_no (aggregate_rows agg aid tbl) of [] \<Rightarrow> 1 | s # ss \<Rightarrow> foldl max s ss + 1)"

definition reserve_explicit_sequence ::
  "protocol_event list \<Rightarrow> aggregate_kind \<Rightarrow> string \<Rightarrow> int \<Rightarrow> log_error + int" where
  "reserve_explicit_sequence tbl agg aid sequence =
     (let current = next_aggregate_sequence tbl agg aid - 1
      in if sequence \<le> current then Inl (SequenceConflict sequence current) else Inr sequence)"

text \<open>
  The partial unique indexes on a Task's lifecycle rows. A row whose JSON epoch is missing
  has the SQL value NULL there, and NULLs never conflict.
\<close>

definition task_open_event_types :: "event_type list" where
  "task_open_event_types = [TaskExecutionOpened, TaskExecutionReopened]"

definition task_terminal_event_types :: "event_type list" where
  "task_terminal_event_types = [TaskCompleted, TaskFailed, TaskCancelled]"

definition task_boundary_request_event_types :: "event_type list" where
  "task_boundary_request_event_types = [TaskCancellationRequested]"

lemmas lifecycle_type_defs =
  task_open_event_types_def task_terminal_event_types_def task_boundary_request_event_types_def

fun sql_null :: "js_value \<Rightarrow> bool" where
  "sql_null JUndefined \<longleftrightarrow> True"
| "sql_null JNull \<longleftrightarrow> True"
| "sql_null _ \<longleftrightarrow> False"

definition epoch_index_clash :: "event_type list \<Rightarrow> protocol_event \<Rightarrow> protocol_event \<Rightarrow> bool" where
  "epoch_index_clash kinds r s \<longleftrightarrow>
     aggregate r = AggTask \<and> aggregate s = AggTask
     \<and> event_kind r \<in> set kinds \<and> event_kind s \<in> set kinds
     \<and> aggregate_id r = aggregate_id s
     \<and> \<not> sql_null (payload_epoch r) \<and> payload_epoch r = payload_epoch s"

definition protocol_event_constraints :: "protocol_event list \<Rightarrow> protocol_event \<Rightarrow> log_error + unit" where
  "protocol_event_constraints tbl r =
     (if list_ex (\<lambda>s. event_id s = event_id r) tbl then Inl (UniqueViolation ''protocol_event.id'')
      else if list_ex (\<lambda>s. aggregate s = aggregate r \<and> aggregate_id s = aggregate_id r \<and> seq_no s = seq_no r) tbl
        then Inl (UniqueViolation ''protocol_event_aggregate_seq_idx'')
      else if list_ex (epoch_index_clash task_open_event_types r) tbl
        then Inl (UniqueViolation ''protocol_event_task_epoch_open_idx'')
      else if list_ex (epoch_index_clash task_terminal_event_types r) tbl
        then Inl (UniqueViolation ''protocol_event_task_epoch_terminal_idx'')
      else if list_ex (epoch_index_clash task_boundary_request_event_types r) tbl
        then Inl (UniqueViolation ''protocol_event_task_epoch_boundary_request_idx'')
      else if aggregate r = AggTask \<and> event_kind r = TaskDeleted
           \<and> list_ex (\<lambda>s. aggregate s = AggTask \<and> event_kind s = TaskDeleted \<and> aggregate_id s = aggregate_id r) tbl
        then Inl (UniqueViolation ''protocol_event_task_deleted_idx'')
      else Inr ())"

definition task_deleted :: "protocol_event list \<Rightarrow> string \<Rightarrow> bool" where
  "task_deleted tbl tid \<longleftrightarrow>
     list_ex (\<lambda>s. aggregate s = AggTask \<and> aggregate_id s = tid \<and> event_kind s = TaskDeleted) tbl"

definition deleted_task_no_insert :: "protocol_event list \<Rightarrow> protocol_event \<Rightarrow> log_error + unit" where
  "deleted_task_no_insert tbl r =
     (if aggregate r = AggTask \<and> event_kind r \<noteq> TaskDeleted \<and> task_deleted tbl (aggregate_id r)
      then Inl DeletedTaskRejectsFacts else Inr ())"

text \<open>
  \<open>insertProtocolEvent\<close>: the order key of a Task fact needs a positive time, the Task and
  the Session it names must exist, then the insert runs the trigger and the indexes.
  \<open>tasks\<close> and \<open>sess\<close> are the identities in \<open>engine_task\<close> and \<open>session\<close>.
\<close>

definition insert_protocol_event ::
  "string list \<Rightarrow> string list \<Rightarrow> protocol_event list \<Rightarrow> event_input \<Rightarrow> int \<Rightarrow> string
   \<Rightarrow> log_error + protocol_event list \<times> protocol_event" where
  "insert_protocol_event tasks sess tbl inp sequence fresh =
     (let row = \<lparr>event_id = fresh, event_kind = in_kind inp, aggregate = in_aggregate inp,
                 aggregate_id = in_aggregate_id inp,
                 event_session = (if in_aggregate inp = AggSession then None else in_session inp),
                 event_source = in_source inp, causation_id = in_causation inp, seq_no = sequence,
                 emitted_at = in_emitted_at inp, payload_epoch = in_epoch inp,
                 payload_error = in_error inp, payload_reason = in_reason inp\<rparr>;
          session_ref = (if in_aggregate inp = AggSession then Some (in_aggregate_id inp) else in_session inp)
      in if in_emitted_at inp \<le> 0 then Inl InvalidOrderTime
         else if in_aggregate inp = AggTask \<and> in_aggregate_id inp \<notin> set tasks
           then Inl (MissingTaskRow (in_aggregate_id inp))
         else if (case session_ref of None \<Rightarrow> False | Some s \<Rightarrow> s \<noteq> [] \<and> s \<notin> set sess)
           then Inl (MissingSessionRow (case session_ref of None \<Rightarrow> [] | Some s \<Rightarrow> s))
         else rbind (deleted_task_no_insert tbl row) (\<lambda>_.
              rbind (protocol_event_constraints tbl row) (\<lambda>_. Inr (tbl @ [row], row))))"

definition append_event_in_transaction ::
  "string list \<Rightarrow> string list \<Rightarrow> protocol_event list \<Rightarrow> event_input \<Rightarrow> string
   \<Rightarrow> log_error + protocol_event list \<times> protocol_event" where
  "append_event_in_transaction tasks sess tbl inp fresh =
     rbind (case in_seq inp of
              Some n \<Rightarrow> (if 0 < n then reserve_explicit_sequence tbl (in_aggregate inp) (in_aggregate_id inp) n
                         else Inr (next_aggregate_sequence tbl (in_aggregate inp) (in_aggregate_id inp)))
            | None \<Rightarrow> Inr (next_aggregate_sequence tbl (in_aggregate inp) (in_aggregate_id inp)))
       (\<lambda>sequence. insert_protocol_event tasks sess tbl inp sequence fresh)"

section \<open>The table invariant\<close>

text \<open>
  What the schema promises of every table: identities are unique, an aggregate's rows are
  in strictly ascending sequence order, and no Task has two open, two terminal or two
  boundary-request facts for one epoch.
\<close>

definition log_ok :: "protocol_event list \<Rightarrow> bool" where
  "log_ok tbl \<longleftrightarrow>
     distinct (map event_id tbl)
     \<and> sorted_wrt (\<lambda>r s. aggregate r = aggregate s \<longrightarrow> aggregate_id r = aggregate_id s \<longrightarrow> seq_no r < seq_no s) tbl
     \<and> sorted_wrt (\<lambda>r s. \<not> epoch_index_clash task_open_event_types s r) tbl
     \<and> sorted_wrt (\<lambda>r s. \<not> epoch_index_clash task_terminal_event_types s r) tbl
     \<and> sorted_wrt (\<lambda>r s. \<not> epoch_index_clash task_boundary_request_event_types s r) tbl"

lemma log_ok_Nil [simp]: "log_ok []"
  by (simp add: log_ok_def)

lemma foldl_max_ge: "x \<in> set (s # ss) \<Longrightarrow> x \<le> foldl max s (ss :: int list)"
proof (induction ss arbitrary: s x)
  case Nil
  then show ?case by simp
next
  case (Cons a ss)
  have "max s a \<le> foldl max (max s a) ss" by (rule Cons.IH) simp
  moreover have "x \<le> max s a \<or> x \<in> set ss" using Cons.prems by auto
  ultimately show ?case using Cons.IH [of x "max s a"] by auto
qed

lemma next_aggregate_sequence_gt:
  assumes "r \<in> set tbl" "aggregate r = agg" "aggregate_id r = aid"
  shows "seq_no r < next_aggregate_sequence tbl agg aid"
proof -
  have mem: "seq_no r \<in> set (map seq_no (aggregate_rows agg aid tbl))"
    using assms by (auto simp: aggregate_rows_def)
  then obtain s ss where "map seq_no (aggregate_rows agg aid tbl) = s # ss"
    by (metis list.exhaust list.set(1) empty_iff)
  with foldl_max_ge [of "seq_no r" s ss] mem show ?thesis
    by (simp add: next_aggregate_sequence_def del: map_eq_Cons_conv)
qed

lemma reserve_explicit_gt:
  assumes "reserve_explicit_sequence tbl agg aid n = Inr m"
    and "r \<in> set tbl" "aggregate r = agg" "aggregate_id r = aid"
  shows "seq_no r < m"
  using next_aggregate_sequence_gt [OF assms(2-4)] assms(1)
  by (auto simp: reserve_explicit_sequence_def Let_def split: if_splits)

lemma append_event_cases:
  assumes "append_event_in_transaction tasks sess tbl inp fresh = Inr (tbl', row)"
  shows "tbl' = tbl @ [row]" "event_id row = fresh" "event_kind row = in_kind inp"
    "aggregate row = in_aggregate inp" "aggregate_id row = in_aggregate_id inp"
    "payload_epoch row = in_epoch inp" "payload_error row = in_error inp"
    "payload_reason row = in_reason inp" "emitted_at row = in_emitted_at inp"
    "causation_id row = in_causation inp"
    "protocol_event_constraints tbl row = Inr ()" "deleted_task_no_insert tbl row = Inr ()"
    "\<And>r. r \<in> set tbl \<Longrightarrow> aggregate r = aggregate row \<Longrightarrow> aggregate_id r = aggregate_id row \<Longrightarrow> seq_no r < seq_no row"
  using assms
  by (auto simp: append_event_in_transaction_def insert_protocol_event_def Let_def rbind_Inr_iff
      next_aggregate_sequence_gt reserve_explicit_gt split: option.splits if_splits)

lemma constraints_fresh_id:
  "protocol_event_constraints tbl row = Inr () \<Longrightarrow> event_id row \<notin> event_id ` set tbl"
  by (force simp: protocol_event_constraints_def list_ex_iff split: if_splits)

lemma constraints_ok:
  assumes "protocol_event_constraints tbl row = Inr ()" and "s \<in> set tbl"
  shows "\<not> epoch_index_clash task_open_event_types row s"
    "\<not> epoch_index_clash task_terminal_event_types row s"
    "\<not> epoch_index_clash task_boundary_request_event_types row s"
  using assms by (auto simp: protocol_event_constraints_def list_ex_iff split: if_splits)

lemma append_event_log_ok:
  assumes "log_ok tbl" and "append_event_in_transaction tasks sess tbl inp fresh = Inr (tbl', row)"
  shows "log_ok tbl'"
proof -
  note row = append_event_cases [OF assms(2)]
  show ?thesis
    using assms(1) row(13) constraints_ok [OF row(11)] constraints_fresh_id [OF row(11)]
    unfolding row(1) log_ok_def by (simp add: sorted_wrt_append)
qed

end
