(* ===== verification/Lifecycle.thy ===== *)
theory Lifecycle
  imports ProtocolLog
begin

text \<open>
  The lifecycle of a Task: \<open>engine/task-lifecycle.ts\<close> (the projection of the immutable
  lifecycle events), \<open>engine/task-status.ts\<close> (the predicates over it), the Task writer of
  \<open>engine/state.ts\<close> and the cancellation admission of \<open>task-api/index.ts\<close>.
\<close>

section \<open>Status predicates (task-status.ts)\<close>

datatype lifecycle_status = Active | Cancelling | Completed | Failed | Cancelled

datatype derived_status = DActive | DCompleted | DFailed | DCancelled

datatype terminal_reason = RCompleted | RFailed | RCancelled | RInterrupted

record task_status_fields =
  lifecycle_status :: lifecycle_status
  interrupted_reason :: bool

definition is_task_cancelled :: "task_status_fields \<Rightarrow> bool" where
  "is_task_cancelled t \<longleftrightarrow> lifecycle_status t = Cancelled"

definition is_task_interrupted :: "task_status_fields \<Rightarrow> bool" where
  "is_task_interrupted t \<longleftrightarrow> interrupted_reason t"

definition is_task_terminal :: "task_status_fields \<Rightarrow> bool" where
  "is_task_terminal t \<longleftrightarrow>
     lifecycle_status t = Completed \<or> lifecycle_status t = Failed \<or> lifecycle_status t = Cancelled"

definition is_task_completed :: "task_status_fields \<Rightarrow> bool" where
  "is_task_completed t \<longleftrightarrow> lifecycle_status t = Completed"

definition is_task_failed :: "task_status_fields \<Rightarrow> bool" where
  "is_task_failed t \<longleftrightarrow> lifecycle_status t = Failed"

definition is_task_active :: "task_status_fields \<Rightarrow> bool" where
  "is_task_active t \<longleftrightarrow> lifecycle_status t = Active \<or> lifecycle_status t = Cancelling"

fun derive_task_status :: "task_status_fields \<Rightarrow> derived_status" where
  "derive_task_status t =
     (if lifecycle_status t = Cancelled then DCancelled
      else if lifecycle_status t = Failed then DFailed
      else if lifecycle_status t = Completed then DCompleted
      else DActive)"

definition task_terminal_reason :: "task_status_fields \<Rightarrow> terminal_reason option" where
  "task_terminal_reason t =
     (if \<not> is_task_terminal t then None
      else if is_task_cancelled t then Some RCancelled
      else if is_task_interrupted t then Some RInterrupted
      else if lifecycle_status t = Failed then Some RFailed else Some RCompleted)"

lemmas task_status_defs =
  is_task_cancelled_def is_task_interrupted_def is_task_terminal_def is_task_completed_def
  is_task_failed_def is_task_active_def task_terminal_reason_def

section \<open>The projection (task-lifecycle.ts)\<close>

datatype lifecycle_error =
    MissingExecutionEpoch
  | NoExecutionOpenFact
  | EpochNotTerminal
  | LogError log_error
  | TaskRowNotFound
  | TaskAlreadyDeleted
  | ReopenWithoutRootSession
  | CancellationCannotBeSuperseded
  | CancellationNotFromExactRequest
  | CancellationLifecycleConflict
  | EventNotFound
  | SchedulerRejected
  | EffectRejected

definition epoch_of :: "protocol_event \<Rightarrow> lifecycle_error + int" where
  "epoch_of row =
     (if \<not> is_safe_integer (payload_epoch row) \<or> js_number (payload_epoch row) \<le> 0
      then Inl MissingExecutionEpoch else Inr (js_number (payload_epoch row)))"

definition row_epoch :: "protocol_event \<Rightarrow> int" where
  "row_epoch row = js_number (payload_epoch row)"

definition epoch_valid :: "protocol_event \<Rightarrow> bool" where
  "epoch_valid row \<longleftrightarrow> is_safe_integer (payload_epoch row) \<and> 0 < row_epoch row"

definition is_open_event :: "protocol_event \<Rightarrow> bool" where
  "is_open_event r \<longleftrightarrow> event_kind r \<in> set task_open_event_types"

definition is_terminal_event :: "protocol_event \<Rightarrow> bool" where
  "is_terminal_event r \<longleftrightarrow> event_kind r \<in> set task_terminal_event_types"

definition is_boundary_event :: "protocol_event \<Rightarrow> bool" where
  "is_boundary_event r \<longleftrightarrow> event_kind r \<in> set task_boundary_request_event_types"

lemmas event_class_defs = is_open_event_def is_terminal_event_def is_boundary_event_def lifecycle_type_defs

text \<open>
  The rows of one Task, ordered by sequence then identity; \<open>idcmp\<close> is SQLite's text
  order on identities (it never decides: an aggregate's sequence numbers are unique).
\<close>

definition lifecycle_rows ::
  "(string \<Rightarrow> string \<Rightarrow> int) \<Rightarrow> protocol_event list \<Rightarrow> string \<Rightarrow> int option \<Rightarrow> protocol_event list" where
  "lifecycle_rows idcmp tbl tid through =
     filter (\<lambda>r. case through of None \<Rightarrow> True | Some t \<Rightarrow> emitted_at r \<le> t)
       (sort_by (cmp_or (cmp_key seq_no) (\<lambda>a b. idcmp (event_id a) (event_id b)))
         (filter (\<lambda>r. aggregate r = AggTask \<and> aggregate_id r = tid
                    \<and> (is_open_event r \<or> is_terminal_event r \<or> is_boundary_event r)) tbl))"

record lifecycle_projection =
  proj_task :: string
  proj_epoch :: int
  opened_event :: string
  opened_at :: int
  proj_status :: lifecycle_status
  request_event :: "string option"
  terminal_event :: "string option"
  terminal_at :: "int option"
  terminal_error :: "string option"
  proj_interrupted :: bool

fun terminal_status_of :: "event_type \<Rightarrow> lifecycle_status" where
  "terminal_status_of k =
     (if k = TaskCancelled then Cancelled else if k = TaskFailed then Failed else Completed)"

definition reduce_lifecycle_rows ::
  "string \<Rightarrow> protocol_event list \<Rightarrow> lifecycle_error + lifecycle_projection" where
  "reduce_lifecycle_rows tid rows =
     (let opened = filter is_open_event rows
      in if opened = [] then Inl NoExecutionOpenFact
         else rbind (rtraverse epoch_of opened) (\<lambda>_.
           let latest_open = hd (sort_by (cmp_key_desc row_epoch) opened)
           in rbind (rtraverse epoch_of rows) (\<lambda>_.
             let epoch = row_epoch latest_open;
                 same_epoch = filter (\<lambda>r. row_epoch r = epoch) rows;
                 base = \<lparr>proj_task = tid, proj_epoch = epoch, opened_event = event_id latest_open,
                         opened_at = emitted_at latest_open, proj_status = Active,
                         request_event = None, terminal_event = None, terminal_at = None,
                         terminal_error = None, proj_interrupted = False\<rparr>
             in case filter is_terminal_event same_epoch of
                  t # _ \<Rightarrow> Inr (base\<lparr>proj_status := terminal_status_of (event_kind t),
                                 terminal_event := Some (event_id t),
                                 terminal_at := Some (emitted_at t),
                                 terminal_error := js_string_value (payload_error t),
                                 proj_interrupted := (payload_reason t = JStr ''interrupted'')\<rparr>)
                | [] \<Rightarrow> (case filter is_boundary_event same_epoch of
                     q # _ \<Rightarrow> Inr (base\<lparr>proj_status := Cancelling, request_event := Some (event_id q)\<rparr>)
                   | [] \<Rightarrow> Inr base))))"

definition task_lifecycle_projection ::
  "(string \<Rightarrow> string \<Rightarrow> int) \<Rightarrow> protocol_event list \<Rightarrow> string \<Rightarrow> lifecycle_error + lifecycle_projection" where
  "task_lifecycle_projection idcmp tbl tid = reduce_lifecycle_rows tid (lifecycle_rows idcmp tbl tid None)"

definition task_lifecycle_projection_at ::
  "(string \<Rightarrow> string \<Rightarrow> int) \<Rightarrow> protocol_event list \<Rightarrow> string \<Rightarrow> int \<Rightarrow> lifecycle_error + lifecycle_projection" where
  "task_lifecycle_projection_at idcmp tbl tid through =
     reduce_lifecycle_rows tid (lifecycle_rows idcmp tbl tid (Some through))"

section \<open>Task rows and the writers\<close>

text \<open>
  The database as the writers see it: the event log, the Task rows, the Session identities,
  and the two outboxes a transaction fills (bus publications and scheduler messages).
\<close>

type_synonym columns = "(string \<times> js_value) list"

record task_row =
  row_id :: string
  row_project :: string
  row_session :: "string option"
  row_columns :: columns
  row_metadata :: columns

record task_db =
  event_log :: "protocol_event list"
  task_rows :: "task_row list"
  session_ids :: "string list"
  bus_outbox :: "(event_type \<times> string \<times> int) list"
  scheduler_outbox :: "(string \<times> string \<times> string) list"

definition find_task :: "task_db \<Rightarrow> string \<Rightarrow> task_row option" where
  "find_task db tid = find (\<lambda>t. row_id t = tid) (task_rows db)"

definition append_event ::
  "task_db \<Rightarrow> event_input \<Rightarrow> string \<Rightarrow> lifecycle_error + task_db \<times> protocol_event" where
  "append_event db inp fresh =
     (case append_event_in_transaction (map row_id (task_rows db)) (session_ids db) (event_log db) inp fresh of
        Inl e \<Rightarrow> Inl (LogError e)
      | Inr (tbl, row) \<Rightarrow> Inr (db\<lparr>event_log := tbl\<rparr>, row))"

definition task_event_input ::
  "event_type \<Rightarrow> string \<Rightarrow> string option \<Rightarrow> string \<Rightarrow> string option \<Rightarrow> int \<Rightarrow> js_value
   \<Rightarrow> js_value \<Rightarrow> js_value \<Rightarrow> event_input" where
  "task_event_input k tid sess source caus now epoch err reason =
     \<lparr>in_kind = k, in_aggregate = AggTask, in_aggregate_id = tid, in_session = sess,
      in_source = source, in_causation = caus, in_seq = None, in_emitted_at = now,
      in_epoch = epoch, in_error = err, in_reason = reason\<rparr>"

definition append_task_opened ::
  "task_db \<Rightarrow> string \<Rightarrow> string \<Rightarrow> int \<Rightarrow> string \<Rightarrow> string \<Rightarrow> lifecycle_error + task_db \<times> string" where
  "append_task_opened db tid sid now source fresh =
     rbind (append_event db
              (task_event_input TaskExecutionOpened tid (Some sid) source None now (JInt 1) JUndefined JUndefined) fresh)
       (\<lambda>(db', ev). Inr (db', event_id ev))"

definition append_task_reopened ::
  "(string \<Rightarrow> string \<Rightarrow> int) \<Rightarrow> task_db \<Rightarrow> string \<Rightarrow> string \<Rightarrow> int \<Rightarrow> string \<Rightarrow> string
   \<Rightarrow> lifecycle_error + task_db \<times> lifecycle_projection" where
  "append_task_reopened idcmp db tid sid now source fresh =
     rbind (task_lifecycle_projection idcmp (event_log db) tid) (\<lambda>current.
       if proj_status current = Active \<or> proj_status current = Cancelling then Inl EpochNotTerminal
       else rbind (append_event db
              (task_event_input TaskExecutionReopened tid (Some sid) source (terminal_event current) now
                 (JInt (proj_epoch current + 1)) JUndefined JUndefined) fresh)
         (\<lambda>(db', ev). rbind (task_lifecycle_projection idcmp (event_log db') tid)
            (\<lambda>p. Inr (db', p))))"

definition latest_lifecycle_request ::
  "(string \<Rightarrow> string \<Rightarrow> int) \<Rightarrow> task_db \<Rightarrow> string \<Rightarrow> lifecycle_error + protocol_event option" where
  "latest_lifecycle_request idcmp db tid =
     rbind (task_lifecycle_projection idcmp (event_log db) tid) (\<lambda>p.
       Inr (case request_event p of None \<Rightarrow> None
            | Some rid \<Rightarrow> find (\<lambda>r. event_id r = rid) (event_log db)))"

text \<open>
  The deletion boundary of \<open>task-api/index.ts\<close>: its payload spells the epoch
  \<open>executionEpoch\<close>, so the column \<open>execution_epoch\<close> of that row is missing.
\<close>

definition append_task_deleted_boundary ::
  "(string \<Rightarrow> string \<Rightarrow> int) \<Rightarrow> task_db \<Rightarrow> string \<Rightarrow> int \<Rightarrow> string \<Rightarrow> lifecycle_error + task_db" where
  "append_task_deleted_boundary idcmp db tid now fresh =
     (if task_deleted (event_log db) tid then Inr db
      else rbind (task_lifecycle_projection idcmp (event_log db) tid) (\<lambda>p.
        rbind (append_event db
            (task_event_input TaskDeleted tid None ''task.delete'' None now JUndefined JUndefined JUndefined) fresh)
          (\<lambda>(db', _). Inr (db'\<lparr>bus_outbox := bus_outbox db' @ [(TaskDeleted, tid, proj_epoch p)]\<rparr>))))"

text \<open>The write transaction of \<open>cancelTaskOnce\<close>: the event it takes as the cancellation request.\<close>

definition admit_cancellation ::
  "(string \<Rightarrow> string \<Rightarrow> int) \<Rightarrow> task_db \<Rightarrow> string \<Rightarrow> string option \<Rightarrow> string \<Rightarrow> int \<Rightarrow> string
   \<Rightarrow> lifecycle_error + task_db \<times> protocol_event" where
  "admit_cancellation idcmp db tid sess source now fresh =
     (case find_task db tid of None \<Rightarrow> Inl TaskRowNotFound
      | Some _ \<Rightarrow> rbind (task_lifecycle_projection idcmp (event_log db) tid) (\<lambda>lc.
          if proj_status lc = Completed \<or> proj_status lc = Failed then Inl CancellationLifecycleConflict
          else if proj_status lc = Cancelled then
            (case find (\<lambda>r. event_kind r = TaskCancelled \<and> aggregate r = AggTask \<and> aggregate_id r = tid)
                   (rev (event_log db)) of
               None \<Rightarrow> Inl EventNotFound | Some e \<Rightarrow> Inr (db, e))
          else case request_event lc of
            Some rid \<Rightarrow> (case find (\<lambda>r. event_id r = rid) (event_log db) of
                           None \<Rightarrow> Inl EventNotFound | Some e \<Rightarrow> Inr (db, e))
          | None \<Rightarrow> append_event db
              (task_event_input TaskCancellationRequested tid sess source None now
                 (JInt (proj_epoch lc)) JUndefined JUndefined) fresh))"

datatype terminal_status = TCompleted | TFailed | TCancelled

datatype update_intent = IActive | ITerminal terminal_status

record task_update =
  upd_intent :: "update_intent option"
  upd_error :: "string option option"
  upd_columns :: columns
  upd_metadata :: "columns option"

datatype update_result = Updated task_row | Unchanged task_row | ExistingTerminal task_row

definition is_terminal_intent :: "task_update \<Rightarrow> bool" where
  "is_terminal_intent v \<longleftrightarrow> (\<exists>t. upd_intent v = Some (ITerminal t))"

lemma is_terminal_intent_code [code]:
  "is_terminal_intent v = (case upd_intent v of Some (ITerminal t) \<Rightarrow> True | _ \<Rightarrow> False)"
  by (auto simp: is_terminal_intent_def split: option.splits update_intent.splits)

definition drop_keys :: "string list \<Rightarrow> columns \<Rightarrow> columns" where
  "drop_keys ks cs = filter (\<lambda>(k, _). k \<notin> set ks) cs"

definition set_columns :: "columns \<Rightarrow> columns \<Rightarrow> columns" where
  "set_columns new old = new @ drop_keys (map fst new) old"

definition current_error :: "lifecycle_projection \<Rightarrow> string option" where
  "current_error lc =
     (if proj_status lc = Failed then Some (case terminal_error lc of Some e \<Rightarrow> e | None \<Rightarrow> ''failed'')
      else if proj_status lc = Cancelled then Some (case terminal_error lc of Some e \<Rightarrow> e | None \<Rightarrow> ''cancelled'')
      else None)"

definition next_error :: "lifecycle_projection \<Rightarrow> task_update \<Rightarrow> string option" where
  "next_error lc v = (case upd_error v of None \<Rightarrow> current_error lc | Some e \<Rightarrow> e)"

definition persist_columns :: "task_db \<Rightarrow> string \<Rightarrow> task_update \<Rightarrow> task_db" where
  "persist_columns db tid v =
     (let cols = drop_keys [''status'', ''error'', ''time_started'', ''time_completed''] (upd_columns v)
      in db\<lparr>task_rows := map (\<lambda>t. if row_id t = tid then
              t\<lparr>row_columns := set_columns cols (row_columns t),
                row_metadata := (case upd_metadata v of None \<Rightarrow> row_metadata t
                                 | Some m \<Rightarrow> drop_keys [''cancelled'', ''interrupted''] m)\<rparr> else t) (task_rows db)\<rparr>)"

definition update_is_noop :: "task_update \<Rightarrow> bool" where
  "update_is_noop v \<longleftrightarrow> upd_columns v = [] \<and> upd_metadata v = None \<and> upd_intent v = None"

fun terminal_event_type :: "terminal_status \<Rightarrow> event_type" where
  "terminal_event_type TCompleted = TaskCompleted"
| "terminal_event_type TFailed = TaskFailed"
| "terminal_event_type TCancelled = TaskCancelled"

record update_env =
  env_idcmp :: "string \<Rightarrow> string \<Rightarrow> int"
  env_creator_mission :: "columns \<Rightarrow> (string \<times> string) option"
  env_effect :: "task_db \<Rightarrow> lifecycle_error + task_db"
  env_enqueue :: "task_db \<Rightarrow> string \<times> string \<times> string \<Rightarrow> lifecycle_error + task_db"

text \<open>
  The payload each terminal event needs: \<open>completed\<close> carries no error, \<open>failed\<close> and
  \<open>cancelled\<close> a non-empty one (the event schemas of \<open>engine/model.ts\<close>).
\<close>

definition emit_terminal_event ::
  "task_db \<Rightarrow> string \<Rightarrow> terminal_status \<Rightarrow> lifecycle_projection \<Rightarrow> task_update \<Rightarrow> bool
   \<Rightarrow> protocol_event option \<Rightarrow> int \<Rightarrow> string \<Rightarrow> lifecycle_error + task_db \<times> protocol_event" where
  "emit_terminal_event db tid st lc v interrupted canc now fresh =
     (let err = next_error lc v;
          inp = task_event_input (terminal_event_type st) tid
                  (if st = TCancelled then Option.bind canc event_session else None) ''state.task''
                  (if st = TCancelled then map_option event_id canc else None) now (JInt (proj_epoch lc))
                  (if st = TCompleted then JUndefined else case err of None \<Rightarrow> JNull | Some e \<Rightarrow> JStr e)
                  (if st = TFailed \<and> interrupted then JStr ''interrupted'' else JUndefined)
      in if st = TFailed \<and> (err = None \<or> err = Some []) then Inl EffectRejected
         else if st = TCancelled \<and> (case err of None \<Rightarrow> True | Some e \<Rightarrow> blank e) then Inl EffectRejected
         else rbind (append_event db inp fresh) (\<lambda>(db', ev).
           Inr (db'\<lparr>bus_outbox := bus_outbox db' @ [(terminal_event_type st, tid, proj_epoch lc)]\<rparr>, ev)))"

definition notify_mission ::
  "update_env \<Rightarrow> task_db \<Rightarrow> task_row \<Rightarrow> protocol_event option \<Rightarrow> protocol_event \<Rightarrow> terminal_status
   \<Rightarrow> lifecycle_error + task_db" where
  "notify_mission env db row canc ev st =
     (case env_creator_mission env (row_metadata row) of
        None \<Rightarrow> Inr db
      | Some (mission, sess) \<Rightarrow>
          if st = TCancelled \<and> (case canc of None \<Rightarrow> False | Some c \<Rightarrow> event_source c = ''mission.delete'')
          then Inr db
          else if row_session row = None then Inl ReopenWithoutRootSession
          else env_enqueue env db (event_id ev, mission, sess))"

definition write_task_update ::
  "update_env \<Rightarrow> task_db \<Rightarrow> string \<Rightarrow> task_update \<Rightarrow> int \<Rightarrow> bool \<Rightarrow> protocol_event option \<Rightarrow> string
   \<Rightarrow> lifecycle_error + task_db \<times> update_result" where
  "write_task_update env db tid v now interrupted canc fresh =
     (case find_task db tid of None \<Rightarrow> Inl TaskRowNotFound
      | Some current \<Rightarrow>
        if task_deleted (event_log db) tid then Inl TaskAlreadyDeleted
        else rbind (task_lifecycle_projection (env_idcmp env) (event_log db) tid) (\<lambda>lc.
        let terminal = proj_status lc \<in> {Completed, Failed, Cancelled} in
        rbind (if upd_intent v = Some IActive \<and> terminal
               then (case row_session current of None \<Rightarrow> Inl ReopenWithoutRootSession
                     | Some sid \<Rightarrow> rbind (append_task_reopened (env_idcmp env) db tid sid now ''state.task'' fresh)
                         (\<lambda>(db1, _). Inr db1))
               else Inr db) (\<lambda>db1.
        if is_terminal_intent v \<and> terminal then Inr (db1, ExistingTerminal current)
        else if (upd_intent v = Some (ITerminal TCompleted) \<or> upd_intent v = Some (ITerminal TFailed))
                \<and> proj_status lc = Cancelling then Inl CancellationCannotBeSuperseded
        else if upd_intent v = Some (ITerminal TCancelled) \<and> request_event lc \<noteq> map_option event_id canc
          then Inl CancellationNotFromExactRequest
        else let db2 = persist_columns db1 tid v;
                 row2 = (case find_task db2 tid of Some r \<Rightarrow> r | None \<Rightarrow> current) in
          case upd_intent v of
            Some (ITerminal st) \<Rightarrow>
              rbind (emit_terminal_event db2 tid st lc v interrupted canc now fresh) (\<lambda>(db3, ev).
              rbind (env_effect env db3) (\<lambda>db4.
              rbind (notify_mission env db4 row2 canc ev st) (\<lambda>db5. Inr (db5, Updated row2))))
          | _ \<Rightarrow> Inr (db2, if update_is_noop v then Unchanged row2 else Updated row2))))"

text \<open>The argument checks \<open>terminalTask\<close> makes before it touches Git or the database.\<close>

definition terminal_task_guard :: "terminal_status \<Rightarrow> string option \<Rightarrow> bool \<Rightarrow> bool \<Rightarrow> bool \<Rightarrow> bool" where
  "terminal_task_guard st err has_request interrupted pre_failure \<longleftrightarrow>
     \<not> (st = TCompleted \<and> err \<noteq> None)
     \<and> \<not> ((st = TFailed \<or> st = TCancelled) \<and> \<not> (case err of None \<Rightarrow> False | Some e \<Rightarrow> \<not> blank e))
     \<and> \<not> (st = TCancelled \<and> \<not> has_request)
     \<and> \<not> (st \<noteq> TCancelled \<and> has_request)
     \<and> \<not> (interrupted \<and> st \<noteq> TFailed)
     \<and> \<not> (pre_failure \<and> st \<noteq> TFailed)"

section \<open>Facts about the projection\<close>

definition task_facts :: "protocol_event list \<Rightarrow> string \<Rightarrow> protocol_event list" where
  "task_facts tbl tid =
     filter (\<lambda>r. aggregate r = AggTask \<and> aggregate_id r = tid
                \<and> (is_open_event r \<or> is_terminal_event r \<or> is_boundary_event r)) tbl"

lemma task_facts_simps [simp]:
  "task_facts [] tid = []"
  "task_facts (xs @ ys) tid = task_facts xs tid @ task_facts ys tid"
  by (simp_all add: task_facts_def)

lemma sorted_wrt_filterI: "sorted_wrt P xs \<Longrightarrow> sorted_wrt P (filter Q xs)"
  by (induction xs) auto

lemma lifecycle_rows_log_ok:
  assumes "log_ok tbl"
  shows "lifecycle_rows idcmp tbl tid None = task_facts tbl tid"
proof -
  let ?P = "\<lambda>r. aggregate r = AggTask \<and> aggregate_id r = tid
              \<and> (is_open_event r \<or> is_terminal_event r \<or> is_boundary_event r)"
  let ?c = "cmp_or (cmp_key seq_no) (\<lambda>a b. idcmp (event_id a) (event_id b))"
  have "sorted_wrt (\<lambda>r s. aggregate r = aggregate s \<longrightarrow> aggregate_id r = aggregate_id s \<longrightarrow> seq_no r < seq_no s)
          (filter ?P tbl)"
    using assms by (intro sorted_wrt_filterI) (simp add: log_ok_def)
  then have "sorted_wrt (\<lambda>a b. ?c a b \<le> 0) (filter ?P tbl)"
    by (rule sorted_wrt_mono_rel [rotated]) (auto simp: cmp_or_def cmp_key_def)
  then show ?thesis
    by (simp add: lifecycle_rows_def task_facts_def sort_by_sorted_id)
qed

lemma epoch_of_valid: "epoch_valid r \<Longrightarrow> epoch_of r = Inr (row_epoch r)"
  by (auto simp: epoch_valid_def epoch_of_def row_epoch_def)

lemma epoch_of_Inr_valid: "epoch_of r = Inr n \<Longrightarrow> epoch_valid r"
  by (auto simp: epoch_valid_def epoch_of_def row_epoch_def split: if_splits)

lemma rtraverse_epoch_valid: "list_all epoch_valid rows \<Longrightarrow> rtraverse epoch_of rows = Inr (map row_epoch rows)"
  by (rule rtraverse_total) (auto simp: list_all_iff epoch_of_valid)

lemma rtraverse_epoch_Inr: "rtraverse epoch_of rows = Inr ns \<Longrightarrow> list_all epoch_valid rows"
  by (auto simp: rtraverse_Inr_iff list_all2_conv_all_nth list_all_length epoch_of_Inr_valid)

text \<open>
  The promise of the lifecycle: epochs are valid, the open facts carry the epochs
  \<open>1, 2, \<dots>, n\<close> in order, no fact is of a later epoch, and every epoch before the last
  one has its terminal fact.
\<close>

definition open_epochs :: "protocol_event list \<Rightarrow> string \<Rightarrow> int list" where
  "open_epochs tbl tid = map row_epoch (filter is_open_event (task_facts tbl tid))"

definition has_terminal :: "protocol_event list \<Rightarrow> string \<Rightarrow> int \<Rightarrow> bool" where
  "has_terminal tbl tid k \<longleftrightarrow> list_ex (\<lambda>r. is_terminal_event r \<and> row_epoch r = k) (task_facts tbl tid)"

definition has_boundary :: "protocol_event list \<Rightarrow> string \<Rightarrow> int \<Rightarrow> bool" where
  "has_boundary tbl tid k \<longleftrightarrow> list_ex (\<lambda>r. is_boundary_event r \<and> row_epoch r = k) (task_facts tbl tid)"

definition lifecycle_ok :: "protocol_event list \<Rightarrow> string \<Rightarrow> bool" where
  "lifecycle_ok tbl tid \<longleftrightarrow>
     list_all epoch_valid (task_facts tbl tid)
     \<and> open_epochs tbl tid = ordinals (length (open_epochs tbl tid))
     \<and> list_all (\<lambda>r. row_epoch r \<le> int (length (open_epochs tbl tid))) (task_facts tbl tid)
     \<and> (\<forall>k. 1 \<le> k \<longrightarrow> k < int (length (open_epochs tbl tid)) \<longrightarrow> has_terminal tbl tid k)"

definition current_epoch :: "protocol_event list \<Rightarrow> string \<Rightarrow> int" where
  "current_epoch tbl tid = int (length (open_epochs tbl tid))"

lemma reduce_Inr_valid:
  "reduce_lifecycle_rows tid rows = Inr p \<Longrightarrow> list_all epoch_valid rows"
  by (auto simp: reduce_lifecycle_rows_def Let_def rbind_Inr_iff rtraverse_epoch_Inr split: if_splits)

lemma reduce_Inr_opened:
  "reduce_lifecycle_rows tid rows = Inr p \<Longrightarrow> filter is_open_event rows \<noteq> []"
  by (auto simp: reduce_lifecycle_rows_def Let_def split: if_splits)

lemma latest_open_max:
  assumes "filter is_open_event rows \<noteq> []"
  shows "hd (sort_by (cmp_key_desc row_epoch) (filter is_open_event rows)) \<in> set (filter is_open_event rows)"
    and "\<And>r. r \<in> set (filter is_open_event rows) \<Longrightarrow>
           row_epoch r \<le> row_epoch (hd (sort_by (cmp_key_desc row_epoch) (filter is_open_event rows)))"
proof -
  let ?s = "sort_by (cmp_key_desc row_epoch) (filter is_open_event rows)"
  from assms have "?s \<noteq> []" by simp
  then obtain h t where ht: "?s = h # t" by (cases ?s) auto
  have "hd ?s \<in> set ?s" using ht by simp
  then show "hd ?s \<in> set (filter is_open_event rows)" by (simp only: set_sort_by)
  fix r assume "r \<in> set (filter is_open_event rows)"
  from key_desc.sort_by_head_least [OF ht this] ht
  show "row_epoch r \<le> row_epoch (hd ?s)" by (simp add: cmp_key_desc_def)
qed

text \<open>The reduction, unfolded to what it says about the current epoch.\<close>

lemma reduce_lifecycle_rows_spec:
  assumes valid: "list_all epoch_valid rows" and opened: "filter is_open_event rows \<noteq> []"
    and len: "map row_epoch (filter is_open_event rows) = ordinals n"
  obtains p where "reduce_lifecycle_rows tid rows = Inr p" "proj_epoch p = int n"
    "proj_status p \<in> {Completed, Failed, Cancelled} \<longleftrightarrow> (\<exists>r \<in> set rows. is_terminal_event r \<and> row_epoch r = int n)"
    "proj_status p = Cancelling \<longleftrightarrow>
       \<not> (\<exists>r \<in> set rows. is_terminal_event r \<and> row_epoch r = int n) \<and> (\<exists>r \<in> set rows. is_boundary_event r \<and> row_epoch r = int n)"
    "\<And>t. terminal_event p = Some t \<Longrightarrow> \<exists>r \<in> set rows. is_terminal_event r \<and> row_epoch r = int n \<and> event_id r = t"
    "request_event p \<noteq> None \<longleftrightarrow> proj_status p = Cancelling"
proof -
  let ?o = "filter is_open_event rows"
  let ?h = "hd (sort_by (cmp_key_desc row_epoch) ?o)"
  from opened len have "0 < n" by (cases n) auto
  then have "int n \<in> set (map row_epoch ?o)" unfolding len by (simp add: set_ordinals)
  then obtain r where "r \<in> set ?o" "row_epoch r = int n" by auto
  with latest_open_max(2) [OF opened, of r] have "int n \<le> row_epoch ?h" by simp
  moreover have "row_epoch ?h \<in> set (ordinals n)"
    unfolding len [symmetric] using latest_open_max(1) [OF opened] by (auto simp del: filter_set)
  then have "row_epoch ?h \<le> int n" by (simp add: set_ordinals)
  ultimately have h: "row_epoch ?h = int n" by simp
  have valid_o: "list_all epoch_valid ?o" using valid by (auto simp: list_all_iff)
  let ?same = "filter (\<lambda>r. row_epoch r = int n) rows"
  have red: "reduce_lifecycle_rows tid rows = Inr p"
    if "p = (let base = \<lparr>proj_task = tid, proj_epoch = int n, opened_event = event_id ?h,
                         opened_at = emitted_at ?h, proj_status = Active,
                         request_event = None, terminal_event = None, terminal_at = None,
                         terminal_error = None, proj_interrupted = False\<rparr>
             in case filter is_terminal_event ?same of
                  t # _ \<Rightarrow> base\<lparr>proj_status := terminal_status_of (event_kind t),
                                 terminal_event := Some (event_id t),
                                 terminal_at := Some (emitted_at t),
                                 terminal_error := js_string_value (payload_error t),
                                 proj_interrupted := (payload_reason t = JStr ''interrupted'')\<rparr>
                | [] \<Rightarrow> (case filter is_boundary_event ?same of
                     q # _ \<Rightarrow> base\<lparr>proj_status := Cancelling, request_event := Some (event_id q)\<rparr>
                   | [] \<Rightarrow> base))" for p
    using opened rtraverse_epoch_valid [OF valid] rtraverse_epoch_valid [OF valid_o] h that
    by (auto simp: reduce_lifecycle_rows_def Let_def split: list.splits)
  have tm: "(\<exists>r \<in> set rows. is_terminal_event r \<and> row_epoch r = int n) \<longleftrightarrow> filter is_terminal_event ?same \<noteq> []"
    by (auto simp: filter_empty_conv)
  have bn: "(\<exists>r \<in> set rows. is_boundary_event r \<and> row_epoch r = int n) \<longleftrightarrow> filter is_boundary_event ?same \<noteq> []"
    by (auto simp: filter_empty_conv)
  have mem: "t \<in> set rows \<and> is_terminal_event t \<and> row_epoch t = int n" if "filter (\<lambda>r. row_epoch r = int n \<and> is_terminal_event r) rows = t # ts" for t ts
  proof -
    have "t \<in> set (filter (\<lambda>r. row_epoch r = int n \<and> is_terminal_event r) rows)" using that by simp
    then show ?thesis by simp
  qed
  show thesis
    by (rule that, rule red, rule refl, unfold tm bn)
       (auto simp: Let_def dest!: mem split: list.splits)
qed

section \<open>Every writer keeps the promise\<close>

lemma projection_spec:
  assumes log: "log_ok tbl" and ok: "lifecycle_ok tbl tid"
    and p: "task_lifecycle_projection idcmp tbl tid = Inr p"
  shows "proj_epoch p = current_epoch tbl tid" "0 < current_epoch tbl tid"
    "\<bar>current_epoch tbl tid\<bar> \<le> max_safe_integer"
    "proj_status p \<in> {Completed, Failed, Cancelled} \<longleftrightarrow> has_terminal tbl tid (current_epoch tbl tid)"
    "proj_status p = Cancelling \<longleftrightarrow>
       \<not> has_terminal tbl tid (current_epoch tbl tid) \<and> has_boundary tbl tid (current_epoch tbl tid)"
    "request_event p \<noteq> None \<longleftrightarrow> proj_status p = Cancelling"
proof -
  let ?f = "task_facts tbl tid"
  let ?n = "length (open_epochs tbl tid)"
  from p have red: "reduce_lifecycle_rows tid ?f = Inr p"
    by (simp add: task_lifecycle_projection_def lifecycle_rows_log_ok [OF log])
  note opened = reduce_Inr_opened [OF red]
  have len: "map row_epoch (filter is_open_event ?f) = ordinals ?n"
    using ok by (simp add: lifecycle_ok_def open_epochs_def)
  obtain q where q: "reduce_lifecycle_rows tid ?f = Inr q" "proj_epoch q = int ?n"
    "proj_status q \<in> {Completed, Failed, Cancelled} \<longleftrightarrow> (\<exists>r \<in> set ?f. is_terminal_event r \<and> row_epoch r = int ?n)"
    "proj_status q = Cancelling \<longleftrightarrow>
       \<not> (\<exists>r \<in> set ?f. is_terminal_event r \<and> row_epoch r = int ?n) \<and> (\<exists>r \<in> set ?f. is_boundary_event r \<and> row_epoch r = int ?n)"
    "request_event q \<noteq> None \<longleftrightarrow> proj_status q = Cancelling"
    by (rule reduce_lifecycle_rows_spec [OF reduce_Inr_valid [OF red] opened len])
  from q(1) red have [simp]: "q = p" by simp
  show "proj_epoch p = current_epoch tbl tid" using q(2) by (simp add: current_epoch_def)
  show pos: "0 < current_epoch tbl tid"
    using opened by (simp add: current_epoch_def open_epochs_def)
  show "proj_status p \<in> {Completed, Failed, Cancelled} \<longleftrightarrow> has_terminal tbl tid (current_epoch tbl tid)"
    using q(3) by (simp add: has_terminal_def current_epoch_def list_ex_iff)
  show "proj_status p = Cancelling \<longleftrightarrow>
       \<not> has_terminal tbl tid (current_epoch tbl tid) \<and> has_boundary tbl tid (current_epoch tbl tid)"
    using q(4) by (simp add: has_terminal_def has_boundary_def current_epoch_def list_ex_iff)
  show "request_event p \<noteq> None \<longleftrightarrow> proj_status p = Cancelling" using q(5) by simp
  have "int ?n \<in> set (map row_epoch (filter is_open_event ?f))"
    unfolding len using pos by (simp add: set_ordinals current_epoch_def Suc_le_eq)
  then obtain r where "r \<in> set ?f" "row_epoch r = int ?n" by auto
  with ok have "epoch_valid r" by (auto simp: lifecycle_ok_def list_all_iff)
  with \<open>row_epoch r = int ?n\<close> show "\<bar>current_epoch tbl tid\<bar> \<le> max_safe_integer"
    by (cases "payload_epoch r") (auto simp: epoch_valid_def row_epoch_def current_epoch_def)
qed

lemma event_classes_disjoint:
  "is_open_event r \<Longrightarrow> \<not> is_terminal_event r" "is_open_event r \<Longrightarrow> \<not> is_boundary_event r"
  "is_terminal_event r \<Longrightarrow> \<not> is_boundary_event r" "is_terminal_event r \<Longrightarrow> \<not> is_open_event r"
  "is_boundary_event r \<Longrightarrow> \<not> is_open_event r"
  by (auto simp: event_class_defs)

lemma lifecycle_ok_append_other:
  assumes "lifecycle_ok tbl tid" and "task_facts [ev] tid = []"
  shows "lifecycle_ok (tbl @ [ev]) tid" "current_epoch (tbl @ [ev]) tid = current_epoch tbl tid"
  using assms by (simp_all add: lifecycle_ok_def open_epochs_def has_terminal_def current_epoch_def)

lemma lifecycle_ok_append_closing:
  assumes "lifecycle_ok tbl tid" and "\<not> is_open_event ev"
    and "epoch_valid ev" "row_epoch ev \<le> current_epoch tbl tid"
  shows "lifecycle_ok (tbl @ [ev]) tid" "current_epoch (tbl @ [ev]) tid = current_epoch tbl tid"
proof -
  have facts: "task_facts [ev] tid = [] \<or> task_facts [ev] tid = [ev]" by (simp add: task_facts_def)
  have opens: "open_epochs (tbl @ [ev]) tid = open_epochs tbl tid"
    using facts assms(2) by (auto simp: open_epochs_def)
  show "current_epoch (tbl @ [ev]) tid = current_epoch tbl tid"
    by (simp add: current_epoch_def opens)
  show "lifecycle_ok (tbl @ [ev]) tid"
    using assms facts by (auto simp: lifecycle_ok_def opens has_terminal_def current_epoch_def)
qed

lemma lifecycle_ok_append_open:
  assumes ok: "lifecycle_ok tbl tid" and ev: "is_open_event ev" "epoch_valid ev"
    and next_epoch: "row_epoch ev = current_epoch tbl tid + 1"
    and closed: "current_epoch tbl tid = 0 \<or> has_terminal tbl tid (current_epoch tbl tid)"
    and mem: "task_facts [ev] tid = [ev]"
  shows "lifecycle_ok (tbl @ [ev]) tid"
proof -
  have opens: "open_epochs (tbl @ [ev]) tid = open_epochs tbl tid @ [current_epoch tbl tid + 1]"
    using mem ev(1) next_epoch by (simp add: open_epochs_def)
  have "\<forall>k. 1 \<le> k \<longrightarrow> k < int (length (open_epochs tbl tid)) + 1 \<longrightarrow> has_terminal tbl tid k"
  proof (intro allI impI)
    fix k :: int assume k: "1 \<le> k" "k < int (length (open_epochs tbl tid)) + 1"
    show "has_terminal tbl tid k"
    proof (cases "k = int (length (open_epochs tbl tid))")
      case True
      with k closed show ?thesis by (auto simp: current_epoch_def)
    next
      case False
      with k ok show ?thesis by (simp add: lifecycle_ok_def)
    qed
  qed
  moreover have "ordinals (Suc (length (open_epochs tbl tid)))
    = open_epochs tbl tid @ [int (length (open_epochs tbl tid)) + 1]"
    using ok by (simp add: lifecycle_ok_def)
  ultimately show ?thesis
    using ok ev(2) next_epoch mem
    unfolding lifecycle_ok_def opens
    by (auto simp: current_epoch_def has_terminal_def list_all_iff)
qed

definition db_ok :: "task_db \<Rightarrow> bool" where
  "db_ok db \<longleftrightarrow> log_ok (event_log db) \<and> (\<forall>tid. lifecycle_ok (event_log db) tid)"

lemma append_event_cases_db:
  assumes "append_event db inp fresh = Inr (db', ev)"
  shows "event_log db' = event_log db @ [ev]" "event_kind ev = in_kind inp"
    "aggregate ev = in_aggregate inp" "aggregate_id ev = in_aggregate_id inp"
    "payload_epoch ev = in_epoch inp" "log_ok (event_log db) \<Longrightarrow> log_ok (event_log db')"
    "protocol_event_constraints (event_log db) ev = Inr ()"
    "task_rows db' = task_rows db" "bus_outbox db' = bus_outbox db" "event_id ev = fresh"
    "causation_id ev = in_causation inp"
  using assms append_event_cases append_event_log_ok
  by (auto simp: append_event_def split: sum.splits prod.splits) (blast+)?

lemma task_event_input_simps [simp]:
  "in_kind (task_event_input k tid s src c n e er rs) = k"
  "in_aggregate (task_event_input k tid s src c n e er rs) = AggTask"
  "in_aggregate_id (task_event_input k tid s src c n e er rs) = tid"
  "in_epoch (task_event_input k tid s src c n e er rs) = e"
  "in_causation (task_event_input k tid s src c n e er rs) = c"
  by (simp_all add: task_event_input_def)

lemma append_closing_db_ok:
  assumes "db_ok db" "append_event db (task_event_input k tid s src c n e er rs) fresh = Inr (db', ev)"
    and "k \<notin> set task_open_event_types"
    and "k \<in> set task_terminal_event_types \<or> k \<in> set task_boundary_request_event_types \<Longrightarrow>
           e = JInt m \<and> 0 < m \<and> \<bar>m\<bar> \<le> max_safe_integer \<and> m \<le> current_epoch (event_log db) tid"
  shows "db_ok db'"
proof -
  note ev = append_event_cases_db [OF assms(2), simplified]
  have "lifecycle_ok (event_log db @ [ev]) t" for t
  proof (cases "t = tid \<and> (is_terminal_event ev \<or> is_boundary_event ev)")
    case True
    then have "e = JInt m \<and> 0 < m \<and> \<bar>m\<bar> \<le> max_safe_integer \<and> m \<le> current_epoch (event_log db) tid"
      using assms(4) ev(2) by (auto simp: is_terminal_event_def is_boundary_event_def)
    then show ?thesis
      using assms(1,3) ev True
      by (intro lifecycle_ok_append_closing(1)) (auto simp: db_ok_def is_open_event_def epoch_valid_def row_epoch_def)
  next
    case False
    then have "task_facts [ev] t = []"
      using ev assms(3) by (auto simp: task_facts_def is_open_event_def)
    then show ?thesis using assms(1) by (intro lifecycle_ok_append_other(1)) (auto simp: db_ok_def)
  qed
  then show ?thesis using ev assms(1) by (simp add: db_ok_def)
qed

lemma append_open_db_ok:
  assumes "db_ok db" "append_event db (task_event_input k tid s src c n (JInt m) er rs) fresh = Inr (db', ev)"
    and "k \<in> set task_open_event_types" "0 < m" "\<bar>m\<bar> \<le> max_safe_integer"
    and "m = current_epoch (event_log db) tid + 1"
    and "current_epoch (event_log db) tid = 0 \<or> has_terminal (event_log db) tid (current_epoch (event_log db) tid)"
  shows "db_ok db'"
proof -
  note ev = append_event_cases_db [OF assms(2), simplified]
  have "lifecycle_ok (event_log db @ [ev]) t" for t
  proof (cases "t = tid")
    case True
    then show ?thesis
      using assms ev
      by (intro lifecycle_ok_append_open)
         (auto simp: db_ok_def is_open_event_def epoch_valid_def row_epoch_def task_facts_def)
  next
    case False
    then have "task_facts [ev] t = []" using ev by (auto simp: task_facts_def)
    then show ?thesis using assms(1) by (intro lifecycle_ok_append_other(1)) (auto simp: db_ok_def)
  qed
  then show ?thesis using ev assms(1) by (simp add: db_ok_def)
qed

lemma append_task_opened_db_ok:
  assumes "db_ok db" "append_task_opened db tid sid now src fresh = Inr (db', eid)"
  shows "db_ok db'"
proof -
  from assms(2) obtain ev where ev: "append_event db
      (task_event_input TaskExecutionOpened tid (Some sid) src None now (JInt 1) JUndefined JUndefined) fresh = Inr (db', ev)"
    by (auto simp: append_task_opened_def rbind_Inr_iff)
  note facts = append_event_cases_db [OF ev, simplified]
  have "current_epoch (event_log db) tid = 0"
  proof (rule ccontr)
    assume "current_epoch (event_log db) tid \<noteq> 0"
    then have pos: "0 < length (open_epochs (event_log db) tid)" by (simp add: current_epoch_def)
    have run: "open_epochs (event_log db) tid = ordinals (length (open_epochs (event_log db) tid))"
      using assms(1) by (simp add: db_ok_def lifecycle_ok_def)
    have "1 \<in> set (ordinals (length (open_epochs (event_log db) tid)))"
      using pos by (simp add: set_ordinals Suc_le_eq)
    then have "1 \<in> set (open_epochs (event_log db) tid)" using run by metis
    then obtain r where r: "r \<in> set (event_log db)" "aggregate r = AggTask" "aggregate_id r = tid"
      "is_open_event r" "row_epoch r = 1" "r \<in> set (task_facts (event_log db) tid)"
      by (auto simp: open_epochs_def task_facts_def)
    then have "payload_epoch r = JInt 1"
      using assms(1) by (cases "payload_epoch r") (auto simp: db_ok_def lifecycle_ok_def list_all_iff epoch_valid_def row_epoch_def)
    with r facts have "epoch_index_clash task_open_event_types ev r"
      by (simp add: epoch_index_clash_def is_open_event_def task_open_event_types_def)
    with constraints_ok(1) [OF facts(7) r(1)] show False by simp
  qed
  then show ?thesis
    using assms(1) by (intro append_open_db_ok [OF _ ev]) (auto simp: task_open_event_types_def max_safe_integer_def)
qed

lemma append_task_reopened_db_ok:
  assumes "db_ok db" "append_task_reopened idcmp db tid sid now src fresh = Inr (db', p)"
  shows "db_ok db'" "proj_epoch p = current_epoch (event_log db) tid + 1" "proj_status p = Active"
proof -
  from assms(2) obtain cur ev where cur: "task_lifecycle_projection idcmp (event_log db) tid = Inr cur"
    and closing: "proj_status cur \<noteq> Active" "proj_status cur \<noteq> Cancelling"
    and ev: "append_event db (task_event_input TaskExecutionReopened tid (Some sid) src (terminal_event cur) now
               (JInt (proj_epoch cur + 1)) JUndefined JUndefined) fresh = Inr (db', ev)"
    and p: "task_lifecycle_projection idcmp (event_log db') tid = Inr p"
    by (auto simp: append_task_reopened_def rbind_Inr_iff split: if_splits)
  have log: "log_ok (event_log db)" and lok: "lifecycle_ok (event_log db) tid"
    using assms(1) by (auto simp: db_ok_def)
  note cs = projection_spec [OF log lok cur]
  note facts = append_event_cases_db [OF ev, simplified]
  have closed: "has_terminal (event_log db) tid (current_epoch (event_log db) tid)"
    using closing cs(4) by (cases "proj_status cur") auto
  have log': "log_ok (event_log db')" using facts(6) log by blast
  have ev_mem: "ev \<in> set (task_facts (event_log db') tid)" and ev_open: "is_open_event ev"
    using facts by (auto simp: task_facts_def is_open_event_def task_open_event_types_def)
  have "list_all epoch_valid (task_facts (event_log db') tid)"
    using p by (intro reduce_Inr_valid) (simp add: task_lifecycle_projection_def lifecycle_rows_log_ok [OF log'])
  with ev_mem have "epoch_valid ev" by (auto simp: list_all_iff)
  then have "\<bar>proj_epoch cur + 1\<bar> \<le> max_safe_integer" "0 < proj_epoch cur + 1"
    using facts by (auto simp: epoch_valid_def row_epoch_def)
  then show ok': "db_ok db'"
    using assms(1) cs(1) closed by (intro append_open_db_ok [OF _ ev]) (auto simp: task_open_event_types_def)
  then have lok': "lifecycle_ok (event_log db') tid" by (simp add: db_ok_def)
  have epoch': "current_epoch (event_log db') tid = current_epoch (event_log db) tid + 1"
    using facts ev_open by (simp add: current_epoch_def open_epochs_def task_facts_def)
  note ps = projection_spec [OF log' lok' p]
  show "proj_epoch p = current_epoch (event_log db) tid + 1" using ps(1) epoch' by simp
  have fresh_epoch: "row_epoch r \<noteq> current_epoch (event_log db) tid + 1" if "r \<in> set (task_facts (event_log db) tid)" for r
    using lok that by (auto simp: lifecycle_ok_def list_all_iff current_epoch_def dest!: bspec)
  have "task_facts (event_log db') tid = task_facts (event_log db) tid @ [ev]"
    using facts ev_open by (simp add: task_facts_def)
  then have "\<not> has_terminal (event_log db') tid (current_epoch (event_log db') tid)"
    "\<not> has_boundary (event_log db') tid (current_epoch (event_log db') tid)"
    using fresh_epoch event_classes_disjoint(1,2) [OF ev_open]
    by (auto simp: has_terminal_def has_boundary_def list_ex_iff epoch')
  then show "proj_status p = Active" using ps(4,5) by (cases "proj_status p") auto
qed

lemma admit_cancellation_cases:
  assumes "admit_cancellation idcmp db tid sess src now fresh = Inr (db', ev)"
  obtains (existing) "db' = db"
  | (requested) lc where "task_lifecycle_projection idcmp (event_log db) tid = Inr lc" "request_event lc = None"
      "proj_status lc \<notin> {Completed, Failed, Cancelled}"
      "append_event db (task_event_input TaskCancellationRequested tid sess src None now
         (JInt (proj_epoch lc)) JUndefined JUndefined) fresh = Inr (db', ev)"
proof -
  obtain lc where lc: "task_lifecycle_projection idcmp (event_log db) tid = Inr lc"
    using assms by (auto simp: admit_cancellation_def rbind_Inr_iff split: option.split_asm)
  show thesis
  proof (cases "request_event lc = None \<and> proj_status lc \<notin> {Completed, Failed, Cancelled}")
    case True
    with assms lc show thesis
      by (intro requested [OF lc]) (auto simp: admit_cancellation_def split: option.split_asm)
  next
    case False
    with assms lc show thesis
      by (intro existing) (auto simp: admit_cancellation_def split: option.split_asm if_splits)
  qed
qed

lemma admit_cancellation_db_ok:
  assumes "db_ok db" "admit_cancellation idcmp db tid sess src now fresh = Inr (db', ev)"
  shows "db_ok db'"
  using assms(2)
proof (cases rule: admit_cancellation_cases)
  case existing
  with assms(1) show ?thesis by simp
next
  case (requested lc)
  have "log_ok (event_log db)" "lifecycle_ok (event_log db) tid" using assms(1) by (auto simp: db_ok_def)
  from projection_spec(1-3) [OF this requested(1)] show ?thesis
    by (intro append_closing_db_ok [OF assms(1) requested(4)]) (auto simp: lifecycle_type_defs)
qed

lemma append_task_deleted_boundary_db_ok:
  assumes "db_ok db" "append_task_deleted_boundary idcmp db tid now fresh = Inr db'"
  shows "db_ok db'"
proof (cases "task_deleted (event_log db) tid")
  case True
  with assms show ?thesis by (simp add: append_task_deleted_boundary_def)
next
  case False
  with assms(2) obtain db1 ev where
    ev: "append_event db (task_event_input TaskDeleted tid None ''task.delete'' None now JUndefined JUndefined JUndefined) fresh = Inr (db1, ev)"
    and db': "event_log db' = event_log db1"
    by (auto simp: append_task_deleted_boundary_def rbind_Inr_iff)
  have "db_ok db1" by (rule append_closing_db_ok [OF assms(1) ev]) (auto simp: lifecycle_type_defs)
  then show ?thesis by (simp add: db' db_ok_def)
qed

lemma persist_columns_log [simp]:
  "event_log (persist_columns db tid v) = event_log db"
  "bus_outbox (persist_columns db tid v) = bus_outbox db"
  "session_ids (persist_columns db tid v) = session_ids db"
  by (simp_all add: persist_columns_def Let_def)

lemma db_ok_event_log: "event_log a = event_log b \<Longrightarrow> db_ok a = db_ok b"
  by (simp add: db_ok_def)

text \<open>The Task writer, one equation per intent and status of the Task.\<close>

lemma write_task_update_reads:
  assumes "write_task_update env db tid v now interrupted canc fresh = Inr r"
  obtains row lc where "find_task db tid = Some row" "\<not> task_deleted (event_log db) tid"
    "task_lifecycle_projection (env_idcmp env) (event_log db) tid = Inr lc"
  using assms by (auto simp: write_task_update_def rbind_Inr_iff split: option.split_asm if_split_asm)

lemma write_existing_terminal:
  assumes "find_task db tid = Some row" "\<not> task_deleted (event_log db) tid"
    and "task_lifecycle_projection (env_idcmp env) (event_log db) tid = Inr lc"
    and "upd_intent v = Some (ITerminal st)" "proj_status lc \<in> {Completed, Failed, Cancelled}"
  shows "write_task_update env db tid v now interrupted canc fresh = Inr (db, ExistingTerminal row)"
  using assms by (simp add: write_task_update_def is_terminal_intent_def)

lemma write_open_terminal:
  assumes "find_task db tid = Some row" "\<not> task_deleted (event_log db) tid"
    and "task_lifecycle_projection (env_idcmp env) (event_log db) tid = Inr lc"
    and "upd_intent v = Some (ITerminal st)" "proj_status lc \<notin> {Completed, Failed, Cancelled}"
  shows "write_task_update env db tid v now interrupted canc fresh =
    (if st \<noteq> TCancelled \<and> proj_status lc = Cancelling then Inl CancellationCannotBeSuperseded
     else if st = TCancelled \<and> request_event lc \<noteq> map_option event_id canc then Inl CancellationNotFromExactRequest
     else let db2 = persist_columns db tid v;
              row2 = (case find_task db2 tid of Some r \<Rightarrow> r | None \<Rightarrow> row)
          in rbind (emit_terminal_event db2 tid st lc v interrupted canc now fresh) (\<lambda>(db3, ev).
             rbind (env_effect env db3) (\<lambda>db4.
             rbind (notify_mission env db4 row2 canc ev st) (\<lambda>db5. Inr (db5, Updated row2)))))"
  using assms by (cases st) (simp_all add: write_task_update_def is_terminal_intent_def Let_def)

lemma write_reopens:
  assumes "find_task db tid = Some row" "\<not> task_deleted (event_log db) tid"
    and "task_lifecycle_projection (env_idcmp env) (event_log db) tid = Inr lc"
    and "upd_intent v = Some IActive" "proj_status lc \<in> {Completed, Failed, Cancelled}"
    and "row_session row = Some sid"
  shows "write_task_update env db tid v now interrupted canc fresh =
    rbind (append_task_reopened (env_idcmp env) db tid sid now ''state.task'' fresh) (\<lambda>(db1, _).
      let db2 = persist_columns db1 tid v
      in Inr (db2, Updated (case find_task db2 tid of Some r \<Rightarrow> r | None \<Rightarrow> row)))"
proof (cases "append_task_reopened (env_idcmp env) db tid sid now ''state.task'' fresh")
  case (Inl e)
  with assms show ?thesis by (simp add: write_task_update_def is_terminal_intent_def)
next
  case (Inr r)
  with assms show ?thesis
    by (cases r) (simp add: write_task_update_def is_terminal_intent_def update_is_noop_def Let_def)
qed

lemma write_reopen_needs_session:
  assumes "find_task db tid = Some row" "\<not> task_deleted (event_log db) tid"
    and "task_lifecycle_projection (env_idcmp env) (event_log db) tid = Inr lc"
    and "upd_intent v = Some IActive" "proj_status lc \<in> {Completed, Failed, Cancelled}"
    and "row_session row = None"
  shows "write_task_update env db tid v now interrupted canc fresh = Inl ReopenWithoutRootSession"
  using assms by (simp add: write_task_update_def)

lemma write_columns_only:
  assumes "find_task db tid = Some row" "\<not> task_deleted (event_log db) tid"
    and "task_lifecycle_projection (env_idcmp env) (event_log db) tid = Inr lc"
    and "upd_intent v = None \<or> upd_intent v = Some IActive \<and> proj_status lc \<notin> {Completed, Failed, Cancelled}"
  shows "\<exists>res. write_task_update env db tid v now interrupted canc fresh = Inr (persist_columns db tid v, res)"
  using assms by (auto simp: write_task_update_def is_terminal_intent_def Let_def)

lemma emit_terminal_db_ok:
  assumes "db_ok db"
    and "task_lifecycle_projection idcmp (event_log db) tid = Inr lc"
    and "emit_terminal_event db tid st lc v interrupted canc now fresh = Inr (db', ev)"
  shows "db_ok db'"
proof -
  from assms(3) obtain s c er rs db1 where
    ev: "append_event db (task_event_input (terminal_event_type st) tid s ''state.task'' c now (JInt (proj_epoch lc)) er rs) fresh = Inr (db1, ev)"
    and db': "event_log db' = event_log db1"
    by (auto simp: emit_terminal_event_def Let_def rbind_Inr_iff split: if_split_asm)
  have "log_ok (event_log db)" "lifecycle_ok (event_log db) tid" using assms(1) by (auto simp: db_ok_def)
  note spec = projection_spec(1-3) [OF this assms(2)]
  have "db_ok db1"
    using spec by (intro append_closing_db_ok [OF assms(1) ev]) (cases st, auto simp: lifecycle_type_defs)
  then show ?thesis by (simp add: db' db_ok_def)
qed

lemma write_task_update_db_ok:
  assumes ok: "db_ok db"
    and eff: "\<And>a b. db_ok a \<Longrightarrow> env_effect env a = Inr b \<Longrightarrow> db_ok b"
    and enq: "\<And>a m b. db_ok a \<Longrightarrow> env_enqueue env a m = Inr b \<Longrightarrow> db_ok b"
    and w: "write_task_update env db tid v now interrupted canc fresh = Inr (db', res)"
  shows "db_ok db'"
proof -
  obtain row lc where rl: "find_task db tid = Some row" "\<not> task_deleted (event_log db) tid"
    "task_lifecycle_projection (env_idcmp env) (event_log db) tid = Inr lc"
    using w by (rule write_task_update_reads)
  let ?terminal = "proj_status lc \<in> {Completed, Failed, Cancelled}"
  have ok2: "db_ok (persist_columns db tid v)" using ok by (simp add: db_ok_def)
  consider (noop) "upd_intent v = None \<or> upd_intent v = Some IActive \<and> \<not> ?terminal"
    | (reopen) "upd_intent v = Some IActive" ?terminal
    | (existing) st where "upd_intent v = Some (ITerminal st)" ?terminal
    | (close) st where "upd_intent v = Some (ITerminal st)" "\<not> ?terminal"
    by (metis option.exhaust update_intent.exhaust)
  then show ?thesis
  proof cases
    case noop
    from write_columns_only [OF rl noop, where now = now and interrupted = interrupted and canc = canc and fresh = fresh] w ok2 show ?thesis by auto
  next
    case reopen
    then obtain sid where sid: "row_session row = Some sid"
      using write_reopen_needs_session [OF rl reopen] w by (cases "row_session row") auto
    from w obtain db1 p where "append_task_reopened (env_idcmp env) db tid sid now ''state.task'' fresh = Inr (db1, p)"
      and "db' = persist_columns db1 tid v"
      unfolding write_reopens [OF rl reopen sid] by (auto simp: rbind_Inr_iff Let_def)
    with append_task_reopened_db_ok(1) [OF ok] show ?thesis by (simp add: db_ok_def)
  next
    case existing
    with write_existing_terminal [OF rl] w ok show ?thesis by simp
  next
    case close
    from w obtain db3 ev db4 row2 where
      "emit_terminal_event (persist_columns db tid v) tid st lc v interrupted canc now fresh = Inr (db3, ev)"
      and e: "env_effect env db3 = Inr db4" and n: "notify_mission env db4 row2 canc ev st = Inr db'"
      unfolding write_open_terminal [OF rl close] by (auto simp: rbind_Inr_iff Let_def split: if_split_asm)
    then have "db_ok db3"
      using emit_terminal_db_ok [OF ok2] rl(3) by simp
    then have "db_ok db4" using e by (rule eff)
    with n enq show ?thesis
      by (auto simp: notify_mission_def split: option.split_asm prod.split_asm if_split_asm)
  qed
qed

section \<open>Runs of lifecycle transactions\<close>

text \<open>
  A transaction that fails is rolled back. \<open>mission_of\<close> reads the creator out of a Task's
  metadata; a scheduler message is put in the outbox.
\<close>

definition plain_env :: "(string \<Rightarrow> string \<Rightarrow> int) \<Rightarrow> (columns \<Rightarrow> (string \<times> string) option) \<Rightarrow> update_env" where
  "plain_env idcmp mission_of =
     \<lparr>env_idcmp = idcmp, env_creator_mission = mission_of, env_effect = Inr,
      env_enqueue = (\<lambda>db m. Inr (db\<lparr>scheduler_outbox := scheduler_outbox db @ [m]\<rparr>))\<rparr>"

datatype lifecycle_op =
    OpOpen string string int string
  | OpCancel string "string option" string int string
  | OpUpdate string task_update int bool "protocol_event option" string
  | OpDelete string int string

definition commit :: "'s \<Rightarrow> 'e + 's \<Rightarrow> 's" where
  "commit s r = (case r of Inl _ \<Rightarrow> s | Inr s' \<Rightarrow> s')"

fun lifecycle_step ::
  "(string \<Rightarrow> string \<Rightarrow> int) \<Rightarrow> (columns \<Rightarrow> (string \<times> string) option) \<Rightarrow> task_db \<Rightarrow> lifecycle_op \<Rightarrow> task_db" where
  "lifecycle_step idcmp mo db (OpOpen tid sid now fresh) =
     commit db (rbind (append_task_opened db tid sid now ''engine.pipeline'' fresh) (\<lambda>(d, _). Inr d))"
| "lifecycle_step idcmp mo db (OpCancel tid sess src now fresh) =
     commit db (rbind (admit_cancellation idcmp db tid sess src now fresh) (\<lambda>(d, _). Inr d))"
| "lifecycle_step idcmp mo db (OpUpdate tid v now interrupted canc fresh) =
     commit db (rbind (write_task_update (plain_env idcmp mo) db tid v now interrupted canc fresh) (\<lambda>(d, _). Inr d))"
| "lifecycle_step idcmp mo db (OpDelete tid now fresh) =
     commit db (append_task_deleted_boundary idcmp db tid now fresh)"

definition initial_db :: "task_row list \<Rightarrow> string list \<Rightarrow> task_db" where
  "initial_db rows sess =
     \<lparr>event_log = [], task_rows = rows, session_ids = sess, bus_outbox = [], scheduler_outbox = []\<rparr>"

lemma initial_db_ok: "db_ok (initial_db rows sess)"
  by (simp add: db_ok_def initial_db_def lifecycle_ok_def open_epochs_def)

lemma lifecycle_step_ok: "db_ok db \<Longrightarrow> db_ok (lifecycle_step idcmp mo db op)"
proof (cases op)
  case (OpUpdate tid v now interrupted canc fresh)
  assume ok: "db_ok db"
  have "db_ok d" if "write_task_update (plain_env idcmp mo) db tid v now interrupted canc fresh = Inr (d, r)" for d r
    by (rule write_task_update_db_ok [OF ok _ _ that]) (auto simp: plain_env_def db_ok_def)
  with ok OpUpdate show ?thesis by (auto simp: commit_def rbind_def split: sum.splits)
qed (auto simp: commit_def rbind_def split: sum.splits
      dest: append_task_opened_db_ok admit_cancellation_db_ok append_task_deleted_boundary_db_ok)

interpretation lifecycle: step_system "lifecycle_step idcmp mo" "initial_db rows sess" db_ok
  for idcmp mo rows sess
  by unfold_locales (simp_all add: initial_db_ok lifecycle_step_ok)

lemma unique_terminal:
  assumes "log_ok tbl" "lifecycle_ok tbl tid" "has_terminal tbl tid k"
  shows "\<exists>!r. r \<in> set (task_facts tbl tid) \<and> is_terminal_event r \<and> row_epoch r = k"
proof -
  from assms(3) obtain r where r: "r \<in> set (task_facts tbl tid)" "is_terminal_event r" "row_epoch r = k"
    by (auto simp: has_terminal_def list_ex_iff)
  have eq: "payload_epoch s = JInt k \<and> s \<in> set tbl \<and> aggregate s = AggTask \<and> aggregate_id s = tid"
    if "s \<in> set (task_facts tbl tid)" "row_epoch s = k" for s
    using assms(2) that
    by (cases "payload_epoch s") (auto simp: lifecycle_ok_def list_all_iff epoch_valid_def row_epoch_def task_facts_def)
  have "s = r" if s: "s \<in> set (task_facts tbl tid)" "is_terminal_event s" "row_epoch s = k" for s
  proof (rule ccontr)
    assume "s \<noteq> r"
    have "epoch_index_clash task_terminal_event_types s r" "epoch_index_clash task_terminal_event_types r s"
      using eq [OF r(1,3)] eq [OF s(1,3)] r(2) s(2)
      by (auto simp: epoch_index_clash_def is_terminal_event_def)
    moreover have "\<not> epoch_index_clash task_terminal_event_types s r \<or> \<not> epoch_index_clash task_terminal_event_types r s"
      using assms(1) \<open>s \<noteq> r\<close> eq [OF r(1,3)] eq [OF s(1,3)]
      by (auto simp: log_ok_def sorted_wrt_iff_nth_less in_set_conv_nth) (metis linorder_neqE_nat)
    ultimately show False by blast
  qed
  with r show ?thesis by blast
qed

lemma projection_total:
  assumes "log_ok tbl" "lifecycle_ok tbl tid" "0 < current_epoch tbl tid"
  shows "\<exists>p. task_lifecycle_projection idcmp tbl tid = Inr p"
proof -
  let ?f = "task_facts tbl tid"
  have "list_all epoch_valid ?f" "map row_epoch (filter is_open_event ?f) = ordinals (length (open_epochs tbl tid))"
    using assms(2) by (auto simp: lifecycle_ok_def open_epochs_def)
  moreover have "filter is_open_event ?f \<noteq> []"
    using assms(3) by (auto simp: current_epoch_def open_epochs_def)
  ultimately obtain p where "reduce_lifecycle_rows tid ?f = Inr p"
    by (metis reduce_lifecycle_rows_spec)
  then show ?thesis by (simp add: task_lifecycle_projection_def lifecycle_rows_log_ok [OF assms(1)])
qed

lemma admitted_request_is_pending:
  assumes ok: "db_ok db" and adm: "admit_cancellation idcmp db tid sess src now fresh = Inr (db', req)"
    and req: "event_kind req = TaskCancellationRequested"
  shows "\<exists>lc. task_lifecycle_projection idcmp (event_log db') tid = Inr lc \<and> proj_status lc = Cancelling"
proof -
  have log: "log_ok (event_log db)" and lok: "lifecycle_ok (event_log db) tid"
    using ok by (auto simp: db_ok_def)
  obtain lc where lc: "task_lifecycle_projection idcmp (event_log db) tid = Inr lc"
    using adm by (auto simp: admit_cancellation_def rbind_Inr_iff split: option.split_asm)
  note spec = projection_spec [OF log lok lc]
  show ?thesis
  proof (cases "request_event lc")
    case (Some rid)
    with spec(6) have "proj_status lc = Cancelling" by auto
    with adm lc Some have "db' = db" by (auto simp: admit_cancellation_def split: option.split_asm)
    with lc \<open>proj_status lc = Cancelling\<close> show ?thesis by simp
  next
    case None
    then have ncancelling: "proj_status lc \<noteq> Cancelling" using spec(6) by auto
    have "proj_status lc \<noteq> Cancelled"
      using adm lc req
      by (auto simp: admit_cancellation_def split: option.split_asm dest!: find_Some_iff [THEN iffD1])
    then have ev: "append_event db (task_event_input TaskCancellationRequested tid sess src None now
         (JInt (proj_epoch lc)) JUndefined JUndefined) fresh = Inr (db', req)" and act: "proj_status lc = Active"
      using adm lc None ncancelling
      by (cases "proj_status lc"; auto simp: admit_cancellation_def split: option.split_asm)+
    note facts = append_event_cases_db [OF ev, simplified]
    have cls: "is_boundary_event req" using facts by (simp add: is_boundary_event_def task_boundary_request_event_types_def)
    have ok': "db_ok db'" by (rule admit_cancellation_db_ok [OF ok adm])
    have same: "current_epoch (event_log db') tid = current_epoch (event_log db) tid"
      using facts event_classes_disjoint(5) [OF cls] by (simp add: current_epoch_def open_epochs_def task_facts_def)
    have tf: "task_facts (event_log db') tid = task_facts (event_log db) tid @ [req]"
      using facts cls by (simp add: task_facts_def)
    obtain p where p: "task_lifecycle_projection idcmp (event_log db') tid = Inr p"
      using projection_total [of "event_log db'" tid idcmp] ok' spec(2) same by (auto simp: db_ok_def)
    have "\<not> has_terminal (event_log db') tid (current_epoch (event_log db') tid)"
      using spec(4) act event_classes_disjoint(3) [of req] cls by (auto simp: has_terminal_def tf same)
    moreover have "has_boundary (event_log db') tid (current_epoch (event_log db') tid)"
    proof -
      have "row_epoch req = current_epoch (event_log db') tid"
        unfolding same using facts(5) spec(1) by (simp add: row_epoch_def)
      with cls show ?thesis unfolding has_boundary_def tf by simp
    qed
    ultimately have "proj_status p = Cancelling"
      using projection_spec(5) [OF _ _ p] ok' by (auto simp: db_ok_def)
    with p show ?thesis by blast
  qed
qed

section \<open>Properties\<close>

text \<open>
  C4: after any sequence of lifecycle transactions (opening, cancelling, completing,
  failing, reopening and deleting Tasks, failed ones rolled back), the open facts of every
  Task carry the epochs 1, 2, ..., n in order, and every epoch before the current one has
  exactly one terminal fact.
\<close>

theorem lifecycle_epochs_in_order:
  assumes "tbl = event_log (run_steps (lifecycle_step idcmp mo) (initial_db rows sess) ops)"
    and "1 \<le> k" and "k < current_epoch tbl tid"
  shows "open_epochs tbl tid = ordinals (nat (current_epoch tbl tid))
    \<and> (\<exists>!r. r \<in> set (task_facts tbl tid) \<and> is_terminal_event r \<and> row_epoch r = k)"
proof -
  have "log_ok tbl" and ok: "lifecycle_ok tbl tid"
    using lifecycle.reachable_inv assms(1) by (auto simp: db_ok_def)
  moreover have "has_terminal tbl tid k"
    using ok assms(2,3) by (auto simp: lifecycle_ok_def current_epoch_def)
  ultimately show ?thesis
    using unique_terminal by (auto simp: lifecycle_ok_def current_epoch_def)
qed

definition demo_fail :: task_update where
  "demo_fail = \<lparr>upd_intent = Some (ITerminal TFailed), upd_error = Some (Some ''boom''), upd_columns = [], upd_metadata = None\<rparr>"

definition demo_complete :: task_update where
  "demo_complete = \<lparr>upd_intent = Some (ITerminal TCompleted), upd_error = None, upd_columns = [], upd_metadata = None\<rparr>"

definition demo_reopen :: task_update where
  "demo_reopen = \<lparr>upd_intent = Some IActive, upd_error = None, upd_columns = [], upd_metadata = None\<rparr>"

definition demo_db :: task_db where
  "demo_db = initial_db [\<lparr>row_id = ''t'', row_project = ''p'', row_session = Some ''s'',
                          row_columns = [], row_metadata = []\<rparr>] [''s'']"

definition demo_run :: "lifecycle_op list \<Rightarrow> task_db" where
  "demo_run = run_steps (lifecycle_step (\<lambda>_ _. 0) (\<lambda>_. None)) demo_db"

definition demo_ops :: "lifecycle_op list" where
  "demo_ops = [OpOpen ''t'' ''s'' 1 ''e1'', OpUpdate ''t'' demo_fail 2 False None ''e2'',
               OpUpdate ''t'' demo_reopen 3 False None ''e3'']"

lemma demo_run_ok: "db_ok (demo_run ops)"
  unfolding demo_run_def demo_db_def by (rule lifecycle.reachable_inv)

lemma demo_run_epochs: "current_epoch (event_log (demo_run demo_ops)) ''t'' = 2"
  by code_simp

theorem lifecycle_epochs_in_order_witness:
  "open_epochs (event_log (demo_run demo_ops)) ''t'' = ordinals 2
   \<and> (\<exists>!r. r \<in> set (task_facts (event_log (demo_run demo_ops)) ''t'') \<and> is_terminal_event r \<and> row_epoch r = 1)"
  using lifecycle_epochs_in_order [OF refl, of 1 "\<lambda>_ _. 0" "\<lambda>_. None"
      "[\<lparr>row_id = ''t'', row_project = ''p'', row_session = Some ''s'', row_columns = [], row_metadata = []\<rparr>]"
      "[''s'']" demo_ops "''t''"] demo_run_epochs
  by (simp add: demo_run_def demo_db_def)

text \<open>
  On every reachable database the lifecycle projection of an opened Task is defined
  (no reader throws) and reports the current epoch, and its status is terminal exactly when
  that epoch has a terminal fact.
\<close>

theorem reachable_projection_defined:
  assumes "tbl = event_log (run_steps (lifecycle_step idcmp mo) (initial_db rows sess) ops)"
    and "0 < current_epoch tbl tid"
  shows "\<exists>p. task_lifecycle_projection idcmp' tbl tid = Inr p \<and> proj_epoch p = current_epoch tbl tid
    \<and> (proj_status p \<in> {Completed, Failed, Cancelled} \<longleftrightarrow> has_terminal tbl tid (current_epoch tbl tid))"
proof -
  have ok: "log_ok tbl" "lifecycle_ok tbl tid"
    using lifecycle.reachable_inv assms(1) by (auto simp: db_ok_def)
  from projection_total [OF ok assms(2)] obtain p where "task_lifecycle_projection idcmp' tbl tid = Inr p" by blast
  with projection_spec(1,4) [OF ok this] show ?thesis by blast
qed

theorem reachable_projection_defined_witness:
  "\<exists>p. task_lifecycle_projection (\<lambda>_ _. 0) (event_log (demo_run demo_ops)) ''t'' = Inr p \<and> proj_epoch p = 2"
  using reachable_projection_defined [OF refl, of "\<lambda>_ _. 0" "\<lambda>_. None"
      "[\<lparr>row_id = ''t'', row_project = ''p'', row_session = Some ''s'', row_columns = [], row_metadata = []\<rparr>]"
      "[''s'']" demo_ops "''t''" "\<lambda>_ _. 0"] demo_run_epochs
  by (auto simp: demo_run_def demo_db_def)

definition epoch_outcome :: "protocol_event list \<Rightarrow> string \<Rightarrow> int \<Rightarrow> protocol_event list" where
  "epoch_outcome tbl tid k = filter (\<lambda>r. is_terminal_event r \<and> row_epoch r = k) (task_facts tbl tid)"

lemma reopened_log:
  assumes "append_task_reopened idcmp db tid sid now src fresh = Inr (db', p)"
  shows "current_epoch (event_log db') tid = current_epoch (event_log db) tid + 1"
    and "epoch_outcome (event_log db') tid k = epoch_outcome (event_log db) tid k"
proof -
  from assms obtain cur ev where "task_lifecycle_projection idcmp (event_log db) tid = Inr cur"
    and ev: "append_event db (task_event_input TaskExecutionReopened tid (Some sid) src (terminal_event cur) now
               (JInt (proj_epoch cur + 1)) JUndefined JUndefined) fresh = Inr (db', ev)"
    by (auto simp: append_task_reopened_def rbind_Inr_iff split: if_splits)
  note facts = append_event_cases_db [OF ev, simplified]
  have opens: "is_open_event ev" using facts by (simp add: is_open_event_def task_open_event_types_def)
  then have "task_facts (event_log db') tid = task_facts (event_log db) tid @ [ev]"
    using facts by (simp add: task_facts_def)
  with opens event_classes_disjoint(1) [OF opens]
  show "current_epoch (event_log db') tid = current_epoch (event_log db) tid + 1"
    and "epoch_outcome (event_log db') tid k = epoch_outcome (event_log db) tid k"
    by (simp_all add: current_epoch_def open_epochs_def epoch_outcome_def)
qed

text \<open>
  C8: The outcome of a finished epoch is final. On a Task that is not deleted and whose current epoch
  is terminal, a completed, failed or cancelled write reports the existing terminal Task and leaves
  the whole database unchanged; no other write changes the terminal facts of that epoch either, and
  only a write that makes the Task active goes on, in the next epoch.
\<close>

theorem terminal_task_is_final:
  assumes "db_ok db" "find_task db tid = Some row" "\<not> task_deleted (event_log db) tid"
    and "has_terminal (event_log db) tid (current_epoch (event_log db) tid)" "0 < current_epoch (event_log db) tid"
  shows "(\<forall>st. upd_intent v = Some (ITerminal st) \<longrightarrow>
        write_task_update env db tid v now interrupted canc fresh = Inr (db, ExistingTerminal row))
    \<and> (\<forall>db' res. write_task_update env db tid v now interrupted canc fresh = Inr (db', res) \<longrightarrow>
        epoch_outcome (event_log db') tid (current_epoch (event_log db) tid)
          = epoch_outcome (event_log db) tid (current_epoch (event_log db) tid)
      \<and> current_epoch (event_log db') tid
          = (if upd_intent v = Some IActive then current_epoch (event_log db) tid + 1 else current_epoch (event_log db) tid))"
proof -
  have ok: "log_ok (event_log db)" "lifecycle_ok (event_log db) tid" using assms(1) by (auto simp: db_ok_def)
  obtain p where p: "task_lifecycle_projection (env_idcmp env) (event_log db) tid = Inr p"
    using projection_total [OF ok assms(5)] by blast
  have closed: "proj_status p \<in> {Completed, Failed, Cancelled}" using projection_spec(4) [OF ok p] assms(4) by simp
  note existing = write_existing_terminal [OF assms(2,3) p _ closed]
  show ?thesis
  proof (cases "upd_intent v")
    case None
    from write_columns_only [OF assms(2,3) p, of v, where now = now and interrupted = interrupted and canc = canc and fresh = fresh] None
    show ?thesis by auto
  next
    case (Some i)
    show ?thesis
    proof (cases i)
      case IActive
      with Some have act: "upd_intent v = Some IActive" by simp
      have "row_session row \<noteq> None" if "write_task_update env db tid v now interrupted canc fresh = Inr x" for x
        using write_reopen_needs_session [OF assms(2,3) p act closed, of now interrupted canc fresh] that by auto
      moreover have "\<exists>db1 q. append_task_reopened (env_idcmp env) db tid sid now ''state.task'' fresh = Inr (db1, q)
          \<and> event_log db' = event_log db1"
        if "write_task_update env db tid v now interrupted canc fresh = Inr (db', res)" "row_session row = Some sid" for db' res sid
        using that(1) unfolding write_reopens [OF assms(2,3) p act closed that(2)] by (auto simp: rbind_Inr_iff Let_def)
      ultimately show ?thesis using act reopened_log by fastforce
    next
      case (ITerminal st)
      with Some existing show ?thesis by simp
    qed
  qed
qed

theorem terminal_task_is_final_witness:
  "\<exists>row db2. write_task_update (plain_env (\<lambda>_ _. 0) (\<lambda>_. None)) (demo_run (take 2 demo_ops)) ''t'' demo_complete 9 False None ''e9''
       = Inr (demo_run (take 2 demo_ops), ExistingTerminal row)
     \<and> write_task_update (plain_env (\<lambda>_ _. 0) (\<lambda>_. None)) (demo_run (take 2 demo_ops)) ''t'' demo_reopen 9 False None ''e9'' = Inr db2
     \<and> epoch_outcome (event_log (fst db2)) ''t'' 1 = epoch_outcome (event_log (demo_run (take 2 demo_ops))) ''t'' 1"
proof -
  let ?db = "demo_run (take 2 demo_ops)" and ?env = "plain_env (\<lambda>_ _. 0) (\<lambda>_. None)"
  have "\<exists>row. find_task ?db ''t'' = Some row"
    by (rule exI [where x = "hd (task_rows ?db)"]) code_simp
  then obtain row where row: "find_task ?db ''t'' = Some row" by blast
  have d: "\<not> task_deleted (event_log ?db) ''t''" and t: "has_terminal (event_log ?db) ''t'' (current_epoch (event_log ?db) ''t'')"
    and c: "current_epoch (event_log ?db) ''t'' = 1"
    by code_simp+
  then have o: "0 < current_epoch (event_log ?db) ''t''" by simp
  note final = terminal_task_is_final [OF demo_run_ok row d t o]
  have "case write_task_update ?env ?db ''t'' demo_reopen 9 False None ''e9'' of Inl _ \<Rightarrow> False | Inr _ \<Rightarrow> True" by code_simp
  then obtain db2 res where w: "write_task_update ?env ?db ''t'' demo_reopen 9 False None ''e9'' = Inr (db2, res)"
    by (cases "write_task_update ?env ?db ''t'' demo_reopen 9 False None ''e9''") (simp, simp add: prod.split_asm, metis surj_pair)
  have "upd_intent demo_complete = Some (ITerminal TCompleted)" by (simp add: demo_complete_def)
  with final [of demo_complete ?env 9 False None "''e9''"]
  have e: "write_task_update ?env ?db ''t'' demo_complete 9 False None ''e9'' = Inr (?db, ExistingTerminal row)" by blast
  from final [of demo_reopen ?env 9 False None "''e9''"] w
  have "epoch_outcome (event_log db2) ''t'' 1 = epoch_outcome (event_log ?db) ''t'' 1" unfolding c by blast
  with e w show ?thesis by (metis fst_conv)
qed

text \<open>
  Once a cancellation is admitted, completion and failure are refused: the Task writer
  answers every such write with an error, whatever the caller passes.
\<close>

theorem accepted_cancellation_wins:
  assumes "db_ok db" "admit_cancellation (env_idcmp env) db tid sess src now fresh = Inr (db', req)"
    and "event_kind req = TaskCancellationRequested"
    and "find_task db' tid = Some row" "\<not> task_deleted (event_log db') tid"
    and "upd_intent v = Some (ITerminal st)" "st \<noteq> TCancelled"
  shows "write_task_update env db' tid v now' interrupted canc fresh' = Inl CancellationCannotBeSuperseded"
proof -
  obtain lc where lc: "task_lifecycle_projection (env_idcmp env) (event_log db') tid = Inr lc"
    and "proj_status lc = Cancelling"
    using admitted_request_is_pending [OF assms(1-3)] by blast
  then show ?thesis
    using assms(7) by (subst write_open_terminal [OF assms(4,5) lc assms(6)]) auto
qed

definition demo_cancelled :: "lifecycle_error + task_db \<times> protocol_event" where
  "demo_cancelled = admit_cancellation (\<lambda>_ _. 0) (demo_run (take 1 demo_ops)) ''t'' None ''user'' 5 ''c1''"

theorem accepted_cancellation_wins_witness:
  "\<exists>db' req. demo_cancelled = Inr (db', req)
     \<and> write_task_update (plain_env (\<lambda>_ _. 0) (\<lambda>_. None)) db' ''t'' demo_complete 9 False None ''e9'' = Inl CancellationCannotBeSuperseded"
proof -
  have "case demo_cancelled of Inl _ \<Rightarrow> False | Inr (db', req) \<Rightarrow>
      event_kind req = TaskCancellationRequested \<and> map row_id (task_rows db') = [''t''] \<and> \<not> task_deleted (event_log db') ''t''"
    by code_simp
  then obtain db' req where r: "demo_cancelled = Inr (db', req)" "event_kind req = TaskCancellationRequested"
    "map row_id (task_rows db') = [''t'']" "\<not> task_deleted (event_log db') ''t''"
    by (auto split: sum.splits prod.splits)
  from r(3) obtain row where "find_task db' ''t'' = Some row" by (auto simp: find_task_def)
  with r show ?thesis
    using accepted_cancellation_wins [OF demo_run_ok, of "plain_env (\<lambda>_ _. 0) (\<lambda>_. None)" _ "''t''" None "''user''" 5 "''c1''" db' req row demo_complete TCompleted]
    unfolding demo_cancelled_def by (fastforce simp: plain_env_def demo_complete_def)
qed

text \<open>
  Reopening a terminal Task starts exactly the next epoch, active, with no terminal or
  cancellation fact of its own.
\<close>

theorem reopening_starts_next_epoch:
  assumes "db_ok db" "append_task_reopened idcmp db tid sid now src fresh = Inr (db', p)"
  shows "db_ok db' \<and> proj_epoch p = current_epoch (event_log db) tid + 1 \<and> proj_status p = Active"
  using append_task_reopened_db_ok [OF assms] by simp

theorem reopening_starts_next_epoch_witness:
  "\<exists>db' p. append_task_reopened (\<lambda>_ _. 0) (demo_run (take 2 demo_ops)) ''t'' ''s'' 3 ''x'' ''e3'' = Inr (db', p)
     \<and> proj_status p = Active"
proof -
  have "\<not> (case append_task_reopened (\<lambda>_ _. 0) (demo_run (take 2 demo_ops)) ''t'' ''s'' 3 ''x'' ''e3'' of Inl _ \<Rightarrow> True | Inr _ \<Rightarrow> False)"
    by code_simp
  then obtain db' p where "append_task_reopened (\<lambda>_ _. 0) (demo_run (take 2 demo_ops)) ''t'' ''s'' 3 ''x'' ''e3'' = Inr (db', p)"
    by (auto split: sum.splits)
  with reopening_starts_next_epoch [OF demo_run_ok this] show ?thesis by blast
qed

end
