(* ===== verification/ControlLease.thy ===== *)
theory ControlLease
  imports Prelude
begin

text \<open>
  Activation leases (\<open>engine/control-lease.ts\<close> over the two tables of
  \<open>engine/engine.sql.ts\<close>): acquisition, the fence, release and renewal, with the grant
  history each lease keeps. Text order in \<open>ORDER BY\<close> is SQLite's byte order.
\<close>

datatype control_target =
    TargetTaskRootIngress | TargetLifecycle | TargetInteraction | TargetEffect | TargetAutomation
  | TargetEventFire | TargetBuildCleanup | TargetProtocolDelivery | TargetBusDelivery
  | TargetSessionControl | TargetSessionShell | TargetSessionDeletion | TargetDispatchAdmission
  | TargetRuntimeProcess

record control_lease =
  lease_id :: string
  lease_target :: control_target
  lease_target_id :: string
  owner_occurrence :: string
  time_activated :: int
  expires_at :: int

record lease_grant =
  grant_lease :: string
  grant_ordinal :: int
  grant_expires :: int
  grant_created :: int

record lease_db =
  leases :: "control_lease list"
  grants :: "lease_grant list"

datatype lease_error =
    NonPositiveDuration
  | EmptyLeaseIdentity
  | LeaseRowConflict
  | GrantRowConflict
  | FenceLost
  | RenewalNotInFuture

text \<open>\<open>ORDER BY time_activated DESC, id DESC LIMIT 1\<close> for one target.\<close>

definition lease_cmp :: "control_lease \<Rightarrow> control_lease \<Rightarrow> int" where
  "lease_cmp = cmp_or (cmp_key_desc time_activated) (\<lambda>a b. text_cmp (lease_id b) (lease_id a))"

definition target_leases :: "lease_db \<Rightarrow> control_target \<Rightarrow> string \<Rightarrow> control_lease list" where
  "target_leases db tg tid = filter (\<lambda>l. lease_target l = tg \<and> lease_target_id l = tid) (leases db)"

definition current_control_lease :: "lease_db \<Rightarrow> control_target \<Rightarrow> string \<Rightarrow> control_lease option" where
  "current_control_lease db tg tid = head_option (sort_by lease_cmp (target_leases db tg tid))"

definition current_control_leases ::
  "lease_db \<Rightarrow> control_target \<Rightarrow> string list \<Rightarrow> (string \<rightharpoonup> control_lease)" where
  "current_control_leases db tg ids =
     (\<lambda>i. if i \<in> set ids then current_control_lease db tg i else None)"

record acquire_input =
  acq_target :: control_target
  acq_target_id :: string
  acq_owner :: string
  acq_now :: int
  acq_milliseconds :: int
  acq_lease_id :: "string option"
  acq_supersede :: "string option"

datatype lease_acquisition = Acquired control_lease | NotAcquired control_lease

definition insert_lease :: "lease_db \<Rightarrow> control_lease \<Rightarrow> lease_error + lease_db" where
  "insert_lease db l =
     (if list_ex (\<lambda>x. lease_id x = lease_id l) (leases db) then Inl LeaseRowConflict
      else Inr (db\<lparr>leases := leases db @ [l]\<rparr>))"

definition insert_grant :: "lease_db \<Rightarrow> lease_grant \<Rightarrow> lease_error + lease_db" where
  "insert_grant db g =
     (if list_ex (\<lambda>x. grant_lease x = grant_lease g \<and> grant_ordinal x = grant_ordinal g) (grants db)
        \<or> grant_ordinal g \<le> 0 \<or> grant_expires g \<le> grant_created g
      then Inl GrantRowConflict
      else Inr (db\<lparr>grants := grants db @ [g]\<rparr>))"

definition lease_of_input :: "acquire_input \<Rightarrow> string \<Rightarrow> control_lease" where
  "lease_of_input inp lid =
     \<lparr>lease_id = lid, lease_target = acq_target inp, lease_target_id = acq_target_id inp,
      owner_occurrence = acq_owner inp, time_activated = acq_now inp,
      expires_at = acq_now inp + acq_milliseconds inp\<rparr>"

definition first_grant :: "control_lease \<Rightarrow> lease_grant" where
  "first_grant l =
     \<lparr>grant_lease = lease_id l, grant_ordinal = 1, grant_expires = expires_at l, grant_created = time_activated l\<rparr>"

definition acquire_control_lease ::
  "lease_db \<Rightarrow> acquire_input \<Rightarrow> string \<Rightarrow> lease_error + lease_db \<times> lease_acquisition" where
  "acquire_control_lease db inp fresh =
     (if acq_milliseconds inp \<le> 0 then Inl NonPositiveDuration
      else case find (\<lambda>c. expires_at c > acq_now inp \<and> Some (lease_id c) \<noteq> acq_supersede inp)
                  (case current_control_lease db (acq_target inp) (acq_target_id inp) of None \<Rightarrow> [] | Some c \<Rightarrow> [c]) of
        Some c \<Rightarrow> Inr (db, NotAcquired c)
      | None \<Rightarrow>
          let lid = (case acq_lease_id inp of None \<Rightarrow> fresh | Some i \<Rightarrow> js_trim i);
              l = lease_of_input inp lid
          in if lid = [] then Inl EmptyLeaseIdentity
             else rbind (insert_lease db l) (\<lambda>db1.
                  rbind (insert_grant db1 (first_grant l)) (\<lambda>db2. Inr (db2, Acquired l))))"

record fence_input =
  fence_target :: control_target
  fence_target_id :: string
  fence_lease :: string
  fence_owner :: string
  fence_now :: int

definition fence_holds :: "fence_input \<Rightarrow> control_lease \<Rightarrow> bool" where
  "fence_holds f c \<longleftrightarrow> lease_id c = fence_lease f \<and> owner_occurrence c = fence_owner f \<and> expires_at c > fence_now f"

definition assert_control_lease :: "lease_db \<Rightarrow> fence_input \<Rightarrow> lease_error + control_lease" where
  "assert_control_lease db f =
     (case current_control_lease db (fence_target f) (fence_target_id f) of
        None \<Rightarrow> Inl FenceLost
      | Some c \<Rightarrow> if fence_holds f c then Inr c else Inl FenceLost)"

definition set_expiry :: "string \<Rightarrow> int \<Rightarrow> lease_db \<Rightarrow> lease_db" where
  "set_expiry lid t db = db\<lparr>leases := map (\<lambda>l. if lease_id l = lid then l\<lparr>expires_at := t\<rparr> else l) (leases db)\<rparr>"

definition release_control_lease :: "lease_db \<Rightarrow> fence_input \<Rightarrow> lease_db \<times> bool" where
  "release_control_lease db f =
     (case current_control_lease db (fence_target f) (fence_target_id f) of
        None \<Rightarrow> (db, False)
      | Some c \<Rightarrow> if fence_holds f c then (set_expiry (lease_id c) (fence_now f) db, True) else (db, False))"

text \<open>
  On an error path the release may itself fail (\<open>Inl\<close>); that failure is reported, not raised,
  and the database of the failed transaction is the one before it.
\<close>

definition release_on_error_path ::
  "lease_db \<Rightarrow> 'e + lease_db \<times> bool \<Rightarrow> lease_db \<times> bool \<times> 'e option" where
  "release_on_error_path db r =
     (case r of Inl e \<Rightarrow> (db, False, Some e) | Inr (db', released) \<Rightarrow> (db', released, None))"

definition latest_grant_ordinal :: "lease_db \<Rightarrow> string \<Rightarrow> int" where
  "latest_grant_ordinal db lid =
     (case sort_by (cmp_key_desc grant_ordinal) (filter (\<lambda>g. grant_lease g = lid) (grants db)) of
        [] \<Rightarrow> 0 | g # _ \<Rightarrow> grant_ordinal g)"

definition renew_control_lease :: "lease_db \<Rightarrow> fence_input \<Rightarrow> int \<Rightarrow> lease_error + lease_db" where
  "renew_control_lease db f until =
     (if until \<le> fence_now f then Inl RenewalNotInFuture
      else rbind (assert_control_lease db f) (\<lambda>current.
        if \<not> list_ex (\<lambda>l. lease_id l = fence_lease f \<and> expires_at l = expires_at current
                         \<and> expires_at l > fence_now f) (leases db)
        then Inl FenceLost
        else let db1 = set_expiry (fence_lease f) until db
             in insert_grant db1 \<lparr>grant_lease = fence_lease f,
                  grant_ordinal = latest_grant_ordinal db1 (fence_lease f) + 1,
                  grant_expires = until, grant_created = fence_now f\<rparr>))"

section \<open>The order of leases\<close>

definition lease_ids :: "lease_db \<Rightarrow> string list" where
  "lease_ids db = map lease_id (leases db)"

definition supersedes :: "control_lease \<Rightarrow> control_lease \<Rightarrow> bool" where
  "supersedes a b \<longleftrightarrow> lease_cmp a b < 0"

lemma lease_cmp_flip: "lease_cmp b a = - lease_cmp a b"
  by (simp add: lease_cmp_def cmp_or_def cmp_key_desc_def text_cmp_flip [of "lease_id a" "lease_id b"])

lemma lease_cmp_trans: "lease_cmp a b \<le> 0 \<Longrightarrow> lease_cmp b c \<le> 0 \<Longrightarrow> lease_cmp a c \<le> 0"
  using text_cmp_trans [of "lease_id c" "lease_id b" "lease_id a"]
  by (auto simp: lease_cmp_def cmp_or_def cmp_key_desc_def split: if_splits)

interpretation lease_order: comparator lease_cmp
proof unfold_locales
  show "lease_cmp y x < 0" if "0 < lease_cmp x y" for x y using that lease_cmp_flip [of y x] by simp
  show "lease_cmp x z \<le> 0" if "lease_cmp x y \<le> 0" "lease_cmp y z \<le> 0" for x y z
    using that by (rule lease_cmp_trans)
qed

lemma lease_cmp_0: "lease_cmp a b = 0 \<longleftrightarrow> time_activated a = time_activated b \<and> lease_id a = lease_id b"
  by (auto simp: lease_cmp_def cmp_or_def cmp_key_desc_def)

lemma current_lease_mem:
  "current_control_lease db tg tid = Some c \<Longrightarrow> c \<in> set (leases db) \<and> lease_target c = tg \<and> lease_target_id c = tid"
  by (auto simp: current_control_lease_def target_leases_def dest!: head_option_Some_mem)

lemma current_lease_newest:
  assumes "current_control_lease db tg tid = Some c"
    and "l \<in> set (leases db)" "lease_target l = tg" "lease_target_id l = tid"
  shows "\<not> supersedes l c"
proof -
  obtain t where "sort_by lease_cmp (target_leases db tg tid) = c # t"
    using assms(1) by (cases "sort_by lease_cmp (target_leases db tg tid)") (auto simp: current_control_lease_def)
  from lease_order.sort_by_head_least [OF this, of l] assms(2-4) have "lease_cmp c l \<le> 0"
    by (simp add: target_leases_def)
  then show ?thesis using lease_cmp_flip [of c l] by (simp add: supersedes_def)
qed

lemma current_lease_exists:
  "l \<in> set (leases db) \<Longrightarrow> \<exists>c. current_control_lease db (lease_target l) (lease_target_id l) = Some c"
  by (cases "current_control_lease db (lease_target l) (lease_target_id l)")
     (auto simp: current_control_lease_def target_leases_def filter_empty_conv)

text \<open>With unique identities the current lease is the one no other lease of its target supersedes.\<close>

lemma current_lease_unique:
  assumes "distinct (lease_ids db)" "l \<in> set (leases db)"
    and newest: "\<And>x. x \<in> set (leases db) \<Longrightarrow> lease_target x = lease_target l \<Longrightarrow>
            lease_target_id x = lease_target_id l \<Longrightarrow> \<not> supersedes x l"
  shows "current_control_lease db (lease_target l) (lease_target_id l) = Some l"
proof -
  obtain c where c: "current_control_lease db (lease_target l) (lease_target_id l) = Some c"
    using current_lease_exists [OF assms(2)] by blast
  have "\<not> supersedes c l" "\<not> supersedes l c"
    using current_lease_mem [OF c] newest current_lease_newest [OF c assms(2)] by auto
  then have "lease_cmp c l = 0" using lease_cmp_flip [of c l] by (simp add: supersedes_def)
  then have "lease_id c = lease_id l" by (simp add: lease_cmp_0)
  with assms(1,2) current_lease_mem [OF c] have "c = l" by (auto dest: inj_onD simp: distinct_map lease_ids_def)
  with c show ?thesis by simp
qed

section \<open>The invariant of the two tables\<close>

definition grant_ordinals :: "lease_db \<Rightarrow> string \<Rightarrow> int list" where
  "grant_ordinals db lid = map grant_ordinal (filter (\<lambda>g. grant_lease g = lid) (grants db))"

definition lease_db_ok :: "lease_db \<Rightarrow> bool" where
  "lease_db_ok db \<longleftrightarrow>
     distinct (lease_ids db)
     \<and> (\<forall>g \<in> set (grants db). grant_lease g \<in> set (lease_ids db) \<and> grant_created g < grant_expires g)
     \<and> (\<forall>lid \<in> set (lease_ids db). \<exists>n. grant_ordinals db lid = ordinals (Suc n))"

definition empty_lease_db :: lease_db where
  "empty_lease_db = \<lparr>leases = [], grants = []\<rparr>"

lemma empty_lease_db_ok: "lease_db_ok empty_lease_db"
  by (simp add: lease_db_ok_def empty_lease_db_def lease_ids_def)

lemma acquire_cases:
  assumes "acquire_control_lease db inp fresh = Inr (db', r)"
  obtains (refused) c where "r = NotAcquired c" "db' = db"
      "current_control_lease db (acq_target inp) (acq_target_id inp) = Some c"
      "expires_at c > acq_now inp" "Some (lease_id c) \<noteq> acq_supersede inp"
  | (granted) l where "r = Acquired l" "l = lease_of_input inp (lease_id l)" "0 < acq_milliseconds inp"
      "leases db' = leases db @ [l]" "grants db' = grants db @ [first_grant l]"
      "lease_id l \<notin> set (lease_ids db)"
      "\<And>c. current_control_lease db (acq_target inp) (acq_target_id inp) = Some c \<Longrightarrow>
         expires_at c \<le> acq_now inp \<or> Some (lease_id c) = acq_supersede inp"
proof (cases "find (\<lambda>c. expires_at c > acq_now inp \<and> Some (lease_id c) \<noteq> acq_supersede inp)
                  (case current_control_lease db (acq_target inp) (acq_target_id inp) of None \<Rightarrow> [] | Some c \<Rightarrow> [c])")
  case (Some c)
  with assms show thesis
    by (intro refused [of c])
       (auto simp: acquire_control_lease_def find_Some_iff split: if_splits option.split_asm)
next
  case None
  let ?lid = "case acq_lease_id inp of None \<Rightarrow> fresh | Some i \<Rightarrow> js_trim i"
  from assms None have "0 < acq_milliseconds inp" "r = Acquired (lease_of_input inp ?lid)"
    "leases db' = leases db @ [lease_of_input inp ?lid]"
    "grants db' = grants db @ [first_grant (lease_of_input inp ?lid)]"
    "?lid \<notin> set (lease_ids db)"
    by (auto simp: acquire_control_lease_def Let_def rbind_Inr_iff insert_lease_def insert_grant_def
        lease_of_input_def list_ex_iff lease_ids_def split: if_split_asm)
  moreover have "expires_at c \<le> acq_now inp \<or> Some (lease_id c) = acq_supersede inp"
    if "current_control_lease db (acq_target inp) (acq_target_id inp) = Some c" for c
    using None that by (auto split: if_split_asm)
  ultimately show thesis
    by (intro granted [of "lease_of_input inp ?lid"]) (auto simp: lease_of_input_def)
qed

lemma acquire_ok:
  assumes ok: "lease_db_ok db" and acq: "acquire_control_lease db inp fresh = Inr (db', r)"
  shows "lease_db_ok db'"
  using acq
proof (cases rule: acquire_cases)
  case refused
  with ok show ?thesis by simp
next
  case (granted l)
  have t: "time_activated l < expires_at l" using granted(2,3) by (metis lease_of_input_def control_lease.select_convs(5,6) less_add_same_cancel1)
  have ids: "lease_ids db' = lease_ids db @ [lease_id l]" by (simp add: lease_ids_def granted(4))
  have "grant_lease g \<noteq> lease_id l" if "g \<in> set (grants db)" for g
    using ok granted(6) that by (auto simp: lease_db_ok_def)
  then have none: "grant_ordinals db (lease_id l) = []"
    by (simp add: grant_ordinals_def filter_empty_conv)
  have "\<exists>n. grant_ordinals db' lid = ordinals (Suc n)" if "lid \<in> set (lease_ids db')" for lid
  proof (cases "lid = lease_id l")
    case True
    then show ?thesis using none
      by (intro exI [of _ 0]) (simp add: granted(5) first_grant_def grant_ordinals_def)
  next
    case False
    then have "lid \<in> set (lease_ids db)" using that ids by auto
    then show ?thesis using ok False
      by (simp add: granted(5) first_grant_def lease_db_ok_def grant_ordinals_def)
  qed
  then show ?thesis
    using ok granted(6) t by (auto simp: lease_db_ok_def first_grant_def ids granted(5))
qed

lemma set_expiry_leases:
  "leases (set_expiry lid t db) = map (\<lambda>l. if lease_id l = lid then l\<lparr>expires_at := t\<rparr> else l) (leases db)"
  by (simp add: set_expiry_def)

lemma set_expiry_simps [simp]:
  "lease_ids (set_expiry lid t db) = lease_ids db"
  "grants (set_expiry lid t db) = grants db"
  "grant_ordinals (set_expiry lid t db) k = grant_ordinals db k"
  by (simp_all add: set_expiry_def lease_ids_def grant_ordinals_def)

lemma set_expiry_ok: "lease_db_ok db \<Longrightarrow> lease_db_ok (set_expiry lid t db)"
  by (simp add: lease_db_ok_def)

lemma release_ok: "lease_db_ok db \<Longrightarrow> lease_db_ok (fst (release_control_lease db f))"
  by (auto simp: release_control_lease_def set_expiry_ok split: option.splits)

lemma latest_grant_ordinal_run:
  "grant_ordinals db lid = ordinals (Suc n) \<Longrightarrow> latest_grant_ordinal db lid = int n + 1"
  using sort_desc_ordinals [of grant_ordinal "filter (\<lambda>g. grant_lease g = lid) (grants db)" "Suc n"]
  by (simp add: grant_ordinals_def latest_grant_ordinal_def)

lemma renew_cases:
  assumes "renew_control_lease db f until = Inr db'"
  obtains c where "assert_control_lease db f = Inr c" "fence_now f < until"
    "db' = (set_expiry (fence_lease f) until db)\<lparr>grants := grants db @
       [\<lparr>grant_lease = fence_lease f, grant_ordinal = latest_grant_ordinal db (fence_lease f) + 1,
         grant_expires = until, grant_created = fence_now f\<rparr>]\<rparr>"
  using assms
  by (auto simp: renew_control_lease_def Let_def rbind_Inr_iff insert_grant_def latest_grant_ordinal_def
      split: if_split_asm)

lemma assert_cases:
  assumes "assert_control_lease db f = Inr c"
  shows "current_control_lease db (fence_target f) (fence_target_id f) = Some c" "fence_holds f c"
  using assms by (auto simp: assert_control_lease_def split: option.split_asm if_split_asm)

lemma renew_ok:
  assumes ok: "lease_db_ok db" and ren: "renew_control_lease db f until = Inr db'"
  shows "lease_db_ok db'"
proof -
  obtain c where c: "assert_control_lease db f = Inr c" "fence_now f < until"
    and db': "db' = (set_expiry (fence_lease f) until db)\<lparr>grants := grants db @
       [\<lparr>grant_lease = fence_lease f, grant_ordinal = latest_grant_ordinal db (fence_lease f) + 1,
         grant_expires = until, grant_created = fence_now f\<rparr>]\<rparr>"
    using ren by (rule renew_cases)
  have mem: "fence_lease f \<in> set (lease_ids db)"
    using assert_cases [OF c(1)] current_lease_mem by (force simp: fence_holds_def lease_ids_def)
  have ids: "lease_ids db' = lease_ids db" unfolding db' by (simp add: lease_ids_def set_expiry_leases)
  have "\<exists>n. grant_ordinals db' lid = ordinals (Suc n)" if "lid \<in> set (lease_ids db)" for lid
  proof -
    from ok that obtain n where n: "grant_ordinals db lid = ordinals (Suc n)"
      by (auto simp: lease_db_ok_def)
    show ?thesis
    proof (cases "lid = fence_lease f")
      case True
      with n latest_grant_ordinal_run [OF n] show ?thesis
        by (intro exI [of _ "Suc n"]) (simp add: db' grant_ordinals_def)
    next
      case False
      with n show ?thesis by (intro exI [of _ n]) (simp add: db' grant_ordinals_def)
    qed
  qed
  moreover have "\<forall>g \<in> set (grants db'). grant_lease g \<in> set (lease_ids db) \<and> grant_created g < grant_expires g"
    using ok c(2) mem by (auto simp: db' lease_db_ok_def)
  ultimately show ?thesis using ok unfolding lease_db_ok_def ids by blast
qed

datatype lease_op = OpAcquire acquire_input string | OpRelease fence_input | OpRenew fence_input int

fun lease_step :: "lease_db \<Rightarrow> lease_op \<Rightarrow> lease_db" where
  "lease_step db (OpAcquire inp fresh) =
     (case acquire_control_lease db inp fresh of Inl _ \<Rightarrow> db | Inr (db', _) \<Rightarrow> db')"
| "lease_step db (OpRelease f) = fst (release_control_lease db f)"
| "lease_step db (OpRenew f until) =
     (case renew_control_lease db f until of Inl _ \<Rightarrow> db | Inr db' \<Rightarrow> db')"

lemma lease_step_ok: "lease_db_ok db \<Longrightarrow> lease_db_ok (lease_step db op)"
  by (cases op) (auto simp: release_ok split: sum.splits prod.splits intro: acquire_ok renew_ok)

interpretation lease_steps: step_system lease_step empty_lease_db lease_db_ok
  by unfold_locales (simp_all add: empty_lease_db_ok lease_step_ok)

section \<open>Fencing over time\<close>

text \<open>The columns no operation rewrites: a lease keeps them for ever, and no row is deleted.\<close>

definition frozen :: "control_lease \<Rightarrow> control_lease" where
  "frozen l = l\<lparr>expires_at := 0\<rparr>"

definition frozen_rows :: "lease_db \<Rightarrow> control_lease set" where
  "frozen_rows db = frozen ` set (leases db)"

definition superseded :: "lease_db \<Rightarrow> control_lease \<Rightarrow> bool" where
  "superseded db l \<longleftrightarrow>
     (\<exists>x \<in> frozen_rows db. lease_target x = lease_target l \<and> lease_target_id x = lease_target_id l \<and> supersedes x l)"

lemma frozen_simps [simp]:
  "lease_id (frozen l) = lease_id l" "lease_target (frozen l) = lease_target l"
  "lease_target_id (frozen l) = lease_target_id l" "time_activated (frozen l) = time_activated l"
  "owner_occurrence (frozen l) = owner_occurrence l"
  "frozen (l\<lparr>expires_at := t\<rparr>) = frozen l"
  by (simp_all add: frozen_def)

lemma lease_cmp_frozen [simp]: "lease_cmp (frozen a) b = lease_cmp a b" "lease_cmp a (frozen b) = lease_cmp a b"
  by (simp_all add: lease_cmp_def cmp_or_def cmp_key_desc_def)

lemma supersedes_frozen [simp]: "supersedes (frozen a) b = supersedes a b" "supersedes a (frozen b) = supersedes a b"
  by (simp_all add: supersedes_def)

lemma frozen_rows_set_expiry [simp]: "frozen_rows (set_expiry lid t db) = frozen_rows db"
proof -
  have "map frozen (leases (set_expiry lid t db)) = map frozen (leases db)" by (simp add: set_expiry_leases)
  then have "set (map frozen (leases (set_expiry lid t db))) = set (map frozen (leases db))" by (rule arg_cong)
  then show ?thesis by (simp add: frozen_rows_def)
qed

lemma lease_step_frozen_rows: "frozen_rows db \<subseteq> frozen_rows (lease_step db op)"
proof (cases op)
  case (OpAcquire inp fresh)
  show ?thesis
  proof (cases "acquire_control_lease db inp fresh")
    case (Inr r)
    then obtain d a where r: "acquire_control_lease db inp fresh = Inr (d, a)" by (cases r) auto
    then have "set (leases db) \<subseteq> set (leases d)" by (cases rule: acquire_cases) auto
    with OpAcquire r show ?thesis by (auto simp: frozen_rows_def)
  qed (simp add: OpAcquire)
next
  case (OpRelease f)
  then show ?thesis by (auto simp: release_control_lease_def split: option.splits)
next
  case (OpRenew f until)
  show ?thesis
  proof (cases "renew_control_lease db f until")
    case (Inr d)
    from Inr have "leases d = leases (set_expiry (fence_lease f) until db)" by (rule renew_cases) simp
    then have "frozen_rows d = frozen_rows db" by (metis frozen_rows_def frozen_rows_set_expiry)
    with OpRenew Inr show ?thesis by simp
  qed (simp add: OpRenew)
qed

lemma run_frozen_rows: "frozen_rows db \<subseteq> frozen_rows (run_steps lease_step db ops)"
proof (induction ops arbitrary: db)
  case (Cons op ops)
  then show ?case using lease_step_frozen_rows [of db op] by fastforce
qed simp

lemma superseded_mono: "frozen_rows db \<subseteq> frozen_rows db' \<Longrightarrow> superseded db l \<Longrightarrow> superseded db' l"
  by (auto simp: superseded_def)

lemma superseded_not_current:
  assumes ok: "lease_db_ok db" and l: "frozen l \<in> frozen_rows db" and sup: "superseded db l"
    and cur: "current_control_lease db (lease_target l) (lease_target_id l) = Some c"
  shows "lease_id c \<noteq> lease_id l"
proof
  assume eq: "lease_id c = lease_id l"
  from l obtain y where y: "y \<in> set (leases db)" "frozen y = frozen l" by (auto simp: frozen_rows_def)
  then have "lease_id y = lease_id c" using eq by (metis frozen_simps(1))
  then have "y = c"
    using ok y(1) current_lease_mem [OF cur] by (auto simp: lease_db_ok_def lease_ids_def distinct_map dest: inj_onD)
  obtain x where x: "x \<in> set (leases db)" "lease_target x = lease_target l" "lease_target_id x = lease_target_id l"
    "supersedes x l"
    using sup by (auto simp: superseded_def frozen_rows_def)
  then have "supersedes x c" using y(2) \<open>y = c\<close> by (metis supersedes_frozen(2))
  with current_lease_newest [OF cur x(1-3)] show False by simp
qed

lemma acquired_is_current:
  assumes ok: "lease_db_ok db" and acq: "acquire_control_lease db inp fresh = Inr (db', Acquired l)"
    and older: "\<And>x. x \<in> set (leases db) \<Longrightarrow> lease_target x = acq_target inp \<Longrightarrow> lease_target_id x = acq_target_id inp
            \<Longrightarrow> supersedes l x"
  shows "current_control_lease db' (acq_target inp) (acq_target_id inp) = Some l"
  using acq
proof (cases rule: acquire_cases)
  case (granted k)
  then have l: "l = k" "lease_target l = acq_target inp" "lease_target_id l = acq_target_id inp"
    by (simp_all, (metis lease_of_input_def control_lease.select_convs(2,3))+)
  have "\<not> supersedes l l" by (simp add: supersedes_def lease_cmp_def cmp_or_def cmp_key_desc_def)
  moreover have "\<not> supersedes x l" if "supersedes l x" for x
    using that lease_cmp_flip [of l x] by (simp add: supersedes_def)
  moreover have "distinct (lease_ids db')" using acquire_ok [OF ok acq] by (simp add: lease_db_ok_def)
  ultimately show ?thesis
    using current_lease_unique [of db' l] older granted(4) l by auto
qed simp

text \<open>
  The fencing contract a client of the leases relies on: a lease that is stale stays stale
  in every later state, and a stale lease is not the current one.
\<close>

locale lease_service =
  fixes current :: "'s \<Rightarrow> 'k \<Rightarrow> 'l option" and key :: "'l \<Rightarrow> 'k" and ident :: "'l \<Rightarrow> string"
    and valid :: "'s \<Rightarrow> bool" and stale :: "'s \<Rightarrow> 'l \<Rightarrow> bool" and later :: "'s \<Rightarrow> 's \<Rightarrow> bool"
  assumes valid_later: "valid s \<Longrightarrow> later s s' \<Longrightarrow> valid s'"
    and stale_later: "stale s l \<Longrightarrow> later s s' \<Longrightarrow> stale s' l"
    and stale_not_current: "valid s \<Longrightarrow> stale s l \<Longrightarrow> current s (key l) = Some c \<Longrightarrow> ident c \<noteq> ident l"
begin

lemma fenced_for_ever:
  assumes "valid s" "stale s l" "later s s'"
  shows "map_option ident (current s' (key l)) \<noteq> Some (ident l)"
  using stale_not_current [OF valid_later [OF assms(1,3)] stale_later [OF assms(2,3)]] by auto

end

definition stale_lease :: "lease_db \<Rightarrow> control_lease \<Rightarrow> bool" where
  "stale_lease db l \<longleftrightarrow> frozen l \<in> frozen_rows db \<and> superseded db l"

definition later_leases :: "lease_db \<Rightarrow> lease_db \<Rightarrow> bool" where
  "later_leases db db' \<longleftrightarrow> (\<exists>ops. db' = run_steps lease_step db ops)"

interpretation fencing: lease_service "\<lambda>db (tg, ti). current_control_lease db tg ti"
  "\<lambda>l. (lease_target l, lease_target_id l)" lease_id lease_db_ok stale_lease later_leases
proof unfold_locales
  show "lease_db_ok s'" if "lease_db_ok s" "later_leases s s'" for s s'
    using that lease_steps.run_inv by (auto simp: later_leases_def)
  show "stale_lease s' l" if "stale_lease s l" "later_leases s s'" for s l s'
  proof -
    from that(2) have "frozen_rows s \<subseteq> frozen_rows s'" unfolding later_leases_def using run_frozen_rows by blast
    with that(1) superseded_mono [OF this] show ?thesis unfolding stale_lease_def by blast
  qed
  show "lease_id c \<noteq> lease_id l"
    if "lease_db_ok s" "stale_lease s l" "(case (lease_target l, lease_target_id l) of (tg, ti) \<Rightarrow> current_control_lease s tg ti) = Some c"
    for s l c
    using that superseded_not_current by (simp add: stale_lease_def)
qed

section \<open>Properties\<close>

text \<open>
  A granted lease is exclusive. When the granted lease is the newest of its target
  (activation clock ahead, or the same instant and a greater identity), the fence passes for
  its owner until it expires, and no other lease of the target passes the fence; and a lease
  is only ever granted when the current one had expired or was named as superseded.
\<close>

theorem granted_lease_is_exclusive:
  assumes "lease_db_ok db" "acquire_control_lease db inp fresh = Inr (db', Acquired l)"
    and "\<forall>x \<in> set (leases db). lease_target x = acq_target inp \<longrightarrow> lease_target_id x = acq_target_id inp
           \<longrightarrow> supersedes l x"
    and "fence_target f = acq_target inp" "fence_target_id f = acq_target_id inp"
  shows "(assert_control_lease db' f = Inr c \<longleftrightarrow>
            c = l \<and> fence_lease f = lease_id l \<and> fence_owner f = acq_owner inp
            \<and> fence_now f < acq_now inp + acq_milliseconds inp)
    \<and> (\<forall>x. current_control_lease db (acq_target inp) (acq_target_id inp) = Some x \<longrightarrow>
           expires_at x \<le> acq_now inp \<or> Some (lease_id x) = acq_supersede inp)"
proof -
  have cur: "current_control_lease db' (fence_target f) (fence_target_id f) = Some l"
    using acquired_is_current [OF assms(1,2)] assms(3-5) by simp
  from assms(2) show ?thesis
  proof (cases rule: acquire_cases)
    case (granted k)
    then have "owner_occurrence l = acq_owner inp" "expires_at l = acq_now inp + acq_milliseconds inp"
      by (simp_all, (metis lease_of_input_def control_lease.select_convs(4,6))+)
    then show ?thesis using cur granted(7) by (auto simp: assert_control_lease_def fence_holds_def)
  qed simp
qed

definition demo_acquire :: "string \<Rightarrow> int \<Rightarrow> acquire_input" where
  "demo_acquire owner now = \<lparr>acq_target = TargetEffect, acq_target_id = ''x'', acq_owner = owner, acq_now = now,
     acq_milliseconds = 100, acq_lease_id = None, acq_supersede = None\<rparr>"

definition demo_leases :: lease_db where
  "demo_leases = run_steps lease_step empty_lease_db
     [OpAcquire (demo_acquire ''a'' 1000) ''l1'', OpAcquire (demo_acquire ''b'' 1050) ''l2'']"

definition demo_fence :: "string \<Rightarrow> string \<Rightarrow> int \<Rightarrow> fence_input" where
  "demo_fence lid owner now = \<lparr>fence_target = TargetEffect, fence_target_id = ''x'', fence_lease = lid,
     fence_owner = owner, fence_now = now\<rparr>"

lemma demo_leases_ok: "lease_db_ok demo_leases"
  unfolding demo_leases_def by (rule lease_steps.reachable_inv)

theorem granted_lease_is_exclusive_witness:
  "\<exists>db' l. acquire_control_lease demo_leases (demo_acquire ''b'' 1200) ''l3'' = Inr (db', Acquired l)
     \<and> assert_control_lease db' (demo_fence ''l3'' ''b'' 1250) = Inr l
     \<and> assert_control_lease db' (demo_fence ''l1'' ''a'' 1250) \<noteq> Inr l"
proof -
  have "case acquire_control_lease demo_leases (demo_acquire ''b'' 1200) ''l3'' of
          Inr (db', Acquired l) \<Rightarrow> lease_id l = ''l3'' \<and> list_all (\<lambda>x. supersedes l x) (leases demo_leases) | _ \<Rightarrow> False"
    by code_simp
  then obtain db' l where a: "acquire_control_lease demo_leases (demo_acquire ''b'' 1200) ''l3'' = Inr (db', Acquired l)"
    "lease_id l = ''l3''" "list_all (\<lambda>x. supersedes l x) (leases demo_leases)"
    by (auto split: sum.splits prod.splits lease_acquisition.splits)
  show ?thesis
    using granted_lease_is_exclusive [OF demo_leases_ok a(1), of "demo_fence ''l3'' ''b'' 1250" l]
      granted_lease_is_exclusive [OF demo_leases_ok a(1), of "demo_fence ''l1'' ''a'' 1250" l] a
    by (auto simp: demo_fence_def demo_acquire_def list_all_iff)
qed

text \<open>
  C7: fencing is permanent. Once a newer lease of the same target exists, no later sequence
  of acquisitions, releases and renewals, at whatever times, makes the older lease pass the
  fence again.
\<close>

theorem superseded_lease_stays_fenced:
  assumes "lease_db_ok db" "l \<in> set (leases db)" "superseded db l"
    and "fence_target f = lease_target l" "fence_target_id f = lease_target_id l" "fence_lease f = lease_id l"
  shows "assert_control_lease (run_steps lease_step db ops) f = Inl FenceLost"
proof -
  let ?e = "run_steps lease_step db ops"
  have ok: "lease_db_ok ?e" by (rule lease_steps.run_inv [OF assms(1)])
  have "frozen l \<in> frozen_rows ?e" "superseded ?e l"
    using run_frozen_rows [of db ops] assms(2,3) superseded_mono by (auto simp: frozen_rows_def)
  from superseded_not_current [OF ok this] show ?thesis
    using assms(4-6) by (auto simp: assert_control_lease_def fence_holds_def split: option.splits)
qed

definition demo_superseded :: lease_db where
  "demo_superseded = lease_step demo_leases (OpAcquire (demo_acquire ''b'' 1200) ''l3'')"

theorem superseded_lease_stays_fenced_witness:
  "assert_control_lease (run_steps lease_step demo_superseded [OpRenew (demo_fence ''l1'' ''a'' 1050) 9000])
     (demo_fence ''l1'' ''a'' 1050) = Inl FenceLost"
proof -
  have ok: "lease_db_ok demo_superseded"
    unfolding demo_superseded_def by (rule lease_step_ok [OF demo_leases_ok])
  define l where "l = hd (leases demo_superseded)"
  have "leases demo_superseded \<noteq> []" "lease_id (hd (leases demo_superseded)) = ''l1''"
    "lease_target (hd (leases demo_superseded)) = TargetEffect" "lease_target_id (hd (leases demo_superseded)) = ''x''"
    "superseded demo_superseded (hd (leases demo_superseded))"
    by code_simp+
  with superseded_lease_stays_fenced [OF ok, of l] show ?thesis
    by (auto simp: l_def demo_fence_def simp del: run_steps.simps lease_step.simps)
qed

text \<open>
  A released lease blocks nobody: after a successful release, an acquisition of the same
  target at the release time or later is never answered with the released lease.
\<close>

theorem released_target_is_acquirable:
  assumes "release_control_lease db f = (db', True)"
    and "acq_target inp = fence_target f" "acq_target_id inp = fence_target_id f" "fence_now f \<le> acq_now inp"
    and "acquire_control_lease db' inp fresh = Inr (db'', r)"
  shows "\<exists>l. r = Acquired l"
proof -
  obtain c where c: "current_control_lease db (fence_target f) (fence_target_id f) = Some c"
    and db': "db' = set_expiry (lease_id c) (fence_now f) db"
    using assms(1) by (auto simp: release_control_lease_def split: option.split_asm if_split_asm)
  let ?u = "\<lambda>l. if lease_id l = lease_id c then l\<lparr>expires_at := fence_now f\<rparr> else l"
  have cmp: "lease_cmp x y = lease_cmp (?u x) (?u y)" for x y
    by (simp add: lease_cmp_def cmp_or_def cmp_key_desc_def)
  have map_sort: "map ?u (sort_by lease_cmp xs) = sort_by lease_cmp (map ?u xs)" for xs
    by (induction xs) (simp_all add: map_insert_by [where cmp' = lease_cmp and f = ?u, OF cmp])
  have "target_leases db' tg ti = map ?u (target_leases db tg ti)" for tg ti
    by (induction "leases db") (simp_all add: target_leases_def db' set_expiry_leases filter_map comp_def if_distrib cong: if_cong)
  then have "current_control_lease db' (fence_target f) (fence_target_id f) = Some (?u c)"
    using c by (auto simp: current_control_lease_def map_sort [symmetric] neq_Nil_conv
        split: list.splits elim!: head_option.elims)
  then have expired: "\<exists>x. current_control_lease db' (acq_target inp) (acq_target_id inp) = Some x \<and> expires_at x \<le> acq_now inp"
    using assms(2-4) by simp
  from assms(5) show ?thesis
    by (cases rule: acquire_cases) (use expired in auto)
qed

theorem released_target_is_acquirable_witness:
  "\<exists>db' db'' l. release_control_lease demo_leases (demo_fence ''l1'' ''a'' 1060) = (db', True)
     \<and> acquire_control_lease db' (demo_acquire ''b'' 1060) ''l2'' = Inr (db'', Acquired l)"
proof -
  have "snd (release_control_lease demo_leases (demo_fence ''l1'' ''a'' 1060))" by code_simp
  then obtain db' where rel: "release_control_lease demo_leases (demo_fence ''l1'' ''a'' 1060) = (db', True)"
    by (cases "release_control_lease demo_leases (demo_fence ''l1'' ''a'' 1060)") auto
  have "\<not> (case acquire_control_lease (fst (release_control_lease demo_leases (demo_fence ''l1'' ''a'' 1060)))
      (demo_acquire ''b'' 1060) ''l2'' of Inl _ \<Rightarrow> True | Inr _ \<Rightarrow> False)"
    by code_simp
  then obtain db'' r where "acquire_control_lease db' (demo_acquire ''b'' 1060) ''l2'' = Inr (db'', r)"
    by (auto simp: rel split: sum.splits)
  with released_target_is_acquirable [OF rel _ _ _ this] rel show ?thesis
    by (auto simp: demo_acquire_def demo_fence_def)
qed

end
