(* ===== verification/ControlStore.thy ===== *)
theory ControlStore
  imports Lifecycle ControlLease
begin

text \<open>
  The durable tables that Task-root control reads and writes (\<open>engine/engine.sql.ts\<close>,
  \<open>session/session.sql.ts\<close>): accepted ingresses and their policies, waits and their
  settlements, and the columns of messages, artifacts and activity rows the code consults.
  A unique index is a check of the insert that may fail.
\<close>

datatype ingress_source = SrcMessage | SrcProtocolEvent | SrcEngineArtifact | SrcTask | SrcInline

record policy_row =
  pol_id :: string
  pol_turns :: int
  pol_activations :: int
  pol_deadline :: "int option"
  pol_created :: int

record ingress_row =
  ing_id :: string
  ing_task :: string
  ing_project :: string
  ing_epoch :: int
  ing_sequence :: int
  ing_source :: ingress_source
  ing_source_id :: string
  ing_inline :: "(string \<times> json) list option"
  ing_policy :: string
  ing_accepted :: int

record wait_row =
  wait_id :: string
  wait_task :: string
  wait_project :: string
  wait_epoch :: int
  due_at :: int
  wait_reason :: string
  wait_tool_part :: string
  creator_ingress :: string
  creator_activation :: string
  wait_digest :: string
  wait_created :: int

datatype settlement_kind = DueIngressAccepted | Superseded

record wait_settlement =
  set_wait :: string
  set_ingress :: string
  set_kind :: settlement_kind
  set_created :: int

text \<open>\<open>session.message\<close> with the fields of its JSON \<open>data\<close> the control code reads.\<close>

record message_row =
  msg_id :: string
  msg_session :: string
  msg_role :: string
  msg_activation :: js_value
  msg_completed :: bool
  msg_finish :: "string option"
  msg_error :: bool
  msg_parent :: js_value
  msg_author :: "string option"
  msg_control_ingress :: js_value
  msg_control_predecessor :: js_value

record session_row =
  ses_id :: string
  ses_parent :: "string option"
  ses_project :: string
  ses_kind :: string

record tool_request_row =
  treq_id :: string
  treq_message :: string
  treq_call :: string
  treq_tool :: string

datatype disposition_kind = DispResolved | DispTerminalInapplicable | DispExhausted | DispOperatorAbandoned

record decision_occurrence =
  occ_assistant :: string
  occ_control :: string
  occ_predecessor :: string
  occ_activation :: string

record disposition_payload =
  dp_task :: string
  dp_ingress :: string
  dp_epoch :: int
  dp_kind :: disposition_kind
  dp_evidence :: "string list"
  dp_occurrence :: "decision_occurrence option"
  dp_created :: int

text \<open>A gate names its ingress, the state in which that rests and the reason.\<close>

datatype artifact_payload =
    DispositionArtifact disposition_payload
  | GateArtifact string string string
  | OtherArtifact string

record artifact_row =
  art_id :: string
  art_task :: string
  art_payload :: artifact_payload

record control_store =
  st_tasks :: task_db
  st_leases :: lease_db
  policies :: "policy_row list"
  ingresses :: "ingress_row list"
  waits :: "wait_row list"
  settlements :: "wait_settlement list"
  messages :: "message_row list"
  sessions :: "session_row list"
  artifacts :: "artifact_row list"
  tool_requests :: "tool_request_row list"
  tool_outcomes :: "string list"
  provider_requests :: "(string \<times> string) list"
  provider_outcomes :: "string list"

text \<open>
  What the code computes with a hash or takes from the host: the deterministic identities of
  \<open>Identifier.deterministic\<close> (SHA-256), the digest of a scheduled tool's input, the
  locale order and whether a project still admits durable facts.
\<close>

record store_env =
  se_idcmp :: "string \<Rightarrow> string \<Rightarrow> int"
  se_policy_ident :: "int \<Rightarrow> int \<Rightarrow> int option \<Rightarrow> string"
  se_ingress_ident :: "string \<Rightarrow> ingress_source \<Rightarrow> string \<Rightarrow> string"
  se_wait_ident :: "string \<Rightarrow> string"
  se_disposition_ident :: "string \<Rightarrow> string \<Rightarrow> string"
  se_wait_digest :: "string \<Rightarrow> int \<Rightarrow> js_value \<Rightarrow> string \<Rightarrow> string"
  se_admission_open :: "control_store \<Rightarrow> string \<Rightarrow> bool"
  se_continuation :: "string \<Rightarrow> string \<Rightarrow> string"

datatype store_error =
    LifecycleFailure lifecycle_error
  | LeaseFailure lease_error
  | TaskDeletedRejected
  | InvalidPolicy
  | PolicyCollision
  | InvalidEpoch
  | EmptySource
  | InlinePayloadMismatch
  | ReplayEpochChanged
  | ReplayPayloadChanged
  | ReplayPolicyChanged
  | MissingTask
  | EpochNotCurrent
  | SourceOutsideTask
  | MalformedDueIdentity
  | UnknownDueWait
  | WaitNotDue
  | WaitAlreadySettled
  | UnrelatedSettlement
  | ConflictingSettlement
  | UniqueIndex string
  | InvalidDuration
  | OccurrenceConflict
  | TaskNotActive
  | NoActivationOwner
  | LostFrontier
  | InvalidLimit
  | IngressNotFound
  | MissingPolicy
  | EvidenceReaderFailed
  | AdmissionClosed
  | ControlOwnerLost
  | RenewalNotFuture
  | UnknownActivation
  | FenceSuperseded string
  | FenceRejected
  | EmptyEvidence
  | InvalidDisposition
  | DispositionDrift
  | DispositionRefused

text \<open>Lookups by primary key and by a unique index.\<close>

definition find_policy :: "control_store \<Rightarrow> string \<Rightarrow> policy_row option" where
  "find_policy st i = find (\<lambda>p. pol_id p = i) (policies st)"

definition find_ingress :: "control_store \<Rightarrow> string \<Rightarrow> ingress_row option" where
  "find_ingress st i = find (\<lambda>r. ing_id r = i) (ingresses st)"

definition find_wait :: "control_store \<Rightarrow> string \<Rightarrow> wait_row option" where
  "find_wait st i = find (\<lambda>w. wait_id w = i) (waits st)"

definition find_settlement :: "control_store \<Rightarrow> string \<Rightarrow> wait_settlement option" where
  "find_settlement st i = find (\<lambda>s. set_wait s = i) (settlements st)"

definition find_message :: "control_store \<Rightarrow> string \<Rightarrow> message_row option" where
  "find_message st i = find (\<lambda>m. msg_id m = i) (messages st)"

definition find_artifact :: "control_store \<Rightarrow> string \<Rightarrow> artifact_row option" where
  "find_artifact st i = find (\<lambda>a. art_id a = i) (artifacts st)"

definition find_lease :: "control_store \<Rightarrow> string \<Rightarrow> control_lease option" where
  "find_lease st i = find (\<lambda>l. lease_id l = i) (leases (st_leases st))"

lemma find_key_mem: "find (\<lambda>x. f x = k) xs = Some y \<Longrightarrow> y \<in> set xs \<and> f y = k"
  by (auto simp: find_Some_iff)

lemma find_key_None: "find (\<lambda>x. f x = k) xs = None \<longleftrightarrow> k \<notin> set (map f xs)"
  by (auto simp: find_None_iff)

lemma find_key_unique:
  assumes "distinct (map f xs)" "y \<in> set xs"
  shows "find (\<lambda>x. f x = f y) xs = Some y"
proof -
  obtain z where z: "find (\<lambda>x. f x = f y) xs = Some z"
    using assms(2) by (cases "find (\<lambda>x. f x = f y) xs") (auto simp: find_None_iff)
  with find_key_mem [OF z] assms have "z = y" by (auto simp: distinct_map dest: inj_onD)
  with z show ?thesis by simp
qed

lemma find_ingress_mem: "find_ingress st i = Some r \<Longrightarrow> r \<in> set (ingresses st) \<and> ing_id r = i"
  by (auto simp: find_ingress_def find_Some_iff)

lemma find_policy_mem: "find_policy st i = Some r \<Longrightarrow> r \<in> set (policies st) \<and> pol_id r = i"
  by (auto simp: find_policy_def find_Some_iff)

lemma find_wait_mem: "find_wait st i = Some r \<Longrightarrow> r \<in> set (waits st) \<and> wait_id r = i"
  by (auto simp: find_wait_def find_Some_iff)

lemma find_settlement_mem: "find_settlement st i = Some r \<Longrightarrow> r \<in> set (settlements st) \<and> set_wait r = i"
  by (auto simp: find_settlement_def find_Some_iff)

definition task_projection :: "store_env \<Rightarrow> control_store \<Rightarrow> string \<Rightarrow> store_error + lifecycle_projection" where
  "task_projection env st tid =
     (case task_lifecycle_projection (se_idcmp env) (event_log (st_tasks st)) tid of
        Inl e \<Rightarrow> Inl (LifecycleFailure e) | Inr p \<Rightarrow> Inr p)"

definition store_task_deleted :: "control_store \<Rightarrow> string \<Rightarrow> bool" where
  "store_task_deleted st tid \<longleftrightarrow> task_deleted (event_log (st_tasks st)) tid"

definition epoch_ingresses :: "control_store \<Rightarrow> string \<Rightarrow> int \<Rightarrow> ingress_row list" where
  "epoch_ingresses st tid ep = filter (\<lambda>r. ing_task r = tid \<and> ing_epoch r = ep) (ingresses st)"

end
