(* ===== verification/TaskWait.thy ===== *)
theory TaskWait
  imports ControlStore
begin

text \<open>
  Waits of a Task (\<open>engine/task-wait.ts\<close>): a wait is registered once by an exact tool
  occurrence, at most one settlement ends it, and its status is reduced from the
  registration, the settlement and the lifecycle of the Task.
\<close>

datatype wait_status = WScheduled | WDue | WDueIngressAccepted | WSuperseded | WTerminalInapplicable

record wait_projection =
  wp_id :: string
  wp_task :: string
  wp_epoch :: int
  wp_due :: int
  wp_reason :: string
  wp_status :: wait_status
  wp_ingress :: "string option"
  wp_created :: int

fun settled_status :: "settlement_kind \<Rightarrow> wait_status" where
  "settled_status DueIngressAccepted = WDueIngressAccepted"
| "settled_status Superseded = WSuperseded"

definition wait_view :: "wait_row \<Rightarrow> wait_status \<Rightarrow> string option \<Rightarrow> wait_projection" where
  "wait_view row status ing =
     \<lparr>wp_id = wait_id row, wp_task = wait_task row, wp_epoch = wait_epoch row, wp_due = due_at row,
      wp_reason = wait_reason row, wp_status = status, wp_ingress = ing, wp_created = wait_created row\<rparr>"

definition project_task_wait ::
  "store_env \<Rightarrow> control_store \<Rightarrow> wait_row \<Rightarrow> int \<Rightarrow> store_error + wait_projection" where
  "project_task_wait env st row now =
     (case find_settlement st (wait_id row) of
        Some s \<Rightarrow> Inr (wait_view row (settled_status (set_kind s)) (Some (set_ingress s)))
      | None \<Rightarrow> rbind (task_projection env st (wait_task row)) (\<lambda>lc.
          Inr (wait_view row
                (if proj_epoch lc \<noteq> wait_epoch row \<or> proj_status lc \<noteq> Active then WTerminalInapplicable
                 else if due_at row \<le> now then WDue else WScheduled) None)))"

text \<open>The unsettled registrations of an epoch, ordered by due time and identity.\<close>

definition unsettled :: "control_store \<Rightarrow> wait_row \<Rightarrow> bool" where
  "unsettled st w \<longleftrightarrow> find_settlement st (wait_id w) = None"

definition wait_order :: "wait_row \<Rightarrow> wait_row \<Rightarrow> int" where
  "wait_order = cmp_or (cmp_key due_at) (\<lambda>a b. text_cmp (wait_id a) (wait_id b))"

definition list_task_waits ::
  "store_env \<Rightarrow> control_store \<Rightarrow> string \<Rightarrow> int \<Rightarrow> store_error + wait_projection list" where
  "list_task_waits env st tid now =
     rtraverse (\<lambda>w. project_task_wait env st w now)
       (sort_by wait_order (filter (\<lambda>w. wait_task w = tid) (waits st)))"

definition current_waits :: "control_store \<Rightarrow> string \<Rightarrow> int \<Rightarrow> wait_row list" where
  "current_waits st tid ep = filter (\<lambda>w. wait_task w = tid \<and> wait_epoch w = ep \<and> unsettled st w) (waits st)"

definition list_current_task_waits ::
  "store_env \<Rightarrow> control_store \<Rightarrow> string \<Rightarrow> js_value \<Rightarrow> int \<Rightarrow> store_error + wait_projection list" where
  "list_current_task_waits env st tid limit now =
     (if \<not> is_safe_integer limit \<or> js_number limit \<le> 0 then Inl InvalidLimit
      else rbind (task_projection env st tid) (\<lambda>lc.
        if proj_status lc \<noteq> Active then Inr []
        else Inr (map (\<lambda>w. wait_view w (if due_at w \<le> now then WDue else WScheduled) None)
               (take (nat (js_number limit)) (sort_by wait_order (current_waits st tid (proj_epoch lc)))))))"

definition due_task_waits :: "control_store \<Rightarrow> string \<Rightarrow> int \<Rightarrow> int \<Rightarrow> wait_row list" where
  "due_task_waits st tid ep now = sort_by wait_order (filter (\<lambda>w. due_at w \<le> now) (current_waits st tid ep))"

definition next_task_wait_due_at :: "control_store \<Rightarrow> string \<Rightarrow> int \<Rightarrow> int option" where
  "next_task_wait_due_at st tid ep = map_option due_at (head_option (sort_by wait_order (current_waits st tid ep)))"

text \<open>
  \<open>exactDueTaskWaitForIngressInTransaction\<close>: the one wait an arriving wake does not
  supersede, resolved from the registration and never from the payload alone.
\<close>

record wake_input =
  wi_task :: string
  wi_epoch :: int
  wi_source :: ingress_source
  wi_source_id :: string
  wi_inline :: "(string \<times> json) list option"
  wi_now :: int

fun json_string :: "json option \<Rightarrow> string option" where
  "json_string (Some (JsonStr s)) = Some s"
| "json_string _ = None"

fun json_safe_integer :: "json option \<Rightarrow> int option" where
  "json_safe_integer (Some (JsonInt n)) = (if \<bar>n\<bar> \<le> max_safe_integer then Some n else None)"
| "json_safe_integer _ = None"

definition exact_due_task_wait :: "control_store \<Rightarrow> wake_input \<Rightarrow> store_error + string option" where
  "exact_due_task_wait st inp =
     (case map_of (case wi_inline inp of None \<Rightarrow> [] | Some kvs \<Rightarrow> kvs) ''taskWaitWake'' of
        None \<Rightarrow> Inr None
      | Some wake \<Rightarrow>
          (case (json_string (json_field wake ''jobID''), json_safe_integer (json_field wake ''dueAt'')) of
             (Some job, Some due) \<Rightarrow>
               if wi_source inp \<noteq> SrcInline \<or> job = [] \<or> json_string (json_field wake ''fireID'') \<noteq> Some job
                  \<or> wi_source_id inp \<noteq> job
               then Inl MalformedDueIdentity
               else (case find_wait st job of
                   None \<Rightarrow> Inl UnknownDueWait
                 | Some w \<Rightarrow>
                     if wait_task w \<noteq> wi_task inp \<or> wait_epoch w \<noteq> wi_epoch inp \<or> due_at w \<noteq> due
                     then Inl UnknownDueWait
                     else if due_at w > wi_now inp then Inl WaitNotDue
                     else if find_settlement st job \<noteq> None then Inl WaitAlreadySettled
                     else Inr (Some job))
           | _ \<Rightarrow> Inl MalformedDueIdentity))"

definition settle_task_wait ::
  "control_store \<Rightarrow> string \<Rightarrow> string \<Rightarrow> settlement_kind \<Rightarrow> int \<Rightarrow> store_error + control_store" where
  "settle_task_wait st wid iid kind now =
     (case (find_wait st wid, find_ingress st iid) of
        (Some w, Some i) \<Rightarrow>
          if wait_task w \<noteq> ing_task i \<or> wait_epoch w \<noteq> ing_epoch i then Inl UnrelatedSettlement
          else (case find_settlement st wid of
              Some s \<Rightarrow> if set_ingress s \<noteq> iid \<or> set_kind s \<noteq> kind then Inl ConflictingSettlement else Inr st
            | None \<Rightarrow> Inr (st\<lparr>settlements := settlements st
                 @ [\<lparr>set_wait = wid, set_ingress = iid, set_kind = kind, set_created = now\<rparr>]\<rparr>))
      | _ \<Rightarrow> Inl UnrelatedSettlement)"

fun settle_all ::
  "control_store \<Rightarrow> wait_row list \<Rightarrow> string \<Rightarrow> int \<Rightarrow> store_error + control_store" where
  "settle_all st [] iid now = Inr st"
| "settle_all st (w # ws) iid now =
     rbind (settle_task_wait st (wait_id w) iid Superseded now) (\<lambda>st'. settle_all st' ws iid now)"

definition supersede_current_task_waits ::
  "control_store \<Rightarrow> string \<Rightarrow> int \<Rightarrow> string \<Rightarrow> string option \<Rightarrow> int \<Rightarrow> store_error + control_store \<times> string list" where
  "supersede_current_task_waits st tid ep iid exc now =
     (let rows = filter (\<lambda>w. Some (wait_id w) \<noteq> exc) (current_waits st tid ep)
      in rbind (settle_all st rows iid now) (\<lambda>st'. Inr (st', map wait_id rows)))"

text \<open>\<open>createTaskWait\<close>, the registration by a tool occurrence of the Task's root activation.\<close>

record create_wait_input =
  cw_task :: string
  cw_project :: string
  cw_duration :: js_value
  cw_reason :: string
  cw_session :: string
  cw_message :: string
  cw_tool_part :: string
  cw_tool_call :: string
  cw_now :: int

definition assert_tool_occurrence :: "control_store \<Rightarrow> create_wait_input \<Rightarrow> store_error + unit" where
  "assert_tool_occurrence st inp =
     (case find (\<lambda>r. treq_id r = cw_tool_part inp) (tool_requests st) of
        None \<Rightarrow> Inl OccurrenceConflict
      | Some r \<Rightarrow>
          (case find_message st (treq_message r) of
             None \<Rightarrow> Inl OccurrenceConflict
           | Some m \<Rightarrow> guard_else (treq_message r = cw_message inp \<and> msg_session m = cw_session inp
                          \<and> treq_call r = cw_tool_call inp \<and> treq_tool r = ''wait'') OccurrenceConflict))"

definition insert_wait :: "control_store \<Rightarrow> wait_row \<Rightarrow> store_error + control_store" where
  "insert_wait st w =
     (if find_wait st (wait_id w) \<noteq> None then Inl (UniqueIndex ''engine_task_wait_registration.id'')
      else if list_ex (\<lambda>x. wait_tool_part x = wait_tool_part w) (waits st)
        then Inl (UniqueIndex ''engine_task_wait_tool_occurrence_idx'')
      else Inr (st\<lparr>waits := waits st @ [w]\<rparr>))"

text \<open>The Task-root activation that owns the creating message, and its accepted ingress.\<close>

definition creator_activation_of :: "control_store \<Rightarrow> create_wait_input \<Rightarrow> store_error + string" where
  "creator_activation_of st inp =
     (case find_message st (cw_message inp) of
        None \<Rightarrow> Inl NoActivationOwner
      | Some m \<Rightarrow> (case js_string_value (msg_activation m) of
            Some a \<Rightarrow> if msg_role m = ''assistant'' \<and> a \<noteq> [] then Inr a else Inl NoActivationOwner
          | None \<Rightarrow> Inl NoActivationOwner))"

definition creator_frontier ::
  "control_store \<Rightarrow> create_wait_input \<Rightarrow> int \<Rightarrow> string \<Rightarrow> store_error + ingress_row" where
  "creator_frontier st inp ep activation =
     (case find_lease st activation of
        None \<Rightarrow> Inl LostFrontier
      | Some l \<Rightarrow>
          (case find_ingress st (lease_target_id l) of
             None \<Rightarrow> Inl LostFrontier
           | Some i \<Rightarrow> if lease_target l \<noteq> TargetTaskRootIngress \<or> expires_at l \<le> cw_now inp
                         \<or> ing_task i \<noteq> cw_task inp \<or> ing_epoch i \<noteq> ep
                       then Inl LostFrontier else Inr i))"

definition newer_ingress :: "control_store \<Rightarrow> string \<Rightarrow> int \<Rightarrow> int \<Rightarrow> ingress_row option" where
  "newer_ingress st tid ep sequence =
     head_option (sort_by (cmp_or (cmp_key ing_sequence) (\<lambda>a b. text_cmp (ing_id a) (ing_id b)))
       (filter (\<lambda>r. ing_sequence r > sequence) (epoch_ingresses st tid ep)))"

definition replay_task_wait ::
  "store_env \<Rightarrow> control_store \<Rightarrow> create_wait_input \<Rightarrow> wait_row \<Rightarrow> store_error + wait_projection" where
  "replay_task_wait env st inp w =
     (if wait_task w \<noteq> cw_task inp
         \<or> wait_digest w \<noteq> se_wait_digest env (cw_task inp) (wait_epoch w) (cw_duration inp) (cw_reason inp)
         \<or> wait_reason w \<noteq> cw_reason inp
      then Inl OccurrenceConflict else project_task_wait env st w (cw_now inp))"

definition new_wait_row ::
  "store_env \<Rightarrow> create_wait_input \<Rightarrow> int \<Rightarrow> string \<Rightarrow> ingress_row \<Rightarrow> wait_row" where
  "new_wait_row env inp ep activation i =
     \<lparr>wait_id = se_wait_ident env (cw_tool_part inp), wait_task = cw_task inp,
      wait_project = ing_project i, wait_epoch = ep,
      due_at = cw_now inp + js_number (cw_duration inp), wait_reason = cw_reason inp,
      wait_tool_part = cw_tool_part inp, creator_ingress = ing_id i, creator_activation = activation,
      wait_digest = se_wait_digest env (cw_task inp) ep (cw_duration inp) (cw_reason inp),
      wait_created = cw_now inp\<rparr>"

text \<open>A wait whose epoch already has an ingress after its creator's is born superseded.\<close>

definition settle_if_overtaken ::
  "control_store \<Rightarrow> wait_row \<Rightarrow> ingress_row \<Rightarrow> int \<Rightarrow> store_error + control_store" where
  "settle_if_overtaken st w i now =
     (case newer_ingress st (wait_task w) (wait_epoch w) (ing_sequence i) of
        None \<Rightarrow> Inr st
      | Some n \<Rightarrow> settle_task_wait st (wait_id w) (ing_id n) Superseded now)"

definition register_task_wait ::
  "store_env \<Rightarrow> control_store \<Rightarrow> create_wait_input \<Rightarrow> store_error + control_store \<times> wait_row" where
  "register_task_wait env st inp =
     (if \<not> list_ex (\<lambda>t. row_id t = cw_task inp \<and> row_project t = cw_project inp) (task_rows (st_tasks st))
      then Inl MissingTask
      else rbind (task_projection env st (cw_task inp)) (\<lambda>lc.
        if proj_status lc \<noteq> Active then Inl TaskNotActive
        else rbind (creator_activation_of st inp) (\<lambda>activation.
          rbind (creator_frontier st inp (proj_epoch lc) activation) (\<lambda>i.
          rbind (insert_wait st (new_wait_row env inp (proj_epoch lc) activation i)) (\<lambda>st1.
          rbind (settle_if_overtaken st1 (new_wait_row env inp (proj_epoch lc) activation i) i (cw_now inp)) (\<lambda>st2.
            Inr (st2, new_wait_row env inp (proj_epoch lc) activation i)))))))"

definition create_task_wait ::
  "store_env \<Rightarrow> control_store \<Rightarrow> create_wait_input \<Rightarrow> store_error + control_store \<times> wait_projection" where
  "create_task_wait env st inp =
     (if \<not> is_safe_integer (cw_duration inp) \<or> js_number (cw_duration inp) \<le> 0 then Inl InvalidDuration
      else rbind (assert_tool_occurrence st inp) (\<lambda>_.
        case find (\<lambda>w. wait_tool_part w = cw_tool_part inp) (waits st) of
          Some w \<Rightarrow> rbind (replay_task_wait env st inp w) (\<lambda>p. Inr (st, p))
        | None \<Rightarrow> rbind (register_task_wait env st inp) (\<lambda>(st', w).
            rbind (project_task_wait env st' w (cw_now inp)) (\<lambda>p. Inr (st', p)))))"

end
