(* ===== verification/Ingress.thy ===== *)
theory Ingress
  imports Prelude
begin

text \<open>
  The reduction of a Task-root ingress (\<open>engine/task-root-ingress-reducer.ts\<close>): from the
  immutable facts of one accepted ingress and the clock to its projection, and the
  classification of when that projection can next change. \<open>lc\<close> is the host's
  \<open>localeCompare\<close>: its order on identities is not the code's to define.
\<close>

record ingress_policy =
  policy_id :: string
  semantic_turn_limit :: int
  activation_limit :: int
  absolute_deadline :: "int option"

record accepted_ingress =
  ingress_id :: string
  ingress_task :: string
  execution_epoch :: int
  ingress_sequence :: int
  ingress_policy_id :: string
  time_accepted :: int

datatype lifecycle_kind = LOpened | LCancellationRequested | LCancelled | LClosed | LReopened | LDeleted

record lifecycle_fact =
  lf_id :: string
  lf_kind :: lifecycle_kind
  lf_epoch :: int
  lf_sequence :: int
  lf_time :: int

record activation_lease =
  al_id :: string
  al_target :: string
  al_owner :: string
  al_activated :: int
  al_expires :: int

datatype turn_boundary = ToolCalls | FinalTurn | ProviderError | WaitTurn

record assistant_turn =
  turn_id :: string
  turn_activation :: string
  turn_predecessor :: string
  turn_completed :: int
  turn_boundary :: turn_boundary

record decision =
  decision_id :: string
  decision_message :: string
  decision_command :: string

record decision_gap =
  gap_id :: string
  gap_activation :: string
  gap_message :: string

datatype interaction_outcome = Answered | Rejected | ExpiredOutcome

record interaction =
  int_id :: string
  int_ingress :: string
  int_message :: string
  int_outcome :: "interaction_outcome option"
  int_resume :: "int option"
  int_request :: "string option"

datatype idempotency = Transactional | StableKey | QueryRequired

record activity_request =
  req_id :: string
  req_activation :: string
  req_message :: string
  req_idempotency :: idempotency

datatype activity_result = ActCompleted | ActFailed | ReconciledUnknown

record activity_outcome =
  out_id :: string
  out_request :: string
  out_result :: activity_result

record ingress_facts =
  integrity_violation :: bool
  ingress :: accepted_ingress
  policy :: ingress_policy
  lifecycle_facts :: "lifecycle_fact list"
  act_leases :: "activation_lease list"
  turns :: "assistant_turn list"
  decisions :: "decision list"
  decision_gaps :: "decision_gap list"
  interactions :: "interaction list"
  activity_requests :: "activity_request list"
  activity_outcomes :: "activity_outcome list"
  operator_abandoned :: "string list option"

datatype host_fault_reason =
    EvidenceViolation | PolicyDrift | DecisionAmbiguous | OutcomeAmbiguous
  | TurnWithoutActivation | InteractionAmbiguous

datatype exhaustion = SemanticLimit | ActivationLimitReached | DeadlinePassed

datatype boundary = BCancelled | BClosed | BReopened | BDeleted

datatype projection =
    HostFault host_fault_reason
  | Exhausted exhaustion
  | TerminalInapplicable boundary
  | Resolved "string list"
  | OperatorAbandoned "string list"
  | Leased string string int
  | ReconcileRequired "string list"
  | Waiting string "int option"
  | CancellingIngress string
  | Ready

definition releases_head_of_line :: "projection \<Rightarrow> bool" where
  "releases_head_of_line p =
     (case p of Resolved _ \<Rightarrow> True | TerminalInapplicable _ \<Rightarrow> True | Exhausted _ \<Rightarrow> True
      | OperatorAbandoned _ \<Rightarrow> True | _ \<Rightarrow> False)"

definition latest_ingress_lease :: "(string \<Rightarrow> string \<Rightarrow> int) \<Rightarrow> ingress_facts \<Rightarrow> activation_lease option" where
  "latest_ingress_lease lc facts =
     head_option (sort_by (cmp_or (cmp_key_desc al_activated) (\<lambda>l r. lc (al_id r) (al_id l)))
       (filter (\<lambda>l. al_target l = ingress_id (ingress facts)) (act_leases facts)))"

definition outcomes_of :: "ingress_facts \<Rightarrow> string \<Rightarrow> activity_outcome list" where
  "outcomes_of facts rid = filter (\<lambda>outc. out_request outc = rid) (activity_outcomes facts)"

definition completed_decisions :: "ingress_facts \<Rightarrow> decision list" where
  "completed_decisions facts =
     filter (\<lambda>d. decision_message d \<in> set (map turn_id (turns facts))) (decisions facts)"

definition valid_decision_set :: "(string \<Rightarrow> string \<Rightarrow> int) \<Rightarrow> ingress_facts \<Rightarrow> decision list option" where
  "valid_decision_set lc facts =
     (let ds = completed_decisions facts
      in if ds = [] then None
         else if length (remdups (map decision_message ds)) \<noteq> 1 then None
         else if length ds > 1 \<and> list_ex (\<lambda>d. decision_command d \<noteq> ''dispatch_agent'') ds then None
         else Some (sort_by (\<lambda>a b. lc (decision_id a) (decision_id b)) ds))"

definition activation_consumed :: "ingress_facts \<Rightarrow> string \<Rightarrow> bool" where
  "activation_consumed facts aid \<longleftrightarrow>
     (if list_ex (\<lambda>r. req_activation r = aid \<and> outcomes_of facts (req_id r) = []) (activity_requests facts)
      then False
      else list_ex (\<lambda>t. turn_activation t = aid
                       \<and> (turn_boundary t = FinalTurn \<or> turn_boundary t = ProviderError \<or> turn_boundary t = WaitTurn))
             (turns facts))"

definition host_fault :: "(string \<Rightarrow> string \<Rightarrow> int) \<Rightarrow> ingress_facts \<Rightarrow> host_fault_reason option" where
  "host_fault lc facts =
     (if policy_id (policy facts) \<noteq> ingress_policy_id (ingress facts) then Some PolicyDrift
      else if completed_decisions facts \<noteq> [] \<and> valid_decision_set lc facts = None then Some DecisionAmbiguous
      else if list_ex (\<lambda>outc. length (outcomes_of facts (out_request outc)) > 1) (activity_outcomes facts)
        then Some OutcomeAmbiguous
      else if list_ex (\<lambda>t. \<not> list_ex (\<lambda>l. al_id l = turn_activation t) (act_leases facts)) (turns facts)
        then Some TurnWithoutActivation
      else None)"

definition semantic_turn_ids :: "ingress_facts \<Rightarrow> string list" where
  "semantic_turn_ids facts =
     map turn_id (filter (\<lambda>t. turn_boundary t = FinalTurn
         \<and> \<not> list_ex (\<lambda>d. decision_message d = turn_id t) (decisions facts)
         \<and> \<not> list_ex (\<lambda>i. int_message i = turn_id t) (interactions facts)) (turns facts))"

definition semantic_attempt_ids :: "ingress_facts \<Rightarrow> string list" where
  "semantic_attempt_ids facts =
     map gap_id (decision_gaps facts)
     @ filter (\<lambda>i. i \<notin> set (map gap_message (decision_gaps facts))) (semantic_turn_ids facts)"

section \<open>Wake classification\<close>

definition cancellation_reconcile_wake_ms :: int where
  "cancellation_reconcile_wake_ms = 15000"

datatype surface = InfrastructureFact | InteractionSurface

datatype wake_class = Absorbing | FiniteWake int | OperatorGated surface | FifoDeferred

definition finite_wake :: "int \<Rightarrow> int option \<Rightarrow> wake_class" where
  "finite_wake instant deadline =
     FiniteWake (case min_defined (Some instant) deadline of Some w \<Rightarrow> w | None \<Rightarrow> instant)"

definition deadline_or :: "int option \<Rightarrow> wake_class \<Rightarrow> wake_class" where
  "deadline_or deadline fallback = (case deadline of None \<Rightarrow> fallback | Some d \<Rightarrow> FiniteWake d)"

fun classify_wake :: "projection \<Rightarrow> int option \<Rightarrow> int \<Rightarrow> wake_class" where
  "classify_wake (Resolved _) deadline now = Absorbing"
| "classify_wake (TerminalInapplicable _) deadline now = Absorbing"
| "classify_wake (OperatorAbandoned _) deadline now = Absorbing"
| "classify_wake (Leased _ _ expires) deadline now = finite_wake expires deadline"
| "classify_wake (Waiting _ resume) deadline now =
     (case resume of Some r \<Rightarrow> finite_wake r deadline
      | None \<Rightarrow> deadline_or deadline (OperatorGated InteractionSurface))"
| "classify_wake (CancellingIngress _) deadline now = finite_wake (now + cancellation_reconcile_wake_ms) deadline"
| "classify_wake (ReconcileRequired _) deadline now = deadline_or deadline (OperatorGated InteractionSurface)"
| "classify_wake (HostFault _) deadline now = OperatorGated InfrastructureFact"
| "classify_wake (Exhausted _) deadline now = OperatorGated InfrastructureFact"
| "classify_wake Ready deadline now = deadline_or deadline FifoDeferred"

definition wake_instant :: "projection \<Rightarrow> int option \<Rightarrow> int \<Rightarrow> int option" where
  "wake_instant p deadline now = (case classify_wake p deadline now of FiniteWake w \<Rightarrow> Some w | _ \<Rightarrow> None)"

section \<open>The reduction\<close>

definition current_fact_epoch :: "ingress_facts \<Rightarrow> int" where
  "current_fact_epoch facts =
     foldr max (map lf_epoch (filter (\<lambda>f. lf_kind f = LOpened \<or> lf_kind f = LReopened) (lifecycle_facts facts))) 0"

definition own_epoch_facts :: "ingress_facts \<Rightarrow> lifecycle_kind list \<Rightarrow> lifecycle_fact list" where
  "own_epoch_facts facts kinds =
     filter (\<lambda>f. lf_epoch f = execution_epoch (ingress facts) \<and> lf_kind f \<in> set kinds) (lifecycle_facts facts)"

definition terminal_boundary :: "ingress_facts \<Rightarrow> boundary option" where
  "terminal_boundary facts =
     (if current_fact_epoch facts > execution_epoch (ingress facts) then Some BReopened
      else if exactly_one (filter (\<lambda>f. lf_kind f = LDeleted) (lifecycle_facts facts)) \<noteq> None then Some BDeleted
      else case exactly_one (own_epoch_facts facts [LCancelled, LClosed]) of
        None \<Rightarrow> None
      | Some t \<Rightarrow> if lf_time t \<ge> time_accepted (ingress facts)
                  then Some (if lf_kind t = LCancelled then BCancelled else BClosed) else None)"

definition pending_reconciliation :: "ingress_facts \<Rightarrow> string list" where
  "pending_reconciliation facts =
     concat (map (\<lambda>i. case int_request i of Some r \<Rightarrow> (if r \<noteq> [] \<and> int_outcome i = None then [r] else [])
                     | None \<Rightarrow> []) (interactions facts))"

definition unknown_requests :: "(string \<Rightarrow> string \<Rightarrow> int) \<Rightarrow> ingress_facts \<Rightarrow> int \<Rightarrow> activity_request list" where
  "unknown_requests lc facts now =
     filter (\<lambda>r. outcomes_of facts (req_id r) = [] \<and> req_id r \<notin> set (pending_reconciliation facts)
         \<and> (case latest_ingress_lease lc facts of None \<Rightarrow> True
            | Some l \<Rightarrow> al_expires l \<le> now \<or> activation_consumed facts (req_activation r)))
       (activity_requests facts)"

definition waiting_interactions :: "(string \<Rightarrow> string \<Rightarrow> int) \<Rightarrow> ingress_facts \<Rightarrow> int \<Rightarrow> interaction list" where
  "waiting_interactions lc facts now =
     sort_by (\<lambda>a b. lc (int_id a) (int_id b))
       (filter (\<lambda>i. int_ingress i = ingress_id (ingress facts) \<and> int_outcome i = None
                  \<and> (case int_resume i of None \<Rightarrow> True | Some r \<Rightarrow> r > now)) (interactions facts))"

definition live_activation :: "(string \<Rightarrow> string \<Rightarrow> int) \<Rightarrow> ingress_facts \<Rightarrow> int \<Rightarrow> activation_lease option" where
  "live_activation lc facts now =
     (case latest_ingress_lease lc facts of None \<Rightarrow> None
      | Some l \<Rightarrow> if al_expires l > now \<and> \<not> activation_consumed facts (al_id l) then Some l else None)"

definition budget_projection :: "ingress_facts \<Rightarrow> projection" where
  "budget_projection facts =
     (if int (length (semantic_attempt_ids facts)) \<ge> semantic_turn_limit (policy facts) then Exhausted SemanticLimit
      else if int (length (filter (\<lambda>l. al_target l = ingress_id (ingress facts)) (act_leases facts)))
              \<ge> activation_limit (policy facts) then Exhausted ActivationLimitReached
      else Ready)"

definition reduce_ingress :: "(string \<Rightarrow> string \<Rightarrow> int) \<Rightarrow> ingress_facts \<Rightarrow> int \<Rightarrow> projection" where
  "reduce_ingress lc facts now =
     (case operator_abandoned facts of Some ev \<Rightarrow> OperatorAbandoned ev | None \<Rightarrow>
      if integrity_violation facts then HostFault EvidenceViolation
      else case host_fault lc facts of Some r \<Rightarrow> HostFault r | None \<Rightarrow>
      case terminal_boundary facts of Some b \<Rightarrow> TerminalInapplicable b | None \<Rightarrow>
      case valid_decision_set lc facts of Some ds \<Rightarrow> Resolved (map decision_id ds) | None \<Rightarrow>
      case live_activation lc facts now of Some l \<Rightarrow> Leased (al_id l) (al_owner l) (al_expires l) | None \<Rightarrow>
      if unknown_requests lc facts now \<noteq> []
        then ReconcileRequired (sort_by text_cmp (map req_id (unknown_requests lc facts now)))
      else case exactly_one (own_epoch_facts facts [LCancellationRequested]) of
        Some c \<Rightarrow> CancellingIngress (lf_id c) | None \<Rightarrow>
      if (case absolute_deadline (policy facts) of None \<Rightarrow> False | Some d \<Rightarrow> now \<ge> d) then Exhausted DeadlinePassed
      else case waiting_interactions lc facts now of
        _ # _ # _ \<Rightarrow> HostFault InteractionAmbiguous
      | [w] \<Rightarrow> Waiting (int_id w) (int_resume w)
      | [] \<Rightarrow> budget_projection facts)"

section \<open>What the reduction guarantees\<close>

text \<open>The part of the reduction that does not read the clock.\<close>

definition settled_projection :: "(string \<Rightarrow> string \<Rightarrow> int) \<Rightarrow> ingress_facts \<Rightarrow> projection option" where
  "settled_projection lc facts =
     (case operator_abandoned facts of Some ev \<Rightarrow> Some (OperatorAbandoned ev) | None \<Rightarrow>
      if integrity_violation facts then Some (HostFault EvidenceViolation)
      else case host_fault lc facts of Some r \<Rightarrow> Some (HostFault r) | None \<Rightarrow>
      case terminal_boundary facts of Some b \<Rightarrow> Some (TerminalInapplicable b) | None \<Rightarrow>
      case valid_decision_set lc facts of Some ds \<Rightarrow> Some (Resolved (map decision_id ds)) | None \<Rightarrow> None)"

definition clock_projection :: "(string \<Rightarrow> string \<Rightarrow> int) \<Rightarrow> ingress_facts \<Rightarrow> int \<Rightarrow> projection" where
  "clock_projection lc facts now =
     (case live_activation lc facts now of Some l \<Rightarrow> Leased (al_id l) (al_owner l) (al_expires l) | None \<Rightarrow>
      if unknown_requests lc facts now \<noteq> []
        then ReconcileRequired (sort_by text_cmp (map req_id (unknown_requests lc facts now)))
      else case exactly_one (own_epoch_facts facts [LCancellationRequested]) of
        Some c \<Rightarrow> CancellingIngress (lf_id c) | None \<Rightarrow>
      if (case absolute_deadline (policy facts) of None \<Rightarrow> False | Some d \<Rightarrow> now \<ge> d) then Exhausted DeadlinePassed
      else case waiting_interactions lc facts now of
        _ # _ # _ \<Rightarrow> HostFault InteractionAmbiguous
      | [w] \<Rightarrow> Waiting (int_id w) (int_resume w)
      | [] \<Rightarrow> budget_projection facts)"

lemma reduce_ingress_split:
  "reduce_ingress lc facts now =
     (case settled_projection lc facts of Some p \<Rightarrow> p | None \<Rightarrow> clock_projection lc facts now)"
  by (simp add: reduce_ingress_def settled_projection_def clock_projection_def split: option.split)

lemma settled_shape:
  "settled_projection lc facts = Some p \<Longrightarrow>
     p \<in> range OperatorAbandoned \<union> range HostFault \<union> range TerminalInapplicable \<union> range Resolved"
  by (auto simp: settled_projection_def split: option.splits if_splits)

lemma budget_shape: "budget_projection facts \<in> {Exhausted SemanticLimit, Exhausted ActivationLimitReached, Ready}"
  by (simp add: budget_projection_def)

lemma budget_not [simp]:
  "budget_projection facts \<noteq> HostFault r" "budget_projection facts \<noteq> Leased a b e"
  "budget_projection facts \<noteq> TerminalInapplicable t" "budget_projection facts \<noteq> Resolved ds"
  "budget_projection facts \<noteq> OperatorAbandoned ev" "budget_projection facts \<noteq> ReconcileRequired rs"
  "budget_projection facts \<noteq> Waiting i w" "budget_projection facts \<noteq> CancellingIngress c"
  "budget_projection facts \<noteq> Exhausted DeadlinePassed"
  by (simp_all add: budget_projection_def)

lemma clock_shape:
  "clock_projection lc facts now \<notin> range OperatorAbandoned \<union> range TerminalInapplicable \<union> range Resolved"
  by (auto simp: clock_projection_def split: option.splits list.splits if_splits)

text \<open>
  The instants at which a projection can change by itself: the expiry of the latest lease,
  the resume time of an open interaction and the absolute deadline.
\<close>

definition clock_instants :: "(string \<Rightarrow> string \<Rightarrow> int) \<Rightarrow> ingress_facts \<Rightarrow> int list" where
  "clock_instants lc facts =
     (case latest_ingress_lease lc facts of None \<Rightarrow> [] | Some l \<Rightarrow> [al_expires l])
     @ (case absolute_deadline (policy facts) of None \<Rightarrow> [] | Some d \<Rightarrow> [d])
     @ concat (map (\<lambda>i. case int_resume i of None \<Rightarrow> [] | Some r \<Rightarrow> [r]) (interactions facts))"

definition quiet :: "(string \<Rightarrow> string \<Rightarrow> int) \<Rightarrow> ingress_facts \<Rightarrow> int \<Rightarrow> int \<Rightarrow> bool" where
  "quiet lc facts now t \<longleftrightarrow> list_all (\<lambda>w. \<not> (now < w \<and> w \<le> t)) (clock_instants lc facts)"

lemma quiet_lease:
  "quiet lc facts now t \<Longrightarrow> now \<le> t \<Longrightarrow> latest_ingress_lease lc facts = Some l \<Longrightarrow> (al_expires l > t) = (al_expires l > now)"
  by (auto simp: quiet_def clock_instants_def)

lemma quiet_deadline:
  "quiet lc facts now t \<Longrightarrow> now \<le> t \<Longrightarrow> absolute_deadline (policy facts) = Some d \<Longrightarrow> (t \<ge> d) = (now \<ge> d)"
  by (auto simp: quiet_def clock_instants_def)

lemma quiet_resume:
  "quiet lc facts now t \<Longrightarrow> now \<le> t \<Longrightarrow> i \<in> set (interactions facts) \<Longrightarrow> int_resume i = Some r \<Longrightarrow> (r > t) = (r > now)"
  by (fastforce simp: quiet_def clock_instants_def list_all_iff)

lemma quiet_live: "quiet lc facts now t \<Longrightarrow> now \<le> t \<Longrightarrow> live_activation lc facts t = live_activation lc facts now"
  by (auto simp: live_activation_def quiet_lease split: option.split)

lemma quiet_unknown: "quiet lc facts now t \<Longrightarrow> now \<le> t \<Longrightarrow> unknown_requests lc facts t = unknown_requests lc facts now"
  by (auto simp: unknown_requests_def quiet_lease linorder_not_less [symmetric] split: option.split intro!: filter_cong)

lemma quiet_waiting: "quiet lc facts now t \<Longrightarrow> now \<le> t \<Longrightarrow> waiting_interactions lc facts t = waiting_interactions lc facts now"
  unfolding waiting_interactions_def
  by (intro arg_cong [where f = "sort_by _"] filter_cong) (auto simp: quiet_resume split: option.split)

lemma quiet_clock:
  assumes "quiet lc facts now t" "now \<le> t"
  shows "clock_projection lc facts t = clock_projection lc facts now"
proof -
  have late: "(case absolute_deadline (policy facts) of None \<Rightarrow> False | Some d \<Rightarrow> t \<ge> d)
      = (case absolute_deadline (policy facts) of None \<Rightarrow> False | Some d \<Rightarrow> now \<ge> d)"
    using quiet_deadline [OF assms] by (simp split: option.split)
  show ?thesis
    unfolding clock_projection_def quiet_live [OF assms] quiet_unknown [OF assms] quiet_waiting [OF assms] late ..
qed

lemma reduce_piecewise_constant:
  assumes "quiet lc facts now t" "now \<le> t"
  shows "reduce_ingress lc facts t = reduce_ingress lc facts now"
  by (simp only: reduce_ingress_split quiet_clock [OF assms])

section \<open>The wake classification against the reduction\<close>

definition no_live_lease :: "(string \<Rightarrow> string \<Rightarrow> int) \<Rightarrow> ingress_facts \<Rightarrow> int \<Rightarrow> bool" where
  "no_live_lease lc facts now \<longleftrightarrow>
     (case latest_ingress_lease lc facts of None \<Rightarrow> True | Some l \<Rightarrow> al_expires l \<le> now)"

lemma no_live_lease_later: "no_live_lease lc facts now \<Longrightarrow> now \<le> t \<Longrightarrow> no_live_lease lc facts t"
  by (auto simp: no_live_lease_def split: option.splits)

lemma no_live_lease_none: "no_live_lease lc facts now \<Longrightarrow> live_activation lc facts now = None"
  by (auto simp: no_live_lease_def live_activation_def split: option.splits)

lemma no_live_lease_unknown:
  "no_live_lease lc facts now \<Longrightarrow> now \<le> t \<Longrightarrow> unknown_requests lc facts t = unknown_requests lc facts now"
  by (auto simp: no_live_lease_def unknown_requests_def split: option.splits intro!: filter_cong)

definition open_at :: "ingress_facts \<Rightarrow> int \<Rightarrow> interaction \<Rightarrow> bool" where
  "open_at facts now i \<longleftrightarrow> int_ingress i = ingress_id (ingress facts) \<and> int_outcome i = None
     \<and> (case int_resume i of None \<Rightarrow> True | Some r \<Rightarrow> r > now)"

lemma waiting_open:
  "waiting_interactions lc facts now = sort_by (\<lambda>a b. lc (int_id a) (int_id b)) (filter (open_at facts now) (interactions facts))"
  unfolding waiting_interactions_def open_at_def ..

lemma open_at_later: "now \<le> t \<Longrightarrow> filter (open_at facts t) xs = filter (open_at facts t) (filter (open_at facts now) xs)"
  by (induction xs) (auto simp: open_at_def split: option.splits)

lemma waiting_later_none:
  "now \<le> t \<Longrightarrow> waiting_interactions lc facts now = [] \<Longrightarrow> waiting_interactions lc facts t = []"
  by (simp add: waiting_open open_at_later [of now t facts "interactions facts"] del: filter_filter)

lemma waiting_later_one:
  assumes "now \<le> t" and one: "waiting_interactions lc facts now = [w]"
    and later: "\<And>r. int_resume w = Some r \<Longrightarrow> t < r"
  shows "waiting_interactions lc facts t = [w]"
proof -
  let ?xs = "filter (open_at facts now) (interactions facts)"
  let ?c = "\<lambda>a b. lc (int_id a) (int_id b)"
  have "length ?xs = length [w]" "set ?xs = set [w]"
    unfolding one [symmetric] waiting_open length_sort_by set_sort_by by (rule refl)+
  then have now: "?xs = [w]" by (cases ?xs) auto
  then have "w \<in> set ?xs" by simp
  with later have "open_at facts t w" by (auto simp: open_at_def split: option.split)
  then have "filter (open_at facts t) (interactions facts) = [w]"
    by (simp add: open_at_later [OF assms(1), of facts "interactions facts"] now del: filter_filter)
  then show ?thesis by (simp add: waiting_open)
qed

lemma clock_wake_constant:
  assumes nl: "no_live_lease lc facts now" and t: "now \<le> t"
    and wake: "case wake_instant (clock_projection lc facts now) (absolute_deadline (policy facts)) now of
                 Some w \<Rightarrow> t < w
               | None \<Rightarrow> classify_wake (clock_projection lc facts now) (absolute_deadline (policy facts)) now
                           \<noteq> OperatorGated InfrastructureFact"
  shows "clock_projection lc facts t = clock_projection lc facts now"
proof -
  note steady = no_live_lease_none [OF nl] no_live_lease_none [OF no_live_lease_later [OF nl t]] no_live_lease_unknown [OF nl t]
  consider (unknown) "unknown_requests lc facts now \<noteq> []"
    | (cancel) "unknown_requests lc facts now = []" "exactly_one (own_epoch_facts facts [LCancellationRequested]) \<noteq> None"
    | (rest) "unknown_requests lc facts now = []" "exactly_one (own_epoch_facts facts [LCancellationRequested]) = None"
    by blast
  then show ?thesis
  proof cases
    case unknown
    then show ?thesis by (simp add: clock_projection_def steady)
  next
    case cancel
    then show ?thesis by (auto simp: clock_projection_def steady)
  next
    case rest
    let ?late = "\<lambda>now. case absolute_deadline (policy facts) of None \<Rightarrow> False | Some d \<Rightarrow> now \<ge> d"
    have "\<not> ?late now"
      using wake rest by (auto simp: clock_projection_def steady wake_instant_def)
    moreover obtain ws where ws: "waiting_interactions lc facts now = ws" by blast
    moreover have "\<not> (\<exists>a b c. ws = a # b # c)"
      using wake rest ws calculation(1) by (auto simp: clock_projection_def steady wake_instant_def)
    then consider (none) "ws = []" | (one) w where "ws = [w]" by (metis neq_Nil_conv)
    then show ?thesis
    proof cases
      case none
      have now: "clock_projection lc facts now = budget_projection facts"
        using rest ws none calculation(1) by (simp add: clock_projection_def steady split: option.split)
      have "budget_projection facts = Ready"
        using wake budget_shape [of facts] by (auto simp: now wake_instant_def)
      with wake have "\<not> ?late t"
        by (auto simp: now wake_instant_def deadline_or_def split: option.splits)
      then show ?thesis
        using rest ws none waiting_later_none [OF t, of lc facts] now
        by (simp add: clock_projection_def steady split: option.split)
    next
      case one
      have now: "clock_projection lc facts now = Waiting (int_id w) (int_resume w)"
        using rest ws one calculation(1) by (simp add: clock_projection_def steady split: option.split)
      have "\<not> ?late t" and "\<And>r. int_resume w = Some r \<Longrightarrow> t < r"
        using wake by (auto simp: now wake_instant_def deadline_or_def finite_wake_def min_defined_def split: option.splits)
      then show ?thesis
        using rest ws one waiting_later_one [OF t, of lc facts w] now
        by (simp add: clock_projection_def steady split: option.split)
    qed
  qed
qed

lemma leased_constant:
  assumes "live_activation lc facts now = Some l" "now \<le> t" "t < al_expires l"
  shows "clock_projection lc facts t = clock_projection lc facts now"
proof -
  have "live_activation lc facts t = Some l"
    using assms by (auto simp: live_activation_def split: option.splits if_splits)
  with assms(1) show ?thesis by (simp add: clock_projection_def)
qed

lemma settled_not_wake: "settled_projection lc facts = Some p \<Longrightarrow> reduce_ingress lc facts t = p"
  by (simp add: reduce_ingress_split)

lemma unsettled_clock: "settled_projection lc facts = None \<Longrightarrow> reduce_ingress lc facts t = clock_projection lc facts t"
  by (simp add: reduce_ingress_split)

text \<open>The latest lease is still running although its activation has already finished.\<close>

definition finished_early :: "(string \<Rightarrow> string \<Rightarrow> int) \<Rightarrow> ingress_facts \<Rightarrow> int \<Rightarrow> bool" where
  "finished_early lc facts now \<longleftrightarrow>
     (case latest_ingress_lease lc facts of None \<Rightarrow> False
      | Some l \<Rightarrow> al_expires l > now \<and> activation_consumed facts (al_id l))"

lemma lease_phase:
  assumes "\<not> finished_early lc facts now"
  obtains (live) l where "live_activation lc facts now = Some l" "latest_ingress_lease lc facts = Some l"
    | (lapsed) "no_live_lease lc facts now"
proof (cases "latest_ingress_lease lc facts")
  case None
  then show thesis by (intro lapsed) (simp add: no_live_lease_def)
next
  case (Some l)
  then show thesis
    using assms live [of l] lapsed
    by (cases "now < al_expires l") (auto simp: finished_early_def live_activation_def no_live_lease_def)
qed

lemma leased_wake:
  obtains w where "wake_instant (Leased a b e) d now = Some w" "w \<le> e"
  by (cases d) (auto simp: wake_instant_def finite_wake_def min_defined_def)

text \<open>
  C3: the wake computed for a projection is sound under two
  conditions. If the latest lease is not a running one whose activation has already finished
  (\<open>finished_early\<close>), then the projection stays the same from now until just before the
  computed wake; and if no wake is computed and the projection is not gated on an
  infrastructure fact, it stays the same for ever. Neither condition can be dropped: a lease that
  outlives its finished activation changes the projection earlier than the computed wake
  (\<open>finished_early_wake_is_late\<close>), and an ambiguous interaction, which gets no wake, dissolves
  when a resume time passes (\<open>ambiguity_dissolves_without_wake\<close>).
\<close>

theorem wake_is_sound:
  assumes nf: "\<not> finished_early lc facts now" and t: "now \<le> t"
    and wake: "case wake_instant (reduce_ingress lc facts now) (absolute_deadline (policy facts)) now of
                 Some w \<Rightarrow> t < w
               | None \<Rightarrow> classify_wake (reduce_ingress lc facts now) (absolute_deadline (policy facts)) now
                           \<noteq> OperatorGated InfrastructureFact"
  shows "reduce_ingress lc facts t = reduce_ingress lc facts now"
proof (cases "settled_projection lc facts")
  case (Some p)
  then show ?thesis by (simp add: settled_not_wake)
next
  case None
  note clock = unsettled_clock [OF None]
  from nf show ?thesis
  proof (cases rule: lease_phase)
    case (live l)
    then have "reduce_ingress lc facts now = Leased (al_id l) (al_owner l) (al_expires l)"
      by (simp add: clock clock_projection_def)
    moreover obtain w where "wake_instant (Leased (al_id l) (al_owner l) (al_expires l))
        (absolute_deadline (policy facts)) now = Some w" "w \<le> al_expires l"
      by (rule leased_wake)
    ultimately have "t < al_expires l" using wake by simp
    then show ?thesis unfolding clock by (rule leased_constant [OF live(1) t])
  next
    case lapsed
    from clock_wake_constant [OF this t] wake show ?thesis unfolding clock by blast
  qed
qed

text \<open>
  An ingress resolves only on unambiguous evidence. All its decisions were taken in one
  completed turn, several decisions are all dispatches, no request has two outcomes, every
  turn ran under a granted activation, and the policy is the one the ingress was accepted
  under.
\<close>

theorem resolved_on_unambiguous_evidence:
  assumes "reduce_ingress lc facts now = Resolved ds"
  shows "(\<exists>t \<in> set (turns facts). \<forall>d \<in> set (completed_decisions facts). decision_message d = turn_id t)
    \<and> set ds = set (map decision_id (completed_decisions facts)) \<and> ds \<noteq> []
    \<and> (length ds > 1 \<longrightarrow> (\<forall>d \<in> set (completed_decisions facts). decision_command d = ''dispatch_agent''))
    \<and> (\<forall>outc \<in> set (activity_outcomes facts). length (outcomes_of facts (out_request outc)) = 1)
    \<and> (\<forall>t \<in> set (turns facts). \<exists>l \<in> set (act_leases facts). al_id l = turn_activation t)
    \<and> policy_id (policy facts) = ingress_policy_id (ingress facts)"
proof -
  from assms have settled: "settled_projection lc facts = Some (Resolved ds)"
    using clock_shape [of lc facts now] by (auto simp: reduce_ingress_split split: option.splits)
  then obtain v where nf: "host_fault lc facts = None" and v: "valid_decision_set lc facts = Some v"
    and ds: "ds = map decision_id v"
    by (auto simp: settled_projection_def split: option.split_asm if_split_asm)
  let ?c = "completed_decisions facts"
  have c: "?c \<noteq> []" "length (remdups (map decision_message ?c)) = 1"
    "length ?c > 1 \<Longrightarrow> \<forall>d \<in> set ?c. decision_command d = ''dispatch_agent''"
    and vs: "v = sort_by (\<lambda>a b. lc (decision_id a) (decision_id b)) ?c"
    using v by (auto simp: valid_decision_set_def Let_def list_ex_iff split: if_split_asm)
  from c(2) obtain m where "remdups (map decision_message ?c) = [m]" by (auto simp: length_Suc_conv)
  then have m: "set (map decision_message ?c) = {m}" by (metis list.set(1) list.simps(15) set_remdups)
  then have all: "\<forall>d \<in> set ?c. decision_message d = m" by auto
  obtain d where d: "d \<in> set ?c" using c(1) by (cases ?c) auto
  then obtain t where "t \<in> set (turns facts)" "decision_message d = turn_id t"
    by (auto simp: completed_decisions_def)
  with all d have turn: "\<exists>t \<in> set (turns facts). \<forall>d \<in> set ?c. decision_message d = turn_id t" by metis
  have one: "length (outcomes_of facts (out_request outc)) = 1" if "outc \<in> set (activity_outcomes facts)" for outc
  proof -
    have "outcomes_of facts (out_request outc) \<noteq> []"
      using that by (auto simp: outcomes_of_def filter_empty_conv)
    moreover have "\<not> length (outcomes_of facts (out_request outc)) > 1"
      using nf that by (auto simp: host_fault_def list_ex_iff split: if_split_asm)
    ultimately show ?thesis by (cases "outcomes_of facts (out_request outc)") auto
  qed
  have "set ds = set (map decision_id ?c)" "length ds = length ?c" "ds \<noteq> []"
    using c(1) by (simp_all add: ds vs)
  moreover have "\<forall>t \<in> set (turns facts). \<exists>l \<in> set (act_leases facts). al_id l = turn_activation t"
    and "policy_id (policy facts) = ingress_policy_id (ingress facts)"
    using nf by (auto simp: host_fault_def list_ex_iff split: if_split_asm)
  ultimately show ?thesis using turn one c(3) by simp
qed

text \<open>
  An ingress is offered for activation only when it may run: no lease is running for an
  unfinished activation, no effect is of unknown outcome, no question is open, the deadline
  has not passed, its epoch is current, and both its budgets have something left.
\<close>

theorem ready_may_run:
  assumes "reduce_ingress lc facts now = Ready"
  shows "live_activation lc facts now = None \<and> unknown_requests lc facts now = []
    \<and> waiting_interactions lc facts now = []
    \<and> (\<forall>d. absolute_deadline (policy facts) = Some d \<longrightarrow> now < d)
    \<and> current_fact_epoch facts \<le> execution_epoch (ingress facts)
    \<and> int (length (semantic_attempt_ids facts)) < semantic_turn_limit (policy facts)
    \<and> int (length (filter (\<lambda>l. al_target l = ingress_id (ingress facts)) (act_leases facts)))
        < activation_limit (policy facts)"
proof -
  have settled: "settled_projection lc facts = None"
    using assms settled_shape [of lc facts] by (cases "settled_projection lc facts") (auto simp: settled_not_wake)
  then have "clock_projection lc facts now = Ready" using assms by (simp add: unsettled_clock)
  then have clock: "live_activation lc facts now = None" "unknown_requests lc facts now = []"
    "waiting_interactions lc facts now = []" "budget_projection facts = Ready"
    "\<forall>d. absolute_deadline (policy facts) = Some d \<longrightarrow> now < d"
    by (auto simp: clock_projection_def split: option.split_asm if_split_asm list.split_asm)
  moreover have "terminal_boundary facts = None"
    using settled by (simp add: settled_projection_def split: option.split_asm if_split_asm)
  then have "current_fact_epoch facts \<le> execution_epoch (ingress facts)"
    by (simp add: terminal_boundary_def split: if_split_asm)
  ultimately show ?thesis by (simp add: budget_projection_def split: if_split_asm)
qed

text \<open>
  Between two clock readings with no lease expiry, resume time or deadline in between,
  the projection of the same facts is the same.
\<close>

theorem reduction_piecewise_constant:
  assumes "quiet lc facts now t" "now \<le> t"
  shows "reduce_ingress lc facts t = reduce_ingress lc facts now"
  by (rule reduce_piecewise_constant [OF assms])

section \<open>Concrete facts\<close>

definition demo_facts :: ingress_facts where
  "demo_facts = \<lparr> integrity_violation = False,
     ingress = \<lparr> ingress_id = ''in1'', ingress_task = ''t1'', execution_epoch = 1, ingress_sequence = 1,
                 ingress_policy_id = ''p1'', time_accepted = 10 \<rparr>,
     policy = \<lparr> policy_id = ''p1'', semantic_turn_limit = 3, activation_limit = 4, absolute_deadline = Some 500 \<rparr>,
     lifecycle_facts = [\<lparr> lf_id = ''e1'', lf_kind = LOpened, lf_epoch = 1, lf_sequence = 1, lf_time = 5 \<rparr>],
     act_leases = [], turns = [], decisions = [], decision_gaps = [], interactions = [],
     activity_requests = [], activity_outcomes = [], operator_abandoned = None \<rparr>"

definition demo_lease :: activation_lease where
  "demo_lease = \<lparr> al_id = ''l1'', al_target = ''in1'', al_owner = ''o1'', al_activated = 20, al_expires = 100 \<rparr>"

definition demo_turn :: assistant_turn where
  "demo_turn = \<lparr> turn_id = ''m1'', turn_activation = ''l1'', turn_predecessor = [], turn_completed = 30,
     turn_boundary = FinalTurn \<rparr>"

definition demo_question :: "string \<Rightarrow> int option \<Rightarrow> interaction" where
  "demo_question i r = \<lparr> int_id = i, int_ingress = ''in1'', int_message = ''m1'', int_outcome = None,
     int_resume = r, int_request = None \<rparr>"

definition demo_request :: "string \<Rightarrow> activity_request" where
  "demo_request a = \<lparr> req_id = ''r1'', req_activation = a, req_message = ''m1'', req_idempotency = QueryRequired \<rparr>"

definition demo_leased :: ingress_facts where
  "demo_leased = demo_facts\<lparr> act_leases := [demo_lease] \<rparr>"

definition demo_resolved :: ingress_facts where
  "demo_resolved = demo_leased\<lparr> turns := [demo_turn],
     decisions := [\<lparr> decision_id = ''d1'', decision_message = ''m1'', decision_command = ''create_goal'' \<rparr>] \<rparr>"

theorem wake_is_sound_witness:
  "reduce_ingress text_cmp demo_leased 99 = reduce_ingress text_cmp demo_leased 40
   \<and> reduce_ingress text_cmp demo_leased 40 = Leased ''l1'' ''o1'' 100
   \<and> reduce_ingress text_cmp demo_leased 100 = Ready"
proof -
  have "reduce_ingress text_cmp demo_leased 99 = reduce_ingress text_cmp demo_leased 40"
    by (rule wake_is_sound) code_simp+
  moreover have "reduce_ingress text_cmp demo_leased 40 = Leased ''l1'' ''o1'' 100" by code_simp
  moreover have "reduce_ingress text_cmp demo_leased 100 = Ready" by code_simp
  ultimately show ?thesis by simp
qed

theorem resolved_on_unambiguous_evidence_witness:
  "reduce_ingress text_cmp demo_resolved 40 = Resolved [''d1'']
   \<and> policy_id (policy demo_resolved) = ingress_policy_id (ingress demo_resolved)"
proof -
  have r: "reduce_ingress text_cmp demo_resolved 40 = Resolved [''d1'']" by code_simp
  with resolved_on_unambiguous_evidence [OF r] show ?thesis by simp
qed

theorem ready_may_run_witness:
  "reduce_ingress text_cmp demo_facts 40 = Ready \<and> live_activation text_cmp demo_facts 40 = None"
proof -
  have r: "reduce_ingress text_cmp demo_facts 40 = Ready" by code_simp
  with ready_may_run [OF r] show ?thesis by simp
qed

theorem reduction_piecewise_constant_witness:
  "reduce_ingress text_cmp demo_leased 499 = reduce_ingress text_cmp demo_leased 100"
  by (rule reduction_piecewise_constant) code_simp+

section \<open>Two limits of the wake classification\<close>

definition demo_ambiguous :: ingress_facts where
  "demo_ambiguous = demo_facts\<lparr> interactions := [demo_question ''q1'' (Some 60), demo_question ''q2'' None] \<rparr>"

text \<open>
  A fault for two open questions is gated on an infrastructure fact and gets no wake,
  yet it dissolves by itself when the resume time of one of the questions passes, and
  becomes an exhaustion at the deadline.
\<close>

theorem ambiguity_dissolves_without_wake:
  "reduce_ingress text_cmp demo_ambiguous 40 = HostFault InteractionAmbiguous
   \<and> wake_instant (reduce_ingress text_cmp demo_ambiguous 40) (absolute_deadline (policy demo_ambiguous)) 40 = None
   \<and> reduce_ingress text_cmp demo_ambiguous 60 = Waiting ''q2'' None
   \<and> reduce_ingress text_cmp demo_ambiguous 500 = Exhausted DeadlinePassed"
  by code_simp

definition demo_finished :: ingress_facts where
  "demo_finished = demo_facts\<lparr>
     act_leases := [demo_lease, \<lparr> al_id = ''l0'', al_target = ''in1'', al_owner = ''o0'', al_activated = 12, al_expires = 18 \<rparr>],
     turns := [demo_turn], activity_requests := [demo_request ''l0''] \<rparr>"

text \<open>
  When an activation finishes before its lease runs out and an older activation left an
  effect without an outcome, the projection changes from ready to a reconciliation at the
  lease's expiry, although the wake computed for it is the deadline.
\<close>

theorem finished_early_wake_is_late:
  "finished_early text_cmp demo_finished 40
   \<and> reduce_ingress text_cmp demo_finished 40 = Ready
   \<and> wake_instant (reduce_ingress text_cmp demo_finished 40) (absolute_deadline (policy demo_finished)) 40 = Some 500
   \<and> reduce_ingress text_cmp demo_finished 100 = ReconcileRequired [''r1'']"
  by code_simp

end
