(* ===== verification/IngressStore.thy ===== *)
theory IngressStore
  imports TaskWait Ingress
begin

text \<open>
  The durable side of Task-root ingresses (\<open>engine/task-root-fact-store.ts\<close>,
  \<open>engine/task-root-ingress-disposition.ts\<close>): acceptance with exact replay, the facts the
  reducer reads, the first-in-first-out frontier, activation and its fence.
\<close>

section \<open>Policies\<close>

record policy_input =
  pi_turns :: js_value
  pi_activations :: js_value
  pi_deadline :: "js_value option"

definition positive_safe :: "js_value \<Rightarrow> bool" where
  "positive_safe v \<longleftrightarrow> is_safe_integer v \<and> 0 < js_number v"

definition assert_policy :: "policy_input \<Rightarrow> store_error + unit" where
  "assert_policy p =
     (if \<not> positive_safe (pi_turns p) then Inl InvalidPolicy
      else if \<not> positive_safe (pi_activations p) then Inl InvalidPolicy
      else case pi_deadline p of Some d \<Rightarrow> guard_else (positive_safe d) InvalidPolicy | None \<Rightarrow> Inr ())"

definition policy_matches :: "policy_row \<Rightarrow> policy_input \<Rightarrow> bool" where
  "policy_matches r p \<longleftrightarrow> JInt (pol_turns r) = pi_turns p \<and> JInt (pol_activations r) = pi_activations p
     \<and> map_option JInt (pol_deadline r) = pi_deadline p"

definition insert_policy_or_ignore :: "control_store \<Rightarrow> policy_row \<Rightarrow> control_store" where
  "insert_policy_or_ignore st r =
     (if find_policy st (pol_id r) \<noteq> None then st else st\<lparr>policies := policies st @ [r]\<rparr>)"

definition ensure_policy ::
  "store_env \<Rightarrow> control_store \<Rightarrow> policy_input \<Rightarrow> int \<Rightarrow> store_error + control_store \<times> string" where
  "ensure_policy env st p now =
     rbind (assert_policy p) (\<lambda>_.
       let turns = js_number (pi_turns p); acts = js_number (pi_activations p);
           deadline = map_option js_number (pi_deadline p);
           i = se_policy_ident env turns acts deadline;
           st1 = insert_policy_or_ignore st \<lparr>pol_id = i, pol_turns = turns, pol_activations = acts,
                   pol_deadline = deadline, pol_created = now\<rparr>
       in case find_policy st1 i of
            None \<Rightarrow> Inl PolicyCollision
          | Some r \<Rightarrow> if policy_matches r p then Inr (st1, i) else Inl PolicyCollision)"

section \<open>Acceptance\<close>

record accept_input =
  ai_task :: string
  ai_epoch :: js_value
  ai_source :: ingress_source
  ai_source_id :: string
  ai_inline :: "(string \<times> json) list option"
  ai_policy :: policy_input
  ai_now :: int

definition find_source :: "control_store \<Rightarrow> accept_input \<Rightarrow> ingress_row option" where
  "find_source st inp =
     find (\<lambda>r. ing_task r = ai_task inp \<and> ing_source r = ai_source inp \<and> ing_source_id r = ai_source_id inp)
       (ingresses st)"

definition replay_ingress :: "control_store \<Rightarrow> accept_input \<Rightarrow> ingress_row \<Rightarrow> store_error + ingress_row" where
  "replay_ingress st inp r =
     (if JInt (ing_epoch r) \<noteq> ai_epoch inp then Inl ReplayEpochChanged
      else if ing_inline r \<noteq> ai_inline inp then Inl ReplayPayloadChanged
      else case find_policy st (ing_policy r) of
             None \<Rightarrow> Inl ReplayPolicyChanged
           | Some p \<Rightarrow> if policy_matches p (ai_policy inp) then Inr r else Inl ReplayPolicyChanged)"

definition source_within_task ::
  "control_store \<Rightarrow> accept_input \<Rightarrow> task_row \<Rightarrow> store_error + unit" where
  "source_within_task st inp task =
     (case ai_source inp of
        SrcMessage \<Rightarrow>
          (case find_message st (ai_source_id inp) of
             None \<Rightarrow> Inl SourceOutsideTask
           | Some m \<Rightarrow> guard_else (case row_session task of None \<Rightarrow> False
                                   | Some s \<Rightarrow> s \<noteq> [] \<and> msg_session m = s) SourceOutsideTask)
      | SrcProtocolEvent \<Rightarrow>
          (case find (\<lambda>e. event_id e = ai_source_id inp) (event_log (st_tasks st)) of
             None \<Rightarrow> Inl SourceOutsideTask
           | Some e \<Rightarrow> guard_else (aggregate e = AggTask \<and> aggregate_id e = ai_task inp) SourceOutsideTask)
      | SrcTask \<Rightarrow> guard_else (ai_source_id inp = ai_task inp) SourceOutsideTask
      | SrcEngineArtifact \<Rightarrow>
          (case find_artifact st (ai_source_id inp) of
             None \<Rightarrow> Inl SourceOutsideTask
           | Some a \<Rightarrow> guard_else (art_task a = ai_task inp) SourceOutsideTask)
      | SrcInline \<Rightarrow> Inr ())"

text \<open>\<open>ORDER BY sequence DESC LIMIT 1\<close> over the epoch, and the insert with its unique indexes.\<close>

definition next_ingress_sequence :: "control_store \<Rightarrow> string \<Rightarrow> int \<Rightarrow> int" where
  "next_ingress_sequence st tid ep =
     (case sort_by (cmp_key_desc ing_sequence) (epoch_ingresses st tid ep) of
        [] \<Rightarrow> 1 | r # _ \<Rightarrow> ing_sequence r + 1)"

definition insert_ingress :: "control_store \<Rightarrow> ingress_row \<Rightarrow> store_error + control_store" where
  "insert_ingress st r =
     (if find_ingress st (ing_id r) \<noteq> None then Inl (UniqueIndex ''engine_task_root_ingress.id'')
      else if list_ex (\<lambda>x. ing_sequence x = ing_sequence r) (epoch_ingresses st (ing_task r) (ing_epoch r))
        then Inl (UniqueIndex ''engine_task_root_ingress_sequence_idx'')
      else if list_ex (\<lambda>x. ing_task x = ing_task r \<and> ing_source x = ing_source r \<and> ing_source_id x = ing_source_id r)
                (ingresses st)
        then Inl (UniqueIndex ''engine_task_root_ingress_source_idx'')
      else Inr (st\<lparr>ingresses := ingresses st @ [r]\<rparr>))"

definition admit_new_ingress ::
  "store_env \<Rightarrow> control_store \<Rightarrow> accept_input \<Rightarrow> task_row \<Rightarrow> store_error + control_store \<times> ingress_row" where
  "admit_new_ingress env st inp task =
     (let ep = js_number (ai_epoch inp)
      in rbind (source_within_task st inp task) (\<lambda>_.
         rbind (exact_due_task_wait st \<lparr>wi_task = ai_task inp, wi_epoch = ep, wi_source = ai_source inp,
                  wi_source_id = ai_source_id inp, wi_inline = ai_inline inp, wi_now = ai_now inp\<rparr>) (\<lambda>due.
         rbind (ensure_policy env st (ai_policy inp) (ai_now inp)) (\<lambda>(st1, pid).
           let r = \<lparr>ing_id = se_ingress_ident env (ai_task inp) (ai_source inp) (ai_source_id inp),
                    ing_task = ai_task inp, ing_project = row_project task, ing_epoch = ep,
                    ing_sequence = next_ingress_sequence st1 (ai_task inp) ep,
                    ing_source = ai_source inp, ing_source_id = ai_source_id inp,
                    ing_inline = ai_inline inp, ing_policy = pid, ing_accepted = ai_now inp\<rparr>
           in rbind (insert_ingress st1 r) (\<lambda>st2.
              rbind (supersede_current_task_waits st2 (ai_task inp) ep (ing_id r) due (ai_now inp)) (\<lambda>(st3, _).
                Inr (st3, r)))))))"

definition accept_ingress ::
  "store_env \<Rightarrow> control_store \<Rightarrow> accept_input \<Rightarrow> store_error + control_store \<times> ingress_row" where
  "accept_ingress env st inp =
     (if store_task_deleted st (ai_task inp) then Inl TaskDeletedRejected
      else if \<not> positive_safe (ai_epoch inp) then Inl InvalidEpoch
      else if blank (ai_source_id inp) then Inl EmptySource
      else if (ai_source inp = SrcInline) \<noteq> (ai_inline inp \<noteq> None) then Inl InlinePayloadMismatch
      else case find_source st inp of
        Some r \<Rightarrow> rbind (replay_ingress st inp r) (\<lambda>r. Inr (st, r))
      | None \<Rightarrow>
          (case find_task (st_tasks st) (ai_task inp) of
             None \<Rightarrow> Inl MissingTask
           | Some task \<Rightarrow>
               rbind (task_projection env st (ai_task inp)) (\<lambda>lc.
                 if JInt (proj_epoch lc) \<noteq> ai_epoch inp then Inl EpochNotCurrent
                 else admit_new_ingress env st inp task)))"

section \<open>The facts of an ingress\<close>

fun lifecycle_kind :: "event_type \<Rightarrow> lifecycle_kind option" where
  "lifecycle_kind TaskExecutionOpened = Some LOpened"
| "lifecycle_kind TaskExecutionReopened = Some LReopened"
| "lifecycle_kind TaskCancellationRequested = Some LCancellationRequested"
| "lifecycle_kind TaskCancelled = Some LCancelled"
| "lifecycle_kind TaskCompleted = Some LClosed"
| "lifecycle_kind TaskFailed = Some LClosed"
| "lifecycle_kind TaskDeleted = Some LDeleted"
| "lifecycle_kind (OtherEvent _) = None"

definition lifecycle_fact_of :: "protocol_event \<Rightarrow> lifecycle_kind \<Rightarrow> store_error + lifecycle_fact" where
  "lifecycle_fact_of e k =
     (if positive_safe (payload_epoch e)
      then Inr \<lparr>lf_id = event_id e, lf_kind = k, lf_epoch = js_number (payload_epoch e),
                lf_sequence = seq_no e, lf_time = emitted_at e\<rparr>
      else Inl (LifecycleFailure MissingExecutionEpoch))"

definition read_lifecycle_facts :: "control_store \<Rightarrow> string \<Rightarrow> store_error + lifecycle_fact list" where
  "read_lifecycle_facts st tid =
     rtraverse (\<lambda>(e, k). lifecycle_fact_of e k)
       (concat (map (\<lambda>e. case lifecycle_kind (event_kind e) of None \<Rightarrow> [] | Some k \<Rightarrow> [(e, k)])
         (sort_by (cmp_or (cmp_key seq_no) (\<lambda>a b. text_cmp (event_id a) (event_id b)))
           (aggregate_rows AggTask tid (event_log (st_tasks st))))))"

text \<open>
  The evidence reader is an argument of the code. It returns the evidence, reports an
  integrity violation (\<open>None\<close>), or fails.
\<close>

record ingress_evidence =
  ev_turns :: "assistant_turn list"
  ev_decisions :: "decision list"
  ev_gaps :: "decision_gap list"
  ev_interactions :: "interaction list"
  ev_requests :: "activity_request list"
  ev_outcomes :: "activity_outcome list"

definition empty_evidence :: ingress_evidence where
  "empty_evidence = \<lparr>ev_turns = [], ev_decisions = [], ev_gaps = [], ev_interactions = [],
     ev_requests = [], ev_outcomes = []\<rparr>"

type_synonym evidence_reader = "control_store \<Rightarrow> ingress_row \<Rightarrow> store_error + ingress_evidence option"

fun disposition_of_artifact :: "artifact_row \<Rightarrow> disposition_payload option" where
  "disposition_of_artifact a = (case art_payload a of DispositionArtifact d \<Rightarrow> Some d | _ \<Rightarrow> None)"

definition disposition_artifact :: "control_store \<Rightarrow> string \<Rightarrow> string \<Rightarrow> (artifact_row \<times> disposition_payload) option" where
  "disposition_artifact st tid iid =
     head_option (concat (map (\<lambda>a. case disposition_of_artifact a of
         Some d \<Rightarrow> if art_task a = tid \<and> dp_ingress d = iid then [(a, d)] else []
       | None \<Rightarrow> []) (artifacts st)))"

definition valid_disposition :: "disposition_payload \<Rightarrow> bool" where
  "valid_disposition d \<longleftrightarrow> dp_task d \<noteq> [] \<and> dp_ingress d \<noteq> [] \<and> dp_epoch d > 0 \<and> dp_created d > 0
     \<and> dp_evidence d \<noteq> [] \<and> list_all (\<lambda>e. e \<noteq> []) (dp_evidence d)
     \<and> (case dp_occurrence d of
          None \<Rightarrow> dp_kind d \<noteq> DispResolved
        | Some oc \<Rightarrow> dp_kind d = DispResolved \<and> occ_assistant oc \<noteq> [] \<and> occ_control oc \<noteq> []
                    \<and> occ_predecessor oc \<noteq> [] \<and> occ_activation oc \<noteq> [])"

definition ingress_disposition ::
  "control_store \<Rightarrow> string \<Rightarrow> string \<Rightarrow> store_error + disposition_payload option" where
  "ingress_disposition st tid iid =
     (case disposition_artifact st tid iid of
        None \<Rightarrow> Inr None
      | Some (a, d) \<Rightarrow> if valid_disposition d then Inr (Some d) else Inl InvalidDisposition)"

definition ingress_leases :: "control_store \<Rightarrow> string \<Rightarrow> activation_lease list" where
  "ingress_leases st iid =
     map (\<lambda>l. \<lparr>al_id = lease_id l, al_target = lease_target_id l, al_owner = owner_occurrence l,
               al_activated = time_activated l, al_expires = expires_at l\<rparr>)
       (sort_by (cmp_or (cmp_key time_activated) (\<lambda>a b. text_cmp (lease_id a) (lease_id b)))
         (target_leases (st_leases st) TargetTaskRootIngress iid))"

definition read_ingress_facts ::
  "evidence_reader \<Rightarrow> control_store \<Rightarrow> string \<Rightarrow> store_error + ingress_facts" where
  "read_ingress_facts rd st iid =
     (case find_ingress st iid of None \<Rightarrow> Inl IngressNotFound | Some r \<Rightarrow>
      case find_policy st (ing_policy r) of None \<Rightarrow> Inl MissingPolicy | Some p \<Rightarrow>
      rbind (rd st r) (\<lambda>found.
      rbind (ingress_disposition st (ing_task r) iid) (\<lambda>disp.
      rbind (read_lifecycle_facts st (ing_task r)) (\<lambda>lfs.
        let ev = (case found of None \<Rightarrow> empty_evidence | Some e \<Rightarrow> e)
        in Inr \<lparr>integrity_violation = (found = None),
             ingress = \<lparr>ingress_id = ing_id r, ingress_task = ing_task r, execution_epoch = ing_epoch r,
                        ingress_sequence = ing_sequence r, ingress_policy_id = ing_policy r,
                        time_accepted = ing_accepted r\<rparr>,
             policy = \<lparr>policy_id = pol_id p, semantic_turn_limit = pol_turns p,
                       activation_limit = pol_activations p, absolute_deadline = pol_deadline p\<rparr>,
             lifecycle_facts = lfs, act_leases = ingress_leases st iid,
             turns = ev_turns ev, decisions = ev_decisions ev, decision_gaps = ev_gaps ev,
             interactions = ev_interactions ev, activity_requests = ev_requests ev,
             activity_outcomes = ev_outcomes ev,
             operator_abandoned = (case disp of
                 Some d \<Rightarrow> if dp_kind d = DispOperatorAbandoned then Some (dp_evidence d) else None
               | None \<Rightarrow> None)\<rparr>))))"

definition project_ingress ::
  "(string \<Rightarrow> string \<Rightarrow> int) \<Rightarrow> evidence_reader \<Rightarrow> control_store \<Rightarrow> string \<Rightarrow> int \<Rightarrow> store_error + projection" where
  "project_ingress lc rd st iid now =
     rbind (read_ingress_facts rd st iid) (\<lambda>facts. Inr (reduce_ingress lc facts now))"

end
