(* ===== verification/StoreInvariant.thy ===== *)
theory StoreInvariant
  imports IngressStore
begin

text \<open>
  What the acceptance, wait and settlement operations keep true of their four tables, whatever
  happens to the other tables in between, and the replay of an acceptance.
\<close>

section \<open>Histories of operations\<close>

definition with_owned_tables :: "control_store \<Rightarrow> control_store \<Rightarrow> control_store" where
  "with_owned_tables st o' = o'\<lparr>policies := policies st, ingresses := ingresses st,
     waits := waits st, settlements := settlements st\<rparr>"

definition empty_tables :: "control_store \<Rightarrow> control_store" where
  "empty_tables o' = o'\<lparr>policies := [], ingresses := [], waits := [], settlements := []\<rparr>"

datatype store_op =
    OpAccept accept_input
  | OpCreateWait create_wait_input
  | OpSettle string string settlement_kind int
  | OpElsewhere control_store

fun store_step :: "store_env \<Rightarrow> control_store \<Rightarrow> store_op \<Rightarrow> control_store" where
  "store_step env st (OpAccept inp) = commit st (rbind (accept_ingress env st inp) (\<lambda>(st', _). Inr st'))"
| "store_step env st (OpCreateWait inp) = commit st (rbind (create_task_wait env st inp) (\<lambda>(st', _). Inr st'))"
| "store_step env st (OpSettle w i k now) = commit st (settle_task_wait st w i k now)"
| "store_step env st (OpElsewhere o') = with_owned_tables st o'"

section \<open>The invariant\<close>

definition ingress_ids :: "control_store \<Rightarrow> string list" where
  "ingress_ids st = map ing_id (ingresses st)"

definition wait_ids :: "control_store \<Rightarrow> string list" where
  "wait_ids st = map wait_id (waits st)"

definition ingresses_ok :: "control_store \<Rightarrow> bool" where
  "ingresses_ok st \<longleftrightarrow> distinct (ingress_ids st)
     \<and> (\<forall>tid ep. \<exists>n. map ing_sequence (epoch_ingresses st tid ep) = ordinals n)
     \<and> distinct (map (\<lambda>r. (ing_task r, ing_source r, ing_source_id r)) (ingresses st))
     \<and> (\<forall>r \<in> set (ingresses st). find_policy st (ing_policy r) \<noteq> None)"

definition waits_ok :: "control_store \<Rightarrow> bool" where
  "waits_ok st \<longleftrightarrow> distinct (wait_ids st)
     \<and> (\<forall>w \<in> set (waits st). \<exists>i \<in> set (ingresses st).
          ing_id i = creator_ingress w \<and> ing_task i = wait_task w \<and> ing_epoch i = wait_epoch w)"

definition settlements_ok :: "control_store \<Rightarrow> bool" where
  "settlements_ok st \<longleftrightarrow> distinct (map set_wait (settlements st))
     \<and> (\<forall>s \<in> set (settlements st). \<exists>w \<in> set (waits st). \<exists>i \<in> set (ingresses st).
          wait_id w = set_wait s \<and> ing_id i = set_ingress s \<and> ing_task i = wait_task w \<and> ing_epoch i = wait_epoch w)"

definition on_frontier :: "control_store \<Rightarrow> wait_row \<Rightarrow> bool" where
  "on_frontier st w \<longleftrightarrow>
     (\<forall>c \<in> set (ingresses st). ing_id c = creator_ingress w \<longrightarrow>
        (\<forall>i \<in> set (epoch_ingresses st (wait_task w) (wait_epoch w)). ing_sequence i > ing_sequence c \<longrightarrow>
           ing_source i = SrcInline \<and> ing_source_id i = wait_id w))"

definition frontier_ok :: "control_store \<Rightarrow> bool" where
  "frontier_ok st \<longleftrightarrow> (\<forall>w \<in> set (waits st). unsettled st w \<longrightarrow> on_frontier st w)"

definition store_ok :: "control_store \<Rightarrow> bool" where
  "store_ok st \<longleftrightarrow> ingresses_ok st \<and> waits_ok st \<and> settlements_ok st \<and> frontier_ok st"

section \<open>Settling\<close>

lemma settle_cases:
  assumes "settle_task_wait st wid iid kind now = Inr st'"
  obtains w i where "find_wait st wid = Some w" "find_ingress st iid = Some i"
      "wait_task w = ing_task i" "wait_epoch w = ing_epoch i"
      "(st' = st \<and> find_settlement st wid \<noteq> None)
       \<or> (find_settlement st wid = None \<and> st' = st\<lparr>settlements := settlements st
            @ [\<lparr>set_wait = wid, set_ingress = iid, set_kind = kind, set_created = now\<rparr>]\<rparr>)"
proof -
  obtain w i where wi: "find_wait st wid = Some w" "find_ingress st iid = Some i"
    "wait_task w = ing_task i" "wait_epoch w = ing_epoch i"
    using assms by (auto simp: settle_task_wait_def split: option.split_asm if_split_asm)
  with assms show thesis
    by (intro that [OF wi]) (auto simp: settle_task_wait_def split: option.split_asm if_split_asm)
qed

lemma settle_shape:
  assumes "settle_task_wait st wid iid kind now = Inr st'"
  obtains xs where "st' = st\<lparr>settlements := settlements st @ xs\<rparr>"
  using assms by (rule settle_cases) (metis append_Nil2 control_store.surjective control_store.update_convs(6))

lemma find_settlement_append:
  "find_settlement (st\<lparr>settlements := settlements st @ xs\<rparr>) i
     = (case find_settlement st i of Some s \<Rightarrow> Some s | None \<Rightarrow> find (\<lambda>s. set_wait s = i) xs)"
proof -
  have "find P (ys @ xs) = (case find P ys of Some s \<Rightarrow> Some s | None \<Rightarrow> find P xs)" for P and ys :: "wait_settlement list"
    by (induction ys) auto
  then show ?thesis by (simp add: find_settlement_def)
qed

lemma settle_unsettled:
  assumes "settle_task_wait st wid iid kind now = Inr st'"
  shows "unsettled st' w \<longleftrightarrow> unsettled st w \<and> wait_id w \<noteq> wid"
  using assms
  by (rule settle_cases) (auto simp: unsettled_def find_settlement_append split: option.splits)

lemma settlements_ok_settle:
  assumes ok: "settlements_ok st" and s: "settle_task_wait st wid iid kind now = Inr st'"
  shows "settlements_ok st'"
  using s
proof (rule settle_cases)
  fix w i
  assume wi: "find_wait st wid = Some w" "find_ingress st iid = Some i" "wait_task w = ing_task i" "wait_epoch w = ing_epoch i"
    and st': "(st' = st \<and> find_settlement st wid \<noteq> None)
       \<or> (find_settlement st wid = None \<and> st' = st\<lparr>settlements := settlements st
            @ [\<lparr>set_wait = wid, set_ingress = iid, set_kind = kind, set_created = now\<rparr>]\<rparr>)"
  show ?thesis
  proof (cases "find_settlement st wid")
    case None
    then have new: "st' = st\<lparr>settlements := settlements st
            @ [\<lparr>set_wait = wid, set_ingress = iid, set_kind = kind, set_created = now\<rparr>]\<rparr>"
      and fresh: "wid \<notin> set (map set_wait (settlements st))"
      using st' by (auto simp: find_settlement_def find_None_iff)
    have "w \<in> set (waits st)" "wait_id w = wid" "i \<in> set (ingresses st)" "ing_id i = iid"
      using find_wait_mem [OF wi(1)] find_ingress_mem [OF wi(2)] by auto
    with wi(3,4) have "\<exists>w \<in> set (waits st). \<exists>i \<in> set (ingresses st).
          wait_id w = wid \<and> ing_id i = iid \<and> ing_task i = wait_task w \<and> ing_epoch i = wait_epoch w" by metis
    with ok fresh show ?thesis by (simp add: settlements_ok_def new)
  qed (use st' ok in auto)
qed

text \<open>Settling a list of waits: only settlements are added, and every listed wait ends settled.\<close>

lemma settle_all_cases:
  assumes "settle_all st ws iid now = Inr st'"
  obtains xs where "st' = st\<lparr>settlements := settlements st @ xs\<rparr>"
    "\<And>w. unsettled st' w \<longleftrightarrow> unsettled st w \<and> wait_id w \<notin> set (map wait_id ws)"
    "settlements_ok st \<Longrightarrow> settlements_ok st'"
proof -
  have "(\<exists>xs. st' = st\<lparr>settlements := settlements st @ xs\<rparr>)
    \<and> (\<forall>w. unsettled st' w \<longleftrightarrow> unsettled st w \<and> wait_id w \<notin> set (map wait_id ws))
    \<and> (settlements_ok st \<longrightarrow> settlements_ok st')"
    using assms
  proof (induction ws arbitrary: st)
    case Nil
    then show ?case by (auto intro!: exI [of _ "[]"])
  next
    case (Cons w ws)
    then obtain st1 where s: "settle_task_wait st (wait_id w) iid Superseded now = Inr st1"
      and rest: "settle_all st1 ws iid now = Inr st'" by (auto simp: rbind_Inr_iff)
    obtain ys where "st1 = st\<lparr>settlements := settlements st @ ys\<rparr>" using s by (rule settle_shape)
    with Cons.IH [OF rest] settle_unsettled [OF s] settlements_ok_settle [OF _ s] show ?case by auto
  qed
  then show thesis using that by blast
qed

text \<open>The listed waits of one epoch can always be settled by an ingress of that epoch.\<close>

lemma settle_all_total:
  assumes "\<And>w. w \<in> set ws \<Longrightarrow> find_wait st (wait_id w) = Some w \<and> wait_task w = ing_task i \<and> wait_epoch w = ing_epoch i \<and> unsettled st w"
    and "find_ingress st iid = Some i" "distinct (map wait_id ws)"
  shows "\<exists>st'. settle_all st ws iid now = Inr st'"
  using assms
proof (induction ws arbitrary: st)
  case (Cons w ws)
  let ?st1 = "st\<lparr>settlements := settlements st
      @ [\<lparr>set_wait = wait_id w, set_ingress = iid, set_kind = Superseded, set_created = now\<rparr>]\<rparr>"
  have s: "settle_task_wait st (wait_id w) iid Superseded now = Inr ?st1"
    using Cons.prems(1) [of w] Cons.prems(2) by (simp add: settle_task_wait_def unsettled_def)
  have "find_wait ?st1 (wait_id x) = Some x \<and> wait_task x = ing_task i \<and> wait_epoch x = ing_epoch i \<and> unsettled ?st1 x"
    if "x \<in> set ws" for x
  proof -
    have "wait_id x \<in> set (map wait_id ws)" "wait_id w \<notin> set (map wait_id ws)" using that Cons.prems(3) by auto
    then have "wait_id x \<noteq> wait_id w" by metis
    then show ?thesis using that Cons.prems(1) [of x] settle_unsettled [OF s, of x] by (simp add: find_wait_def)
  qed
  moreover have "find_ingress ?st1 iid = Some i" using Cons.prems(2) by (simp add: find_ingress_def)
  ultimately have "\<exists>st'. settle_all ?st1 ws iid now = Inr st'" using Cons.prems(3) by (intro Cons.IH) auto
  with s show ?case by simp
qed simp

section \<open>Registration of waits\<close>

lemma frontier_ok_fewer:
  assumes "frontier_ok st" "waits st' = waits st" "ingresses st' = ingresses st"
    and "\<And>w. unsettled st' w \<Longrightarrow> unsettled st w"
  shows "frontier_ok st'"
  using assms by (auto simp: frontier_ok_def on_frontier_def epoch_ingresses_def)

lemma store_ok_settle:
  assumes ok: "store_ok st" and s: "settle_task_wait st wid iid kind now = Inr st'"
  shows "store_ok st'"
proof -
  obtain xs where st': "st' = st\<lparr>settlements := settlements st @ xs\<rparr>" using s by (rule settle_shape)
  have "ingresses_ok st' = ingresses_ok st" "waits_ok st' = waits_ok st"
    by (simp_all add: st' ingresses_ok_def waits_ok_def ingress_ids_def wait_ids_def epoch_ingresses_def find_policy_def)
  moreover have "frontier_ok st'"
  proof (rule frontier_ok_fewer)
    show "frontier_ok st" using ok by (simp add: store_ok_def)
    show "waits st' = waits st" "ingresses st' = ingresses st" by (simp_all add: st')
    show "unsettled st w" if "unsettled st' w" for w using that settle_unsettled [OF s] by blast
  qed
  ultimately show ?thesis using ok settlements_ok_settle [OF _ s] by (simp add: store_ok_def)
qed

lemma newer_ingress_None:
  "newer_ingress st tid ep n = None \<longleftrightarrow> (\<forall>i \<in> set (epoch_ingresses st tid ep). ing_sequence i \<le> n)"
  by (auto simp: newer_ingress_def filter_empty_conv)

lemma insert_wait_cases:
  assumes "insert_wait st w = Inr st'"
  shows "st' = st\<lparr>waits := waits st @ [w]\<rparr>" "wait_id w \<notin> set (wait_ids st)"
  using assms by (auto simp: insert_wait_def wait_ids_def find_wait_def find_None_iff split: if_split_asm)

lemma creator_frontier_mem:
  assumes "creator_frontier st inp ep a = Inr i"
  shows "i \<in> set (ingresses st)" "ing_task i = cw_task inp" "ing_epoch i = ep"
  using assms by (auto simp: creator_frontier_def dest: find_ingress_mem split: option.split_asm if_split_asm)

text \<open>The waits and settlements after a wait \<open>w\<close> is inserted, before it is settled.\<close>

lemma insert_wait_ok:
  assumes ok: "store_ok st" and ins: "insert_wait st w = Inr st1"
    and i: "i \<in> set (ingresses st)" "ing_id i = creator_ingress w" "ing_task i = wait_task w" "ing_epoch i = wait_epoch w"
  shows "ingresses_ok st1" "waits_ok st1" "settlements_ok st1"
    "\<And>x. x \<in> set (waits st) \<Longrightarrow> unsettled st1 x \<Longrightarrow> on_frontier st1 x"
proof -
  note st1 = insert_wait_cases [OF ins]
  show "ingresses_ok st1"
    using ok by (simp add: st1(1) store_ok_def ingresses_ok_def ingress_ids_def epoch_ingresses_def find_policy_def)
  show "waits_ok st1"
    using ok st1(2) i by (auto simp: st1(1) store_ok_def waits_ok_def wait_ids_def)
  show "settlements_ok st1"
    using ok by (fastforce simp: st1(1) store_ok_def settlements_ok_def)
  show "on_frontier st1 x" if "x \<in> set (waits st)" "unsettled st1 x" for x
    using ok that by (simp add: st1(1) store_ok_def frontier_ok_def on_frontier_def epoch_ingresses_def unsettled_def find_settlement_def)
qed

lemma new_wait_on_frontier:
  assumes ids: "distinct (ingress_ids st)" and i: "i \<in> set (ingresses st)" "ing_id i = creator_ingress w"
    and none: "newer_ingress st (wait_task w) (wait_epoch w) (ing_sequence i) = None"
  shows "on_frontier st w"
proof -
  have "c = i" if "c \<in> set (ingresses st)" "ing_id c = creator_ingress w" for c
    using ids i that inj_onD [of ing_id "set (ingresses st)" c i] by (simp add: ingress_ids_def distinct_map)
  with none show ?thesis by (force simp: on_frontier_def newer_ingress_None)
qed

lemma register_ok:
  assumes ok: "store_ok st" and reg: "register_task_wait env st inp = Inr (st', w)"
  shows "store_ok st'"
proof -
  obtain ep a i st1 where i: "creator_frontier st inp ep a = Inr i" and w: "w = new_wait_row env inp ep a i"
    and ins: "insert_wait st w = Inr st1" and fin: "settle_if_overtaken st1 w i (cw_now inp) = Inr st'"
    using reg by (auto simp: register_task_wait_def rbind_Inr_iff split: if_split_asm)
  note im = creator_frontier_mem [OF i]
  have link: "ing_id i = creator_ingress w" "ing_task i = wait_task w" "ing_epoch i = wait_epoch w"
    using im by (simp_all add: w new_wait_row_def)
  note base = insert_wait_ok [OF ok ins im(1) link]
  have ing1: "ingresses st1 = ingresses st" and w1: "waits st1 = waits st @ [w]"
    using insert_wait_cases(1) [OF ins] by simp_all
  show ?thesis
  proof (cases "newer_ingress st1 (wait_task w) (wait_epoch w) (ing_sequence i)")
    case None
    then have "on_frontier st1 w"
      using base(1) im(1) link(1) by (intro new_wait_on_frontier [of st1 i]) (auto simp: ing1 ingresses_ok_def)
    then have "frontier_ok st1" using base(4) by (auto simp: frontier_ok_def w1)
    with fin None base show ?thesis by (simp add: store_ok_def settle_if_overtaken_def)
  next
    case (Some n)
    with fin have s: "settle_task_wait st1 (wait_id w) (ing_id n) Superseded (cw_now inp) = Inr st'"
      by (simp add: settle_if_overtaken_def)
    obtain xs where st': "st' = st1\<lparr>settlements := settlements st1 @ xs\<rparr>" using s by (rule settle_shape)
    have "on_frontier st' x" if "x \<in> set (waits st')" "unsettled st' x" for x
    proof -
      have "x \<noteq> w" "unsettled st1 x" using that settle_unsettled [OF s] by auto
      then have "on_frontier st1 x" using base(4) that(1) w1 st' by auto
      then show ?thesis by (simp add: on_frontier_def st' epoch_ingresses_def)
    qed
    moreover have "ingresses_ok st'" "waits_ok st'"
      using base(1,2) by (simp_all add: st' ingresses_ok_def waits_ok_def ingress_ids_def wait_ids_def epoch_ingresses_def find_policy_def)
    ultimately show ?thesis using settlements_ok_settle [OF base(3) s] by (simp add: store_ok_def frontier_ok_def)
  qed
qed

lemma create_wait_ok:
  assumes ok: "store_ok st" and cr: "create_task_wait env st inp = Inr (st', p)"
  shows "store_ok st'"
  using cr ok register_ok [OF ok]
  by (auto simp: create_task_wait_def rbind_Inr_iff split: if_split_asm option.split_asm prod.split_asm)

section \<open>Acceptance\<close>

lemma find_append: "find P (xs @ ys) = (case find P xs of Some x \<Rightarrow> Some x | None \<Rightarrow> find P ys)"
  by (induction xs) auto

lemma ensure_policy_cases:
  assumes "ensure_policy env st p now = Inr (st1, pid)"
  obtains xs pr where "st1 = st\<lparr>policies := policies st @ xs\<rparr>" "find_policy st1 pid = Some pr" "policy_matches pr p"
proof -
  have "\<exists>xs. insert_policy_or_ignore st r = st\<lparr>policies := policies st @ xs\<rparr>" for r
    unfolding insert_policy_or_ignore_def by (metis append_Nil2 control_store.surjective control_store.update_convs(3))
  then show thesis
    using assms that by (fastforce simp: ensure_policy_def Let_def rbind_Inr_iff split: option.split_asm if_split_asm)
qed

lemma insert_ingress_cases:
  assumes "insert_ingress st r = Inr st'"
  shows "st' = st\<lparr>ingresses := ingresses st @ [r]\<rparr>" "ing_id r \<notin> set (ingress_ids st)"
    "(ing_task r, ing_source r, ing_source_id r) \<notin> set (map (\<lambda>r. (ing_task r, ing_source r, ing_source_id r)) (ingresses st))"
  using assms by (auto simp: insert_ingress_def ingress_ids_def find_ingress_def find_None_iff list_ex_iff split: if_split_asm)

lemma supersede_cases:
  assumes "supersede_current_task_waits st tid ep iid exc now = Inr (st', ids)"
  obtains xs where "st' = st\<lparr>settlements := settlements st @ xs\<rparr>"
    "\<And>w. unsettled st' w \<Longrightarrow> unsettled st w"
    "\<And>w. w \<in> set (waits st) \<Longrightarrow> unsettled st' w \<Longrightarrow> wait_task w = tid \<Longrightarrow> wait_epoch w = ep \<Longrightarrow> Some (wait_id w) = exc"
    "settlements_ok st \<Longrightarrow> settlements_ok st'"
proof -
  let ?rows = "filter (\<lambda>w. Some (wait_id w) \<noteq> exc) (current_waits st tid ep)"
  from assms have s: "settle_all st ?rows iid now = Inr st'"
    by (auto simp: supersede_current_task_waits_def Let_def rbind_Inr_iff)
  obtain xs where st': "st' = st\<lparr>settlements := settlements st @ xs\<rparr>"
    and uns: "\<And>w. unsettled st' w \<longleftrightarrow> unsettled st w \<and> wait_id w \<notin> set (map wait_id ?rows)"
    and keep: "settlements_ok st \<Longrightarrow> settlements_ok st'"
    using s by (rule settle_all_cases) blast
  have "Some (wait_id w) = exc"
    if "w \<in> set (waits st)" "unsettled st' w" "wait_task w = tid" "wait_epoch w = ep" for w
    using uns [of w] that by (auto simp: current_waits_def)
  with st' uns keep show thesis by (intro that) blast+
qed

text \<open>Everything a new acceptance did.\<close>

lemma admit_cases:
  assumes "admit_new_ingress env st inp task = Inr (st', r)"
  obtains xs ys pr due where
    "st' = st\<lparr>policies := policies st @ xs, ingresses := ingresses st @ [r], settlements := settlements st @ ys\<rparr>"
    "ing_task r = ai_task inp" "JInt (ing_epoch r) = JInt (js_number (ai_epoch inp))" "ing_source r = ai_source inp"
    "ing_source_id r = ai_source_id inp" "ing_inline r = ai_inline inp"
    "ing_sequence r = next_ingress_sequence st (ing_task r) (ing_epoch r)"
    "ing_id r \<notin> set (ingress_ids st)"
    "(ing_task r, ing_source r, ing_source_id r) \<notin> set (map (\<lambda>r. (ing_task r, ing_source r, ing_source_id r)) (ingresses st))"
    "find_policy st' (ing_policy r) = Some pr" "policy_matches pr (ai_policy inp)"
    "due \<noteq> None \<Longrightarrow> ing_source r = SrcInline \<and> due = Some (ing_source_id r)"
    "\<And>w. unsettled st' w \<Longrightarrow> unsettled st w"
    "\<And>w. w \<in> set (waits st) \<Longrightarrow> unsettled st' w \<Longrightarrow> wait_task w = ing_task r \<Longrightarrow> wait_epoch w = ing_epoch r \<Longrightarrow> Some (wait_id w) = due"
    "settlements_ok (st\<lparr>policies := policies st @ xs, ingresses := ingresses st @ [r]\<rparr>) \<Longrightarrow> settlements_ok st'"
proof -
  let ?ep = "js_number (ai_epoch inp)"
  from assms obtain due st1 pid st2 ids where
    due: "exact_due_task_wait st \<lparr>wi_task = ai_task inp, wi_epoch = ?ep, wi_source = ai_source inp,
                  wi_source_id = ai_source_id inp, wi_inline = ai_inline inp, wi_now = ai_now inp\<rparr> = Inr due"
    and pol: "ensure_policy env st (ai_policy inp) (ai_now inp) = Inr (st1, pid)"
    and r: "r = \<lparr>ing_id = se_ingress_ident env (ai_task inp) (ai_source inp) (ai_source_id inp),
                    ing_task = ai_task inp, ing_project = row_project task, ing_epoch = ?ep,
                    ing_sequence = next_ingress_sequence st1 (ai_task inp) ?ep,
                    ing_source = ai_source inp, ing_source_id = ai_source_id inp,
                    ing_inline = ai_inline inp, ing_policy = pid, ing_accepted = ai_now inp\<rparr>"
    and ins: "insert_ingress st1 r = Inr st2"
    and sup: "supersede_current_task_waits st2 (ai_task inp) ?ep (ing_id r) due (ai_now inp) = Inr (st', ids)"
    unfolding admit_new_ingress_def Let_def rbind_Inr_iff by (auto simp: rbind_Inr_iff split: prod.split_asm)
  obtain xs pr where st1: "st1 = st\<lparr>policies := policies st @ xs\<rparr>" and pr: "find_policy st1 pid = Some pr"
    "policy_matches pr (ai_policy inp)"
    using pol by (rule ensure_policy_cases)
  note st2 = insert_ingress_cases [OF ins]
  obtain ys where st': "st' = st2\<lparr>settlements := settlements st2 @ ys\<rparr>"
    and uns: "\<And>w. unsettled st' w \<Longrightarrow> unsettled st2 w"
    and only: "\<And>w. w \<in> set (waits st2) \<Longrightarrow> unsettled st' w \<Longrightarrow> wait_task w = ai_task inp \<Longrightarrow> wait_epoch w = ?ep \<Longrightarrow> Some (wait_id w) = due"
    and keep: "settlements_ok st2 \<Longrightarrow> settlements_ok st'"
    using sup by (rule supersede_cases) blast
  have shape: "st' = st\<lparr>policies := policies st @ xs, ingresses := ingresses st @ [r], settlements := settlements st @ ys\<rparr>"
    by (simp add: st' st2(1) st1)
  have st2': "st2 = st\<lparr>policies := policies st @ xs, ingresses := ingresses st @ [r]\<rparr>" by (simp add: st2(1) st1)
  have "ing_source r = SrcInline \<and> due = Some (ing_source_id r)" if "due \<noteq> None"
    using due that by (auto simp: exact_due_task_wait_def r split: option.split_asm if_split_asm)
  moreover have "find_policy st' (ing_policy r) = Some pr"
    using pr(1) by (simp add: shape st1 find_policy_def r)
  moreover have "unsettled st w" if "unsettled st' w" for w
    using uns [OF that] by (simp add: st2' unsettled_def find_settlement_def)
  moreover have "ing_sequence r = next_ingress_sequence st (ing_task r) (ing_epoch r)"
    by (simp add: r st1 next_ingress_sequence_def epoch_ingresses_def)
  ultimately show thesis
    using shape st2(2,3) pr(2) only keep
    by (intro that [where xs = xs and ys = ys and pr = pr and due = due]) (simp_all add: r st1 st2' ingress_ids_def)
qed

lemma epoch_ingresses_snoc:
  "epoch_ingresses (st\<lparr>policies := ps, ingresses := ingresses st @ [r], settlements := ss\<rparr>) tid ep
     = epoch_ingresses st tid ep @ (if ing_task r = tid \<and> ing_epoch r = ep then [r] else [])"
  by (simp add: epoch_ingresses_def)

lemma next_ingress_sequence_run:
  "map ing_sequence (epoch_ingresses st tid ep) = ordinals n \<Longrightarrow> next_ingress_sequence st tid ep = int n + 1"
  using sort_desc_ordinals [of ing_sequence "epoch_ingresses st tid ep" n]
  by (cases "sort_by (cmp_key_desc ing_sequence) (epoch_ingresses st tid ep)") (auto simp: next_ingress_sequence_def)

lemma admit_ok:
  assumes ok: "store_ok st" and adm: "admit_new_ingress env st inp task = Inr (st', r)"
  shows "store_ok st'"
  using adm
proof (rule admit_cases)
  fix xs ys pr due
  assume st': "st' = st\<lparr>policies := policies st @ xs, ingresses := ingresses st @ [r], settlements := settlements st @ ys\<rparr>"
    and sequence: "ing_sequence r = next_ingress_sequence st (ing_task r) (ing_epoch r)"
    and new: "ing_id r \<notin> set (ingress_ids st)"
      "(ing_task r, ing_source r, ing_source_id r) \<notin> set (map (\<lambda>r. (ing_task r, ing_source r, ing_source_id r)) (ingresses st))"
    and pol: "find_policy st' (ing_policy r) = Some pr"
    and due: "due \<noteq> None \<Longrightarrow> ing_source r = SrcInline \<and> due = Some (ing_source_id r)"
    and uns: "\<And>w. unsettled st' w \<Longrightarrow> unsettled st w"
    and only: "\<And>w. w \<in> set (waits st) \<Longrightarrow> unsettled st' w \<Longrightarrow> wait_task w = ing_task r \<Longrightarrow> wait_epoch w = ing_epoch r \<Longrightarrow> Some (wait_id w) = due"
    and keep: "settlements_ok (st\<lparr>policies := policies st @ xs, ingresses := ingresses st @ [r]\<rparr>) \<Longrightarrow> settlements_ok st'"
  from ok have parts: "ingresses_ok st" "waits_ok st" "settlements_ok st" "frontier_ok st" by (auto simp: store_ok_def)
  note ep = epoch_ingresses_snoc [where st = st and ps = "policies st @ xs" and r = r and ss = "settlements st @ ys", folded st']
  have "\<exists>n. map ing_sequence (epoch_ingresses st' tid e) = ordinals n" for tid e
  proof -
    obtain n where n: "map ing_sequence (epoch_ingresses st tid e) = ordinals n"
      using parts(1) unfolding ingresses_ok_def by blast
    show ?thesis
    proof (cases "ing_task r = tid \<and> ing_epoch r = e")
      case True
      then have "ing_sequence r = int n + 1" using sequence next_ingress_sequence_run [OF n] by simp
      then show ?thesis using n True by (intro exI [of _ "Suc n"]) (simp add: ep)
    qed (use n in \<open>auto simp: ep\<close>)
  qed
  moreover have "find_policy st' (ing_policy x) \<noteq> None" if "x \<in> set (ingresses st')" for x
    using that parts(1) pol by (auto simp: st' ingresses_ok_def find_policy_def find_append split: option.split)
  moreover have "distinct (ingress_ids st')" using parts(1) new(1) by (simp add: ingresses_ok_def ingress_ids_def st')
  moreover have "distinct (map (\<lambda>r. (ing_task r, ing_source r, ing_source_id r)) (ingresses st'))"
    using parts(1) new(2) by (simp add: ingresses_ok_def st')
  ultimately have ing: "ingresses_ok st'" by (simp only: ingresses_ok_def) blast
  have waits: "waits_ok st'" using parts(2) by (fastforce simp: waits_ok_def wait_ids_def st')
  have "settlements_ok (st\<lparr>policies := policies st @ xs, ingresses := ingresses st @ [r]\<rparr>)"
    using parts(3) by (fastforce simp: settlements_ok_def)
  then have "settlements_ok st'" by (rule keep)
  moreover have "on_frontier st' w" if w: "w \<in> set (waits st)" "unsettled st' w" for w
    unfolding on_frontier_def
  proof (intro ballI impI)
    fix c i
    assume c: "c \<in> set (ingresses st')" "ing_id c = creator_ingress w"
      and i: "i \<in> set (epoch_ingresses st' (wait_task w) (wait_epoch w))" "ing_sequence c < ing_sequence i"
    have "creator_ingress w \<in> set (ingress_ids st)"
      using parts(2) w(1) by (force simp: waits_ok_def ingress_ids_def)
    with c new(1) have c': "c \<in> set (ingresses st)" by (auto simp: st')
    from i(1) consider (old) "i \<in> set (epoch_ingresses st (wait_task w) (wait_epoch w))"
      | (new) "i = r" "ing_task r = wait_task w" "ing_epoch r = wait_epoch w"
      by (auto simp: ep split: if_split_asm)
    then show "ing_source i = SrcInline \<and> ing_source_id i = wait_id w"
    proof cases
      case old
      with parts(4) w(1) uns [OF w(2)] c(2) c' i(2) show ?thesis by (auto simp: frontier_ok_def on_frontier_def)
    next
      case new
      then have "due = Some (wait_id w)" using only [OF w] by simp
      with due new show ?thesis by auto
    qed
  qed
  then have "frontier_ok st'" by (simp add: frontier_ok_def st')
  ultimately show ?thesis using ing waits by (simp add: store_ok_def)
qed

lemma accept_cases:
  assumes "accept_ingress env st inp = Inr (st', r)"
  obtains (replay) "st' = st" "find_source st inp = Some r" "replay_ingress st inp r = Inr r"
    | (admitted) task where "find_source st inp = None" "admit_new_ingress env st inp task = Inr (st', r)"
        "positive_safe (ai_epoch inp)"
proof (cases "find_source st inp")
  case None
  with assms obtain task where "admit_new_ingress env st inp task = Inr (st', r)" "positive_safe (ai_epoch inp)"
    by (auto simp: accept_ingress_def rbind_Inr_iff split: if_split_asm option.split_asm)
  with None show thesis by (intro admitted)
next
  case (Some x)
  have "x = r \<and> st' = st \<and> replay_ingress st inp r = Inr r"
    using assms Some
    by (auto simp: accept_ingress_def rbind_Inr_iff replay_ingress_def split: if_split_asm option.split_asm)
  with Some show thesis by (intro replay) auto
qed

lemma accept_ok: "store_ok st \<Longrightarrow> accept_ingress env st inp = Inr (st', r) \<Longrightarrow> store_ok st'"
  by (erule accept_cases) (auto intro: admit_ok)

lemma elsewhere_ok: "store_ok st \<Longrightarrow> store_ok (with_owned_tables st o')"
  by (simp add: store_ok_def ingresses_ok_def waits_ok_def settlements_ok_def frontier_ok_def on_frontier_def
      unsettled_def with_owned_tables_def ingress_ids_def wait_ids_def epoch_ingresses_def find_policy_def find_settlement_def)

lemma empty_tables_ok: "store_ok (empty_tables o')"
  by (simp add: store_ok_def ingresses_ok_def waits_ok_def settlements_ok_def frontier_ok_def empty_tables_def
      ingress_ids_def wait_ids_def epoch_ingresses_def exI [of _ 0])

lemma store_step_ok: "store_ok st \<Longrightarrow> store_ok (store_step env st op)"
  by (cases op) (auto simp: commit_def rbind_Inr_iff elsewhere_ok split: sum.split prod.split_asm
      intro: accept_ok create_wait_ok store_ok_settle)

interpretation store_runs: step_system "store_step env" "empty_tables o'" store_ok for env o'
  by unfold_locales (simp_all add: empty_tables_ok store_step_ok)

section \<open>Rows are never changed\<close>

definition extends :: "control_store \<Rightarrow> control_store \<Rightarrow> bool" where
  "extends st st' \<longleftrightarrow> (\<exists>ps is ws ss. policies st' = policies st @ ps \<and> ingresses st' = ingresses st @ is
     \<and> waits st' = waits st @ ws \<and> settlements st' = settlements st @ ss)"

lemma extends_refl: "extends st st"
  by (simp add: extends_def)

lemma extends_trans: "extends a b \<Longrightarrow> extends b c \<Longrightarrow> extends a c"
  by (auto simp: extends_def)

lemma settle_extends: "settle_task_wait st w i k now = Inr st' \<Longrightarrow> extends st st'"
  by (erule settle_shape) (simp add: extends_def)

lemma accept_extends: "accept_ingress env st inp = Inr (st', r) \<Longrightarrow> extends st st'"
proof (erule accept_cases)
  fix task
  assume "admit_new_ingress env st inp task = Inr (st', r)"
  then obtain xs ys where
    "st' = st\<lparr>policies := policies st @ xs, ingresses := ingresses st @ [r], settlements := settlements st @ ys\<rparr>"
    by (rule admit_cases)
  then show "extends st st'" by (simp add: extends_def)
qed (simp add: extends_refl)

lemma register_extends:
  assumes "register_task_wait env st inp = Inr (st', w)"
  shows "extends st st'"
proof -
  obtain st1 i where ins: "insert_wait st w = Inr st1" and fin: "settle_if_overtaken st1 w i (cw_now inp) = Inr st'"
    using assms by (auto simp: register_task_wait_def rbind_Inr_iff split: if_split_asm)
  have "extends st st1" using insert_wait_cases(1) [OF ins] by (simp add: extends_def)
  moreover have "extends st1 st'"
    using fin settle_extends by (auto simp: settle_if_overtaken_def extends_refl split: option.split_asm)
  ultimately show ?thesis by (rule extends_trans)
qed

lemma create_extends: "create_task_wait env st inp = Inr (st', p) \<Longrightarrow> extends st st'"
  using register_extends
  by (fastforce simp: create_task_wait_def rbind_Inr_iff extends_refl split: if_split_asm option.split_asm prod.split_asm)

lemma step_extends: "extends st (store_step env st op)"
  by (cases op) (auto simp: commit_def rbind_Inr_iff extends_refl with_owned_tables_def extends_def
      split: sum.split prod.split_asm dest: accept_extends create_extends settle_extends)

lemma run_extends: "extends st (run_steps (store_step env) st ops)"
  by (induction ops arbitrary: st) (auto simp: extends_refl intro: extends_trans step_extends)

lemma extends_find:
  assumes "extends st st'"
  shows "find_policy st i = Some p \<Longrightarrow> find_policy st' i = Some p"
    "find_source st inp = Some r \<Longrightarrow> find_source st' inp = Some r"
    "find_settlement st i = Some s \<Longrightarrow> find_settlement st' i = Some s"
  using assms by (auto simp: extends_def find_policy_def find_source_def find_settlement_def find_append)

lemma replay_later:
  "replay_ingress st inp r = Inr r \<Longrightarrow> extends st st' \<Longrightarrow> replay_ingress st' (inp\<lparr>ai_now := t\<rparr>) r = Inr r"
  by (auto simp: replay_ingress_def extends_find split: if_split_asm option.split_asm)

lemma accepted_replays:
  assumes "accept_ingress env st inp = Inr (st', r)"
  shows "find_source st' inp = Some r \<and> replay_ingress st' inp r = Inr r"
  using assms
proof (cases rule: accept_cases)
  case (admitted task)
  from admitted(2) show ?thesis
  proof (rule admit_cases)
    fix xs ys pr
    assume "st' = st\<lparr>policies := policies st @ xs, ingresses := ingresses st @ [r], settlements := settlements st @ ys\<rparr>"
      and "ing_task r = ai_task inp" "JInt (ing_epoch r) = JInt (js_number (ai_epoch inp))" "ing_source r = ai_source inp"
        "ing_source_id r = ai_source_id inp" "ing_inline r = ai_inline inp"
        "find_policy st' (ing_policy r) = Some pr" "policy_matches pr (ai_policy inp)"
    moreover have "ai_epoch inp = JInt (js_number (ai_epoch inp))"
      using admitted(3) by (cases "ai_epoch inp") (simp_all add: positive_safe_def)
    ultimately show ?thesis using admitted(1) by (simp add: replay_ingress_def find_source_def find_append)
  qed
qed simp

section \<open>Properties\<close>

text \<open>
  C5: in every reachable store the ingresses of one Task epoch are numbered 1, 2, 3, ... in the
  order of their acceptance without a gap, identities are unique, and no source of a Task is
  accepted twice.
\<close>

theorem ingress_sequences_gap_free:
  "(\<exists>n. map ing_sequence (epoch_ingresses (run_steps (store_step env) (empty_tables o') ops) tid ep) = ordinals n)
   \<and> distinct (map ing_id (ingresses (run_steps (store_step env) (empty_tables o') ops)))
   \<and> distinct (map (\<lambda>r. (ing_task r, ing_source r, ing_source_id r))
        (ingresses (run_steps (store_step env) (empty_tables o') ops)))"
  using store_runs.reachable_inv [of env o' ops]
  unfolding store_ok_def ingresses_ok_def ingress_ids_def by blast

text \<open>
  C6: an open wait stands on the frontier of its epoch. In every reachable store, an ingress
  accepted after the ingress that created an unsettled wait can only be that wait's own wake.
\<close>

theorem open_wait_on_frontier:
  assumes "st = run_steps (store_step env) (empty_tables o') ops"
    and "w \<in> set (waits st)" "find_settlement st (wait_id w) = None"
    and "c \<in> set (ingresses st)" "ing_id c = creator_ingress w"
    and "i \<in> set (epoch_ingresses st (wait_task w) (wait_epoch w))" "ing_sequence c < ing_sequence i"
  shows "ing_source i = SrcInline \<and> ing_source_id i = wait_id w"
proof -
  have "frontier_ok st" using store_runs.reachable_inv [of env o' ops] assms(1) by (simp add: store_ok_def)
  with assms(2-) show ?thesis by (auto simp: frontier_ok_def unsettled_def on_frontier_def)
qed

text \<open>
  A wait is settled at most once, by an ingress of its own Task and epoch, and its
  settlement never changes afterwards.
\<close>

theorem settlement_is_final:
  assumes "st = run_steps (store_step env) (empty_tables o') ops" "find_settlement st wid = Some s"
  shows "find_settlement (run_steps (store_step env) st later) wid = Some s
    \<and> distinct (map set_wait (settlements st))
    \<and> (\<exists>w i. w \<in> set (waits st) \<and> i \<in> set (ingresses st) \<and> wait_id w = wid \<and> ing_id i = set_ingress s
         \<and> ing_task i = wait_task w \<and> ing_epoch i = wait_epoch w)"
proof -
  have "settlements_ok st" using store_runs.reachable_inv [of env o' ops] assms(1) by (simp add: store_ok_def)
  moreover have "s \<in> set (settlements st) \<and> set_wait s = wid" using assms(2) by (rule find_settlement_mem)
  ultimately show ?thesis
    using extends_find(3) [OF run_extends assms(2)] unfolding settlements_ok_def by metis
qed

text \<open>
  Acceptance is idempotent for ever. Once an ingress has been accepted, accepting the same
  input again, at any later time and after any further operations, returns the same row and
  changes nothing, as long as the Task has not been deleted.
\<close>

theorem acceptance_replays:
  assumes "accept_ingress env st inp = Inr (st1, r)"
    and "st2 = run_steps (store_step env) st1 ops" "\<not> store_task_deleted st2 (ai_task inp)"
  shows "accept_ingress env st2 (inp\<lparr>ai_now := t\<rparr>) = Inr (st2, r)"
proof -
  have ext: "extends st1 st2" unfolding assms(2) by (rule run_extends)
  have "find_source st2 (inp\<lparr>ai_now := t\<rparr>) = Some r"
    using extends_find(2) [OF ext] accepted_replays [OF assms(1)] by (simp add: find_source_def)
  moreover have "replay_ingress st2 (inp\<lparr>ai_now := t\<rparr>) r = Inr r"
    using replay_later [OF _ ext] accepted_replays [OF assms(1)] by simp
  moreover have "positive_safe (ai_epoch inp)" "\<not> blank (ai_source_id inp)"
    "\<not> ((ai_source inp = SrcInline) \<noteq> (ai_inline inp \<noteq> None))"
    using assms(1) by (auto simp: accept_ingress_def split: if_split_asm)
  ultimately show ?thesis using assms(3) by (simp add: accept_ingress_def)
qed

text \<open>
  Superseding the waits of an epoch cannot fail: whenever the store is well formed and the
  ingress belongs to the epoch, every wait it names gets its settlement.
\<close>

theorem superseding_succeeds:
  assumes "store_ok st" "find_ingress st iid = Some i" "ing_task i = tid" "ing_epoch i = ep"
  shows "\<exists>st' ids. supersede_current_task_waits st tid ep iid exc now = Inr (st', ids)
    \<and> (\<forall>w \<in> set (current_waits st' tid ep). Some (wait_id w) = exc)"
proof -
  let ?rows = "filter (\<lambda>w. Some (wait_id w) \<noteq> exc) (current_waits st tid ep)"
  have ids: "distinct (wait_ids st)" using assms(1) by (simp add: store_ok_def waits_ok_def)
  have "find_wait st (wait_id w) = Some w \<and> wait_task w = ing_task i \<and> wait_epoch w = ing_epoch i \<and> unsettled st w"
    if "w \<in> set ?rows" for w
    using that ids assms(3,4) find_key_unique [of wait_id "waits st" w]
    by (auto simp: current_waits_def find_wait_def wait_ids_def)
  moreover have "distinct (map wait_id ?rows)"
    using ids by (simp add: current_waits_def wait_ids_def distinct_map_filter)
  ultimately obtain st' where "settle_all st ?rows iid now = Inr st'"
    using settle_all_total [of ?rows st i iid now] assms(2) by blast
  then have s: "supersede_current_task_waits st tid ep iid exc now = Inr (st', map wait_id ?rows)"
    by (simp add: supersede_current_task_waits_def Let_def)
  then have "Some (wait_id w) = exc" if "w \<in> set (current_waits st' tid ep)" for w
    by (rule supersede_cases) (use that in \<open>auto simp: current_waits_def\<close>)
  with s show ?thesis by blast
qed

section \<open>A concrete history\<close>

definition demo_env :: store_env where
  "demo_env = \<lparr>se_idcmp = (\<lambda>_ _. 0), se_policy_ident = (\<lambda>_ _ _. ''pol''),
     se_ingress_ident = (\<lambda>t _ i. t @ ''/'' @ i), se_wait_ident = (\<lambda>p. ''wait/'' @ p),
     se_disposition_ident = (\<lambda>t i. ''disp/'' @ i), se_wait_digest = (\<lambda>_ _ _ r. r),
     se_admission_open = (\<lambda>_ _. True), se_continuation = (\<lambda>i p. i @ p)\<rparr>"

definition demo_message :: message_row where
  "demo_message = \<lparr>msg_id = ''m1'', msg_session = ''s1'', msg_role = ''assistant'', msg_activation = JStr ''act1'',
     msg_completed = False, msg_finish = None, msg_error = False, msg_parent = JUndefined, msg_author = None,
     msg_control_ingress = JUndefined, msg_control_predecessor = JUndefined\<rparr>"

definition demo_activation :: control_lease where
  "demo_activation = \<lparr>lease_id = ''act1'', lease_target = TargetTaskRootIngress, lease_target_id = ''t/t'',
     owner_occurrence = ''o1'', time_activated = 10, expires_at = 1000\<rparr>"

definition demo_outside :: control_store where
  "demo_outside = \<lparr>st_tasks = demo_run (take 1 demo_ops), st_leases = \<lparr>leases = [demo_activation], grants = []\<rparr>,
     policies = [], ingresses = [], waits = [], settlements = [], messages = [demo_message], sessions = [],
     artifacts = [], tool_requests = [\<lparr>treq_id = ''tp1'', treq_message = ''m1'', treq_call = ''c1'', treq_tool = ''wait''\<rparr>],
     tool_outcomes = [], provider_requests = [], provider_outcomes = []\<rparr>"

definition demo_accept :: "ingress_source \<Rightarrow> string \<Rightarrow> (string \<times> json) list option \<Rightarrow> int \<Rightarrow> accept_input" where
  "demo_accept src sid pay now = \<lparr>ai_task = ''t'', ai_epoch = JInt 1, ai_source = src, ai_source_id = sid,
     ai_inline = pay, ai_policy = \<lparr>pi_turns = JInt 3, pi_activations = JInt 4, pi_deadline = None\<rparr>, ai_now = now\<rparr>"

definition demo_wait :: create_wait_input where
  "demo_wait = \<lparr>cw_task = ''t'', cw_project = ''p'', cw_duration = JInt 50, cw_reason = ''r'', cw_session = ''s1'',
     cw_message = ''m1'', cw_tool_part = ''tp1'', cw_tool_call = ''c1'', cw_now = 20\<rparr>"

definition demo_wake :: "(string \<times> json) list" where
  "demo_wake = [(''taskWaitWake'', JsonObj [(''jobID'', JsonStr ''wait/tp1''), (''fireID'', JsonStr ''wait/tp1''),
     (''dueAt'', JsonInt 70)])]"

definition demo_history :: "store_op list" where
  "demo_history = [OpAccept (demo_accept SrcTask ''t'' None 5), OpCreateWait demo_wait]"

definition demo_store :: control_store where
  "demo_store = run_steps (store_step demo_env) (empty_tables demo_outside) demo_history"

definition demo_woken :: control_store where
  "demo_woken = run_steps (store_step demo_env) (empty_tables demo_outside)
     (demo_history @ [OpAccept (demo_accept SrcInline ''wait/tp1'' (Some demo_wake) 80)])"

definition demo_interrupted :: control_store where
  "demo_interrupted = run_steps (store_step demo_env) (empty_tables demo_outside)
     (demo_history @ [OpAccept (demo_accept SrcInline ''hello'' (Some []) 30)])"

theorem open_wait_on_frontier_witness:
  "map ing_id (ingresses demo_woken) = [''t/t'', ''t/wait/tp1'']
   \<and> ing_source (ingresses demo_woken ! 1) = SrcInline"
proof -
  let ?w = "waits demo_woken ! 0" and ?c = "ingresses demo_woken ! 0" and ?i = "ingresses demo_woken ! 1"
  have ids: "map ing_id (ingresses demo_woken) = [''t/t'', ''t/wait/tp1'']" by code_simp
  have "length (waits demo_woken) = 1" "length (ingresses demo_woken) = 2" by code_simp+
  then have "?w \<in> set (waits demo_woken)" "?c \<in> set (ingresses demo_woken)" "?i \<in> set (ingresses demo_woken)"
    by (simp_all del: One_nat_def)
  moreover have "find_settlement demo_woken (wait_id ?w) = None" "ing_id ?c = creator_ingress ?w"
    "ing_task ?i = wait_task ?w \<and> ing_epoch ?i = wait_epoch ?w" "ing_sequence ?c < ing_sequence ?i" by code_simp+
  ultimately have "ing_source ?i = SrcInline \<and> ing_source_id ?i = wait_id ?w"
    by (intro open_wait_on_frontier [OF demo_woken_def]) (simp_all add: epoch_ingresses_def del: One_nat_def)
  with ids show ?thesis by simp
qed

theorem settlement_is_final_witness:
  "\<exists>s. find_settlement demo_interrupted ''wait/tp1'' = Some s \<and> set_ingress s = ''t/hello''
     \<and> find_settlement (run_steps (store_step demo_env) demo_interrupted
          [OpSettle ''wait/tp1'' ''t/t'' DueIngressAccepted 90]) ''wait/tp1'' = Some s"
proof -
  have "map_option set_ingress (find_settlement demo_interrupted ''wait/tp1'') = Some ''t/hello''" by code_simp
  then obtain s where s: "find_settlement demo_interrupted ''wait/tp1'' = Some s" "set_ingress s = ''t/hello''" by auto
  show ?thesis
    using settlement_is_final [OF demo_interrupted_def s(1), of "[OpSettle ''wait/tp1'' ''t/t'' DueIngressAccepted 90]"] s
    by blast
qed

theorem acceptance_replays_witness:
  "\<exists>r. accept_ingress demo_env demo_interrupted ((demo_accept SrcTask ''t'' None 5)\<lparr>ai_now := 99\<rparr>) = Inr (demo_interrupted, r)
     \<and> ing_sequence r = 1"
proof -
  let ?inp = "demo_accept SrcTask ''t'' None 5" and ?e = "empty_tables demo_outside"
  let ?rest = "[OpCreateWait demo_wait, OpAccept (demo_accept SrcInline ''hello'' (Some []) 30)]"
  have "case accept_ingress demo_env ?e ?inp of Inr (_, r) \<Rightarrow> ing_sequence r = 1 | _ \<Rightarrow> False" by code_simp
  then obtain st1 r where a: "accept_ingress demo_env ?e ?inp = Inr (st1, r)" "ing_sequence r = 1"
    by (auto split: sum.splits prod.splits)
  have st: "demo_interrupted = run_steps (store_step demo_env) st1 ?rest"
    using a(1) by (simp add: demo_interrupted_def demo_history_def commit_def)
  have "\<not> store_task_deleted demo_interrupted ''t''" by code_simp
  with acceptance_replays [OF a(1) st, of 99] a(2) show ?thesis by (auto simp: demo_accept_def)
qed

theorem superseding_succeeds_witness:
  "\<exists>st' ids. supersede_current_task_waits demo_store ''t'' 1 ''t/t'' None 40 = Inr (st', ids)
     \<and> current_waits st' ''t'' 1 = []"
proof -
  have ok: "store_ok demo_store" unfolding demo_store_def by (rule store_runs.reachable_inv)
  have "map_option (\<lambda>i. (ing_task i, ing_epoch i)) (find_ingress demo_store ''t/t'') = Some (''t'', 1)" by code_simp
  then obtain i where "find_ingress demo_store ''t/t'' = Some i" "ing_task i = ''t''" "ing_epoch i = 1" by auto
  from superseding_succeeds [OF ok this, of None 40] show ?thesis by (fastforce simp: neq_Nil_conv)
qed

end
