(* ===== verification/Activation.thy ===== *)
theory Activation
  imports StoreInvariant
begin

text \<open>
  Activation of a Task-root ingress (\<open>acquireTaskRootIngressLease\<close> and its fences in
  \<open>engine/task-root-fact-store.ts\<close>) over the frontier pages of
  \<open>engine/task-root-ingress-disposition.ts\<close>.
\<close>

section \<open>Dispositions and the frontier\<close>

definition max_frontier_page :: int where
  "max_frontier_page = 64"

text \<open>\<open>[...new Set(ids)].toSorted()\<close>\<close>

definition evidence_set :: "string list \<Rightarrow> string list" where
  "evidence_set ids = sort_by text_cmp (remdups ids)"

definition same_disposition :: "disposition_payload \<Rightarrow> disposition_payload \<Rightarrow> bool" where
  "same_disposition a b \<longleftrightarrow> a\<lparr>dp_created := 0\<rparr> = b\<lparr>dp_created := 0\<rparr>"

text \<open>
  A stamp is the new identity of an event and the clock when it is emitted. Every artifact that
  is inserted announces itself in the log of its Task (\<open>insertEngineArtifact\<close>); of its catalogue
  columns only the payload is modelled.
\<close>

type_synonym event_stamp = "string \<times> int"

definition append_store_event ::
  "control_store \<Rightarrow> string \<Rightarrow> string \<Rightarrow> string \<Rightarrow> string option \<Rightarrow> event_stamp \<Rightarrow> store_error + control_store" where
  "append_store_event st kind tid source cause stamp =
     (case append_event (st_tasks st)
             (task_event_input (OtherEvent kind) tid None source cause (snd stamp) JUndefined JUndefined JUndefined) (fst stamp) of
        Inl e \<Rightarrow> Inl (LifecycleFailure e)
      | Inr (db, _) \<Rightarrow> Inr (st\<lparr>st_tasks := db\<rparr>))"

definition insert_artifact :: "control_store \<Rightarrow> artifact_row \<Rightarrow> event_stamp \<Rightarrow> store_error + control_store" where
  "insert_artifact st a stamp =
     (if find_artifact st (art_id a) \<noteq> None then Inl (UniqueIndex ''engine_artifact.id'')
      else append_store_event (st\<lparr>artifacts := artifacts st @ [a]\<rparr>) ''artifact.persisted'' (art_task a) ''engine.artifact'' None stamp)"

text \<open>
  \<open>admits\<close> is the check of the database before it stores a disposition, a trigger over tables that
  this theory does not read (\<open>disposition_admitted\<close> of \<open>DispositionTrigger\<close>).
\<close>

definition record_disposition ::
  "store_env \<Rightarrow> (control_store \<Rightarrow> disposition_payload \<Rightarrow> bool) \<Rightarrow> control_store \<Rightarrow> disposition_payload \<Rightarrow> event_stamp
   \<Rightarrow> store_error + control_store \<times> string" where
  "record_disposition env admits st inp stamp =
     (let d = inp\<lparr>dp_evidence := evidence_set (dp_evidence inp)\<rparr>
      in if dp_evidence d = [] then Inl EmptyEvidence
         else case disposition_artifact st (dp_task inp) (dp_ingress inp) of
           Some (a, old) \<Rightarrow>
             if \<not> valid_disposition old then Inl InvalidDisposition
             else if \<not> same_disposition old d then Inl DispositionDrift else Inr (st, art_id a)
         | None \<Rightarrow>
             let aid = se_disposition_ident env (dp_task inp) (dp_ingress inp)
             in if \<not> admits st d then Inl DispositionRefused
                else rbind (insert_artifact st \<lparr>art_id = aid, art_task = dp_task inp, art_payload = DispositionArtifact d\<rparr> stamp)
                  (\<lambda>st'. Inr (st', aid)))"

type_synonym frontier_cursor = "int \<times> string"

definition ingress_order :: "ingress_row \<Rightarrow> ingress_row \<Rightarrow> int" where
  "ingress_order = cmp_or (cmp_key ing_sequence) (\<lambda>a b. text_cmp (ing_id a) (ing_id b))"

fun after_cursor :: "frontier_cursor option \<Rightarrow> ingress_row \<Rightarrow> bool" where
  "after_cursor None r = True"
| "after_cursor (Some (s, i)) r = (ing_sequence r > s \<or> (ing_sequence r = s \<and> text_cmp (ing_id r) i > 0))"

definition undisposed :: "control_store \<Rightarrow> ingress_row \<Rightarrow> bool" where
  "undisposed st r \<longleftrightarrow> disposition_artifact st (ing_task r) (ing_id r) = None"

definition frontier_rows ::
  "control_store \<Rightarrow> string \<Rightarrow> int \<Rightarrow> frontier_cursor option \<Rightarrow> int option \<Rightarrow> ingress_row list" where
  "frontier_rows st tid ep aft before =
     filter (\<lambda>r. after_cursor aft r \<and> (case before of None \<Rightarrow> True | Some b \<Rightarrow> ing_sequence r < b) \<and> undisposed st r)
       (epoch_ingresses st tid ep)"

record frontier_page =
  page_rows :: "ingress_row list"
  page_next :: "frontier_cursor option"

definition reconciliation_page ::
  "control_store \<Rightarrow> string \<Rightarrow> int \<Rightarrow> frontier_cursor option \<Rightarrow> int option \<Rightarrow> js_value \<Rightarrow> store_error + frontier_page" where
  "reconciliation_page st tid ep aft before limit =
     (if \<not> is_safe_integer limit \<or> js_number limit \<le> 0 \<or> js_number limit > max_frontier_page then Inl InvalidLimit
      else let rows = take (nat (js_number limit)) (sort_by ingress_order (frontier_rows st tid ep aft before))
           in Inr \<lparr>page_rows = rows,
                   page_next = (if rows \<noteq> [] \<and> int (length rows) = js_number limit
                                then Some (ing_sequence (last rows), ing_id (last rows)) else None)\<rparr>)"

section \<open>Activation\<close>

text \<open>One page: the first row that does not release the head of line blocks the acquisition.\<close>

fun scan_page :: "(ingress_row \<Rightarrow> 'e + bool) \<Rightarrow> ingress_row list \<Rightarrow> 'e + string option" where
  "scan_page releases [] = Inr None"
| "scan_page releases (r # rs) =
     (case releases r of Inl e \<Rightarrow> Inl e
      | Inr ok \<Rightarrow> if ok then scan_page releases rs else Inr (Some (ing_id r)))"

lemma ingress_order_flip: "ingress_order b a = - ingress_order a b"
  by (simp add: ingress_order_def cmp_or_def cmp_key_def text_cmp_flip [of "ing_id a" "ing_id b"])

interpretation ingress_ord: comparator ingress_order
proof unfold_locales
  show "ingress_order y x < 0" if "0 < ingress_order x y" for x y
    using that text_cmp_flip [of "ing_id y" "ing_id x"]
    by (auto simp: ingress_order_def cmp_or_def cmp_key_def split: if_splits)
  show "ingress_order x z \<le> 0" if "ingress_order x y \<le> 0" "ingress_order y z \<le> 0" for x y z
    using that text_cmp_trans [of "ing_id x" "ing_id y" "ing_id z"]
    by (auto simp: ingress_order_def cmp_or_def cmp_key_def split: if_splits)
qed

definition cursor_of :: "ingress_row \<Rightarrow> frontier_cursor" where
  "cursor_of r = (ing_sequence r, ing_id r)"

lemma after_cursor_order: "after_cursor (Some (cursor_of a)) r \<longleftrightarrow> 0 < ingress_order r a"
  by (auto simp: cursor_of_def ingress_order_def cmp_or_def cmp_key_def)

lemma after_cursor_later:
  assumes "after_cursor aft a" "after_cursor (Some (cursor_of a)) r"
  shows "after_cursor aft r"
proof (cases aft)
  case (Some c)
  let ?c = "a\<lparr>ing_sequence := fst c, ing_id := snd c\<rparr>"
  have c: "aft = Some (cursor_of ?c)" using Some by (simp add: cursor_of_def)
  show ?thesis using assms ingress_ord.cmp_less_trans [of a ?c r] unfolding c after_cursor_order by blast
qed simp

lemma frontier_rows_shrink:
  assumes "a \<in> set (frontier_rows st tid ep aft before)"
  shows "length (frontier_rows st tid ep (Some (cursor_of a)) before) < length (frontier_rows st tid ep aft before)"
proof -
  let ?q = "\<lambda>aft r. after_cursor aft r \<and> (case before of None \<Rightarrow> True | Some b \<Rightarrow> ing_sequence r < b) \<and> undisposed st r"
  let ?old = "frontier_rows st tid ep aft before"
  have "filter (?q (Some (cursor_of a))) (epoch_ingresses st tid ep) = filter (after_cursor (Some (cursor_of a))) ?old"
    using assms unfolding frontier_rows_def filter_filter
    by (intro filter_cong refl) (auto dest: after_cursor_later simp del: after_cursor.simps)
  moreover have "\<not> after_cursor (Some (cursor_of a)) a" by (simp add: cursor_of_def)
  then have "length (filter (after_cursor (Some (cursor_of a))) ?old) < length ?old"
    using assms by (rule length_filter_less [rotated])
  ultimately show ?thesis by (simp add: frontier_rows_def)
qed

text \<open>
  The paging loop of the acquisition. A page that is not full, or has no row, ends it;
  otherwise the scan goes on after its last row.
\<close>

function (sequential) scan_prior ::
  "(ingress_row \<Rightarrow> store_error + bool) \<Rightarrow> control_store \<Rightarrow> string \<Rightarrow> int \<Rightarrow> int \<Rightarrow> frontier_cursor option
   \<Rightarrow> store_error + string option" where
  "scan_prior releases st tid ep before aft =
     (case reconciliation_page st tid ep aft (Some before) (JInt 32) of
        Inl e \<Rightarrow> Inl e
      | Inr page \<Rightarrow>
          if page_rows page = [] then Inr None
          else (case scan_page releases (page_rows page) of
              Inl e \<Rightarrow> Inl e
            | Inr (Some i) \<Rightarrow> Inr (Some i)
            | Inr None \<Rightarrow> (case page_next page of
                  None \<Rightarrow> Inr None
                | Some c \<Rightarrow> scan_prior releases st tid ep before (Some c))))"
  by pat_completeness auto

lemma page_rows_of:
  assumes "reconciliation_page st tid ep aft before (JInt 32) = Inr page"
  shows "page_rows page = take 32 (sort_by ingress_order (frontier_rows st tid ep aft before))"
    and "page_next page = (if length (page_rows page) = 32 then Some (cursor_of (last (page_rows page))) else None)"
  using assms by (auto simp: reconciliation_page_def max_frontier_page_def max_safe_integer_def cursor_of_def Let_def)

lemma page_next_row:
  assumes "reconciliation_page st tid ep aft before (JInt 32) = Inr page" "page_next page = Some c"
  obtains a where "a \<in> set (frontier_rows st tid ep aft before)" "c = cursor_of a" "a = last (page_rows page)"
proof -
  from assms have l: "length (page_rows page) = 32" and c: "c = cursor_of (last (page_rows page))"
    by (auto simp: page_rows_of split: if_split_asm)
  then have "last (page_rows page) \<in> set (page_rows page)" by (intro last_in_set) auto
  then have "last (page_rows page) \<in> set (frontier_rows st tid ep aft before)"
    unfolding page_rows_of(1) [OF assms(1)] by (metis in_set_takeD set_sort_by)
  with c show thesis by (intro that [of "last (page_rows page)"]) simp_all
qed

termination scan_prior
  by (relation "measure (\<lambda>(releases, st, tid, ep, before, aft). length (frontier_rows st tid ep aft (Some before)))")
     (auto elim!: page_next_row intro: frontier_rows_shrink)

declare scan_prior.simps [simp del]

record acquire_ingress_input =
  aq_ingress :: string
  aq_owner :: string
  aq_now :: int
  aq_milliseconds :: js_value

datatype ingress_acquisition =
    IngressAcquired string int
  | IngressRefused projection "string option"

text \<open>
  Whether an earlier ingress releases the head of line, as the loop decides it.
\<close>

definition row_releases ::
  "(string \<Rightarrow> string \<Rightarrow> int) \<Rightarrow> evidence_reader \<Rightarrow> control_store \<Rightarrow> int \<Rightarrow> ingress_row \<Rightarrow> store_error + bool" where
  "row_releases lc rd st now r =
     (case read_ingress_facts rd st (ing_id r) of
        Inl e \<Rightarrow> Inl e | Inr facts \<Rightarrow> Inr (releases_head_of_line (reduce_ingress lc facts now)))"

definition ingress_lease_input :: "acquire_ingress_input \<Rightarrow> string \<Rightarrow> string option \<Rightarrow> acquire_input" where
  "ingress_lease_input inp activation superseded_lease =
     \<lparr>acq_target = TargetTaskRootIngress, acq_target_id = aq_ingress inp, acq_owner = aq_owner inp,
      acq_now = aq_now inp, acq_milliseconds = js_number (aq_milliseconds inp),
      acq_lease_id = Some activation, acq_supersede = superseded_lease\<rparr>"

definition acquire_ingress_lease ::
  "store_env \<Rightarrow> (string \<Rightarrow> string \<Rightarrow> int) \<Rightarrow> evidence_reader \<Rightarrow> (control_store \<Rightarrow> store_error + unit)
   \<Rightarrow> control_store \<Rightarrow> acquire_ingress_input \<Rightarrow> string \<Rightarrow> store_error + control_store \<times> ingress_acquisition" where
  "acquire_ingress_lease env lc rd assert_owner st inp activation =
     (if \<not> positive_safe (aq_milliseconds inp) then Inl (LeaseFailure NonPositiveDuration)
      else rbind (read_ingress_facts rd st (aq_ingress inp)) (\<lambda>facts.
        case find_task (st_tasks st) (ingress_task (ingress facts)) of None \<Rightarrow> Inl MissingTask | Some task \<Rightarrow>
        if \<not> se_admission_open env st (row_project task) then Inl AdmissionClosed
        else if reduce_ingress lc facts (aq_now inp) \<noteq> Ready
          then Inr (st, IngressRefused (reduce_ingress lc facts (aq_now inp)) None)
        else rbind (scan_prior (row_releases lc rd st (aq_now inp)) st (ingress_task (ingress facts))
                      (execution_epoch (ingress facts)) (ingress_sequence (ingress facts)) None) (\<lambda>blocked.
          case blocked of Some i \<Rightarrow> Inr (st, IngressRefused Ready (Some i)) | None \<Rightarrow>
          rbind (assert_owner st) (\<lambda>_.
            case acquire_control_lease (st_leases st)
                   (ingress_lease_input inp activation (map_option al_id (latest_ingress_lease lc facts))) activation of
              Inl e \<Rightarrow> Inl (LeaseFailure e)
            | Inr (ldb, Acquired l) \<Rightarrow> Inr (st\<lparr>st_leases := ldb\<rparr>, IngressAcquired (lease_id l) (expires_at l))
            | Inr (ldb, NotAcquired _) \<Rightarrow>
                rbind (read_ingress_facts rd (st\<lparr>st_leases := ldb\<rparr>) (aq_ingress inp)) (\<lambda>facts'.
                  Inr (st\<lparr>st_leases := ldb\<rparr>, IngressRefused (reduce_ingress lc facts' (aq_now inp)) None))))))"

section \<open>The fence of a running activation\<close>

definition str_includes :: "string \<Rightarrow> string \<Rightarrow> bool" where
  "str_includes s sub \<longleftrightarrow> list_ex (\<lambda>i. take (length sub) (drop i s) = sub) [0..<Suc (length s)]"

definition message_consumes :: "control_store \<Rightarrow> message_row \<Rightarrow> bool" where
  "message_consumes st m \<longleftrightarrow>
     msg_role m = ''assistant'' \<and> msg_completed m
     \<and> \<not> list_ex (\<lambda>r. treq_message r = msg_id m \<and> treq_id r \<notin> set (tool_outcomes st)) (tool_requests st)
     \<and> \<not> list_ex (\<lambda>(i, mid). mid = msg_id m \<and> i \<notin> set (provider_outcomes st)) (provider_requests st)
     \<and> (msg_error m \<or> (case msg_finish m of None \<Rightarrow> True | Some f \<Rightarrow> \<not> str_includes f ''tool''))"

definition messages_of_activation :: "control_store \<Rightarrow> string \<Rightarrow> message_row list" where
  "messages_of_activation st aid = filter (\<lambda>m. msg_activation m = JStr aid) (messages st)"

record activation_fence =
  af_ingress :: string
  af_task :: string
  af_owner :: string
  af_expires :: int

definition assert_activation_lease_fence ::
  "store_env \<Rightarrow> control_store \<Rightarrow> string \<Rightarrow> int \<Rightarrow> bool \<Rightarrow> store_error + activation_fence" where
  "assert_activation_lease_fence env st aid now settlement =
     (case find_lease st aid of None \<Rightarrow> Inl UnknownActivation | Some l \<Rightarrow>
      if lease_target l \<noteq> TargetTaskRootIngress then Inl UnknownActivation else
      case find_ingress st (lease_target_id l) of None \<Rightarrow> Inl IngressNotFound | Some r \<Rightarrow>
      if store_task_deleted st (ing_task r) then Inl TaskDeletedRejected
      else rbind (task_projection env st (ing_task r)) (\<lambda>p.
      case find_policy st (ing_policy r) of None \<Rightarrow> Inl MissingPolicy | Some pol \<Rightarrow>
      let latest = current_control_lease (st_leases st) TargetTaskRootIngress (lease_target_id l);
          consumed = list_ex (message_consumes st) (messages_of_activation st aid);
          terminal_conversation = (case terminal_at p of None \<Rightarrow> False | Some t \<Rightarrow> t < ing_accepted r);
          permanent = (consumed \<or> proj_epoch p \<noteq> ing_epoch r \<or> map_option lease_id latest \<noteq> Some aid)
      in if permanent
            \<or> (\<not> settlement \<and> expires_at l \<le> now)
            \<or> (\<not> settlement \<and> (case pol_deadline pol of None \<Rightarrow> False | Some d \<Rightarrow> now \<ge> d))
            \<or> (proj_status p \<noteq> Active \<and> \<not> terminal_conversation \<and> \<not> settlement)
         then (if permanent then Inl (FenceSuperseded (ing_id r)) else Inl FenceRejected)
         else Inr \<lparr>af_ingress = ing_id r, af_task = ing_task r, af_owner = owner_occurrence l, af_expires = expires_at l\<rparr>))"

definition renew_ingress_lease ::
  "store_env \<Rightarrow> control_store \<Rightarrow> string \<Rightarrow> string \<Rightarrow> string \<Rightarrow> int \<Rightarrow> int \<Rightarrow> store_error + control_store" where
  "renew_ingress_lease env st iid aid owner now until =
     (if until \<le> now then Inl RenewalNotFuture
      else case find_ingress st iid of None \<Rightarrow> Inl IngressNotFound | Some r \<Rightarrow>
      case find_task (st_tasks st) (ing_task r) of None \<Rightarrow> Inl IngressNotFound | Some task \<Rightarrow>
      if \<not> se_admission_open env st (row_project task) then Inl AdmissionClosed
      else rbind (assert_activation_lease_fence env st aid now False) (\<lambda>f.
        if af_ingress f \<noteq> iid \<or> af_owner f \<noteq> owner then Inl FenceRejected
        else case renew_control_lease (st_leases st)
               \<lparr>fence_target = TargetTaskRootIngress, fence_target_id = iid, fence_lease = aid,
                fence_owner = owner, fence_now = now\<rparr> until of
             Inl e \<Rightarrow> Inl (LeaseFailure e) | Inr ldb \<Rightarrow> Inr (st\<lparr>st_leases := ldb\<rparr>)))"

definition assert_activation_fence ::
  "(string \<Rightarrow> string \<Rightarrow> int) \<Rightarrow> evidence_reader \<Rightarrow> control_store \<Rightarrow> string \<Rightarrow> string \<Rightarrow> int \<Rightarrow> store_error + unit" where
  "assert_activation_fence lc rd st iid aid now =
     rbind (read_ingress_facts rd st iid) (\<lambda>facts.
       case reduce_ingress lc facts now of
         Leased a _ _ \<Rightarrow> guard_else (a = aid) FenceRejected
       | _ \<Rightarrow> Inl FenceRejected)"

definition list_ingresses :: "control_store \<Rightarrow> string \<Rightarrow> int \<Rightarrow> ingress_row list" where
  "list_ingresses st tid ep = sort_by ingress_order (epoch_ingresses st tid ep)"

text \<open>
  \<open>assertTaskRootAssistantActivationFenceInTransaction\<close>: an assistant message of an
  activation may be written only under the strict fence, or, when settling an accepted
  activity, under the relaxed fence and once every activity of the message has an outcome.
\<close>

record assistant_candidate =
  cand_session :: string
  cand_parent :: string
  cand_activation :: string

definition assistant_activation :: "control_store \<Rightarrow> string \<Rightarrow> assistant_candidate option \<Rightarrow> js_value" where
  "assistant_activation st mid cand =
     (case cand of Some c \<Rightarrow> JStr (cand_activation c)
      | None \<Rightarrow> (case find_message st mid of Some m \<Rightarrow> msg_activation m | None \<Rightarrow> JUndefined))"

definition assistant_fence ::
  "store_env \<Rightarrow> control_store \<Rightarrow> string \<Rightarrow> int \<Rightarrow> bool \<Rightarrow> store_error + activation_fence \<times> bool" where
  "assistant_fence env st aid now settlement =
     (case assert_activation_lease_fence env st aid now False of
        Inr f \<Rightarrow> Inr (f, False)
      | Inl e \<Rightarrow> if \<not> settlement then Inl e
                 else rbind (assert_activation_lease_fence env st aid now True) (\<lambda>f. Inr (f, True)))"

definition assistant_parent ::
  "control_store \<Rightarrow> string \<Rightarrow> assistant_candidate option \<Rightarrow> activation_fence \<Rightarrow> string option" where
  "assistant_parent st mid cand f =
     (let m = find_message st mid;
          sid = (case cand of Some c \<Rightarrow> Some (cand_session c) | None \<Rightarrow> map_option msg_session m);
          parent = (case cand of Some c \<Rightarrow> Some (cand_parent c)
                    | None \<Rightarrow> (case m of Some m \<Rightarrow> js_string_value (msg_parent m) | None \<Rightarrow> None))
      in case (find_task (st_tasks st) (af_task f), sid, parent) of
           (Some task, Some s, Some par) \<Rightarrow>
             (case (row_session task, find (\<lambda>x. ses_id x = s) (sessions st)) of
                (Some ts, Some ses) \<Rightarrow>
                  if ts \<noteq> [] \<and> ses_parent ses = Some ts \<and> ses_project ses = row_project task
                     \<and> ses_kind ses = ''orchestrator'' then Some par else None
              | _ \<Rightarrow> None)
         | _ \<Rightarrow> None)"

definition continuation_parent_ok ::
  "store_env \<Rightarrow> control_store \<Rightarrow> string \<Rightarrow> assistant_candidate option \<Rightarrow> activation_fence \<Rightarrow> string \<Rightarrow> bool" where
  "continuation_parent_ok env st mid cand f par \<longleftrightarrow>
     (case find_message st par of None \<Rightarrow> False | Some pm \<Rightarrow>
        Some (msg_session pm) = (case cand of Some c \<Rightarrow> Some (cand_session c)
                                 | None \<Rightarrow> map_option msg_session (find_message st mid))
        \<and> msg_control_ingress pm = JStr (af_ingress f)
        \<and> (case msg_control_predecessor pm of JStr pre \<Rightarrow> se_continuation env (af_ingress f) pre = par | _ \<Rightarrow> False))"

definition sibling_assistants :: "control_store \<Rightarrow> string \<Rightarrow> message_row list" where
  "sibling_assistants st par =
     filter (\<lambda>m. msg_role m = ''assistant'' \<and> msg_parent m = JStr par
               \<and> \<not> (msg_author m = Some ''compaction'' \<and> sql_null (msg_activation m))) (messages st)"

definition activities_settled :: "control_store \<Rightarrow> string \<Rightarrow> bool" where
  "activities_settled st mid \<longleftrightarrow>
     (let provider = filter (\<lambda>(_, m). m = mid) (provider_requests st);
          tool = filter (\<lambda>r. treq_message r = mid) (tool_requests st)
      in provider @ map (\<lambda>r. (treq_id r, mid)) tool \<noteq> []
         \<and> list_all (\<lambda>(i, _). i \<in> set (provider_outcomes st)) provider
         \<and> list_all (\<lambda>r. treq_id r \<in> set (tool_outcomes st)) tool)"

definition assert_assistant_fence ::
  "store_env \<Rightarrow> control_store \<Rightarrow> string \<Rightarrow> int \<Rightarrow> assistant_candidate option \<Rightarrow> bool \<Rightarrow> store_error + unit" where
  "assert_assistant_fence env st mid now cand settlement =
     (case assistant_activation st mid cand of
        JUndefined \<Rightarrow> Inr ()
      | JStr aid \<Rightarrow>
          if aid = [] then Inl UnknownActivation
          else rbind (assistant_fence env st aid now settlement) (\<lambda>(f, must_settle).
            case assistant_parent st mid cand f of None \<Rightarrow> Inl LostFrontier | Some par \<Rightarrow>
            if \<not> continuation_parent_ok env st mid cand f par then Inl LostFrontier
            else if list_ex (\<lambda>m. msg_id m \<noteq> mid) (messages_of_activation st aid) then Inl OccurrenceConflict
            else if list_ex (\<lambda>m. msg_id m \<noteq> mid) (sibling_assistants st par) then Inl OccurrenceConflict
            else guard_else (must_settle \<longrightarrow> activities_settled st mid) FenceRejected)
      | _ \<Rightarrow> Inl UnknownActivation)"

section \<open>What activation guarantees\<close>

lemma scan_page_None: "scan_page rel rs = Inr None \<longleftrightarrow> (\<forall>r \<in> set rs. rel r = Inr True)"
  by (induction rs) (auto split: sum.split)

lemma scan_page_Some: "scan_page rel rs = Inr (Some i) \<Longrightarrow> \<exists>r \<in> set rs. ing_id r = i \<and> rel r = Inr False"
  by (induction rs) (auto split: sum.splits if_split_asm)

lemma page_cover_id:
  assumes page: "reconciliation_page st tid ep aft before (JInt 32) = Inr page"
    and r: "r \<in> set (frontier_rows st tid ep aft before)"
  shows "(\<exists>x \<in> set (page_rows page). ing_id x = ing_id r)
    \<or> (\<exists>c. page_next page = Some c \<and> r \<in> set (frontier_rows st tid ep (Some c) before))"
proof -
  let ?s = "sort_by ingress_order (frontier_rows st tid ep aft before)"
  have rows: "page_rows page = take 32 ?s" by (rule page_rows_of [OF page])
  have "r \<in> set (take 32 ?s) \<union> set (drop 32 ?s)" unfolding set_append [symmetric] append_take_drop_id using r by simp
  then consider (here) "r \<in> set (take 32 ?s)" | (later) "r \<in> set (drop 32 ?s)" by blast
  then show ?thesis
  proof cases
    case here
    then show ?thesis unfolding rows by blast
  next
    case later
    then have len: "length (page_rows page) = 32" by (cases "length ?s \<le> 32") (auto simp: rows)
    let ?a = "last (page_rows page)"
    have next_c: "page_next page = Some (cursor_of ?a)" using len page_rows_of(2) [OF page] by simp
    have a: "?a \<in> set (take 32 ?s)" using len unfolding rows by (intro last_in_set) auto
    have "sorted_wrt (\<lambda>a b. ingress_order a b \<le> 0) (take 32 ?s @ drop 32 ?s)"
      unfolding append_take_drop_id by (rule ingress_ord.sorted_sort_by)
    with a later have le: "ingress_order ?a r \<le> 0" unfolding sorted_wrt_append by blast
    show ?thesis
    proof (cases "ingress_order ?a r = 0")
      case True
      then have "ing_id ?a = ing_id r" by (auto simp: ingress_order_def cmp_or_def cmp_key_def split: if_splits)
      with a show ?thesis unfolding rows by blast
    next
      case False
      with le have "0 < ingress_order r ?a" using ingress_order_flip [of r ?a] by simp
      then have "after_cursor (Some (cursor_of ?a)) r" by (simp add: after_cursor_order del: after_cursor.simps)
      with r next_c show ?thesis by (simp add: frontier_rows_def del: after_cursor.simps)
    qed
  qed
qed

lemma page_cover:
  assumes ids: "distinct (map ing_id (ingresses st))"
    and page: "reconciliation_page st tid ep aft before (JInt 32) = Inr page"
    and r: "r \<in> set (frontier_rows st tid ep aft before)"
  shows "r \<in> set (page_rows page)
    \<or> (\<exists>c. page_next page = Some c \<and> r \<in> set (frontier_rows st tid ep (Some c) before))"
proof -
  have "x = r" if "x \<in> set (page_rows page)" "ing_id x = ing_id r" for x
  proof -
    have "x \<in> set (ingresses st)" "r \<in> set (ingresses st)"
      using that(1) r by (auto simp: page_rows_of(1) [OF page] frontier_rows_def epoch_ingresses_def dest: in_set_takeD)
    with that(2) ids show ?thesis by (auto simp: distinct_map dest: inj_onD)
  qed
  with page_cover_id [OF page r] show ?thesis by blast
qed

lemma page_total: "\<exists>page. reconciliation_page st tid ep aft before (JInt 32) = Inr page"
  by (simp add: reconciliation_page_def max_frontier_page_def max_safe_integer_def Let_def)

lemma page_subset:
  "reconciliation_page st tid ep aft before (JInt 32) = Inr page \<Longrightarrow>
     set (page_rows page) \<subseteq> set (frontier_rows st tid ep aft before)"
  by (auto simp: page_rows_of dest: in_set_takeD)

lemma page_next_subset:
  assumes "reconciliation_page st tid ep aft before (JInt 32) = Inr page" "page_next page = Some c"
  shows "set (frontier_rows st tid ep (Some c) before) \<subseteq> set (frontier_rows st tid ep aft before)"
proof -
  obtain a where "a \<in> set (frontier_rows st tid ep aft before)" "c = cursor_of a"
    using assms by (rule page_next_row)
  then show ?thesis by (auto simp: frontier_rows_def dest: after_cursor_later simp del: after_cursor.simps)
qed

text \<open>The paged scan finds nothing exactly when every row of the frontier releases.\<close>

lemma scan_prior_None:
  assumes "distinct (map ing_id (ingresses st))"
  shows "scan_prior rel st tid ep before aft = Inr None
    \<longleftrightarrow> (\<forall>r \<in> set (frontier_rows st tid ep aft (Some before)). rel r = Inr True)"
  using assms
proof (induction rel st tid ep before aft rule: scan_prior.induct)
  case (1 rel st tid ep before aft)
  obtain page where page: "reconciliation_page st tid ep aft (Some before) (JInt 32) = Inr page"
    using page_total by blast
  let ?rows = "set (frontier_rows st tid ep aft (Some before))"
  note cover = page_cover [OF "1.prems" page] and sub = page_subset [OF page]
  show ?case
  proof (cases "page_rows page = []")
    case True
    then have "page_next page = None" by (simp add: page_rows_of(2) [OF page])
    with True cover have "?rows = {}" by fastforce
    with True show ?thesis by (subst scan_prior.simps) (simp add: page)
  next
    case False
    show ?thesis
    proof (cases "scan_page rel (page_rows page) = Inr None")
      case no: False
      then have "\<not> (\<forall>r \<in> ?rows. rel r = Inr True)" using sub scan_page_None [of rel "page_rows page"] by blast
      moreover have "scan_prior rel st tid ep before aft \<noteq> Inr None"
        using no False by (subst scan_prior.simps) (auto simp: page split: sum.split option.split)
      ultimately show ?thesis by blast
    next
      case ok: True
      then have rel: "\<forall>r \<in> set (page_rows page). rel r = Inr True" by (simp only: scan_page_None)
      show ?thesis
      proof (cases "page_next page")
        case None
        then have "?rows = set (page_rows page)" using cover sub by auto
        with None ok rel False show ?thesis by (subst scan_prior.simps) (simp add: page)
      next
        case (Some c)
        have "?rows = set (page_rows page) \<union> set (frontier_rows st tid ep (Some c) (Some before))"
          using cover sub page_next_subset [OF page Some] Some by fastforce
        with "1.IH" [OF page False ok refl Some "1.prems"] Some ok rel False show ?thesis
          by (subst scan_prior.simps) (auto simp: page)
      qed
    qed
  qed
qed

lemma read_facts_ingress:
  assumes "read_ingress_facts rd st iid = Inr facts"
  obtains r where "find_ingress st iid = Some r" "r \<in> set (ingresses st)" "ing_id r = iid"
    "ingress_task (ingress facts) = ing_task r" "execution_epoch (ingress facts) = ing_epoch r"
    "ingress_sequence (ingress facts) = ing_sequence r"
proof -
  obtain r where r: "find_ingress st iid = Some r" using assms by (auto simp: read_ingress_facts_def split: option.split_asm)
  obtain p where p: "find_policy st (ing_policy r) = Some p"
    using assms r by (auto simp: read_ingress_facts_def split: option.split_asm)
  have "ingress facts = \<lparr>ingress_id = ing_id r, ingress_task = ing_task r, execution_epoch = ing_epoch r,
      ingress_sequence = ing_sequence r, ingress_policy_id = ing_policy r, time_accepted = ing_accepted r\<rparr>"
    using assms r p by (auto simp: read_ingress_facts_def Let_def rbind_Inr_iff)
  then show thesis using find_ingress_mem [OF r] by (intro that [OF r]) simp_all
qed

lemma acquire_ingress_cases:
  assumes "acquire_ingress_lease env lc rd assert_owner st inp activation = Inr (st', IngressAcquired aid ex)"
  obtains facts ldb l where "read_ingress_facts rd st (aq_ingress inp) = Inr facts"
    "reduce_ingress lc facts (aq_now inp) = Ready"
    "scan_prior (row_releases lc rd st (aq_now inp)) st (ingress_task (ingress facts))
       (execution_epoch (ingress facts)) (ingress_sequence (ingress facts)) None = Inr None"
    "assert_owner st = Inr ()"
    "acquire_control_lease (st_leases st)
       (ingress_lease_input inp activation (map_option al_id (latest_ingress_lease lc facts))) activation = Inr (ldb, Acquired l)"
    "st' = st\<lparr>st_leases := ldb\<rparr>" "aid = lease_id l" "ex = expires_at l"
  using assms
  by (auto simp: acquire_ingress_lease_def rbind_Inr_iff
      split: if_split_asm option.split_asm sum.split_asm prod.split_asm lease_acquisition.split_asm)

section \<open>Properties\<close>

text \<open>
  C1: an ingress is activated only at the head of its queue: its own projection is ready,
  and every ingress of the same Task and epoch with a smaller sequence either has an immutable
  disposition or reduces to a projection that releases the head of line. The paged scan
  decides this for queues of any length.
\<close>

theorem activated_at_head_of_line:
  assumes "distinct (map ing_id (ingresses st))"
    and "acquire_ingress_lease env lc rd assert_owner st inp activation = Inr (st', IngressAcquired aid ex)"
  shows "\<exists>r. find_ingress st (aq_ingress inp) = Some r
    \<and> project_ingress lc rd st (ing_id r) (aq_now inp) = Inr Ready
    \<and> (\<forall>x \<in> set (epoch_ingresses st (ing_task r) (ing_epoch r)). ing_sequence x < ing_sequence r \<longrightarrow>
         disposition_artifact st (ing_task x) (ing_id x) \<noteq> None
         \<or> (\<exists>p. project_ingress lc rd st (ing_id x) (aq_now inp) = Inr p \<and> releases_head_of_line p))"
proof -
  obtain facts where facts: "read_ingress_facts rd st (aq_ingress inp) = Inr facts"
    and ready: "reduce_ingress lc facts (aq_now inp) = Ready"
    and scan: "scan_prior (row_releases lc rd st (aq_now inp)) st (ingress_task (ingress facts))
       (execution_epoch (ingress facts)) (ingress_sequence (ingress facts)) None = Inr None"
    using assms(2) by (rule acquire_ingress_cases)
  obtain r where r: "find_ingress st (aq_ingress inp) = Some r" "ing_id r = aq_ingress inp"
    "ingress_task (ingress facts) = ing_task r" "execution_epoch (ingress facts) = ing_epoch r"
    "ingress_sequence (ingress facts) = ing_sequence r"
    using facts by (rule read_facts_ingress)
  have "\<forall>x \<in> set (frontier_rows st (ing_task r) (ing_epoch r) None (Some (ing_sequence r))).
          row_releases lc rd st (aq_now inp) x = Inr True"
    using scan unfolding r scan_prior_None [OF assms(1)] .
  then have "disposition_artifact st (ing_task x) (ing_id x) \<noteq> None
         \<or> (\<exists>p. project_ingress lc rd st (ing_id x) (aq_now inp) = Inr p \<and> releases_head_of_line p)"
    if "x \<in> set (epoch_ingresses st (ing_task r) (ing_epoch r))" "ing_sequence x < ing_sequence r" for x
    using that
    by (fastforce simp: frontier_rows_def undisposed_def row_releases_def project_ingress_def rbind_def split: sum.split_asm)
  with r facts ready show ?thesis by (auto simp: project_ingress_def)
qed

text \<open>
  C2: an activation whose lease has been superseded is fenced out for good: whatever lease
  operations follow and however every other table changes, its fence never passes again, not
  even for the settlement of an accepted activity, its lease is never renewed, and no
  assistant message naming it is accepted.
\<close>

theorem superseded_activation_is_dead:
  assumes "lease_db_ok (st_leases st)" "stale_lease (st_leases st) l" "lease_target l = TargetTaskRootIngress"
    and "later_leases (st_leases st) (st_leases st')"
  shows "assert_activation_lease_fence env st' (lease_id l) now settlement \<noteq> Inr f
    \<and> (\<forall>owner until. renew_ingress_lease env st' iid (lease_id l) owner now until \<noteq> Inr st'')
    \<and> (\<forall>mid cand. assistant_activation st' mid cand = JStr (lease_id l) \<longrightarrow>
         assert_assistant_fence env st' mid now cand settlement \<noteq> Inr ())"
proof -
  have ok: "lease_db_ok (st_leases st')" by (rule fencing.valid_later [OF assms(1,4)])
  have frozen: "frozen l \<in> frozen_rows (st_leases st')"
    using fencing.stale_later [OF assms(2,4)] by (simp add: stale_lease_def)
  then obtain y where y: "y \<in> set (leases (st_leases st'))" "frozen y = frozen l" by (auto simp: frozen_rows_def)
  then have same: "lease_id y = lease_id l" "lease_target y = lease_target l" "lease_target_id y = lease_target_id l"
    by (metis frozen_simps(1,2,3))+
  have "find_lease st' (lease_id y) = Some y"
    using ok y(1) by (auto simp: find_lease_def lease_db_ok_def lease_ids_def intro: find_key_unique)
  then have find: "find_lease st' (lease_id l) = Some y" by (simp add: same)
  have "map_option lease_id (current_control_lease (st_leases st') TargetTaskRootIngress (lease_target_id y)) \<noteq> Some (lease_id l)"
    using fencing.fenced_for_ever [OF assms(1,2,4)] assms(3) by (simp add: same)
  then have fence: "assert_activation_lease_fence env st' (lease_id l) now s \<noteq> Inr g" for s g
    by (auto simp: assert_activation_lease_fence_def find Let_def rbind_Inr_iff split: option.split_asm if_split_asm)
  moreover have "renew_ingress_lease env st' iid (lease_id l) owner now until \<noteq> Inr st''" for owner until
    using fence [of False] by (auto simp: renew_ingress_lease_def rbind_Inr_iff split: option.split_asm if_split_asm)
  moreover have "assistant_fence env st' (lease_id l) now settlement \<noteq> Inr g" for g
    using fence by (auto simp: assistant_fence_def rbind_Inr_iff split: sum.split_asm if_split_asm)
  then have "assert_assistant_fence env st' mid now cand settlement \<noteq> Inr ()"
    if "assistant_activation st' mid cand = JStr (lease_id l)" for mid cand
    using that by (auto simp: assert_assistant_fence_def rbind_Inr_iff split: if_split_asm)
  ultimately show ?thesis by blast
qed

text \<open>
  The deletion boundary makes a Task's ingresses unreadable. The row it appends carries no
  execution epoch, the fact reader insists on one, so reading the facts of any ingress of a
  deleted Task fails.
\<close>

theorem deleted_task_facts_unreadable:
  assumes "append_task_deleted_boundary idcmp db tid now fresh = Inr db'" "\<not> task_deleted (event_log db) tid"
    and "st_tasks st = db'" "find_ingress st iid = Some r" "ing_task r = tid"
  shows "\<forall>facts. read_ingress_facts rd st iid \<noteq> Inr facts"
proof -
  obtain db1 ev where ev: "append_event db
      (task_event_input TaskDeleted tid None ''task.delete'' None now JUndefined JUndefined JUndefined) fresh = Inr (db1, ev)"
    and db': "event_log db' = event_log db1"
    using assms(1,2) by (auto simp: append_task_deleted_boundary_def rbind_Inr_iff)
  note row = append_event_cases_db [OF ev, simplified]
  have log: "event_log (st_tasks st) = event_log db @ [ev]" using row(1) db' assms(3) by simp
  let ?rows = "concat (map (\<lambda>e. case lifecycle_kind (event_kind e) of None \<Rightarrow> [] | Some k \<Rightarrow> [(e, k)])
         (sort_by (cmp_or (cmp_key seq_no) (\<lambda>a b. text_cmp (event_id a) (event_id b)))
           (aggregate_rows AggTask tid (event_log (st_tasks st)))))"
  have mem: "(ev, LDeleted) \<in> set ?rows"
    using row by (auto simp: log aggregate_rows_def intro!: bexI [of _ ev])
  have bad: "lifecycle_fact_of ev LDeleted = Inl (LifecycleFailure MissingExecutionEpoch)"
    using row by (simp add: lifecycle_fact_of_def positive_safe_def)
  have "read_lifecycle_facts st tid \<noteq> Inr lfs" for lfs
  proof
    assume "read_lifecycle_facts st tid = Inr lfs"
    from rtraverse_Inr_mem [OF this [unfolded read_lifecycle_facts_def] mem] have "\<exists>y. lifecycle_fact_of ev LDeleted = Inr y"
      by auto
    with bad show False by simp
  qed
  then show ?thesis
    using assms(4,5) by (auto simp: read_ingress_facts_def Let_def rbind_Inr_iff split: option.split_asm)
qed

section \<open>Concrete activations\<close>

definition demo_queue :: control_store where
  "demo_queue = (let st = run_steps (store_step demo_env) (empty_tables (demo_outside\<lparr>st_leases := empty_lease_db\<rparr>))
       [OpAccept (demo_accept SrcTask ''t'' None 5), OpAccept (demo_accept SrcInline ''hello'' (Some []) 30)]
     in st\<lparr>artifacts := [\<lparr>art_id = ''d1'', art_task = ''t'', art_payload = DispositionArtifact \<lparr>dp_task = ''t'', dp_ingress = ''t/t'',
          dp_epoch = 1, dp_kind = DispExhausted, dp_evidence = [''gate''], dp_occurrence = None, dp_created = 40\<rparr>\<rparr>]\<rparr>)"

definition demo_reader :: evidence_reader where
  "demo_reader _ _ = Inr (Some empty_evidence)"

definition demo_acquire_ingress :: "string \<Rightarrow> acquire_ingress_input" where
  "demo_acquire_ingress i = \<lparr>aq_ingress = i, aq_owner = ''o1'', aq_now = 50, aq_milliseconds = JInt 100\<rparr>"

definition demo_activated :: "store_error + control_store \<times> ingress_acquisition" where
  "demo_activated = acquire_ingress_lease demo_env text_cmp demo_reader (\<lambda>_. Inr ()) demo_queue
     (demo_acquire_ingress ''t/hello'') ''act7''"

theorem activated_at_head_of_line_witness:
  "(\<exists>st'. demo_activated = Inr (st', IngressAcquired ''act7'' 150))
   \<and> project_ingress text_cmp demo_reader demo_queue ''t/hello'' 50 = Inr Ready"
proof -
  have "case demo_activated of Inr (_, IngressAcquired a e) \<Rightarrow> a = ''act7'' \<and> e = 150 | _ \<Rightarrow> False" by code_simp
  then obtain st' where a: "demo_activated = Inr (st', IngressAcquired ''act7'' 150)"
    by (auto split: sum.splits prod.splits ingress_acquisition.splits)
  have ids: "distinct (map ing_id (ingresses demo_queue))" by code_simp
  have "map_option ing_id (find_ingress demo_queue ''t/hello'') = Some ''t/hello''" by code_simp
  with activated_at_head_of_line [OF ids a [unfolded demo_activated_def]] a show ?thesis
    by (auto simp: demo_acquire_ingress_def)
qed

definition demo_fenced :: control_store where
  "demo_fenced = demo_queue\<lparr>st_leases := run_steps lease_step empty_lease_db
     [OpAcquire (ingress_lease_input (demo_acquire_ingress ''t/hello'') ''act7'' None) ''act7'',
      OpAcquire (ingress_lease_input ((demo_acquire_ingress ''t/hello'')\<lparr>aq_now := 200\<rparr>) ''act8'' None) ''act8'']\<rparr>"

theorem superseded_activation_is_dead_witness:
  "(\<forall>f. assert_activation_lease_fence demo_env demo_fenced ''act7'' 120 True \<noteq> Inr f)
   \<and> (\<exists>f. assert_activation_lease_fence demo_env demo_fenced ''act8'' 220 False = Inr f)"
proof -
  let ?l = "leases (st_leases demo_fenced) ! 0"
  have ok: "lease_db_ok (st_leases demo_fenced)"
    by (simp add: demo_fenced_def lease_steps.reachable_inv del: run_steps.simps)
  have l: "lease_id ?l = ''act7''" "lease_target ?l = TargetTaskRootIngress" "superseded (st_leases demo_fenced) ?l" by code_simp+
  have "length (leases (st_leases demo_fenced)) = 2" by code_simp
  then have "?l \<in> set (leases (st_leases demo_fenced))" by simp
  with l(3) have "stale_lease (st_leases demo_fenced) ?l" by (simp add: stale_lease_def frozen_rows_def)
  moreover have "later_leases (st_leases demo_fenced) (st_leases demo_fenced)"
    unfolding later_leases_def by (metis run_steps.simps(1))
  ultimately have "assert_activation_lease_fence demo_env demo_fenced ''act7'' 120 True \<noteq> Inr f" for f
    using superseded_activation_is_dead [OF ok _ l(2), of demo_fenced demo_env 120 True f] l(1) by simp
  moreover have "case assert_activation_lease_fence demo_env demo_fenced ''act8'' 220 False of Inr _ \<Rightarrow> True | Inl _ \<Rightarrow> False"
    by code_simp
  ultimately show ?thesis by (auto split: sum.splits)
qed

definition demo_deleted :: "lifecycle_error + task_db" where
  "demo_deleted = append_task_deleted_boundary (\<lambda>_ _. 0) (st_tasks demo_queue) ''t'' 60 ''del''"

theorem deleted_task_facts_unreadable_witness:
  "\<exists>db'. demo_deleted = Inr db'
     \<and> (\<forall>facts. read_ingress_facts demo_reader (demo_queue\<lparr>st_tasks := db'\<rparr>) ''t/hello'' \<noteq> Inr facts)
     \<and> (\<exists>facts. read_ingress_facts demo_reader demo_queue ''t/hello'' = Inr facts)"
proof -
  have "case demo_deleted of Inr _ \<Rightarrow> True | Inl _ \<Rightarrow> False" by code_simp
  then obtain db' where db: "demo_deleted = Inr db'" by (auto split: sum.splits)
  have nd: "\<not> task_deleted (event_log (st_tasks demo_queue)) ''t''" by code_simp
  have "map_option ing_task (find_ingress demo_queue ''t/hello'') = Some ''t''" by code_simp
  then obtain r where r: "find_ingress demo_queue ''t/hello'' = Some r" "ing_task r = ''t''" by auto
  then have "find_ingress (demo_queue\<lparr>st_tasks := db'\<rparr>) ''t/hello'' = Some r" by (simp add: find_ingress_def)
  with deleted_task_facts_unreadable [OF db [unfolded demo_deleted_def] nd] r(2)
  have "\<forall>facts. read_ingress_facts demo_reader (demo_queue\<lparr>st_tasks := db'\<rparr>) ''t/hello'' \<noteq> Inr facts" by simp
  moreover have "case read_ingress_facts demo_reader demo_queue ''t/hello'' of Inr _ \<Rightarrow> True | Inl _ \<Rightarrow> False" by code_simp
  ultimately show ?thesis using db by (auto split: sum.splits)
qed

end
