(* ===== verification/Interaction.thy ===== *)
theory Interaction
  imports Activation
begin

text \<open>
  Requests to the operator and their outcomes (\<open>engine/interaction-request.ts\<close>, the tables of
  \<open>engine/engine.sql.ts\<close>) and what the code reads of them
  (\<open>projectInteractionRowInTransaction\<close> of \<open>engine/store.ts\<close>). A request either owns its
  content, or it only names its owner: a published Question (\<open>bus/bus.sql.ts\<close>) or a requested
  permission (\<open>permission/permission.sql.ts\<close>).
\<close>

section \<open>Tables\<close>

datatype request_origin = BusQuestion | PermissionRequest

record interaction_request =
  ir_id :: string
  ir_task :: "string option"
  ir_origin :: "(request_origin \<times> string) option"
  ir_session :: "string option"
  ir_external :: "string option"
  ir_type :: "string option"
  ir_title :: "string option"
  ir_body :: "string option"
  ir_payload :: "json option"
  ir_created :: "int option"

definition request_shape :: "interaction_request \<Rightarrow> bool" where
  "request_shape r \<longleftrightarrow>
     (ir_origin r \<noteq> None \<and> ir_task r = None \<and> ir_session r = None \<and> ir_external r = None \<and> ir_type r = None
        \<and> ir_title r = None \<and> ir_body r = None \<and> ir_payload r = None \<and> ir_created r = None)
     \<or> (ir_origin r = None \<and> ir_task r \<noteq> None \<and> ir_session r \<noteq> None \<and> ir_external r \<noteq> None \<and> ir_type r \<noteq> None
        \<and> ir_title r \<noteq> None \<and> ir_body r \<noteq> None \<and> ir_payload r \<noteq> None \<and> ir_created r \<noteq> None)"

record outcome_row =
  io_id :: string
  io_interaction :: string
  io_occurrence :: "string option"
  io_outcome :: "interaction_outcome option"
  io_response :: "json option"
  io_created :: "int option"

definition outcome_shape :: "outcome_row \<Rightarrow> bool" where
  "outcome_shape r \<longleftrightarrow>
     (io_occurrence r \<noteq> None \<and> io_outcome r = None \<and> io_response r = None \<and> io_created r = None)
     \<or> (io_occurrence r = None \<and> io_outcome r \<noteq> None \<and> io_response r \<noteq> None \<and> io_created r \<noteq> None)"

record bus_row =
  bus_occurrence :: string
  bus_event :: string
  bus_properties :: json

text \<open>
  A row of the permission ledger. \<open>perm_details\<close> are the columns that the projection copies into
  the payload (mode, policy revision, provider, effect class, scope, fingerprint), and
  \<open>perm_scope_text\<close> is the scope as \<open>JSON.stringify(scope, null, 2)\<close> prints it.
\<close>

record permission_row =
  perm_id :: string
  perm_request :: string
  perm_event :: string
  perm_session :: "string option"
  perm_task :: "string option"
  perm_message :: "string option"
  perm_call :: "string option"
  perm_tool :: "string option"
  perm_summary :: "string option"
  perm_scope_text :: string
  perm_details :: "(string \<times> json) list"
  perm_choices :: "json option"
  perm_decision_scope :: "string option"
  perm_decision_slot :: "string option"
  perm_created :: int

record interaction_tables =
  int_requests :: "interaction_request list"
  int_outcomes :: "outcome_row list"
  bus_rows :: "bus_row list"
  permission_rows :: "permission_row list"

datatype interaction_error =
    IncompleteRequest
  | LineageCycle
  | NoTaskOwner
  | MissingOccurrence
  | ChangedIdentity
  | NoResolutionTime
  | NonTerminalOccurrence
  | DuplicateAuthority
  | MalformedQuestion
  | NoRequestType
  | NoSessionOwner
  | RequestDisappeared
  | ConflictingOutcome
  | WrongOwnerBranch
  | InteractionIndex string
  | ForeignKey string
  | EventFailure lifecycle_error

section \<open>Reading a request\<close>

record request_view =
  rv_session :: "string option"
  rv_external :: "string option"
  rv_type :: "string option"
  rv_title :: "string option"
  rv_body :: "string option"
  rv_payload :: "json option"
  rv_created :: js_value

definition truthy_text :: "string option \<Rightarrow> string option" where
  "truthy_text t = (case t of Some (c # cs) \<Rightarrow> Some (c # cs) | _ \<Rightarrow> None)"

fun json_text :: "json option \<Rightarrow> string option" where
  "json_text (Some (JsonStr s)) = Some s"
| "json_text _ = None"

fun json_number :: "json option \<Rightarrow> js_value" where
  "json_number (Some (JsonInt n)) = JInt n"
| "json_number (Some (JsonFrac _)) = JFrac"
| "json_number _ = JNull"

fun json_truthy :: "json option \<Rightarrow> bool" where
  "json_truthy None = False"
| "json_truthy (Some JsonNull) = False"
| "json_truthy (Some (JsonBool b)) = b"
| "json_truthy (Some (JsonInt n)) = (n \<noteq> 0)"
| "json_truthy (Some (JsonStr s)) = (s \<noteq> [])"
| "json_truthy (Some _) = True"

fun is_json_object :: "json \<Rightarrow> bool" where
  "is_json_object (JsonObj _) = True"
| "is_json_object _ = False"

fun json_items :: "json option \<Rightarrow> json list" where
  "json_items (Some (JsonArr xs)) = xs"
| "json_items _ = []"

fun join_texts :: "string \<Rightarrow> string list \<Rightarrow> string" where
  "join_texts sep [] = []"
| "join_texts sep [t] = t"
| "join_texts sep (t # ts) = t @ sep @ join_texts sep ts"

text \<open>An object literal: a property whose value is \<open>undefined\<close> is left out.\<close>

definition json_object :: "(string \<times> json option) list \<Rightarrow> json" where
  "json_object kvs = JsonObj (concat (map (\<lambda>(k, v). case v of None \<Rightarrow> [] | Some j \<Rightarrow> [(k, j)]) kvs))"

definition only_truthy :: "json option \<Rightarrow> json option" where
  "only_truthy v = (if json_truthy v then v else None)"

definition direct_view :: "interaction_request \<Rightarrow> request_view" where
  "direct_view r = \<lparr>rv_session = ir_session r, rv_external = ir_external r, rv_type = ir_type r, rv_title = ir_title r,
     rv_body = ir_body r, rv_payload = ir_payload r, rv_created = (case ir_created r of None \<Rightarrow> JNull | Some n \<Rightarrow> JInt n)\<rparr>"

definition question_view :: "json \<Rightarrow> interaction_error + request_view" where
  "question_view properties =
     (let questions = json_items (json_field properties ''questions'');
          headers = filter (\<lambda>t. t \<noteq> []) (map (\<lambda>q. case json_text (json_field q ''header'') of Some h \<Rightarrow> h | None \<Rightarrow> []) questions);
          title = join_texts '' / '' headers
      in if JsonNull \<in> set questions then Inl MalformedQuestion
         else Inr \<lparr>rv_session = json_text (json_field properties ''sessionID''),
                   rv_external = json_text (json_field properties ''id''),
                   rv_type = Some ''question'',
                   rv_title = Some (if title = [] then ''Question'' else title),
                   rv_body = Some (join_texts [CHR 0x0A, CHR 0x0A]
                     (map (\<lambda>q. case json_text (json_field q ''question'') of Some t \<Rightarrow> t | None \<Rightarrow> []) questions)),
                   rv_payload = Some (json_object
                     [(''questions'', json_field properties ''questions''), (''tool'', json_field properties ''tool''),
                      (''automatic'', only_truthy (json_field properties ''automatic'')),
                      (''expiry'', only_truthy (json_field properties ''expiry''))]),
                   rv_created = json_number (json_field properties ''timeCreated'')\<rparr>)"

definition text_or_null :: "string option \<Rightarrow> string" where
  "text_or_null t = (case t of None \<Rightarrow> ''null'' | Some s \<Rightarrow> s)"

definition json_of_text :: "string option \<Rightarrow> json" where
  "json_of_text t = (case t of None \<Rightarrow> JsonNull | Some s \<Rightarrow> JsonStr s)"

definition permission_view :: "permission_row \<Rightarrow> request_view" where
  "permission_view p = \<lparr>rv_session = perm_session p, rv_external = Some (perm_request p), rv_type = Some ''permission'',
     rv_title = Some (''Permission: '' @ text_or_null (perm_tool p)),
     rv_body = Some (text_or_null (perm_summary p) @ [CHR 0x0A, CHR 0x0A] @ perm_scope_text p),
     rv_payload = Some (JsonObj (perm_details p @
       [(''toolName'', json_of_text (perm_tool p)),
        (''choices'', case perm_choices p of Some c \<Rightarrow> c
           | None \<Rightarrow> JsonArr [JsonStr ''allow_once'', JsonStr ''allow_task'', JsonStr ''allow_project'', JsonStr ''deny'']),
        (''tool'', JsonObj [(''messageID'', json_of_text (perm_message p)), (''callID'', json_of_text (perm_call p))])])),
     rv_created = JInt (perm_created p)\<rparr>"

definition bus_source :: "interaction_tables \<Rightarrow> interaction_request \<Rightarrow> bus_row option" where
  "bus_source its r = (case ir_origin r of
       Some (BusQuestion, i) \<Rightarrow> if i = [] then None else find (\<lambda>b. bus_occurrence b = i) (bus_rows its)
     | _ \<Rightarrow> None)"

definition permission_source :: "interaction_tables \<Rightarrow> interaction_request \<Rightarrow> permission_row option" where
  "permission_source its r = (case ir_origin r of
       Some (PermissionRequest, i) \<Rightarrow>
         if i = [] then None else find (\<lambda>p. perm_id p = i \<and> perm_event p = ''requested'') (permission_rows its)
     | _ \<Rightarrow> None)"

definition requested_view :: "interaction_tables \<Rightarrow> interaction_request \<Rightarrow> interaction_error + request_view option" where
  "requested_view its r =
     (case permission_source its r of Some p \<Rightarrow> Inr (Some (permission_view p)) | None \<Rightarrow>
      case bus_source its r of
        Some b \<Rightarrow>
          (if bus_event b = ''question.asked'' \<and> is_json_object (bus_properties b)
           then rbind (question_view (bus_properties b)) (\<lambda>v. Inr (Some v)) else Inr None)
      | None \<Rightarrow> Inr (if (case ir_origin r of None \<Rightarrow> True | Some (_, i) \<Rightarrow> i = []) then Some (direct_view r) else None))"

definition complete_view :: "request_view \<Rightarrow> bool" where
  "complete_view v \<longleftrightarrow> truthy_text (rv_session v) \<noteq> None \<and> truthy_text (rv_external v) \<noteq> None
     \<and> truthy_text (rv_type v) \<noteq> None \<and> truthy_text (rv_title v) \<noteq> None \<and> rv_body v \<noteq> None
     \<and> json_truthy (rv_payload v) \<and> rv_created v \<noteq> JNull \<and> rv_created v \<noteq> JInt 0"

text \<open>The Task that owns the nearest ancestor Session.\<close>

definition session_task :: "control_store \<Rightarrow> string \<Rightarrow> string option" where
  "session_task st s = truthy_text (map_option row_id (find (\<lambda>t. row_session t = Some s) (task_rows (st_tasks st))))"

definition session_parent :: "control_store \<Rightarrow> string \<Rightarrow> string option" where
  "session_parent st s = (case find (\<lambda>x. ses_id x = s) (sessions st) of None \<Rightarrow> None | Some x \<Rightarrow> ses_parent x)"

lemma session_parent_known: "session_parent st s = Some p \<Longrightarrow> s \<in> set (map ses_id (sessions st))"
  by (auto simp: session_parent_def find_Some_iff split: option.splits)

function lineage_task :: "control_store \<Rightarrow> string list \<Rightarrow> string option \<Rightarrow> interaction_error + string option" where
  "lineage_task st visited None = Inr None"
| "lineage_task st visited (Some s) =
     (if s = [] then Inr None
      else if s \<in> set visited then Inl LineageCycle
      else case session_task st s of
        Some t \<Rightarrow> Inr (Some t)
      | None \<Rightarrow> lineage_task st (s # visited) (session_parent st s))"
  by pat_completeness auto
termination
proof (relation "measure (\<lambda>(st, visited, s). (case s of None \<Rightarrow> 0 | Some _ \<Rightarrow> 1 + card (set (map ses_id (sessions st)) - set visited)))",
    goal_cases)
  case (2 st visited s)
  show ?case
  proof (cases "session_parent st s")
    case (Some p)
    have "s \<in> set (map ses_id (sessions st)) - set visited" using session_parent_known [OF Some] 2 by simp
    then have "card (set (map ses_id (sessions st)) - set visited - {s}) < card (set (map ses_id (sessions st)) - set visited)"
      by (intro card_Diff1_less) auto
    moreover have "set (map ses_id (sessions st)) - set (s # visited) = set (map ses_id (sessions st)) - set visited - {s}" by auto
    ultimately show ?thesis by (simp add: Some del: set_map)
  qed simp
qed simp


text \<open>The outcome a request names in a published Question event.\<close>

record resolution =
  rs_status :: interaction_outcome
  rs_response :: json
  rs_time :: int

definition sourced_resolution :: "request_view \<Rightarrow> bus_row \<Rightarrow> interaction_error + resolution" where
  "sourced_resolution v b =
     (let properties = bus_properties b;
          time = json_number (json_field properties ''timeResolved'');
          answer = (\<lambda>s kvs. Inr \<lparr>rs_status = s, rs_response = json_object kvs, rs_time = js_number time\<rparr>)
      in if \<not> is_json_object properties
           \<or> json_text (json_field properties ''requestID'') = None \<or> json_text (json_field properties ''requestID'') \<noteq> rv_external v
           \<or> json_text (json_field properties ''sessionID'') = None \<or> json_text (json_field properties ''sessionID'') \<noteq> rv_session v
         then Inl ChangedIdentity
         else if \<not> is_safe_integer time \<or> js_number time \<le> 0 then Inl NoResolutionTime
         else if bus_event b = ''question.replied'' then answer Answered
           [(''answers'', json_field properties ''answers''),
            (''auto_reply'', if json_field properties ''automatic'' = Some (JsonBool True) then Some (JsonBool True) else None)]
         else if bus_event b = ''question.rejected'' then answer Rejected [(''origin'', json_field properties ''origin'')]
         else if bus_event b = ''question.expired'' then answer ExpiredOutcome
           [(''origin'', json_field properties ''origin''), (''time_expires'', json_field properties ''timeExpires'')]
         else if bus_event b = ''question.abandoned'' then answer ExpiredOutcome [(''origin'', Some (JsonStr ''infrastructure''))]
         else Inl NonTerminalOccurrence)"

definition request_outcome :: "interaction_tables \<Rightarrow> string \<Rightarrow> outcome_row option" where
  "request_outcome its i = find (\<lambda>r. io_interaction r = i) (int_outcomes its)"

definition outcome_resolution ::
  "interaction_tables \<Rightarrow> request_view \<Rightarrow> outcome_row option \<Rightarrow> interaction_error + resolution option" where
  "outcome_resolution its v oc =
     (case Option.bind oc (\<lambda>r. truthy_text (io_occurrence r)) of None \<Rightarrow> Inr None
      | Some i \<Rightarrow>
          (case find (\<lambda>b. bus_occurrence b = i) (bus_rows its) of None \<Rightarrow> Inl MissingOccurrence
           | Some b \<Rightarrow> rbind (sourced_resolution v b) (\<lambda>s. Inr (Some s))))"

definition permission_decision :: "interaction_tables \<Rightarrow> permission_row option \<Rightarrow> permission_row option" where
  "permission_decision its p = (case p of None \<Rightarrow> None
     | Some p \<Rightarrow> find (\<lambda>q. perm_decision_slot q = Some (perm_request p)) (permission_rows its))"

definition decision_rejected :: "permission_row \<Rightarrow> bool" where
  "decision_rejected d \<longleftrightarrow> perm_event d \<in> {''denied'', ''cancelled'', ''stale''}"

definition decision_value :: "permission_row \<Rightarrow> string" where
  "decision_value d = (if decision_rejected d then ''deny''
     else if perm_decision_scope d = Some ''task'' then ''allow_task''
     else if perm_decision_scope d = Some ''project'' then ''allow_project'' else ''allow_once'')"

record interaction_view =
  iv_id :: string
  iv_task :: string
  iv_session :: string
  iv_external :: string
  iv_type :: string
  iv_title :: string
  iv_body :: string
  iv_payload :: json
  iv_created :: js_value
  iv_status :: "interaction_outcome option"
  iv_response :: "json option"
  iv_resolved :: "int option"

definition view_of ::
  "string \<Rightarrow> string \<Rightarrow> request_view \<Rightarrow> permission_row option \<Rightarrow> resolution option \<Rightarrow> outcome_row option \<Rightarrow> interaction_view" where
  "view_of i t v d rs oc =
     \<lparr>iv_id = i, iv_task = t, iv_session = the (rv_session v), iv_external = the (rv_external v), iv_type = the (rv_type v),
      iv_title = the (rv_title v), iv_body = the (rv_body v), iv_payload = the (rv_payload v), iv_created = rv_created v,
      iv_status = (case d of Some d \<Rightarrow> Some (if decision_rejected d then Rejected else Answered)
        | None \<Rightarrow> (case rs of Some s \<Rightarrow> Some (rs_status s) | None \<Rightarrow> Option.bind oc io_outcome)),
      iv_response = (case d of Some d \<Rightarrow> Some (JsonObj [(''decision'', JsonStr (decision_value d))])
        | None \<Rightarrow> (case rs of Some s \<Rightarrow> Some (rs_response s) | None \<Rightarrow> Option.bind oc io_response)),
      iv_resolved = (case d of Some d \<Rightarrow> Some (perm_created d)
        | None \<Rightarrow> (case rs of Some s \<Rightarrow> Some (rs_time s) | None \<Rightarrow> Option.bind oc io_created))\<rparr>"

text \<open>The Task a request belongs to: the one it names, the permission's, or that of the asking Session.\<close>

definition interaction_owner ::
  "control_store \<Rightarrow> interaction_tables \<Rightarrow> interaction_request \<Rightarrow> request_view \<Rightarrow> interaction_error + string" where
  "interaction_owner st its r v =
     (case truthy_text (case ir_task r of Some t \<Rightarrow> Some t | None \<Rightarrow> Option.bind (permission_source its r) perm_task) of
        Some t \<Rightarrow> Inr t
      | None \<Rightarrow> rbind (lineage_task st [] (rv_session v)) (\<lambda>owner.
          case owner of None \<Rightarrow> Inl NoTaskOwner | Some t \<Rightarrow> Inr t))"

definition resolved_view ::
  "interaction_tables \<Rightarrow> interaction_request \<Rightarrow> request_view \<Rightarrow> string \<Rightarrow> resolution option \<Rightarrow> interaction_error + interaction_view" where
  "resolved_view its r v t rs =
     (let oc = request_outcome its (ir_id r); d = permission_decision its (permission_source its r)
      in if d \<noteq> None \<and> oc \<noteq> None then Inl DuplicateAuthority else Inr (view_of (ir_id r) t v d rs oc))"

definition project_interaction ::
  "control_store \<Rightarrow> interaction_tables \<Rightarrow> interaction_request \<Rightarrow> interaction_error + interaction_view" where
  "project_interaction st its r =
     rbind (requested_view its r) (\<lambda>found.
       case found of None \<Rightarrow> Inl IncompleteRequest | Some v \<Rightarrow>
       if \<not> complete_view v then Inl IncompleteRequest
       else rbind (interaction_owner st its r v) (\<lambda>t.
            rbind (outcome_resolution its v (request_outcome its (ir_id r))) (resolved_view its r v t)))"

lemma project_interaction_id:
  assumes "project_interaction st its r = Inr v"
  shows "iv_id v = ir_id r"
proof -
  from assms obtain w t rs where "resolved_view its r w t rs = Inr v"
    by (auto simp: project_interaction_def rbind_Inr_iff split: option.splits if_splits)
  then show ?thesis by (auto simp: resolved_view_def Let_def view_of_def simp del: not_None_eq split: if_splits)
qed

section \<open>Asking and resolving\<close>

record ask_input =
  ask_task :: string
  ask_session :: string
  ask_external :: string
  ask_type :: string
  ask_title :: string
  ask_body :: string
  ask_payload :: json
  ask_source :: string
  ask_created :: int
  ask_origin :: "(request_origin \<times> string) option"

definition request_row :: "ask_input \<Rightarrow> string \<Rightarrow> interaction_request" where
  "request_row inp i =
     (let own = (\<lambda>x. if ask_origin inp = None then Some x else None)
      in \<lparr>ir_id = i, ir_task = (if ask_origin inp = None then Some (ask_task inp) else None), ir_origin = ask_origin inp,
          ir_session = own (ask_session inp), ir_external = own (ask_external inp), ir_type = own (ask_type inp),
          ir_title = own (ask_title inp), ir_body = own (ask_body inp),
          ir_payload = (if ask_origin inp = None then Some (ask_payload inp) else None),
          ir_created = (if ask_origin inp = None then Some (ask_created inp) else None)\<rparr>)"

definition insert_request ::
  "control_store \<Rightarrow> interaction_tables \<Rightarrow> interaction_request \<Rightarrow> interaction_error + interaction_tables" where
  "insert_request st its r =
     (if ir_id r \<in> set (map ir_id (int_requests its)) then Inl (InteractionIndex ''engine_interaction_request.id'')
      else if ir_external r \<noteq> None \<and> ir_external r \<in> set (map ir_external (int_requests its))
        then Inl (InteractionIndex ''engine_interaction_external_idx'')
      else if ir_origin r \<noteq> None \<and> ir_origin r \<in> set (map ir_origin (int_requests its))
        then Inl (InteractionIndex ''engine_interaction_source_idx'')
      else if (case ir_task r of None \<Rightarrow> False | Some t \<Rightarrow> t \<notin> set (map row_id (task_rows (st_tasks st))))
        then Inl (ForeignKey ''engine_task'')
      else if (case ir_session r of None \<Rightarrow> False | Some s \<Rightarrow> s \<notin> set (session_ids (st_tasks st)))
        then Inl (ForeignKey ''session'')
      else Inr (its\<lparr>int_requests := int_requests its @ [r]\<rparr>))"

definition emit_task_event ::
  "control_store \<Rightarrow> string \<Rightarrow> string \<Rightarrow> string \<Rightarrow> int \<Rightarrow> string \<Rightarrow> interaction_error + control_store" where
  "emit_task_event st kind t source now fresh =
     (case append_event (st_tasks st)
             (task_event_input (OtherEvent kind) t None source None now JUndefined JUndefined JUndefined) fresh of
        Inl e \<Rightarrow> Inl (EventFailure e)
      | Inr (db, _) \<Rightarrow> Inr (st\<lparr>st_tasks := db\<rparr>))"

text \<open>\<open>i\<close> and \<open>fresh\<close> are the new identities of the request and of its event, \<open>now\<close> the clock of the event.\<close>

definition insert_interaction ::
  "control_store \<times> interaction_tables \<Rightarrow> ask_input \<Rightarrow> string \<Rightarrow> int \<Rightarrow> string
   \<Rightarrow> interaction_error + (control_store \<times> interaction_tables) \<times> string" where
  "insert_interaction w inp i now fresh =
     (case w of (st, its) \<Rightarrow>
        rbind (insert_request st its (request_row inp i)) (\<lambda>its'.
        rbind (emit_task_event st ''interaction.requested'' (ask_task inp) (ask_source inp) now fresh) (\<lambda>st'.
          Inr ((st', its'), i))))"

record resolve_input =
  rz_view :: interaction_view
  rz_status :: interaction_outcome
  rz_response :: json
  rz_source :: string
  rz_time :: int
  rz_occurrence :: "string option"

definition outcome_of :: "resolve_input \<Rightarrow> string \<Rightarrow> outcome_row" where
  "outcome_of inp i =
     (case truthy_text (rz_occurrence inp) of
        Some _ \<Rightarrow> \<lparr>io_id = i, io_interaction = iv_id (rz_view inp), io_occurrence = rz_occurrence inp,
          io_outcome = None, io_response = None, io_created = None\<rparr>
      | None \<Rightarrow> \<lparr>io_id = i, io_interaction = iv_id (rz_view inp), io_occurrence = rz_occurrence inp,
          io_outcome = Some (rz_status inp), io_response = Some (rz_response inp), io_created = Some (rz_time inp)\<rparr>)"

definition same_outcome :: "resolve_input \<Rightarrow> outcome_row \<Rightarrow> bool" where
  "same_outcome inp r \<longleftrightarrow>
     (case truthy_text (rz_occurrence inp) of
        Some i \<Rightarrow> io_occurrence r = Some i
      | None \<Rightarrow> io_occurrence r = None \<and> io_outcome r = Some (rz_status inp) \<and> io_response r = Some (rz_response inp))"

definition insert_outcome :: "interaction_tables \<Rightarrow> outcome_row \<Rightarrow> interaction_error + interaction_tables" where
  "insert_outcome its r =
     (if io_id r \<in> set (map io_id (int_outcomes its)) then Inl (InteractionIndex ''engine_interaction_outcome.id'')
      else if io_interaction r \<in> set (map io_interaction (int_outcomes its))
        then Inl (InteractionIndex ''engine_interaction_outcome_request_idx'')
      else if io_occurrence r \<noteq> None \<and> io_occurrence r \<in> set (map io_occurrence (int_outcomes its))
        then Inl (InteractionIndex ''engine_interaction_outcome_source_idx'')
      else if \<not> outcome_shape r then Inl (InteractionIndex ''engine_interaction_outcome_owner_shape'')
      else Inr (its\<lparr>int_outcomes := int_outcomes its @ [r]\<rparr>))"

text \<open>\<open>ident\<close> is the deterministic identity of an outcome (a hash of the request's identity).\<close>

definition resolve_interaction ::
  "(string \<Rightarrow> string) \<Rightarrow> control_store \<times> interaction_tables \<Rightarrow> resolve_input \<Rightarrow> int \<Rightarrow> string
   \<Rightarrow> interaction_error + control_store \<times> interaction_tables" where
  "resolve_interaction ident w inp now fresh =
     (case w of (st, its) \<Rightarrow>
        let v = rz_view inp
        in if iv_type v = [] then Inl NoRequestType
           else if iv_session v = [] then Inl NoSessionOwner
           else case find (\<lambda>r. ir_id r = iv_id v) (int_requests its) of None \<Rightarrow> Inl RequestDisappeared
           | Some current \<Rightarrow>
               (case request_outcome its (iv_id v) of
                  Some r \<Rightarrow> if same_outcome inp r then Inr (st, its) else Inl ConflictingOutcome
                | None \<Rightarrow>
                    if (map_option fst (ir_origin current) = Some BusQuestion) \<noteq> (truthy_text (rz_occurrence inp) \<noteq> None)
                    then Inl WrongOwnerBranch
                    else rbind (insert_outcome its (outcome_of inp (ident (iv_id v)))) (\<lambda>its'.
                         rbind (emit_task_event st ''interaction.resolved'' (iv_task v) (rz_source inp) now fresh) (\<lambda>st'.
                           Inr (st', its')))))"


end
