(* ===== verification/InteractionProps.thy ===== *)
theory InteractionProps
  imports Interaction "HOL-Library.Sublist"
begin

text \<open>
  Histories of the interaction tables: requests are asked, owners publish their occurrences and
  decisions, outcomes are appended. What an interaction was once answered with is what every
  later reading shows.
\<close>

section \<open>Histories\<close>

datatype interaction_op =
    OpAsk ask_input string int string
  | OpResolve resolve_input int string
  | OpPublish bus_row
  | OpPermission permission_row

text \<open>A call that throws leaves the tables as they were.\<close>

fun interaction_step ::
  "(string \<Rightarrow> string) \<Rightarrow> control_store \<times> interaction_tables \<Rightarrow> interaction_op \<Rightarrow> control_store \<times> interaction_tables" where
  "interaction_step ident w (OpAsk inp i now fresh) =
     (case insert_interaction w inp i now fresh of Inl e \<Rightarrow> w | Inr (w', _) \<Rightarrow> w')"
| "interaction_step ident w (OpResolve inp now fresh) =
     (case resolve_interaction ident w inp now fresh of Inl e \<Rightarrow> w | Inr w' \<Rightarrow> w')"
| "interaction_step ident (st, its) (OpPublish b) = (st, its\<lparr>bus_rows := bus_rows its @ [b]\<rparr>)"
| "interaction_step ident (st, its) (OpPermission p) = (st, its\<lparr>permission_rows := permission_rows its @ [p]\<rparr>)"

lemma find_prefix: "prefix xs ys \<Longrightarrow> find P xs = Some x \<Longrightarrow> find P ys = Some x"
  by (auto simp: prefix_def find_append)

text \<open>What no step takes away: rows are appended, and Tasks and Sessions stay.\<close>

definition interactions_grow :: "control_store \<times> interaction_tables \<Rightarrow> control_store \<times> interaction_tables \<Rightarrow> bool" where
  "interactions_grow w w' \<longleftrightarrow>
     prefix (int_requests (snd w)) (int_requests (snd w')) \<and> prefix (int_outcomes (snd w)) (int_outcomes (snd w'))
     \<and> prefix (bus_rows (snd w)) (bus_rows (snd w')) \<and> prefix (permission_rows (snd w)) (permission_rows (snd w'))
     \<and> task_rows (st_tasks (fst w')) = task_rows (st_tasks (fst w)) \<and> sessions (fst w') = sessions (fst w)"

lemma emit_task_event_frame:
  "emit_task_event st kind t source now fresh = Inr st' \<Longrightarrow>
     task_rows (st_tasks st') = task_rows (st_tasks st) \<and> sessions st' = sessions st"
  by (auto simp: emit_task_event_def append_event_def split: sum.splits prod.splits)

lemma insert_interaction_grows:
  "insert_interaction w inp i now fresh = Inr (w', j) \<Longrightarrow> interactions_grow w w'"
  by (cases w) (auto simp: insert_interaction_def insert_request_def rbind_Inr_iff interactions_grow_def
      dest!: emit_task_event_frame split: if_splits option.splits)

lemma resolve_interaction_grows:
  assumes "resolve_interaction ident w inp now fresh = Inr w'"
  shows "interactions_grow w w'"
  using assms by (cases w) (auto simp: resolve_interaction_def insert_outcome_def rbind_Inr_iff interactions_grow_def Let_def
      dest!: emit_task_event_frame split: if_splits option.splits)

lemma interaction_step_grows: "interactions_grow w (interaction_step ident w op)"
proof (cases op)
  case (OpAsk inp i now fresh)
  then show ?thesis
    by (cases "insert_interaction w inp i now fresh") (auto simp: interactions_grow_def dest!: insert_interaction_grows)
next
  case (OpResolve inp now fresh)
  then show ?thesis
    by (cases "resolve_interaction ident w inp now fresh") (auto simp: interactions_grow_def dest!: resolve_interaction_grows)
qed (cases w; simp add: interactions_grow_def)+

lemma interactions_grow_trans: "interactions_grow u v \<Longrightarrow> interactions_grow v w \<Longrightarrow> interactions_grow u w"
  by (auto simp: interactions_grow_def intro: prefix_order.trans)

section \<open>The tables' own invariant\<close>

definition interactions_ok :: "interaction_tables \<Rightarrow> bool" where
  "interactions_ok its \<longleftrightarrow> distinct (map ir_id (int_requests its)) \<and> distinct (map io_interaction (int_outcomes its))
     \<and> list_all request_shape (int_requests its) \<and> list_all outcome_shape (int_outcomes its)"

lemma request_row_shape: "request_shape (request_row inp i)"
  by (cases "ask_origin inp") (auto simp: request_row_def request_shape_def)

lemma interaction_step_ok:
  assumes "interactions_ok (snd w)"
  shows "interactions_ok (snd (interaction_step ident w op))"
proof (cases op)
  case (OpAsk inp i now fresh)
  with assms show ?thesis
    by (cases w; cases "insert_interaction w inp i now fresh")
      (auto simp: insert_interaction_def insert_request_def rbind_Inr_iff interactions_ok_def request_row_shape split: if_splits)
next
  case (OpResolve inp now fresh)
  with assms show ?thesis
    by (cases w; cases "resolve_interaction ident w inp now fresh")
      (auto simp: resolve_interaction_def insert_outcome_def rbind_Inr_iff interactions_ok_def Let_def split: if_splits option.splits)
qed (use assms in \<open>cases w; simp add: interactions_ok_def\<close>)+

interpretation interaction_runs: step_system "interaction_step ident"
    "(st, \<lparr>int_requests = [], int_outcomes = [], bus_rows = [], permission_rows = []\<rparr>)"
    "\<lambda>w. interactions_ok (snd w)" for ident st
proof unfold_locales
  show "interactions_ok (snd (st, \<lparr>int_requests = [], int_outcomes = [], bus_rows = [], permission_rows = []\<rparr>))"
    by (simp add: interactions_ok_def)
qed (rule interaction_step_ok)

lemma interaction_run_grows: "interactions_grow w (run_steps (interaction_step ident) w ops)"
proof (induction ops arbitrary: w)
  case (Cons op ops)
  show ?case using interactions_grow_trans [OF interaction_step_grows Cons.IH] by simp
qed (simp add: interactions_grow_def)

section \<open>Answers are final\<close>

lemma permission_source_grows:
  assumes "interactions_grow (st, its) (st', its')" "requested_view its q = Inr (Some v)"
  shows "permission_source its' q = permission_source its q"
proof (cases "permission_source its q")
  case (Some p)
  then show ?thesis
    using assms(1) by (auto simp: permission_source_def interactions_grow_def find_prefix split: option.splits request_origin.splits if_splits)
next
  case None
  then show ?thesis
    using assms(2) by (auto simp: requested_view_def permission_source_def bus_source_def split: option.splits request_origin.splits if_splits)
qed

lemma requested_view_grows:
  assumes "interactions_grow (st, its) (st', its')" "requested_view its q = Inr (Some v)"
  shows "requested_view its' q = Inr (Some v)"
proof (cases "permission_source its q")
  case (Some p)
  then show ?thesis using assms(2) permission_source_grows [OF assms] by (simp add: requested_view_def)
next
  case None
  then show ?thesis
  proof (cases "bus_source its q")
    case (Some b)
    then have "bus_source its' q = Some b"
      using assms(1) by (auto simp: bus_source_def interactions_grow_def find_prefix split: option.splits request_origin.splits if_splits)
    then show ?thesis using None Some assms(2) permission_source_grows [OF assms] by (simp add: requested_view_def)
  next
    case none: None
    then have own: "case ir_origin q of None \<Rightarrow> True | Some (_, i) \<Rightarrow> i = []" and v: "v = direct_view q"
      using assms(2) None by (auto simp: requested_view_def split: if_splits)
    then have "bus_source its' q = None" by (auto simp: bus_source_def split: option.splits request_origin.splits)
    then show ?thesis using None own v permission_source_grows [OF assms] by (simp add: requested_view_def)
  qed
qed

lemma lineage_task_same:
  assumes "task_rows (st_tasks st') = task_rows (st_tasks st)" "sessions st' = sessions st"
  shows "lineage_task st' seen s = lineage_task st seen s"
  using assms
proof (induction st seen s rule: lineage_task.induct)
  case (2 st seen s)
  then have "session_task st' s = session_task st s" "session_parent st' s = session_parent st s"
    by (simp_all add: session_task_def session_parent_def)
  with 2 show ?case by (simp split: option.split)
qed simp

lemma interaction_owner_grows:
  assumes "interactions_grow (st, its) (st', its')" "requested_view its q = Inr (Some v)"
  shows "interaction_owner st' its' q v = interaction_owner st its q v"
proof -
  have same: "lineage_task st' [] (rv_session v) = lineage_task st [] (rv_session v)"
    using assms(1) by (intro lineage_task_same) (simp_all add: interactions_grow_def)
  show ?thesis unfolding interaction_owner_def permission_source_grows [OF assms] same ..
qed

lemma outcome_resolution_grows:
  assumes "interactions_grow (st, its) (st', its')" "outcome_resolution its v oc = Inr rs"
  shows "outcome_resolution its' v oc = Inr rs"
  using assms by (auto simp: outcome_resolution_def interactions_grow_def rbind_Inr_iff find_prefix split: option.splits)

lemma project_interaction_parts:
  assumes "project_interaction st its q = Inr v"
  obtains w t rs where "requested_view its q = Inr (Some w)" "complete_view w" "interaction_owner st its q w = Inr t"
    "outcome_resolution its w (request_outcome its (ir_id q)) = Inr rs"
    "permission_decision its (permission_source its q) = None \<or> request_outcome its (ir_id q) = None"
    "v = view_of (ir_id q) t w (permission_decision its (permission_source its q)) rs (request_outcome its (ir_id q))"
  using assms that
  by (auto simp: project_interaction_def resolved_view_def Let_def rbind_Inr_iff simp del: not_None_eq split: option.splits if_splits)

text \<open>
  What an interaction was answered with is final. Whatever is asked, published, decided or
  resolved later, every later reading of the request that succeeds shows exactly the same view:
  the same status, response and time, the same owner and content.
\<close>

theorem answers_are_final:
  assumes "project_interaction st its q = Inr v" "iv_status v \<noteq> None"
    and "run_steps (interaction_step ident) (st, its) ops = (st', its')" "project_interaction st' its' q = Inr v'"
  shows "v' = v"
proof -
  have grow: "interactions_grow (st, its) (st', its')" using interaction_run_grows [of "(st, its)" ident ops] assms(3) by simp
  from project_interaction_parts [OF assms(1)] obtain w t rs where a: "requested_view its q = Inr (Some w)" "interaction_owner st its q w = Inr t"
    "outcome_resolution its w (request_outcome its (ir_id q)) = Inr rs"
    "permission_decision its (permission_source its q) = None \<or> request_outcome its (ir_id q) = None"
    "v = view_of (ir_id q) t w (permission_decision its (permission_source its q)) rs (request_outcome its (ir_id q))" by metis
  from project_interaction_parts [OF assms(4)] obtain w' t' rs' where b: "requested_view its' q = Inr (Some w')" "interaction_owner st' its' q w' = Inr t'"
    "outcome_resolution its' w' (request_outcome its' (ir_id q)) = Inr rs'"
    "permission_decision its' (permission_source its' q) = None \<or> request_outcome its' (ir_id q) = None"
    "v' = view_of (ir_id q) t' w' (permission_decision its' (permission_source its' q)) rs' (request_outcome its' (ir_id q))" by metis
  have w: "w' = w" using requested_view_grows [OF grow a(1)] b(1) by simp
  have t: "t' = t" using interaction_owner_grows [OF grow a(1)] a(2) b(2) w by simp
  have src: "permission_source its' q = permission_source its q" by (rule permission_source_grows [OF grow a(1)])
  show ?thesis
  proof (cases "request_outcome its (ir_id q)")
    case (Some oc)
    then have oc: "request_outcome its' (ir_id q) = Some oc"
      using grow by (auto simp: request_outcome_def interactions_grow_def intro: find_prefix)
    with Some a(3) b(3) w have "rs' = rs" using outcome_resolution_grows [OF grow, of w "Some oc" rs] by simp
    then show ?thesis using a(4,5) b(4,5) Some oc w t by simp
  next
    case None
    then have "rs = None" using a(3) by (simp add: outcome_resolution_def)
    then obtain d where d: "permission_decision its (permission_source its q) = Some d"
      using a(5) assms(2) None by (auto simp: view_of_def split: option.splits)
    then have "permission_decision its' (permission_source its' q) = Some d"
      using grow by (auto simp: src permission_decision_def interactions_grow_def intro: find_prefix split: option.splits)
    then show ?thesis using a(5) b(3-5) None d w t \<open>rs = None\<close> by (simp add: outcome_resolution_def)
  qed
qed

text \<open>
  C25: an interaction is resolved once. In every reachable state there is at most one outcome for
  each request. Resolving a request that has an outcome either repeats it and changes nothing, or
  fails; and a fresh outcome is the one that is then read.
\<close>

theorem interaction_resolved_once:
  assumes "run_steps (interaction_step ident) (st0, \<lparr>int_requests = [], int_outcomes = [], bus_rows = [], permission_rows = []\<rparr>) ops = (st, its)"
    and "resolve_interaction ident (st, its) inp now fresh = Inr (st', its')"
  shows "distinct (map io_interaction (int_outcomes its'))
    \<and> (case request_outcome its (iv_id (rz_view inp)) of
         Some r \<Rightarrow> same_outcome inp r \<and> st' = st \<and> its' = its
       | None \<Rightarrow> request_outcome its' (iv_id (rz_view inp)) = Some (outcome_of inp (ident (iv_id (rz_view inp))))
           \<and> (\<forall>j. j = iv_id (rz_view inp) \<or> request_outcome its' j = request_outcome its j))"
proof -
  have ok: "interactions_ok its" using interaction_runs.reachable_inv [of ident st0 ops] assms(1) by simp
  from interaction_step_ok [of "(st, its)" ident "OpResolve inp now fresh"] ok assms(2) have "interactions_ok its'" by simp
  then show ?thesis using assms(2)
    by (cases "request_outcome its (iv_id (rz_view inp))")
      (auto simp: resolve_interaction_def insert_outcome_def rbind_Inr_iff Let_def interactions_ok_def request_outcome_def find_append outcome_of_def
        split: if_splits option.splits)
qed

section \<open>Witnesses\<close>

definition demo_ask :: ask_input where
  "demo_ask = \<lparr>ask_task = ''t'', ask_session = ''s'', ask_external = ''x1'', ask_type = ''question'', ask_title = ''Q'',
     ask_body = ''b'', ask_payload = JsonObj [(''questions'', JsonArr [])], ask_source = ''host'', ask_created = 7, ask_origin = None\<rparr>"

definition demo_answer :: "interaction_outcome \<Rightarrow> int \<Rightarrow> resolve_input" where
  "demo_answer s now = \<lparr>rz_view = \<lparr>iv_id = ''i1'', iv_task = ''t'', iv_session = ''s'', iv_external = ''x1'', iv_type = ''question'',
       iv_title = ''Q'', iv_body = ''b'', iv_payload = JsonObj [], iv_created = JInt 7, iv_status = None, iv_response = None,
       iv_resolved = None\<rparr>, rz_status = s, rz_response = JsonObj [], rz_source = ''operator'', rz_time = now, rz_occurrence = None\<rparr>"

definition demo_interactions :: "interaction_op list \<Rightarrow> control_store \<times> interaction_tables" where
  "demo_interactions = run_steps (interaction_step (\<lambda>i. i @ ''/outcome''))
     (empty_tables demo_outside, \<lparr>int_requests = [], int_outcomes = [], bus_rows = [], permission_rows = []\<rparr>)"

definition demo_answered :: "interaction_op list" where
  "demo_answered = [OpAsk demo_ask ''i1'' 7 ''ev1'', OpResolve (demo_answer Answered 9) 9 ''ev2'']"

definition demo_contested :: "interaction_op list" where
  "demo_contested = [OpResolve (demo_answer Rejected 12) 12 ''ev3'',
     OpPublish \<lparr>bus_occurrence = ''o'', bus_event = ''question.replied'', bus_properties = JsonNull\<rparr>]"

lemma demo_answer_read:
  "case demo_interactions (demo_answered @ demo_contested) of (st', its') \<Rightarrow>
     (case project_interaction st' its' (request_row demo_ask ''i1'') of Inl _ \<Rightarrow> False | Inr v \<Rightarrow> iv_resolved v = Some 9)"
  "case demo_interactions demo_answered of (st, its) \<Rightarrow>
     (case project_interaction st its (request_row demo_ask ''i1'') of Inl _ \<Rightarrow> False | Inr v \<Rightarrow> iv_status v = Some Answered)"
  by code_simp+

theorem answers_are_final_witness:
  "\<exists>st its st' its' v. demo_interactions demo_answered = (st, its) \<and> demo_interactions (demo_answered @ demo_contested) = (st', its')
     \<and> iv_status v = Some Answered \<and> project_interaction st its (request_row demo_ask ''i1'') = Inr v
     \<and> project_interaction st' its' (request_row demo_ask ''i1'') = Inr v"
proof -
  obtain st its where w: "demo_interactions demo_answered = (st, its)" by fastforce
  obtain st' its' where w': "demo_interactions (demo_answered @ demo_contested) = (st', its')" by fastforce
  from demo_answer_read(2) w obtain v where v: "project_interaction st its (request_row demo_ask ''i1'') = Inr v" "iv_status v = Some Answered"
    by (auto split: sum.splits)
  from demo_answer_read(1) w' obtain v' where v': "project_interaction st' its' (request_row demo_ask ''i1'') = Inr v'"
    by (auto split: sum.splits)
  have "run_steps (interaction_step (\<lambda>i. i @ ''/outcome'')) (st, its) demo_contested = (st', its')"
    using w w' by (simp add: demo_interactions_def run_steps_append)
  from answers_are_final [OF v(1) _ this v'] v v' w w' show ?thesis by auto
qed

lemma demo_resolves:
  "case demo_interactions (take 1 demo_answered) of w \<Rightarrow>
     (case resolve_interaction (\<lambda>i. i @ ''/outcome'') w (demo_answer Answered 9) 9 ''ev2'' of Inl _ \<Rightarrow> False | Inr _ \<Rightarrow> True)
     \<and> request_outcome (snd w) ''i1'' = None"
  by code_simp

theorem interaction_resolved_once_witness:
  "\<exists>st its st' its'. demo_interactions (take 1 demo_answered) = (st, its)
     \<and> resolve_interaction (\<lambda>i. i @ ''/outcome'') (st, its) (demo_answer Answered 9) 9 ''ev2'' = Inr (st', its')
     \<and> distinct (map io_interaction (int_outcomes its')) \<and> request_outcome its' ''i1'' \<noteq> None"
proof -
  obtain st its where w: "demo_interactions (take 1 demo_answered) = (st, its)" by fastforce
  from demo_resolves w obtain st' its' where r: "resolve_interaction (\<lambda>i. i @ ''/outcome'') (st, its) (demo_answer Answered 9) 9 ''ev2'' = Inr (st', its')"
    "request_outcome its ''i1'' = None" by (auto split: sum.splits)
  from interaction_resolved_once [OF w [unfolded demo_interactions_def] r(1)] r w show ?thesis by (auto simp: demo_answer_def)
qed

end
