(* ===== verification/Evidence.thy ===== *)
theory Evidence
  imports Interaction
begin

text \<open>
  The evidence of a Task-root ingress (\<open>readTaskRootIngressEvidence\<close> of
  \<open>engine/task-root-ingress-delivery.ts\<close>): which turns, decisions, gaps, interactions and
  external activities the assistants of its activations have left in the session tables. It is
  the reader that acceptance, activation and fences of the fact store take as an argument. The
  classification of decision tools is \<open>orchestrator/decision-tool-names.ts\<close>. Columns of the
  session tables that no other component of the model reads are in \<open>evidence_columns\<close>.
\<close>

section \<open>Decision tools\<close>

text \<open>An integrity error of the reader is a verdict on the ingress; any other throw is a failed read.\<close>

datatype evidence_fault = IntegrityFault | PlainFault

definition decision_tool_names :: "string list" where
  "decision_tool_names = [''dispatch_agent'', ''dispatch_agents'', ''respond_agent_coordination'', ''manage_task'',
     ''question'', ''wait'', ''no_action'']"

definition is_decision_tool :: "string \<Rightarrow> bool" where
  "is_decision_tool t \<longleftrightarrow> t \<in> set decision_tool_names"

datatype completion_effect = SatisfiesEpoch | RequiresFollowup | InspectDispatch

definition coordination_decisions :: "string list" where
  "coordination_decisions = [''cancel_worker'', ''redispatch'', ''fail_task'', ''ask_user'', ''acknowledge_terminal'']"

definition completion_effect_of :: "string \<Rightarrow> json \<Rightarrow> evidence_fault + completion_effect" where
  "completion_effect_of tool inp =
     (if tool = ''dispatch_agent'' \<or> tool = ''dispatch_agents'' then Inr InspectDispatch
      else if tool = ''question'' then Inr RequiresFollowup
      else if tool = ''manage_task''
              \<and> (json_text (json_field inp ''action'') \<in> {Some ''add_goal'', Some ''modify_goal'', Some ''delete_goal''}
                 \<or> json_field inp ''goal'' \<noteq> None \<or> json_field inp ''goalID'' \<noteq> None \<or> json_field inp ''updates'' \<noteq> None)
        then Inr RequiresFollowup
      else if tool = ''respond_agent_coordination''
        then (if \<not> is_json_object inp then Inl PlainFault
              else case json_text (json_field inp ''decision'') of
                None \<Rightarrow> Inl PlainFault
              | Some d \<Rightarrow> if d \<notin> set coordination_decisions then Inl PlainFault
                          else Inr (if d = ''redispatch'' \<or> d = ''ask_user'' then RequiresFollowup else SatisfiesEpoch))
      else Inr SatisfiesEpoch)"

text \<open>The first decision that the parts of a turn have committed.\<close>

record turn_part =
  tp_type :: string
  tp_tool :: "string option"
  tp_status :: "string option"
  tp_input :: json

definition part_commits :: "turn_part \<Rightarrow> bool" where
  "part_commits p \<longleftrightarrow> tp_type p = ''tool'' \<and> tp_status p = Some ''completed''
     \<and> (case tp_tool p of None \<Rightarrow> False | Some t \<Rightarrow>
          is_decision_tool t \<and> (case completion_effect_of t (tp_input p) of Inl _ \<Rightarrow> False | Inr e \<Rightarrow> e \<noteq> RequiresFollowup))"

fun committed_decision :: "turn_part list \<Rightarrow> string option" where
  "committed_decision [] = None"
| "committed_decision (p # ps) = (if part_commits p then tp_tool p else committed_decision ps)"

section \<open>The session tables\<close>

record session_part =
  part_id :: string
  part_message :: string
  part_created :: int
  part_type :: "string option"
  part_reason :: "string option"

text \<open>
  \<open>assistant_valid\<close> and \<open>user_valid\<close> are the checks of the message schemas on the fields that the
  code does not read; \<open>tool_readable\<close> says that the stored tool request and its output parse.
  The outcome columns are read only where an outcome row exists.
\<close>

record evidence_columns =
  message_created :: "string \<Rightarrow> int"
  completed_at :: "string \<Rightarrow> int"
  assistant_valid :: "string \<Rightarrow> bool"
  user_valid :: "string \<Rightarrow> bool"
  user_agent :: "string \<Rightarrow> string"
  tool_created :: "string \<Rightarrow> int"
  tool_readable :: "string \<Rightarrow> bool"
  tool_input :: "string \<Rightarrow> json"
  tool_outcome :: "string \<Rightarrow> string \<times> bool"
  provider_outcome :: "string \<Rightarrow> string \<times> bool"
  session_parts :: "session_part list"

fun alphanumeric :: "char \<Rightarrow> bool" where
  "alphanumeric c = (let n = of_char c :: nat in 48 \<le> n \<and> n \<le> 57 \<or> 65 \<le> n \<and> n \<le> 90 \<or> 97 \<le> n \<and> n \<le> 122)"

definition canonical_suffix :: "string \<Rightarrow> bool" where
  "canonical_suffix s \<longleftrightarrow> length s = 19 \<and> list_all alphanumeric s"

definition canonical_ingress_id :: "string \<Rightarrow> bool" where
  "canonical_ingress_id i \<longleftrightarrow> take 5 i = ''art_h'' \<and> canonical_suffix (drop 5 i)"

definition canonical_predecessor :: "string \<Rightarrow> bool" where
  "canonical_predecessor p \<longleftrightarrow> take 4 p \<in> {''art_'', ''msg_''} \<and> take 1 (drop 4 p) \<in> {''g'', ''h'', ''-''}
     \<and> canonical_suffix (drop 5 p)"

definition control_occurrence :: "string \<Rightarrow> string \<Rightarrow> evidence_fault + string" where
  "control_occurrence iid pre =
     (if \<not> canonical_ingress_id iid \<or> \<not> canonical_predecessor pre then Inl PlainFault
      else Inr (''msg_task-root-control_'' @ iid @ ''_'' @ pre))"

section \<open>One assistant\<close>

definition parse_assistant :: "evidence_columns \<Rightarrow> message_row \<Rightarrow> bool" where
  "parse_assistant cols m \<longleftrightarrow> assistant_valid cols (msg_id m) \<and> msg_role m = ''assistant''
     \<and> js_string_value (msg_parent m) \<noteq> None
     \<and> (case msg_activation m of JUndefined \<Rightarrow> True | JStr a \<Rightarrow> a \<noteq> [] | _ \<Rightarrow> False)"

definition assistant_authorised ::
  "control_store \<Rightarrow> task_row \<Rightarrow> message_row \<Rightarrow> string \<Rightarrow> (string \<Rightarrow> string option) \<Rightarrow> bool" where
  "assistant_authorised st task m aid assistants \<longleftrightarrow>
     (case find (\<lambda>x. ses_id x = msg_session m) (sessions st) of None \<Rightarrow> False | Some ses \<Rightarrow>
        ses_parent ses = row_session task \<and> ses_project ses = row_project task \<and> ses_kind ses = ''orchestrator''
        \<and> (case assistants aid of None \<Rightarrow> True | Some prior \<Rightarrow> prior = msg_id m))"

text \<open>The assistant continues the ingress: its parent is the control message of the ingress and its predecessor.\<close>

definition continuation_of ::
  "control_store \<Rightarrow> ingress_row \<Rightarrow> message_row \<Rightarrow> string \<Rightarrow> evidence_fault + string" where
  "continuation_of st r m par =
     (case find_message st par of None \<Rightarrow> Inl IntegrityFault | Some pm \<Rightarrow>
        if msg_session pm \<noteq> msg_session m \<or> msg_control_ingress pm \<noteq> JStr (ing_id r) then Inl IntegrityFault
        else case msg_control_predecessor pm of
          JStr pre \<Rightarrow> rbind (control_occurrence (ing_id r) pre) (\<lambda>i. if i = par then Inr pre else Inl IntegrityFault)
        | _ \<Rightarrow> Inl IntegrityFault)"

definition message_tools :: "evidence_columns \<Rightarrow> control_store \<Rightarrow> string \<Rightarrow> tool_request_row list" where
  "message_tools cols st mid =
     sort_by (cmp_or (cmp_key (\<lambda>t. tool_created cols (treq_id t))) (\<lambda>a b. text_cmp (treq_id a) (treq_id b)))
       (filter (\<lambda>t. treq_message t = mid) (tool_requests st))"

definition tool_settled :: "control_store \<Rightarrow> tool_request_row \<Rightarrow> bool" where
  "tool_settled st t \<longleftrightarrow> treq_id t \<in> set (tool_outcomes st)"

definition tool_completed :: "evidence_columns \<Rightarrow> control_store \<Rightarrow> tool_request_row \<Rightarrow> bool" where
  "tool_completed cols st t \<longleftrightarrow> tool_settled st t \<and> snd (tool_outcome cols (treq_id t))"

text \<open>The decision a tool request has committed, if any.\<close>

definition tool_decision ::
  "evidence_columns \<Rightarrow> control_store \<Rightarrow> tool_request_row \<Rightarrow> evidence_fault + decision list" where
  "tool_decision cols st t =
     (if \<not> tool_completed cols st t \<or> \<not> is_decision_tool (treq_tool t) then Inr []
      else rbind (completion_effect_of (treq_tool t) (tool_input cols (treq_id t))) (\<lambda>e.
        Inr (if e = SatisfiesEpoch \<or> e = InspectDispatch
             then [\<lparr>decision_id = treq_id t, decision_message = treq_message t, decision_command = treq_tool t\<rparr>] else [])))"

definition tool_activity :: "string \<Rightarrow> tool_request_row \<Rightarrow> activity_request" where
  "tool_activity aid t = \<lparr>req_id = treq_id t, req_activation = aid, req_message = treq_message t, req_idempotency = QueryRequired\<rparr>"

definition outcome_fact :: "string \<times> bool \<Rightarrow> string \<Rightarrow> activity_outcome" where
  "outcome_fact oc rid = \<lparr>out_id = fst oc, out_request = rid, out_result = (if snd oc then ActCompleted else ActFailed)\<rparr>"

definition step_gaps :: "evidence_columns \<Rightarrow> string \<Rightarrow> string \<Rightarrow> decision_gap list" where
  "step_gaps cols aid mid =
     map (\<lambda>p. \<lparr>gap_id = part_id p, gap_activation = aid, gap_message = mid\<rparr>)
       (filter (\<lambda>p. part_type p = Some ''step-finish'' \<and> part_reason p \<noteq> None \<and> part_reason p \<noteq> Some ''tool-calls'')
         (sort_by (cmp_or (cmp_key part_created) (\<lambda>a b. text_cmp (part_id a) (part_id b)))
           (filter (\<lambda>p. part_message p = mid) (session_parts cols))))"

definition boundary_of :: "control_store \<Rightarrow> message_row \<Rightarrow> tool_request_row list \<Rightarrow> turn_boundary" where
  "boundary_of st m tools =
     (if msg_error m then ProviderError
      else if (case msg_finish m of None \<Rightarrow> False | Some f \<Rightarrow> str_includes f ''tool'') \<or> list_ex (\<lambda>t. \<not> tool_settled st t) tools
        then ToolCalls
      else FinalTurn)"

definition turn_of ::
  "evidence_columns \<Rightarrow> control_store \<Rightarrow> message_row \<Rightarrow> string \<Rightarrow> string \<Rightarrow> tool_request_row list \<Rightarrow> assistant_turn list" where
  "turn_of cols st m aid pre tools =
     (if msg_completed m \<and> completed_at cols (msg_id m) \<noteq> 0
      then [\<lparr>turn_id = msg_id m, turn_activation = aid, turn_predecessor = pre, turn_completed = completed_at cols (msg_id m),
             turn_boundary = boundary_of st m tools\<rparr>] else [])"

definition assistant_evidence ::
  "evidence_columns \<Rightarrow> control_store \<Rightarrow> message_row \<Rightarrow> string \<Rightarrow> string \<Rightarrow> evidence_fault + ingress_evidence" where
  "assistant_evidence cols st m aid pre =
     (let tools = message_tools cols st (msg_id m)
      in if list_ex (\<lambda>t. \<not> tool_readable cols (treq_id t)) tools then Inl PlainFault
         else rbind (rtraverse (tool_decision cols st) tools) (\<lambda>ds.
           Inr \<lparr>ev_turns = turn_of cols st m aid pre tools, ev_decisions = concat ds,
                ev_gaps = step_gaps cols aid (msg_id m), ev_interactions = [],
                ev_requests = map (tool_activity aid) tools,
                ev_outcomes = map (\<lambda>t. outcome_fact (tool_outcome cols (treq_id t)) (treq_id t)) (filter (tool_settled st) tools)\<rparr>))"


section \<open>The assistants of an ingress\<close>

definition ingress_lease_ids :: "control_store \<Rightarrow> string \<Rightarrow> string list" where
  "ingress_lease_ids st iid = map lease_id (target_leases (st_leases st) TargetTaskRootIngress iid)"

definition assistant_rows :: "evidence_columns \<Rightarrow> control_store \<Rightarrow> string \<Rightarrow> message_row list" where
  "assistant_rows cols st iid =
     sort_by (cmp_or (cmp_key (\<lambda>m. message_created cols (msg_id m))) (\<lambda>a b. text_cmp (msg_id a) (msg_id b)))
       (filter (\<lambda>m. case msg_activation m of JStr a \<Rightarrow> a \<in> set (ingress_lease_ids st iid) | _ \<Rightarrow> False) (messages st))"

definition no_evidence :: ingress_evidence where
  "no_evidence = \<lparr>ev_turns = [], ev_decisions = [], ev_gaps = [], ev_interactions = [], ev_requests = [], ev_outcomes = []\<rparr>"

text \<open>The loop over the rows; \<open>acts\<close> and \<open>conts\<close> are the maps from activations and control messages to assistants.\<close>

fun read_assistants ::
  "evidence_columns \<Rightarrow> control_store \<Rightarrow> ingress_row \<Rightarrow> task_row \<Rightarrow> (string \<Rightarrow> string option) \<Rightarrow> (string \<Rightarrow> string option)
   \<Rightarrow> message_row list \<Rightarrow> evidence_fault + ingress_evidence list" where
  "read_assistants cols st r task acts conts [] = Inr []"
| "read_assistants cols st r task acts conts (m # ms) =
     (if \<not> parse_assistant cols m then Inl IntegrityFault
      else case (msg_activation m, msg_parent m) of
        (JStr aid, JStr par) \<Rightarrow>
          if \<not> assistant_authorised st task m aid acts then Inl IntegrityFault
          else if (case conts par of None \<Rightarrow> False | Some prior \<Rightarrow> prior \<noteq> msg_id m) then Inl IntegrityFault
          else rbind (continuation_of st r m par) (\<lambda>pre.
               rbind (assistant_evidence cols st m aid pre) (\<lambda>e.
               rbind (read_assistants cols st r task (acts(aid := Some (msg_id m))) (conts(par := Some (msg_id m))) ms) (\<lambda>es.
                 Inr (e # es))))
      | _ \<Rightarrow> read_assistants cols st r task acts conts ms)"

definition provider_requests_of :: "control_store \<Rightarrow> string list \<Rightarrow> (string \<times> string) list" where
  "provider_requests_of st mids = filter (\<lambda>(i, m). m \<in> set mids) (provider_requests st)"

definition provider_activity :: "message_row list \<Rightarrow> string \<times> string \<Rightarrow> activity_request" where
  "provider_activity rows p = \<lparr>req_id = fst p,
     req_activation = (case find (\<lambda>m. msg_id m = snd p) rows of
         Some m \<Rightarrow> (case js_string_value (msg_activation m) of Some a \<Rightarrow> a | None \<Rightarrow> []) | None \<Rightarrow> []),
     req_message = snd p, req_idempotency = QueryRequired\<rparr>"

definition join_evidence :: "ingress_evidence list \<Rightarrow> ingress_evidence" where
  "join_evidence es = \<lparr>ev_turns = concat (map ev_turns es), ev_decisions = concat (map ev_decisions es),
     ev_gaps = concat (map ev_gaps es), ev_interactions = concat (map ev_interactions es),
     ev_requests = concat (map ev_requests es), ev_outcomes = concat (map ev_outcomes es)\<rparr>"

section \<open>Interactions\<close>

text \<open>The Sessions whose interactions a Task's reader looks at: its root Session and the children.\<close>

definition root_tree :: "control_store \<Rightarrow> string \<Rightarrow> string list" where
  "root_tree st tid =
     (let root = (case find_task (st_tasks st) tid of None \<Rightarrow> [] | Some t \<Rightarrow> (case row_session t of None \<Rightarrow> [] | Some s \<Rightarrow> s))
      in map ses_id (filter (\<lambda>x. ses_parent x = Some root \<or> ses_id x = root) (sessions st)))"

definition reads_request :: "control_store \<Rightarrow> string \<Rightarrow> interaction_request \<Rightarrow> bool" where
  "reads_request st tid r \<longleftrightarrow> ir_task r = Some tid
     \<or> (ir_task r = None \<and> (case ir_session r of None \<Rightarrow> False | Some s \<Rightarrow> s \<in> set (root_tree st tid)))"

fun json_path :: "json option \<Rightarrow> string list \<Rightarrow> json option" where
  "json_path v [] = v"
| "json_path None (k # ks) = None"
| "json_path (Some j) (k # ks) = json_path (json_field j k) ks"

definition interaction_of :: "string \<Rightarrow> string list \<Rightarrow> interaction_view \<Rightarrow> interaction list" where
  "interaction_of iid mids v =
     (let p = Some (iv_payload v);
          mid = (if json_text (json_path p [''activity_reconciliation'', ''ingress_id'']) = Some iid
                 then json_text (json_path p [''activity_reconciliation'', ''assistant_message_id''])
                 else json_text (json_path p [''tool'', ''messageID'']))
      in case truthy_text mid of None \<Rightarrow> [] | Some m \<Rightarrow>
         if m \<notin> set mids then []
         else [\<lparr>int_id = iv_id v, int_ingress = iid, int_message = m, int_outcome = iv_status v,
                int_resume = (let t = json_number (json_path p [''expiry'', ''timeExpires''])
                              in if is_safe_integer t then Some (js_number t) else None),
                int_request = truthy_text (json_text (json_path p [''activity_reconciliation'', ''request_id'']))\<rparr>])"

definition interaction_facts ::
  "control_store \<Rightarrow> interaction_tables \<Rightarrow> ingress_row \<Rightarrow> string list \<Rightarrow> evidence_fault + interaction list" where
  "interaction_facts st its r mids =
     (case rtraverse (project_interaction st its) (filter (reads_request st (ing_task r)) (int_requests its)) of
        Inl e \<Rightarrow> Inl PlainFault
      | Inr vs \<Rightarrow> Inr (concat (map (interaction_of (ing_id r) mids) vs)))"

definition reconciled_outcomes :: "interaction list \<Rightarrow> activity_outcome list" where
  "reconciled_outcomes is = concat (map (\<lambda>i. case int_request i of
       Some rid \<Rightarrow> if int_outcome i = Some Answered
                   then [\<lparr>out_id = int_id i, out_request = rid, out_result = ReconciledUnknown\<rparr>] else []
     | None \<Rightarrow> []) is)"

section \<open>The reader\<close>

definition collect_evidence ::
  "evidence_columns \<Rightarrow> interaction_tables \<Rightarrow> control_store \<Rightarrow> ingress_row \<Rightarrow> evidence_fault + ingress_evidence" where
  "collect_evidence cols its st r =
     (if ingress_lease_ids st (ing_id r) = [] then Inr no_evidence
      else let rows = assistant_rows cols st (ing_id r); mids = map msg_id rows
           in case find_task (st_tasks st) (ing_task r) of
                None \<Rightarrow> Inl IntegrityFault
              | Some task \<Rightarrow>
                  if truthy_text (row_session task) = None then Inl IntegrityFault
                  else rbind (read_assistants cols st r task Map.empty Map.empty rows) (\<lambda>es.
                       rbind (interaction_facts st its r mids) (\<lambda>is.
                         let e = join_evidence es; ps = provider_requests_of st mids
                         in Inr (e\<lparr>ev_interactions := is,
                              ev_requests := ev_requests e @ map (provider_activity rows) ps,
                              ev_outcomes := ev_outcomes e
                                @ map (\<lambda>p. outcome_fact (provider_outcome cols (fst p)) (fst p))
                                    (filter (\<lambda>p. fst p \<in> set (provider_outcomes st)) ps)
                                @ reconciled_outcomes is\<rparr>))))"

definition read_evidence :: "evidence_columns \<Rightarrow> interaction_tables \<Rightarrow> evidence_reader" where
  "read_evidence cols its st r =
     (case collect_evidence cols its st r of
        Inr e \<Rightarrow> Inr (Some e)
      | Inl IntegrityFault \<Rightarrow> Inr None
      | Inl PlainFault \<Rightarrow> Inl EvidenceReaderFailed)"

definition predecessor_for :: "(string \<Rightarrow> string \<Rightarrow> int) \<Rightarrow> projection \<Rightarrow> string \<Rightarrow> ingress_evidence \<Rightarrow> string" where
  "predecessor_for lc p iid e =
     (if p \<noteq> Ready then iid
      else case sort_by (cmp_or (cmp_key_desc turn_completed) (\<lambda>a b. lc (turn_id b) (turn_id a))) (ev_turns e) of
        [] \<Rightarrow> iid | t # _ \<Rightarrow> turn_id t)"

section \<open>Reconciliation of unknown activities\<close>

definition reconciliation_external :: "string \<Rightarrow> string" where
  "reconciliation_external rid = ''task-root-activity-reconciliation-v1:'' @ rid"

datatype reconcile_error =
    NoRootSession
  | AmbiguousStorage
  | AskFailure interaction_error

text \<open>The question an unknown activity asks; the texts for the operator are in \<open>ask_title\<close>, \<open>ask_body\<close> and \<open>questions\<close>.\<close>

definition reconciliation_question ::
  "(string \<Rightarrow> string \<times> string \<times> json) \<Rightarrow> string \<Rightarrow> string \<Rightarrow> string \<Rightarrow> string \<Rightarrow> string \<Rightarrow> int \<Rightarrow> ask_input" where
  "reconciliation_question texts tid sid iid rid mid now =
     (case texts rid of (title, body, questions) \<Rightarrow>
        \<lparr>ask_task = tid, ask_session = sid, ask_external = reconciliation_external rid, ask_type = ''question'',
         ask_title = title, ask_body = body,
         ask_payload = JsonObj [(''activity_reconciliation'', JsonObj [(''ingress_id'', JsonStr iid),
             (''request_id'', JsonStr rid), (''assistant_message_id'', JsonStr mid)]), (''questions'', questions)],
         ask_source = ''task-control.activity-reconciliation'', ask_created = now, ask_origin = None\<rparr>)"

definition activity_message :: "control_store \<Rightarrow> string \<Rightarrow> reconcile_error + string" where
  "activity_message st rid =
     (case (map_option treq_message (find (\<lambda>t. treq_id t = rid) (tool_requests st)),
            map_option snd (find (\<lambda>p. fst p = rid) (provider_requests st))) of
        (Some m, None) \<Rightarrow> Inr m
      | (None, Some m) \<Rightarrow> Inr m
      | _ \<Rightarrow> Inl AmbiguousStorage)"

text \<open>\<open>ids\<close> gives the new identities: of the interaction and of its event.\<close>

fun ensure_reconciliation ::
  "(string \<Rightarrow> string \<times> string \<times> json) \<Rightarrow> (string \<Rightarrow> string \<times> string) \<Rightarrow> string \<Rightarrow> string \<Rightarrow> string \<Rightarrow> int
   \<Rightarrow> control_store \<times> interaction_tables \<Rightarrow> string list \<Rightarrow> reconcile_error + (control_store \<times> interaction_tables) \<times> nat" where
  "ensure_reconciliation texts ids tid sid iid now w [] = Inr (w, 0)"
| "ensure_reconciliation texts ids tid sid iid now w (rid # rids) =
     (if Some (reconciliation_external rid) \<in> set (map ir_external (int_requests (snd w)))
      then ensure_reconciliation texts ids tid sid iid now w rids
      else rbind (activity_message (fst w) rid) (\<lambda>mid.
        case insert_interaction w (reconciliation_question texts tid sid iid rid mid now) (fst (ids rid)) now (snd (ids rid)) of
          Inl e \<Rightarrow> Inl (AskFailure e)
        | Inr (w', _) \<Rightarrow> rbind (ensure_reconciliation texts ids tid sid iid now w' rids) (\<lambda>(w'', n). Inr (w'', Suc n))))"

definition ensure_activity_reconciliation ::
  "(string \<Rightarrow> string \<times> string \<times> json) \<Rightarrow> (string \<Rightarrow> string \<times> string) \<Rightarrow> string \<Rightarrow> string \<Rightarrow> int
   \<Rightarrow> control_store \<times> interaction_tables \<Rightarrow> string list \<Rightarrow> reconcile_error + (control_store \<times> interaction_tables) \<times> nat" where
  "ensure_activity_reconciliation texts ids tid iid now w rids =
     (case truthy_text (Option.bind (find_task (st_tasks (fst w)) tid) row_session) of
        None \<Rightarrow> Inl NoRootSession
      | Some sid \<Rightarrow> ensure_reconciliation texts ids tid sid iid now w rids)"


end
