(* ===== verification/EvidenceProps.thy ===== *)
theory EvidenceProps
  imports Evidence
begin

text \<open>
  What the evidence of an ingress guarantees to the reducer, and how reading, reducing and
  recording fit together.
\<close>

section \<open>Evidence is anchored in the activations of its ingress\<close>

lemma set_message_tools: "set (message_tools cols st mid) = {t \<in> set (tool_requests st). treq_message t = mid}"
  by (simp add: message_tools_def)

lemma tool_decision_fields:
  assumes "tool_decision cols st t = Inr ds" "d \<in> set ds"
  shows "decision_id d = treq_id t \<and> decision_message d = treq_message t \<and> decision_command d = treq_tool t
    \<and> is_decision_tool (treq_tool t) \<and> tool_completed cols st t"
  using assms by (auto simp: tool_decision_def rbind_Inr_iff split: if_splits)

lemma assistant_evidence_shape:
  assumes "assistant_evidence cols st m aid pre = Inr e"
  obtains ds where "rtraverse (tool_decision cols st) (message_tools cols st (msg_id m)) = Inr ds"
    "e = \<lparr>ev_turns = turn_of cols st m aid pre (message_tools cols st (msg_id m)), ev_decisions = concat ds,
          ev_gaps = step_gaps cols aid (msg_id m), ev_interactions = [],
          ev_requests = map (tool_activity aid) (message_tools cols st (msg_id m)),
          ev_outcomes = map (\<lambda>t. outcome_fact (tool_outcome cols (treq_id t)) (treq_id t))
            (filter (tool_settled st) (message_tools cols st (msg_id m)))\<rparr>"
  using assms by (auto simp: assistant_evidence_def Let_def rbind_Inr_iff split: if_splits)

lemma assistant_evidence_fields:
  assumes "assistant_evidence cols st m aid pre = Inr e"
  shows "t \<in> set (ev_turns e) \<Longrightarrow> turn_activation t = aid \<and> turn_id t = msg_id m \<and> turn_predecessor t = pre"
    "g \<in> set (ev_gaps e) \<Longrightarrow> gap_activation g = aid \<and> gap_message g = msg_id m"
    "q \<in> set (ev_requests e) \<Longrightarrow> req_activation q = aid \<and> req_message q = msg_id m"
    "d \<in> set (ev_decisions e) \<Longrightarrow> decision_message d = msg_id m \<and> is_decision_tool (decision_command d)
       \<and> (\<exists>t \<in> set (tool_requests st). treq_id t = decision_id d \<and> treq_message t = msg_id m)"
    "ev_interactions e = []"
proof -
  from assms obtain ds where ds: "rtraverse (tool_decision cols st) (message_tools cols st (msg_id m)) = Inr ds"
    and e: "e = \<lparr>ev_turns = turn_of cols st m aid pre (message_tools cols st (msg_id m)), ev_decisions = concat ds,
          ev_gaps = step_gaps cols aid (msg_id m), ev_interactions = [],
          ev_requests = map (tool_activity aid) (message_tools cols st (msg_id m)),
          ev_outcomes = map (\<lambda>t. outcome_fact (tool_outcome cols (treq_id t)) (treq_id t))
            (filter (tool_settled st) (message_tools cols st (msg_id m)))\<rparr>"
    by (rule assistant_evidence_shape)
  show "t \<in> set (ev_turns e) \<Longrightarrow> turn_activation t = aid \<and> turn_id t = msg_id m \<and> turn_predecessor t = pre"
    by (simp add: e turn_of_def split: if_splits)
  show "g \<in> set (ev_gaps e) \<Longrightarrow> gap_activation g = aid \<and> gap_message g = msg_id m"
    by (auto simp: e step_gaps_def)
  show "q \<in> set (ev_requests e) \<Longrightarrow> req_activation q = aid \<and> req_message q = msg_id m"
    by (auto simp: e tool_activity_def set_message_tools)
  show "ev_interactions e = []" by (simp add: e)
  assume "d \<in> set (ev_decisions e)"
  then obtain l where l: "l \<in> set ds" "d \<in> set l" by (auto simp: e)
  from rtraverse_Inr_back [OF ds l(1)] obtain t where "t \<in> set (message_tools cols st (msg_id m))" "tool_decision cols st t = Inr l" by blast
  with tool_decision_fields [OF this(2) l(2)]
  show "decision_message d = msg_id m \<and> is_decision_tool (decision_command d)
       \<and> (\<exists>t \<in> set (tool_requests st). treq_id t = decision_id d \<and> treq_message t = msg_id m)"
    by (auto simp: set_message_tools)
qed

text \<open>One pass of the loop, and what it says about every assistant.\<close>

lemma read_assistants_step:
  assumes "read_assistants cols st r task acts conts (m # ms) = Inr es" "msg_activation m = JStr aid"
  obtains par pre e es' where "msg_parent m = JStr par" "assistant_authorised st task m aid acts"
    "conts par = None \<or> conts par = Some (msg_id m)" "parse_assistant cols m"
    "continuation_of st r m par = Inr pre" "assistant_evidence cols st m aid pre = Inr e"
    "read_assistants cols st r task (acts(aid := Some (msg_id m))) (conts(par := Some (msg_id m))) ms = Inr es'" "es = e # es'"
proof -
  from assms have parse: "parse_assistant cols m" by (auto split: if_splits)
  then obtain par where par: "msg_parent m = JStr par" by (cases "msg_parent m") (auto simp: parse_assistant_def)
  from assms par parse show thesis
    by (auto simp: rbind_Inr_iff split: if_splits option.splits intro!: that)
qed

lemma read_assistants_evidence:
  assumes "read_assistants cols st r task acts conts ms = Inr es" "\<forall>m \<in> set ms. \<exists>a. msg_activation m = JStr a"
  shows "list_all2 (\<lambda>m e. \<exists>aid par pre. msg_activation m = JStr aid \<and> msg_parent m = JStr par \<and> parse_assistant cols m
             \<and> continuation_of st r m par = Inr pre \<and> assistant_evidence cols st m aid pre = Inr e) ms es"
  using assms
proof (induction ms arbitrary: acts conts es)
  case (Cons m ms)
  from Cons.prems(2) obtain aid where aid: "msg_activation m = JStr aid" by auto
  from read_assistants_step [OF Cons.prems(1) aid] obtain par pre e es' where s: "msg_parent m = JStr par" "parse_assistant cols m"
    "continuation_of st r m par = Inr pre" "assistant_evidence cols st m aid pre = Inr e"
    "read_assistants cols st r task (acts(aid := Some (msg_id m))) (conts(par := Some (msg_id m))) ms = Inr es'" "es = e # es'"
    by metis
  with aid Cons.IH [OF s(5)] Cons.prems(2) show ?case by simp
qed simp

text \<open>An entry of the map of activations is the only assistant of its activation.\<close>

lemma read_assistants_single:
  assumes "read_assistants cols st r task acts conts ms = Inr es" "acts aid = Some i"
    and "m \<in> set ms" "msg_activation m = JStr aid"
  shows "msg_id m = i"
  using assms
proof (induction ms arbitrary: acts conts es)
  case (Cons n ms)
  show ?case
  proof (cases "msg_activation n")
    case (JStr a)
    from read_assistants_step [OF Cons.prems(1) this] obtain par es' where s: "assistant_authorised st task n a acts"
      "read_assistants cols st r task (acts(a := Some (msg_id n))) (conts(par := Some (msg_id n))) ms = Inr es'" by metis
    have a: "a = aid \<Longrightarrow> msg_id n = i" using s(1) Cons.prems(2) by (auto simp: assistant_authorised_def split: option.splits)
    show ?thesis
    proof (cases "m = n")
      case True
      then show ?thesis using a JStr Cons.prems(4) by simp
    next
      case False
      then have "m \<in> set ms" using Cons.prems(3) by simp
      moreover have "(acts(a := Some (msg_id n))) aid = Some i" using a Cons.prems(2) by simp
      ultimately show ?thesis using Cons.IH [OF s(2)] Cons.prems(4) by blast
    qed
  qed (use Cons.IH [of acts conts es] Cons.prems in \<open>(simp split: if_splits; metis js_value.distinct)+\<close>)
qed simp

lemma read_assistants_unique:
  assumes "read_assistants cols st r task acts conts ms = Inr es"
    and "m \<in> set ms" "n \<in> set ms" "msg_activation m = JStr aid" "msg_activation n = JStr aid"
  shows "msg_id m = msg_id n"
  using assms
proof (induction ms arbitrary: acts conts es)
  case (Cons k ms)
  show ?case
  proof (cases "msg_activation k")
    case (JStr a)
    from read_assistants_step [OF Cons.prems(1) this] obtain par es' where
      s: "read_assistants cols st r task (acts(a := Some (msg_id k))) (conts(par := Some (msg_id k))) ms = Inr es'" by metis
    have k: "msg_id x = msg_id k" if "x \<in> set ms" "msg_activation x = JStr a" for x
      using read_assistants_single [OF s _ that] by simp
    show ?thesis
    proof (cases "m = k \<or> n = k")
      case True
      then have "a = aid" using JStr Cons.prems(4,5) by auto
      then show ?thesis using True Cons.prems(2-5) k by (metis set_ConsD)
    next
      case False
      then show ?thesis using Cons.IH [OF s] Cons.prems(2-5) by simp
    qed
  qed (use Cons.IH [of acts conts es] Cons.prems in \<open>(simp split: if_splits; metis js_value.distinct)+\<close>)
qed simp

text \<open>The evidence of all assistants of an ingress.\<close>

definition anchored :: "evidence_columns \<Rightarrow> control_store \<Rightarrow> ingress_row \<Rightarrow> message_row \<Rightarrow> ingress_evidence \<Rightarrow> bool" where
  "anchored cols st r m e \<longleftrightarrow> (\<exists>aid par pre. msg_activation m = JStr aid \<and> msg_parent m = JStr par \<and> parse_assistant cols m
     \<and> continuation_of st r m par = Inr pre \<and> assistant_evidence cols st m aid pre = Inr e)"

lemma assistant_rows_mem: "m \<in> set (assistant_rows cols st iid) \<longleftrightarrow>
    m \<in> set (messages st) \<and> (\<exists>a \<in> set (ingress_lease_ids st iid). msg_activation m = JStr a)"
  by (auto simp: assistant_rows_def split: js_value.splits)

lemma collect_evidence_shape:
  assumes "collect_evidence cols its st r = Inr e"
  obtains "e = no_evidence" "ingress_lease_ids st (ing_id r) = []"
  | task es ins where "ingress_lease_ids st (ing_id r) \<noteq> []" "find_task (st_tasks st) (ing_task r) = Some task"
      "read_assistants cols st r task Map.empty Map.empty (assistant_rows cols st (ing_id r)) = Inr es"
      "interaction_facts st its r (map msg_id (assistant_rows cols st (ing_id r))) = Inr ins"
      "ev_turns e = concat (map ev_turns es)" "ev_decisions e = concat (map ev_decisions es)"
      "ev_gaps e = concat (map ev_gaps es)" "ev_interactions e = ins"
      "ev_requests e = concat (map ev_requests es) @ map (provider_activity (assistant_rows cols st (ing_id r)))
         (provider_requests_of st (map msg_id (assistant_rows cols st (ing_id r))))"
      "ev_outcomes e = concat (map ev_outcomes es)
         @ map (\<lambda>p. outcome_fact (provider_outcome cols (fst p)) (fst p)) (filter (\<lambda>p. fst p \<in> set (provider_outcomes st))
             (provider_requests_of st (map msg_id (assistant_rows cols st (ing_id r)))))
         @ reconciled_outcomes ins"
      "list_all2 (anchored cols st r) (assistant_rows cols st (ing_id r)) es"
proof (cases "ingress_lease_ids st (ing_id r) = []")
  case True
  then show ?thesis using assms that(1) by (simp add: collect_evidence_def)
next
  case False
  then obtain task es ins where *: "find_task (st_tasks st) (ing_task r) = Some task"
      "read_assistants cols st r task Map.empty Map.empty (assistant_rows cols st (ing_id r)) = Inr es"
      "interaction_facts st its r (map msg_id (assistant_rows cols st (ing_id r))) = Inr ins"
    and e: "e = (join_evidence es)\<lparr>ev_interactions := ins,
        ev_requests := ev_requests (join_evidence es) @ map (provider_activity (assistant_rows cols st (ing_id r)))
          (provider_requests_of st (map msg_id (assistant_rows cols st (ing_id r)))),
        ev_outcomes := ev_outcomes (join_evidence es)
          @ map (\<lambda>p. outcome_fact (provider_outcome cols (fst p)) (fst p)) (filter (\<lambda>p. fst p \<in> set (provider_outcomes st))
             (provider_requests_of st (map msg_id (assistant_rows cols st (ing_id r)))))
         @ reconciled_outcomes ins\<rparr>"
    using assms by (auto simp: collect_evidence_def Let_def rbind_Inr_iff split: option.splits if_splits)
  have "list_all2 (anchored cols st r) (assistant_rows cols st (ing_id r)) es"
    using read_assistants_evidence [OF *(2)] assistant_rows_mem unfolding anchored_def by blast
  then show ?thesis using that(2) [OF False *] by (simp add: e join_evidence_def)
qed

lemma anchored_pieces:
  assumes "list_all2 (anchored cols st r) ms es" "e \<in> set es"
  obtains m where "m \<in> set ms" "anchored cols st r m e"
proof -
  from assms obtain i where "i < length es" "es ! i = e" "i < length ms" "anchored cols st r (ms ! i) (es ! i)"
    by (auto simp: list_all2_conv_all_nth in_set_conv_nth)
  then show thesis using that [of "ms ! i"] by auto
qed

lemma evidence_anchored:
  assumes "collect_evidence cols its st r = Inr e"
  shows "t \<in> set (ev_turns e) \<Longrightarrow> turn_activation t \<in> set (ingress_lease_ids st (ing_id r))"
    "t \<in> set (ev_turns e) \<Longrightarrow> t' \<in> set (ev_turns e) \<Longrightarrow> turn_activation t = turn_activation t' \<Longrightarrow> turn_id t = turn_id t'"
    "d \<in> set (ev_decisions e) \<Longrightarrow> is_decision_tool (decision_command d)
       \<and> (\<exists>m \<in> set (assistant_rows cols st (ing_id r)). msg_id m = decision_message d)
       \<and> (\<exists>q \<in> set (tool_requests st). treq_id q = decision_id d \<and> treq_message q = decision_message d)"
proof -
  let ?rows = "assistant_rows cols st (ing_id r)"
  have turn: "\<exists>m \<in> set ?rows. msg_activation m = JStr (turn_activation t) \<and> msg_id m = turn_id t" if t: "t \<in> set (ev_turns e)" for t
  proof (cases rule: collect_evidence_shape [OF assms])
    case 1
    then show ?thesis using t by (simp add: no_evidence_def)
  next
    case (2 task es ins)
    then obtain p where p: "p \<in> set es" "t \<in> set (ev_turns p)" using t by auto
    from anchored_pieces [OF 2(11) p(1)] obtain m where m: "m \<in> set ?rows" "anchored cols st r m p" .
    then show ?thesis using assistant_evidence_fields(1) [OF _ p(2)] unfolding anchored_def by (intro bexI [OF _ m(1)]) auto
  qed
  show "t \<in> set (ev_turns e) \<Longrightarrow> turn_activation t \<in> set (ingress_lease_ids st (ing_id r))"
    by (metis turn assistant_rows_mem js_value.inject(3))
  show "d \<in> set (ev_decisions e) \<Longrightarrow> is_decision_tool (decision_command d)
       \<and> (\<exists>m \<in> set ?rows. msg_id m = decision_message d)
       \<and> (\<exists>q \<in> set (tool_requests st). treq_id q = decision_id d \<and> treq_message q = decision_message d)"
  proof (cases rule: collect_evidence_shape [OF assms])
    case (2 task es ins)
    assume "d \<in> set (ev_decisions e)"
    then obtain p where p: "p \<in> set es" "d \<in> set (ev_decisions p)" using 2 by auto
    from anchored_pieces [OF 2(11) p(1)] obtain m where m: "m \<in> set ?rows" "anchored cols st r m p" .
    then show ?thesis using assistant_evidence_fields(4) [OF _ p(2)] unfolding anchored_def by auto
  qed (simp add: no_evidence_def)
  show "t \<in> set (ev_turns e) \<Longrightarrow> t' \<in> set (ev_turns e) \<Longrightarrow> turn_activation t = turn_activation t' \<Longrightarrow> turn_id t = turn_id t'"
  proof (cases rule: collect_evidence_shape [OF assms])
    case (2 task es ins)
    assume *: "t \<in> set (ev_turns e)" "t' \<in> set (ev_turns e)" "turn_activation t = turn_activation t'"
    from turn [OF *(1)] turn [OF *(2)] read_assistants_unique [OF 2(3)] *(3) show ?thesis by metis
  qed (simp add: no_evidence_def)
qed


section \<open>Which host faults real evidence can show\<close>

lemma distinct_key_filter:
  assumes "distinct (map f xs)"
  shows "length (filter (\<lambda>x. f x = k) xs) \<le> 1"
  using assms
proof (induction xs)
  case (Cons a xs)
  have "filter (\<lambda>x. f x = k) xs = []" if "f a = k"
    using Cons.prems that by (metis (mono_tags, lifting) distinct.simps(2) filter_False image_eqI list.simps(9) set_map)
  with Cons show ?case by simp
qed simp

text \<open>Keys that every assistant takes from its own tool requests are distinct over all assistants.\<close>

lemma tool_keys_distinct:
  assumes "list_all2 (anchored cols st r) ms es" "distinct (map msg_id ms)" "distinct (map treq_id (tool_requests st))"
    and own: "\<And>m e. anchored cols st r m e \<Longrightarrow> distinct (k e) \<and> set (k e) \<subseteq> treq_id ` {t \<in> set (tool_requests st). treq_message t = msg_id m}"
  shows "distinct (concat (map k es))
    \<and> set (concat (map k es)) \<subseteq> treq_id ` {t \<in> set (tool_requests st). treq_message t \<in> msg_id ` set ms}"
  using assms(1,2)
proof (induction rule: list_all2_induct)
  case (Cons m ms e es)
  let ?rest = "concat (map k es)"
  let ?mine = "treq_id ` {t \<in> set (tool_requests st). treq_message t = msg_id m}"
  let ?theirs = "treq_id ` {t \<in> set (tool_requests st). treq_message t \<in> msg_id ` set ms}"
  let ?ids = "treq_id ` {t \<in> set (tool_requests st). treq_message t \<in> msg_id ` set (m # ms)}"
  have o': "distinct (k e)" "set (k e) \<subseteq> ?mine" using own [OF Cons(1)] by simp_all
  have IH: "distinct ?rest" "set ?rest \<subseteq> ?theirs" using Cons(3) Cons(4) by simp_all
  have "inj_on treq_id (set (tool_requests st))" using assms(3) by (simp add: distinct_map)
  moreover have "msg_id m \<notin> msg_id ` set ms" using Cons(4) by simp
  ultimately have "False" if "s \<in> set (tool_requests st)" "treq_message s = msg_id m" "t \<in> set (tool_requests st)"
      "treq_message t \<in> msg_id ` set ms" "treq_id s = treq_id t" for s t
    using that inj_onD [of treq_id "set (tool_requests st)" s t] by simp
  then have "?mine \<inter> ?theirs = {}" by blast
  with Int_mono [OF o'(2) IH(2)] have "set (k e) \<inter> set ?rest = {}" by (simp only: subset_empty)
  then have "distinct (k e @ ?rest)" using o'(1) IH(1) by (simp only: distinct_append)
  moreover have "?mine \<subseteq> ?ids" "?theirs \<subseteq> ?ids" by (intro image_mono; auto)+
  then have "set (k e @ ?rest) \<subseteq> ?ids" using order_trans [OF o'(2)] order_trans [OF IH(2)] by (simp only: set_append Un_subset_iff)
  ultimately show ?case by (simp only: list.map(2) concat.simps)
qed simp

lemma distinct_message_tools: "distinct (map treq_id (tool_requests st)) \<Longrightarrow> distinct (map treq_id (message_tools cols st mid))"
  by (simp add: message_tools_def distinct_map inj_on_subset [of treq_id "set (tool_requests st)"] subset_iff)

lemma tool_outcomes_distinct:
  assumes "list_all2 (anchored cols st r) ms es" "distinct (map msg_id ms)" "distinct (map treq_id (tool_requests st))"
  shows "distinct (map out_request (concat (map ev_outcomes es)))
    \<and> set (map out_request (concat (map ev_outcomes es))) \<subseteq> treq_id ` {t \<in> set (tool_requests st). treq_message t \<in> msg_id ` set ms}"
proof -
  have "map out_request (ev_outcomes e) = map treq_id (filter (tool_settled st) (message_tools cols st (msg_id m)))"
    if "anchored cols st r m e" for m e
    using that by (auto simp: anchored_def outcome_fact_def elim!: assistant_evidence_shape)
  then have "distinct (map out_request (ev_outcomes e)) \<and>
      set (map out_request (ev_outcomes e)) \<subseteq> treq_id ` {t \<in> set (tool_requests st). treq_message t = msg_id m}"
    if "anchored cols st r m e" for m e
    using that distinct_message_tools [OF assms(3)] by (auto simp: set_message_tools intro: distinct_map_filter)
  from tool_keys_distinct [of cols st r ms es "\<lambda>e. map out_request (ev_outcomes e)", OF assms this]
  show ?thesis by (simp only: map_concat map_map comp_def)
qed

lemma decisions_of_tools:
  assumes "rtraverse (tool_decision cols st) ts = Inr ds" "distinct (map treq_id ts)"
  shows "distinct (map decision_id (concat ds)) \<and> set (map decision_id (concat ds)) \<subseteq> treq_id ` set ts"
  using assms
proof (induction ts arbitrary: ds)
  case (Cons t ts)
  then obtain d ds' where d: "tool_decision cols st t = Inr d" "rtraverse (tool_decision cols st) ts = Inr ds'" "ds = d # ds'"
    by (auto simp: rbind_Inr_iff)
  then have "map decision_id d = [] \<or> map decision_id d = [treq_id t]" by (auto simp: tool_decision_def rbind_Inr_iff split: if_splits)
  moreover have "map decision_id (concat ds) = map decision_id d @ map decision_id (concat ds')" by (simp add: d(3))
  moreover have "distinct (map decision_id (concat ds'))" "set (map decision_id (concat ds')) \<subseteq> treq_id ` set ts" "treq_id t \<notin> treq_id ` set ts"
    using Cons.IH [OF d(2)] Cons.prems(2) by simp_all
  ultimately show ?case by (elim disjE) (auto simp del: map_concat set_map concat.simps)
qed simp

lemma decisions_distinct:
  assumes "list_all2 (anchored cols st r) ms es" "distinct (map msg_id ms)" "distinct (map treq_id (tool_requests st))"
  shows "distinct (map decision_id (concat (map ev_decisions es)))"
proof -
  have "distinct (map decision_id (ev_decisions e)) \<and>
      set (map decision_id (ev_decisions e)) \<subseteq> treq_id ` {t \<in> set (tool_requests st). treq_message t = msg_id m}"
    if "anchored cols st r m e" for m e
    using that decisions_of_tools distinct_message_tools [OF assms(3)]
    by (fastforce simp: anchored_def set_message_tools elim!: assistant_evidence_shape)
  from conjunct1 [OF tool_keys_distinct [of cols st r ms es "\<lambda>e. map decision_id (ev_decisions e)", OF assms this]]
  show ?thesis by (simp only: map_concat map_map comp_def)
qed

lemma reconciled_none: "(\<forall>i \<in> set is. int_request i = None \<or> int_outcome i \<noteq> Some Answered) \<Longrightarrow> reconciled_outcomes is = []"
  by (auto simp: reconciled_outcomes_def split: option.splits)

definition canonical_storage :: "control_store \<Rightarrow> bool" where
  "canonical_storage st \<longleftrightarrow> distinct (map msg_id (messages st)) \<and> distinct (map treq_id (tool_requests st) @ map fst (provider_requests st))"

lemma evidence_outcomes_unique:
  assumes "collect_evidence cols its st r = Inr e" "canonical_storage st"
    and "\<forall>i \<in> set (ev_interactions e). int_request i = None \<or> int_outcome i \<noteq> Some Answered"
  shows "length (filter (\<lambda>oc. out_request oc = rid) (ev_outcomes e)) \<le> 1"
proof (cases rule: collect_evidence_shape [OF assms(1)])
  case (2 task es ins)
  let ?rows = "assistant_rows cols st (ing_id r)"
  let ?ps = "filter (\<lambda>p. fst p \<in> set (provider_outcomes st)) (provider_requests_of st (map msg_id ?rows))"
  have rows: "distinct (map msg_id ?rows)"
    using assms(2) by (simp add: canonical_storage_def assistant_rows_def distinct_map inj_on_subset [of msg_id "set (messages st)"] subset_iff)
  have treq: "distinct (map treq_id (tool_requests st))" using assms(2) by (simp add: canonical_storage_def)
  note tools = tool_outcomes_distinct [OF 2(11) rows treq]
  have ps: "map out_request (map (\<lambda>p. outcome_fact (provider_outcome cols (fst p)) (fst p)) ?ps) = map fst ?ps"
    by (simp add: outcome_fact_def)
  have "distinct (map fst ?ps)"
    using assms(2) by (auto simp: canonical_storage_def provider_requests_of_def distinct_map intro: inj_on_subset)
  moreover have apart: "set (map fst ?ps) \<inter> treq_id ` set (tool_requests st) = {}"
    using assms(2) by (auto simp: canonical_storage_def provider_requests_of_def)
  have "set (map out_request (concat (map ev_outcomes es))) \<subseteq> treq_id ` set (tool_requests st)" using tools by blast
  then have "set (map out_request (concat (map ev_outcomes es))) \<inter> set (map fst ?ps) = {}" using apart by blast
  moreover have "reconciled_outcomes ins = []" using assms(3) 2(8) by (intro reconciled_none) simp
  then have "map out_request (ev_outcomes e) = map out_request (concat (map ev_outcomes es)) @ map fst ?ps"
    unfolding 2(10) map_append ps by simp
  ultimately have "distinct (map out_request (ev_outcomes e))" using conjunct1 [OF tools] by (simp only: distinct_append)
  then show ?thesis by (rule distinct_key_filter)
qed (simp add: no_evidence_def)

lemma read_facts_evidence:
  assumes "read_ingress_facts (read_evidence cols its) st iid = Inr facts" "\<not> integrity_violation facts"
  obtains r e where "find_ingress st iid = Some r" "collect_evidence cols its st r = Inr e"
    "turns facts = ev_turns e" "decisions facts = ev_decisions e" "activity_requests facts = ev_requests e"
    "activity_outcomes facts = ev_outcomes e" "interactions facts = ev_interactions e" "decision_gaps facts = ev_gaps e"
    "policy_id (policy facts) = ingress_policy_id (ingress facts)" "act_leases facts = ingress_leases st iid"
    "ingress_id (ingress facts) = iid" "ing_id r = iid"
proof -
  from assms(1) obtain r where r: "find_ingress st iid = Some r" by (auto simp: read_ingress_facts_def split: option.splits)
  from assms(1) r obtain p where p: "find_policy st (ing_policy r) = Some p" by (auto simp: read_ingress_facts_def split: option.splits)
  from assms(1) r p obtain found where found: "read_evidence cols its st r = Inr found" by (auto simp: read_ingress_facts_def rbind_Inr_iff)
  from assms r p found obtain e where "found = Some e" by (cases found) (auto simp: read_ingress_facts_def rbind_Inr_iff Let_def)
  then have e: "collect_evidence cols its st r = Inr e" using found
    by (auto simp: read_evidence_def split: sum.splits evidence_fault.splits)
  have ids: "ing_id r = iid" "pol_id p = ing_policy r" using find_ingress_mem [OF r] find_policy_mem [OF p] by simp_all
  from assms(1) r p found \<open>found = Some e\<close>
  show thesis by (intro that [OF r e]) (auto simp: read_ingress_facts_def rbind_Inr_iff Let_def ids)
qed

lemma lease_ids_of: "al_id ` set (ingress_leases st iid) = set (ingress_lease_ids st iid)"
  by (auto simp: ingress_leases_def ingress_lease_ids_def image_image)


text \<open>
  C21: the reader cannot make the reducer blame the Host. Facts read with the evidence of the
  session tables never show a turn without its activation and never a drifted policy, and as
  long as no unknown activity has been acknowledged, no activity has two outcomes. The host
  faults that remain are broken message chains and contradicting decisions.
\<close>

theorem evidence_rules_out_host_faults:
  assumes "read_ingress_facts (read_evidence cols its) st iid = Inr facts"
  shows "host_fault lc facts \<noteq> Some TurnWithoutActivation \<and> host_fault lc facts \<noteq> Some PolicyDrift
    \<and> (canonical_storage st \<and> (\<forall>i \<in> set (interactions facts). int_request i = None \<or> int_outcome i \<noteq> Some Answered)
        \<longrightarrow> host_fault lc facts \<noteq> Some OutcomeAmbiguous)"
proof (cases "integrity_violation facts")
  case True
  with assms have "turns facts = []" "decisions facts = []" "activity_outcomes facts = []" "policy_id (policy facts) = ingress_policy_id (ingress facts)"
    by (auto simp: read_ingress_facts_def rbind_Inr_iff Let_def empty_evidence_def split: option.splits dest!: find_policy_mem)
  then show ?thesis by (simp add: host_fault_def completed_decisions_def)
next
  case False
  from read_facts_evidence [OF assms False] obtain r e where e: "collect_evidence cols its st r = Inr e"
    "turns facts = ev_turns e" "activity_outcomes facts = ev_outcomes e" "interactions facts = ev_interactions e"
    "policy_id (policy facts) = ingress_policy_id (ingress facts)" "act_leases facts = ingress_leases st iid" "ing_id r = iid"
    by metis
  have "\<exists>l \<in> set (act_leases facts). al_id l = turn_activation t" if "t \<in> set (turns facts)" for t
  proof -
    have "turn_activation t \<in> al_id ` set (ingress_leases st iid)"
      using evidence_anchored(1) [OF e(1)] that by (simp add: e lease_ids_of)
    then show ?thesis by (auto simp: e(6))
  qed
  then have "\<not> list_ex (\<lambda>t. \<not> list_ex (\<lambda>l. al_id l = turn_activation t) (act_leases facts)) (turns facts)"
    by (simp add: list_ex_iff)
  moreover have "\<not> list_ex (\<lambda>oc. length (outcomes_of facts (out_request oc)) > 1) (activity_outcomes facts)"
    if "canonical_storage st" "\<forall>i \<in> set (interactions facts). int_request i = None \<or> int_outcome i \<noteq> Some Answered"
    using evidence_outcomes_unique [OF e(1) that(1)] that(2)
    by (simp add: list_ex_iff outcomes_of_def e(3,4) linorder_not_less)
  ultimately show ?thesis using e(5) by (auto simp: host_fault_def)
qed

end
