(* ===== verification/DispositionTrigger.thy ===== *)
theory DispositionTrigger
  imports Evidence
begin

text \<open>
  What the database asks of a disposition before it stores it: the trigger
  \<open>engine_task_root_ingress_disposition_insert\<close> of \<open>storage/ddl.ts\<close>. It reads the tables again and
  refuses a disposition whose release is not proved by exact evidence. The payload it checks is the
  record \<open>disposition_payload\<close>, so its counts of members are the presence of the decision occurrence.
\<close>

section \<open>The tools that decide\<close>

text \<open>
  The predicate on a tool request, which the trigger spells out twice. A member that is absent or
  null makes \<open>NOT IN\<close> undefined, so the request does not count.
\<close>

definition no_goal_change :: "json \<Rightarrow> bool" where
  "no_goal_change inp \<longleftrightarrow>
     (case json_field inp ''action'' of None \<Rightarrow> False | Some JsonNull \<Rightarrow> False
      | Some v \<Rightarrow> json_text (Some v) \<notin> {Some ''add_goal'', Some ''modify_goal'', Some ''delete_goal''})
     \<and> json_field inp ''goal'' = None \<and> json_field inp ''goalID'' = None \<and> json_field inp ''updates'' = None"

definition tool_releases :: "evidence_columns \<Rightarrow> tool_request_row \<Rightarrow> bool" where
  "tool_releases cols t \<longleftrightarrow>
     (let inp = tool_input cols (treq_id t)
      in treq_tool t \<in> {''dispatch_agent'', ''dispatch_agents'', ''no_action'', ''wait''}
         \<or> treq_tool t = ''manage_task'' \<and> no_goal_change inp
         \<or> treq_tool t = ''respond_agent_coordination''
           \<and> json_text (json_field inp ''decision'') \<in> {Some ''cancel_worker'', Some ''fail_task'', Some ''acknowledge_terminal''})"

definition tool_malformed :: "evidence_columns \<Rightarrow> tool_request_row \<Rightarrow> bool" where
  "tool_malformed cols t \<longleftrightarrow>
     (let inp = tool_input cols (treq_id t)
      in treq_tool t = ''respond_agent_coordination''
         \<and> (\<not> is_json_object inp
            \<or> (case json_text (json_field inp ''decision'') of None \<Rightarrow> True | Some d \<Rightarrow> d \<notin> set coordination_decisions)))"

section \<open>A resolved ingress\<close>

definition occurrence_shape :: "decision_occurrence \<Rightarrow> bool" where
  "occurrence_shape oc \<longleftrightarrow> length (occ_predecessor oc) = 24 \<and> canonical_predecessor (occ_predecessor oc)"

definition session_of_task :: "control_store \<Rightarrow> string \<Rightarrow> string \<Rightarrow> bool" where
  "session_of_task st tid sid \<longleftrightarrow>
     (case find_task (st_tasks st) tid of None \<Rightarrow> False | Some task \<Rightarrow>
        list_ex (\<lambda>s. ses_id s = sid \<and> row_session task \<noteq> None \<and> ses_parent s = row_session task
                   \<and> ses_project s = row_project task \<and> ses_kind s = ''orchestrator'') (sessions st))"

definition control_proves :: "evidence_columns \<Rightarrow> control_store \<Rightarrow> string \<Rightarrow> decision_occurrence \<Rightarrow> message_row \<Rightarrow> bool" where
  "control_proves cols st iid oc a \<longleftrightarrow>
     list_ex (\<lambda>c. msg_id c = occ_control oc \<and> msg_parent a = JStr (msg_id c) \<and> msg_session c = msg_session a
        \<and> msg_id c = ''msg_task-root-control_'' @ iid @ ''_'' @ occ_predecessor oc
        \<and> msg_role c = ''user'' \<and> msg_author c = Some ''orchestrator'' \<and> user_agent cols (msg_id c) = ''orchestrator''
        \<and> msg_control_ingress c = JStr iid \<and> msg_control_predecessor c = JStr (occ_predecessor oc)) (messages st)"

definition lease_of_ingress :: "control_store \<Rightarrow> string \<Rightarrow> string \<Rightarrow> bool" where
  "lease_of_ingress st iid aid \<longleftrightarrow>
     list_ex (\<lambda>l. lease_id l = aid \<and> lease_target l = TargetTaskRootIngress \<and> lease_target_id l = iid) (leases (st_leases st))"

definition assistant_proves ::
  "evidence_columns \<Rightarrow> control_store \<Rightarrow> string \<Rightarrow> string \<Rightarrow> decision_occurrence \<Rightarrow> bool" where
  "assistant_proves cols st tid iid oc \<longleftrightarrow>
     list_ex (\<lambda>a. msg_id a = occ_assistant oc \<and> msg_role a = ''assistant'' \<and> msg_author a = Some ''orchestrator''
        \<and> msg_activation a = JStr (occ_activation oc) \<and> msg_completed a \<and> session_of_task st tid (msg_session a)
        \<and> lease_of_ingress st iid (occ_activation oc) \<and> control_proves cols st iid oc a) (messages st)"

definition request_proves :: "evidence_columns \<Rightarrow> control_store \<Rightarrow> decision_occurrence \<Rightarrow> string \<Rightarrow> bool" where
  "request_proves cols st oc rid \<longleftrightarrow>
     list_ex (\<lambda>t. treq_id t = rid \<and> treq_message t = occ_assistant oc \<and> tool_completed cols st t \<and> tool_releases cols t)
       (tool_requests st)"

text \<open>Another assistant of the same activation, or of the same control message under this ingress.\<close>

definition conflicting_assistant :: "control_store \<Rightarrow> string \<Rightarrow> decision_occurrence \<Rightarrow> message_row \<Rightarrow> bool" where
  "conflicting_assistant st iid oc m \<longleftrightarrow> msg_id m \<noteq> occ_assistant oc \<and> msg_role m = ''assistant''
     \<and> (msg_activation m = JStr (occ_activation oc)
        \<or> Some (msg_session m) = map_option msg_session (find_message st (occ_assistant oc))
          \<and> (case msg_activation m of JStr a \<Rightarrow> lease_of_ingress st iid a | _ \<Rightarrow> False)
          \<and> msg_parent m = JStr (occ_control oc))"

definition requests_named :: "control_store \<Rightarrow> string list \<Rightarrow> tool_request_row list" where
  "requests_named st ids = filter (\<lambda>t. treq_id t \<in> set ids) (tool_requests st)"

definition resolved_admitted ::
  "evidence_columns \<Rightarrow> control_store \<Rightarrow> string \<Rightarrow> string \<Rightarrow> string list \<Rightarrow> decision_occurrence \<Rightarrow> bool" where
  "resolved_admitted cols st tid iid ids oc \<longleftrightarrow>
     occurrence_shape oc \<and> distinct ids
     \<and> assistant_proves cols st tid iid oc \<and> list_all (request_proves cols st oc) ids
     \<and> (length ids = 1 \<or> list_all (\<lambda>t. treq_tool t = ''dispatch_agent'') (requests_named st ids))
     \<and> length (remdups (map treq_message (requests_named st ids))) = 1
     \<and> list_all (\<lambda>m. \<not> conflicting_assistant st iid oc m) (messages st)
     \<and> list_all (\<lambda>t. \<not> (treq_message t = occ_assistant oc \<and> tool_completed cols st t \<and> tool_malformed cols t)) (tool_requests st)
     \<and> list_all (\<lambda>t. \<not> (Some (treq_message t) = map_option treq_message (head_option (requests_named st ids))
          \<and> tool_completed cols st t \<and> tool_releases cols t \<and> treq_id t \<notin> set ids)) (tool_requests st)"

section \<open>The other releases\<close>

definition lifecycle_proves :: "control_store \<Rightarrow> string \<Rightarrow> ingress_row \<Rightarrow> string \<Rightarrow> bool" where
  "lifecycle_proves st tid r eid \<longleftrightarrow>
     list_ex (\<lambda>e. event_id e = eid \<and> aggregate e = AggTask \<and> aggregate_id e = tid
        \<and> (event_kind e \<in> {TaskCancelled, TaskCompleted, TaskFailed} \<and> payload_epoch e = JInt (ing_epoch r) \<and> ing_accepted r \<le> emitted_at e
           \<or> event_kind e = TaskExecutionReopened \<and> (case payload_epoch e of JInt n \<Rightarrow> ing_epoch r < n | _ \<Rightarrow> False)
           \<or> event_kind e = TaskDeleted \<and> ing_accepted r \<le> emitted_at e)) (event_log (st_tasks st))"

definition gate_proves :: "control_store \<Rightarrow> string \<Rightarrow> string \<Rightarrow> string \<Rightarrow> string \<Rightarrow> bool" where
  "gate_proves st tid iid state gid \<longleftrightarrow>
     list_ex (\<lambda>a. art_id a = gid \<and> art_task a = tid
        \<and> (case art_payload a of GateArtifact i s reason \<Rightarrow> i = iid \<and> s = state | _ \<Rightarrow> False)) (artifacts st)"

definition release_proved :: "evidence_columns \<Rightarrow> control_store \<Rightarrow> disposition_payload \<Rightarrow> ingress_row \<Rightarrow> bool" where
  "release_proved cols st d r =
     (case (dp_kind d, dp_occurrence d, dp_evidence d) of
        (DispResolved, Some oc, ids) \<Rightarrow> resolved_admitted cols st (dp_task d) (dp_ingress d) ids oc
      | (DispTerminalInapplicable, None, [i]) \<Rightarrow> lifecycle_proves st (dp_task d) r i
      | (DispExhausted, None, [i]) \<Rightarrow> gate_proves st (dp_task d) (dp_ingress d) ''exhausted'' i
      | (DispOperatorAbandoned, None, [i]) \<Rightarrow> gate_proves st (dp_task d) (dp_ingress d) ''host_fault'' i
      | _ \<Rightarrow> False)"

definition safe_positive :: "int \<Rightarrow> bool" where
  "safe_positive n \<longleftrightarrow> 1 \<le> n \<and> n \<le> max_safe_integer"

definition disposition_admitted :: "evidence_columns \<Rightarrow> control_store \<Rightarrow> disposition_payload \<Rightarrow> bool" where
  "disposition_admitted cols st d \<longleftrightarrow>
     canonical_ingress_id (dp_ingress d) \<and> safe_positive (dp_epoch d) \<and> safe_positive (dp_created d)
     \<and> dp_evidence d \<noteq> [] \<and> list_all (\<lambda>i. i \<noteq> []) (dp_evidence d)
     \<and> (case find_ingress st (dp_ingress d) of None \<Rightarrow> False | Some r \<Rightarrow>
          ing_task r = dp_task d \<and> ing_epoch r = dp_epoch d \<and> release_proved cols st d r)"

end
