(* ===== verification/Absorption.thy ===== *)
theory Absorption
  imports DispositionTrigger
begin

text \<open>
  How an ingress that can go no further leaves the queue of its Task
  (\<open>recordAbsorbingTaskRootIngressDisposition\<close> and its helpers in
  \<open>engine/task-root-ingress-delivery.ts\<close>): the verdict of the reducer is read again in the
  transaction, named by exact evidence, and recorded as an immutable disposition.
\<close>

section \<open>Exact evidence\<close>

datatype absorb_error =
    StoreFailure store_error
  | DispositionRaced
  | InexactDecisions
  | NoLifecycleEvidence string
  | GateDrift

text \<open>The one assistant that took all decisions, and its control message.\<close>

definition decision_assistant :: "control_store \<Rightarrow> string list \<Rightarrow> message_row option" where
  "decision_assistant st ids =
     (let rs = filter (\<lambda>t. treq_id t \<in> set ids) (tool_requests st)
      in if length rs \<noteq> length ids then None
         else case remdups (map treq_message rs) of [mid] \<Rightarrow> find_message st mid | _ \<Rightarrow> None)"

definition control_message :: "evidence_columns \<Rightarrow> control_store \<Rightarrow> string \<Rightarrow> message_row \<Rightarrow> (string \<times> string) option" where
  "control_message cols st iid m =
     (case js_string_value (msg_parent m) of None \<Rightarrow> None | Some par \<Rightarrow>
      case find_message st par of None \<Rightarrow> None | Some pm \<Rightarrow>
        if msg_session pm \<noteq> msg_session m \<or> \<not> user_valid cols par \<or> msg_role pm \<noteq> ''user''
           \<or> msg_author pm \<noteq> Some ''orchestrator'' \<or> user_agent cols par \<noteq> ''orchestrator''
           \<or> msg_control_ingress pm \<noteq> JStr iid then None
        else case msg_control_predecessor pm of
          JStr pre \<Rightarrow> if control_occurrence iid pre = Inr par then Some (par, pre) else None
        | _ \<Rightarrow> None)"

definition exact_decision_occurrence ::
  "evidence_columns \<Rightarrow> control_store \<Rightarrow> string \<Rightarrow> string list \<Rightarrow> absorb_error + decision_occurrence" where
  "exact_decision_occurrence cols st iid ids =
     (case decision_assistant st ids of None \<Rightarrow> Inl InexactDecisions | Some m \<Rightarrow>
        if \<not> parse_assistant cols m \<or> msg_author m \<noteq> Some ''orchestrator'' then Inl InexactDecisions
        else case (js_string_value (msg_activation m), control_message cols st iid m) of
          (Some aid, Some (par, pre)) \<Rightarrow>
            Inr \<lparr>occ_assistant = msg_id m, occ_control = par, occ_predecessor = pre, occ_activation = aid\<rparr>
        | _ \<Rightarrow> Inl InexactDecisions)"

definition lifecycle_witnesses :: "boundary \<Rightarrow> int \<Rightarrow> int \<Rightarrow> lifecycle_fact \<Rightarrow> bool" where
  "lifecycle_witnesses b ep accepted f =
     (case b of
        BDeleted \<Rightarrow> lf_kind f = LDeleted \<and> lf_time f \<ge> accepted
      | BReopened \<Rightarrow> (lf_kind f = LOpened \<or> lf_kind f = LReopened) \<and> lf_epoch f > ep
      | BCancelled \<Rightarrow> lf_epoch f = ep \<and> lf_time f \<ge> accepted \<and> lf_kind f = LCancelled
      | BClosed \<Rightarrow> lf_epoch f = ep \<and> lf_time f \<ge> accepted \<and> lf_kind f = LClosed)"

definition lifecycle_disposition_evidence :: "boundary \<Rightarrow> ingress_facts \<Rightarrow> lifecycle_fact option" where
  "lifecycle_disposition_evidence b facts =
     head_option (sort_by (cmp_or (cmp_key lf_sequence) (\<lambda>x y. text_cmp (lf_id x) (lf_id y)))
       (filter (lifecycle_witnesses b (execution_epoch (ingress facts)) (time_accepted (ingress facts))) (lifecycle_facts facts)))"

section \<open>The operator gate\<close>

definition reason_text :: "projection \<Rightarrow> string \<times> string" where
  "reason_text p =
     (case p of
        HostFault r \<Rightarrow> (''host_fault'', case r of EvidenceViolation \<Rightarrow> ''evidence_violation'' | PolicyDrift \<Rightarrow> ''policy_drift''
          | DecisionAmbiguous \<Rightarrow> ''decision_ambiguous'' | OutcomeAmbiguous \<Rightarrow> ''outcome_ambiguous''
          | TurnWithoutActivation \<Rightarrow> ''turn_without_activation'' | InteractionAmbiguous \<Rightarrow> ''interaction_ambiguous'')
      | Exhausted r \<Rightarrow> (''exhausted'', case r of SemanticLimit \<Rightarrow> ''semantic_limit''
          | ActivationLimitReached \<Rightarrow> ''activation_limit'' | DeadlinePassed \<Rightarrow> ''deadline'')
      | _ \<Rightarrow> ([], []))"

text \<open>
  \<open>gate\<close> is the deterministic identity of a gate (a hash of the ingress, the state and the
  reason). Its payload is made of the same three texts and constants.
\<close>

definition gate_payload :: "string \<Rightarrow> projection \<Rightarrow> artifact_payload" where
  "gate_payload iid p = GateArtifact iid (fst (reason_text p)) (snd (reason_text p))"

text \<open>A new gate announces the artifact and the failure it stands for; an equal gate is reused.\<close>

definition record_gate ::
  "control_store \<Rightarrow> string \<Rightarrow> string \<Rightarrow> artifact_payload \<Rightarrow> event_stamp \<times> event_stamp \<Rightarrow> absorb_error + control_store" where
  "record_gate st gid tid payload stamps =
     (case find_artifact st gid of
        None \<Rightarrow>
          (case rbind (insert_artifact st \<lparr>art_id = gid, art_task = tid, art_payload = payload\<rparr> (fst stamps)) (\<lambda>st'.
                  append_store_event st' ''task.infrastructure.failed'' tid ''host'' (Some gid) (snd stamps)) of
             Inl e \<Rightarrow> Inl (StoreFailure e) | Inr st' \<Rightarrow> Inr st')
      | Some a \<Rightarrow> if art_task a = tid \<and> art_payload a = payload then Inr st else Inl GateDrift)"

section \<open>Recording\<close>

datatype absorbing = AbsorbResolved | AbsorbTerminal | AbsorbExhausted | AbsorbHostFault

fun absorbing_of :: "projection \<Rightarrow> absorbing option" where
  "absorbing_of (Resolved _) = Some AbsorbResolved"
| "absorbing_of (TerminalInapplicable _) = Some AbsorbTerminal"
| "absorbing_of (Exhausted _) = Some AbsorbExhausted"
| "absorbing_of (HostFault _) = Some AbsorbHostFault"
| "absorbing_of _ = None"

text \<open>The evidence of a verdict, which a gate may have to record first, and the decision occurrence.\<close>

definition absorbing_evidence ::
  "(string \<Rightarrow> string \<Rightarrow> string \<Rightarrow> string) \<Rightarrow> evidence_columns \<Rightarrow> control_store \<Rightarrow> string \<Rightarrow> string \<Rightarrow> ingress_facts \<Rightarrow> projection
   \<Rightarrow> event_stamp \<times> event_stamp \<Rightarrow> absorb_error + control_store \<times> string list \<times> decision_occurrence option" where
  "absorbing_evidence gate cols st tid iid facts p stamps =
     (case p of
        Resolved ids \<Rightarrow> rbind (exact_decision_occurrence cols st iid ids) (\<lambda>oc. Inr (st, ids, Some oc))
      | TerminalInapplicable b \<Rightarrow>
          (case lifecycle_disposition_evidence b facts of
             None \<Rightarrow> Inl (NoLifecycleEvidence iid) | Some f \<Rightarrow> Inr (st, [lf_id f], None))
      | _ \<Rightarrow> (let gid = gate iid (fst (reason_text p)) (snd (reason_text p))
              in rbind (record_gate st gid tid (gate_payload iid p) stamps) (\<lambda>st'. Inr (st', [gid], None))))"

definition disposition_kind_of :: "absorbing \<Rightarrow> disposition_kind" where
  "disposition_kind_of a = (case a of AbsorbResolved \<Rightarrow> DispResolved | AbsorbTerminal \<Rightarrow> DispTerminalInapplicable
     | AbsorbExhausted \<Rightarrow> DispExhausted | AbsorbHostFault \<Rightarrow> DispOperatorAbandoned)"

definition record_absorbing ::
  "store_env \<Rightarrow> (string \<Rightarrow> string \<Rightarrow> int) \<Rightarrow> (string \<Rightarrow> string \<Rightarrow> string \<Rightarrow> string) \<Rightarrow> evidence_columns \<Rightarrow> interaction_tables
   \<Rightarrow> control_store \<Rightarrow> string \<Rightarrow> string \<Rightarrow> absorbing \<Rightarrow> int
   \<Rightarrow> event_stamp \<times> event_stamp \<times> event_stamp \<Rightarrow> absorb_error + control_store" where
  "record_absorbing env lc gate cols its st tid iid expected now stamps =
     (case read_ingress_facts (read_evidence cols its) st iid of
        Inl e \<Rightarrow> Inl (StoreFailure e)
      | Inr facts \<Rightarrow>
          let current = reduce_ingress lc facts now
          in if absorbing_of current \<noteq> Some expected then Inl DispositionRaced
             else rbind (absorbing_evidence gate cols st tid iid facts current (snd stamps)) (\<lambda>(st1, ev, oc).
               case record_disposition env (disposition_admitted cols) st1 \<lparr>dp_task = tid, dp_ingress = iid,
                      dp_epoch = execution_epoch (ingress facts), dp_kind = disposition_kind_of expected,
                      dp_evidence = ev, dp_occurrence = oc, dp_created = now\<rparr> (fst stamps) of
                 Inl e \<Rightarrow> Inl (StoreFailure e)
               | Inr (st2, _) \<Rightarrow> Inr st2))"

text \<open>\<open>surfaceOperatorGatedTaskRootIngress\<close>: a failure is logged and answered with \<open>false\<close>.\<close>

definition surface_operator_gated ::
  "store_env \<Rightarrow> (string \<Rightarrow> string \<Rightarrow> int) \<Rightarrow> (string \<Rightarrow> string \<Rightarrow> string \<Rightarrow> string) \<Rightarrow> evidence_columns \<Rightarrow> interaction_tables
   \<Rightarrow> control_store \<Rightarrow> string \<Rightarrow> string \<Rightarrow> projection \<Rightarrow> int
   \<Rightarrow> event_stamp \<times> event_stamp \<times> event_stamp \<Rightarrow> control_store \<times> bool" where
  "surface_operator_gated env lc gate cols its st tid iid p now stamps =
     (case absorbing_of p of
        Some AbsorbExhausted \<Rightarrow> (case record_absorbing env lc gate cols its st tid iid AbsorbExhausted now stamps of
            Inr st' \<Rightarrow> (st', True) | Inl _ \<Rightarrow> (st, False))
      | Some AbsorbHostFault \<Rightarrow> (case record_absorbing env lc gate cols its st tid iid AbsorbHostFault now stamps of
            Inr st' \<Rightarrow> (st', True) | Inl _ \<Rightarrow> (st, False))
      | _ \<Rightarrow> (st, False))"

end
