(* ===== verification/ReleaseProps.thy ===== *)
theory ReleaseProps
  imports EvidenceProps Absorption
begin

text \<open>
  The evidence that the code names for a resolved ingress is the evidence that the database asks for:
  what \<open>readTaskRootIngressEvidence\<close> accepts and \<open>exactTaskRootDecisionOccurrenceInTransaction\<close>
  finds passes the trigger on dispositions.
\<close>

section \<open>Decisions in the eyes of the reader and of the trigger\<close>

text \<open>
  The trigger wants to see the action of every \<open>manage_task\<close> call, which the reader does not.
\<close>

definition actions_named :: "evidence_columns \<Rightarrow> control_store \<Rightarrow> bool" where
  "actions_named cols st \<longleftrightarrow> (\<forall>t \<in> set (tool_requests st). treq_tool t = ''manage_task'' \<longrightarrow>
     json_field (tool_input cols (treq_id t)) ''action'' \<notin> {None, Some JsonNull})"

definition free_decision :: "string \<Rightarrow> bool" where
  "free_decision t \<longleftrightarrow> t \<in> {''dispatch_agent'', ''dispatch_agents'', ''no_action'', ''wait''}"

lemma decision_tools:
  "is_decision_tool t \<longleftrightarrow> free_decision t \<or> t = ''question'' \<or> t = ''manage_task'' \<or> t = ''respond_agent_coordination''"
  unfolding is_decision_tool_def decision_tool_names_def free_decision_def list.set insert_iff empty_iff by argo

lemma free_decision_effect: "free_decision t \<Longrightarrow> completion_effect_of t inp \<in> {Inr SatisfiesEpoch, Inr InspectDispatch}"
  by (auto simp: free_decision_def completion_effect_of_def)

lemma manage_effect: "completion_effect_of ''manage_task'' inp =
    (if json_text (json_field inp ''action'') \<in> {Some ''add_goal'', Some ''modify_goal'', Some ''delete_goal''}
        \<or> json_field inp ''goal'' \<noteq> None \<or> json_field inp ''goalID'' \<noteq> None \<or> json_field inp ''updates'' \<noteq> None
     then Inr RequiresFollowup else Inr SatisfiesEpoch)"
  by (simp add: completion_effect_of_def)

lemma coordination_effect: "completion_effect_of ''respond_agent_coordination'' inp =
    (if \<not> is_json_object inp then Inl PlainFault
     else case json_text (json_field inp ''decision'') of None \<Rightarrow> Inl PlainFault
       | Some d \<Rightarrow> if d \<notin> set coordination_decisions then Inl PlainFault
                   else Inr (if d = ''redispatch'' \<or> d = ''ask_user'' then RequiresFollowup else SatisfiesEpoch))"
  by (simp add: completion_effect_of_def)

lemma tool_releases_cases:
  "free_decision (treq_tool t) \<Longrightarrow> tool_releases cols t"
  "treq_tool t = ''manage_task'' \<Longrightarrow> tool_releases cols t = no_goal_change (tool_input cols (treq_id t))"
  "treq_tool t = ''respond_agent_coordination'' \<Longrightarrow> tool_releases cols t \<longleftrightarrow>
     json_text (json_field (tool_input cols (treq_id t)) ''decision'') \<in> {Some ''cancel_worker'', Some ''fail_task'', Some ''acknowledge_terminal''}"
  "treq_tool t = ''question'' \<Longrightarrow> \<not> tool_releases cols t"
  by (simp_all add: tool_releases_def free_decision_def Let_def)

lemma no_goal_change_effect:
  "json_field inp ''action'' \<notin> {None, Some JsonNull} \<Longrightarrow>
     no_goal_change inp = (completion_effect_of ''manage_task'' inp = Inr SatisfiesEpoch)"
  unfolding no_goal_change_def manage_effect by (auto split: option.split json.split)

lemma coordination_satisfies:
  "completion_effect_of ''respond_agent_coordination'' inp = Inr SatisfiesEpoch \<longleftrightarrow> is_json_object inp
     \<and> json_text (json_field inp ''decision'') \<in> {Some ''cancel_worker'', Some ''fail_task'', Some ''acknowledge_terminal''}"
proof (cases "json_text (json_field inp ''decision'')")
  case None
  then show ?thesis unfolding coordination_effect by simp
next
  case (Some d)
  have parts: "d \<in> set coordination_decisions \<longleftrightarrow> d = ''redispatch'' \<or> d = ''ask_user''
      \<or> d \<in> {''cancel_worker'', ''fail_task'', ''acknowledge_terminal''}"
    unfolding coordination_decisions_def list.set insert_iff empty_iff by argo
  then consider "d = ''redispatch''" | "d = ''ask_user''" | "d \<in> {''cancel_worker'', ''fail_task'', ''acknowledge_terminal''}"
    | "d \<notin> set coordination_decisions" by argo
  then show ?thesis
  proof cases
    case 3
    then have "d \<noteq> ''redispatch''" "d \<noteq> ''ask_user''" by (elim insertE emptyE; simp)+
    moreover from 3 parts have "d \<in> set coordination_decisions" by argo
    ultimately have "d \<in> set coordination_decisions" "d \<noteq> ''redispatch''" "d \<noteq> ''ask_user''" by argo+
    with 3 Some show ?thesis unfolding coordination_effect Some by simp
  next
    case 4
    with parts have "d \<notin> {''cancel_worker'', ''fail_task'', ''acknowledge_terminal''}" by argo
    with 4 show ?thesis unfolding coordination_effect Some by simp
  qed (simp_all add: coordination_effect Some)
qed

lemma json_field_object: "json_field inp k \<noteq> None \<Longrightarrow> is_json_object inp"
  by (cases inp) simp_all

text \<open>A completed request the reader counts as a decision passes the trigger, and the other way round.\<close>

lemma decides_iff:
  assumes "tool_decision cols st t = Inr ds" "tool_completed cols st t" "actions_named cols st" "t \<in> set (tool_requests st)"
  shows "ds \<noteq> [] \<longleftrightarrow> tool_releases cols t"
proof (cases "is_decision_tool (treq_tool t)")
  case False
  moreover from False have "\<not> tool_releases cols t"
    unfolding decision_tools tool_releases_def free_decision_def Let_def by argo
  ultimately show ?thesis using assms(1) by (simp add: tool_decision_def)
next
  case True
  let ?inp = "tool_input cols (treq_id t)"
  have ds: "ds \<noteq> [] \<longleftrightarrow> completion_effect_of (treq_tool t) ?inp \<in> {Inr SatisfiesEpoch, Inr InspectDispatch}"
    using assms(1,2) True by (auto simp: tool_decision_def rbind_Inr_iff split: if_splits)
  from True consider "free_decision (treq_tool t)" | "treq_tool t = ''question''" | "treq_tool t = ''manage_task''"
    | "treq_tool t = ''respond_agent_coordination''" unfolding decision_tools by argo
  then show ?thesis
  proof cases
    case 1
    show ?thesis unfolding ds by (simp only: free_decision_effect [OF 1] tool_releases_cases(1) [OF 1])
  next
    case 2
    then show ?thesis using ds tool_releases_cases(4) [OF 2] by (simp add: completion_effect_of_def)
  next
    case 3
    then have "json_field ?inp ''action'' \<notin> {None, Some JsonNull}" using assms(3,4) by (auto simp: actions_named_def)
    from no_goal_change_effect [OF this] show ?thesis
      unfolding tool_releases_cases(2) [OF 3] ds 3 by (simp add: manage_effect)
  next
    case 4
    have "is_json_object ?inp" if "tool_releases cols t"
    proof (rule json_field_object)
      show "json_field ?inp ''decision'' \<noteq> None"
        using that unfolding tool_releases_cases(3) [OF 4] by (cases "json_field ?inp ''decision''") simp_all
    qed
    moreover have "completion_effect_of ''respond_agent_coordination'' ?inp \<noteq> Inr InspectDispatch"
      unfolding coordination_effect by (simp split: option.split)
    ultimately have "completion_effect_of (treq_tool t) ?inp \<in> {Inr SatisfiesEpoch, Inr InspectDispatch} \<longleftrightarrow> tool_releases cols t"
      using coordination_satisfies [of ?inp] tool_releases_cases(3) [OF 4, of cols] unfolding 4 insert_iff empty_iff by argo
    with ds show ?thesis by argo
  qed
qed

lemma decided_id: "tool_decision cols st t = Inr ds \<Longrightarrow> ds \<noteq> [] \<Longrightarrow> \<exists>d \<in> set ds. decision_id d = treq_id t"
  using tool_decision_fields [of cols st t ds "hd ds"] by (intro bexI [of _ "hd ds"]) simp_all

lemma decided_not_malformed:
  assumes "tool_decision cols st t = Inr ds" "tool_completed cols st t"
  shows "\<not> tool_malformed cols t"
proof (cases "treq_tool t = ''respond_agent_coordination''")
  case True
  have "is_decision_tool ''respond_agent_coordination''" by (simp add: decision_tools)
  with assms True obtain e where e: "completion_effect_of ''respond_agent_coordination'' (tool_input cols (treq_id t)) = Inr e"
    by (auto simp: tool_decision_def rbind_Inr_iff)
  then have obj: "is_json_object (tool_input cols (treq_id t))" unfolding coordination_effect by (simp split: if_splits)
  with e obtain d where d: "json_text (json_field (tool_input cols (treq_id t)) ''decision'') = Some d" "d \<in> set coordination_decisions"
    unfolding coordination_effect by (cases "json_text (json_field (tool_input cols (treq_id t)) ''decision'')") (simp_all split: if_split_asm)
  then show ?thesis using obj by (simp add: tool_malformed_def Let_def)
qed (simp add: tool_malformed_def)

section \<open>The assistants of a readable ingress\<close>

lemma read_assistants_session:
  assumes "read_assistants cols st r task acts conts ms = Inr es" "\<forall>m \<in> set ms. \<exists>a. msg_activation m = JStr a" "m \<in> set ms"
  shows "\<exists>s \<in> set (sessions st). ses_id s = msg_session m \<and> ses_parent s = row_session task
    \<and> ses_project s = row_project task \<and> ses_kind s = ''orchestrator''"
  using assms
proof (induction ms arbitrary: acts conts es)
  case (Cons n ms)
  from Cons.prems(2) obtain a where a: "msg_activation n = JStr a" by auto
  from read_assistants_step [OF Cons.prems(1) a] obtain par es' where s: "assistant_authorised st task n a acts"
    "read_assistants cols st r task (acts(a := Some (msg_id n))) (conts(par := Some (msg_id n))) ms = Inr es'" by metis
  show ?case
  proof (cases "m = n")
    case True
    with s(1) show ?thesis by (auto simp: assistant_authorised_def find_Some_iff split: option.splits)
  next
    case False
    with Cons.IH [OF s(2)] Cons.prems(2,3) show ?thesis by simp
  qed
qed simp

lemma read_assistants_parent:
  assumes "read_assistants cols st r task acts conts ms = Inr es" "\<forall>m \<in> set ms. \<exists>a. msg_activation m = JStr a"
    and "conts par = Some i" "m \<in> set ms" "msg_parent m = JStr par"
  shows "msg_id m = i"
  using assms
proof (induction ms arbitrary: acts conts es)
  case (Cons n ms)
  from Cons.prems(2) obtain a where a: "msg_activation n = JStr a" by auto
  from read_assistants_step [OF Cons.prems(1) a] obtain q es' where s: "msg_parent n = JStr q" "conts q = None \<or> conts q = Some (msg_id n)"
    "read_assistants cols st r task (acts(a := Some (msg_id n))) (conts(q := Some (msg_id n))) ms = Inr es'" by metis
  have q: "q = par \<Longrightarrow> msg_id n = i" using s(2) Cons.prems(3) by auto
  show ?case
  proof (cases "m = n")
    case True
    with q s(1) Cons.prems(5) show ?thesis by simp
  next
    case False
    moreover have "(conts(q := Some (msg_id n))) par = Some i" using q Cons.prems(3) by simp
    ultimately show ?thesis using Cons.IH [OF s(3)] Cons.prems(2,4,5) by simp
  qed
qed simp

lemma read_assistants_parent_unique:
  assumes "read_assistants cols st r task acts conts ms = Inr es" "\<forall>m \<in> set ms. \<exists>a. msg_activation m = JStr a"
    and "m \<in> set ms" "n \<in> set ms" "msg_parent m = JStr par" "msg_parent n = JStr par"
  shows "msg_id m = msg_id n"
  using assms
proof (induction ms arbitrary: acts conts es)
  case (Cons k ms)
  from Cons.prems(2) obtain a where a: "msg_activation k = JStr a" by auto
  from read_assistants_step [OF Cons.prems(1) a] obtain q es' where s: "msg_parent k = JStr q"
    "read_assistants cols st r task (acts(a := Some (msg_id k))) (conts(q := Some (msg_id k))) ms = Inr es'" by metis
  have k: "msg_id x = msg_id k" if "x \<in> set ms" "msg_parent x = JStr q" for x
    using read_assistants_parent [OF s(2) _ _ that] Cons.prems(2) by simp
  show ?case
  proof (cases "m = k \<or> n = k")
    case True
    then have "q = par" using s(1) Cons.prems(5,6) by auto
    then show ?thesis using True Cons.prems(3-6) k by (metis set_ConsD)
  next
    case False
    then show ?thesis using Cons.IH [OF s(2)] Cons.prems(2-6) by simp
  qed
qed simp

lemma turn_completed_row:
  assumes "anchored cols st r m e" "t \<in> set (ev_turns e)"
  shows "turn_id t = msg_id m \<and> msg_completed m"
  using assms by (auto simp: anchored_def turn_of_def elim!: assistant_evidence_shape split: if_splits)

lemma anchored_tools:
  assumes "anchored cols st r m e" "q \<in> set (tool_requests st)" "treq_message q = msg_id m"
  shows "\<exists>ds. tool_decision cols st q = Inr ds \<and> set ds \<subseteq> set (ev_decisions e)"
proof -
  from assms(1) obtain aid pre where "assistant_evidence cols st m aid pre = Inr e" by (auto simp: anchored_def)
  then obtain ds where ds: "rtraverse (tool_decision cols st) (message_tools cols st (msg_id m)) = Inr ds" and e: "ev_decisions e = concat ds"
    by (rule assistant_evidence_shape) simp
  have "q \<in> set (message_tools cols st (msg_id m))" using assms(2,3) by (simp add: set_message_tools)
  with rtraverse_Inr_mem [OF ds this] show ?thesis by (auto simp: e)
qed

section \<open>A resolved ingress can be recorded\<close>

lemma resolved_decisions:
  assumes "reduce_ingress lc facts now = Resolved ids"
  obtains ds mid where "valid_decision_set lc facts = Some ds" "ids = map decision_id ds" "ds \<noteq> []"
    "set ds = set (completed_decisions facts)" "distinct (completed_decisions facts) \<longrightarrow> distinct ds" "\<forall>d \<in> set ds. decision_message d = mid" "mid \<in> set (map turn_id (turns facts))"
    "\<not> integrity_violation facts" "length ds > 1 \<longrightarrow> (\<forall>d \<in> set ds. decision_command d = ''dispatch_agent'')"
proof -
  from assms obtain ds where v: "valid_decision_set lc facts = Some ds" and ids: "ids = map decision_id ds" and ni: "\<not> integrity_violation facts"
    by (auto simp: reduce_ingress_def split: option.splits if_splits list.splits simp: budget_projection_def)
  from v have cd: "completed_decisions facts \<noteq> []" "length (remdups (map decision_message (completed_decisions facts))) = 1"
    and ds: "ds = sort_by (\<lambda>a b. lc (decision_id a) (decision_id b)) (completed_decisions facts)"
    by (auto simp: valid_decision_set_def Let_def split: if_splits)
  from cd(2) obtain mid where mid: "remdups (map decision_message (completed_decisions facts)) = [mid]"
    by (metis length_0_conv length_Suc_conv One_nat_def)
  have agents: "length ds > 1 \<Longrightarrow> \<forall>d \<in> set ds. decision_command d = ''dispatch_agent''"
    using v by (auto simp: valid_decision_set_def Let_def list_ex_iff ds length_sort_by split: if_splits)
  from mid have all: "\<forall>d \<in> set (completed_decisions facts). decision_message d = mid" by (metis image_eqI list.set(1) list.set(2) set_map set_remdups singletonD)
  from cd(1) obtain d where "d \<in> set (completed_decisions facts)" by (cases "completed_decisions facts") auto
  with all have "mid \<in> set (map turn_id (turns facts))" by (auto simp: completed_decisions_def)
  with all cd(1) show thesis using that [OF v ids] ni agents unfolding ds by auto
qed


text \<open>An anchored assistant of the ingress is one that the exact occurrence accepts, but for its authors.\<close>

definition authored_by_orchestrator :: "evidence_columns \<Rightarrow> control_store \<Rightarrow> string \<Rightarrow> bool" where
  "authored_by_orchestrator cols st iid \<longleftrightarrow> (\<forall>m \<in> set (assistant_rows cols st iid). msg_author m = Some ''orchestrator''
     \<and> (case js_string_value (msg_parent m) of None \<Rightarrow> True | Some par \<Rightarrow>
          (case find_message st par of None \<Rightarrow> True | Some pm \<Rightarrow>
             user_valid cols par \<and> msg_role pm = ''user'' \<and> msg_author pm = Some ''orchestrator'' \<and> user_agent cols par = ''orchestrator'')))"

lemma anchored_control:
  assumes "anchored cols st r m e" "m \<in> set (assistant_rows cols st (ing_id r))" "authored_by_orchestrator cols st (ing_id r)"
  obtains par pre aid where "msg_activation m = JStr aid" "control_message cols st (ing_id r) m = Some (par, pre)" "parse_assistant cols m"
    "msg_author m = Some ''orchestrator''"
proof -
  from assms(1) obtain aid par pre where m: "msg_activation m = JStr aid" "msg_parent m = JStr par" "parse_assistant cols m"
    "continuation_of st r m par = Inr pre" by (auto simp: anchored_def)
  from m(4) obtain pm where pm: "find_message st par = Some pm" "msg_session pm = msg_session m" "msg_control_ingress pm = JStr (ing_id r)"
    "msg_control_predecessor pm = JStr pre" "control_occurrence (ing_id r) pre = Inr par"
    by (auto simp: continuation_of_def rbind_Inr_iff split: option.splits if_splits js_value.splits)
  have a: "msg_author m = Some ''orchestrator''" "user_valid cols par" "msg_role pm = ''user''" "msg_author pm = Some ''orchestrator''"
      "user_agent cols par = ''orchestrator''"
    using bspec [OF assms(3) [unfolded authored_by_orchestrator_def] assms(2)] m(2) pm(1) by simp_all
  show thesis
    using that [OF m(1) _ m(3) a(1)] pm a m(2) by (simp add: control_message_def)
qed

lemma remdups_same: "xs \<noteq> [] \<Longrightarrow> (\<And>x. x \<in> set xs \<Longrightarrow> x = a) \<Longrightarrow> remdups xs = [a]"
proof (induction xs)
  case (Cons y ys)
  then show ?case by (cases ys) auto
qed simp

lemma find_message_row:
  assumes "canonical_storage st" "m \<in> set (messages st)"
  shows "find_message st (msg_id m) = Some m"
  using find_key_unique [of msg_id "messages st" m] assms by (simp add: canonical_storage_def find_message_def)

section \<open>The trigger admits what the code names\<close>

lemma decision_request:
  assumes "collect_evidence cols its st r = Inr e" "d \<in> set (ev_decisions e)" "actions_named cols st"
  shows "\<exists>t \<in> set (tool_requests st). treq_id t = decision_id d \<and> treq_message t = decision_message d \<and> treq_tool t = decision_command d
    \<and> tool_completed cols st t \<and> tool_releases cols t"
proof (cases rule: collect_evidence_shape [OF assms(1)])
  case 1
  with assms(2) show ?thesis by (simp add: no_evidence_def)
next
  case (2 task es ins)
  then obtain p where p: "p \<in> set es" "d \<in> set (ev_decisions p)" using assms(2) by auto
  from anchored_pieces [OF 2(11) p(1)] obtain m where "anchored cols st r m p" by blast
  then obtain aid pre where "assistant_evidence cols st m aid pre = Inr p" by (auto simp: anchored_def)
  then obtain ds where ds: "rtraverse (tool_decision cols st) (message_tools cols st (msg_id m)) = Inr ds" and pd: "ev_decisions p = concat ds"
    by (rule assistant_evidence_shape) simp
  from p(2) pd obtain l where l: "l \<in> set ds" "d \<in> set l" by auto
  from rtraverse_Inr_back [OF ds l(1)] obtain t where t: "t \<in> set (tool_requests st)" "tool_decision cols st t = Inr l"
    by (auto simp: set_message_tools)
  from l(2) have "l \<noteq> []" by auto
  with tool_decision_fields [OF t(2) l(2)] decides_iff [OF t(2) _ assms(3) t(1)] t(1) show ?thesis by metis
qed

lemma collected_session:
  assumes "collect_evidence cols its st r = Inr e" "ingress_lease_ids st (ing_id r) \<noteq> []" "find_task (st_tasks st) (ing_task r) = Some task"
  shows "row_session task \<noteq> None"
proof
  assume "row_session task = None"
  with assms show False by (simp add: collect_evidence_def truthy_text_def Let_def)
qed

lemma lease_of_ingress_ids: "lease_of_ingress st iid aid \<longleftrightarrow> aid \<in> set (ingress_lease_ids st iid)"
  by (auto simp: lease_of_ingress_def list_ex_iff ingress_lease_ids_def target_leases_def)

lemma predecessor_length: "canonical_predecessor p \<Longrightarrow> length p = 24"
  by (auto simp: canonical_predecessor_def canonical_suffix_def)

text \<open>One assistant of a readable ingress, and the occurrence of its decisions.\<close>

definition occurrence_of :: "evidence_columns \<Rightarrow> control_store \<Rightarrow> string \<Rightarrow> message_row \<Rightarrow> decision_occurrence \<Rightarrow> bool" where
  "occurrence_of cols st iid m oc \<longleftrightarrow> occ_assistant oc = msg_id m \<and> msg_activation m = JStr (occ_activation oc)
     \<and> msg_parent m = JStr (occ_control oc) \<and> control_message cols st iid m = Some (occ_control oc, occ_predecessor oc)
     \<and> parse_assistant cols m \<and> msg_author m = Some ''orchestrator''"

lemma control_message_proves:
  assumes "occurrence_of cols st iid m oc"
  shows "control_proves cols st iid oc m \<and> occurrence_shape oc"
proof -
  from assms obtain pm where pm: "find_message st (occ_control oc) = Some pm" "msg_session pm = msg_session m" "msg_role pm = ''user''"
    "msg_author pm = Some ''orchestrator''" "user_agent cols (occ_control oc) = ''orchestrator''" "msg_control_ingress pm = JStr iid"
    "msg_control_predecessor pm = JStr (occ_predecessor oc)" "control_occurrence iid (occ_predecessor oc) = Inr (occ_control oc)"
    by (auto simp: occurrence_of_def control_message_def split: option.splits if_splits js_value.splits)
  from pm(1) have "pm \<in> set (messages st)" "msg_id pm = occ_control oc" by (auto simp: find_message_def find_Some_iff)
  moreover from pm(8) have "occ_control oc = ''msg_task-root-control_'' @ iid @ ''_'' @ occ_predecessor oc" "canonical_predecessor (occ_predecessor oc)"
    by (auto simp: control_occurrence_def split: if_splits)
  ultimately show ?thesis
    using pm assms predecessor_length by (auto simp: control_proves_def list_ex_iff occurrence_of_def occurrence_shape_def intro!: bexI [of _ pm])
qed

lemma no_conflict:
  assumes "read_assistants cols st r task Map.empty Map.empty (assistant_rows cols st (ing_id r)) = Inr es"
    and "m \<in> set (assistant_rows cols st (ing_id r))" "occurrence_of cols st (ing_id r) m oc" "x \<in> set (messages st)"
  shows "\<not> conflicting_assistant st (ing_id r) oc x"
proof
  let ?rows = "assistant_rows cols st (ing_id r)"
  assume c: "conflicting_assistant st (ing_id r) oc x"
  have occ: "msg_activation m = JStr (occ_activation oc)" "msg_parent m = JStr (occ_control oc)" "occ_assistant oc = msg_id m"
    using assms(3) by (simp_all add: occurrence_of_def)
  have rows: "\<forall>m \<in> set ?rows. \<exists>a. msg_activation m = JStr a" by (auto simp: assistant_rows_mem)
  have "occ_activation oc \<in> set (ingress_lease_ids st (ing_id r))" using assms(2) occ(1) by (auto simp: assistant_rows_mem)
  with c assms(4) have "x \<in> set ?rows" by (auto simp: assistant_rows_mem conflicting_assistant_def lease_of_ingress_ids split: js_value.splits)
  moreover from c have "msg_id x \<noteq> msg_id m" "msg_activation x = JStr (occ_activation oc) \<or> msg_parent x = JStr (occ_control oc)"
    by (auto simp: conflicting_assistant_def occ(3))
  ultimately show False
    using read_assistants_unique [OF assms(1) _ assms(2) _ occ(1)] read_assistants_parent_unique [OF assms(1) rows _ assms(2) _ occ(2)] by blast
qed

lemma assistant_row_proves:
  assumes e: "collect_evidence cols its st r = Inr e" and m: "m \<in> set (assistant_rows cols st (ing_id r))"
    and oc: "occurrence_of cols st (ing_id r) m oc" and t: "msg_id m \<in> set (map turn_id (ev_turns e))"
    and store: "distinct (map msg_id (messages st))"
  shows "assistant_proves cols st (ing_task r) (ing_id r) oc"
    and "x \<in> set (messages st) \<Longrightarrow> \<not> conflicting_assistant st (ing_id r) oc x"
proof -
  let ?rows = "assistant_rows cols st (ing_id r)"
  have leased: "ingress_lease_ids st (ing_id r) \<noteq> []" using m by (auto simp: assistant_rows_mem)
  obtain task es where ev: "find_task (st_tasks st) (ing_task r) = Some task"
      "read_assistants cols st r task Map.empty Map.empty ?rows = Inr es" "ev_turns e = concat (map ev_turns es)"
      "list_all2 (anchored cols st r) ?rows es"
    using leased by (cases rule: collect_evidence_shape [OF e]) auto
  show "x \<in> set (messages st) \<Longrightarrow> \<not> conflicting_assistant st (ing_id r) oc x" by (rule no_conflict [OF ev(2) m oc])
  have mem: "m \<in> set (messages st)" using m by (simp add: assistant_rows_mem)
  from t ev(3) obtain p u where p: "p \<in> set es" "u \<in> set (ev_turns p)" "turn_id u = msg_id m" by auto
  from anchored_pieces [OF ev(4) p(1)] obtain n where n: "n \<in> set ?rows" "anchored cols st r n p" by blast
  from turn_completed_row [OF n(2) p(2)] p(3) have "msg_id n = msg_id m" "msg_completed n" by simp_all
  moreover have "n \<in> set (messages st)" using n(1) by (simp add: assistant_rows_mem)
  ultimately have ended: "msg_completed m" using store mem by (metis distinct_map inj_onD)
  have rows: "\<forall>m \<in> set ?rows. \<exists>a. msg_activation m = JStr a" by (auto simp: assistant_rows_mem)
  have "session_of_task st (ing_task r) (msg_session m)"
    using read_assistants_session [OF ev(2) rows m] ev(1) collected_session [OF e leased ev(1)]
    by (auto simp: session_of_task_def list_ex_iff)
  moreover have "lease_of_ingress st (ing_id r) (occ_activation oc)"
    using m oc by (auto simp: lease_of_ingress_ids assistant_rows_mem occurrence_of_def)
  moreover have "msg_role m = ''assistant''" using oc by (simp add: occurrence_of_def parse_assistant_def)
  ultimately show "assistant_proves cols st (ing_task r) (ing_id r) oc"
    using oc ended mem control_message_proves [OF oc] by (auto simp: assistant_proves_def list_ex_iff occurrence_of_def intro!: bexI [of _ m])
qed

text \<open>The decisions of one assistant that the reader has accepted pass the checks on requests.\<close>

lemma decisions_admitted:
  assumes e: "collect_evidence cols its st r = Inr e" and store: "canonical_storage st" and act: "actions_named cols st"
    and ds: "ds \<noteq> []" "set ds \<subseteq> set (ev_decisions e)" "\<forall>d \<in> set ds. decision_message d = mid"
    and ids: "set ids = decision_id ` set ds" "distinct ids"
    and agents: "length ids > 1 \<longrightarrow> (\<forall>d \<in> set ds. decision_command d = ''dispatch_agent'')"
    and oc: "occ_assistant oc = mid"
  shows "list_all (request_proves cols st oc) ids"
    and "length ids = 1 \<or> list_all (\<lambda>t. treq_tool t = ''dispatch_agent'') (requests_named st ids)"
    and "length (remdups (map treq_message (requests_named st ids))) = 1" and "head_option (requests_named st ids) \<noteq> None"
    and "t \<in> set (requests_named st ids) \<Longrightarrow> treq_message t = mid"
proof -
  have inj: "inj_on treq_id (set (tool_requests st))" using store by (simp add: canonical_storage_def distinct_map)
  have req: "\<exists>t \<in> set (tool_requests st). treq_id t = decision_id d \<and> treq_message t = mid \<and> treq_tool t = decision_command d
      \<and> tool_completed cols st t \<and> tool_releases cols t" if "d \<in> set ds" for d
    using decision_request [OF e _ act] that ds(2,3) by (metis subsetD)
  have named: "\<exists>d \<in> set ds. treq_id t = decision_id d \<and> treq_message t = mid \<and> treq_tool t = decision_command d"
    if "t \<in> set (requests_named st ids)" for t
  proof -
    from that ids(1) obtain d where d: "d \<in> set ds" "treq_id t = decision_id d" "t \<in> set (tool_requests st)" by (auto simp: requests_named_def)
    with req [OF d(1)] inj show ?thesis by (metis inj_onD)
  qed
  show "list_all (request_proves cols st oc) ids"
    unfolding list_all_iff
  proof
    fix i
    assume "i \<in> set ids"
    then obtain d where d: "d \<in> set ds" "i = decision_id d" using ids(1) by auto
    from req [OF d(1)] show "request_proves cols st oc i" unfolding request_proves_def list_ex_iff oc d(2) by blast
  qed
  have msg: "treq_message t = mid" if "t \<in> set (requests_named st ids)" for t using named [OF that] by blast
  then show "t \<in> set (requests_named st ids) \<Longrightarrow> treq_message t = mid" by blast
  have "length ids \<noteq> 0" using ids(1) ds(1) by auto
  then show "length ids = 1 \<or> list_all (\<lambda>t. treq_tool t = ''dispatch_agent'') (requests_named st ids)"
    using agents named unfolding list_all_iff by (metis One_nat_def Suc_lessI neq0_conv)
  from ds(1) obtain d where "d \<in> set ds" by (cases ds) auto
  with req [OF this] ids(1) have some: "requests_named st ids \<noteq> []" by (auto simp: requests_named_def filter_empty_conv)
  then have "remdups (map treq_message (requests_named st ids)) = [mid]" using msg by (intro remdups_same) auto
  then show "length (remdups (map treq_message (requests_named st ids))) = 1" by simp
  from some show "head_option (requests_named st ids) \<noteq> None" by (cases "requests_named st ids") simp_all
qed

lemma resolved_occurrence:
  assumes read: "read_ingress_facts (read_evidence cols its) st iid = Inr facts" and red: "reduce_ingress lc facts now = Resolved ids"
    and store: "canonical_storage st" and auth: "authored_by_orchestrator cols st iid" and act: "actions_named cols st"
  shows "\<exists>oc. exact_decision_occurrence cols st iid ids = Inr oc
    \<and> (\<forall>ids'. set ids' = set ids \<and> distinct ids' \<longrightarrow> resolved_admitted cols st (ingress_task (ingress facts)) iid ids' oc)"
proof -
  obtain ds mid where "valid_decision_set lc facts = Some ds" and ds: "ids = map decision_id ds" "ds \<noteq> []"
    "set ds = set (completed_decisions facts)" "distinct (completed_decisions facts) \<longrightarrow> distinct ds"
    "\<forall>d \<in> set ds. decision_message d = mid" "mid \<in> set (map turn_id (turns facts))"
    and ni: "\<not> integrity_violation facts" and agents: "length ds > 1 \<longrightarrow> (\<forall>d \<in> set ds. decision_command d = ''dispatch_agent'')"
    by (rule resolved_decisions [OF red])
  from read_facts_evidence [OF read ni] obtain r e where e: "collect_evidence cols its st r = Inr e"
    "decisions facts = ev_decisions e" "ing_id r = iid" "turns facts = ev_turns e" and found: "find_ingress st iid = Some r" by metis
  from read found have tid: "ingress_task (ingress facts) = ing_task r" by (auto elim!: read_facts_ingress)
  have inj: "distinct (map treq_id (tool_requests st))" "distinct (map msg_id (messages st))" using store by (simp_all add: canonical_storage_def)
  have sub: "set ds \<subseteq> set (ev_decisions e)" by (auto simp: ds(3) completed_decisions_def e(2) [symmetric])
  from ds(2) obtain d where d: "d \<in> set ds" by (cases ds) auto
  then have "d \<in> set (ev_decisions e)" using sub by blast
  from evidence_anchored(3) [OF e(1) this] ds(5) d obtain m where m: "m \<in> set (assistant_rows cols st (ing_id r))" "msg_id m = mid" by auto
  have leased: "ingress_lease_ids st (ing_id r) \<noteq> []" using m(1) by (auto simp: assistant_rows_mem)
  obtain es where es: "list_all2 (anchored cols st r) (assistant_rows cols st (ing_id r)) es" "ev_decisions e = concat (map ev_decisions es)"
    using leased by (cases rule: collect_evidence_shape [OF e(1)]) auto
  have rows: "distinct (map msg_id (assistant_rows cols st (ing_id r)))"
    using inj(2) by (simp add: assistant_rows_def distinct_map inj_on_subset [of msg_id "set (messages st)"] subset_iff)
  have "distinct (map decision_id (decisions facts))" using decisions_distinct [OF es(1) rows inj(1)] by (simp add: e(2) es(2))
  then have "distinct ds" "inj_on decision_id (set ds)"
    using ds(4) by (auto simp: completed_decisions_def distinct_map ds(3) intro: inj_on_subset)
  then have dids: "distinct ids" by (simp add: ds(1) distinct_map)
  have same: "length ids' = length ds" if "set ids' = set ids" "distinct ids'" for ids'
    using that dids distinct_card [of ids'] distinct_card [of ids] by (simp add: ds(1))
  from m(1) es(1) obtain p where p: "p \<in> set es" "anchored cols st r m p" by (metis in_set_conv_nth list_all2_conv_all_nth)
  from anchored_control [OF p(2) m(1)] auth e(3) obtain par pre aid where c: "msg_activation m = JStr aid"
    "control_message cols st iid m = Some (par, pre)" "parse_assistant cols m" "msg_author m = Some ''orchestrator''" by metis
  let ?oc = "\<lparr>occ_assistant = msg_id m, occ_control = par, occ_predecessor = pre, occ_activation = aid\<rparr>"
  have "msg_parent m = JStr par" using c(2) by (auto simp: control_message_def split: option.splits if_splits js_value.splits)
      (cases "msg_parent m"; simp)
  then have oc: "occurrence_of cols st (ing_id r) m ?oc" using c by (simp add: occurrence_of_def e(3))
  have mid: "occ_assistant ?oc = mid" using m(2) by simp
  have admitted: "resolved_admitted cols st (ing_task r) iid ids' ?oc" if ids': "set ids' = set ids" "distinct ids'" for ids'
  proof -
    have i: "set ids' = decision_id ` set ds" "length ids' > 1 \<longrightarrow> (\<forall>d \<in> set ds. decision_command d = ''dispatch_agent'')"
      using ids' same [OF ids'] agents by (simp_all add: ds(1))
    note chosen = decisions_admitted [OF e(1) store act ds(2) sub ds(5) i(1) ids'(2) i(2) mid]
    note row = assistant_row_proves [OF e(1) m(1) oc _ inj(2)]
    have turn: "msg_id m \<in> set (map turn_id (ev_turns e))" using ds(6) m(2) by (simp add: e(4))
    have tools: "\<exists>l. tool_decision cols st t = Inr l \<and> set l \<subseteq> set (ev_decisions e)" if "t \<in> set (tool_requests st)" "treq_message t = mid" for t
      using anchored_tools [OF p(2) that(1)] that(2) m(2) p(1) es(2) by fastforce
    have no_bad: "\<not> (treq_message t = occ_assistant ?oc \<and> tool_completed cols st t \<and> tool_malformed cols t)" if "t \<in> set (tool_requests st)" for t
      using tools [OF that] decided_not_malformed m(2) by auto
    have all_named: "treq_id t \<in> set ids'" if t: "t \<in> set (tool_requests st)" "treq_message t = mid" "tool_completed cols st t" "tool_releases cols t" for t
    proof -
      from tools [OF t(1,2)] obtain l where l: "tool_decision cols st t = Inr l" "set l \<subseteq> set (ev_decisions e)" by blast
      from decides_iff [OF l(1) t(3) act t(1)] t(4) decided_id [OF l(1)] obtain d where d: "d \<in> set l" "decision_id d = treq_id t" by blast
      from tool_decision_fields [OF l(1) d(1)] t(2) have "decision_message d = mid" by simp
      with d l(2) ds(6) have "d \<in> set ds" by (auto simp: ds(3) completed_decisions_def e(2))
      with d(2) show ?thesis by (auto simp: i(1) intro: rev_image_eqI)
    qed
    have first: "Some (treq_message t) = map_option treq_message (head_option (requests_named st ids')) \<Longrightarrow> treq_message t = mid" for t
      using chosen(5) m(2) by (cases "requests_named st ids'") auto
    have "list_all (\<lambda>t. \<not> (Some (treq_message t) = map_option treq_message (head_option (requests_named st ids'))
        \<and> tool_completed cols st t \<and> tool_releases cols t \<and> treq_id t \<notin> set ids')) (tool_requests st)"
      unfolding list_all_iff using first all_named by blast
    moreover have "list_all (\<lambda>t. \<not> (treq_message t = occ_assistant ?oc \<and> tool_completed cols st t \<and> tool_malformed cols t)) (tool_requests st)"
      unfolding list_all_iff using no_bad by blast
    moreover have "list_all (\<lambda>x. \<not> conflicting_assistant st iid ?oc x) (messages st)"
      unfolding list_all_iff using row(2) [OF turn] by (simp add: e(3))
    moreover have "assistant_proves cols st (ing_task r) iid ?oc" using row(1) [OF turn] by (simp add: e(3))
    ultimately show ?thesis
      using chosen(1-3) m(2) control_message_proves [OF oc] ids'(2) unfolding resolved_admitted_def by blast
  qed
  let ?qs = "requests_named st ids"
  have "length ?qs = length ids"
  proof -
    have "treq_id ` set ?qs = set ids"
      using decision_request [OF e(1) _ act] sub by (force simp: ds(1) requests_named_def)
    moreover have "distinct (map treq_id ?qs)" using inj(1) by (simp add: requests_named_def distinct_map_filter)
    ultimately show ?thesis using dids by (metis distinct_card length_map set_map)
  qed
  moreover have "remdups (map treq_message ?qs) = [mid]"
  proof -
    have i: "set ids = decision_id ` set ds" "length ids > 1 \<longrightarrow> (\<forall>d \<in> set ds. decision_command d = ''dispatch_agent'')"
      using agents by (simp_all add: ds(1))
    note chosen = decisions_admitted [OF e(1) store act ds(2) sub ds(5) i(1) dids i(2) mid]
    from chosen(4) m(2) have "?qs \<noteq> []" by (cases ?qs) simp_all
    then show ?thesis using chosen(5) m(2) by (intro remdups_same) auto
  qed
  moreover have "find_message st mid = Some m" using find_message_row [OF store] m by (auto simp: assistant_rows_mem)
  ultimately have "decision_assistant st ids = Some m" by (simp add: decision_assistant_def Let_def requests_named_def)
  then have "exact_decision_occurrence cols st iid ids = Inr ?oc" using c by (simp add: exact_decision_occurrence_def)
  then show ?thesis using admitted tid by auto
qed

end
