(* ===== verification/AbsorptionProps.thy ===== *)
theory AbsorptionProps
  imports ReleaseProps
begin

text \<open>
  What recording a verdict needs and what it changes (\<open>recordAbsorbingTaskRootIngressDisposition\<close>):
  a resolved ingress has one exact decision occurrence, the recording succeeds whenever the reducer
  says so, and only the named ingress leaves the queue.
\<close>

section \<open>What a recorded disposition changes\<close>

lemma head_option_append: "head_option (xs @ ys) = (case head_option xs of Some x \<Rightarrow> Some x | None \<Rightarrow> head_option ys)"
  by (cases xs) auto

lemma disposition_artifact_append:
  "disposition_artifact (st\<lparr>artifacts := artifacts st @ [a]\<rparr>) t i =
     (case disposition_artifact st t i of Some x \<Rightarrow> Some x
      | None \<Rightarrow> (case disposition_of_artifact a of Some d \<Rightarrow> if art_task a = t \<and> dp_ingress d = i then Some (a, d) else None | None \<Rightarrow> None))"
  by (simp add: disposition_artifact_def head_option_append split: option.split del: disposition_of_artifact.simps head_option_None_iff)

lemma disposition_artifact_grows:
  "disposition_artifact st t i = Some x \<Longrightarrow> disposition_artifact (st\<lparr>artifacts := artifacts st @ as\<rparr>) t i = Some x"
  by (simp add: disposition_artifact_def head_option_append del: disposition_of_artifact.simps)

text \<open>The tables gain artifacts and events that no rule of the Task lifecycle reads, and nothing else.\<close>

definition announces :: "control_store \<Rightarrow> artifact_row list \<Rightarrow> control_store \<Rightarrow> bool" where
  "announces st as st' \<longleftrightarrow> (\<exists>es. (\<forall>e \<in> set es. \<exists>k. event_kind e = OtherEvent k)
     \<and> st' = st\<lparr>artifacts := artifacts st @ as, st_tasks := (st_tasks st)\<lparr>event_log := event_log (st_tasks st) @ es\<rparr>\<rparr>)"

lemma announces_refl [simp]: "announces st [] st"
  unfolding announces_def by (intro exI [of _ "[]"]) simp

lemma announces_trans:
  assumes "announces st as st'" "announces st' bs st''"
  shows "announces st (as @ bs) st''"
proof -
  from assms(1) obtain es where es: "\<forall>e \<in> set es. \<exists>k. event_kind e = OtherEvent k"
    "st' = st\<lparr>artifacts := artifacts st @ as, st_tasks := (st_tasks st)\<lparr>event_log := event_log (st_tasks st) @ es\<rparr>\<rparr>"
    unfolding announces_def by metis
  from assms(2) obtain fs where fs: "\<forall>e \<in> set fs. \<exists>k. event_kind e = OtherEvent k"
    "st'' = st'\<lparr>artifacts := artifacts st' @ bs, st_tasks := (st_tasks st')\<lparr>event_log := event_log (st_tasks st') @ fs\<rparr>\<rparr>"
    unfolding announces_def by metis
  have "\<forall>e \<in> set (es @ fs). \<exists>k. event_kind e = OtherEvent k" using es(1) fs(1) by auto
  then show ?thesis unfolding announces_def fs(2) es(2) by (intro exI [of _ "es @ fs"]) simp
qed

lemma announces_artifacts: "announces st as st' \<Longrightarrow> disposition_artifact st' = disposition_artifact (st\<lparr>artifacts := artifacts st @ as\<rparr>)"
  by (auto simp: announces_def disposition_artifact_def fun_eq_iff)

lemma announces_ingresses: "announces st as st' \<Longrightarrow> find_ingress st' = find_ingress st"
  by (auto simp: announces_def find_ingress_def fun_eq_iff)

lemma append_store_event_announces:
  assumes "append_store_event st kind tid source cause stamp = Inr st'"
  shows "announces st [] st'"
proof -
  from assms obtain db e where ev: "append_event (st_tasks st)
      (task_event_input (OtherEvent kind) tid None source cause (snd stamp) JUndefined JUndefined JUndefined) (fst stamp) = Inr (db, e)"
    and st': "st' = st\<lparr>st_tasks := db\<rparr>"
    by (auto simp: append_store_event_def split: sum.splits prod.splits)
  note row = append_event_cases_db [OF ev]
  have "db = (st_tasks st)\<lparr>event_log := event_log (st_tasks st) @ [e]\<rparr>" "event_kind e = OtherEvent kind"
    using row(1,2) ev by (auto simp: append_event_def split: sum.splits prod.splits)
  then show ?thesis unfolding announces_def st' by (intro exI [of _ "[e]"]) simp
qed

lemma insert_artifact_announces:
  assumes "insert_artifact st a stamp = Inr st'"
  shows "announces st [a] st'"
proof -
  have "announces st [a] (st\<lparr>artifacts := artifacts st @ [a]\<rparr>)"
    unfolding announces_def by (intro exI [of _ "[]"]) simp
  moreover have "announces (st\<lparr>artifacts := artifacts st @ [a]\<rparr>) [] st'"
    using assms by (intro append_store_event_announces) (auto simp: insert_artifact_def split: if_splits)
  ultimately show ?thesis using announces_trans by fastforce
qed

lemma record_gate_announces:
  assumes "record_gate st gid tid (gate_payload iid p) stamps = Inr st'"
  shows "\<exists>as. announces st as st' \<and> (\<forall>a \<in> set as. disposition_of_artifact a = None)"
proof (cases "find_artifact st gid")
  case None
  with assms obtain st1 where "insert_artifact st \<lparr>art_id = gid, art_task = tid, art_payload = gate_payload iid p\<rparr> (fst stamps) = Inr st1"
    "append_store_event st1 ''task.infrastructure.failed'' tid ''host'' (Some gid) (snd stamps) = Inr st'"
    by (auto simp: record_gate_def rbind_Inr_iff split: sum.splits)
  from announces_trans [OF insert_artifact_announces [OF this(1)] append_store_event_announces [OF this(2)]]
  show ?thesis by (auto simp: gate_payload_def)
next
  case (Some a)
  with assms show ?thesis by (auto simp: record_gate_def split: if_splits intro!: exI [of _ "[]"])
qed

lemma record_disposition_effect:
  assumes "record_disposition env admits st d stamp = Inr (st', aid)"
  obtains a d' as where "disposition_artifact st' (dp_task d) (dp_ingress d) = Some (a, d')"
    "d'\<lparr>dp_created := 0\<rparr> = d\<lparr>dp_evidence := evidence_set (dp_evidence d), dp_created := 0\<rparr>" "announces st as st'"
    "\<forall>b \<in> set as. disposition_of_artifact b = Some (d\<lparr>dp_evidence := evidence_set (dp_evidence d)\<rparr>)"
proof (cases "disposition_artifact st (dp_task d) (dp_ingress d)")
  case (Some x)
  then obtain a old where x: "disposition_artifact st (dp_task d) (dp_ingress d) = Some (a, old)" by (cases x) auto
  then show thesis using assms that [of a old "[]"]
    by (auto simp: record_disposition_def Let_def same_disposition_def split: if_splits)
next
  case None
  let ?d = "d\<lparr>dp_evidence := evidence_set (dp_evidence d)\<rparr>"
  let ?a = "\<lparr>art_id = se_disposition_ident env (dp_task d) (dp_ingress d), art_task = dp_task d, art_payload = DispositionArtifact ?d\<rparr>"
  have "insert_artifact st ?a stamp = Inr st'" using assms None
    by (auto simp: record_disposition_def Let_def rbind_Inr_iff split: if_splits)
  from insert_artifact_announces [OF this] show thesis
    using that [of ?a ?d "[?a]"] None by (simp add: announces_artifacts disposition_artifact_append)
qed

lemma record_absorbing_cases:
  assumes "record_absorbing env lc gate cols its st tid iid expected now stamps = Inr st'"
  obtains facts st1 ev oc aid where "read_ingress_facts (read_evidence cols its) st iid = Inr facts"
    "absorbing_of (reduce_ingress lc facts now) = Some expected"
    "absorbing_evidence gate cols st tid iid facts (reduce_ingress lc facts now) (snd stamps) = Inr (st1, ev, oc)"
    "record_disposition env (disposition_admitted cols) st1 \<lparr>dp_task = tid, dp_ingress = iid, dp_epoch = execution_epoch (ingress facts),
       dp_kind = disposition_kind_of expected, dp_evidence = ev, dp_occurrence = oc, dp_created = now\<rparr> (fst stamps) = Inr (st', aid)"
proof -
  from assms obtain facts where f: "read_ingress_facts (read_evidence cols its) st iid = Inr facts"
    by (cases "read_ingress_facts (read_evidence cols its) st iid") (auto simp: record_absorbing_def)
  from assms f have a: "absorbing_of (reduce_ingress lc facts now) = Some expected"
    by (cases "absorbing_of (reduce_ingress lc facts now) = Some expected") (auto simp: record_absorbing_def)
  from assms f a obtain st1 ev oc where e: "absorbing_evidence gate cols st tid iid facts (reduce_ingress lc facts now) (snd stamps) = Inr (st1, ev, oc)"
    by (auto simp: record_absorbing_def rbind_Inr_iff)
  from assms f a e obtain aid where "record_disposition env (disposition_admitted cols) st1 \<lparr>dp_task = tid, dp_ingress = iid, dp_epoch = execution_epoch (ingress facts),
       dp_kind = disposition_kind_of expected, dp_evidence = ev, dp_occurrence = oc, dp_created = now\<rparr> (fst stamps) = Inr (st', aid)"
    by (auto simp: record_absorbing_def split: sum.splits prod.splits)
  with that [OF f a e] show thesis .
qed

lemma absorbing_evidence_announces:
  assumes "absorbing_evidence gate cols st tid iid facts p stamps = Inr (st1, ev, oc)"
  shows "\<exists>as. announces st as st1 \<and> (\<forall>a \<in> set as. disposition_of_artifact a = None)"
proof -
  have "st1 = st \<or> (\<exists>gid. record_gate st gid tid (gate_payload iid p) stamps = Inr st1)"
    using assms by (auto simp: absorbing_evidence_def rbind_Inr_iff Let_def split: projection.splits option.splits)
  then show ?thesis
  proof
    assume "st1 = st"
    then show ?thesis by (auto intro!: exI [of _ "[]"])
  next
    assume "\<exists>gid. record_gate st gid tid (gate_payload iid p) stamps = Inr st1"
    then show ?thesis using record_gate_announces by blast
  qed
qed

text \<open>Of several new artifacts each is a disposition of one ingress, or none.\<close>

lemma disposition_artifact_other:
  "\<forall>a \<in> set as. case disposition_of_artifact a of None \<Rightarrow> True | Some d \<Rightarrow> dp_ingress d \<noteq> i \<Longrightarrow>
     disposition_artifact (st\<lparr>artifacts := artifacts st @ as\<rparr>) t i = disposition_artifact st t i"
proof (induction as rule: rev_induct)
  case (snoc a as)
  then show ?case
    using disposition_artifact_append [of "st\<lparr>artifacts := artifacts st @ as\<rparr>" a t i]
    by (auto split: option.splits)
qed simp

text \<open>
  C23: recording a verdict takes exactly that ingress out of the queue. When the recording
  succeeds, the ingress is disposed of with the kind of the verdict, and every other ingress is
  as disposed as before. Of the tables only the artifacts and the log of the Task grow, and the log
  only by events that no lifecycle rule reads.
\<close>

theorem absorbed_ingress_leaves_queue:
  assumes "record_absorbing env lc gate cols its st (ing_task r) (ing_id r) expected now stamps = Inr st'"
  shows "\<not> undisposed st' r
    \<and> (\<exists>a d. disposition_artifact st' (ing_task r) (ing_id r) = Some (a, d) \<and> dp_kind d = disposition_kind_of expected)
    \<and> (ing_id q = ing_id r \<or> undisposed st' q = undisposed st q)
    \<and> (\<exists>as. announces st as st')"
proof -
  from record_absorbing_cases [OF assms] obtain facts st1 ev oc aid where
    ev: "absorbing_evidence gate cols st (ing_task r) (ing_id r) facts (reduce_ingress lc facts now) (snd stamps) = Inr (st1, ev, oc)"
    and rd: "record_disposition env (disposition_admitted cols) st1 \<lparr>dp_task = ing_task r, dp_ingress = ing_id r, dp_epoch = execution_epoch (ingress facts),
       dp_kind = disposition_kind_of expected, dp_evidence = ev, dp_occurrence = oc, dp_created = now\<rparr> (fst stamps) = Inr (st', aid)" by metis
  obtain as1 where as1: "announces st as1 st1" "\<forall>a \<in> set as1. disposition_of_artifact a = None"
    using absorbing_evidence_announces [OF ev] by blast
  from rd show ?thesis
  proof (cases rule: record_disposition_effect)
    case (1 a d' as2)
    from arg_cong [OF 1(2), of dp_kind] have kind: "dp_kind d' = disposition_kind_of expected" by simp
    have all: "announces st (as1 @ as2) st'" by (rule announces_trans [OF as1(1) 1(3)])
    have "undisposed st' q = undisposed st q" if "ing_id q \<noteq> ing_id r"
    proof -
      have "disposition_artifact st' (ing_task q) (ing_id q) = disposition_artifact st (ing_task q) (ing_id q)"
        unfolding announces_artifacts [OF all]
        by (rule disposition_artifact_other) (use as1(2) 1(4) that in \<open>auto simp del: disposition_of_artifact.simps split: option.splits\<close>)
      then show ?thesis by (simp add: undisposed_def)
    qed
    moreover have "\<not> undisposed st' r" using 1(1) by (simp add: undisposed_def)
    ultimately show ?thesis using 1(1) kind all by auto
  qed
qed


section \<open>Every verdict can be recorded\<close>

lemma foldr_max_mem: "foldr max xs (b :: int) > k \<Longrightarrow> k \<ge> b \<Longrightarrow> \<exists>x \<in> set xs. x > k"
  by (induction xs) (auto simp: max_def split: if_splits)

lemma terminal_boundary_evidence:
  assumes "terminal_boundary facts = Some b" "0 \<le> execution_epoch (ingress facts)"
    and "b = BDeleted \<Longrightarrow> \<forall>f \<in> set (lifecycle_facts facts). lf_kind f = LDeleted \<longrightarrow> time_accepted (ingress facts) \<le> lf_time f"
  shows "lifecycle_disposition_evidence b facts \<noteq> None"
proof -
  have "\<exists>f \<in> set (lifecycle_facts facts). lifecycle_witnesses b (execution_epoch (ingress facts)) (time_accepted (ingress facts)) f"
  proof (cases "current_fact_epoch facts > execution_epoch (ingress facts)")
    case True
    then have "b = BReopened" using assms(1) by (simp add: terminal_boundary_def)
    with foldr_max_mem [OF True [unfolded current_fact_epoch_def] assms(2)] show ?thesis by (auto simp: lifecycle_witnesses_def)
  next
    case False
    show ?thesis
    proof (cases "exactly_one (filter (\<lambda>f. lf_kind f = LDeleted) (lifecycle_facts facts))")
      case (Some f)
      then have "f \<in> set (lifecycle_facts facts)" "lf_kind f = LDeleted" by (auto dest!: exactly_one_mem)
      moreover have "b = BDeleted" using assms(1) False Some by (simp add: terminal_boundary_def)
      ultimately show ?thesis using assms(3) by (auto simp: lifecycle_witnesses_def)
    next
      case None
      with assms(1) False obtain t where t: "exactly_one (own_epoch_facts facts [LCancelled, LClosed]) = Some t"
        "time_accepted (ingress facts) \<le> lf_time t" "b = (if lf_kind t = LCancelled then BCancelled else BClosed)"
        by (auto simp: terminal_boundary_def split: option.splits if_splits)
      from exactly_one_mem [OF t(1)] t(2,3) show ?thesis by (auto simp: own_epoch_facts_def lifecycle_witnesses_def)
    qed
  qed
  then show ?thesis by (auto simp: lifecycle_disposition_evidence_def filter_empty_conv)
qed

lemma reduce_terminal: "reduce_ingress lc facts now = TerminalInapplicable b \<Longrightarrow> terminal_boundary facts = Some b"
  by (auto simp: reduce_ingress_def budget_projection_def split: option.splits if_splits list.splits)

text \<open>Events that the log of the Task accepts: the Task is there and not deleted, the identities are new.\<close>

definition can_announce :: "control_store \<Rightarrow> string \<Rightarrow> event_stamp list \<Rightarrow> bool" where
  "can_announce st tid stamps \<longleftrightarrow> tid \<in> set (map row_id (task_rows (st_tasks st))) \<and> \<not> store_task_deleted st tid
     \<and> list_all (\<lambda>s. 0 < snd s) stamps \<and> distinct (map fst stamps)
     \<and> set (map fst stamps) \<inter> set (map event_id (event_log (st_tasks st))) = {}"

lemma append_store_event_succeeds:
  assumes "can_announce st tid (s # ss)"
  shows "\<exists>st'. append_store_event st kind tid source cause s = Inr st' \<and> can_announce st' tid ss \<and> artifacts st' = artifacts st"
proof -
  let ?log = "event_log (st_tasks st)" and ?inp = "task_event_input (OtherEvent kind) tid None source cause (snd s) JUndefined JUndefined JUndefined"
  let ?seq = "next_aggregate_sequence ?log AggTask tid"
  let ?row = "\<lparr>event_id = fst s, event_kind = OtherEvent kind, aggregate = AggTask, aggregate_id = tid, event_session = None,
     event_source = source, causation_id = cause, seq_no = ?seq, emitted_at = snd s, payload_epoch = JUndefined,
     payload_error = JUndefined, payload_reason = JUndefined\<rparr>"
  have live: "\<not> task_deleted ?log tid" using assms by (simp add: can_announce_def store_task_deleted_def)
  have kinds: "OtherEvent kind \<notin> set task_open_event_types" "OtherEvent kind \<notin> set task_terminal_event_types"
    "OtherEvent kind \<notin> set task_boundary_request_event_types" by (simp_all add: lifecycle_type_defs)
  have "fst s \<notin> event_id ` set ?log" using assms by (simp add: can_announce_def)
  then have new: "list_all (\<lambda>e. event_id e \<noteq> fst s) ?log" by (metis (mono_tags, lifting) image_eqI list_all_iff)
  moreover have "list_all (\<lambda>e. \<not> (aggregate e = AggTask \<and> aggregate_id e = tid \<and> seq_no e = ?seq)) ?log"
    using next_aggregate_sequence_gt [of _ ?log AggTask tid] by (fastforce simp: list_all_iff)
  ultimately have "protocol_event_constraints ?log ?row = Inr ()"
    using kinds by (auto simp: protocol_event_constraints_def epoch_index_clash_def list_ex_iff list_all_iff)
  then have "append_event (st_tasks st) ?inp (fst s) = Inr ((st_tasks st)\<lparr>event_log := ?log @ [?row]\<rparr>, ?row)"
    using assms live by (simp add: append_event_def append_event_in_transaction_def insert_protocol_event_def task_event_input_def
        can_announce_def deleted_task_no_insert_def rbind_def Let_def)
  moreover have "can_announce (st\<lparr>st_tasks := (st_tasks st)\<lparr>event_log := ?log @ [?row]\<rparr>\<rparr>) tid ss"
    using assms live by (auto simp: can_announce_def store_task_deleted_def task_deleted_def)
  ultimately show ?thesis by (simp add: append_store_event_def)
qed

lemma insert_artifact_succeeds:
  assumes "can_announce st (art_task a) (s # ss)" "find_artifact st (art_id a) = None"
  shows "\<exists>st'. insert_artifact st a s = Inr st' \<and> can_announce st' (art_task a) ss \<and> artifacts st' = artifacts st @ [a]"
  using append_store_event_succeeds [of "st\<lparr>artifacts := artifacts st @ [a]\<rparr>" "art_task a" s ss "''artifact.persisted''" "''engine.artifact''" None] assms
  by (simp add: insert_artifact_def can_announce_def store_task_deleted_def)

lemma no_deletion_read:
  assumes "read_lifecycle_facts st tid = Inr lfs" "\<not> store_task_deleted st tid" "f \<in> set lfs"
  shows "lf_kind f \<noteq> LDeleted"
proof -
  from rtraverse_Inr_back [OF assms(1) [unfolded read_lifecycle_facts_def] assms(3)] obtain e k where
    e: "e \<in> set (event_log (st_tasks st))" "aggregate e = AggTask" "aggregate_id e = tid" "lifecycle_kind (event_kind e) = Some k"
      "lifecycle_fact_of e k = Inr f"
    by (auto simp: aggregate_rows_def split: option.splits) (metis option.inject)
  have "k \<noteq> LDeleted"
  proof
    assume "k = LDeleted"
    with e(4) have "event_kind e = TaskDeleted" by (cases "event_kind e") auto
    with e(1-3) assms(2) show False by (auto simp: store_task_deleted_def task_deleted_def list_ex_iff)
  qed
  then show ?thesis using e(5) by (auto simp: lifecycle_fact_of_def split: if_splits)
qed

lemma record_disposition_fresh:
  assumes "disposition_artifact st (dp_task d) (dp_ingress d) = None" "dp_evidence d \<noteq> []"
    and "admits st (d\<lparr>dp_evidence := evidence_set (dp_evidence d)\<rparr>)"
    and "find_artifact st (se_disposition_ident env (dp_task d) (dp_ingress d)) = None" "can_announce st (dp_task d) [s]"
  shows "\<exists>st'. record_disposition env admits st d s = Inr (st', se_disposition_ident env (dp_task d) (dp_ingress d))"
  using insert_artifact_succeeds [of st "\<lparr>art_id = se_disposition_ident env (dp_task d) (dp_ingress d), art_task = dp_task d,
      art_payload = DispositionArtifact (d\<lparr>dp_evidence := evidence_set (dp_evidence d)\<rparr>)\<rparr>" s "[]"] assms
  by (auto simp: record_disposition_def Let_def evidence_set_def rbind_def)

text \<open>The names a verdict needs are free: its disposition is new, and its gate is new or the same gate.\<close>

definition names_free :: "store_env \<Rightarrow> (string \<Rightarrow> string \<Rightarrow> string \<Rightarrow> string) \<Rightarrow> control_store \<Rightarrow> string \<Rightarrow> string \<Rightarrow> projection \<Rightarrow> bool" where
  "names_free env gate st tid iid p \<longleftrightarrow>
     (let gid = gate iid (fst (reason_text p)) (snd (reason_text p)); did = se_disposition_ident env tid iid
      in disposition_artifact st tid iid = None \<and> find_artifact st did = None \<and> gid \<noteq> did \<and> gid \<noteq> []
         \<and> (case find_artifact st gid of None \<Rightarrow> True | Some a \<Rightarrow> art_task a = tid \<and> art_payload a = gate_payload iid p))"

text \<open>
  What the writers of the tables keep: primary keys are unique and not empty, the messages of the
  ingress are the Orchestrator's, a \<open>manage_task\<close> call names its action, and the execution of the
  Task was opened in epoch 1.
\<close>

definition orderly_tables :: "evidence_columns \<Rightarrow> control_store \<Rightarrow> string \<Rightarrow> string \<Rightarrow> bool" where
  "orderly_tables cols st tid iid \<longleftrightarrow> canonical_storage st \<and> authored_by_orchestrator cols st iid \<and> actions_named cols st
     \<and> [] \<notin> treq_id ` set (tool_requests st) \<and> [] \<notin> event_id ` set (event_log (st_tasks st))
     \<and> (\<forall>e \<in> set (aggregate_rows AggTask tid (event_log (st_tasks st))). event_kind e = TaskExecutionOpened \<longrightarrow> payload_epoch e = JInt 1)"

lemma can_announce_fewer: "can_announce st tid (s # s' # ss) \<Longrightarrow> can_announce st tid ss"
  by (auto simp: can_announce_def)

lemma gate_proves_found: "find_artifact st gid = Some a \<Longrightarrow> art_task a = tid \<Longrightarrow> art_payload a = gate_payload iid p
    \<Longrightarrow> gate_proves st tid iid (fst (reason_text p)) gid"
  by (auto simp: gate_proves_def list_ex_iff find_artifact_def find_Some_iff gate_payload_def intro!: bexI [of _ a])

lemma record_gate_free:
  assumes "names_free env gate st tid iid p" "can_announce st tid [s1, s2, s3]"
  shows "\<exists>st'. record_gate st (gate iid (fst (reason_text p)) (snd (reason_text p))) tid (gate_payload iid p) (s1, s2) = Inr st'
    \<and> disposition_artifact st' tid iid = None \<and> find_artifact st' (se_disposition_ident env tid iid) = None \<and> can_announce st' tid [s3]
    \<and> gate_proves st' tid iid (fst (reason_text p)) (gate iid (fst (reason_text p)) (snd (reason_text p)))"
proof (cases "find_artifact st (gate iid (fst (reason_text p)) (snd (reason_text p)))")
  case None
  let ?a = "\<lparr>art_id = gate iid (fst (reason_text p)) (snd (reason_text p)), art_task = tid, art_payload = gate_payload iid p\<rparr>"
  from insert_artifact_succeeds [of st ?a s1 "[s2, s3]"] assms(2) None obtain st1 where
    a: "insert_artifact st ?a s1 = Inr st1" "can_announce st1 tid [s2, s3]" "artifacts st1 = artifacts st @ [?a]" by auto
  from append_store_event_succeeds [OF a(2), of "''task.infrastructure.failed''" "''host''" "Some (art_id ?a)"] obtain st2 where
    b: "append_store_event st1 ''task.infrastructure.failed'' tid ''host'' (Some (art_id ?a)) s2 = Inr st2" "can_announce st2 tid [s3]"
      "artifacts st2 = artifacts st1" by auto
  have "disposition_artifact st2 tid iid = disposition_artifact (st\<lparr>artifacts := artifacts st @ [?a]\<rparr>) tid iid"
    by (simp add: disposition_artifact_def b(3) a(3))
  then have "disposition_artifact st2 tid iid = None"
    using assms(1) disposition_artifact_append [of st ?a tid iid] by (simp add: names_free_def Let_def gate_payload_def)
  moreover have "find_artifact st2 (se_disposition_ident env tid iid) = None"
    using assms(1) by (simp add: find_artifact_def b(3) a(3) names_free_def Let_def find_append)
  moreover have "gate_proves st2 tid iid (fst (reason_text p)) (art_id ?a)"
    by (simp add: gate_proves_def b(3) a(3) gate_payload_def)
  ultimately show ?thesis using a(1) b None by (simp add: record_gate_def rbind_def)
next
  case (Some a)
  then show ?thesis using assms(1) can_announce_fewer [OF assms(2)] gate_proves_found [OF Some]
    by (simp add: names_free_def Let_def record_gate_def)
qed

text \<open>The lifecycle fact that ends an ingress is an event the database accepts as its release.\<close>

lemma lifecycle_fact_proves:
  assumes "read_lifecycle_facts st tid = Inr lfs" "f \<in> set lfs" "lifecycle_witnesses b (ing_epoch r) (ing_accepted r) f"
    and "\<not> store_task_deleted st tid" "1 \<le> ing_epoch r"
    and opened: "\<forall>e \<in> set (aggregate_rows AggTask tid (event_log (st_tasks st))). event_kind e = TaskExecutionOpened \<longrightarrow> payload_epoch e = JInt 1"
  shows "lifecycle_proves st tid r (lf_id f) \<and> lf_id f \<in> event_id ` set (event_log (st_tasks st))"
proof -
  from rtraverse_Inr_back [OF assms(1) [unfolded read_lifecycle_facts_def] assms(2)] obtain e k where
    e: "e \<in> set (aggregate_rows AggTask tid (event_log (st_tasks st)))" and k: "lifecycle_kind (event_kind e) = Some k"
      and f: "lifecycle_fact_of e k = Inr f"
    by (auto split: option.splits) (metis option.inject)
  from e have row: "e \<in> set (event_log (st_tasks st))" "aggregate e = AggTask" "aggregate_id e = tid" by (auto simp: aggregate_rows_def)
  from f have fact: "lf_id f = event_id e" "lf_kind f = k" "lf_time f = emitted_at e" "payload_epoch e = JInt (lf_epoch f)"
    by (auto simp: lifecycle_fact_of_def positive_safe_def split: if_splits) (cases "payload_epoch e"; simp)
  have live: "lf_kind f \<noteq> LDeleted" by (rule no_deletion_read [OF assms(1,4,2)])
  have "event_kind e = TaskExecutionOpened \<Longrightarrow> lf_epoch f = 1" using opened e fact(4) by auto
  then have "event_kind e \<in> {TaskCancelled, TaskCompleted, TaskFailed} \<and> lf_epoch f = ing_epoch r \<and> ing_accepted r \<le> emitted_at e
      \<or> event_kind e = TaskExecutionReopened \<and> ing_epoch r < lf_epoch f"
    using assms(3,5) live k fact(1-3) by (cases b; cases "event_kind e") (auto simp: lifecycle_witnesses_def)
  then show ?thesis using row fact(1,4) by (auto simp: lifecycle_proves_def list_ex_iff intro!: bexI [of _ e])
qed

lemma evidence_set_props: "set (evidence_set ids) = set ids" "distinct (evidence_set ids)" "evidence_set [i] = [i]"
  by (simp_all add: evidence_set_def)

text \<open>
  C22: A verdict never gets stuck between the code and the database. Whenever the reducer calls an
  ingress resolved, inapplicable, exhausted or faulted, the recording finds the exact evidence, and
  the trigger that reads the tables again admits the disposition, so the recording succeeds. This
  holds for a canonical ingress, an epoch and a clock in the range of safe positive integers, tables in order
  (unique keys that are not empty, messages of the ingress by the Orchestrator, every
  \<open>manage_task\<close> call with its action, execution opened in epoch 1), new names for the disposition and
  its gate, and a log that accepts the three announcements.
\<close>

theorem verdict_is_recordable:
  assumes "read_ingress_facts (read_evidence cols its) st iid = Inr facts" "absorbing_of (reduce_ingress lc facts now) = Some expected"
    and "orderly_tables cols st (ingress_task (ingress facts)) iid"
    and "canonical_ingress_id iid" "safe_positive (execution_epoch (ingress facts))" "safe_positive now"
    and "names_free env gate st (ingress_task (ingress facts)) iid (reduce_ingress lc facts now)"
    and "can_announce st (ingress_task (ingress facts)) [s1, s2, s3]"
  shows "\<exists>st'. record_absorbing env lc gate cols its st (ingress_task (ingress facts)) iid expected now (s3, s1, s2) = Inr st'"
proof -
  let ?p = "reduce_ingress lc facts now" and ?tid = "ingress_task (ingress facts)"
  let ?d = "\<lambda>ev oc. \<lparr>dp_task = ?tid, dp_ingress = iid, dp_epoch = execution_epoch (ingress facts), dp_kind = disposition_kind_of expected,
      dp_evidence = ev, dp_occurrence = oc, dp_created = now\<rparr>"
  note tables = assms(3) [unfolded orderly_tables_def]
  have free: "disposition_artifact st ?tid iid = None" "find_artifact st (se_disposition_ident env ?tid iid) = None"
    using assms(7) by (simp_all add: names_free_def Let_def)
  have ann: "can_announce st ?tid [s3]" by (rule can_announce_fewer [OF assms(8)])
  have live: "\<not> store_task_deleted st ?tid" using assms(8) by (simp add: can_announce_def)
  have lfs: "read_lifecycle_facts st ?tid = Inr (lifecycle_facts facts)"
    using assms(1) by (auto simp: read_ingress_facts_def rbind_Inr_iff Let_def split: option.splits)
  obtain r where r: "find_ingress st iid = Some r" "ing_task r = ?tid" "ing_epoch r = execution_epoch (ingress facts)"
      "ing_accepted r = time_accepted (ingress facts)"
    using assms(1) by (auto simp: read_ingress_facts_def rbind_Inr_iff Let_def split: option.splits)
  have row: "find_ingress st1 iid = Some r" if "absorbing_evidence gate cols st ?tid iid facts ?p (s1, s2) = Inr (st1, ev, oc)" for st1 ev oc
    using absorbing_evidence_announces [OF that] announces_ingresses r(1) by metis
  have admits: "disposition_admitted cols st1 ((?d ev oc)\<lparr>dp_evidence := evidence_set ev\<rparr>)"
    if "find_ingress st1 iid = Some r" "ev \<noteq> []" "[] \<notin> set ev" "release_proved cols st1 ((?d ev oc)\<lparr>dp_evidence := evidence_set ev\<rparr>) r" for st1 ev oc
    using that assms(4-6) r by (auto simp: disposition_admitted_def list_all_iff evidence_set_props simp flip: set_empty)
  have kept: "\<forall>f \<in> set (lifecycle_facts facts). lf_kind f = LDeleted \<longrightarrow> time_accepted (ingress facts) \<le> lf_time f"
    using no_deletion_read [OF lfs live] by auto
  have "\<exists>st1 ev oc. absorbing_evidence gate cols st ?tid iid facts ?p (s1, s2) = Inr (st1, ev, oc) \<and> ev \<noteq> [] \<and> [] \<notin> set ev
      \<and> release_proved cols st1 ((?d ev oc)\<lparr>dp_evidence := evidence_set ev\<rparr>) r
      \<and> disposition_artifact st1 ?tid iid = None \<and> find_artifact st1 (se_disposition_ident env ?tid iid) = None
      \<and> can_announce st1 ?tid [s3]"
  proof (cases ?p)
    case (Resolved ids)
    obtain oc where oc: "exact_decision_occurrence cols st iid ids = Inr oc" "resolved_admitted cols st ?tid iid (evidence_set ids) oc"
      using resolved_occurrence [OF assms(1) Resolved] tables evidence_set_props(1,2) by blast
    from oc(2) have "\<forall>i \<in> set ids. \<exists>t \<in> set (tool_requests st). treq_id t = i"
      by (auto simp: resolved_admitted_def list_all_iff evidence_set_props(1) request_proves_def list_ex_iff)
    then have "[] \<notin> set ids" using tables by (metis imageI)
    moreover have "ids \<noteq> []" using resolved_decisions [OF Resolved] by blast
    ultimately show ?thesis using Resolved oc assms(2) free ann
      by (simp add: absorbing_evidence_def release_proved_def disposition_kind_of_def)
  next
    case (TerminalInapplicable b)
    then obtain f where f: "lifecycle_disposition_evidence b facts = Some f"
      using terminal_boundary_evidence [OF reduce_terminal [OF TerminalInapplicable]] assms(5) kept by (fastforce simp: safe_positive_def)
    then have "f \<in> set (lifecycle_facts facts)" "lifecycle_witnesses b (ing_epoch r) (ing_accepted r) f"
      using head_option_Some_mem [OF f [unfolded lifecycle_disposition_evidence_def]] by (simp_all add: r(3,4))
    with lifecycle_fact_proves [OF lfs this live] tables assms(5) have "lifecycle_proves st ?tid r (lf_id f)" "lf_id f \<noteq> []"
      by (auto simp: r(3) safe_positive_def)
    then show ?thesis using TerminalInapplicable f assms(2) free ann
      by (auto simp: absorbing_evidence_def release_proved_def disposition_kind_of_def evidence_set_props(3))
  next
    case (Exhausted x)
    then show ?thesis using record_gate_free [OF assms(7,8)] assms(2,7)
      by (auto simp: absorbing_evidence_def Let_def release_proved_def disposition_kind_of_def evidence_set_props(3) names_free_def reason_text_def)
  next
    case (HostFault x)
    then show ?thesis using record_gate_free [OF assms(7,8)] assms(2,7)
      by (auto simp: absorbing_evidence_def Let_def release_proved_def disposition_kind_of_def evidence_set_props(3) names_free_def reason_text_def)
  qed (use assms(2) in simp_all)
  then obtain st1 ev oc where e: "absorbing_evidence gate cols st ?tid iid facts ?p (s1, s2) = Inr (st1, ev, oc)" "ev \<noteq> []" "[] \<notin> set ev"
      "release_proved cols st1 ((?d ev oc)\<lparr>dp_evidence := evidence_set ev\<rparr>) r"
      "disposition_artifact st1 ?tid iid = None" "find_artifact st1 (se_disposition_ident env ?tid iid) = None"
      "can_announce st1 ?tid [s3]" by metis
  have "\<exists>st'. record_disposition env (disposition_admitted cols) st1 (?d ev oc) s3 = Inr (st', se_disposition_ident env ?tid iid)"
    using record_disposition_fresh [of st1 "?d ev oc" "disposition_admitted cols" env s3] admits [OF row [OF e(1)] e(2-4)] e(2,5-7) by simp
  then show ?thesis using assms(1,2) e(1) by (auto simp: record_absorbing_def)
qed

end
