(* ===== verification/EvidenceCases.thy ===== *)
theory EvidenceCases
  imports AbsorptionProps
begin

text \<open>
  Ingresses that are done with for good, and a small world of tables on which the properties of
  \<open>EvidenceProps\<close> and \<open>AbsorptionProps\<close> are applied.
\<close>

lemma gate_evidence:
  assumes "absorbing_of p = Some expected" "expected \<noteq> AbsorbResolved" "expected \<noteq> AbsorbTerminal"
    and "absorbing_evidence gate cols st tid iid facts p stamps = Inr (st1, ev, oc)"
  shows "\<exists>gid. ev = [gid]"
  using assms by (cases p) (auto simp: absorbing_evidence_def Let_def rbind_Inr_iff)

lemma abandoned_from_disposition:
  assumes "read_ingress_facts rd st iid = Inr facts" "find_ingress st iid = Some r"
    and "disposition_artifact st (ing_task r) iid = Some (a, d)" "dp_kind d = DispOperatorAbandoned"
  shows "operator_abandoned facts = Some (dp_evidence d)"
proof -
  have "\<And>x. ingress_disposition st (ing_task r) iid = Inr x \<Longrightarrow> x = Some d"
    using assms(3) by (auto simp: ingress_disposition_def split: if_splits)
  with assms(1,2,4) show ?thesis
    by (fastforce simp: read_ingress_facts_def rbind_Inr_iff Let_def split: option.splits)
qed

text \<open>
  A later state of the tables. Rows of the ingress table are never changed or deleted, and the rows of
  \<open>engine_artifact\<close> that hold dispositions only grow (the triggers
  \<open>engine_task_root_ingress_no_update\<close>, \<open>_no_delete\<close> and \<open>engine_scheduling_disposition_no_delete\<close> of
  \<open>storage/ddl.ts\<close>); everything else may change.
\<close>

definition disposition_rows :: "control_store \<Rightarrow> artifact_row list" where
  "disposition_rows st = filter (\<lambda>a. disposition_of_artifact a \<noteq> None) (artifacts st)"

definition keeps_ingress :: "control_store \<Rightarrow> control_store \<Rightarrow> string \<Rightarrow> bool" where
  "keeps_ingress st st' iid \<longleftrightarrow> find_ingress st' iid = find_ingress st iid
     \<and> take (length (disposition_rows st)) (disposition_rows st') = disposition_rows st"

lemma disposition_artifact_rows:
  "disposition_artifact st t i = disposition_artifact (st\<lparr>artifacts := disposition_rows st\<rparr>) t i"
proof -
  have "concat (map (\<lambda>a. case disposition_of_artifact a of None \<Rightarrow> [] | Some d \<Rightarrow> if art_task a = t \<and> dp_ingress d = i then [(a, d)] else []) as)
      = concat (map (\<lambda>a. case disposition_of_artifact a of None \<Rightarrow> [] | Some d \<Rightarrow> if art_task a = t \<and> dp_ingress d = i then [(a, d)] else [])
          (filter (\<lambda>a. disposition_of_artifact a \<noteq> None) as))" for as
    by (induction as) (auto simp del: disposition_of_artifact.simps split: option.split)
  then show ?thesis by (simp add: disposition_artifact_def disposition_rows_def)
qed

lemma kept_disposition:
  assumes "keeps_ingress st st' iid" "disposition_artifact st t i = Some x"
  shows "disposition_artifact st' t i = Some x"
proof -
  let ?n = "length (disposition_rows st)"
  have "disposition_rows st' = disposition_rows st @ drop ?n (disposition_rows st')"
    using assms(1) append_take_drop_id [of ?n "disposition_rows st'"] by (simp add: keeps_ingress_def)
  with disposition_artifact_grows [of "st\<lparr>artifacts := disposition_rows st\<rparr>" t i x "drop ?n (disposition_rows st')"] assms(2)
  show ?thesis unfolding disposition_artifact_rows [of st] disposition_artifact_rows [of st']
    by (simp add: disposition_artifact_def)
qed

text \<open>
  C24: A faulted ingress is abandoned for good. Once its host fault has been recorded, in every later
  state of the tables (one that keeps the ingress row and the disposition rows), whatever evidence a
  reader then finds, whatever the clock and the locale order, an ingress that can be read reads as
  abandoned with its gate as the reason: it no longer blocks the queue, and it is never
  activated again.
\<close>

theorem recorded_fault_is_abandoned:
  assumes "record_absorbing env lc gate cols its st (ing_task r) iid AbsorbHostFault now stamps = Inr st1" "find_ingress st iid = Some r"
    and "keeps_ingress st1 st' iid"
  shows "\<exists>gid. (\<forall>facts. read_ingress_facts rd st' iid = Inr facts \<longrightarrow> reduce_ingress lc' facts later = OperatorAbandoned [gid]
        \<and> releases_head_of_line (reduce_ingress lc' facts later))
    \<and> (\<forall>st2 aid ex. aq_ingress inp = iid \<longrightarrow> acquire_ingress_lease env' lc' rd owned st' inp fresh \<noteq> Inr (st2, IngressAcquired aid ex))"
proof -
  from record_absorbing_cases [OF assms(1)] obtain f st2 ev oc aid where
    abs: "absorbing_of (reduce_ingress lc f now) = Some AbsorbHostFault"
    and ev: "absorbing_evidence gate cols st (ing_task r) iid f (reduce_ingress lc f now) (snd stamps) = Inr (st2, ev, oc)"
    and rd: "record_disposition env (disposition_admitted cols) st2 \<lparr>dp_task = ing_task r, dp_ingress = iid, dp_epoch = execution_epoch (ingress f),
       dp_kind = disposition_kind_of AbsorbHostFault, dp_evidence = ev, dp_occurrence = oc, dp_created = now\<rparr> (fst stamps) = Inr (st1, aid)" by metis
  from gate_evidence [OF abs _ _ ev] obtain gid where gid: "ev = [gid]" by auto
  from rd obtain a d' as where d': "disposition_artifact st1 (ing_task r) iid = Some (a, d')"
      "dp_kind d' = DispOperatorAbandoned" "dp_evidence d' = [gid]" "announces st2 as st1"
  proof (cases rule: record_disposition_effect)
    case (1 a d' as)
    from arg_cong [OF 1(2), of dp_kind] arg_cong [OF 1(2), of dp_evidence] 1(1,3) that show thesis
      by (simp add: disposition_kind_of_def gid evidence_set_def)
  qed
  have row: "find_ingress st' iid = Some r"
    using assms(2,3) announces_ingresses [OF d'(4)] absorbing_evidence_announces [OF ev] announces_ingresses by (metis keeps_ingress_def)
  have abandoned: "reduce_ingress lc' facts t = OperatorAbandoned [gid]" if "read_ingress_facts rd st' iid = Inr facts" for facts t
    using abandoned_from_disposition [OF that row kept_disposition [OF assms(3) d'(1)] d'(2)] d'(3) by (simp add: reduce_ingress_def)
  have "acquire_ingress_lease env' lc' rd owned st' inp fresh \<noteq> Inr (s, IngressAcquired aid ex)" if "aq_ingress inp = iid" for s aid ex
  proof
    assume "acquire_ingress_lease env' lc' rd owned st' inp fresh = Inr (s, IngressAcquired aid ex)"
    then show False
    proof (rule acquire_ingress_cases)
      fix facts
      assume "read_ingress_facts rd st' (aq_ingress inp) = Inr facts" "reduce_ingress lc' facts (aq_now inp) = Ready"
      with abandoned [of facts "aq_now inp"] that show False by simp
    qed
  qed
  with abandoned show ?thesis by (auto simp: releases_head_of_line_def)
qed


section \<open>A small world\<close>

definition demo_ingress :: string where
  "demo_ingress = ''art_h0000000000000000001''"

definition demo_control_id :: string where
  "demo_control_id = ''msg_task-root-control_'' @ demo_ingress @ ''_'' @ demo_ingress"

definition demo_control :: message_row where
  "demo_control = \<lparr>msg_id = demo_control_id, msg_session = ''s1'', msg_role = ''user'', msg_activation = JUndefined,
     msg_completed = False, msg_finish = None, msg_error = False, msg_parent = JUndefined, msg_author = Some ''orchestrator'',
     msg_control_ingress = JStr demo_ingress, msg_control_predecessor = JStr demo_ingress\<rparr>"

definition demo_assistant :: message_row where
  "demo_assistant = \<lparr>msg_id = ''m1'', msg_session = ''s1'', msg_role = ''assistant'', msg_activation = JStr ''act1'',
     msg_completed = True, msg_finish = Some ''stop'', msg_error = False, msg_parent = JStr demo_control_id,
     msg_author = Some ''orchestrator'', msg_control_ingress = JUndefined, msg_control_predecessor = JUndefined\<rparr>"

definition demo_world_env :: store_env where
  "demo_world_env = demo_env\<lparr>se_ingress_ident := \<lambda>_ _ _. demo_ingress\<rparr>"

text \<open>The ingress of the Task itself, activated until 1000; \<open>kind\<close> is the Session kind of the assistant.\<close>

definition demo_world :: "string \<Rightarrow> tool_request_row list \<Rightarrow> string list \<Rightarrow> control_store" where
  "demo_world kind tools outs =
     (run_steps (store_step demo_world_env) (empty_tables demo_outside) [OpAccept (demo_accept SrcTask ''t'' None 5)])
       \<lparr>st_leases := \<lparr>leases = [demo_activation\<lparr>lease_target_id := demo_ingress\<rparr>], grants = []\<rparr>,
        messages := [demo_control, demo_assistant],
        sessions := [\<lparr>ses_id = ''s1'', ses_parent = Some ''s'', ses_project = ''p'', ses_kind = kind\<rparr>],
        tool_requests := tools, tool_outcomes := outs\<rparr>"

definition demo_tool :: "string \<Rightarrow> string \<Rightarrow> tool_request_row" where
  "demo_tool i name = \<lparr>treq_id = i, treq_message = ''m1'', treq_call = i, treq_tool = name\<rparr>"

definition demo_columns :: evidence_columns where
  "demo_columns = \<lparr>message_created = \<lambda>_. 10, completed_at = \<lambda>_. 20, assistant_valid = \<lambda>_. True, user_valid = \<lambda>_. True,
     user_agent = \<lambda>_. ''orchestrator'', tool_created = \<lambda>_. 15, tool_readable = \<lambda>_. True, tool_input = \<lambda>_. JsonObj [],
     tool_outcome = \<lambda>i. (i @ ''/out'', True), provider_outcome = \<lambda>i. (i @ ''/out'', True), session_parts = []\<rparr>"

definition no_interactions :: interaction_tables where
  "no_interactions = \<lparr>int_requests = [], int_outcomes = [], bus_rows = [], permission_rows = []\<rparr>"

definition demo_gate :: "string \<Rightarrow> string \<Rightarrow> string \<Rightarrow> string" where
  "demo_gate i s r = ''gate/'' @ i @ s @ r"

definition demo_projection :: "interaction_tables \<Rightarrow> control_store \<Rightarrow> int \<Rightarrow> store_error + projection" where
  "demo_projection its st now = project_ingress text_cmp (read_evidence demo_columns its) st demo_ingress now"

definition demo_decided :: control_store where
  "demo_decided = demo_world ''orchestrator'' [demo_tool ''tp1'' ''no_action''] [''tp1'']"

definition demo_foreign :: control_store where
  "demo_foreign = demo_world ''worker'' [demo_tool ''tp1'' ''no_action''] [''tp1'']"

definition demo_unknown :: control_store where
  "demo_unknown = demo_world ''orchestrator'' [demo_tool ''tp1'' ''bash'', demo_tool ''tp2'' ''bash''] []"

definition demo_stamps :: "event_stamp \<times> event_stamp \<times> event_stamp" where
  "demo_stamps = ((''n3'', 33), (''n1'', 31), (''n2'', 32))"

lemma demo_projections:
  "demo_projection no_interactions demo_decided 30 = Inr (Resolved [''tp1''])"
  "demo_projection no_interactions demo_foreign 30 = Inr (HostFault EvidenceViolation)"
  "demo_projection no_interactions demo_unknown 30 = Inr (Leased ''act1'' ''o1'' 1000)"
  "demo_projection no_interactions demo_unknown 2000 = Inr (ReconcileRequired [''tp1'', ''tp2''])"
  by code_simp+

section \<open>Witnesses of the properties of the reader\<close>

lemma demo_decided_facts:
  "\<exists>facts. read_ingress_facts (read_evidence demo_columns no_interactions) demo_decided demo_ingress = Inr facts
     \<and> reduce_ingress text_cmp facts 30 = Resolved [''tp1''] \<and> execution_epoch (ingress facts) = 1
     \<and> ingress_task (ingress facts) = ''t''"
proof -
  have "case read_ingress_facts (read_evidence demo_columns no_interactions) demo_decided demo_ingress of Inl _ \<Rightarrow> False
      | Inr facts \<Rightarrow> reduce_ingress text_cmp facts 30 = Resolved [''tp1''] \<and> execution_epoch (ingress facts) = 1
          \<and> ingress_task (ingress facts) = ''t''" by code_simp
  then show ?thesis by (auto split: sum.splits)
qed

theorem evidence_rules_out_host_faults_witness:
  "\<exists>facts. read_ingress_facts (read_evidence demo_columns no_interactions) demo_decided demo_ingress = Inr facts
     \<and> host_fault text_cmp facts \<noteq> Some TurnWithoutActivation"
  using demo_decided_facts evidence_rules_out_host_faults [of demo_columns no_interactions demo_decided demo_ingress _ text_cmp] by blast

lemma demo_world_orderly: "orderly_tables demo_columns demo_decided ''t'' demo_ingress"
  by code_simp

theorem verdict_is_recordable_witness:
  "\<exists>st'. record_absorbing demo_world_env text_cmp demo_gate demo_columns no_interactions demo_decided ''t'' demo_ingress
      AbsorbResolved 30 demo_stamps = Inr st'"
proof -
  obtain facts where f: "read_ingress_facts (read_evidence demo_columns no_interactions) demo_decided demo_ingress = Inr facts"
    "reduce_ingress text_cmp facts 30 = Resolved [''tp1'']" "execution_epoch (ingress facts) = 1"
    "ingress_task (ingress facts) = ''t''" using demo_decided_facts by blast
  have n: "names_free demo_world_env demo_gate demo_decided ''t'' demo_ingress (Resolved [''tp1''])" by code_simp
  have c: "can_announce demo_decided ''t'' [(''n1'', 31), (''n2'', 32), (''n3'', 33)]" by code_simp
  have i: "canonical_ingress_id demo_ingress" "safe_positive 1" "safe_positive 30" by code_simp+
  show ?thesis
    using verdict_is_recordable [OF f(1), of text_cmp 30 AbsorbResolved demo_world_env demo_gate "(''n1'', 31)" "(''n2'', 32)" "(''n3'', 33)"]
      demo_world_orderly f(2-4) n c i by (simp add: demo_stamps_def)
qed

lemma demo_absorbed:
  "\<exists>st'. record_absorbing demo_world_env text_cmp demo_gate demo_columns no_interactions demo_foreign ''t'' demo_ingress
      AbsorbHostFault 30 demo_stamps = Inr st' \<and> (\<exists>facts. read_ingress_facts (read_evidence demo_columns no_interactions) st' demo_ingress = Inr facts)"
proof -
  have "case record_absorbing demo_world_env text_cmp demo_gate demo_columns no_interactions demo_foreign ''t'' demo_ingress
      AbsorbHostFault 30 demo_stamps of Inl _ \<Rightarrow> False
    | Inr st' \<Rightarrow> (case read_ingress_facts (read_evidence demo_columns no_interactions) st' demo_ingress of Inl _ \<Rightarrow> False | Inr _ \<Rightarrow> True)"
    by code_simp
  then show ?thesis by (auto split: sum.splits)
qed

lemma demo_foreign_row: "\<exists>r. find_ingress demo_foreign demo_ingress = Some r \<and> ing_task r = ''t'' \<and> ing_id r = demo_ingress"
proof -
  have "map_option (\<lambda>r. (ing_task r, ing_id r)) (find_ingress demo_foreign demo_ingress) = Some (''t'', demo_ingress)" by code_simp
  then show ?thesis by auto
qed

text \<open>Later the messages are gone and another artifact has been stored.\<close>

definition demo_later :: "control_store \<Rightarrow> control_store" where
  "demo_later st = st\<lparr>messages := [], artifacts := artifacts st @ [\<lparr>art_id = ''x'', art_task = ''t'', art_payload = OtherArtifact ''x''\<rparr>]\<rparr>"

lemma demo_absorbed_later:
  "\<exists>st'. record_absorbing demo_world_env text_cmp demo_gate demo_columns no_interactions demo_foreign ''t'' demo_ingress
      AbsorbHostFault 30 demo_stamps = Inr st'
     \<and> (\<exists>facts. read_ingress_facts (read_evidence demo_columns no_interactions) (demo_later st') demo_ingress = Inr facts)"
proof -
  have "case record_absorbing demo_world_env text_cmp demo_gate demo_columns no_interactions demo_foreign ''t'' demo_ingress
      AbsorbHostFault 30 demo_stamps of Inl _ \<Rightarrow> False
    | Inr st' \<Rightarrow> (case read_ingress_facts (read_evidence demo_columns no_interactions) (demo_later st') demo_ingress of
        Inl _ \<Rightarrow> False | Inr _ \<Rightarrow> True)"
    by code_simp
  then show ?thesis by (auto split: sum.splits)
qed

theorem recorded_fault_is_abandoned_witness:
  "\<exists>st' facts gid. record_absorbing demo_world_env text_cmp demo_gate demo_columns no_interactions demo_foreign ''t'' demo_ingress
      AbsorbHostFault 30 demo_stamps = Inr st'
     \<and> read_ingress_facts (read_evidence demo_columns no_interactions) (demo_later st') demo_ingress = Inr facts
     \<and> reduce_ingress text_cmp facts 99 = OperatorAbandoned [gid]"
proof -
  obtain r where r: "find_ingress demo_foreign demo_ingress = Some r" "ing_task r = ''t''" using demo_foreign_row by blast
  obtain st' facts where a: "record_absorbing demo_world_env text_cmp demo_gate demo_columns no_interactions demo_foreign ''t'' demo_ingress
      AbsorbHostFault 30 demo_stamps = Inr st'"
    "read_ingress_facts (read_evidence demo_columns no_interactions) (demo_later st') demo_ingress = Inr facts"
    using demo_absorbed_later by blast
  have k: "keeps_ingress st' (demo_later st') demo_ingress"
    by (simp add: keeps_ingress_def demo_later_def disposition_rows_def find_ingress_def)
  have "\<exists>gid. \<forall>facts. read_ingress_facts (read_evidence demo_columns no_interactions) (demo_later st') demo_ingress = Inr facts \<longrightarrow>
      reduce_ingress text_cmp facts 99 = OperatorAbandoned [gid]"
    using recorded_fault_is_abandoned [OF a(1) [folded r(2)] r(1) k, of "read_evidence demo_columns no_interactions" text_cmp 99] by blast
  with a show ?thesis by metis
qed

theorem absorbed_ingress_leaves_queue_witness:
  "\<exists>st'. record_absorbing demo_world_env text_cmp demo_gate demo_columns no_interactions demo_foreign ''t'' demo_ingress
      AbsorbHostFault 30 demo_stamps = Inr st' \<and> messages st' = messages demo_foreign"
proof -
  obtain r where r: "find_ingress demo_foreign demo_ingress = Some r" "ing_task r = ''t''" "ing_id r = demo_ingress"
    using demo_foreign_row by blast
  obtain st' where a: "record_absorbing demo_world_env text_cmp demo_gate demo_columns no_interactions demo_foreign ''t'' demo_ingress
      AbsorbHostFault 30 demo_stamps = Inr st'" using demo_absorbed by blast
  with absorbed_ingress_leaves_queue [of demo_world_env text_cmp demo_gate demo_columns no_interactions demo_foreign r AbsorbHostFault 30 demo_stamps]
  have "\<exists>as. announces demo_foreign as st'" by (simp add: r)
  with a show ?thesis by (auto simp: announces_def)
qed

end
