(* ===== verification/EvidenceFindings.thy ===== *)
theory EvidenceFindings
  imports EvidenceCases
begin

text \<open>
  What the reader of \<open>Evidence\<close> does not see, and how the reconciliation of several unknown
  activities ends.
\<close>

section \<open>Requests of the orchestrator's tools\<close>

lemma interaction_facts_origin:
  assumes "interaction_facts st its r mids = Inr ins" "i \<in> set ins"
  shows "\<exists>q \<in> set (int_requests its). ir_id q = int_id i \<and> reads_request st (ing_task r) q"
proof -
  from assms(1) obtain vs where vs: "rtraverse (project_interaction st its) (filter (reads_request st (ing_task r)) (int_requests its)) = Inr vs"
    "ins = concat (map (interaction_of (ing_id r) mids) vs)"
    by (auto simp: interaction_facts_def split: sum.splits)
  from assms(2) vs(2) obtain v where v: "v \<in> set vs" "i \<in> set (interaction_of (ing_id r) mids v)" by auto
  from rtraverse_Inr_back [OF vs(1) v(1)] obtain q where q: "q \<in> set (int_requests its)" "reads_request st (ing_task r) q"
    "project_interaction st its q = Inr v" by auto
  have "iv_id v = ir_id q" using q(3) by (rule project_interaction_id)
  moreover have "int_id i = iv_id v" using v(2)
    by (auto simp: interaction_of_def Let_def split: option.splits if_splits)
  ultimately show ?thesis using q by auto
qed

text \<open>
  C40: a Question or permission request that a tool of the orchestrator has published never holds
  its ingress. As long as the table obeys its own shape check, every interaction the reader
  finds is a direct request of the Task, because a request with an owner stores neither a Task
  nor a Session.
\<close>

theorem sourced_requests_never_gate:
  assumes "read_ingress_facts (read_evidence cols its) st iid = Inr facts" "\<forall>q \<in> set (int_requests its). request_shape q"
    and "i \<in> set (interactions facts)"
  shows "\<exists>q \<in> set (int_requests its). ir_id q = int_id i \<and> ir_origin q = None \<and> ir_task q = Some (ingress_task (ingress facts))"
proof -
  have ni: "\<not> integrity_violation facts"
    using assms(1,3) by (auto simp: read_ingress_facts_def rbind_Inr_iff Let_def empty_evidence_def split: option.splits)
  from read_facts_evidence [OF assms(1) ni] obtain r e where r: "find_ingress st iid = Some r"
    "collect_evidence cols its st r = Inr e" "interactions facts = ev_interactions e" by metis
  have task: "ingress_task (ingress facts) = ing_task r"
    using assms(1) r(1) by (auto simp: read_ingress_facts_def rbind_Inr_iff Let_def split: option.splits)
  show ?thesis
  proof (cases rule: collect_evidence_shape [OF r(2)])
    case 1
    then show ?thesis using assms(3) r(3) by (simp add: no_evidence_def)
  next
    case (2 task es ins)
    from interaction_facts_origin [OF 2(4)] assms(3) obtain q where q: "q \<in> set (int_requests its)" "ir_id q = int_id i"
      "reads_request st (ing_task r) q" by (auto simp: r(3) 2(8))
    with bspec [OF assms(2) q(1)] show ?thesis
      by (intro bexI [OF _ q(1)]) (auto simp: reads_request_def request_shape_def task)
  qed
qed

section \<open>Decisions of a turn\<close>

text \<open>A tool request as the part of the recorded turn.\<close>

definition request_part :: "evidence_columns \<Rightarrow> control_store \<Rightarrow> tool_request_row \<Rightarrow> turn_part" where
  "request_part cols st t = \<lparr>tp_type = ''tool'', tp_tool = Some (treq_tool t),
     tp_status = Some (if tool_completed cols st t then ''completed'' else ''running''), tp_input = tool_input cols (treq_id t)\<rparr>"

lemma tool_decision_part:
  assumes "tool_decision cols st t = Inr ds"
  shows "ds = (if part_commits (request_part cols st t)
     then [\<lparr>decision_id = treq_id t, decision_message = treq_message t, decision_command = treq_tool t\<rparr>] else [])"
proof -
  have not_all: "e \<noteq> RequiresFollowup \<longleftrightarrow> e = SatisfiesEpoch \<or> e = InspectDispatch" for e by (cases e) auto
  show ?thesis using assms
    by (auto simp: tool_decision_def part_commits_def request_part_def rbind_Inr_iff not_all split: if_splits sum.splits)
qed

text \<open>
  C0: where the reader succeeds, \<open>orchestratorCommittedDecisionInParts\<close> agrees with it: the decision it
  reports of a turn is the first decision that the reader has found in the turn's tool requests.
\<close>

theorem committed_decision_agrees:
  assumes "rtraverse (tool_decision cols st) tools = Inr ds"
  shows "committed_decision (map (request_part cols st) tools) = map_option decision_command (head_option (concat ds))"
  using assms
proof (induction tools arbitrary: ds)
  case (Cons t tools)
  then obtain d ds' where d: "tool_decision cols st t = Inr d" "rtraverse (tool_decision cols st) tools = Inr ds'" "ds = d # ds'"
    by (auto simp: rbind_Inr_iff)
  show ?case using tool_decision_part [OF d(1)] Cons.IH [OF d(2)] d(3)
    by (auto simp: head_option_append request_part_def)
qed simp

section \<open>Several unknown activities\<close>

text \<open>The interaction that asks about an unknown activity, while it is pending.\<close>

definition asks_about :: "ingress_facts \<Rightarrow> string \<Rightarrow> interaction \<Rightarrow> bool" where
  "asks_about facts rid i \<longleftrightarrow> int_request i = Some rid \<and> int_ingress i = ingress_id (ingress facts)
     \<and> int_outcome i = None \<and> int_resume i = None"

lemma reduce_reconcile:
  assumes "reduce_ingress lc facts now = ReconcileRequired rids"
  shows "settled_projection lc facts = None" "live_activation lc facts now = None"
    "rids = sort_by text_cmp (map req_id (unknown_requests lc facts now))" "unknown_requests lc facts now \<noteq> []"
  using assms by (auto simp: reduce_ingress_split settled_projection_def clock_projection_def split: option.splits if_splits list.splits)

text \<open>
  Two unknown activities abandon their ingress. When the reducer asks for the reconciliation
  of several activities and each of them gets its own question, as the reconciliation does, the
  next reduction is not a wait for the answers but the host fault of ambiguous interactions.
\<close>

theorem unknown_activities_become_ambiguous:
  assumes "reduce_ingress lc facts now = ReconcileRequired rids" "2 \<le> length rids" "list_all2 (asks_about facts) rids asked"
    and "[] \<notin> set rids" "exactly_one (own_epoch_facts facts [LCancellationRequested]) = None"
    and "\<not> (case absolute_deadline (policy facts) of None \<Rightarrow> False | Some d \<Rightarrow> now \<ge> d)"
  shows "reduce_ingress lc (facts\<lparr>interactions := interactions facts @ asked\<rparr>) now = HostFault InteractionAmbiguous"
proof -
  let ?facts = "facts\<lparr>interactions := interactions facts @ asked\<rparr>"
  note r = reduce_reconcile [OF assms(1)]
  have out: "outcomes_of ?facts = outcomes_of facts" by (simp add: outcomes_of_def fun_eq_iff)
  have own: "own_epoch_facts ?facts = own_epoch_facts facts" by (simp add: own_epoch_facts_def fun_eq_iff)
  have used: "activation_consumed ?facts = activation_consumed facts" by (simp add: activation_consumed_def out fun_eq_iff)
  have lease: "latest_ingress_lease lc ?facts = latest_ingress_lease lc facts" by (simp add: latest_ingress_lease_def)
  have ds: "completed_decisions ?facts = completed_decisions facts" by (simp add: completed_decisions_def)
  have valid: "valid_decision_set lc ?facts = valid_decision_set lc facts" by (simp add: valid_decision_set_def ds)
  have fault: "host_fault lc ?facts = host_fault lc facts" by (simp add: host_fault_def ds valid out)
  have bound: "terminal_boundary ?facts = terminal_boundary facts"
    unfolding terminal_boundary_def own by (simp add: current_fact_epoch_def split: option.split)
  have "settled_projection lc ?facts = settled_projection lc facts"
    unfolding settled_projection_def fault bound valid by (simp split: option.split)
  moreover have "live_activation lc ?facts now = live_activation lc facts now"
    unfolding live_activation_def lease used by (simp split: option.split)
  ultimately have same: "settled_projection lc ?facts = None" "live_activation lc ?facts now = None" using r(1,2) by simp_all
  have each: "\<exists>i \<in> set asked. asks_about facts rid i" if "rid \<in> set rids" for rid
    using that assms(3) by (metis in_set_conv_nth list_all2_conv_all_nth)
  have pending: "rid \<in> set (pending_reconciliation ?facts)" if "rid \<in> set rids" for rid
    using each [OF that] that assms(4) by (force simp: pending_reconciliation_def asks_about_def)
  have old: "set (pending_reconciliation facts) \<subseteq> set (pending_reconciliation ?facts)" by (auto simp: pending_reconciliation_def)
  have "unknown_requests lc ?facts now = []"
  proof (rule ccontr)
    assume "unknown_requests lc ?facts now \<noteq> []"
    then obtain q where q: "q \<in> set (unknown_requests lc ?facts now)" by (cases "unknown_requests lc ?facts now") auto
    then have "q \<in> set (unknown_requests lc facts now)"
      using old unfolding unknown_requests_def lease out used by auto
    then have "req_id q \<in> set rids" by (simp add: r(3))
    with pending have "req_id q \<in> set (pending_reconciliation ?facts)" .
    with q show False by (simp add: unknown_requests_def)
  qed
  moreover have "length (waiting_interactions lc ?facts now) \<ge> 2"
  proof -
    have all: "\<forall>i \<in> set asked. int_ingress i = ingress_id (ingress facts) \<and> int_outcome i = None \<and> int_resume i = None"
      using assms(3) by (fastforce simp: asks_about_def in_set_conv_nth list_all2_conv_all_nth)
    then have "filter (\<lambda>i. int_ingress i = ingress_id (ingress facts) \<and> int_outcome i = None
        \<and> (case int_resume i of None \<Rightarrow> True | Some r \<Rightarrow> r > now)) asked = asked" by (simp add: filter_id_conv)
    then show ?thesis using assms(2) list_all2_lengthD [OF assms(3)] by (simp add: waiting_interactions_def)
  qed
  then obtain a b ws where "waiting_interactions lc ?facts now = a # b # ws"
    by (cases "waiting_interactions lc ?facts now"; cases "tl (waiting_interactions lc ?facts now)") auto
  ultimately show ?thesis using same assms(5,6) by (simp add: reduce_ingress_split clock_projection_def own)
qed

section \<open>The findings on concrete tables\<close>

text \<open>A published Question of the orchestrator's own tool, next to a direct request.\<close>

definition demo_published :: interaction_tables where
  "demo_published = \<lparr>int_requests = [\<lparr>ir_id = ''q1'', ir_task = None, ir_origin = Some (BusQuestion, ''occ1''), ir_session = None,
        ir_external = None, ir_type = None, ir_title = None, ir_body = None, ir_payload = None, ir_created = None\<rparr>,
      \<lparr>ir_id = ''q2'', ir_task = Some ''t'', ir_origin = None, ir_session = Some ''s'', ir_external = Some ''x2'', ir_type = Some ''question'',
        ir_title = Some ''Q'', ir_body = Some ''b'', ir_payload = Some (JsonObj [(''tool'', JsonObj [(''messageID'', JsonStr ''m1'')])]),
        ir_created = Some 7\<rparr>],
     int_outcomes = [],
     bus_rows = [\<lparr>bus_occurrence = ''occ1'', bus_event = ''question.asked'', bus_properties = JsonObj
        [(''sessionID'', JsonStr ''s1''), (''id'', JsonStr ''que1''), (''timeCreated'', JsonInt 8),
         (''questions'', JsonArr [JsonObj [(''header'', JsonStr ''H''), (''question'', JsonStr ''?'')]]),
         (''tool'', JsonObj [(''messageID'', JsonStr ''m1'')])]\<rparr>],
     permission_rows = []\<rparr>"

definition demo_asked_turn :: control_store where
  "demo_asked_turn = demo_world ''orchestrator'' [demo_tool ''tp1'' ''question''] [''tp1'']"

text \<open>The published Question reads well, and alone it does not hold its ingress.\<close>

lemma published_question_readable:
  "case project_interaction demo_asked_turn demo_published (hd (int_requests demo_published)) of Inl _ \<Rightarrow> False
   | Inr v \<Rightarrow> iv_status v = None \<and> iv_task v = ''t'' \<and> json_path (Some (iv_payload v)) [''tool'', ''messageID''] = Some (JsonStr ''m1'')"
  "demo_projection (demo_published\<lparr>int_requests := take 1 (int_requests demo_published)\<rparr>) demo_asked_turn 30 = Inr Ready"
  "demo_projection demo_published demo_asked_turn 30 = Inr (Waiting ''q2'' None)"
  by code_simp+

theorem sourced_requests_never_gate_witness:
  "\<exists>facts i. read_ingress_facts (read_evidence demo_columns demo_published) demo_asked_turn demo_ingress = Inr facts
     \<and> interactions facts = [i] \<and> int_id i = ''q2''
     \<and> (\<exists>q. q \<in> set (int_requests demo_published) \<and> ir_id q = int_id i \<and> ir_origin q = None)"
proof -
  have "case read_ingress_facts (read_evidence demo_columns demo_published) demo_asked_turn demo_ingress of Inl _ \<Rightarrow> False
      | Inr facts \<Rightarrow> map int_id (interactions facts) = [''q2'']" by code_simp
  then obtain facts i where f: "read_ingress_facts (read_evidence demo_columns demo_published) demo_asked_turn demo_ingress = Inr facts"
    "interactions facts = [i]" "int_id i = ''q2''" by (auto split: sum.splits)
  have "list_all request_shape (int_requests demo_published)" by code_simp
  with sourced_requests_never_gate [OF f(1), of i] f show ?thesis by (auto simp: list_all_iff)
qed

theorem committed_decision_agrees_witness:
  "committed_decision (map (request_part demo_columns demo_decided) [demo_tool ''tp0'' ''bash'', demo_tool ''tp1'' ''no_action'']) = Some ''no_action''"
proof -
  have r: "rtraverse (tool_decision demo_columns demo_decided) [demo_tool ''tp0'' ''bash'', demo_tool ''tp1'' ''no_action'']
      = Inr [[], [\<lparr>decision_id = ''tp1'', decision_message = ''m1'', decision_command = ''no_action''\<rparr>]]" by code_simp
  from committed_decision_agrees [OF r] show ?thesis by simp
qed

text \<open>The two readings differ where the declaration does not classify its own input: the reader throws.\<close>

definition demo_malformed :: control_store where
  "demo_malformed = demo_world ''orchestrator'' [demo_tool ''tp1'' ''respond_agent_coordination''] [''tp1'']"

lemma malformed_coordination_diverges:
  "tool_decision demo_columns demo_malformed (demo_tool ''tp1'' ''respond_agent_coordination'') = Inl PlainFault"
  "committed_decision [request_part demo_columns demo_malformed (demo_tool ''tp1'' ''respond_agent_coordination'')] = None"
  "demo_projection no_interactions demo_malformed 30 = Inl EvidenceReaderFailed"
  by code_simp+

text \<open>The reconciliation of the two unknown tool calls of \<open>demo_unknown\<close>, and what follows from it.\<close>

definition demo_texts :: "string \<Rightarrow> string \<times> string \<times> json" where
  "demo_texts rid = (''Unknown outcome'', ''b'', JsonArr [])"

definition demo_reconciled :: "reconcile_error + (control_store \<times> interaction_tables) \<times> nat" where
  "demo_reconciled = ensure_activity_reconciliation demo_texts (\<lambda>rid. (rid @ ''/q'', rid @ ''/ev'')) ''t'' demo_ingress 2000
     (demo_unknown, no_interactions) [''tp1'', ''tp2'']"

lemma demo_reconciled_abandons:
  "case demo_reconciled of Inl _ \<Rightarrow> False | Inr ((st, its), n) \<Rightarrow> n = 2
     \<and> demo_projection its st 2000 = Inr (HostFault InteractionAmbiguous)
     \<and> (case surface_operator_gated demo_world_env text_cmp demo_gate demo_columns its st ''t'' demo_ingress (HostFault InteractionAmbiguous) 2000 demo_stamps of
          (st', done) \<Rightarrow> done \<and> (case demo_projection its st' 9999 of Inr (OperatorAbandoned ev) \<Rightarrow> True | _ \<Rightarrow> False))"
  by code_simp

text \<open>The facts before and after, read from the tables: only the two questions are new.\<close>

definition demo_before :: "store_error + ingress_facts" where
  "demo_before = read_ingress_facts (read_evidence demo_columns no_interactions) demo_unknown demo_ingress"

definition demo_after :: "store_error + ingress_facts" where
  "demo_after = (case demo_reconciled of Inl _ \<Rightarrow> Inl IngressNotFound
     | Inr ((st, its), _) \<Rightarrow> read_ingress_facts (read_evidence demo_columns its) st demo_ingress)"

lemma demo_before_after:
  "case (demo_before, demo_after) of (Inr facts, Inr facts') \<Rightarrow>
       reduce_ingress text_cmp facts 2000 = ReconcileRequired [''tp1'', ''tp2'']
       \<and> interactions facts = [] \<and> facts' = facts\<lparr>interactions := interactions facts'\<rparr>
       \<and> list_all2 (asks_about facts) [''tp1'', ''tp2''] (interactions facts')
       \<and> exactly_one (own_epoch_facts facts [LCancellationRequested]) = None \<and> absolute_deadline (policy facts) = None
   | _ \<Rightarrow> False"
  by code_simp

theorem unknown_activities_become_ambiguous_witness:
  "\<exists>facts facts'. demo_before = Inr facts \<and> demo_after = Inr facts'
     \<and> reduce_ingress text_cmp facts 2000 = ReconcileRequired [''tp1'', ''tp2'']
     \<and> reduce_ingress text_cmp facts' 2000 = HostFault InteractionAmbiguous"
proof -
  obtain facts where b: "demo_before = Inr facts"
  proof (cases demo_before)
    case (Inl e)
    from demo_before_after [unfolded Inl prod.case sum.case] show thesis ..
  qed
  obtain facts' where a: "demo_after = Inr facts'"
  proof (cases demo_after)
    case (Inl e)
    from demo_before_after [unfolded b Inl prod.case sum.case] show thesis ..
  qed
  note f = demo_before_after [unfolded a b prod.case sum.case]
  have "reduce_ingress text_cmp (facts\<lparr>interactions := interactions facts'\<rparr>) 2000 = HostFault InteractionAmbiguous"
    using unknown_activities_become_ambiguous [of text_cmp facts 2000 "[''tp1'', ''tp2'']" "interactions facts'"] f by simp
  with a b f show ?thesis by metis
qed

end
