(* ===== verification/IngressDelivery.thy ===== *)
theory IngressDelivery
  imports Absorption
begin

text \<open>
  How an event for the Orchestrator becomes an ingress and is rebuilt from it
  (\<open>engine/task-root-ingress-delivery.ts\<close>, \<open>engine/task-root-ingress-source.ts\<close>,
  \<open>orchestrator/event.ts\<close>): the source that an event names, acceptance into the current epoch, the wake
  of a due wait, the retry budget of infrastructure failures, and the event that the row of an
  ingress stands for.
\<close>

section \<open>Events\<close>

datatype root_message_kind = RootOperator | RootOrchestrator | RootMission

text \<open>
  An event has one optional member per kind of source. What the code only carries along (the
  scheduler delivery of a message, the lineage of a resume, the outcome of a failure) is JSON.
\<close>

record orchestrator_event =
  oe_note :: "string option"
  oe_creation :: "(string \<times> string option) option"
  oe_wait_activity :: "json option"
  oe_wait_wake :: "(string \<times> string \<times> int) option"
  oe_root :: "(string \<times> root_message_kind \<times> json option) option"
  oe_resume :: "(string \<times> json) option"
  oe_coordination :: "string option"
  oe_recovery :: "string option"
  oe_failure :: "(string \<times> json) option"
  oe_lifecycle :: "(string \<times> string \<times> string) option"

definition no_event :: orchestrator_event where
  "no_event = \<lparr>oe_note = None, oe_creation = None, oe_wait_activity = None, oe_wait_wake = None, oe_root = None,
     oe_resume = None, oe_coordination = None, oe_recovery = None, oe_failure = None, oe_lifecycle = None\<rparr>"

datatype source_kind =
    TaskCreation
  | OperatorMessage
  | OrchestratorMessage
  | MissionMessage
  | MissionAcceptanceResume
  | CoordinationRequest
  | InfrastructureRecovery
  | DispatchInfrastructureFailure
  | AgentLifecycleDelivery
  | TaskWaitActivity
  | TaskWaitWake
  | OrchestratorEvent

definition when_some :: "'a option \<Rightarrow> 'b \<Rightarrow> 'b list" where
  "when_some x k = (if x = None then [] else [k])"

definition message_kind :: "root_message_kind \<Rightarrow> source_kind" where
  "message_kind k = (case k of RootOperator \<Rightarrow> OperatorMessage | RootOrchestrator \<Rightarrow> OrchestratorMessage
     | RootMission \<Rightarrow> MissionMessage)"

definition source_candidates :: "orchestrator_event \<Rightarrow> source_kind list" where
  "source_candidates ev =
     (let named = when_some (oe_creation ev) TaskCreation
        @ (case oe_root ev of None \<Rightarrow> [] | Some (_, k, _) \<Rightarrow> [message_kind k])
        @ when_some (oe_resume ev) MissionAcceptanceResume
        @ when_some (oe_coordination ev) CoordinationRequest
        @ when_some (oe_recovery ev) InfrastructureRecovery
        @ when_some (oe_failure ev) DispatchInfrastructureFailure
        @ when_some (oe_lifecycle ev) AgentLifecycleDelivery
        @ when_some (oe_wait_activity ev) TaskWaitActivity
        @ when_some (oe_wait_wake ev) TaskWaitWake
      in if named = [] \<and> truthy_text (oe_note ev) \<noteq> None then [OrchestratorEvent] else named)"

datatype delivery_error =
    StoreRefused store_error
  | SessionNotBound
  | TaskDoesNotAccept
  | AmbiguousSource
  | MalformedEvent
  | TaskNotFound
  | BrokenSource
  | GateRefused absorb_error
  | SuppressionInvalid
  | SuppressionDrift

definition source_kind_of :: "orchestrator_event \<Rightarrow> delivery_error + source_kind" where
  "source_kind_of ev = (case source_candidates ev of [k] \<Rightarrow> Inr k | _ \<Rightarrow> Inl AmbiguousSource)"

section \<open>The source of an event\<close>

record event_identity =
  id_message :: "string option"
  id_request :: "string option"
  id_recovery :: "string option"
  id_infrastructure :: "string option"
  id_wait_job :: "string option"
  id_lifecycle :: "string option"
  id_creation :: "string option"

definition no_identity :: event_identity where
  "no_identity = \<lparr>id_message = None, id_request = None, id_recovery = None, id_infrastructure = None, id_wait_job = None,
     id_lifecycle = None, id_creation = None\<rparr>"

text \<open>\<open>identity?.trim()\<close>, where an empty text counts as absent.\<close>

definition trimmed :: "string option \<Rightarrow> string option" where
  "trimmed x = truthy_text (map_option js_trim x)"

definition or_else :: "'a option \<Rightarrow> 'a option \<Rightarrow> 'a option" where
  "or_else x y = (case x of Some a \<Rightarrow> Some a | None \<Rightarrow> y)"

text \<open>
  \<open>encode\<close> is the JSON of an event and \<open>hash\<close> the digest of it. The identity that
  \<open>dispatchTaskLoop\<close> takes from an event is \<open>identity_of\<close>.
\<close>

definition source_for_event ::
  "(orchestrator_event \<Rightarrow> (string \<times> json) list) \<Rightarrow> ((string \<times> json) list \<Rightarrow> string) \<Rightarrow> orchestrator_event \<Rightarrow> event_identity
   \<Rightarrow> ingress_source \<times> string \<times> (string \<times> json) list option" where
  "source_for_event encode hash ev ident =
     (case trimmed (id_message ident) of Some m \<Rightarrow> (SrcMessage, m, None) | None \<Rightarrow>
      case trimmed (id_lifecycle ident) of Some e \<Rightarrow> (SrcProtocolEvent, e, None) | None \<Rightarrow>
      case or_else (trimmed (id_infrastructure ident)) (or_else (trimmed (id_recovery ident)) (trimmed (id_request ident))) of
        Some a \<Rightarrow> (SrcEngineArtifact, a, None) | None \<Rightarrow>
      case trimmed (id_creation ident) of Some t \<Rightarrow> (SrcTask, t, None) | None \<Rightarrow>
      (SrcInline, case trimmed (id_wait_job ident) of Some w \<Rightarrow> w | None \<Rightarrow> hash (encode ev), Some (encode ev)))"

definition identity_of :: "orchestrator_event \<Rightarrow> event_identity" where
  "identity_of ev = \<lparr>
     id_message = or_else (map_option fst (oe_root ev)) (map_option fst (oe_resume ev)),
     id_request = oe_coordination ev, id_recovery = oe_recovery ev, id_infrastructure = map_option fst (oe_failure ev),
     id_wait_job = map_option (\<lambda>(_, fire, _). fire) (oe_wait_wake ev), id_lifecycle = map_option fst (oe_lifecycle ev),
     id_creation = map_option fst (oe_creation ev)\<rparr>"

section \<open>Acceptance\<close>

text \<open>
  Besides the store environment: the event schema, the JSON of an event and its SHA-256 digest, the
  text of a JSON payload, the deterministic identities of the budget artifact of an epoch and of
  the suppressed delivery of a dispatch, and the reason text of the former.
\<close>

definition default_policy :: policy_input where
  "default_policy = \<lparr>pi_turns = JInt 3, pi_activations = JInt 4, pi_deadline = None\<rparr>"

record delivery_env =
  de_store :: store_env
  de_valid :: "orchestrator_event \<Rightarrow> bool"
  de_encode :: "orchestrator_event \<Rightarrow> (string \<times> json) list"
  de_hash :: "(string \<times> json) list \<Rightarrow> string"
  de_text :: "json \<Rightarrow> string"
  de_budget_ident :: "string \<Rightarrow> int \<Rightarrow> string"
  de_budget_reason :: "int \<Rightarrow> string"
  de_suppression_ident :: "string \<Rightarrow> string \<Rightarrow> string"

definition persist_ingress ::
  "delivery_env \<Rightarrow> control_store \<Rightarrow> task_row \<Rightarrow> orchestrator_event \<Rightarrow> event_identity \<Rightarrow> int
   \<Rightarrow> delivery_error + control_store \<times> string" where
  "persist_ingress env st task ev ident now =
     (if truthy_text (row_session task) = None then Inl SessionNotBound
      else case task_projection (de_store env) st (row_id task) of Inl e \<Rightarrow> Inl (StoreRefused e) | Inr lc \<Rightarrow>
      if \<not> de_valid env ev then Inl MalformedEvent
      else rbind (source_kind_of ev) (\<lambda>k.
        if proj_status lc \<noteq> Active \<and> k \<noteq> OperatorMessage \<and> k \<noteq> CoordinationRequest then Inl TaskDoesNotAccept
        else (case source_for_event (de_encode env) (de_hash env) ev ident of (src, sid, payload) \<Rightarrow>
          case accept_ingress (de_store env) st \<lparr>ai_task = row_id task, ai_epoch = JInt (proj_epoch lc), ai_source = src,
                 ai_source_id = sid, ai_inline = payload, ai_policy = default_policy, ai_now = now\<rparr> of
            Inl e \<Rightarrow> Inl (StoreRefused e)
          | Inr (st', r) \<Rightarrow> Inr (st', ing_id r))))"

definition persist_message_ingress ::
  "delivery_env \<Rightarrow> control_store \<Rightarrow> task_row \<Rightarrow> string \<Rightarrow> root_message_kind \<Rightarrow> json option \<Rightarrow> int
   \<Rightarrow> delivery_error + control_store \<times> string" where
  "persist_message_ingress env st task mid kind sched now =
     persist_ingress env st task (no_event\<lparr>oe_root := Some (mid, kind, sched)\<rparr>) (no_identity\<lparr>id_message := Some mid\<rparr>) now"

definition persist_resume_ingress ::
  "delivery_env \<Rightarrow> control_store \<Rightarrow> task_row \<Rightarrow> orchestrator_event \<Rightarrow> int \<Rightarrow> delivery_error + control_store \<times> string" where
  "persist_resume_ingress env st task ev now =
     (case oe_resume ev of None \<Rightarrow> Inl MalformedEvent
      | Some (mid, _) \<Rightarrow> persist_ingress env st task ev (no_identity\<lparr>id_message := Some mid\<rparr>) now)"

definition persist_coordination_ingress ::
  "delivery_env \<Rightarrow> control_store \<Rightarrow> string \<Rightarrow> string \<Rightarrow> string \<Rightarrow> int \<Rightarrow> delivery_error + control_store \<times> string" where
  "persist_coordination_ingress env st tid root rid now =
     (case find_task (st_tasks st) tid of None \<Rightarrow> Inl TaskNotFound | Some task \<Rightarrow>
      if row_session task \<noteq> Some root then Inl TaskNotFound
      else persist_ingress env st task (no_event\<lparr>oe_coordination := Some rid\<rparr>) (no_identity\<lparr>id_request := Some rid\<rparr>) now)"

text \<open>The first due wait becomes an ingress, and is settled by it.\<close>

definition wake_event :: "wait_row \<Rightarrow> orchestrator_event" where
  "wake_event w = no_event\<lparr>oe_note := Some (''Task wait '' @ wait_id w @ '' became due''),
     oe_wait_wake := Some (wait_id w, wait_id w, due_at w)\<rparr>"

definition materialize_due_wait ::
  "delivery_env \<Rightarrow> control_store \<Rightarrow> task_row \<Rightarrow> int \<Rightarrow> int \<Rightarrow> delivery_error + control_store \<times> string option" where
  "materialize_due_wait env st task ep now =
     (case due_task_waits st (row_id task) ep now of
        [] \<Rightarrow> Inr (st, None)
      | w # _ \<Rightarrow>
          rbind (persist_ingress env st task (wake_event w) (no_identity\<lparr>id_wait_job := Some (wait_id w)\<rparr>) now) (\<lambda>(st1, iid).
            case settle_task_wait st1 (wait_id w) iid DueIngressAccepted now of
              Inl e \<Rightarrow> Inl (StoreRefused e)
            | Inr st2 \<Rightarrow> Inr (st2, Some iid)))"

section \<open>Artifacts as sources\<close>

text \<open>The columns of \<open>engine_artifact\<close> that only this component and the prompt read.\<close>

record artifact_columns =
  ac_kind :: string
  ac_label :: string
  ac_payload :: json

text \<open>
  What the rows of other components say: an artifact and the outcome made of it, the input message
  of an agent lifecycle event, the Worker Turn that a message started (its Task and dispatch),
  whether a message parses, its provenance, and the parser of stored events.
\<close>

record source_columns =
  sc_artifact :: "artifact_row \<Rightarrow> artifact_columns"
  sc_outcome :: "string \<Rightarrow> json"
  sc_input_message :: "string \<Rightarrow> string option"
  sc_worker :: "string \<Rightarrow> string \<Rightarrow> (string \<times> string option) option"
  sc_message_valid :: "string \<Rightarrow> bool"
  sc_provenance :: "string \<Rightarrow> (root_message_kind \<times> json option) option"
  sc_parse :: "(string \<times> json) list \<Rightarrow> orchestrator_event option"

definition infrastructure_kind :: string where
  "infrastructure_kind = ''task-infrastructure-error''"

definition failure_paths :: "string list list" where
  "failure_paths = [[''context'', ''dispatchID''], [''operation''], [''reason'']]"

section \<open>The retry budget\<close>

definition infrastructure_budget :: nat where
  "infrastructure_budget = 5"

text \<open>\<open>json_extract\<close> yields \<open>NULL\<close> for a missing member and for a JSON null.\<close>

definition json_not_null :: "json \<Rightarrow> string list \<Rightarrow> bool" where
  "json_not_null p path = (case json_path (Some p) path of None \<Rightarrow> False | Some v \<Rightarrow> v \<noteq> JsonNull)"

definition counts_as_retry :: "artifact_columns \<Rightarrow> bool" where
  "counts_as_retry ac \<longleftrightarrow> ac_kind ac = infrastructure_kind \<and> list_all (json_not_null (ac_payload ac)) failure_paths"

definition infrastructure_ingresses :: "source_columns \<Rightarrow> control_store \<Rightarrow> string \<Rightarrow> int \<Rightarrow> ingress_row list" where
  "infrastructure_ingresses sc st tid ep =
     filter (\<lambda>r. ing_source r = SrcEngineArtifact
         \<and> (case find_artifact st (ing_source_id r) of None \<Rightarrow> False | Some a \<Rightarrow> counts_as_retry (sc_artifact sc a)))
       (epoch_ingresses st tid ep)"

text \<open>
  The suppressed delivery of a dispatch (\<open>engine/dispatch-delivery-disposition.ts\<close>): recorded once,
  an equal record is reused, a different one is drift.
\<close>

record suppression =
  sp_task :: string
  sp_lineage :: string
  sp_dispatch :: string
  sp_source :: string
  sp_epoch :: int
  sp_budget :: string

definition stable_fields :: "suppression \<Rightarrow> (string \<times> json) list" where
  "stable_fields sp = [(''task_id'', JsonStr (sp_task sp)), (''dispatch_lineage_id'', JsonStr (sp_lineage sp)),
     (''dispatch_id'', JsonStr (sp_dispatch sp)), (''infrastructure_source_artifact_id'', JsonStr (sp_source sp)),
     (''execution_epoch'', JsonInt (sp_epoch sp)), (''budget_artifact_id'', JsonStr (sp_budget sp)),
     (''disposition'', JsonStr ''budget_suppressed'')]"

definition suppression_kind :: string where
  "suppression_kind = ''dispatch_delivery_disposition''"

fun nonempty_string :: "json option \<Rightarrow> bool" where
  "nonempty_string (Some (JsonStr t)) = (t \<noteq> [])"
| "nonempty_string _ = False"

fun positive_integer :: "json option \<Rightarrow> bool" where
  "positive_integer (Some (JsonInt n)) = (n > 0)"
| "positive_integer _ = False"

definition suppression_texts :: "string list" where
  "suppression_texts = [''task_id'', ''dispatch_lineage_id'', ''dispatch_id'', ''infrastructure_source_artifact_id'',
     ''budget_artifact_id'']"

definition suppression_numbers :: "string list" where
  "suppression_numbers = [''execution_epoch'', ''time_created'']"

text \<open>The strict schema of the payload.\<close>

definition valid_suppression :: "json \<Rightarrow> bool" where
  "valid_suppression p =
     (case p of
        JsonObj kvs \<Rightarrow> list_all (\<lambda>(k, _). k \<in> set (''disposition'' # suppression_texts @ suppression_numbers)) kvs
          \<and> list_all (\<lambda>k. nonempty_string (map_of kvs k)) suppression_texts
          \<and> list_all (\<lambda>k. positive_integer (map_of kvs k)) suppression_numbers
          \<and> map_of kvs ''disposition'' = Some (JsonStr ''budget_suppressed'')
      | _ \<Rightarrow> False)"

definition record_suppression ::
  "delivery_env \<Rightarrow> source_columns \<Rightarrow> control_store \<Rightarrow> suppression \<Rightarrow> int \<Rightarrow> event_stamp \<Rightarrow> delivery_error + control_store" where
  "record_suppression env sc st sp now stamp =
     (case find (\<lambda>a. art_task a = sp_task sp \<and> ac_kind (sc_artifact sc a) = suppression_kind
              \<and> json_path (Some (ac_payload (sc_artifact sc a))) [''dispatch_id''] = Some (JsonStr (sp_dispatch sp))) (artifacts st) of
        Some a \<Rightarrow>
          (let p = ac_payload (sc_artifact sc a)
           in if \<not> valid_suppression p then Inl SuppressionInvalid
              else if list_all (\<lambda>(k, v). json_field p k = Some v) (stable_fields sp) then Inr st
              else Inl SuppressionDrift)
      | None \<Rightarrow>
          (case insert_artifact st \<lparr>art_id = de_suppression_ident env (sp_task sp) (sp_dispatch sp), art_task = sp_task sp,
                  art_payload = OtherArtifact (de_text env (JsonObj (stable_fields sp @ [(''time_created'', JsonInt now)])))\<rparr> stamp of
             Inl e \<Rightarrow> Inl (StoreRefused e) | Inr st' \<Rightarrow> Inr st'))"

datatype dispatch_result = DispatchAccepted | DispatchIgnored | DispatchSuppressed

text \<open>
  The admission transaction of \<open>dispatchTaskLoop\<close>: the stamps of the announcements and one clock
  reading.
\<close>

record dispatch_input =
  dl_task :: string
  dl_event :: "orchestrator_event option"
  dl_now :: int
  dl_stamps :: "(event_stamp \<times> event_stamp) \<times> event_stamp"

definition budget_payload :: "delivery_env \<Rightarrow> int \<Rightarrow> artifact_payload" where
  "budget_payload env ep = OtherArtifact (de_text env (JsonObj [(''component'', JsonStr ''task-control''),
     (''operation'', JsonStr ''infrastructure-failure-budget-exhausted''), (''reason'', JsonStr (de_budget_reason env ep)),
     (''context'', JsonObj [(''epoch'', JsonInt ep)])]))"

definition suppressed_dispatch :: "string \<Rightarrow> string \<times> json \<Rightarrow> int \<Rightarrow> string \<Rightarrow> suppression option" where
  "suppressed_dispatch tid failure ep budget =
     (let auth = (\<lambda>k. json_path (Some (snd failure)) [''recovery_authority'', k])
      in if auth ''occurrence_status'' \<noteq> Some (JsonStr ''occurrence_committed'') then None
         else case (json_string (auth ''dispatch_lineage_id''), json_string (auth ''dispatch_id'')) of
             (Some l, Some d) \<Rightarrow> Some \<lparr>sp_task = tid, sp_lineage = l, sp_dispatch = d, sp_source = fst failure,
                                   sp_epoch = ep, sp_budget = budget\<rparr>
           | _ \<Rightarrow> None)"

definition suppress_retry ::
  "delivery_env \<Rightarrow> source_columns \<Rightarrow> control_store \<Rightarrow> dispatch_input \<Rightarrow> string \<times> json \<Rightarrow> int \<Rightarrow> delivery_error + control_store" where
  "suppress_retry env sc st inp failure ep =
     (let gid = de_budget_ident env (dl_task inp) ep
      in case record_gate st gid (dl_task inp) (budget_payload env ep) (fst (dl_stamps inp)) of
           Inl e \<Rightarrow> Inl (GateRefused e)
         | Inr st1 \<Rightarrow>
             (case suppressed_dispatch (dl_task inp) failure ep gid of
                None \<Rightarrow> Inr st1
              | Some sp \<Rightarrow> record_suppression env sc st1 sp (dl_now inp) (snd (dl_stamps inp))))"

definition spent_budget ::
  "delivery_env \<Rightarrow> source_columns \<Rightarrow> control_store \<Rightarrow> string \<Rightarrow> orchestrator_event
   \<Rightarrow> delivery_error + ((string \<times> json) \<times> int) option" where
  "spent_budget env sc st tid ev =
     (case oe_failure ev of
        None \<Rightarrow> Inr None
      | Some failure \<Rightarrow>
          (case task_projection (de_store env) st tid of
             Inl e \<Rightarrow> Inl (StoreRefused e)
           | Inr lc \<Rightarrow> Inr (if length (infrastructure_ingresses sc st tid (proj_epoch lc)) \<ge> infrastructure_budget
                            then Some (failure, proj_epoch lc) else None)))"

definition dispatch_task_loop ::
  "delivery_env \<Rightarrow> source_columns \<Rightarrow> (control_store \<Rightarrow> bool) \<Rightarrow> control_store \<Rightarrow> dispatch_input
   \<Rightarrow> delivery_error + control_store \<times> dispatch_result" where
  "dispatch_task_loop env sc admit st inp =
     (case find_task (st_tasks st) (dl_task inp) of None \<Rightarrow> Inl TaskNotFound | Some task \<Rightarrow>
      let ev = (case dl_event inp of Some e \<Rightarrow> e | None \<Rightarrow> no_event\<lparr>oe_note := Some ''Task wake''\<rparr>)
      in if \<not> de_valid env ev then Inl MalformedEvent
      else if \<not> admit st then Inr (st, DispatchIgnored)
      else rbind (spent_budget env sc st (dl_task inp) ev) (\<lambda>spent.
           case spent of
             Some (failure, ep) \<Rightarrow> rbind (suppress_retry env sc st inp failure ep) (\<lambda>st'. Inr (st', DispatchSuppressed))
           | None \<Rightarrow> rbind (persist_ingress env st task ev (identity_of ev) (dl_now inp)) (\<lambda>(st', _).
               Inr (st', DispatchAccepted))))"

section \<open>The event of an ingress\<close>

definition artifact_event :: "source_columns \<Rightarrow> artifact_row \<Rightarrow> orchestrator_event" where
  "artifact_event sc a =
     (let ac = sc_artifact sc a; aid = art_id a
      in if ac_kind ac = ''agent_coordination_request'' then no_event\<lparr>oe_coordination := Some aid\<rparr>
         else if ac_kind ac = infrastructure_kind
              \<and> list_all (\<lambda>path. json_truthy (json_path (Some (ac_payload ac)) path)) failure_paths
           then no_event\<lparr>oe_failure := Some (aid, sc_outcome sc aid)\<rparr>
         else no_event\<lparr>oe_recovery := Some aid\<rparr>)"

definition protocol_event_of :: "source_columns \<Rightarrow> ingress_row \<Rightarrow> protocol_event \<Rightarrow> evidence_fault + orchestrator_event" where
  "protocol_event_of sc r e =
     (if event_kind e = OtherEvent ''agent.execution.lifecycle''
      then (case (truthy_text (event_session e), truthy_text (sc_input_message sc (event_id e))) of
          (Some s, Some m) \<Rightarrow>
            (case sc_worker sc s m of
               Some (t, Some d) \<Rightarrow> if t \<noteq> ing_task r \<or> d = [] then Inl IntegrityFault
                 else Inr (no_event\<lparr>oe_note := Some (''Agent lifecycle '' @ event_id e), oe_lifecycle := Some (event_id e, s, d)\<rparr>)
             | _ \<Rightarrow> Inl IntegrityFault)
        | _ \<Rightarrow> Inl IntegrityFault)
      else Inr (no_event\<lparr>oe_note := Some (''Protocol occurrence '' @ event_id e)\<rparr>))"

definition message_event :: "source_columns \<Rightarrow> message_row \<Rightarrow> evidence_fault + orchestrator_event" where
  "message_event sc m =
     (if \<not> sc_message_valid sc (msg_id m) then Inl PlainFault
      else if msg_role m \<noteq> ''user'' then Inl IntegrityFault
      else case sc_provenance sc (msg_id m) of None \<Rightarrow> Inl IntegrityFault
      | Some (k, sched) \<Rightarrow> Inr (no_event\<lparr>oe_note := Some (''Task-root Message '' @ msg_id m), oe_root := Some (msg_id m, k, sched)\<rparr>))"

definition event_for_ingress :: "source_columns \<Rightarrow> control_store \<Rightarrow> ingress_row \<Rightarrow> evidence_fault + orchestrator_event" where
  "event_for_ingress sc st r =
     (case ing_source r of
        SrcInline \<Rightarrow> (case Option.bind (ing_inline r) (sc_parse sc) of None \<Rightarrow> Inl PlainFault | Some ev \<Rightarrow> Inr ev)
      | SrcTask \<Rightarrow> (case find_task (st_tasks st) (ing_source_id r) of None \<Rightarrow> Inl IntegrityFault
          | Some t \<Rightarrow> if row_id t \<noteq> ing_task r then Inl IntegrityFault
                      else Inr (no_event\<lparr>oe_creation := Some (row_id t, None)\<rparr>))
      | SrcEngineArtifact \<Rightarrow> (case find_artifact st (ing_source_id r) of None \<Rightarrow> Inl IntegrityFault
          | Some a \<Rightarrow> if art_task a \<noteq> ing_task r then Inl IntegrityFault else Inr (artifact_event sc a))
      | SrcProtocolEvent \<Rightarrow> (case find (\<lambda>e. event_id e = ing_source_id r) (event_log (st_tasks st)) of
            None \<Rightarrow> Inl IntegrityFault | Some e \<Rightarrow> protocol_event_of sc r e)
      | SrcMessage \<Rightarrow> (case find_message st (ing_source_id r) of None \<Rightarrow> Inl IntegrityFault | Some m \<Rightarrow> message_event sc m))"

section \<open>Reading a recovery fact\<close>

text \<open>
  \<open>describeProcessRecoveryFact\<close> (\<open>engine/describe.ts\<close>), which renders the event for the
  Orchestrator's prompt, as far as it decides which artifacts are recovery facts: the checks
  of the row before it reads its context. A refused fact makes the Turn throw.
\<close>

definition recovery_fact :: "source_columns \<Rightarrow> control_store \<Rightarrow> string \<Rightarrow> string \<Rightarrow> artifact_row option" where
  "recovery_fact sc st tid fid =
     (case find_artifact st fid of None \<Rightarrow> None | Some a \<Rightarrow>
      let ac = sc_artifact sc a; op = json_string (json_path (Some (ac_payload ac)) [''operation''])
      in if art_task a \<noteq> tid \<or> ac_kind ac \<noteq> infrastructure_kind \<or> ac_label ac \<noteq> ''process-recovery'' then None
         else if op \<noteq> Some ''handoff-process-owned-task-execution'' \<and> op \<noteq> Some ''recover-interrupted-task-execution'' then None
         else Some a)"

text \<open>
  The artifact that \<open>recordWorkerTurnSettlementFailure\<close> (\<open>agent/runner.ts\<close>) records when a
  physical Worker Turn fails to settle. An error is its name, if it is an \<open>Error\<close>, and its text;
  the evidence names descriptor, hash, input message and, for a dispatched Turn, the dispatch.
\<close>

record turn_evidence =
  te_descriptor :: string
  te_hash :: string
  te_message :: string
  te_dispatch :: "string option"

definition optional_text :: "string \<Rightarrow> string option \<Rightarrow> (string \<times> json) list" where
  "optional_text k t = (case truthy_text t of None \<Rightarrow> [] | Some v \<Rightarrow> [(k, JsonStr v)])"

definition settlement_context :: "json \<Rightarrow> turn_evidence option \<Rightarrow> json" where
  "settlement_context outcome ev = JsonObj ((''outcome'', outcome) #
     (case ev of None \<Rightarrow> [] | Some e \<Rightarrow> [(''worker_turn_descriptor_id'', JsonStr (te_descriptor e)),
        (''worker_turn_descriptor_hash'', JsonStr (te_hash e)), (''input_message_id'', JsonStr (te_message e))]
        @ optional_text ''current_dispatch_id'' (te_dispatch e)))"

definition settlement_failure_artifact ::
  "string \<Rightarrow> string option \<Rightarrow> string \<Rightarrow> string \<Rightarrow> json \<Rightarrow> turn_evidence option \<Rightarrow> artifact_columns" where
  "settlement_failure_artifact operation error_name text sid outcome ev =
     \<lparr>ac_kind = infrastructure_kind, ac_label = ''worker-runtime'',
      ac_payload = JsonObj ([(''component'', JsonStr ''worker-runtime''), (''operation'', JsonStr operation),
        (''reason'', JsonStr (case error_name of Some n \<Rightarrow> n @ '': '' @ text | None \<Rightarrow> text))]
        @ optional_text ''errorName'' error_name @ optional_text ''sessionID'' (Some sid)
        @ [(''context'', settlement_context outcome ev)])\<rparr>"

end
