(* ===== verification/DeliveryProps.thy ===== *)
theory DeliveryProps
  imports IngressDelivery
begin

text \<open>
  What becomes of an event between its acceptance as an ingress and its delivery, and the bound on
  the Orchestrator Turns that infrastructure failures can cause.
\<close>

section \<open>The row of an accepted event\<close>

definition same_sources :: "control_store \<Rightarrow> control_store \<Rightarrow> bool" where
  "same_sources st st' \<longleftrightarrow> st_tasks st' = st_tasks st \<and> messages st' = messages st \<and> artifacts st' = artifacts st"

lemma same_sources_find:
  assumes "same_sources st st'"
  shows "find_message st' i = find_message st i" "find_artifact st' i = find_artifact st i"
  using assms by (simp_all add: same_sources_def find_message_def find_artifact_def)

lemma accept_row:
  assumes ok: "store_ok st" and acc: "accept_ingress env st inp = Inr (st', r)"
  shows "find_ingress st' (ing_id r) = Some r" "ing_task r = ai_task inp" "ing_source r = ai_source inp"
    "ing_source_id r = ai_source_id inp" "ing_inline r = ai_inline inp" "ing_epoch r = js_number (ai_epoch inp)"
    "same_sources st st'" "ingresses st' = ingresses st \<or> ingresses st' = ingresses st @ [r]"
proof -
  have "r \<in> set (ingresses st') \<and> ing_task r = ai_task inp \<and> ing_source r = ai_source inp \<and> ing_source_id r = ai_source_id inp
     \<and> ing_inline r = ai_inline inp \<and> ing_epoch r = js_number (ai_epoch inp) \<and> same_sources st st'
     \<and> (ingresses st' = ingresses st \<or> ingresses st' = ingresses st @ [r])"
    using acc
  proof (cases rule: accept_cases)
    case replay
    have "r \<in> set (ingresses st)" using replay(2) by (auto simp: find_source_def find_Some_iff)
    moreover have "ing_task r = ai_task inp \<and> ing_source r = ai_source inp \<and> ing_source_id r = ai_source_id inp"
      using replay(2) by (auto simp: find_source_def find_Some_iff)
    moreover have "ing_inline r = ai_inline inp \<and> ai_epoch inp = JInt (ing_epoch r)"
      using replay(3) by (auto simp: replay_ingress_def split: if_split_asm)
    ultimately show ?thesis using replay(1) by (auto simp: same_sources_def)
  next
    case (admitted task)
    show ?thesis
      by (rule admit_cases [OF admitted(2)]) (simp add: same_sources_def)
  qed
  moreover have "distinct (map ing_id (ingresses st'))"
    using accept_ok [OF ok acc] by (simp add: store_ok_def ingresses_ok_def ingress_ids_def)
  ultimately show "find_ingress st' (ing_id r) = Some r" "ing_task r = ai_task inp" "ing_source r = ai_source inp"
    "ing_source_id r = ai_source_id inp" "ing_inline r = ai_inline inp" "ing_epoch r = js_number (ai_epoch inp)"
    "same_sources st st'" "ingresses st' = ingresses st \<or> ingresses st' = ingresses st @ [r]"
    by (auto simp: find_ingress_def intro: find_key_unique)
qed

lemma persist_row:
  assumes ok: "store_ok st" and per: "persist_ingress env st task ev ident now = Inr (st', iid)"
  obtains k r src sid payload lc inp where "accept_ingress (de_store env) st inp = Inr (st', r)" "source_kind_of ev = Inr k" "de_valid env ev"
    "source_for_event (de_encode env) (de_hash env) ev ident = (src, sid, payload)"
    "task_projection (de_store env) st (row_id task) = Inr lc"
    "find_ingress st' iid = Some r" "ing_task r = row_id task" "ing_source r = src" "ing_source_id r = sid"
    "ing_inline r = payload" "ing_epoch r = proj_epoch lc" "same_sources st st'"
    "ingresses st' = ingresses st \<or> ingresses st' = ingresses st @ [r]" "store_ok st'"
proof -
  obtain src sid payload where s: "source_for_event (de_encode env) (de_hash env) ev ident = (src, sid, payload)"
    by (cases "source_for_event (de_encode env) (de_hash env) ev ident") auto
  from per s obtain k lc r where k: "source_kind_of ev = Inr k" and v: "de_valid env ev"
    and lc: "task_projection (de_store env) st (row_id task) = Inr lc"
    and acc: "accept_ingress (de_store env) st \<lparr>ai_task = row_id task, ai_epoch = JInt (proj_epoch lc), ai_source = src,
        ai_source_id = sid, ai_inline = payload, ai_policy = default_policy, ai_now = now\<rparr> = Inr (st', r)" and i: "iid = ing_id r"
    by (auto simp: persist_ingress_def rbind_Inr_iff split: if_split_asm sum.split_asm)
  from accept_row [OF ok acc] accept_ok [OF ok acc] show thesis
    by (intro that [OF acc k v s lc]) (simp_all add: i)
qed

section \<open>The event that comes back\<close>

text \<open>What the tables must say of the source that an event names.\<close>

primrec optionally :: "('a \<Rightarrow> bool) \<Rightarrow> 'a option \<Rightarrow> bool" where
  "optionally P None = True"
| "optionally P (Some x) = P x"

definition canonical_name :: "string \<Rightarrow> bool" where
  "canonical_name i \<longleftrightarrow> trimmed (Some i) = Some i"

definition names_message :: "source_columns \<Rightarrow> control_store \<Rightarrow> string \<Rightarrow> bool" where
  "names_message sc st m \<longleftrightarrow> canonical_name m \<and> map_option msg_role (find_message st m) = Some ''user'' \<and> sc_message_valid sc m"

definition names_artifact :: "control_store \<Rightarrow> string \<Rightarrow> string \<Rightarrow> bool" where
  "names_artifact st tid i \<longleftrightarrow> canonical_name i \<and> map_option art_task (find_artifact st i) = Some tid"

definition names_lifecycle :: "source_columns \<Rightarrow> control_store \<Rightarrow> string \<Rightarrow> string \<times> string \<times> string \<Rightarrow> bool" where
  "names_lifecycle sc st tid l \<longleftrightarrow> (case l of (i, s, d) \<Rightarrow> canonical_name i
     \<and> (case find (\<lambda>e. event_id e = i) (event_log (st_tasks st)) of None \<Rightarrow> False | Some e \<Rightarrow>
          event_kind e = OtherEvent ''agent.execution.lifecycle'' \<and> truthy_text (event_session e) = Some s)
     \<and> d \<noteq> [] \<and> (case truthy_text (sc_input_message sc i) of None \<Rightarrow> False | Some m \<Rightarrow> sc_worker sc s m = Some (tid, Some d)))"

definition described :: "delivery_env \<Rightarrow> source_columns \<Rightarrow> control_store \<Rightarrow> string \<Rightarrow> orchestrator_event \<Rightarrow> bool" where
  "described env sc st tid ev \<longleftrightarrow>
     optionally (\<lambda>(t, _). t = tid \<and> canonical_name t \<and> find_task (st_tasks st) t \<noteq> None) (oe_creation ev)
   \<and> optionally (\<lambda>(m, _). names_message sc st m \<and> sc_provenance sc m \<noteq> None) (oe_root ev)
   \<and> optionally (\<lambda>(m, _). names_message sc st m \<and> sc_provenance sc m \<noteq> None) (oe_resume ev)
   \<and> optionally (names_artifact st tid) (oe_coordination ev)
   \<and> optionally (names_artifact st tid) (oe_recovery ev)
   \<and> optionally (\<lambda>(i, _). names_artifact st tid i) (oe_failure ev)
   \<and> optionally (names_lifecycle sc st tid) (oe_lifecycle ev)
   \<and> sc_parse sc (de_encode env ev) = Some ev"

text \<open>
  The kind of the event that comes back is what the stored source says: the provenance of the message,
  or the row of the artifact; the other sources leave it as it was.
\<close>

definition event_message :: "orchestrator_event \<Rightarrow> string option" where
  "event_message ev = or_else (map_option fst (oe_root ev)) (map_option fst (oe_resume ev))"

definition event_artifact :: "orchestrator_event \<Rightarrow> string option" where
  "event_artifact ev = or_else (map_option fst (oe_failure ev)) (or_else (oe_recovery ev) (oe_coordination ev))"

definition delivered_kind :: "source_columns \<Rightarrow> control_store \<Rightarrow> orchestrator_event \<Rightarrow> delivery_error + source_kind" where
  "delivered_kind sc st ev =
     (case event_message ev of
        Some m \<Rightarrow> (case sc_provenance sc m of None \<Rightarrow> Inl MalformedEvent | Some (k, _) \<Rightarrow> Inr (message_kind k))
      | None \<Rightarrow> (case Option.bind (event_artifact ev) (find_artifact st) of
          Some a \<Rightarrow> source_kind_of (artifact_event sc a) | None \<Rightarrow> source_kind_of ev))"

lemmas source_names = event_message_def event_artifact_def or_else_def

lemma no_event_fields [simp]:
  "oe_note no_event = None" "oe_creation no_event = None" "oe_wait_activity no_event = None" "oe_wait_wake no_event = None"
  "oe_root no_event = None" "oe_resume no_event = None" "oe_coordination no_event = None" "oe_recovery no_event = None"
  "oe_failure no_event = None" "oe_lifecycle no_event = None"
  by (simp_all add: no_event_def)

lemmas identity_fields = identity_of_def source_for_event_def or_else_def trimmed_def truthy_text_def
lemmas kind_defs = source_kind_of_def source_candidates_def when_some_def

text \<open>An event with exactly one source has exactly one of the members.\<close>

lemma one_source:
  assumes "source_kind_of ev = Inr k"
  shows "oe_creation ev \<noteq> None \<Longrightarrow> oe_root ev = None \<and> oe_resume ev = None \<and> oe_coordination ev = None \<and> oe_recovery ev = None
      \<and> oe_failure ev = None \<and> oe_lifecycle ev = None \<and> oe_wait_activity ev = None \<and> oe_wait_wake ev = None"
    "oe_root ev \<noteq> None \<Longrightarrow> oe_resume ev = None \<and> oe_coordination ev = None \<and> oe_recovery ev = None
      \<and> oe_failure ev = None \<and> oe_lifecycle ev = None \<and> oe_wait_activity ev = None \<and> oe_wait_wake ev = None"
    "oe_resume ev \<noteq> None \<Longrightarrow> oe_coordination ev = None \<and> oe_recovery ev = None
      \<and> oe_failure ev = None \<and> oe_lifecycle ev = None \<and> oe_wait_activity ev = None \<and> oe_wait_wake ev = None"
    "oe_coordination ev \<noteq> None \<Longrightarrow> oe_recovery ev = None
      \<and> oe_failure ev = None \<and> oe_lifecycle ev = None \<and> oe_wait_activity ev = None \<and> oe_wait_wake ev = None"
    "oe_recovery ev \<noteq> None \<Longrightarrow> oe_failure ev = None \<and> oe_lifecycle ev = None \<and> oe_wait_activity ev = None \<and> oe_wait_wake ev = None"
    "oe_failure ev \<noteq> None \<Longrightarrow> oe_lifecycle ev = None \<and> oe_wait_activity ev = None \<and> oe_wait_wake ev = None"
    "oe_lifecycle ev \<noteq> None \<Longrightarrow> oe_wait_activity ev = None \<and> oe_wait_wake ev = None"
  using assms by (auto simp: kind_defs split: list.split_asm option.split_asm if_split_asm)

definition rebuilds :: "delivery_env \<Rightarrow> source_columns \<Rightarrow> control_store \<Rightarrow> ingress_row \<Rightarrow> orchestrator_event \<Rightarrow> bool" where
  "rebuilds env sc st r ev \<longleftrightarrow> (\<exists>ev'. event_for_ingress sc st r = Inr ev'
     \<and> source_for_event (de_encode env) (de_hash env) ev' (identity_of ev')
       = source_for_event (de_encode env) (de_hash env) ev (identity_of ev)
     \<and> source_kind_of ev' = delivered_kind sc st ev)"

lemma canonical_trim: "canonical_name i \<Longrightarrow> i \<noteq> [] \<and> js_trim i = i"
  by (auto simp: canonical_name_def trimmed_def truthy_text_def split: list.split_asm)

lemma canonical_cases: "canonical_name i \<Longrightarrow> \<exists>c cs. i = c # cs \<and> js_trim (c # cs) = c # cs"
  using canonical_trim [of i] by (cases i) auto

text \<open>The eight ways to name a source.\<close>

lemma rebuilds_creation:
  assumes k: "source_kind_of ev = Inr k" and d: "described env sc st (ing_task r) ev" and c: "oe_creation ev = Some (t, x)"
    and r: "source_for_event (de_encode env) (de_hash env) ev (identity_of ev) = (ing_source r, ing_source_id r, ing_inline r)"
  shows "rebuilds env sc st r ev"
proof -
  have n: "oe_root ev = None" "oe_resume ev = None" "oe_coordination ev = None" "oe_recovery ev = None" "oe_failure ev = None"
      "oe_lifecycle ev = None" "oe_wait_activity ev = None" "oe_wait_wake ev = None"
    using one_source(1) [OF k] c by simp_all
  from d c obtain row where t: "t = ing_task r" "canonical_name t" "find_task (st_tasks st) t = Some row"
    by (auto simp: described_def)
  have row: "row_id row = t" using t(3) by (auto simp: find_task_def find_Some_iff)
  from canonical_cases [OF t(2)] obtain ch cs where i: "t = ch # cs" "js_trim (ch # cs) = ch # cs" by blast
  have src: "source_for_event (de_encode env) (de_hash env) ev (identity_of ev) = (SrcTask, t, None)"
    using n c i by (simp add: identity_fields)
  have "event_for_ingress sc st r = Inr (no_event\<lparr>oe_creation := Some (t, None)\<rparr>)"
    using r src t row by (simp add: event_for_ingress_def)
  moreover have "source_for_event (de_encode env) (de_hash env) (no_event\<lparr>oe_creation := Some (t, None)\<rparr>)
      (identity_of (no_event\<lparr>oe_creation := Some (t, None)\<rparr>)) = (SrcTask, t, None)"
    using i by (simp add: identity_fields)
  moreover have "source_kind_of (no_event\<lparr>oe_creation := Some (t, None)\<rparr>) = source_kind_of ev"
    using n c by (simp add: kind_defs)
  ultimately show ?thesis using src n by (auto simp: rebuilds_def delivered_kind_def source_names)
qed

lemma rebuilds_message:
  assumes k: "source_kind_of ev = Inr k" and m: "names_message sc st m" "sc_provenance sc m = Some (k', s)"
    and c: "oe_root ev = Some (m, x) \<or> oe_resume ev = Some (m, y)"
    and r: "source_for_event (de_encode env) (de_hash env) ev (identity_of ev) = (ing_source r, ing_source_id r, ing_inline r)"
  shows "rebuilds env sc st r ev"
proof -
  let ?e = "no_event\<lparr>oe_note := Some (''Task-root Message '' @ m), oe_root := Some (m, k', s)\<rparr>"
  from m(1) obtain row where row: "find_message st m = Some row" "msg_role row = ''user''" "canonical_name m" "sc_message_valid sc m"
    by (auto simp: names_message_def)
  have mid: "msg_id row = m" using row(1) by (auto simp: find_message_def find_Some_iff)
  from canonical_cases [OF row(3)] obtain ch cs where i: "m = ch # cs" "js_trim (ch # cs) = ch # cs" by blast
  have ids: "id_message (identity_of ev) = Some m"
  proof (cases "oe_root ev")
    case None
    with c show ?thesis by (auto simp: identity_of_def or_else_def)
  next
    case (Some z)
    then have "oe_resume ev = None" using one_source(2) [OF k] by simp
    with c Some show ?thesis by (auto simp: identity_of_def or_else_def)
  qed
  then have src: "source_for_event (de_encode env) (de_hash env) ev (identity_of ev) = (SrcMessage, m, None)"
    using i by (simp add: source_for_event_def trimmed_def truthy_text_def)
  have "event_for_ingress sc st r = Inr ?e"
    using r src row mid m(2) by (simp add: event_for_ingress_def message_event_def)
  moreover have "source_for_event (de_encode env) (de_hash env) ?e (identity_of ?e) = (SrcMessage, m, None)"
    using i by (simp add: identity_fields)
  moreover have "event_message ev = Some m" using ids by (simp add: identity_of_def event_message_def)
  then have "source_kind_of ?e = delivered_kind sc st ev" using m(2) by (simp add: delivered_kind_def kind_defs)
  ultimately show ?thesis using src by (auto simp: rebuilds_def)
qed

lemma rebuilds_artifact:
  assumes a: "names_artifact st (ing_task r) i"
    and src: "source_for_event (de_encode env) (de_hash env) ev (identity_of ev) = (SrcEngineArtifact, i, None)"
    and named: "event_message ev = None" "event_artifact ev = Some i"
    and r: "source_for_event (de_encode env) (de_hash env) ev (identity_of ev) = (ing_source r, ing_source_id r, ing_inline r)"
  shows "rebuilds env sc st r ev"
proof -
  from a obtain row where row: "find_artifact st i = Some row" "art_task row = ing_task r" "canonical_name i"
    by (auto simp: names_artifact_def)
  have aid: "art_id row = i" using row(1) by (auto simp: find_artifact_def find_Some_iff)
  from canonical_cases [OF row(3)] obtain ch cs where i: "i = ch # cs" "js_trim (ch # cs) = ch # cs" by blast
  have "event_for_ingress sc st r = Inr (artifact_event sc row)"
    using r src row by (simp add: event_for_ingress_def)
  moreover have "source_for_event (de_encode env) (de_hash env) (artifact_event sc row) (identity_of (artifact_event sc row))
      = (SrcEngineArtifact, i, None)"
    using i aid by (simp add: artifact_event_def Let_def identity_fields)
  moreover have "delivered_kind sc st ev = source_kind_of (artifact_event sc row)" by (simp add: delivered_kind_def named row(1))
  ultimately show ?thesis using src by (auto simp: rebuilds_def)
qed

lemma rebuilds_lifecycle:
  assumes k: "source_kind_of ev = Inr k" and l: "oe_lifecycle ev = Some (i, s, d)" and n: "names_lifecycle sc st (ing_task r) (i, s, d)"
    and only: "oe_creation ev = None" "oe_root ev = None" "oe_resume ev = None" "oe_coordination ev = None" "oe_recovery ev = None"
      "oe_failure ev = None"
    and r: "source_for_event (de_encode env) (de_hash env) ev (identity_of ev) = (ing_source r, ing_source_id r, ing_inline r)"
  shows "rebuilds env sc st r ev"
proof -
  let ?e = "no_event\<lparr>oe_note := Some (''Agent lifecycle '' @ i), oe_lifecycle := Some (i, s, d)\<rparr>"
  from n obtain e m where e: "find (\<lambda>e. event_id e = i) (event_log (st_tasks st)) = Some e"
      "event_kind e = OtherEvent ''agent.execution.lifecycle''" "truthy_text (event_session e) = Some s"
    and m: "truthy_text (sc_input_message sc i) = Some m" "sc_worker sc s m = Some (ing_task r, Some d)" "d \<noteq> []" "canonical_name i"
    by (auto simp: names_lifecycle_def split: option.split_asm)
  have eid: "event_id e = i" using e(1) by (auto simp: find_Some_iff)
  from canonical_cases [OF m(4)] obtain ch cs where i: "i = ch # cs" "js_trim (ch # cs) = ch # cs" by blast
  have src: "source_for_event (de_encode env) (de_hash env) ev (identity_of ev) = (SrcProtocolEvent, i, None)"
    using only l i by (simp add: identity_fields)
  have pe: "protocol_event_of sc r e = Inr ?e" unfolding protocol_event_of_def using e m eid by simp
  have "event_for_ingress sc st r = Inr ?e"
    using r src e(1) pe by (simp add: event_for_ingress_def)
  moreover have "source_for_event (de_encode env) (de_hash env) ?e (identity_of ?e) = (SrcProtocolEvent, i, None)"
    using i by (simp add: identity_fields)
  moreover have "source_kind_of ?e = delivered_kind sc st ev"
    using only l one_source(7) [OF k] by (simp add: delivered_kind_def source_names kind_defs)
  ultimately show ?thesis using src by (auto simp: rebuilds_def)
qed

lemma rebuilds_inline:
  assumes "sc_parse sc (de_encode env ev) = Some ev" "oe_resume ev = None"
    and only: "oe_creation ev = None" "oe_root ev = None" "oe_coordination ev = None" "oe_recovery ev = None"
      "oe_failure ev = None" "oe_lifecycle ev = None"
    and r: "source_for_event (de_encode env) (de_hash env) ev (identity_of ev) = (ing_source r, ing_source_id r, ing_inline r)"
  shows "rebuilds env sc st r ev"
proof -
  have "ing_source r = SrcInline" "ing_inline r = Some (de_encode env ev)"
    using r assms(2) only by (simp_all add: identity_fields)
  with assms(1,2) only show ?thesis by (simp add: rebuilds_def event_for_ingress_def delivered_kind_def source_names)
qed

lemma names_artifact_canonical: "names_artifact st tid i \<Longrightarrow> canonical_name i"
  by (simp add: names_artifact_def)

lemma described_rebuilds:
  assumes k: "source_kind_of ev = Inr k" and d: "described env sc st (ing_task r) ev"
    and r: "source_for_event (de_encode env) (de_hash env) ev (identity_of ev) = (ing_source r, ing_source_id r, ing_inline r)"
  shows "rebuilds env sc st r ev"
proof -
  note parts = d [unfolded described_def]
  consider (creation) x where "oe_creation ev = Some x"
    | (root) x where "oe_creation ev = None" "oe_root ev = Some x"
    | (resume) x where "oe_creation ev = None" "oe_root ev = None" "oe_resume ev = Some x"
    | (coordination) x where "oe_creation ev = None" "oe_root ev = None" "oe_resume ev = None" "oe_coordination ev = Some x"
    | (recovery) x where "oe_creation ev = None" "oe_root ev = None" "oe_resume ev = None" "oe_coordination ev = None" "oe_recovery ev = Some x"
    | (failure) x where "oe_creation ev = None" "oe_root ev = None" "oe_resume ev = None" "oe_coordination ev = None" "oe_recovery ev = None"
        "oe_failure ev = Some x"
    | (lifecycle) x where "oe_creation ev = None" "oe_root ev = None" "oe_resume ev = None" "oe_coordination ev = None"
        "oe_recovery ev = None" "oe_failure ev = None" "oe_lifecycle ev = Some x"
    | (inline) "oe_creation ev = None" "oe_root ev = None" "oe_resume ev = None" "oe_coordination ev = None"
        "oe_recovery ev = None" "oe_failure ev = None" "oe_lifecycle ev = None"
    by (metis not_None_eq)
  then show ?thesis
  proof cases
    case creation
    then show ?thesis using rebuilds_creation [OF k d _ r] by (cases x) auto
  next
    case root
    obtain m y where x: "x = (m, y)" by (cases x)
    from parts root x obtain k' s where "names_message sc st m" "sc_provenance sc m = Some (k', s)" by auto
    then show ?thesis using root x by (intro rebuilds_message [OF k _ _ _ r]) auto
  next
    case resume
    obtain m y where x: "x = (m, y)" by (cases x)
    from parts resume x obtain k' s where "names_message sc st m" "sc_provenance sc m = Some (k', s)" by auto
    then show ?thesis using resume x by (intro rebuilds_message [OF k _ _ _ r]) auto
  next
    case coordination
    then have n: "oe_recovery ev = None" "oe_failure ev = None" "oe_lifecycle ev = None"
      using one_source(4) [OF k] by simp_all
    from parts coordination have a: "names_artifact st (ing_task r) x" by simp
    from canonical_cases [OF names_artifact_canonical [OF a]] obtain ch cs where i: "x = ch # cs" "js_trim (ch # cs) = ch # cs" by blast
    show ?thesis by (rule rebuilds_artifact [OF a _ _ _ r]) (use coordination n i in \<open>simp_all add: identity_fields source_names\<close>)
  next
    case recovery
    then have n: "oe_failure ev = None" "oe_lifecycle ev = None" using one_source(5) [OF k] by simp_all
    from parts recovery have a: "names_artifact st (ing_task r) x" by simp
    from canonical_cases [OF names_artifact_canonical [OF a]] obtain ch cs where i: "x = ch # cs" "js_trim (ch # cs) = ch # cs" by blast
    show ?thesis by (rule rebuilds_artifact [OF a _ _ _ r]) (use recovery n i in \<open>simp_all add: identity_fields source_names\<close>)
  next
    case failure
    obtain j y where x: "x = (j, y)" by (cases x)
    from failure have n: "oe_lifecycle ev = None" using one_source(6) [OF k] by simp
    from parts failure x have a: "names_artifact st (ing_task r) j" by simp
    from canonical_cases [OF names_artifact_canonical [OF a]] obtain ch cs where i: "j = ch # cs" "js_trim (ch # cs) = ch # cs" by blast
    show ?thesis by (rule rebuilds_artifact [OF a _ _ _ r]) (use failure n i x in \<open>simp_all add: identity_fields source_names\<close>)
  next
    case lifecycle
    obtain j s dd where x: "x = (j, s, dd)" by (cases x)
    from parts lifecycle x have a: "names_lifecycle sc st (ing_task r) (j, s, dd)" by simp
    then show ?thesis using lifecycle x by (intro rebuilds_lifecycle [OF k _ a _ _ _ _ _ _ r]) auto
  next
    case inline
    then show ?thesis using parts by (intro rebuilds_inline [OF _ _ _ _ _ _ _ _ r]) auto
  qed
qed

lemma event_for_ingress_sources: "same_sources st st' \<Longrightarrow> event_for_ingress sc st' r = event_for_ingress sc st r"
  by (cases "ing_source r") (simp_all add: event_for_ingress_def same_sources_find, simp_all add: same_sources_def)

text \<open>
  C33: An event that was accepted as an ingress comes back with its source. The stored row is rebuilt
  into an event that names the same source, so delivering it again would be a replay of the same
  ingress. Its kind is not stored: a message comes back with the kind of its provenance (so a Mission
  acceptance resume comes back as an ordinary message) and an artifact with the kind that its row
  shows (so a settlement failure that does not name its dispatch comes back as a process recovery);
  a creation, an agent lifecycle and an inline event keep theirs. This is for events that describe
  their source truly: under a trimmed name, a Task that exists, a well-formed user message with a
  provenance, an artifact of the Task, a lifecycle row of one of its workers with its dispatch, an inline event whose JSON parses back.
\<close>

theorem accepted_event_comes_back:
  assumes "store_ok st" and "persist_ingress env st task ev (identity_of ev) now = Inr (st', iid)"
    and "described env sc st (row_id task) ev"
  shows "\<exists>r ev'. find_ingress st' iid = Some r \<and> ing_task r = row_id task \<and> event_for_ingress sc st' r = Inr ev'
    \<and> source_for_event (de_encode env) (de_hash env) ev' (identity_of ev')
      = source_for_event (de_encode env) (de_hash env) ev (identity_of ev)
    \<and> source_kind_of ev' = delivered_kind sc st ev"
  using assms(1,2)
proof (rule persist_row)
  fix k r src sid payload
  assume k: "source_kind_of ev = Inr k"
    and s: "source_for_event (de_encode env) (de_hash env) ev (identity_of ev) = (src, sid, payload)"
    and r: "find_ingress st' iid = Some r" "ing_task r = row_id task" "ing_source r = src" "ing_source_id r = sid" "ing_inline r = payload"
    and same: "same_sources st st'"
  have "rebuilds env sc st r ev"
    using assms(3) s r by (intro described_rebuilds [OF k]) simp_all
  then show ?thesis using r event_for_ingress_sources [OF same] by (auto simp: rebuilds_def)
qed

section \<open>Failures of a worker to settle\<close>

lemma optional_text_keys: "map_of (optional_text k t @ rest) k' = (if k' = k \<and> truthy_text t \<noteq> None then map_option JsonStr (truthy_text t) else map_of rest k')"
  by (auto simp: optional_text_def split: option.split)

lemma settlement_failure_has_no_dispatch:
  "json_path (Some (ac_payload (settlement_failure_artifact op name txt sid outcome ev))) [''context'', ''dispatchID''] = None"
proof -
  have "json_field (settlement_context outcome ev) ''dispatchID'' = None"
    using optional_text_keys [of "''current_dispatch_id''" _ "[]"] by (simp add: settlement_context_def split: option.split)
  then show ?thesis by (simp add: settlement_failure_artifact_def optional_text_keys del: map_of_append)
qed

text \<open>
  A Worker Turn whose physical settlement failed never reaches the Orchestrator as the failure it
  is. Its artifact stores the dispatch under another name than the readers expect, so its ingress
  does not count against the retry budget of the epoch, the event rebuilt from it is a process
  recovery, and the recovery fact that this event names is refused when the prompt is rendered.
\<close>

theorem settlement_failure_is_misread:
  assumes "find_artifact st (ing_source_id r) = Some a" and "ing_source r = SrcEngineArtifact" and "art_task a = ing_task r"
    and "sc_artifact sc a = settlement_failure_artifact operation error_name txt sid outcome ev"
  shows "event_for_ingress sc st r = Inr (no_event\<lparr>oe_recovery := Some (ing_source_id r)\<rparr>)
    \<and> recovery_fact sc st (ing_task r) (ing_source_id r) = None
    \<and> r \<notin> set (infrastructure_ingresses sc st tid ep)"
proof (intro conjI)
  let ?ac = "settlement_failure_artifact operation error_name txt sid outcome ev"
  have aid: "art_id a = ing_source_id r" using assms(1) by (auto simp: find_artifact_def find_Some_iff)
  have kind: "ac_kind ?ac = infrastructure_kind" "ac_label ?ac = ''worker-runtime''" by (simp_all add: settlement_failure_artifact_def)
  have none: "\<not> list_all (\<lambda>path. json_truthy (json_path (Some (ac_payload ?ac)) path)) failure_paths"
    unfolding failure_paths_def list.pred_inject settlement_failure_has_no_dispatch by simp
  have "artifact_event sc a = no_event\<lparr>oe_recovery := Some (ing_source_id r)\<rparr>"
    unfolding artifact_event_def assms(4) Let_def aid using kind(1) none by (simp add: infrastructure_kind_def)
  then show "event_for_ingress sc st r = Inr (no_event\<lparr>oe_recovery := Some (ing_source_id r)\<rparr>)"
    using assms(1-3) by (simp add: event_for_ingress_def)
  show "recovery_fact sc st (ing_task r) (ing_source_id r) = None"
    unfolding recovery_fact_def assms(1) using kind(2) by (simp add: Let_def assms(4))
  have "\<not> counts_as_retry ?ac"
    unfolding counts_as_retry_def failure_paths_def list.pred_inject json_not_null_def settlement_failure_has_no_dispatch by simp
  then show "r \<notin> set (infrastructure_ingresses sc st tid ep)"
    using assms(1,4) by (simp add: infrastructure_ingresses_def)
qed

end
