(* ===== verification/RetryBudget.thy ===== *)
theory RetryBudget
  imports DeliveryProps
begin

text \<open>
  The retry budget: whatever sequence of deliveries an epoch sees, at most
  \<open>TASK_EPOCH_INFRASTRUCTURE_INGRESS_BUDGET\<close> of its ingresses are retries of infrastructure failures.
\<close>

section \<open>Histories of deliveries\<close>

datatype delivery_op =
    ByDispatch "control_store \<Rightarrow> bool" dispatch_input
  | ByPersist task_row orchestrator_event event_identity int
  | ByWait task_row int int
  | ByStore store_op

text \<open>
  Only \<open>dispatchTaskLoop\<close> looks at the budget, and only for events that are failures. \<open>plain_source\<close>
  says that a source is no artifact that the budget counts, and a history is fair if every other path
  accepts plain sources only, and if other components append artifacts and never change them.
\<close>

definition plain_source :: "source_columns \<Rightarrow> control_store \<Rightarrow> ingress_source \<Rightarrow> string \<Rightarrow> bool" where
  "plain_source sc st src sid \<longleftrightarrow>
     src \<noteq> SrcEngineArtifact \<or> (case find_artifact st sid of None \<Rightarrow> True | Some a \<Rightarrow> \<not> counts_as_retry (sc_artifact sc a))"

definition plain_event :: "delivery_env \<Rightarrow> source_columns \<Rightarrow> control_store \<Rightarrow> orchestrator_event \<Rightarrow> event_identity \<Rightarrow> bool" where
  "plain_event env sc st ev ident \<longleftrightarrow>
     (case source_for_event (de_encode env) (de_hash env) ev ident of (src, sid, _) \<Rightarrow> plain_source sc st src sid)"

fun fair_op :: "delivery_env \<Rightarrow> source_columns \<Rightarrow> control_store \<Rightarrow> delivery_op \<Rightarrow> bool" where
  "fair_op env sc st (ByDispatch admit inp) \<longleftrightarrow> (case dl_event inp of None \<Rightarrow> True | Some ev \<Rightarrow>
      oe_failure ev \<noteq> None \<or> plain_event env sc st ev (identity_of ev))"
| "fair_op env sc st (ByPersist task ev ident now) \<longleftrightarrow> plain_event env sc st ev ident"
| "fair_op env sc st (ByWait task ep now) \<longleftrightarrow> True"
| "fair_op env sc st (ByStore op) \<longleftrightarrow> (case op of OpAccept inp \<Rightarrow> plain_source sc st (ai_source inp) (ai_source_id inp)
     | OpElsewhere o' \<Rightarrow> take (length (artifacts st)) (artifacts o') = artifacts st | _ \<Rightarrow> True)"

fun apply_op :: "delivery_env \<Rightarrow> source_columns \<Rightarrow> control_store \<Rightarrow> delivery_op \<Rightarrow> control_store" where
  "apply_op env sc st (ByDispatch admit inp) = commit st (rbind (dispatch_task_loop env sc admit st inp) (\<lambda>(st', _). Inr st'))"
| "apply_op env sc st (ByPersist task ev ident now) = commit st (rbind (persist_ingress env st task ev ident now) (\<lambda>(st', _). Inr st'))"
| "apply_op env sc st (ByWait task ep now) = commit st (rbind (materialize_due_wait env st task ep now) (\<lambda>(st', _). Inr st'))"
| "apply_op env sc st (ByStore op) = store_step (de_store env) st op"

fun fair_history :: "delivery_env \<Rightarrow> source_columns \<Rightarrow> control_store \<Rightarrow> delivery_op list \<Rightarrow> bool" where
  "fair_history env sc st [] \<longleftrightarrow> True"
| "fair_history env sc st (op # ops) \<longleftrightarrow> fair_op env sc st op \<and> fair_history env sc (apply_op env sc st op) ops"

section \<open>The invariant\<close>

definition sources_exist :: "control_store \<Rightarrow> bool" where
  "sources_exist st \<longleftrightarrow> (\<forall>r \<in> set (ingresses st). ing_source r = SrcEngineArtifact \<longrightarrow> find_artifact st (ing_source_id r) \<noteq> None)"

definition within_budget :: "source_columns \<Rightarrow> control_store \<Rightarrow> bool" where
  "within_budget sc st \<longleftrightarrow> (\<forall>tid ep. length (infrastructure_ingresses sc st tid ep) \<le> infrastructure_budget)"

definition retry_ok :: "source_columns \<Rightarrow> control_store \<Rightarrow> bool" where
  "retry_ok sc st \<longleftrightarrow> store_ok st \<and> sources_exist st \<and> within_budget sc st"

text \<open>Appending artifacts, and any change of other tables, keeps what the retries are.\<close>

definition only_artifacts :: "control_store \<Rightarrow> control_store \<Rightarrow> bool" where
  "only_artifacts st st' \<longleftrightarrow> (\<exists>xs. artifacts st' = artifacts st @ xs) \<and> policies st' = policies st \<and> ingresses st' = ingresses st
     \<and> waits st' = waits st \<and> settlements st' = settlements st"

lemma only_artifacts_trans: "only_artifacts a b \<Longrightarrow> only_artifacts b c \<Longrightarrow> only_artifacts a c"
  by (auto simp: only_artifacts_def)

lemma only_artifacts_find: "only_artifacts st st' \<Longrightarrow> find_artifact st i = Some a \<Longrightarrow> find_artifact st' i = Some a"
  by (auto simp: only_artifacts_def find_artifact_def find_append)

lemma only_artifacts_store_ok: "only_artifacts st st' \<Longrightarrow> store_ok st \<Longrightarrow> store_ok st'"
proof -
  assume a: "only_artifacts st st'" "store_ok st"
  have "with_owned_tables st st' = st'"
    using a(1) by (intro control_store.equality) (simp_all add: with_owned_tables_def only_artifacts_def)
  with elsewhere_ok [OF a(2), of st'] show "store_ok st'" by simp
qed

definition is_retry :: "source_columns \<Rightarrow> control_store \<Rightarrow> ingress_row \<Rightarrow> bool" where
  "is_retry sc st r \<longleftrightarrow> ing_source r = SrcEngineArtifact
     \<and> (case find_artifact st (ing_source_id r) of None \<Rightarrow> False | Some a \<Rightarrow> counts_as_retry (sc_artifact sc a))"

lemma infrastructure_ingresses_filter: "infrastructure_ingresses sc st tid ep = filter (is_retry sc st) (epoch_ingresses st tid ep)"
  by (simp add: infrastructure_ingresses_def is_retry_def [abs_def])

lemma only_artifacts_retry:
  assumes "only_artifacts st st'" "ing_source r = SrcEngineArtifact \<longrightarrow> find_artifact st (ing_source_id r) \<noteq> None"
  shows "is_retry sc st' r = is_retry sc st r"
proof (cases "ing_source r = SrcEngineArtifact")
  case True
  with assms(2) obtain a where "find_artifact st (ing_source_id r) = Some a" by auto
  with only_artifacts_find [OF assms(1)] show ?thesis by (simp add: is_retry_def)
qed (simp add: is_retry_def)

lemma only_artifacts_ok:
  assumes "only_artifacts st st'" "retry_ok sc st"
  shows "retry_ok sc st'"
proof -
  have ing: "ingresses st' = ingresses st" using assms(1) by (simp add: only_artifacts_def)
  have ex: "sources_exist st" using assms(2) by (simp add: retry_ok_def)
  have "filter (is_retry sc st') (epoch_ingresses st' tid ep) = filter (is_retry sc st) (epoch_ingresses st tid ep)" for tid ep
    using only_artifacts_retry [OF assms(1)] ex ing by (intro filter_cong) (auto simp: epoch_ingresses_def sources_exist_def)
  moreover have "sources_exist st'" using ex ing only_artifacts_find [OF assms(1)] by (fastforce simp: sources_exist_def)
  ultimately show ?thesis
    using assms only_artifacts_store_ok by (auto simp: retry_ok_def within_budget_def infrastructure_ingresses_filter)
qed

lemma grown_ok:
  assumes ok: "retry_ok sc st" and st': "store_ok st'" and same: "same_sources st st'"
    and grow: "ingresses st' = ingresses st \<or> ingresses st' = ingresses st @ [r]"
    and src: "ing_source r = SrcEngineArtifact \<Longrightarrow> find_artifact st (ing_source_id r) \<noteq> None"
    and room: "is_retry sc st r \<Longrightarrow> ingresses st' \<noteq> ingresses st
      \<Longrightarrow> length (infrastructure_ingresses sc st (ing_task r) (ing_epoch r)) < infrastructure_budget"
  shows "retry_ok sc st'"
proof -
  have retry: "is_retry sc st' = is_retry sc st" using same_sources_find(2) [OF same] by (simp add: is_retry_def fun_eq_iff)
  have find: "find_artifact st' i = find_artifact st i" for i by (rule same_sources_find(2) [OF same])
  have ex: "sources_exist st" and wb: "within_budget sc st" using ok by (simp_all add: retry_ok_def)
  have "sources_exist st'" using ex grow src by (auto simp: sources_exist_def find)
  moreover have "length (infrastructure_ingresses sc st' tid ep) \<le> infrastructure_budget" for tid ep
  proof (cases "ingresses st' = ingresses st")
    case True
    with wb show ?thesis by (simp add: within_budget_def infrastructure_ingresses_filter retry epoch_ingresses_def)
  next
    case False
    with grow have "infrastructure_ingresses sc st' tid ep = infrastructure_ingresses sc st tid ep
        @ (if ing_task r = tid \<and> ing_epoch r = ep \<and> is_retry sc st r then [r] else [])"
      by (simp add: infrastructure_ingresses_filter retry epoch_ingresses_def)
    then show ?thesis using room False wb by (auto simp: within_budget_def Suc_le_eq)
  qed
  ultimately show ?thesis using st' by (simp add: retry_ok_def within_budget_def)
qed

lemma accepted_source_exists:
  assumes "sources_exist st" "accept_ingress env st inp = Inr (st', r)" "ing_source r = SrcEngineArtifact"
  shows "find_artifact st (ing_source_id r) \<noteq> None"
  using assms(2)
proof (cases rule: accept_cases)
  case replay
  then have "r \<in> set (ingresses st)" by (auto simp: find_source_def find_Some_iff)
  with assms show ?thesis by (auto simp: sources_exist_def)
next
  case (admitted task)
  then have "source_within_task st inp task = Inr ()" by (auto simp: admit_new_ingress_def rbind_Inr_iff Let_def)
  moreover have "ing_source r = ai_source inp" "ing_source_id r = ai_source_id inp" using admitted(2) by (auto elim: admit_cases)
  ultimately show ?thesis using assms(3) by (auto simp: source_within_task_def split: option.split_asm)
qed

lemma persist_ok:
  assumes ok: "retry_ok sc st" and per: "persist_ingress env st task ev ident now = Inr (st', iid)"
    and room: "\<And>lc. task_projection (de_store env) st (row_id task) = Inr lc \<Longrightarrow> \<not> plain_event env sc st ev ident
      \<Longrightarrow> length (infrastructure_ingresses sc st (row_id task) (proj_epoch lc)) < infrastructure_budget"
  shows "retry_ok sc st'"
proof -
  have so: "store_ok st" and ex: "sources_exist st" using ok by (simp_all add: retry_ok_def)
  show ?thesis
    using so per
  proof (rule persist_row)
    fix k r src sid payload lc inp
    assume acc: "accept_ingress (de_store env) st inp = Inr (st', r)"
      and s: "source_for_event (de_encode env) (de_hash env) ev ident = (src, sid, payload)"
      and lc: "task_projection (de_store env) st (row_id task) = Inr lc"
      and r: "ing_task r = row_id task" "ing_source r = src" "ing_source_id r = sid" "ing_epoch r = proj_epoch lc"
      and st': "same_sources st st'" "ingresses st' = ingresses st \<or> ingresses st' = ingresses st @ [r]" "store_ok st'"
    have "\<not> plain_event env sc st ev ident" if "is_retry sc st r"
      using that s r by (auto simp: is_retry_def plain_event_def plain_source_def split: option.split_asm)
    then show "retry_ok sc st'"
      using room [OF lc] r accepted_source_exists [OF ex acc] by (intro grown_ok [OF ok st'(3,1,2)]) auto
  qed
qed

section \<open>Every operation keeps it\<close>

lemma quiet_ok:
  assumes ok: "retry_ok sc st" and st': "store_ok st'" and same: "same_sources st st'" and ing: "ingresses st' = ingresses st"
  shows "retry_ok sc st'"
proof -
  have "is_retry sc st' = is_retry sc st" using same_sources_find(2) [OF same] by (simp add: is_retry_def fun_eq_iff)
  then show ?thesis
    using ok st' ing same_sources_find(2) [OF same]
    by (simp add: retry_ok_def sources_exist_def within_budget_def infrastructure_ingresses_filter epoch_ingresses_def)
qed

lemma append_store_event_only:
  "append_store_event st kind tid source cause stamp = Inr st' \<Longrightarrow> only_artifacts st st'"
  by (auto simp: append_store_event_def only_artifacts_def split: sum.split_asm)

lemma insert_artifact_only:
  assumes "insert_artifact st a stamp = Inr st'"
  shows "only_artifacts st st'"
proof -
  have "only_artifacts (st\<lparr>artifacts := artifacts st @ [a]\<rparr>) st'"
    using assms append_store_event_only by (auto simp: insert_artifact_def split: if_split_asm)
  then show ?thesis by (auto simp: only_artifacts_def)
qed

lemma only_artifacts_refl: "only_artifacts st st"
  by (simp add: only_artifacts_def)

lemma record_gate_only:
  "record_gate st gid tid payload stamps = Inr st' \<Longrightarrow> only_artifacts st st'"
  by (auto simp: record_gate_def rbind_Inr_iff only_artifacts_refl split: option.split_asm sum.split_asm if_split_asm
      intro: only_artifacts_trans [OF insert_artifact_only append_store_event_only])

lemma suppress_retry_only:
  assumes "suppress_retry env sc st inp failure ep = Inr st'"
  shows "only_artifacts st st'"
proof -
  have sup: "only_artifacts s s'" if "record_suppression env sc s sp now stamp = Inr s'" for s s' sp now stamp
    using that by (auto simp: record_suppression_def Let_def only_artifacts_refl split: option.split_asm sum.split_asm if_split_asm
        intro: insert_artifact_only)
  from assms show ?thesis
    by (auto simp: suppress_retry_def Let_def split: sum.split_asm option.split_asm
        intro: record_gate_only only_artifacts_trans [OF record_gate_only sup])
qed

lemma dispatch_ok:
  assumes ok: "retry_ok sc st" and fair: "fair_op env sc st (ByDispatch admit inp)"
    and run: "dispatch_task_loop env sc admit st inp = Inr (st', res)"
  shows "retry_ok sc st'"
proof -
  let ?ev = "case dl_event inp of Some e \<Rightarrow> e | None \<Rightarrow> no_event\<lparr>oe_note := Some ''Task wake''\<rparr>"
  from run obtain task where task: "find_task (st_tasks st) (dl_task inp) = Some task"
    by (auto simp: dispatch_task_loop_def split: option.split_asm)
  have tid: "row_id task = dl_task inp" using task by (auto simp: find_task_def find_Some_iff)
  have plain: "oe_failure ?ev \<noteq> None \<or> plain_event env sc st ?ev (identity_of ?ev)"
    using fair by (auto simp: plain_event_def plain_source_def identity_fields split: option.split)
  from run task consider (ignored) "st' = st"
    | (spent) failure ep where "suppress_retry env sc st inp failure ep = Inr st'"
    | (accepted) iid where "spent_budget env sc st (dl_task inp) ?ev = Inr None"
        "persist_ingress env st task ?ev (identity_of ?ev) (dl_now inp) = Inr (st', iid)"
    by (auto simp: dispatch_task_loop_def Let_def rbind_Inr_iff split: if_split_asm option.split_asm prod.split_asm)
  then show ?thesis
  proof cases
    case ignored
    with ok show ?thesis by simp
  next
    case spent
    from only_artifacts_ok [OF suppress_retry_only [OF spent] ok] show ?thesis .
  next
    case accepted
    show ?thesis
    proof (rule persist_ok [OF ok accepted(2)])
      fix lc
      assume lc: "task_projection (de_store env) st (row_id task) = Inr lc" and "\<not> plain_event env sc st ?ev (identity_of ?ev)"
      with plain obtain f where "oe_failure ?ev = Some f" by auto
      with accepted(1) lc tid show "length (infrastructure_ingresses sc st (row_id task) (proj_epoch lc)) < infrastructure_budget"
        by (auto simp: spent_budget_def split: if_split_asm)
    qed
  qed
qed

lemma settle_quiet:
  assumes "settle_task_wait st w i k now = Inr st'"
  shows "same_sources st st' \<and> ingresses st' = ingresses st"
  using assms by (rule settle_shape) (simp add: same_sources_def)

lemma create_quiet:
  assumes "create_task_wait env st inp = Inr (st', p)"
  shows "same_sources st st' \<and> ingresses st' = ingresses st"
proof -
  have "same_sources s s' \<and> ingresses s' = ingresses s" if "settle_if_overtaken s w i n = Inr s'" for s s' w i n
    using that settle_quiet by (auto simp: settle_if_overtaken_def same_sources_def split: option.split_asm)
  moreover have "same_sources s s' \<and> ingresses s' = ingresses s" if "insert_wait s w = Inr s'" for s s' w
    using insert_wait_cases(1) [OF that] by (simp add: same_sources_def)
  ultimately have "same_sources s s' \<and> ingresses s' = ingresses s" if "register_task_wait env s inp = Inr (s', w)" for s s' w
    using that by (fastforce simp: register_task_wait_def rbind_Inr_iff same_sources_def split: if_split_asm)
  then show ?thesis
    using assms by (fastforce simp: create_task_wait_def rbind_Inr_iff same_sources_def split: if_split_asm option.split_asm prod.split_asm)
qed

lemma wait_step_ok:
  assumes ok: "retry_ok sc st" and run: "materialize_due_wait env st task ep now = Inr (st', x)"
  shows "retry_ok sc st'"
proof (cases "due_task_waits st (row_id task) ep now")
  case Nil
  with run ok show ?thesis by (simp add: materialize_due_wait_def)
next
  case (Cons w ws)
  let ?ident = "no_identity\<lparr>id_wait_job := Some (wait_id w)\<rparr>"
  from run Cons obtain st1 iid where
    per: "persist_ingress env st task (wake_event w) ?ident now = Inr (st1, iid)"
    and rest: "(case settle_task_wait st1 (wait_id w) iid DueIngressAccepted now of
        Inl e \<Rightarrow> Inl (StoreRefused e) | Inr st2 \<Rightarrow> Inr (st2, Some iid)) = Inr (st', x)"
    by (auto simp: materialize_due_wait_def rbind_Inr_iff split: prod.split_asm)
  have fin: "settle_task_wait st1 (wait_id w) iid DueIngressAccepted now = Inr st'"
    using rest by (cases "settle_task_wait st1 (wait_id w) iid DueIngressAccepted now") auto
  have "plain_event env sc st (wake_event w) ?ident"
    by (simp add: plain_event_def plain_source_def source_for_event_def no_identity_def trimmed_def truthy_text_def or_else_def)
  then have ok1: "retry_ok sc st1" by (intro persist_ok [OF ok per]) simp
  then have "store_ok st'" using fin store_ok_settle by (auto simp: retry_ok_def)
  with settle_quiet [OF fin] ok1 show ?thesis by (intro quiet_ok [OF ok1]) auto
qed

lemma elsewhere_artifacts:
  assumes "take (length (artifacts st)) (artifacts o') = artifacts st"
  shows "only_artifacts st (with_owned_tables st o')"
proof -
  have "artifacts o' = artifacts st @ drop (length (artifacts st)) (artifacts o')"
    using assms append_take_drop_id [of "length (artifacts st)" "artifacts o'"] by simp
  then show ?thesis by (auto simp: only_artifacts_def with_owned_tables_def)
qed

lemma store_step_retry_ok:
  assumes ok: "retry_ok sc st" and fair: "fair_op env sc st (ByStore op)"
  shows "retry_ok sc (store_step (de_store env) st op)"
proof -
  have so: "store_ok (store_step (de_store env) st op)" using ok store_step_ok by (simp add: retry_ok_def)
  show ?thesis
  proof (cases op)
    case (OpAccept inp)
    show ?thesis
    proof (cases "accept_ingress (de_store env) st inp")
      case (Inl e)
      with OpAccept ok show ?thesis by (simp add: commit_def rbind_def)
    next
      case (Inr x)
      then obtain st' r where acc: "accept_ingress (de_store env) st inp = Inr (st', r)" by (cases x) simp
      have sok: "store_ok st" and ex: "sources_exist st" using ok by (simp_all add: retry_ok_def)
      note row = accept_row [OF sok acc]
      have "\<not> is_retry sc st r" using fair row(3,4) by (auto simp: OpAccept is_retry_def plain_source_def split: option.split_asm)
      then have "retry_ok sc st'"
        using accepted_source_exists [OF ex acc] accept_ok [OF sok acc] row(7,8) by (intro grown_ok [OF ok, of st' r]) auto
      with acc OpAccept show ?thesis by (simp add: commit_def rbind_def)
    qed
  next
    case (OpCreateWait inp)
    then have "same_sources st (store_step (de_store env) st op) \<and> ingresses (store_step (de_store env) st op) = ingresses st"
      using create_quiet by (auto simp: commit_def rbind_def same_sources_def split: sum.split prod.split_asm)
    with so show ?thesis by (intro quiet_ok [OF ok]) auto
  next
    case (OpSettle w i k now)
    then have "same_sources st (store_step (de_store env) st op) \<and> ingresses (store_step (de_store env) st op) = ingresses st"
      using settle_quiet by (auto simp: commit_def same_sources_def split: sum.split)
    with so show ?thesis by (intro quiet_ok [OF ok]) auto
  next
    case (OpElsewhere o')
    with fair have "only_artifacts st (store_step (de_store env) st op)" by (simp add: elsewhere_artifacts)
    from only_artifacts_ok [OF this ok] show ?thesis .
  qed
qed

lemma commit_pair: "commit st (rbind m (\<lambda>(s, _). Inr s)) = (case m of Inl _ \<Rightarrow> st | Inr (s, _) \<Rightarrow> s)"
  by (auto simp: commit_def rbind_def split: sum.split)

lemma apply_op_ok:
  assumes ok: "retry_ok sc st" and fair: "fair_op env sc st op"
  shows "retry_ok sc (apply_op env sc st op)"
proof (cases op)
  case (ByDispatch admit inp)
  then show ?thesis using ok fair dispatch_ok by (auto simp: commit_pair split: sum.split simp del: fair_op.simps)
next
  case (ByPersist task ev ident now)
  with fair have "plain_event env sc st ev ident" by simp
  then have "retry_ok sc st'" if "persist_ingress env st task ev ident now = Inr (st', i)" for st' i
    by (intro persist_ok [OF ok that]) simp
  with ByPersist ok show ?thesis by (auto simp: commit_pair split: sum.split)
next
  case (ByWait task ep now)
  then show ?thesis using ok wait_step_ok by (auto simp: commit_pair split: sum.split)
next
  case (ByStore sop)
  then show ?thesis using ok fair store_step_retry_ok by (simp del: fair_op.simps)
qed

lemma fair_history_ok: "retry_ok sc st \<Longrightarrow> fair_history env sc st ops \<Longrightarrow> retry_ok sc (run_steps (apply_op env sc) st ops)"
  by (induction ops arbitrary: st) (simp_all add: apply_op_ok)

lemma empty_retry_ok: "retry_ok sc (empty_tables o')"
  using empty_tables_ok [of o']
  by (simp add: retry_ok_def sources_exist_def within_budget_def infrastructure_ingresses_def epoch_ingresses_def)
    (simp add: empty_tables_def)


end
