(* ===== verification/DeliveryCases.thy ===== *)
theory DeliveryCases
  imports RetryBudget
begin

text \<open>Concrete deliveries: a Mission acceptance resume, and six workers that fail to settle.\<close>

definition demo_delivery :: delivery_env where
  "demo_delivery = \<lparr>de_store = demo_env, de_valid = (\<lambda>_. True), de_encode = (\<lambda>ev. []), de_hash = (\<lambda>_. ''h''),
     de_text = (\<lambda>_. ''text''), de_budget_ident = (\<lambda>t n. ''budget/'' @ t), de_budget_reason = (\<lambda>_. ''spent''),
     de_suppression_ident = (\<lambda>t d. t @ ''/'' @ d)\<rparr>"

definition demo_failure_columns :: artifact_columns where
  "demo_failure_columns = settlement_failure_artifact ''publish-terminal-lifecycle'' (Some ''Error'') ''lost'' ''w1'' JsonNull
     (Some \<lparr>te_descriptor = ''td'', te_hash = ''th'', te_message = ''tm'', te_dispatch = Some ''d1''\<rparr>)"

definition demo_sources :: source_columns where
  "demo_sources = \<lparr>sc_artifact = (\<lambda>a. demo_failure_columns), sc_outcome = (\<lambda>_. JsonNull), sc_input_message = (\<lambda>_. None),
     sc_worker = (\<lambda>_ _. None), sc_message_valid = (\<lambda>_. True), sc_provenance = (\<lambda>_. Some (RootMission, None)),
     sc_parse = (\<lambda>_. Some (no_event\<lparr>oe_resume := Some (''m2'', JsonNull)\<rparr>))\<rparr>"

definition demo_facts :: "string list" where
  "demo_facts = [''f1'', ''f2'', ''f3'', ''f4'', ''f5'', ''f6'']"

definition demo_failed :: control_store where
  "demo_failed = demo_outside\<lparr>messages := [demo_message\<lparr>msg_id := ''m2'', msg_session := ''s'', msg_role := ''user''\<rparr>],
     artifacts := map (\<lambda>f. \<lparr>art_id = f, art_task = ''t'', art_payload = OtherArtifact f\<rparr>) demo_facts\<rparr>"

definition demo_task :: task_row where
  "demo_task = hd (task_rows (st_tasks demo_failed))"

definition demo_resume :: orchestrator_event where
  "demo_resume = no_event\<lparr>oe_resume := Some (''m2'', JsonNull)\<rparr>"

definition demo_failure :: "string \<Rightarrow> delivery_op" where
  "demo_failure f = ByDispatch (\<lambda>_. True) \<lparr>dl_task = ''t'', dl_event = Some (no_event\<lparr>oe_failure := Some (f, JsonNull)\<rparr>),
     dl_now = 50, dl_stamps = ((('''', 0), ('''', 0)), ('''', 0))\<rparr>"

definition demo_retries :: control_store where
  "demo_retries = run_steps (apply_op demo_delivery demo_sources) (empty_tables demo_failed) (map demo_failure demo_facts)"

theorem accepted_event_comes_back_witness:
  "\<exists>st' iid r ev'. persist_resume_ingress demo_delivery (empty_tables demo_failed) demo_task demo_resume 60 = Inr (st', iid)
     \<and> find_ingress st' iid = Some r \<and> event_for_ingress demo_sources st' r = Inr ev'
     \<and> source_kind_of demo_resume = Inr MissionAcceptanceResume \<and> source_kind_of ev' = Inr MissionMessage"
proof -
  let ?st = "empty_tables demo_failed"
  have "case persist_resume_ingress demo_delivery ?st demo_task demo_resume 60 of Inl _ \<Rightarrow> False | Inr _ \<Rightarrow> True" by code_simp
  then obtain st' iid where p: "persist_resume_ingress demo_delivery ?st demo_task demo_resume 60 = Inr (st', iid)"
    by (cases "persist_resume_ingress demo_delivery ?st demo_task demo_resume 60") auto
  then have per: "persist_ingress demo_delivery ?st demo_task demo_resume (identity_of demo_resume) 60 = Inr (st', iid)"
    by (simp add: persist_resume_ingress_def demo_resume_def identity_of_def or_else_def no_identity_def)
  have d: "described demo_delivery demo_sources ?st (row_id demo_task) demo_resume" by code_simp
  have k: "source_kind_of demo_resume = Inr MissionAcceptanceResume" "delivered_kind demo_sources ?st demo_resume = Inr MissionMessage"
    by code_simp+
  show ?thesis
    using accepted_event_comes_back [OF empty_tables_ok per d] p k by auto
qed

theorem settlement_failure_is_misread_witness:
  "\<exists>r. r = ingresses demo_retries ! 5 \<and> length (ingresses demo_retries) = 6 \<and> ing_task r = ''t'' \<and> ing_epoch r = 1
     \<and> r \<notin> set (infrastructure_ingresses demo_sources demo_retries ''t'' 1)
     \<and> recovery_fact demo_sources demo_retries ''t'' ''f6'' = None"
proof -
  let ?r = "ingresses demo_retries ! 5"
  have len: "length (ingresses demo_retries) = 6" by code_simp
  have r: "ing_task ?r = ''t'' \<and> ing_epoch ?r = 1 \<and> ing_source ?r = SrcEngineArtifact \<and> ing_source_id ?r = ''f6''" by code_simp
  have "map_option art_task (find_artifact demo_retries ''f6'') = Some ''t''" by code_simp
  then obtain a where a: "find_artifact demo_retries (ing_source_id ?r) = Some a" "art_task a = ing_task ?r" using r by auto
  have c: "sc_artifact demo_sources a = settlement_failure_artifact ''publish-terminal-lifecycle'' (Some ''Error'') ''lost'' ''w1'' JsonNull
     (Some \<lparr>te_descriptor = ''td'', te_hash = ''th'', te_message = ''tm'', te_dispatch = Some ''d1''\<rparr>)"
    by (simp add: demo_sources_def demo_failure_columns_def)
  from settlement_failure_is_misread [OF a(1) _ a(2) c] r len show ?thesis by auto
qed

text \<open>Six failures whose artifacts name their dispatch: the sixth is suppressed.\<close>

definition demo_counted :: source_columns where
  "demo_counted = demo_sources\<lparr>sc_artifact := \<lambda>_. \<lparr>ac_kind = infrastructure_kind, ac_label = ''worker-runtime'',
     ac_payload = JsonObj [(''operation'', JsonStr ''dispatch''), (''reason'', JsonStr ''lost''),
       (''context'', JsonObj [(''dispatchID'', JsonStr ''d1'')])]\<rparr>\<rparr>"


end
