(* ===== verification/ControlScan.thy ===== *)
theory ControlScan
  imports IngressDelivery
begin

text \<open>
  One pass over the control plane of a Task (\<open>scanTaskControlPlane\<close>, \<open>activate\<close>,
  \<open>terminalizeExpiredTaskRootAssistants\<close> and \<open>reconcileAbandonedDispatches\<close> of
  \<open>engine/task-root-ingress-delivery.ts\<close>). Everything the pass calls in the fact store, the
  evidence reader, the reducer, the wait table and the disposition log is the model of that code;
  the Orchestrator Turn and the recovery of Sessions, cancellations and dispatches belong to other
  components and are arguments.
\<close>

section \<open>The world of a pass\<close>

text \<open>
  What the pass reads and writes: the tables, the columns that only some readers look at, the page
  cursors of the recovery of dispatches, and how many clock readings and new identities were used.
\<close>

record recovery_cursor =
  rc_after :: string
  rc_connection :: nat
  rc_wake :: "int option"
  rc_retry :: bool

record scan_world =
  sw_store :: control_store
  sw_inter :: interaction_tables
  sw_columns :: evidence_columns
  sw_sources :: source_columns
  sw_cursors :: "string \<Rightarrow> recovery_cursor option"
  sw_reads :: nat
  sw_names :: nat

datatype scan_error =
    ScanStore store_error
  | ScanAbsorb absorb_error
  | ScanDelivery delivery_error
  | ScanReconcile reconcile_error
  | ScanEvidence
  | ScanHost string

record recovery_lineage =
  rl_artifact :: string
  rl_dispatch :: string

datatype recovery_fate =
    StillOwned int
  | Recovered nat
  | RecoveryFailed

record scan_host =
  sh_delivery :: delivery_env
  sh_project :: string
  sh_locale :: "string \<Rightarrow> string \<Rightarrow> int"
  sh_gate :: "string \<Rightarrow> string \<Rightarrow> string \<Rightarrow> string"
  sh_clock :: "nat \<Rightarrow> int"
  sh_stamp :: "nat \<Rightarrow> event_stamp"
  sh_activation :: "nat \<Rightarrow> string"
  sh_asked :: "nat \<Rightarrow> string \<Rightarrow> string \<times> string"
  sh_texts :: "string \<Rightarrow> string \<times> string \<times> json"
  sh_owner :: string
  sh_owned :: "control_store \<Rightarrow> store_error + unit"
  sh_lease :: js_value
  sh_connection :: nat
  sh_boundary_gate :: "string \<Rightarrow> int \<Rightarrow> string \<times> artifact_payload"
  sh_intent :: "scan_world \<Rightarrow> scan_world \<times> scan_error option"
  sh_reconcile :: "(scan_world \<Rightarrow> scan_world \<times> scan_error option) option"
  sh_terminalize :: "scan_world \<Rightarrow> string \<Rightarrow> (string \<times> int) list \<Rightarrow> scan_world \<times> (scan_error + bool)"
  sh_page :: "scan_world \<Rightarrow> string \<Rightarrow> string option \<Rightarrow> scan_error + recovery_lineage list \<times> string option"
  sh_recover :: "scan_world \<Rightarrow> string \<Rightarrow> recovery_lineage \<Rightarrow> scan_world \<times> (scan_error + recovery_fate)"
  sh_turn :: "scan_world \<Rightarrow> orchestrator_event \<Rightarrow> string \<Rightarrow> string \<Rightarrow> string \<Rightarrow> scan_world \<times> scan_error option"

definition sh_env :: "scan_host \<Rightarrow> store_env" where
  "sh_env h = de_store (sh_delivery h)"

text \<open>\<open>Date.now()\<close>, and the reading of it that a statement makes.\<close>

definition clock_of :: "scan_host \<Rightarrow> scan_world \<Rightarrow> int" where
  "clock_of h w = sh_clock h (sw_reads w)"

definition tick :: "scan_world \<Rightarrow> scan_world" where
  "tick w = w\<lparr>sw_reads := Suc (sw_reads w)\<rparr>"

definition with_store :: "control_store \<Rightarrow> scan_world \<Rightarrow> scan_world" where
  "with_store st w = w\<lparr>sw_store := st\<rparr>"

definition fresh_stamps :: "scan_host \<Rightarrow> scan_world \<Rightarrow> event_stamp \<times> event_stamp \<times> event_stamp" where
  "fresh_stamps h w = (sh_stamp h (sw_names w), sh_stamp h (Suc (sw_names w)), sh_stamp h (Suc (Suc (sw_names w))))"

definition use_names :: "scan_world \<Rightarrow> scan_world" where
  "use_names w = w\<lparr>sw_names := sw_names w + 3\<rparr>"

definition evidence_reader_of :: "scan_world \<Rightarrow> evidence_reader" where
  "evidence_reader_of w = read_evidence (sw_columns w) (sw_inter w)"

definition project_at :: "scan_host \<Rightarrow> scan_world \<Rightarrow> string \<Rightarrow> int \<Rightarrow> store_error + projection" where
  "project_at h w iid now = project_ingress (sh_locale h) (evidence_reader_of w) (sw_store w) iid now"

section \<open>Assistants behind expired leases\<close>

definition expired_leases :: "control_store \<Rightarrow> string \<Rightarrow> int \<Rightarrow> (string \<times> int) list" where
  "expired_leases st iid now =
     map (\<lambda>l. (lease_id l, expires_at l)) (filter (\<lambda>l. expires_at l \<le> now) (target_leases (st_leases st) TargetTaskRootIngress iid))"

definition expired_assistants ::
  "evidence_columns \<Rightarrow> control_store \<Rightarrow> string \<Rightarrow> int \<Rightarrow> scan_error + (string \<times> string \<times> int) list" where
  "expired_assistants cols st iid now =
     (case find_ingress st iid of None \<Rightarrow> Inl (ScanStore IngressNotFound) | Some _ \<Rightarrow>
      let ls = expired_leases st iid now
      in rbind (rtraverse (\<lambda>m.
           if \<not> parse_assistant cols m then Inl ScanEvidence
           else Inr (case msg_activation m of
               JStr a \<Rightarrow> (if msg_completed m then [] else case map_of (rev ls) a of
                   Some e \<Rightarrow> [(msg_session m, msg_id m, e)] | None \<Rightarrow> [])
             | _ \<Rightarrow> []))
           (filter (\<lambda>m. case msg_activation m of JStr a \<Rightarrow> a \<in> set (map fst ls) | _ \<Rightarrow> False) (messages st)))
         (\<lambda>found. Inr (concat found)))"

text \<open>Grouping by Session in the order of first appearance.\<close>

definition by_session :: "(string \<times> string \<times> int) list \<Rightarrow> (string \<times> (string \<times> int) list) list" where
  "by_session cs = map (\<lambda>s. (s, map snd (filter (\<lambda>c. fst c = s) cs))) (rev (remdups (rev (map fst cs))))"

fun terminalize_all ::
  "scan_host \<Rightarrow> scan_world \<Rightarrow> (string \<times> (string \<times> int) list) list \<Rightarrow> scan_world \<times> (scan_error + nat)" where
  "terminalize_all h w [] = (w, Inr 0)"
| "terminalize_all h w ((s, ms) # rest) =
     (case sh_terminalize h w s ms of
        (w', Inl e) \<Rightarrow> (w', Inl e)
      | (w', Inr done) \<Rightarrow>
          (case terminalize_all h w' rest of
             (w'', Inl e) \<Rightarrow> (w'', Inl e)
           | (w'', Inr n) \<Rightarrow> (w'', Inr (if done then length ms + n else n))))"

definition terminalize_expired :: "scan_host \<Rightarrow> scan_world \<Rightarrow> string \<Rightarrow> int \<Rightarrow> scan_world \<times> (scan_error + nat)" where
  "terminalize_expired h w iid now =
     (case expired_assistants (sw_columns w) (sw_store w) iid now of
        Inl e \<Rightarrow> (w, Inl e)
      | Inr cs \<Rightarrow> terminalize_all h w (by_session cs))"

section \<open>Activation\<close>

text \<open>\<open>Inr None\<close> is an activation that ran; a refusal carries the projection that refused it.\<close>

definition run_turn ::
  "scan_host \<Rightarrow> scan_world \<Rightarrow> string \<Rightarrow> int \<Rightarrow> orchestrator_event \<Rightarrow> string \<Rightarrow> scan_world \<times> (scan_error + projection option)" where
  "run_turn h w iid now ev predecessor =
     (case acquire_ingress_lease (sh_env h) (sh_locale h) (evidence_reader_of w) (sh_owned h) (sw_store w)
             \<lparr>aq_ingress = iid, aq_owner = sh_owner h, aq_now = now, aq_milliseconds = sh_lease h\<rparr>
             (sh_activation h (sw_names w)) of
        Inl e \<Rightarrow> (w, Inl (ScanStore e))
      | Inr (st, IngressRefused p _) \<Rightarrow> (with_store st (use_names w), Inr (Some p))
      | Inr (st, IngressAcquired aid _) \<Rightarrow>
          (case sh_turn h (with_store st (use_names w)) ev iid aid predecessor of
             (w', None) \<Rightarrow> (w', Inr None) | (w', Some e) \<Rightarrow> (w', Inl e)))"

definition activate :: "scan_host \<Rightarrow> scan_world \<Rightarrow> string \<Rightarrow> scan_world \<times> (scan_error + projection option)" where
  "activate h w0 iid =
     (let now = clock_of h w0; w = tick w0
      in case project_at h w iid now of
           Inl e \<Rightarrow> (w, Inl (ScanStore e))
         | Inr p \<Rightarrow>
             if p \<noteq> Ready then (w, Inr (Some p))
             else case find_ingress (sw_store w) iid of None \<Rightarrow> (w, Inl (ScanStore IngressNotFound)) | Some r \<Rightarrow>
             (case collect_evidence (sw_columns w) (sw_inter w) (sw_store w) r of
                Inl IntegrityFault \<Rightarrow> (w, Inr (Some (HostFault EvidenceViolation)))
              | Inl PlainFault \<Rightarrow> (w, Inl ScanEvidence)
              | Inr evidence \<Rightarrow>
                  (case event_for_ingress (sw_sources w) (sw_store w) r of
                     Inl IntegrityFault \<Rightarrow> (w, Inr (Some (HostFault EvidenceViolation)))
                   | Inl PlainFault \<Rightarrow> (w, Inl ScanEvidence)
                   | Inr ev \<Rightarrow> run_turn h w iid now ev (predecessor_for (sh_locale h) p iid evidence))))"

section \<open>One step on one ingress\<close>

datatype step_result =
    Again nat
  | NextIngress
  | StopTask "int option" bool
  | ReturnAt int
  | Fault scan_error

definition surface_gate :: "scan_host \<Rightarrow> scan_world \<Rightarrow> string \<Rightarrow> string \<Rightarrow> projection \<Rightarrow> int \<Rightarrow> scan_world \<times> bool" where
  "surface_gate h w tid iid p now =
     (case surface_operator_gated (sh_env h) (sh_locale h) (sh_gate h) (sw_columns w) (sw_inter w) (sw_store w) tid iid p now
             (fresh_stamps h w) of
        (st, done) \<Rightarrow> (with_store st (use_names w), done))"

definition settle_ingress ::
  "scan_host \<Rightarrow> scan_world \<Rightarrow> string \<Rightarrow> string \<Rightarrow> projection \<Rightarrow> int option \<Rightarrow> scan_world \<times> int option" where
  "settle_ingress h w tid iid p deadline =
     (case classify_wake p deadline (clock_of h w) of
        FiniteWake t \<Rightarrow> (tick w, Some t)
      | OperatorGated InfrastructureFact \<Rightarrow>
          (case surface_gate h (tick (tick w)) tid iid p (clock_of h (tick w)) of
             (w', True) \<Rightarrow> (w', None)
           | (w', False) \<Rightarrow> (tick w', Some (clock_of h w' + 1000)))
      | _ \<Rightarrow> (tick w, None))"

definition stop_settled ::
  "scan_host \<Rightarrow> scan_world \<Rightarrow> string \<Rightarrow> string \<Rightarrow> projection \<Rightarrow> int option \<Rightarrow> scan_world \<times> step_result" where
  "stop_settled h w tid iid p deadline =
     (case settle_ingress h w tid iid p deadline of (w', wake) \<Rightarrow> (w', StopTask wake False))"

definition record_verdict ::
  "scan_host \<Rightarrow> scan_world \<Rightarrow> string \<Rightarrow> string \<Rightarrow> absorbing \<Rightarrow> int \<Rightarrow> scan_world \<times> step_result" where
  "record_verdict h w tid iid expected now =
     (case record_absorbing (sh_env h) (sh_locale h) (sh_gate h) (sw_columns w) (sw_inter w) (sw_store w) tid iid expected now
             (fresh_stamps h w) of
        Inl e \<Rightarrow> (w, Fault (ScanAbsorb e))
      | Inr st \<Rightarrow> (with_store st (use_names w), NextIngress))"

definition ask_operator ::
  "scan_host \<Rightarrow> scan_world \<Rightarrow> string \<Rightarrow> string \<Rightarrow> string list \<Rightarrow> int \<Rightarrow> scan_world \<times> (scan_error + nat)" where
  "ask_operator h w tid iid rids now =
     (case ensure_activity_reconciliation (sh_texts h) (sh_asked h (sw_names w)) tid iid now (sw_store w, sw_inter w) rids of
        Inl e \<Rightarrow> (w, Inl (ScanReconcile e))
      | Inr ((st, its), n) \<Rightarrow> (use_names (w\<lparr>sw_store := st, sw_inter := its\<rparr>), Inr n))"

definition decide_step ::
  "scan_host \<Rightarrow> scan_world \<Rightarrow> string \<Rightarrow> string \<Rightarrow> int option \<Rightarrow> int \<Rightarrow> projection \<Rightarrow> scan_world \<times> step_result" where
  "decide_step h w tid iid deadline now p =
     (case p of
        Resolved _ \<Rightarrow> record_verdict h w tid iid AbsorbResolved now
      | TerminalInapplicable _ \<Rightarrow> record_verdict h w tid iid AbsorbTerminal now
      | Exhausted _ \<Rightarrow>
          (case surface_gate h (tick w) tid iid p (clock_of h w) of
             (w', True) \<Rightarrow> (w', NextIngress) | (w', False) \<Rightarrow> (tick w', ReturnAt (clock_of h w' + 1000)))
      | HostFault _ \<Rightarrow>
          (case surface_gate h w tid iid p now of
             (w', True) \<Rightarrow> (w', NextIngress) | (w', False) \<Rightarrow> (tick w', StopTask (Some (clock_of h w' + 1000)) False))
      | ReconcileRequired rids \<Rightarrow>
          (case ask_operator h w tid iid rids now of
             (w', Inl e) \<Rightarrow> (w', Fault e)
           | (w', Inr n) \<Rightarrow> if n > 0 then (w', Again 0) else stop_settled h w' tid iid p deadline)
      | Ready \<Rightarrow>
          (case activate h w iid of
             (w', Inl e) \<Rightarrow> (w', Fault e)
           | (w', Inr None) \<Rightarrow> (w', Again 1)
           | (w', Inr (Some q)) \<Rightarrow> stop_settled h w' tid iid q deadline)
      | _ \<Rightarrow> stop_settled h w tid iid p deadline)"

definition ingress_step ::
  "scan_host \<Rightarrow> scan_world \<Rightarrow> string \<Rightarrow> string \<Rightarrow> int option \<Rightarrow> scan_world \<times> step_result" where
  "ingress_step h w tid iid deadline =
     (let now = clock_of h w
      in case terminalize_expired h (tick w) iid now of
           (w1, Inl e) \<Rightarrow> (w1, Fault e)
         | (w1, Inr n) \<Rightarrow>
             if n > 0 then (w1, Again 0)
             else case project_at h w1 iid now of
               Inl e \<Rightarrow> (w1, Fault (ScanStore e))
             | Inr p \<Rightarrow> decide_step h w1 tid iid deadline now p)"

text \<open>
  At most 32 steps are made on one ingress in one pass. \<open>n\<close> counts the steps left and \<open>acts\<close> the
  activations.
\<close>

definition max_ingress_steps :: nat where
  "max_ingress_steps = 32"

fun run_ingress ::
  "scan_host \<Rightarrow> scan_world \<Rightarrow> string \<Rightarrow> string \<Rightarrow> int option \<Rightarrow> nat \<Rightarrow> nat \<Rightarrow> scan_world \<times> nat \<times> step_result" where
  "run_ingress h w tid iid deadline acts 0 = (tick w, acts, StopTask None True)"
| "run_ingress h w tid iid deadline acts (Suc n) =
     (case ingress_step h w tid iid deadline of
        (w', Again k) \<Rightarrow> run_ingress h w' tid iid deadline (acts + k) n
      | (w', r) \<Rightarrow> (w', acts, r))"

section \<open>The pages of the queue\<close>

text \<open>The absolute deadline is read without evidence, as the code does.\<close>

definition deadline_of :: "scan_world \<Rightarrow> string \<Rightarrow> store_error + int option" where
  "deadline_of w iid =
     rbind (read_ingress_facts (\<lambda>_ _. Inr (Some empty_evidence)) (sw_store w) iid) (\<lambda>facts. Inr (absolute_deadline (policy facts)))"

fun run_rows ::
  "scan_host \<Rightarrow> scan_world \<Rightarrow> string \<Rightarrow> nat \<Rightarrow> ingress_row list \<Rightarrow> scan_world \<times> nat \<times> step_result" where
  "run_rows h w tid acts [] = (w, acts, NextIngress)"
| "run_rows h w tid acts (r # rs) =
     (case deadline_of w (ing_id r) of
        Inl e \<Rightarrow> (w, acts, Fault (ScanStore e))
      | Inr deadline \<Rightarrow>
          (case run_ingress h w tid (ing_id r) deadline acts max_ingress_steps of
             (w', acts', NextIngress) \<Rightarrow> run_rows h w' tid acts' rs
           | out \<Rightarrow> out))"

text \<open>
  A pass goes on while pages are full; a Turn may accept new ingresses for ever, so it may not end.
\<close>

partial_function (option) run_pages ::
  "scan_host \<Rightarrow> scan_world \<Rightarrow> string \<Rightarrow> int \<Rightarrow> nat \<Rightarrow> frontier_cursor option \<Rightarrow> (scan_world \<times> nat \<times> step_result) option" where
  "run_pages h w tid ep acts aft =
     (case reconciliation_page (sw_store w) tid ep aft None (JInt 32) of
        Inl e \<Rightarrow> Some (w, acts, Fault (ScanStore e))
      | Inr page \<Rightarrow>
          if page_rows page = [] then Some (w, acts, NextIngress)
          else (case run_rows h w tid acts (page_rows page) of
              (w', acts', NextIngress) \<Rightarrow>
                (case page_next page of None \<Rightarrow> Some (w', acts', NextIngress)
                 | Some c \<Rightarrow> run_pages h w' tid ep acts' (Some c))
            | out \<Rightarrow> Some out))"

section \<open>Abandoned dispatches\<close>

text \<open>
  \<open>sh_page\<close> is a page of the lineages without a delivered outcome, and \<open>sh_recover\<close> what the
  recovery of one of them comes to: its owner is still alive until an instant, it was recovered (0
  or 1 deliveries), or the attempt threw, which is logged and remembered.
\<close>

record recovery_report =
  rr_recovered :: nat
  rr_more :: bool
  rr_wake :: "int option"
  rr_retry :: bool

fun recover_lineages ::
  "scan_host \<Rightarrow> scan_world \<Rightarrow> string \<Rightarrow> nat \<times> int option \<times> bool \<Rightarrow> recovery_lineage list
   \<Rightarrow> scan_world \<times> (scan_error + nat \<times> int option \<times> bool)" where
  "recover_lineages h w tid acc [] = (w, Inr acc)"
| "recover_lineages h w tid (n, wake, retry) (l # ls) =
     (case sh_recover h w tid l of
        (w', Inl e) \<Rightarrow> (w', Inl e)
      | (w', Inr (StillOwned t)) \<Rightarrow> recover_lineages h w' tid (n, min_defined wake (Some t), retry) ls
      | (w', Inr (Recovered k)) \<Rightarrow> recover_lineages h w' tid (n + k, wake, retry) ls
      | (w', Inr RecoveryFailed) \<Rightarrow> recover_lineages h w' tid (n, wake, True) ls)"

definition current_traversal :: "scan_host \<Rightarrow> scan_world \<Rightarrow> string \<Rightarrow> recovery_cursor option" where
  "current_traversal h w tid = (case sw_cursors w tid of None \<Rightarrow> None
     | Some c \<Rightarrow> if rc_connection c = sh_connection h then Some c else None)"

definition recover_dispatches :: "scan_host \<Rightarrow> scan_world \<Rightarrow> string \<Rightarrow> scan_world \<times> (scan_error + recovery_report)" where
  "recover_dispatches h w tid =
     (let prior = current_traversal h w tid
      in case sh_page h w tid (map_option rc_after prior) of
           Inl e \<Rightarrow> (w, Inl e)
         | Inr (lineages, next_page) \<Rightarrow>
             (case recover_lineages h w tid (0, Option.bind prior rc_wake, (case prior of None \<Rightarrow> False | Some c \<Rightarrow> rc_retry c)) lineages of
                (w', Inl e) \<Rightarrow> (w', Inl e)
              | (w', Inr (n, wake, retry)) \<Rightarrow>
                  (w'\<lparr>sw_cursors := (sw_cursors w')(tid := (case next_page of None \<Rightarrow> None
                      | Some a \<Rightarrow> Some \<lparr>rc_after = a, rc_connection = sh_connection h, rc_wake = wake, rc_retry = retry\<rparr>))\<rparr>,
                   Inr \<lparr>rr_recovered = n, rr_more = (next_page \<noteq> None), rr_wake = wake, rr_retry = retry\<rparr>)))"

section \<open>The pass\<close>

datatype scan_result = Scanned nat "int option" bool | ScanFault scan_error

definition owns_task :: "scan_host \<Rightarrow> scan_world \<Rightarrow> string \<Rightarrow> bool" where
  "owns_task h w tid \<longleftrightarrow>
     (case find_task (st_tasks (sw_store w)) tid of None \<Rightarrow> False
      | Some task \<Rightarrow> row_project task = sh_project h \<and> \<not> store_task_deleted (sw_store w) tid)"

text \<open>\<open>surfaceUnconvergedTaskBoundary\<close>: a failure is logged.\<close>

definition surface_boundary :: "scan_host \<Rightarrow> scan_world \<Rightarrow> string \<Rightarrow> int \<Rightarrow> scan_world" where
  "surface_boundary h w tid ep =
     (case sh_boundary_gate h tid ep of (gid, payload) \<Rightarrow>
       (case fresh_stamps h w of (s1, s2, _) \<Rightarrow>
         (case record_gate (sw_store w) gid tid payload (s1, s2) of
            Inl _ \<Rightarrow> use_names w | Inr st \<Rightarrow> with_store st (use_names w))))"

definition recovery_wake :: "scan_host \<Rightarrow> scan_world \<Rightarrow> recovery_report \<Rightarrow> int option" where
  "recovery_wake h w rep = (if rr_more rep then min_defined (rr_wake rep) (Some (clock_of h w + 25)) else rr_wake rep)"

definition pass_result ::
  "scan_host \<Rightarrow> int option \<Rightarrow> recovery_report \<Rightarrow> scan_world \<times> nat \<times> step_result \<Rightarrow> scan_world \<times> scan_result" where
  "pass_result h wait_wake rep out =
     (case out of (w, acts, r) \<Rightarrow>
       let total = acts + rr_recovered rep; stuck = (\<not> rr_more rep \<and> rr_retry rep)
       in case r of
            Fault e \<Rightarrow> (w, ScanFault e)
          | ReturnAt t \<Rightarrow> (w, Scanned total (Some t) False)
          | StopTask wake no_progress \<Rightarrow>
              (tick w, Scanned total (min_defined (min_defined wake wait_wake) (recovery_wake h w rep)) (no_progress \<or> stuck))
          | _ \<Rightarrow> (tick w, Scanned total (min_defined wait_wake (recovery_wake h w rep)) stuck))"

text \<open>The part after the cancellation of the Task, if one was under way, has been settled.\<close>

definition wake_due_wait :: "scan_host \<Rightarrow> scan_world \<Rightarrow> string \<Rightarrow> int \<Rightarrow> scan_world \<times> scan_error option" where
  "wake_due_wait h w tid ep =
     (case find_task (st_tasks (sw_store w)) tid of None \<Rightarrow> (w, None) | Some task \<Rightarrow>
      case materialize_due_wait (sh_delivery h) (sw_store w) task ep (clock_of h w) of
        Inl e \<Rightarrow> (tick w, Some (ScanDelivery e)) | Inr (st, _) \<Rightarrow> (with_store st (tick w), None))"

definition scan_queue ::
  "scan_host \<Rightarrow> scan_world \<Rightarrow> string \<Rightarrow> lifecycle_projection \<Rightarrow> (scan_world \<times> scan_result) option" where
  "scan_queue h w tid lc =
     (let wait_wake = (if proj_status lc = Active then next_task_wait_due_at (sw_store w) tid (proj_epoch lc) else None)
      in case recover_dispatches h w tid of
           (w1, Inl e) \<Rightarrow> Some (w1, ScanFault e)
         | (w1, Inr rep) \<Rightarrow> map_option (pass_result h wait_wake rep) (run_pages h w1 tid (proj_epoch lc) 0 None))"

definition scan_open ::
  "scan_host \<Rightarrow> scan_world \<Rightarrow> string \<Rightarrow> lifecycle_projection \<Rightarrow> (scan_world \<times> scan_result) option" where
  "scan_open h w tid lc =
     (if proj_status lc \<noteq> Active then scan_queue h w tid lc
      else case wake_due_wait h w tid (proj_epoch lc) of
        (w1, Some e) \<Rightarrow> Some (w1, ScanFault e)
      | (w1, None) \<Rightarrow>
          (case task_projection (sh_env h) (sw_store w1) tid of
             Inl e \<Rightarrow> Some (w1, ScanFault (ScanStore e)) | Inr lc' \<Rightarrow> scan_queue h w1 tid lc'))"

definition scan_cancelling :: "scan_host \<Rightarrow> scan_world \<Rightarrow> string \<Rightarrow> (scan_world \<times> scan_result) option" where
  "scan_cancelling h w tid =
     (case (case sh_reconcile h of None \<Rightarrow> (w, None) | Some reconcile \<Rightarrow> reconcile w) of
        (w1, Some e) \<Rightarrow> Some (w1, ScanFault e)
      | (w1, None) \<Rightarrow>
          (case task_projection (sh_env h) (sw_store w1) tid of
             Inl e \<Rightarrow> Some (w1, ScanFault (ScanStore e))
           | Inr lc \<Rightarrow>
               if proj_status lc = Cancelling
               then (let w2 = (if sh_reconcile h = None then surface_boundary h (tick w1) tid (proj_epoch lc) else w1)
                     in Some (tick w2, Scanned 0 (Some (clock_of h w2 + cancellation_reconcile_wake_ms)) False))
               else scan_open h w1 tid lc))"

definition scan_control_plane :: "scan_host \<Rightarrow> scan_world \<Rightarrow> string \<Rightarrow> (scan_world \<times> scan_result) option" where
  "scan_control_plane h w tid =
     (if \<not> owns_task h w tid then Some (w\<lparr>sw_cursors := (sw_cursors w)(tid := None)\<rparr>, Scanned 0 None False)
      else case sh_intent h w of
        (w1, Some e) \<Rightarrow> Some (w1, ScanFault e)
      | (w1, None) \<Rightarrow>
          (case task_projection (sh_env h) (sw_store w1) tid of
             Inl e \<Rightarrow> Some (w1, ScanFault (ScanStore e))
           | Inr lc \<Rightarrow> if proj_status lc = Cancelling then scan_cancelling h w1 tid else scan_open h w1 tid lc))"

end
