(* ===== verification/ScanProps.thy ===== *)
theory ScanProps
  imports ControlScan AbsorptionProps
begin

text \<open>
  What a pass over the control plane of a Task leaves behind: it only ever adds to the queue and to
  its dispositions, a pass that runs to the end has disposed of every ingress it started with, and
  it runs to the end unless Turns accept new ingresses for ever.
\<close>

section \<open>The queue only grows\<close>

definition queue_grows :: "control_store \<Rightarrow> control_store \<Rightarrow> bool" where
  "queue_grows st st' \<longleftrightarrow> (\<exists>xs. ingresses st' = ingresses st @ xs) \<and> (\<forall>r. \<not> undisposed st r \<longrightarrow> \<not> undisposed st' r)"

definition same_queue :: "control_store \<Rightarrow> control_store \<Rightarrow> bool" where
  "same_queue st st' \<longleftrightarrow> ingresses st' = ingresses st \<and> (\<forall>r. \<not> undisposed st r \<longrightarrow> \<not> undisposed st' r)"

lemma same_queue_grows: "same_queue st st' \<Longrightarrow> queue_grows st st'"
  by (simp add: same_queue_def queue_grows_def)

lemma same_queue_refl [simp]: "same_queue st st"
  by (simp add: same_queue_def)

lemma same_queue_trans: "same_queue a b \<Longrightarrow> same_queue b c \<Longrightarrow> same_queue a c"
  by (simp add: same_queue_def)

lemma queue_grows_trans: "queue_grows a b \<Longrightarrow> queue_grows b c \<Longrightarrow> queue_grows a c"
  by (auto simp: queue_grows_def)

lemma queue_grows_refl [simp]: "queue_grows st st"
  by (simp add: queue_grows_def)

lemma queue_grows_epoch:
  "queue_grows st st' \<Longrightarrow> r \<in> set (epoch_ingresses st tid ep) \<Longrightarrow> r \<in> set (epoch_ingresses st' tid ep)"
  by (auto simp: queue_grows_def epoch_ingresses_def)

lemma same_columns_queue: "ingresses st' = ingresses st \<Longrightarrow> artifacts st' = artifacts st \<Longrightarrow> same_queue st st'"
  by (simp add: same_queue_def undisposed_def disposition_artifact_def)

lemma announces_queue:
  assumes "announces st as st'"
  shows "same_queue st st'"
proof -
  have "ingresses st' = ingresses st" using assms by (auto simp: announces_def)
  moreover have "\<not> undisposed st' r" if "\<not> undisposed st r" for r
    using that disposition_artifact_grows [of st "ing_task r" "ing_id r"] announces_artifacts [OF assms]
    by (auto simp: undisposed_def)
  ultimately show ?thesis by (simp add: same_queue_def)
qed

section \<open>The operations of a step\<close>

lemma recorded_verdict:
  assumes "record_absorbing env lc gate cols its st tid iid expected now stamps = Inr st'"
  shows "same_queue st st'" and "disposition_artifact st' tid iid \<noteq> None"
proof -
  from record_absorbing_cases [OF assms] obtain facts st1 ev oc aid where
    ev: "absorbing_evidence gate cols st tid iid facts (reduce_ingress lc facts now) (snd stamps) = Inr (st1, ev, oc)"
    and rd: "record_disposition env (disposition_admitted cols) st1 \<lparr>dp_task = tid, dp_ingress = iid, dp_epoch = execution_epoch (ingress facts),
       dp_kind = disposition_kind_of expected, dp_evidence = ev, dp_occurrence = oc, dp_created = now\<rparr> (fst stamps) = Inr (st', aid)"
    by metis
  obtain as1 where as1: "announces st as1 st1" using absorbing_evidence_announces [OF ev] by blast
  from rd have both: "same_queue st st' \<and> disposition_artifact st' tid iid \<noteq> None"
  proof (cases rule: record_disposition_effect)
    case (1 a d' as2)
    from same_queue_trans [OF announces_queue [OF as1] announces_queue [OF 1(3)]] 1(1) show ?thesis by simp
  qed
  then show "same_queue st st'" "disposition_artifact st' tid iid \<noteq> None" by simp_all
qed

lemma surfaced_gate:
  assumes "surface_gate h w tid iid p now = (w', done)"
  shows "same_queue (sw_store w) (sw_store w')" and "done \<Longrightarrow> disposition_artifact (sw_store w') tid iid \<noteq> None"
    and "\<not> done \<Longrightarrow> sw_store w' = sw_store w" and "sw_columns w' = sw_columns w" "sw_inter w' = sw_inter w" "sw_sources w' = sw_sources w"
proof -
  obtain st d where s: "surface_operator_gated (sh_env h) (sh_locale h) (sh_gate h) (sw_columns w) (sw_inter w) (sw_store w) tid iid p now
      (fresh_stamps h w) = (st, d)" by (cases "surface_operator_gated (sh_env h) (sh_locale h) (sh_gate h) (sw_columns w) (sw_inter w)
      (sw_store w) tid iid p now (fresh_stamps h w)")
  have w': "w' = with_store st (use_names w)" "done = d" using assms s by (auto simp: surface_gate_def)
  have yes: "\<exists>k. record_absorbing (sh_env h) (sh_locale h) (sh_gate h) (sw_columns w) (sw_inter w) (sw_store w) tid iid k now
      (fresh_stamps h w) = Inr st" if d
    using s that unfolding surface_operator_gated_def by (auto split: option.splits absorbing.splits sum.splits)
  have no: "st = sw_store w" if "\<not> d"
    using s that unfolding surface_operator_gated_def by (auto split: option.splits absorbing.splits sum.splits)
  have store: "sw_store w' = st" by (simp add: w'(1) with_store_def)
  show "same_queue (sw_store w) (sw_store w')"
  proof (cases d)
    case True
    from yes [OF this] recorded_verdict(1) show ?thesis unfolding store by blast
  qed (simp add: store no)
  show "disposition_artifact (sw_store w') tid iid \<noteq> None" if "done"
    using yes that recorded_verdict(2) unfolding store w'(2) by blast
  show "sw_store w' = sw_store w" if "\<not> done" using no that by (simp add: store w'(2))
  show "sw_columns w' = sw_columns w" "sw_inter w' = sw_inter w" "sw_sources w' = sw_sources w"
    by (simp_all add: w'(1) with_store_def use_names_def)
qed

lemma insert_interaction_queue:
  "insert_interaction w inp i now fresh = Inr (w', j) \<Longrightarrow> same_queue (fst w) (fst w')"
  by (cases w) (auto simp: insert_interaction_def rbind_Inr_iff emit_task_event_def intro!: same_columns_queue split: sum.splits)

lemma ensure_reconciliation_queue:
  "ensure_reconciliation texts ids tid sid iid now w rids = Inr (w', n) \<Longrightarrow> same_queue (fst w) (fst w')"
proof (induction rids arbitrary: w n)
  case (Cons r rs)
  show ?case
  proof (cases "Some (reconciliation_external r) \<in> set (map ir_external (int_requests (snd w)))")
    case True
    with Cons show ?thesis by simp
  next
    case False
    with Cons.prems obtain mid where step: "(case insert_interaction w (reconciliation_question texts tid sid iid r mid now) (fst (ids r)) now (snd (ids r)) of
          Inl e \<Rightarrow> Inl (AskFailure e)
        | Inr (w1, _) \<Rightarrow> rbind (ensure_reconciliation texts ids tid sid iid now w1 rs) (\<lambda>(w'', n). Inr (w'', Suc n))) = Inr (w', n)"
      by (simp only: ensure_reconciliation.simps if_False rbind_Inr_iff) blast
    obtain w1 j where ins: "insert_interaction w (reconciliation_question texts tid sid iid r mid now) (fst (ids r)) now (snd (ids r)) = Inr (w1, j)"
      using step by (cases "insert_interaction w (reconciliation_question texts tid sid iid r mid now) (fst (ids r)) now (snd (ids r))") auto
    with step obtain m where rest: "ensure_reconciliation texts ids tid sid iid now w1 rs = Inr (w', m)"
      by (auto simp: rbind_Inr_iff)
    have "same_queue (fst w) (fst w1)" by (rule insert_interaction_queue [OF ins])
    from same_queue_trans [OF this Cons.IH [OF rest]] show ?thesis .
  qed
qed simp

lemma asked_queue:
  assumes "ask_operator h w tid iid rids now = (w', res)"
  shows "same_queue (sw_store w) (sw_store w')"
  using assms ensure_reconciliation_queue
  by (fastforce simp: ask_operator_def ensure_activity_reconciliation_def use_names_def split: sum.splits prod.splits option.splits)

lemma acquired_queue:
  assumes "acquire_ingress_lease env lc rd owned st inp activation = Inr (st', res)"
  shows "same_queue st st'"
  using assms
  by (auto simp: acquire_ingress_lease_def rbind_Inr_iff intro!: same_columns_queue
      split: if_split_asm option.split_asm sum.split_asm prod.split_asm lease_acquisition.split_asm)

text \<open>What is asked of the other components, for a relation between the tables before and after.\<close>

definition host_keeps :: "(control_store \<Rightarrow> control_store \<Rightarrow> bool) \<Rightarrow> scan_host \<Rightarrow> bool" where
  "host_keeps R h \<longleftrightarrow>
     (\<forall>w s ms. R (sw_store w) (sw_store (fst (sh_terminalize h w s ms))))
   \<and> (\<forall>w ev i a p. R (sw_store w) (sw_store (fst (sh_turn h w ev i a p))))"

lemma tick_store [simp]: "sw_store (tick w) = sw_store w" "sw_columns (tick w) = sw_columns w" "sw_inter (tick w) = sw_inter w"
  "sw_sources (tick w) = sw_sources w"
  by (simp_all add: tick_def)

lemma with_store_fields [simp]: "sw_store (with_store st w) = st" "sw_columns (with_store st w) = sw_columns w"
  "sw_inter (with_store st w) = sw_inter w" "sw_sources (with_store st w) = sw_sources w"
  by (simp_all add: with_store_def)

lemma use_names_store [simp]: "sw_store (use_names w) = sw_store w" "sw_columns (use_names w) = sw_columns w"
  "sw_inter (use_names w) = sw_inter w" "sw_sources (use_names w) = sw_sources w"
  by (simp_all add: use_names_def)

lemma settled_queue: "settle_ingress h w tid iid p deadline = (w', x) \<Longrightarrow> same_queue (sw_store w) (sw_store w')"
  using surfaced_gate(1) [of h "tick (tick w)" tid iid p "clock_of h (tick w)"]
  by (auto simp: settle_ingress_def split: wake_class.splits surface.splits prod.splits bool.splits)

lemma stop_settled_queue:
  assumes "stop_settled h w tid iid p deadline = (w', r)"
  shows "same_queue (sw_store w) (sw_store w') \<and> r \<noteq> NextIngress"
proof -
  obtain w1 x where s: "settle_ingress h w tid iid p deadline = (w1, x)" by (cases "settle_ingress h w tid iid p deadline")
  from settled_queue [OF s] assms s show ?thesis by (auto simp: stop_settled_def)
qed

lemma record_verdict_queue:
  assumes "record_verdict h w tid iid k now = (w', r)"
  shows "same_queue (sw_store w) (sw_store w') \<and> (r = NextIngress \<longrightarrow> disposition_artifact (sw_store w') tid iid \<noteq> None)"
proof (cases "record_absorbing (sh_env h) (sh_locale h) (sh_gate h) (sw_columns w) (sw_inter w) (sw_store w) tid iid k now (fresh_stamps h w)")
  case (Inl e)
  with assms show ?thesis by (auto simp: record_verdict_def)
next
  case (Inr st)
  with assms have "sw_store w' = st" by (auto simp: record_verdict_def)
  with recorded_verdict [OF Inr] show ?thesis by simp
qed

definition step_sound :: "(control_store \<Rightarrow> control_store \<Rightarrow> bool) \<Rightarrow> scan_world \<Rightarrow> string \<Rightarrow> string \<Rightarrow> scan_world \<times> step_result \<Rightarrow> bool" where
  "step_sound R w tid iid out \<longleftrightarrow> R (sw_store w) (sw_store (fst out))
     \<and> (snd out = NextIngress \<longrightarrow> disposition_artifact (sw_store (fst out)) tid iid \<noteq> None)"

text \<open>
  A relation that a pass keeps if the other components do: what the store operations of a pass do
  to the queue is within it, and it never takes a disposition back.
\<close>

locale queue_relation =
  fixes R :: "control_store \<Rightarrow> control_store \<Rightarrow> bool"
  assumes R_trans: "R a b \<Longrightarrow> R b c \<Longrightarrow> R a c"
    and R_same: "same_queue st st' \<Longrightarrow> R st st'"
    and R_kept: "R st st' \<Longrightarrow> \<not> undisposed st r \<Longrightarrow> \<not> undisposed st' r"
begin

lemma R_refl [simp]: "R st st"
  by (rule R_same) simp

lemma terminalize_all_queue:
  assumes "host_keeps R h"
  shows "terminalize_all h w gs = (w', r) \<Longrightarrow> R (sw_store w) (sw_store w')"
proof (induction gs arbitrary: w w' r)
  case (Cons g gs)
  obtain s ms where g: "g = (s, ms)" by (cases g)
  obtain w1 r1 where t: "sh_terminalize h w s ms = (w1, r1)" by (cases "sh_terminalize h w s ms")
  have "R (sw_store w) (sw_store (fst (sh_terminalize h w s ms)))" using assms by (simp add: host_keeps_def)
  then have one: "R (sw_store w) (sw_store w1)" by (simp add: t)
  show ?case
  proof (cases r1)
    case (Inl e)
    with Cons.prems one t g show ?thesis by simp
  next
    case (Inr d)
    obtain w2 r2 where rest: "terminalize_all h w1 gs = (w2, r2)" by (cases "terminalize_all h w1 gs")
    with Cons.prems t g Inr have "w' = w2" by (auto split: sum.splits)
    with R_trans [OF one Cons.IH [OF rest]] show ?thesis by simp
  qed
qed simp

lemma terminalize_expired_queue:
  "host_keeps R h \<Longrightarrow> terminalize_expired h w iid now = (w', r) \<Longrightarrow> R (sw_store w) (sw_store w')"
  using terminalize_all_queue [of h w] by (auto simp: terminalize_expired_def split: sum.splits)

lemma run_turn_queue:
  assumes "host_keeps R h" "run_turn h w iid now ev pre = (w', r)"
  shows "R (sw_store w) (sw_store w')"
proof -
  let ?acq = "acquire_ingress_lease (sh_env h) (sh_locale h) (evidence_reader_of w) (sh_owned h) (sw_store w)
             \<lparr>aq_ingress = iid, aq_owner = sh_owner h, aq_now = now, aq_milliseconds = sh_lease h\<rparr> (sh_activation h (sw_names w))"
  show ?thesis
  proof (cases ?acq)
    case (Inl e)
    with assms(2) show ?thesis by (simp add: run_turn_def)
  next
    case (Inr x)
    then obtain st acq where a: "?acq = Inr (st, acq)" by (cases x) auto
    have q: "R (sw_store w) st" using acquired_queue [OF a] by (rule R_same)
    show ?thesis
    proof (cases acq)
      case (IngressRefused p i)
      with assms(2) a q show ?thesis by (auto simp: run_turn_def)
    next
      case (IngressAcquired aid ex)
      let ?w1 = "with_store st (use_names w)"
      obtain w2 x where t: "sh_turn h ?w1 ev iid aid pre = (w2, x)" by (cases "sh_turn h ?w1 ev iid aid pre")
      have "R (sw_store ?w1) (sw_store (fst (sh_turn h ?w1 ev iid aid pre)))" using assms(1) unfolding host_keeps_def by blast
      moreover have "w' = w2" using assms(2) a t IngressAcquired by (auto simp: run_turn_def split: option.splits)
      ultimately show ?thesis using q t R_trans by auto
    qed
  qed
qed

lemma activate_queue:
  assumes "host_keeps R h" "activate h w iid = (w', r)"
  shows "R (sw_store w) (sw_store w')"
  using assms(2) run_turn_queue [OF assms(1), of "tick w"]
  by (auto simp: activate_def Let_def split: sum.splits option.splits if_splits evidence_fault.splits)

lemma stop_settled_sound: "step_sound R w tid iid (stop_settled h w tid iid p deadline)"
  using stop_settled_queue [of h w tid iid p deadline] R_same
  by (cases "stop_settled h w tid iid p deadline") (auto simp: step_sound_def)

lemma record_verdict_sound: "step_sound R w tid iid (record_verdict h w tid iid k now)"
  using record_verdict_queue [of h w tid iid k now] R_same
  by (cases "record_verdict h w tid iid k now") (auto simp: step_sound_def)

lemma surface_sound:
  assumes "\<And>w'. f w' \<noteq> NextIngress" "sw_store w0 = sw_store w"
  shows "step_sound R w tid iid (case surface_gate h w0 tid iid p now of (w', True) \<Rightarrow> (w', NextIngress) | (w', False) \<Rightarrow> (tick w', f w'))"
proof -
  obtain w1 d where s: "surface_gate h w0 tid iid p now = (w1, d)" by (cases "surface_gate h w0 tid iid p now")
  have "R (sw_store w) (sw_store w1)" using surfaced_gate(1) [OF s] assms(2) by (simp add: R_same)
  then show ?thesis using surfaced_gate(2) [OF s] assms(1) s by (cases d) (simp_all add: step_sound_def)
qed

lemma ask_sound:
  "step_sound R w tid iid (case ask_operator h w tid iid rids now of (w', Inl e) \<Rightarrow> (w', Fault e)
     | (w', Inr n) \<Rightarrow> if n > 0 then (w', Again 0) else stop_settled h w' tid iid p deadline)"
proof -
  obtain w1 x where a: "ask_operator h w tid iid rids now = (w1, x)" by (cases "ask_operator h w tid iid rids now")
  have q: "R (sw_store w) (sw_store w1)" using asked_queue [OF a] by (rule R_same)
  have "step_sound R w tid iid (stop_settled h w1 tid iid p deadline)"
    using stop_settled_sound [of w1 tid iid h p deadline] R_trans [OF q] by (simp add: step_sound_def)
  then show ?thesis
    using a q by (cases x) (simp_all add: step_sound_def)
qed

lemma activate_sound:
  assumes "host_keeps R h"
  shows "step_sound R w tid iid (case activate h w iid of (w', Inl e) \<Rightarrow> (w', Fault e)
     | (w', Inr None) \<Rightarrow> (w', Again 1) | (w', Inr (Some q)) \<Rightarrow> stop_settled h w' tid iid q deadline)"
proof -
  obtain w1 x where a: "activate h w iid = (w1, x)" by (cases "activate h w iid")
  have q: "R (sw_store w) (sw_store w1)" using activate_queue [OF assms a] .
  have "step_sound R w tid iid (stop_settled h w1 tid iid p deadline)" for p
    using stop_settled_sound [of w1 tid iid h p deadline] R_trans [OF q] by (simp add: step_sound_def)
  with a q show ?thesis by (auto simp: step_sound_def split: sum.split option.split)
qed

lemma decide_step_sound: "host_keeps R h \<Longrightarrow> step_sound R w tid iid (decide_step h w tid iid deadline now p)"
  using surface_sound [where f = "\<lambda>w'. ReturnAt (clock_of h w' + 1000)" and ?w0.0 = "tick w" and w = w and tid = tid and iid = iid
      and h = h and p = p and now = "clock_of h w"]
    surface_sound [where f = "\<lambda>w'. StopTask (Some (clock_of h w' + 1000)) False" and ?w0.0 = w and w = w and tid = tid and iid = iid
      and h = h and p = p and now = now]
    ask_sound [where w = w and tid = tid and iid = iid and h = h and now = now and deadline = deadline] activate_sound [where h = h and w = w and tid = tid and iid = iid and deadline = deadline]
    record_verdict_sound stop_settled_sound
  by (cases p) (simp_all add: decide_step_def)

lemma ingress_step_sound:
  assumes "host_keeps R h"
  shows "step_sound R w tid iid (ingress_step h w tid iid deadline)"
proof -
  obtain w1 x where t: "terminalize_expired h (tick w) iid (clock_of h w) = (w1, x)"
    by (cases "terminalize_expired h (tick w) iid (clock_of h w)")
  have q: "R (sw_store w) (sw_store w1)" using terminalize_expired_queue [OF assms t] by simp
  have "step_sound R w tid iid (decide_step h w1 tid iid deadline (clock_of h w) p)" for p
    using decide_step_sound [OF assms, of w1 tid iid deadline "clock_of h w" p] R_trans [OF q] by (simp add: step_sound_def)
  with t q show ?thesis by (auto simp: step_sound_def ingress_step_def Let_def split: sum.split)
qed

lemma run_ingress_sound:
  assumes "host_keeps R h"
  shows "run_ingress h w tid iid deadline acts n = (w', acts', r) \<Longrightarrow> R (sw_store w) (sw_store w')
    \<and> (r = NextIngress \<longrightarrow> disposition_artifact (sw_store w') tid iid \<noteq> None)"
proof (induction n arbitrary: w acts)
  case (Suc n)
  obtain w1 s where st: "ingress_step h w tid iid deadline = (w1, s)" by (cases "ingress_step h w tid iid deadline")
  have one: "R (sw_store w) (sw_store w1)" "s = NextIngress \<Longrightarrow> disposition_artifact (sw_store w1) tid iid \<noteq> None"
    using ingress_step_sound [OF assms, of w tid iid deadline] st by (auto simp: step_sound_def)
  show ?case
  proof (cases "\<exists>k. s = Again k")
    case True
    then obtain k where "s = Again k" by blast
    with Suc.prems st have "run_ingress h w1 tid iid deadline (acts + k) n = (w', acts', r)" by simp
    from Suc.IH [OF this] one(1) R_trans show ?thesis by blast
  next
    case False
    with Suc.prems st have "w' = w1" "r = s" by (auto split: step_result.splits)
    with one show ?thesis by auto
  qed
qed auto

lemma run_rows_sound:
  assumes "host_keeps R h"
  shows "run_rows h w tid acts rs = (w', acts', r) \<Longrightarrow> R (sw_store w) (sw_store w')
    \<and> (r = NextIngress \<longrightarrow> (\<forall>x \<in> set rs. ing_task x = tid \<longrightarrow> \<not> undisposed (sw_store w') x))"
proof (induction rs arbitrary: w acts)
  case (Cons x xs)
  show ?case
  proof (cases "deadline_of w (ing_id x)")
    case (Inl e)
    with Cons.prems show ?thesis by auto
  next
    case (Inr d)
    obtain w1 a1 r1 where run: "run_ingress h w tid (ing_id x) d acts max_ingress_steps = (w1, a1, r1)"
      by (cases "run_ingress h w tid (ing_id x) d acts max_ingress_steps") auto
    note one = run_ingress_sound [OF assms run]
    show ?thesis
    proof (cases "r1 = NextIngress")
      case True
      with Cons.prems Inr run have rest: "run_rows h w1 tid a1 xs = (w', acts', r)" by simp
      note ih = Cons.IH [OF rest]
      have "\<not> undisposed (sw_store w') x" if "ing_task x = tid"
      proof -
        from one True that have "\<not> undisposed (sw_store w1) x" by (simp add: undisposed_def)
        with ih show ?thesis using R_kept by blast
      qed
      with ih one R_trans show ?thesis by auto
    next
      case False
      with Cons.prems Inr run have "w' = w1" "r = r1" by (auto split: step_result.splits)
      with one False show ?thesis by simp
    qed
  qed
qed simp

end

interpretation growing: queue_relation queue_grows
  by unfold_locales (fact queue_grows_trans, fact same_queue_grows, simp add: queue_grows_def)

interpretation steady: queue_relation same_queue
  by unfold_locales (fact same_queue_trans, assumption, simp add: same_queue_def)

section \<open>A pass that ends has emptied the queue\<close>

definition covered :: "control_store \<Rightarrow> string \<Rightarrow> int \<Rightarrow> frontier_cursor option \<Rightarrow> ingress_row \<Rightarrow> bool" where
  "covered st tid ep aft r \<longleftrightarrow> \<not> undisposed st r \<or> r \<in> set (frontier_rows st tid ep aft None)"

lemma covered_page:
  assumes page: "reconciliation_page st tid ep aft None (JInt 32) = Inr page" and c: "covered st tid ep aft r" and t: "ing_task r = tid"
    and grow: "queue_grows st st'" and rows: "\<forall>x \<in> set (page_rows page). ing_task x = tid \<longrightarrow> \<not> undisposed st' x"
  shows "\<not> undisposed st' r \<or> (\<exists>c. page_next page = Some c \<and> covered st' tid ep (Some c) r)"
proof (cases "undisposed st r")
  case True
  with c have r: "r \<in> set (frontier_rows st tid ep aft None)" by (simp add: covered_def)
  from page_cover_id [OF page r] show ?thesis
  proof
    assume "\<exists>x \<in> set (page_rows page). ing_id x = ing_id r"
    then obtain x where x: "x \<in> set (page_rows page)" "ing_id x = ing_id r" by blast
    then have "ing_task x = tid" using page_subset [OF page] by (auto simp: frontier_rows_def epoch_ingresses_def)
    with rows x t show ?thesis by (auto simp: undisposed_def)
  next
    assume "\<exists>c. page_next page = Some c \<and> r \<in> set (frontier_rows st tid ep (Some c) None)"
    then obtain c where "page_next page = Some c" "r \<in> set (frontier_rows st tid ep (Some c) None)" by blast
    with queue_grows_epoch [OF grow, of r tid ep] show ?thesis by (auto simp: covered_def frontier_rows_def simp del: after_cursor.simps)
  qed
qed (use grow in \<open>simp add: queue_grows_def\<close>)

text \<open>One page of the loop, over whatever goes on after it.\<close>

definition page_body ::
  "(scan_world \<Rightarrow> nat \<Rightarrow> frontier_cursor \<Rightarrow> (scan_world \<times> nat \<times> step_result) option) \<Rightarrow> scan_host \<Rightarrow> scan_world \<Rightarrow> string \<Rightarrow> nat
   \<Rightarrow> frontier_page \<Rightarrow> (scan_world \<times> nat \<times> step_result) option" where
  "page_body f h w tid acts page =
     (if page_rows page = [] then Some (w, acts, NextIngress)
      else (case run_rows h w tid acts (page_rows page) of
          (w', acts', NextIngress) \<Rightarrow> (case page_next page of None \<Rightarrow> Some (w', acts', NextIngress) | Some c \<Rightarrow> f w' acts' c)
        | out \<Rightarrow> Some out))"

lemma page_body_cases:
  assumes "page_body f h w tid acts page = Some (w', n, NextIngress)"
  obtains (empty) "page_rows page = []" "w' = w"
    | (last) "page_next page = None" "\<exists>a. run_rows h w tid acts (page_rows page) = (w', a, NextIngress)"
    | (more) c w1 a where "page_next page = Some c" "run_rows h w tid acts (page_rows page) = (w1, a, NextIngress)"
        "f w1 a c = Some (w', n, NextIngress)"
proof (cases "page_rows page = []")
  case True
  with assms show thesis by (intro empty) (auto simp: page_body_def)
next
  case False
  obtain w1 a r where run: "run_rows h w tid acts (page_rows page) = (w1, a, r)" by (cases "run_rows h w tid acts (page_rows page)") auto
  have r: "r = NextIngress" using assms False run by (auto simp: page_body_def split: step_result.splits)
  show thesis
  proof (cases "page_next page")
    case None
    with assms False run r show thesis by (intro last) (auto simp: page_body_def)
  next
    case (Some c)
    with assms False run r show thesis by (intro more [OF Some]) (auto simp: page_body_def)
  qed
qed

lemma run_pages_body:
  "reconciliation_page (sw_store w) tid ep aft None (JInt 32) = Inr page \<Longrightarrow>
     run_pages h w tid ep acts aft = page_body (\<lambda>w' a c. run_pages h w' tid ep a (Some c)) h w tid acts page"
  by (subst run_pages.simps) (simp add: page_body_def)

definition empties :: "ingress_row set \<Rightarrow> scan_host \<Rightarrow> scan_world \<Rightarrow> string \<Rightarrow> int \<Rightarrow> frontier_cursor option \<Rightarrow> scan_world \<times> nat \<times> step_result \<Rightarrow> bool" where
  "empties R h w tid ep aft out \<longleftrightarrow>
     (snd (snd out) = NextIngress \<longrightarrow> host_keeps queue_grows h \<longrightarrow> (\<forall>r \<in> R. ing_task r = tid \<and> covered (sw_store w) tid ep aft r)
      \<longrightarrow> (\<forall>r \<in> R. \<not> undisposed (sw_store (fst out)) r))"

lemma page_body_empties:
  assumes page: "reconciliation_page (sw_store w) tid ep aft None (JInt 32) = Inr page"
    and later: "\<And>w' a c y. f w' a c = Some y \<Longrightarrow> empties R h w' tid ep (Some c) y"
    and body: "page_body f h w tid acts page = Some y"
  shows "empties R h w tid ep aft y"
proof -
  have "\<not> undisposed (sw_store w') r"
    if y: "y = (w', n, NextIngress)" and app: "host_keeps queue_grows h" and cov: "\<forall>r \<in> R. ing_task r = tid \<and> covered (sw_store w) tid ep aft r"
      and r: "r \<in> R" for w' n r
    using body [unfolded y]
  proof (cases rule: page_body_cases)
    case empty
    then have "page_next page = None" using page_rows_of(2) [OF page] by simp
    with covered_page [OF page, of r "sw_store w"] cov r empty show ?thesis by auto
  next
    case last
    then obtain a where "run_rows h w tid acts (page_rows page) = (w', a, NextIngress)" by blast
    with growing.run_rows_sound [OF app] covered_page [OF page, of r "sw_store w'"] cov r last(1) show ?thesis by auto
  next
    case (more c w1 a)
    note rows = growing.run_rows_sound [OF app more(2)]
    have step: "\<not> undisposed (sw_store w1) x \<or> covered (sw_store w1) tid ep (Some c) x" if "x \<in> R" for x
      using covered_page [OF page, of x "sw_store w1"] rows cov that more(1) by auto
    then have "\<forall>x \<in> R. ing_task x = tid \<and> covered (sw_store w1) tid ep (Some c) x" using cov by (auto simp: covered_def)
    with later [OF more(3)] app r show ?thesis by (simp add: empties_def)
  qed
  then show ?thesis by (cases y) (auto simp: empties_def)
qed

lemma run_pages_empties:
  assumes ret: "run_pages h w tid ep acts aft = Some y"
  shows "empties R h w tid ep aft y"
proof (rule run_pages.raw_induct [where P = "\<lambda>h w tid ep acts aft y. empties R h w tid ep aft y", OF _ ret])
  fix f h w tid ep acts aft y
  assume IH: "\<And>h w tid ep acts aft y. f h w tid ep acts aft = Some y \<Longrightarrow> empties R h w tid ep aft y"
    and eq: "(case reconciliation_page (sw_store w) tid ep aft None (JInt 32) of
        Inl e \<Rightarrow> Some (w, acts, Fault (ScanStore e))
      | Inr page \<Rightarrow>
          if page_rows page = [] then Some (w, acts, NextIngress)
          else (case run_rows h w tid acts (page_rows page) of
              (w', acts', NextIngress) \<Rightarrow>
                (case page_next page of None \<Rightarrow> Some (w', acts', NextIngress)
                 | Some c \<Rightarrow> f h w' tid ep acts' (Some c))
            | out \<Rightarrow> Some out)) = Some y"
  obtain page where page: "reconciliation_page (sw_store w) tid ep aft None (JInt 32) = Inr page" using page_total by blast
  have body: "page_body (\<lambda>w' a c. f h w' tid ep a (Some c)) h w tid acts page = Some y"
    using eq unfolding page page_body_def sum.case .
  show "empties R h w tid ep aft y" by (rule page_body_empties [OF page _ body]) (rule IH)
qed

text \<open>
  C35: A pass that comes to the end of the queue without stopping has disposed of everything it
  started with: every ingress of the epoch that was there at the start, on however many pages, has an
  immutable disposition at the end, whatever Turns ran in between, as long as nothing removes
  ingresses or dispositions.
\<close>

theorem finished_pass_empties_queue:
  assumes "host_keeps queue_grows h" and "run_pages h w tid ep acts None = Some (w', n, NextIngress)"
    and "r \<in> set (epoch_ingresses (sw_store w) tid ep)"
  shows "disposition_artifact (sw_store w') (ing_task r) (ing_id r) \<noteq> None"
proof -
  have "covered (sw_store w) tid ep None r \<and> ing_task r = tid"
    using assms(3) by (auto simp: covered_def frontier_rows_def epoch_ingresses_def)
  with run_pages_empties [OF assms(2), of "{r}"] assms(1) show ?thesis by (simp add: empties_def undisposed_def)
qed

section \<open>A pass ends\<close>

lemma filter_length_mono: "(\<And>x. P x \<Longrightarrow> Q x) \<Longrightarrow> length (filter P xs) \<le> length (filter Q xs)"
  by (induction xs) (auto simp: le_SucI)

lemma next_page_smaller:
  assumes page: "reconciliation_page st tid ep aft None (JInt 32) = Inr page" and c: "page_next page = Some c" and same: "same_queue st st'"
  shows "length (frontier_rows st' tid ep (Some c) None) < length (frontier_rows st tid ep aft None)"
proof -
  obtain a where a: "a \<in> set (frontier_rows st tid ep aft None)" "c = cursor_of a" using page_next_row [OF page c] by blast
  have "epoch_ingresses st' tid ep = epoch_ingresses st tid ep" using same by (simp add: same_queue_def epoch_ingresses_def)
  then have "length (frontier_rows st' tid ep (Some c) None) \<le> length (frontier_rows st tid ep (Some c) None)"
    using same unfolding frontier_rows_def by (auto intro!: filter_length_mono simp: same_queue_def simp del: after_cursor.simps)
  also have "\<dots> < length (frontier_rows st tid ep aft None)" using frontier_rows_shrink [OF a(1)] a(2) by simp
  finally show ?thesis .
qed

text \<open>
  C37: A pass over the queue returns, unless a Turn accepts a new ingress: if the queue of the epoch
  stays as it is but for dispositions, the number of pages is bounded by its length.
\<close>

theorem pass_over_queue_ends:
  assumes "host_keeps same_queue h"
  shows "\<exists>w' n r. run_pages h w tid ep acts aft = Some (w', n, r)"
proof (induction "length (frontier_rows (sw_store w) tid ep aft None)" arbitrary: w acts aft rule: less_induct)
  case less
  obtain page where page: "reconciliation_page (sw_store w) tid ep aft None (JInt 32) = Inr page" using page_total by blast
  obtain w1 a r where rows: "run_rows h w tid acts (page_rows page) = (w1, a, r)" by (cases "run_rows h w tid acts (page_rows page)") auto
  have same: "same_queue (sw_store w) (sw_store w1)" using steady.run_rows_sound [OF assms rows] by simp
  show ?case
  proof (cases "r = NextIngress \<and> page_rows page \<noteq> []")
    case False
    then show ?thesis unfolding run_pages_body [OF page] page_body_def rows by (cases r) auto
  next
    case True
    show ?thesis
    proof (cases "page_next page")
      case None
      with True show ?thesis unfolding run_pages_body [OF page] page_body_def rows by simp
    next
      case (Some c)
      from less [OF next_page_smaller [OF page Some same]] obtain x where "run_pages h w1 tid ep a (Some c) = Some x" by blast
      with True Some show ?thesis unfolding run_pages_body [OF page] page_body_def rows by (cases x) simp
    qed
  qed
qed

section \<open>Where a pass stops\<close>

lemma project_at_cong:
  "sw_store w' = sw_store w \<Longrightarrow> sw_columns w' = sw_columns w \<Longrightarrow> sw_inter w' = sw_inter w \<Longrightarrow> project_at h w' iid now = project_at h w iid now"
  by (simp add: project_at_def evidence_reader_of_def)

text \<open>
  Why an ingress that reads as ready may be refused: an earlier ingress of its Task and epoch has no
  disposition and does not release the head of line, or another of its leases is live that the
  reducer does not take for the latest one (two leases of one instant, which the locale order ranks
  another way than the database).
\<close>

definition behind_earlier :: "scan_host \<Rightarrow> scan_world \<Rightarrow> string \<Rightarrow> int \<Rightarrow> bool" where
  "behind_earlier h w iid now \<longleftrightarrow>
     (case find_ingress (sw_store w) iid of None \<Rightarrow> False | Some r \<Rightarrow>
        list_ex (\<lambda>x. ing_sequence x < ing_sequence r \<and> undisposed (sw_store w) x
            \<and> (case project_at h w (ing_id x) now of Inl _ \<Rightarrow> False | Inr p \<Rightarrow> \<not> releases_head_of_line p))
          (epoch_ingresses (sw_store w) (ing_task r) (ing_epoch r)))"

definition outranked_lease :: "scan_host \<Rightarrow> scan_world \<Rightarrow> string \<Rightarrow> int \<Rightarrow> bool" where
  "outranked_lease h w iid now \<longleftrightarrow>
     (case (current_control_lease (st_leases (sw_store w)) TargetTaskRootIngress iid,
            read_ingress_facts (evidence_reader_of w) (sw_store w) iid) of
        (Some l, Inr facts) \<Rightarrow> now < expires_at l \<and> map_option al_id (latest_ingress_lease (sh_locale h) facts) \<noteq> Some (lease_id l)
      | _ \<Rightarrow> False)"

lemma scan_prior_Some:
  "scan_prior rel st tid ep before aft = Inr (Some i) \<Longrightarrow>
     \<exists>r \<in> set (frontier_rows st tid ep aft (Some before)). ing_id r = i \<and> rel r = Inr False"
proof (induction rel st tid ep before aft rule: scan_prior.induct)
  case (1 rel st tid ep before aft)
  obtain page where page: "reconciliation_page st tid ep aft (Some before) (JInt 32) = Inr page" using page_total by blast
  have ne: "page_rows page \<noteq> []" using "1.prems" by (subst (asm) scan_prior.simps) (auto simp: page)
  note unfolded = "1.prems" [unfolded scan_prior.simps [of rel st tid ep before aft] page, simplified]
  show ?case
  proof (cases "scan_page rel (page_rows page) = Inr None")
    case False
    with unfolded ne have "scan_page rel (page_rows page) = Inr (Some i)" by (auto split: sum.splits option.splits)
    from scan_page_Some [OF this] page_subset [OF page] show ?thesis by blast
  next
    case True
    with unfolded ne obtain c where c: "page_next page = Some c" "scan_prior rel st tid ep before (Some c) = Inr (Some i)"
      by (auto split: option.splits)
    from "1.IH" [OF page ne True refl c] page_next_subset [OF page c(1)] show ?thesis by blast
  qed
qed

lemma not_acquired:
  assumes "acquire_control_lease db inp fresh = Inr (db', NotAcquired l)"
  shows "db' = db \<and> current_control_lease db (acq_target inp) (acq_target_id inp) = Some l
    \<and> acq_now inp < expires_at l \<and> acq_supersede inp \<noteq> Some (lease_id l)"
  using assms
  by (auto simp: acquire_control_lease_def rbind_Inr_iff Let_def split: option.splits if_splits)

lemma same_tables:
  assumes "sw_store w' = sw_store w" "sw_columns w' = sw_columns w" "sw_inter w' = sw_inter w"
  shows "project_at h w' = project_at h w" "behind_earlier h w' = behind_earlier h w" "outranked_lease h w' = outranked_lease h w"
proof -
  show proj: "project_at h w' = project_at h w" by (intro ext project_at_cong assms)
  show "behind_earlier h w' = behind_earlier h w" by (intro ext) (simp add: behind_earlier_def proj assms cong: option.case_cong)
  show "outranked_lease h w' = outranked_lease h w" by (intro ext) (simp add: outranked_lease_def evidence_reader_of_def assms)
qed

text \<open>A refusal of an ingress that reads as ready.\<close>

lemma refused_ready:
  assumes acq: "acquire_ingress_lease (sh_env h) (sh_locale h) (evidence_reader_of w) owned (sw_store w) inp activation
      = Inr (st', IngressRefused p i)" and ready: "project_at h w (aq_ingress inp) (aq_now inp) = Inr Ready"
  shows "p = Ready \<and> st' = sw_store w
    \<and> (behind_earlier h w (aq_ingress inp) (aq_now inp) \<or> outranked_lease h w (aq_ingress inp) (aq_now inp))"
proof -
  let ?st = "sw_store w" and ?rd = "evidence_reader_of w" and ?lc = "sh_locale h" and ?now = "aq_now inp"
  obtain facts where f: "read_ingress_facts ?rd ?st (aq_ingress inp) = Inr facts" "reduce_ingress ?lc facts ?now = Ready"
    using ready by (auto simp: project_at_def project_ingress_def rbind_Inr_iff)
  let ?scan = "scan_prior (row_releases ?lc ?rd ?st ?now) ?st (ingress_task (ingress facts)) (execution_epoch (ingress facts))
      (ingress_sequence (ingress facts)) None"
  let ?lease = "ingress_lease_input inp activation (map_option al_id (latest_ingress_lease ?lc facts))"
  from acq f consider (blocked) j where "?scan = Inr (Some j)" "p = Ready" "st' = ?st"
    | (held) ldb l facts' where "acquire_control_lease (st_leases ?st) ?lease activation = Inr (ldb, NotAcquired l)"
        "st' = ?st\<lparr>st_leases := ldb\<rparr>" "read_ingress_facts ?rd (?st\<lparr>st_leases := ldb\<rparr>) (aq_ingress inp) = Inr facts'"
        "p = reduce_ingress ?lc facts' ?now"
    by (auto simp: acquire_ingress_lease_def rbind_Inr_iff
        split: if_split_asm option.split_asm sum.split_asm prod.split_asm lease_acquisition.split_asm)
  then show ?thesis
  proof cases
    case blocked
    obtain r where r: "find_ingress ?st (aq_ingress inp) = Some r" "ingress_task (ingress facts) = ing_task r"
        "execution_epoch (ingress facts) = ing_epoch r" "ingress_sequence (ingress facts) = ing_sequence r"
      using f(1) by (rule read_facts_ingress)
    from scan_prior_Some [OF blocked(1)] obtain x where x: "x \<in> set (frontier_rows ?st (ing_task r) (ing_epoch r) None (Some (ing_sequence r)))"
        "row_releases ?lc ?rd ?st ?now x = Inr False" unfolding r by blast
    from x(2) obtain q where "project_at h w (ing_id x) ?now = Inr q" "\<not> releases_head_of_line q"
      by (auto simp: row_releases_def project_at_def project_ingress_def rbind_def split: sum.splits)
    with x(1) r(1) have "behind_earlier h w (aq_ingress inp) ?now"
      by (auto simp: behind_earlier_def frontier_rows_def list_ex_iff intro!: bexI [of _ x])
    with blocked show ?thesis by simp
  next
    case held
    note l = not_acquired [OF held(1)]
    then have st': "st' = ?st" "p = Ready" using held f by auto
    have "outranked_lease h w (aq_ingress inp) ?now"
      using l f(1) by (auto simp: outranked_lease_def ingress_lease_input_def)
    with st' show ?thesis by simp
  qed
qed

lemma refused_activation:
  assumes "activate h w iid = (w', Inr (Some p))"
  shows "p = HostFault EvidenceViolation
    \<or> sw_store w' = sw_store w \<and> sw_columns w' = sw_columns w \<and> sw_inter w' = sw_inter w \<and> project_at h w iid (clock_of h w) = Inr p
      \<and> (p = Ready \<longrightarrow> behind_earlier h w iid (clock_of h w) \<or> outranked_lease h w iid (clock_of h w))"
proof -
  let ?w = "tick w" and ?now = "clock_of h w"
  have same: "project_at h ?w = project_at h w" "behind_earlier h ?w = behind_earlier h w" "outranked_lease h ?w = outranked_lease h w"
    by (rule same_tables; simp)+
  obtain q where q: "project_at h ?w iid ?now = Inr q" using assms by (auto simp: activate_def Let_def split: sum.splits)
  show ?thesis
  proof (cases "q = Ready")
    case False
    with assms q have "w' = ?w" "p = q" by (auto simp: activate_def Let_def)
    with q False same show ?thesis by simp
  next
    case True
    with assms q consider "p = HostFault EvidenceViolation"
      | ev pre where "run_turn h ?w iid ?now ev pre = (w', Inr (Some p))"
      by (auto simp: activate_def Let_def split: option.splits sum.splits evidence_fault.splits)
    then show ?thesis
    proof cases
      case 2
      then obtain st i where acq: "acquire_ingress_lease (sh_env h) (sh_locale h) (evidence_reader_of ?w) (sh_owned h) (sw_store ?w)
             \<lparr>aq_ingress = iid, aq_owner = sh_owner h, aq_now = ?now, aq_milliseconds = sh_lease h\<rparr>
             (sh_activation h (sw_names ?w)) = Inr (st, IngressRefused p i)" and w': "w' = with_store st (use_names ?w)"
        by (auto simp: run_turn_def split: sum.splits prod.splits ingress_acquisition.splits option.splits)
      from refused_ready [OF acq] q True same w' show ?thesis by (simp add: with_store_def use_names_def)
    qed simp
  qed
qed

text \<open>No question is asked only if each of the activities has one already.\<close>

definition asked_about :: "interaction_tables \<Rightarrow> string list \<Rightarrow> bool" where
  "asked_about its rids \<longleftrightarrow> list_all (\<lambda>rid. Some (reconciliation_external rid) \<in> set (map ir_external (int_requests its))) rids"

lemma nothing_asked:
  "ensure_reconciliation texts ids tid sid iid now w rids = Inr (w', 0) \<Longrightarrow> w' = w \<and> asked_about (snd w) rids"
proof (induction rids)
  case (Cons r rs)
  show ?case
  proof (cases "Some (reconciliation_external r) \<in> set (map ir_external (int_requests (snd w)))")
    case False
    with Cons.prems obtain mid where "(case insert_interaction w (reconciliation_question texts tid sid iid r mid now) (fst (ids r)) now (snd (ids r)) of
          Inl e \<Rightarrow> Inl (AskFailure e)
        | Inr (w1, _) \<Rightarrow> rbind (ensure_reconciliation texts ids tid sid iid now w1 rs) (\<lambda>(w'', n). Inr (w'', Suc n))) = Inr (w', 0)"
      by (simp only: ensure_reconciliation.simps if_False rbind_Inr_iff) blast
    then show ?thesis
      by (cases "insert_interaction w (reconciliation_question texts tid sid iid r mid now) (fst (ids r)) now (snd (ids r))")
        (auto simp: rbind_Inr_iff)
  next
    case True
    with Cons show ?thesis by (simp add: asked_about_def)
  qed
qed (simp add: asked_about_def)

lemma asked_nothing:
  assumes "ask_operator h w tid iid rids now = (w', Inr 0)"
  shows "sw_store w' = sw_store w \<and> sw_columns w' = sw_columns w \<and> sw_inter w' = sw_inter w \<and> asked_about (sw_inter w) rids"
proof -
  from assms obtain st its where e: "ensure_activity_reconciliation (sh_texts h) (sh_asked h (sw_names w)) tid iid now (sw_store w, sw_inter w) rids
      = Inr ((st, its), 0)" and w': "w' = use_names (w\<lparr>sw_store := st, sw_inter := its\<rparr>)"
    by (auto simp: ask_operator_def split: sum.splits prod.splits)
  then obtain sid where "ensure_reconciliation (sh_texts h) (sh_asked h (sw_names w)) tid sid iid now (sw_store w, sw_inter w) rids = Inr ((st, its), 0)"
    by (auto simp: ensure_activity_reconciliation_def split: option.splits)
  from nothing_asked [OF this] w' show ?thesis by (simp add: use_names_def)
qed

text \<open>
  What an ingress may rest on without a timer. \<open>asked\<close> says whether the step itself put the unknown
  activities before the operator.
\<close>

definition rests_on :: "scan_host \<Rightarrow> scan_world \<Rightarrow> string \<Rightarrow> int option \<Rightarrow> bool \<Rightarrow> int \<Rightarrow> bool" where
  "rests_on h w iid deadline asked now \<longleftrightarrow>
     (case project_at h w iid now of Inl _ \<Rightarrow> False | Inr p \<Rightarrow>
      (case p of
         OperatorAbandoned _ \<Rightarrow> True
       | Waiting _ resume \<Rightarrow> resume = None \<and> deadline = None
       | ReconcileRequired rids \<Rightarrow> deadline = None \<and> (asked \<longrightarrow> asked_about (sw_inter w) rids)
       | Ready \<Rightarrow> deadline = None \<and> (behind_earlier h w iid now \<or> outranked_lease h w iid now)
       | _ \<Rightarrow> False))"

text \<open>
  The readings of the clock are the one of the step and, when that one found the ingress ready, the
  one of the activation after it.
\<close>

definition rests_untimed :: "scan_host \<Rightarrow> scan_world \<Rightarrow> string \<Rightarrow> string \<Rightarrow> int option \<Rightarrow> int \<Rightarrow> int \<Rightarrow> bool" where
  "rests_untimed h w tid iid deadline first second \<longleftrightarrow> disposition_artifact (sw_store w) tid iid \<noteq> None
     \<or> project_at h w iid first \<noteq> Inr Ready \<and> rests_on h w iid deadline True first
     \<or> project_at h w iid first = Inr Ready \<and> rests_on h w iid deadline False second"

lemma rests_on_cong:
  assumes "sw_store w' = sw_store w" "sw_columns w' = sw_columns w" "sw_inter w' = sw_inter w"
  shows "rests_on h w' = rests_on h w"
  by (intro ext) (simp only: rests_on_def same_tables [OF assms] assms(3))

text \<open>A stop without a timer has disposed of the ingress, or its projection has no instant of its own.\<close>

lemma settled_rest:
  assumes "stop_settled h w tid iid p deadline = (w', StopTask None b)"
  shows "disposition_artifact (sw_store w') tid iid \<noteq> None
    \<or> sw_store w' = sw_store w \<and> sw_columns w' = sw_columns w \<and> sw_inter w' = sw_inter w
      \<and> (case p of Resolved _ \<Rightarrow> True | TerminalInapplicable _ \<Rightarrow> True | OperatorAbandoned _ \<Rightarrow> True
         | Waiting _ resume \<Rightarrow> resume = None \<and> deadline = None | ReconcileRequired _ \<Rightarrow> deadline = None | Ready \<Rightarrow> deadline = None
         | _ \<Rightarrow> False)"
proof (cases "classify_wake p deadline (clock_of h w) = OperatorGated InfrastructureFact")
  case True
  obtain w3 d where g: "surface_gate h (tick (tick w)) tid iid p (clock_of h (tick w)) = (w3, d)"
    by (cases "surface_gate h (tick (tick w)) tid iid p (clock_of h (tick w))")
  with True assms(1) have "d" "w' = w3" by (cases d; simp add: stop_settled_def settle_ingress_def)+
  with surfaced_gate(2) [OF g] show ?thesis by simp
next
  case False
  with assms(1) have "wake_instant p deadline (clock_of h w) = None" "w' = tick w"
    by (auto simp: stop_settled_def settle_ingress_def wake_instant_def split: wake_class.splits surface.splits)
  then show ?thesis using False
    by (cases p) (auto simp: wake_instant_def finite_wake_def deadline_or_def split: option.splits)
qed

lemma ready_unsettled:
  "project_at h w iid t = Inr Ready \<Longrightarrow> project_at h w iid t' = Inr p \<Longrightarrow> p \<notin> range Resolved \<union> range TerminalInapplicable \<union> range OperatorAbandoned"
  using clock_shape by (fastforce simp: project_at_def project_ingress_def rbind_Inr_iff reduce_ingress_split dest: settled_shape split: option.splits)

text \<open>
  C36: A pass never rests on an ingress without a reason. If a step stops the Task without a timer,
  then the ingress has an immutable disposition; or at the step's own reading of the clock the tables it leaves show
  an ingress that the operator abandoned, that waits for an open interaction without a resume time, or
  whose unknown activities have each been put before the operator; or that reading found it
  ready, and at the reading of the activation after it the ingress stands behind an earlier one
  of its epoch that has no disposition and does not release the head of line (or one of the rest:
  another live lease outranks the one the reducer looks at, or the clock has passed an
  expiry between the two readings and it now waits or needs a question). None of the undisposed has a deadline.
\<close>

theorem untimed_stop_has_a_cause:
  assumes "ingress_step h w tid iid deadline = (w', StopTask None no_progress)"
  shows "rests_untimed h w' tid iid deadline (clock_of h w) (clock_of h (fst (terminalize_expired h (tick w) iid (clock_of h w))))"
proof -
  obtain w1 x where t: "terminalize_expired h (tick w) iid (clock_of h w) = (w1, x)"
    by (cases "terminalize_expired h (tick w) iid (clock_of h w)")
  let ?now = "clock_of h w"
  from t assms obtain p where proj: "project_at h w1 iid ?now = Inr p"
    and dec: "decide_step h w1 tid iid deadline ?now p = (w', StopTask None no_progress)"
    by (auto simp: ingress_step_def Let_def split: sum.splits if_splits)
  have stop: "rests_untimed h w' tid iid deadline ?now t'"
    if s: "stop_settled h w2 tid iid p deadline = (w', StopTask None no_progress)" "p \<noteq> Ready" "p \<notin> range Resolved" "p \<notin> range TerminalInapplicable"
      and same: "sw_store w2 = sw_store w1" "sw_columns w2 = sw_columns w1" "sw_inter w2 = sw_inter w1"
      and asked: "\<And>rids. p = ReconcileRequired rids \<Longrightarrow> asked_about (sw_inter w2) rids" for w2 t'
    using settled_rest [OF s(1)] s(2-4) proj asked same_tables(1) [of w' w2 h] same_tables(1) [OF same, of h]
    by (cases p) (auto simp: rests_untimed_def rests_on_def)
  show ?thesis
  proof (cases p)
    case (Exhausted r)
    with dec show ?thesis by (auto simp: decide_step_def split: prod.splits bool.splits)
  next
    case (HostFault r)
    with dec show ?thesis by (auto simp: decide_step_def split: prod.splits bool.splits)
  next
    case Ready
    then obtain w2 q where act: "activate h w1 iid = (w2, Inr (Some q))"
      and st: "stop_settled h w2 tid iid q deadline = (w', StopTask None no_progress)"
      using dec by (auto simp: decide_step_def split: prod.splits sum.splits option.splits)
    show ?thesis
    proof (cases "disposition_artifact (sw_store w') tid iid = None")
      case True
      with settled_rest [OF st] have q: "q \<noteq> HostFault EvidenceViolation" "sw_store w' = sw_store w2" "sw_columns w' = sw_columns w2"
          "sw_inter w' = sw_inter w2" by auto
      with refused_activation [OF act] have r: "sw_store w' = sw_store w1" "sw_columns w' = sw_columns w1" "sw_inter w' = sw_inter w1"
          "project_at h w1 iid (clock_of h w1) = Inr q"
          "q = Ready \<longrightarrow> behind_earlier h w1 iid (clock_of h w1) \<or> outranked_lease h w1 iid (clock_of h w1)" by auto
      have "q \<notin> range Resolved \<union> range TerminalInapplicable" using ready_unsettled [OF proj [unfolded Ready] r(4)] by blast
      with settled_rest [OF st] True r(4,5) have "rests_on h w1 iid deadline False (clock_of h w1)"
        by (cases q) (auto simp: rests_on_def)
      then show ?thesis using proj Ready rests_on_cong [OF r(1-3), of h] same_tables(1) [OF r(1-3), of h] by (simp add: rests_untimed_def t)
    qed (simp add: rests_untimed_def)
  next
    case (ReconcileRequired rids)
    then obtain w2 where ask: "ask_operator h w1 tid iid rids ?now = (w2, Inr 0)"
      and st: "stop_settled h w2 tid iid p deadline = (w', StopTask None no_progress)"
      using dec by (auto simp: decide_step_def split: prod.splits sum.splits if_splits)
    note same = asked_nothing [OF ask]
    show ?thesis by (rule stop [OF st]) (use same ReconcileRequired in auto)
  next
    case (Resolved ids)
    with dec show ?thesis by (auto simp: decide_step_def record_verdict_def split: sum.splits)
  next
    case (TerminalInapplicable b)
    with dec show ?thesis by (auto simp: decide_step_def record_verdict_def split: sum.splits)
  next
    case (OperatorAbandoned x)
    with dec show ?thesis by (intro stop [of w1]) (auto simp: decide_step_def)
  next
    case (Leased x y z)
    with dec show ?thesis by (intro stop [of w1]) (auto simp: decide_step_def)
  next
    case (Waiting x y)
    with dec show ?thesis by (intro stop [of w1]) (auto simp: decide_step_def)
  next
    case (CancellingIngress x)
    with dec show ?thesis by (intro stop [of w1]) (auto simp: decide_step_def)
  qed
qed

section \<open>A source that cannot be delivered\<close>

lemma ready_facts:
  assumes "project_at h w iid now = Inr Ready"
  obtains facts where "read_ingress_facts (read_evidence (sw_columns w) (sw_inter w)) (sw_store w) iid = Inr facts"
    "reduce_ingress (sh_locale h) facts now = Ready"
  using assms by (auto simp: project_at_def evidence_reader_of_def project_ingress_def rbind_Inr_iff)

lemma ready_not_gated:
  assumes "project_at h w iid now = Inr Ready"
  shows "surface_gate h w tid iid (HostFault f) now = (use_names w, False)"
proof -
  obtain facts where "read_ingress_facts (read_evidence (sw_columns w) (sw_inter w)) (sw_store w) iid = Inr facts"
    "reduce_ingress (sh_locale h) facts now = Ready"
    using assms by (rule ready_facts)
  then have "surface_operator_gated (sh_env h) (sh_locale h) (sh_gate h) (sw_columns w) (sw_inter w) (sw_store w) tid iid (HostFault f) now
      (fresh_stamps h w) = (sw_store w, False)"
    by (simp add: surface_operator_gated_def record_absorbing_def Let_def)
  then show ?thesis by (simp add: surface_gate_def with_store_def use_names_def)
qed

lemma broken_activation:
  assumes "find_ingress (sw_store w) iid = Some r" and "project_at h (tick w) iid (clock_of h w) = Inr Ready"
    and "event_for_ingress (sw_sources w) (sw_store w) r = Inl IntegrityFault"
  shows "activate h w iid = (tick w, Inr (Some (HostFault EvidenceViolation)))"
proof -
  obtain facts where "read_ingress_facts (read_evidence (sw_columns w) (sw_inter w)) (sw_store w) iid = Inr facts"
    using assms(2) by (auto elim: ready_facts)
  then have "collect_evidence (sw_columns w) (sw_inter w) (sw_store w) r \<noteq> Inl PlainFault"
    using assms(1) by (auto simp: read_ingress_facts_def read_evidence_def split: option.splits)
  then show ?thesis
    using assms by (auto simp: activate_def Let_def split: sum.split evidence_fault.split)
qed


section \<open>Activations are bounded\<close>

lemma ready_within_budget: "reduce_ingress lc facts now = Ready \<Longrightarrow> budget_projection facts = Ready"
  by (auto simp: reduce_ingress_def split: option.splits if_splits list.splits)

text \<open>
  C38: The activation budget of an ingress is never overdrawn: when an activation is granted, the
  ingress has, with the new one, at most as many activations as its immutable policy allows.
\<close>

theorem activations_within_policy:
  assumes "acquire_ingress_lease env lc rd owned st inp activation = Inr (st', IngressAcquired aid ex)"
    and "find_ingress st (aq_ingress inp) = Some r" and "find_policy st (ing_policy r) = Some p"
  shows "int (length (ingress_leases st' (aq_ingress inp))) \<le> pol_activations p"
  using assms(1)
proof (rule acquire_ingress_cases)
  fix facts ldb l
  let ?iid = "aq_ingress inp"
  assume read: "read_ingress_facts rd st ?iid = Inr facts" and ready: "reduce_ingress lc facts (aq_now inp) = Ready"
    and acq: "acquire_control_lease (st_leases st)
       (ingress_lease_input inp activation (map_option al_id (latest_ingress_lease lc facts))) activation = Inr (ldb, Acquired l)"
    and st': "st' = st\<lparr>st_leases := ldb\<rparr>"
  have facts: "act_leases facts = ingress_leases st ?iid" "activation_limit (policy facts) = pol_activations p"
      "ingress_id (ingress facts) = ?iid"
    using read assms(2,3) find_ingress_mem [OF assms(2)] by (auto simp: read_ingress_facts_def rbind_Inr_iff Let_def)
  have "budget_projection facts = Ready" using ready_within_budget [OF ready] .
  moreover have "filter (\<lambda>l. al_target l = ?iid) (ingress_leases st ?iid) = ingress_leases st ?iid"
    by (rule filter_True) (auto simp: ingress_leases_def target_leases_def)
  ultimately have "int (length (ingress_leases st ?iid)) < pol_activations p"
    by (auto simp: budget_projection_def facts split: if_splits)
  moreover have "length (ingress_leases st' ?iid) = Suc (length (ingress_leases st ?iid))"
    using acq
  proof (cases rule: acquire_cases)
    case (granted k)
    have "lease_target k = TargetTaskRootIngress" "lease_target_id k = ?iid"
      using arg_cong [OF granted(2), of lease_target] arg_cong [OF granted(2), of lease_target_id]
      by (simp_all add: lease_of_input_def ingress_lease_input_def)
    then show ?thesis by (simp add: st' ingress_leases_def target_leases_def granted(4) length_sort_by)
  qed simp
  ultimately show ?thesis by simp
qed

end
