(* ===== verification/ScanCases.thy ===== *)
theory ScanCases
  imports ScanProps EvidenceCases DeliveryCases
begin

text \<open>Concrete passes over the control plane of a Task.\<close>

definition demo_host :: "int \<Rightarrow> scan_host" where
  "demo_host start = \<lparr>sh_delivery = demo_delivery\<lparr>de_store := demo_world_env\<rparr>, sh_project = ''p'', sh_locale = text_cmp,
     sh_gate = demo_gate, sh_clock = (\<lambda>n. start + int n), sh_stamp = (\<lambda>n. (replicate n (CHR ''n''), 31)),
     sh_activation = (\<lambda>_. ''act2''), sh_asked = (\<lambda>_ r. (r @ ''/q'', r @ ''/e'')), sh_texts = (\<lambda>_. (''title'', ''body'', JsonArr [])),
     sh_owner = ''o1'', sh_owned = (\<lambda>_. Inr ()), sh_lease = JInt 1000, sh_connection = 0,
     sh_boundary_gate = (\<lambda>t _. (''boundary/'' @ t, OtherArtifact ''boundary'')), sh_intent = (\<lambda>w. (w, None)),
     sh_reconcile = None, sh_terminalize = (\<lambda>w _ _. (w, Inr False)), sh_page = (\<lambda>_ _ _. Inr ([], None)),
     sh_recover = (\<lambda>w _ _. (w, Inr RecoveryFailed)), sh_turn = (\<lambda>w _ _ _ _. (w, None))\<rparr>"

definition demo_scan :: "control_store \<Rightarrow> scan_world" where
  "demo_scan st = \<lparr>sw_store = st, sw_inter = no_interactions, sw_columns = demo_columns, sw_sources = demo_sources,
     sw_cursors = (\<lambda>_. None), sw_reads = 0, sw_names = 0\<rparr>"

lemma demo_host_keeps: "host_keeps queue_grows (demo_host t)" "host_keeps same_queue (demo_host t)"
  by (simp_all add: host_keeps_def demo_host_def)

text \<open>An ingress whose Message is gone.\<close>

definition demo_orphan :: control_store where
  "demo_orphan = (run_steps (store_step demo_world_env) (empty_tables demo_failed) [OpAccept (demo_accept SrcMessage ''m2'' None 5)])
     \<lparr>st_leases := \<lparr>leases = [], grants = []\<rparr>, messages := []\<rparr>"

text \<open>One tool request of unknown outcome.\<close>

definition demo_lost :: control_store where
  "demo_lost = demo_world ''orchestrator'' [demo_tool ''tp1'' ''bash''] []"

definition demo_asked :: scan_world where
  "demo_asked = fst (ingress_step (demo_host 2000) (demo_scan demo_lost) ''t'' demo_ingress None)"

theorem finished_pass_empties_queue_witness:
  "\<exists>w' n. run_pages (demo_host 30) (demo_scan demo_decided) ''t'' 1 0 None = Some (w', n, NextIngress)
     \<and> disposition_artifact (sw_store w') ''t'' demo_ingress \<noteq> None"
proof -
  let ?w = "demo_scan demo_decided"
  obtain page where page: "reconciliation_page (sw_store ?w) ''t'' 1 None None (JInt 32) = Inr page" using page_total by blast
  have "case reconciliation_page (sw_store ?w) ''t'' 1 None None (JInt 32) of Inl _ \<Rightarrow> False
      | Inr page \<Rightarrow> page_next page = None \<and> map ing_id (page_rows page) = [demo_ingress]" by code_simp
  then obtain x where p: "page_next page = None" "page_rows page = [x]" "ing_id x = demo_ingress"
    unfolding page by (auto simp: map_eq_Cons_conv)
  have "snd (ingress_step (demo_host 30) ?w ''t'' demo_ingress None) = NextIngress" "deadline_of ?w demo_ingress = Inr None" by code_simp+
  then obtain w' where "run_rows (demo_host 30) ?w ''t'' 0 (page_rows page) = (w', 0, NextIngress)"
    by (cases "ingress_step (demo_host 30) ?w ''t'' demo_ingress None") (auto simp: p max_ingress_steps_def numeral_eq_Suc)
  with p have run: "run_pages (demo_host 30) ?w ''t'' 1 0 None = Some (w', 0, NextIngress)"
    unfolding run_pages_body [OF page] page_body_def by simp
  have "map (\<lambda>r. (ing_task r, ing_id r)) (epoch_ingresses demo_decided ''t'' 1) = [(''t'', demo_ingress)]" by code_simp
  then obtain r where "r \<in> set (epoch_ingresses (sw_store (demo_scan demo_decided)) ''t'' 1)" "ing_task r = ''t''" "ing_id r = demo_ingress"
    by (auto simp: demo_scan_def map_eq_Cons_conv)
  with finished_pass_empties_queue [OF demo_host_keeps(1) run] run show ?thesis by metis
qed

theorem pass_over_queue_ends_witness:
  "\<exists>w' n r. run_pages (demo_host 2000) (demo_scan demo_unknown) ''t'' 1 0 None = Some (w', n, r)"
  by (rule pass_over_queue_ends [OF demo_host_keeps(2)])

theorem untimed_stop_has_a_cause_witness:
  "\<exists>w' b. ingress_step (demo_host 2000) demo_asked ''t'' demo_ingress None = (w', StopTask None b)
     \<and> rests_untimed (demo_host 2000) w' ''t'' demo_ingress None (clock_of (demo_host 2000) demo_asked)
         (clock_of (demo_host 2000) (fst (terminalize_expired (demo_host 2000) (tick demo_asked) demo_ingress (clock_of (demo_host 2000) demo_asked))))"
proof -
  have "snd (ingress_step (demo_host 2000) demo_asked ''t'' demo_ingress None) = StopTask None False" by code_simp
  then obtain w' where "ingress_step (demo_host 2000) demo_asked ''t'' demo_ingress None = (w', StopTask None False)"
    by (cases "ingress_step (demo_host 2000) demo_asked ''t'' demo_ingress None") auto
  with untimed_stop_has_a_cause [OF this] show ?thesis by blast
qed

lemma demo_orphan_ready: "project_at (demo_host 30) (demo_scan demo_orphan) demo_ingress t = Inr Ready"
  by code_simp

lemma demo_orphan_unleased: "expired_assistants demo_columns demo_orphan demo_ingress t = Inr []"
  by code_simp


theorem activations_within_policy_witness:
  "\<exists>st' aid ex. acquire_ingress_lease demo_world_env text_cmp (read_evidence demo_columns no_interactions) (\<lambda>_. Inr ()) demo_orphan
      \<lparr>aq_ingress = demo_ingress, aq_owner = ''o1'', aq_now = 30, aq_milliseconds = JInt 1000\<rparr> ''act2'' = Inr (st', IngressAcquired aid ex)
     \<and> int (length (ingress_leases st' demo_ingress)) \<le> 4"
proof -
  let ?inp = "\<lparr>aq_ingress = demo_ingress, aq_owner = ''o1'', aq_now = 30, aq_milliseconds = JInt 1000\<rparr>"
  let ?acq = "acquire_ingress_lease demo_world_env text_cmp (read_evidence demo_columns no_interactions) (\<lambda>_. Inr ()) demo_orphan ?inp ''act2''"
  have "case ?acq of Inr (_, IngressAcquired _ _) \<Rightarrow> True | _ \<Rightarrow> False" by code_simp
  then obtain st' aid ex where acq: "?acq = Inr (st', IngressAcquired aid ex)"
    by (auto split: sum.splits prod.splits ingress_acquisition.splits)
  have "map_option (\<lambda>r. map_option pol_activations (find_policy demo_orphan (ing_policy r))) (find_ingress demo_orphan demo_ingress) = Some (Some 4)"
    by code_simp
  then obtain r p where "find_ingress demo_orphan (aq_ingress ?inp) = Some r" "find_policy demo_orphan (ing_policy r) = Some p" "pol_activations p = 4"
    by auto
  with activations_within_policy [OF acq, of r p] have "int (length (ingress_leases st' demo_ingress)) \<le> 4" by simp
  with acq show ?thesis by blast
qed

end
