(* ===== verification/GoalData.thy ===== *)
theory GoalData
  imports Prelude
begin

text \<open>
  The data of the goal graph: exact locators of artifacts, acceptance specs, contract graphs, goal
  revisions and the artifact that projects the current goals (\<open>engine/goal-graph-projection.ts\<close>,
  \<open>acceptance/types.ts\<close>, \<open>architect/contract-graph.ts\<close>, \<open>architect/fidelity.ts\<close>,
  \<open>packages/plugin/src/artifact-catalog.ts\<close>). A zod schema is a parser: it rejects, and where it
  trims it returns another value than it was given.
\<close>

section \<open>Locators and provenance\<close>

record locator =
  loc_artifact :: string
  loc_revision :: int
  loc_sha :: string

datatype read_locator = EngineRead locator | OtherRead json

datatype tip_error =
    BrokenPrior string
  | TipCount nat
  | LineageCycle string
  | Disconnected "string list"

datatype goal_artifact_kind = RequirementKind | ContractGraphKind | ProjectionKind | OtherKind string

datatype goal_error =
    SchemaInvalid
  | DigestMismatch string
  | ArtifactAbsent locator
  | WrongArtifactKind goal_artifact_kind
  | GraphTip tip_error
  | StalePrior
  | NonExecutablePrior string
  | NoConflict
  | MissingGoal string
  | GoalLineageCycle string
  | GoalLineageMissing string
  | GoalIdTaken string
  | NotCurrentMember string
  | ProducerMismatch
  | NoCurrentProjection string
  | DuplicateGoals
  | DuplicateRemovals
  | ReferenceIntegrity "string list"
  | RemovesUnknown "string list"
  | ReturnsAndRemoves "string list"
  | OmitsPrior "string list"
  | HistoricalAlias "string list"
  | InternalPaths string
  | UnknownGraphGoal string
  | NotCanonical string
  | SliceProjectedTwice string
  | InsertRefused

definition hex_digit :: "char \<Rightarrow> bool" where
  "hex_digit c \<longleftrightarrow> c \<in> set ''0123456789abcdef''"

definition locator_ok :: "locator \<Rightarrow> bool" where
  "locator_ok l \<longleftrightarrow> loc_artifact l \<noteq> [] \<and> length (loc_artifact l) \<le> 512 \<and> loc_revision l > 0
     \<and> length (loc_sha l) = 64 \<and> list_all hex_digit (loc_sha l)"

fun read_locator_ok :: "read_locator \<Rightarrow> bool" where
  "read_locator_ok (EngineRead l) = locator_ok l"
| "read_locator_ok (OtherRead _) = True"

definition publish_resources :: nat where
  "publish_resources = 256"

record provenance =
  pv_observed :: "read_locator list"
  pv_sources :: "read_locator list"

definition provenance_ok :: "provenance \<Rightarrow> bool" where
  "provenance_ok p \<longleftrightarrow> length (pv_observed p) \<le> publish_resources \<and> length (pv_sources p) \<le> publish_resources
     \<and> list_all read_locator_ok (pv_observed p) \<and> list_all read_locator_ok (pv_sources p)
     \<and> distinct (pv_observed p) \<and> distinct (pv_sources p) \<and> list_all (\<lambda>l. l \<in> set (pv_observed p)) (pv_sources p)"

section \<open>Acceptance specs\<close>

datatype severity = Essential | Important | OptionalSpec | Pitfall

datatype heuristic_spec = ShellCheck string "string option" | ScriptRef string "string list option"

record rubric_level =
  rl_score :: int
  rl_label :: string
  rl_anchor :: string
  rl_passes :: bool

datatype judge_input = AcceptanceSummary | ChangedFiles | RequirementText

datatype scorer =
    HeuristicScorer string heuristic_spec "int option option"
  | JudgeScorer string string "rubric_level list option" "judge_input list option"
  | PrebuiltScorer
  | ContractAudit string "string list"

record acceptance_spec =
  as_id :: string
  as_source :: "(string \<times> string) option"
  as_title :: string
  as_scenario :: "(string list \<times> string list \<times> string list) option"
  as_scorers :: "scorer list"
  as_severity :: severity

definition nonempty_texts :: "string list \<Rightarrow> bool" where
  "nonempty_texts ts \<longleftrightarrow> list_all (\<lambda>t. t \<noteq> []) ts"

fun heuristic_ok :: "heuristic_spec \<Rightarrow> bool" where
  "heuristic_ok (ShellCheck cmd _) \<longleftrightarrow> cmd \<noteq> []"
| "heuristic_ok (ScriptRef path _) \<longleftrightarrow> path \<noteq> []"

definition rubric_ok :: "rubric_level \<Rightarrow> bool" where
  "rubric_ok r \<longleftrightarrow> rl_score r \<ge> 0 \<and> rl_label r \<noteq> [] \<and> rl_anchor r \<noteq> []"

fun scorer_ok :: "scorer \<Rightarrow> bool" where
  "scorer_ok (HeuristicScorer name spec _) \<longleftrightarrow> name \<noteq> [] \<and> heuristic_ok spec"
| "scorer_ok (JudgeScorer name criteria rubric _) \<longleftrightarrow> name \<noteq> [] \<and> length criteria \<ge> 10
     \<and> (case rubric of None \<Rightarrow> True | Some rs \<Rightarrow> length rs \<ge> 2 \<and> length rs \<le> 5 \<and> list_all rubric_ok rs)"
| "scorer_ok PrebuiltScorer \<longleftrightarrow> True"
| "scorer_ok (ContractAudit name ids) \<longleftrightarrow> name \<noteq> [] \<and> ids \<noteq> [] \<and> nonempty_texts ids"

definition scenario_ok :: "(string list \<times> string list \<times> string list) option \<Rightarrow> bool" where
  "scenario_ok s = (case s of None \<Rightarrow> True | Some (g, w, t) \<Rightarrow> list_all (\<lambda>ts. ts \<noteq> [] \<and> nonempty_texts ts) [g, w, t])"

text \<open>\<open>z.string().trim().min(1)\<close>, and a schema without transformations.\<close>

definition parse_text :: "string \<Rightarrow> goal_error + string" where
  "parse_text s = (let t = js_trim s in if t = [] then Inl SchemaInvalid else Inr t)"

definition checked :: "('a \<Rightarrow> bool) \<Rightarrow> 'a \<Rightarrow> goal_error + 'a" where
  "checked ok x = (if ok x then Inr x else Inl SchemaInvalid)"

definition parse_source :: "(string \<times> string) option \<Rightarrow> goal_error + (string \<times> string) option" where
  "parse_source s = (case s of None \<Rightarrow> Inr None
     | Some (k, i) \<Rightarrow> rbind (parse_text k) (\<lambda>k'. rbind (parse_text i) (\<lambda>i'. Inr (Some (k', i')))))"

definition parse_spec :: "acceptance_spec \<Rightarrow> goal_error + acceptance_spec" where
  "parse_spec s =
     rbind (parse_text (as_id s)) (\<lambda>i.
     rbind (parse_source (as_source s)) (\<lambda>src.
     rbind (parse_text (as_title s)) (\<lambda>t.
       checked (\<lambda>r. scenario_ok (as_scenario r) \<and> as_scorers r \<noteq> [] \<and> list_all scorer_ok (as_scorers r))
         (s\<lparr>as_id := i, as_source := src, as_title := t\<rparr>))))"

section \<open>Contract graphs and fidelity\<close>

datatype contract_kind = TypeContract | FunctionContract | EnumContract | ComponentKind | RouteKind | StaticData
  | RenderSurface | BehaviorInventory

record contract =
  ct_id :: string
  ct_kind :: contract_kind
  ct_name :: string
  ct_producer :: string
  ct_consumers :: "string list"
  ct_summary :: string
  ct_ir :: "(contract_kind \<times> json) option"
  ct_rest :: json
  ct_paths :: "string list"
  ct_evidence :: "string list"

type_synonym contract_graph = "contract list"

definition typed_contract :: "contract_kind \<Rightarrow> bool" where
  "typed_contract k \<longleftrightarrow> k = TypeContract \<or> k = FunctionContract \<or> k = EnumContract"

text \<open>The members \<open>route\<close> and \<open>component\<close>, which nothing here reads, are \<open>ct_rest\<close>.\<close>

definition contract_ok :: "contract \<Rightarrow> bool" where
  "contract_ok c \<longleftrightarrow> nonempty_texts ([ct_id c, ct_name c, ct_producer c, ct_summary c] @ ct_consumers c @ ct_paths c @ ct_evidence c)
     \<and> (case ct_ir c of None \<Rightarrow> \<not> typed_contract (ct_kind c) | Some (k, _) \<Rightarrow> typed_contract (ct_kind c) \<and> k = ct_kind c)"

definition graph_ok :: "contract_graph \<Rightarrow> bool" where
  "graph_ok g \<longleftrightarrow> list_all contract_ok g \<and> distinct (map ct_id g)"

definition remap_contract :: "(string \<Rightarrow> goal_error + string) \<Rightarrow> contract \<Rightarrow> goal_error + contract" where
  "remap_contract f c =
     rbind (f (ct_producer c)) (\<lambda>p. rbind (rtraverse f (ct_consumers c)) (\<lambda>cs. Inr (c\<lparr>ct_producer := p, ct_consumers := cs\<rparr>)))"

definition remap_graph :: "(string \<Rightarrow> goal_error + string) \<Rightarrow> contract_graph \<Rightarrow> goal_error + contract_graph" where
  "remap_graph f g = rtraverse (remap_contract f) g"

record source_coverage =
  fs_id :: string
  fs_paths :: "string list"
  fs_goals :: "string list"
  fs_action :: string
  fs_rationale :: string

record reference_coverage =
  fr_id :: string
  fr_surface :: string
  fr_goals :: "string list"
  fr_specs :: "string list"
  fr_regions :: "(string \<times> json) list"
  fr_expectation :: string

record assembly_owner =
  fo_surface :: string
  fo_goal :: string
  fo_rationale :: string

record fidelity =
  fd_source :: "source_coverage list"
  fd_reference :: "reference_coverage list"
  fd_owners :: "assembly_owner list"

definition empty_fidelity :: fidelity where
  "empty_fidelity = \<lparr>fd_source = [], fd_reference = [], fd_owners = []\<rparr>"

definition source_actions :: "string list" where
  "source_actions = [''reuse'', ''modify'', ''preserve'', ''replace'']"

text \<open>\<open>region_id@viewport_id\<close>: exactly one at sign with text on both sides. The binding itself is JSON.\<close>

definition region_key_ok :: "string \<Rightarrow> bool" where
  "region_key_ok k \<longleftrightarrow>
     (let region = takeWhile (\<lambda>c. c \<noteq> CHR ''@'') k; rest = drop (Suc (length region)) k
      in CHR ''@'' \<in> set k \<and> CHR ''@'' \<notin> set rest \<and> js_trim region \<noteq> [] \<and> js_trim rest \<noteq> [])"

definition fidelity_ok :: "fidelity \<Rightarrow> bool" where
  "fidelity_ok f \<longleftrightarrow>
     list_all (\<lambda>r. fs_id r \<noteq> [] \<and> fs_paths r \<noteq> [] \<and> nonempty_texts (fs_paths r) \<and> fs_goals r \<noteq> [] \<and> nonempty_texts (fs_goals r)
        \<and> fs_action r \<in> set source_actions \<and> length (fs_rationale r) \<ge> 5) (fd_source f)
     \<and> list_all (\<lambda>r. fr_id r \<noteq> [] \<and> fr_surface r \<noteq> [] \<and> fr_goals r \<noteq> [] \<and> nonempty_texts (fr_goals r)
        \<and> nonempty_texts (fr_specs r) \<and> list_all region_key_ok (map fst (fr_regions r)) \<and> length (fr_expectation r) \<ge> 5) (fd_reference f)
     \<and> list_all (\<lambda>r. fo_surface r \<noteq> [] \<and> fo_goal r \<noteq> [] \<and> length (fo_rationale r) \<ge> 5) (fd_owners f)"

section \<open>Goals and the projection artifact\<close>

datatype goal_operation = AddGoal | ModifyGoal | RemoveGoal

datatype mutation_author = OperatorCommand | OrchestratorDecision string string string

record mutation_producer =
  mp_author :: mutation_author
  mp_operation :: goal_operation
  mp_reason :: string
  mp_target :: "string option"

datatype goal_producer = ArchitectTurn string string | MutationBy mutation_producer

definition parse_mutation_producer :: "mutation_producer \<Rightarrow> goal_error + mutation_producer" where
  "parse_mutation_producer p = rbind (parse_text (mp_reason p)) (\<lambda>r.
     checked (\<lambda>q. (case mp_author q of OperatorCommand \<Rightarrow> True | OrchestratorDecision s m t \<Rightarrow> nonempty_texts [s, m, t])
         \<and> mp_target q \<noteq> Some []) (p\<lparr>mp_reason := r\<rparr>))"

fun parse_producer :: "goal_producer \<Rightarrow> goal_error + goal_producer" where
  "parse_producer (ArchitectTurn s m) = checked (\<lambda>_. s \<noteq> [] \<and> m \<noteq> []) (ArchitectTurn s m)"
| "parse_producer (MutationBy p) = rbind (parse_mutation_producer p) (\<lambda>q. Inr (MutationBy q))"

record removal =
  rm_goal :: string
  rm_reason :: string

definition parse_removal :: "removal \<Rightarrow> goal_error + removal" where
  "parse_removal r = rbind (parse_text (rm_reason r)) (\<lambda>t. checked (\<lambda>q. rm_goal q \<noteq> []) (r\<lparr>rm_reason := t\<rparr>))"

record graph_projection =
  gp_members :: "string list"
  gp_removals :: "removal list"

definition parse_graph_projection :: "graph_projection \<Rightarrow> goal_error + graph_projection" where
  "parse_graph_projection p = rbind (rtraverse parse_removal (gp_removals p)) (\<lambda>rs.
     checked (\<lambda>q. nonempty_texts (gp_members q) \<and> distinct (gp_members q) \<and> distinct (map rm_goal (gp_removals q))
       \<and> list_all (\<lambda>r. rm_goal r \<notin> set (gp_members q)) (gp_removals q)) (p\<lparr>gp_removals := rs\<rparr>))"

datatype conflict_code = StalePriorProjection | RequirementSetNotRead | RequirementSetNotSelected
  | UnprojectableContractGraph | InvalidGoalPartition | NonCurrentGoalReference | UnprojectableGoalContract
  | UnprojectableFidelity | UnprojectableRequirementReference | UnprojectableContractReference
  | UnprojectableEvidenceReference

datatype finding_code = NotReauthoredAfterAdd | NotReauthoredAfterModify | ReferencesRemovedGoal

definition parse_note :: "'c \<times> string \<Rightarrow> goal_error + 'c \<times> string" where
  "parse_note n = rbind (parse_text (snd n)) (\<lambda>t. Inr (fst n, t))"

datatype goal_priority = Blocking | Advisory

record goal_contract =
  gc_id :: string
  gc_title :: string
  gc_objective :: string
  gc_specs :: "acceptance_spec list"
  gc_paths :: "string list"
  gc_priority :: goal_priority
  gc_kind :: string
  gc_source :: string

definition parse_contract :: "goal_contract \<Rightarrow> goal_error + goal_contract" where
  "parse_contract c = rbind (rtraverse parse_spec (gc_specs c)) (\<lambda>ss.
     checked (\<lambda>d. nonempty_texts [gc_id d, gc_title d, gc_objective d, gc_kind d, gc_source d]) (c\<lparr>gc_specs := ss\<rparr>))"

record projection_payload =
  pp_provenance :: provenance
  pp_producer :: goal_producer
  pp_prior :: "locator option"
  pp_graph :: "locator option"
  pp_projection :: "graph_projection option"
  pp_goals :: "goal_contract list"
  pp_candidates :: "goal_contract list"
  pp_candidate_removals :: "removal list"
  pp_findings :: "(finding_code \<times> string) list"
  pp_conflicts :: "(conflict_code \<times> string) list"
  pp_observed :: "locator option"

definition parse_optional :: "('a \<Rightarrow> goal_error + 'a) \<Rightarrow> 'a option \<Rightarrow> goal_error + 'a option" where
  "parse_optional f x = (case x of None \<Rightarrow> Inr None | Some a \<Rightarrow> rbind (f a) (\<lambda>b. Inr (Some b)))"

text \<open>The refinement at the end of the schema.\<close>

definition projection_consistent :: "projection_payload \<Rightarrow> bool" where
  "projection_consistent p \<longleftrightarrow>
     (case pp_projection p of
        Some g \<Rightarrow> pp_conflicts p = [] \<and> pp_observed p = None \<and> pp_candidates p = [] \<and> pp_candidate_removals p = []
          \<and> map gc_id (pp_goals p) = gp_members g
      | None \<Rightarrow> pp_goals p = [] \<and> pp_conflicts p \<noteq> [] \<and> (case pp_producer p of ArchitectTurn _ _ \<Rightarrow> True | MutationBy _ \<Rightarrow> False))"

definition parse_projection :: "projection_payload \<Rightarrow> goal_error + projection_payload" where
  "parse_projection p =
     rbind (parse_producer (pp_producer p)) (\<lambda>producer.
     rbind (parse_optional parse_graph_projection (pp_projection p)) (\<lambda>projection.
     rbind (rtraverse parse_contract (pp_goals p)) (\<lambda>goals.
     rbind (rtraverse parse_contract (pp_candidates p)) (\<lambda>candidates.
     rbind (rtraverse parse_removal (pp_candidate_removals p)) (\<lambda>removals.
     rbind (rtraverse parse_note (pp_findings p)) (\<lambda>findings.
     rbind (rtraverse parse_note (pp_conflicts p)) (\<lambda>conflicts.
       checked (\<lambda>q. provenance_ok (pp_provenance q)
           \<and> list_all (\<lambda>l. case l of None \<Rightarrow> True | Some m \<Rightarrow> locator_ok m) [pp_prior q, pp_graph q, pp_observed q]
           \<and> projection_consistent q)
         (p\<lparr>pp_producer := producer, pp_projection := projection, pp_goals := goals, pp_candidates := candidates,
            pp_candidate_removals := removals, pp_findings := findings, pp_conflicts := conflicts\<rparr>))))))))"

record graph_payload =
  cg_provenance :: provenance
  cg_producer :: "string \<times> string"
  cg_requirement :: "locator option"
  cg_prior :: "locator option"
  cg_graph :: contract_graph
  cg_fidelity :: fidelity

definition parse_graph_payload :: "graph_payload \<Rightarrow> goal_error + graph_payload" where
  "parse_graph_payload p = checked (\<lambda>q. provenance_ok (cg_provenance q) \<and> fst (cg_producer q) \<noteq> [] \<and> snd (cg_producer q) \<noteq> []
     \<and> list_all (\<lambda>l. case l of None \<Rightarrow> True | Some m \<Rightarrow> locator_ok m) [cg_requirement q, cg_prior q]
     \<and> graph_ok (cg_graph q) \<and> fidelity_ok (cg_fidelity q)) p"

record goal_row =
  gr_id :: string
  gr_task :: string
  gr_requirement :: "locator option"
  gr_graph :: "locator option"
  gr_supersede :: "string option"
  gr_title :: string
  gr_slug :: string
  gr_objective :: string
  gr_specs :: "acceptance_spec list"
  gr_paths :: "string list"
  gr_kind :: string
  gr_priority :: goal_priority
  gr_source :: string
  gr_order :: int
  gr_metadata :: "(string \<times> json) list"
  gr_created :: int

text \<open>The part of a row that the projection repeats.\<close>

definition contract_of :: "goal_row \<Rightarrow> goal_contract" where
  "contract_of g = \<lparr>gc_id = gr_id g, gc_title = gr_title g, gc_objective = gr_objective g, gc_specs = gr_specs g,
     gc_paths = gr_paths g, gc_priority = gr_priority g, gc_kind = gr_kind g, gc_source = gr_source g\<rparr>"

section \<open>Parsing is idempotent\<close>

text \<open>What a writer stored after parsing it, a reader parses without change.\<close>

lemma js_trim_idem [simp]: "js_trim (js_trim s) = js_trim s"
proof -
  define t where "t = js_trim s"
  have last: "rev t = dropWhile js_space (rev (dropWhile js_space s))" by (simp add: t_def js_trim_def)
  have no_suffix: "dropWhile js_space (rev t) = rev t" unfolding last by simp
  have "dropWhile js_space t = t"
  proof (cases t)
    case (Cons c cs)
    obtain ws where "rev (dropWhile js_space s) = ws @ rev t" unfolding last
      by (metis takeWhile_dropWhile_id)
    then have "dropWhile js_space s = t @ rev ws" by (metis rev_append rev_rev_ident)
    then have "dropWhile js_space s = c # cs @ rev ws" by (simp add: Cons)
    then have "\<not> js_space c" by (simp add: dropWhile_eq_Cons_conv)
    then show ?thesis by (simp add: Cons)
  qed simp
  then show ?thesis unfolding t_def [symmetric] by (subst js_trim_def) (simp add: no_suffix)
qed

lemma parse_text_stable: "parse_text s = Inr t \<Longrightarrow> parse_text t = Inr t"
  by (auto simp: parse_text_def Let_def split: if_splits)

lemma checked_Inr_iff [simp]: "checked ok x = Inr y \<longleftrightarrow> ok x \<and> y = x"
  by (auto simp: checked_def)

lemma rtraverse_stable:
  assumes "\<And>x y. f x = Inr y \<Longrightarrow> f y = Inr y" and "rtraverse f xs = Inr ys"
  shows "rtraverse f ys = Inr ys"
  using assms(2) by (induction xs arbitrary: ys) (auto simp: rbind_Inr_iff assms(1))

lemma parse_source_stable: "parse_source s = Inr t \<Longrightarrow> parse_source t = Inr t"
  by (auto simp: parse_source_def rbind_Inr_iff parse_text_stable split: option.splits)

lemma parse_spec_stable: "parse_spec s = Inr t \<Longrightarrow> parse_spec t = Inr t"
  by (auto simp: parse_spec_def rbind_Inr_iff parse_text_stable parse_source_stable)

lemma parse_removal_stable: "parse_removal r = Inr q \<Longrightarrow> parse_removal q = Inr q"
  by (auto simp: parse_removal_def rbind_Inr_iff parse_text_stable)

lemma parse_removal_goal: "parse_removal r = Inr q \<Longrightarrow> rm_goal q = rm_goal r"
  by (auto simp: parse_removal_def rbind_Inr_iff)

lemma parse_contract_stable:
  assumes "parse_contract c = Inr d"
  shows "parse_contract d = Inr d"
proof -
  obtain ss where "rtraverse parse_spec (gc_specs c) = Inr ss" and d: "d = c\<lparr>gc_specs := ss\<rparr>"
      "nonempty_texts [gc_id d, gc_title d, gc_objective d, gc_kind d, gc_source d]"
    using assms by (auto simp: parse_contract_def rbind_Inr_iff)
  from this(1) have "rtraverse parse_spec ss = Inr ss"
    by (rule rtraverse_stable [where f = parse_spec, rotated]) (rule parse_spec_stable)
  then show ?thesis using d by (auto simp: parse_contract_def rbind_Inr_iff)
qed

lemma parse_contract_id: "parse_contract c = Inr d \<Longrightarrow> gc_id d = gc_id c"
  by (auto simp: parse_contract_def rbind_Inr_iff)

end
