(* ===== verification/GoalGraph.thy ===== *)
theory GoalGraph
  imports GoalData
begin

text \<open>
  Reading the goal graph: the artifacts and Goal rows of a Task, the tip of the lineage of
  projections (\<open>resolveGoalGraphProjectionTip\<close>), the identity of a Delivery Slice
  (\<open>engine/delivery-slice.ts\<close>), the current membership (\<open>engine/store.ts\<close>) and the membership at a
  catalog revision (\<open>engine/delivery-slice-membership-facts.ts\<close>).
\<close>

section \<open>Following links\<close>

text \<open>
  Three loops of the code follow a link from a row to an earlier one with a set of visited
  identities. \<open>chase m\<close> follows the links among the rows of \<open>m\<close> and returns the rows it went through,
  the start first.
\<close>

datatype 'k chase_fault = ChaseCycle 'k | ChaseMissing 'k

definition lookup_by :: "('a \<Rightarrow> 'k) \<Rightarrow> 'a list \<Rightarrow> 'k \<Rightarrow> 'a option" where
  "lookup_by key xs k = find (\<lambda>x. key x = k) (rev xs)"

lemma lookup_by_mem: "lookup_by key xs k = Some x \<Longrightarrow> x \<in> set xs \<and> key x = k"
  by (auto simp: lookup_by_def find_Some_iff) (metis length_rev nth_mem set_rev)

lemma lookup_by_None_iff: "lookup_by key xs k = None \<longleftrightarrow> k \<notin> key ` set xs"
  by (auto simp: lookup_by_def find_None_iff)

lemma lookup_by_distinct: "distinct (map key xs) \<Longrightarrow> x \<in> set xs \<Longrightarrow> lookup_by key xs (key x) = Some x"
proof -
  assume d: "distinct (map key xs)" and x: "x \<in> set xs"
  obtain y where y: "lookup_by key xs (key x) = Some y" using x lookup_by_None_iff [of key xs "key x"] by fastforce
  from lookup_by_mem [OF y] d x have "y = x" by (auto simp: distinct_map inj_on_def)
  with y show ?thesis by simp
qed

function (sequential) chase ::
  "('a \<Rightarrow> 'k) \<Rightarrow> ('a \<Rightarrow> 'k option) \<Rightarrow> 'a list \<Rightarrow> 'k list \<Rightarrow> 'a \<Rightarrow> 'k chase_fault + 'a list" where
  "chase key link m visited x =
     (if key x \<in> set visited then Inl (ChaseCycle (key x))
      else case link x of
          None \<Rightarrow> Inr [x]
        | Some k \<Rightarrow> (case lookup_by key m k of
              None \<Rightarrow> Inl (ChaseMissing (key x))
            | Some y \<Rightarrow> rbind (chase key link m (key x # visited) y) (\<lambda>path. Inr (x # path))))"
  by pat_completeness auto

text \<open>A row of \<open>m\<close> that was not yet visited is used up by each step.\<close>

termination
proof (relation "measure (\<lambda>(key, link, m, visited, x).
    2 * card (key ` set m - set visited) + (if key x \<in> key ` set m then 0 else 1))")
  show "wf (measure (\<lambda>(key :: 'a \<Rightarrow> 'k, link :: 'a \<Rightarrow> 'k option, m, visited, x).
    2 * card (key ` set m - set visited) + (if key x \<in> key ` set m then 0 else 1)))" by simp
next
  fix key :: "'a \<Rightarrow> 'k" and link :: "'a \<Rightarrow> 'k option" and m visited x k and y :: 'a
  assume new: "key x \<notin> set visited" and look: "lookup_by key m k = Some y"
  have y: "key y \<in> key ` set m" using lookup_by_mem [OF look] by blast
  have "2 * card (key ` set m - insert (key x) (set visited))
      < 2 * card (key ` set m - set visited) + (if key x \<in> key ` set m then 0 else 1)"
  proof (cases "key x \<in> key ` set m")
    case True
    have "key ` set m - insert (key x) (set visited) \<subset> key ` set m - set visited" using True new by blast
    then have "card (key ` set m - insert (key x) (set visited)) < card (key ` set m - set visited)"
      by (intro psubset_card_mono) auto
    then show ?thesis by simp
  next
    case False
    then have "key ` set m - insert (key x) (set visited) = key ` set m - set visited" by blast
    then show ?thesis using False by simp
  qed
  with y show "((key, link, m, key x # visited, y), (key, link, m, visited, x)) \<in> measure (\<lambda>(key, link, m, visited, x).
    2 * card (key ` set m - set visited) + (if key x \<in> key ` set m then 0 else 1))" by simp
qed

declare chase.simps [simp del]

section \<open>The lineage of projections\<close>

record graph_fact =
  gf_id :: string
  gf_revision :: int
  gf_sha :: string
  gf_payload :: projection_payload

definition fact_prior :: "graph_fact \<Rightarrow> string option" where
  "fact_prior f = map_option loc_artifact (pp_prior (gf_payload f))"

definition successful :: "graph_fact list \<Rightarrow> graph_fact list" where
  "successful fs = filter (\<lambda>f. pp_projection (gf_payload f) \<noteq> None) fs"

definition check_prior :: "graph_fact list \<Rightarrow> graph_fact \<Rightarrow> tip_error + unit" where
  "check_prior fs f =
     (case pp_prior (gf_payload f) of
        None \<Rightarrow> Inr ()
      | Some l \<Rightarrow> (case lookup_by gf_id fs (loc_artifact l) of
            None \<Rightarrow> Inl (BrokenPrior (gf_id f))
          | Some p \<Rightarrow> if gf_sha p = loc_sha l then Inr () else Inl (BrokenPrior (gf_id f))))"

definition tips :: "graph_fact list \<Rightarrow> graph_fact list" where
  "tips fs = filter (\<lambda>f. Some (gf_id f) \<notin> set (map fact_prior fs)) fs"

text \<open>After the check no prior is missing, so the second branch of the walk is never taken.\<close>

definition walk_lineage :: "graph_fact list \<Rightarrow> graph_fact \<Rightarrow> tip_error + graph_fact list" where
  "walk_lineage fs t =
     (case chase gf_id fact_prior fs [] t of
        Inl (ChaseCycle k) \<Rightarrow> Inl (LineageCycle k)
      | Inl (ChaseMissing k) \<Rightarrow> Inl (BrokenPrior k)
      | Inr path \<Rightarrow> Inr path)"

definition resolve_tip :: "graph_fact list \<Rightarrow> tip_error + graph_fact option" where
  "resolve_tip facts =
     (let fs = successful facts
      in if fs = [] then Inr None
         else rbind (rtraverse (check_prior fs) fs) (\<lambda>_.
           case tips fs of
             [t] \<Rightarrow> rbind (walk_lineage fs t) (\<lambda>path.
               if length path = length fs then Inr (Some t)
               else Inl (Disconnected (filter (\<lambda>i. i \<notin> gf_id ` set path) (map gf_id fs))))
           | ts \<Rightarrow> Inl (TipCount (length ts))))"

section \<open>The tables\<close>

datatype goal_payload =
    RequirementPayload "string list" json
  | ContractGraphPayload graph_payload
  | ProjectionPayload projection_payload
  | OtherPayload string json

fun payload_kind :: "goal_payload \<Rightarrow> goal_artifact_kind" where
  "payload_kind (RequirementPayload _ _) = RequirementKind"
| "payload_kind (ContractGraphPayload _) = ContractGraphKind"
| "payload_kind (ProjectionPayload _) = ProjectionKind"
| "payload_kind (OtherPayload k _) = OtherKind k"

text \<open>
  A row of \<open>engine_artifact\<close>, or of \<open>engine_artifact_version\<close>, which keeps the replaced versions of
  the artifacts that may change. \<open>gs_revision\<close> is the last catalog revision that was allocated and
  \<open>gs_tasks\<close> are the Tasks that accept facts.
\<close>

record goal_artifact =
  ga_id :: string
  ga_task :: string
  ga_payload :: goal_payload
  ga_sha :: string
  ga_revision :: int

record goal_store =
  gs_tasks :: "string list"
  gs_goals :: "goal_row list"
  gs_artifacts :: "goal_artifact list"
  gs_versions :: "goal_artifact list"
  gs_revision :: int

text \<open>
  \<open>ge_sha\<close> is the SHA-256 digest of the text of a payload, \<open>ge_locale\<close> is \<open>localeCompare\<close>,
  \<open>ge_lower\<close> is \<open>toLowerCase\<close>, \<open>ge_internal\<close> tells the paths of the runtime itself, and \<open>ge_evidence\<close>
  are the evidence references of selected research artifacts.
\<close>

record goal_env =
  ge_sha :: "goal_payload \<Rightarrow> string"
  ge_locale :: "string \<Rightarrow> string \<Rightarrow> int"
  ge_lower :: "string \<Rightarrow> string"
  ge_internal :: "string \<Rightarrow> bool"
  ge_evidence :: "goal_store \<Rightarrow> string \<Rightarrow> read_locator list \<Rightarrow> string list"

definition locator_of :: "goal_artifact \<Rightarrow> locator" where
  "locator_of a = \<lparr>loc_artifact = ga_id a, loc_revision = ga_revision a, loc_sha = ga_sha a\<rparr>"

definition fact_locator :: "graph_fact \<Rightarrow> locator" where
  "fact_locator f = \<lparr>loc_artifact = gf_id f, loc_revision = gf_revision f, loc_sha = gf_sha f\<rparr>"

definition artifact_by_id :: "goal_store \<Rightarrow> string \<Rightarrow> goal_artifact option" where
  "artifact_by_id st i = find (\<lambda>a. ga_id a = i) (gs_artifacts st)"

definition artifact_by_locator :: "goal_env \<Rightarrow> goal_store \<Rightarrow> string \<Rightarrow> locator \<Rightarrow> goal_error + goal_artifact" where
  "artifact_by_locator env st tid l =
     (case find (\<lambda>a. locator_of a = l \<and> ga_task a = tid) (gs_artifacts st @ gs_versions st) of
        None \<Rightarrow> Inl (ArtifactAbsent l)
      | Some a \<Rightarrow> if ge_sha env (ga_payload a) = ga_sha a then Inr a else Inl (DigestMismatch (ga_id a)))"

definition parse_fact :: "goal_env \<Rightarrow> goal_artifact \<Rightarrow> goal_error + graph_fact" where
  "parse_fact env a =
     (case ga_payload a of
        ProjectionPayload p \<Rightarrow>
          if ge_sha env (ga_payload a) \<noteq> ga_sha a then Inl (DigestMismatch (ga_id a))
          else rbind (parse_projection p) (\<lambda>q. Inr \<lparr>gf_id = ga_id a, gf_revision = ga_revision a, gf_sha = ga_sha a, gf_payload = q\<rparr>)
      | _ \<Rightarrow> Inl (WrongArtifactKind ProjectionKind))"

definition parse_contract_graph :: "goal_env \<Rightarrow> goal_artifact \<Rightarrow> goal_error + graph_payload" where
  "parse_contract_graph env a =
     (case ga_payload a of
        ContractGraphPayload g \<Rightarrow>
          if ge_sha env (ga_payload a) \<noteq> ga_sha a then Inl (DigestMismatch (ga_id a)) else parse_graph_payload g
      | _ \<Rightarrow> Inl (WrongArtifactKind ContractGraphKind))"

definition projection_rows :: "goal_artifact list \<Rightarrow> string \<Rightarrow> goal_artifact list" where
  "projection_rows as tid = filter (\<lambda>a. ga_task a = tid \<and> payload_kind (ga_payload a) = ProjectionKind) as"

text \<open>The rows are read in order of creation; the result does not depend on the order.\<close>

definition tip_of_rows :: "goal_env \<Rightarrow> goal_artifact list \<Rightarrow> goal_error + graph_fact option" where
  "tip_of_rows env rows =
     rbind (rtraverse (parse_fact env) rows) (\<lambda>facts.
       case resolve_tip facts of Inl e \<Rightarrow> Inl (GraphTip e) | Inr t \<Rightarrow> Inr t)"

definition current_projection :: "goal_env \<Rightarrow> goal_store \<Rightarrow> string \<Rightarrow> goal_error + graph_fact option" where
  "current_projection env st tid = tip_of_rows env (projection_rows (gs_artifacts st) tid)"

fun members_of :: "graph_fact option \<Rightarrow> string list" where
  "members_of None = []"
| "members_of (Some f) = (case pp_projection (gf_payload f) of None \<Rightarrow> [] | Some g \<Rightarrow> gp_members g)"

text \<open>The membership at a catalog revision, and the check of the slices that a fact names.\<close>

definition membership_before :: "goal_env \<Rightarrow> goal_store \<Rightarrow> string \<Rightarrow> int \<Rightarrow> goal_error + (locator \<times> string list) option" where
  "membership_before env st tid high =
     rbind (tip_of_rows env (filter (\<lambda>a. ga_revision a < high) (projection_rows (gs_artifacts st) tid)))
       (\<lambda>tip. Inr (map_option (\<lambda>f. (fact_locator f, members_of (Some f))) tip))"

definition assert_current_slices :: "goal_env \<Rightarrow> goal_store \<Rightarrow> string \<Rightarrow> string list \<Rightarrow> goal_error + string list" where
  "assert_current_slices env st tid revisions =
     rbind (current_projection env st tid) (\<lambda>tip.
       case filter (\<lambda>r. r \<notin> set (members_of tip)) revisions of
         [] \<Rightarrow> Inr revisions
       | r # _ \<Rightarrow> Inl (NotCurrentMember r))"

section \<open>Delivery Slices\<close>

definition goals_of :: "goal_store \<Rightarrow> string \<Rightarrow> goal_row list" where
  "goals_of st tid = filter (\<lambda>g. gr_task g = tid) (gs_goals st)"

definition parent_of :: "goal_row \<Rightarrow> string option" where
  "parent_of g = (case gr_supersede g of None \<Rightarrow> None | Some p \<Rightarrow> if p = [] then None else Some p)"

record slice_identity =
  sl_slice :: string
  sl_revision_id :: string
  sl_revision :: nat
  sl_prior :: "string option"

definition slice_identity_of :: "goal_row list \<Rightarrow> goal_row \<Rightarrow> goal_error + slice_identity" where
  "slice_identity_of revisions g =
     (case chase gr_id parent_of (filter (\<lambda>r. gr_task r = gr_task g) revisions) [] g of
        Inl (ChaseCycle k) \<Rightarrow> Inl (GoalLineageCycle k)
      | Inl (ChaseMissing k) \<Rightarrow> Inl (GoalLineageMissing k)
      | Inr path \<Rightarrow> Inr \<lparr>sl_slice = gr_id (last path), sl_revision_id = gr_id g, sl_revision = length path,
                        sl_prior = gr_supersede g\<rparr>)"

definition lineage_root :: "goal_row list \<Rightarrow> goal_row \<Rightarrow> goal_error + string" where
  "lineage_root goals g =
     (case chase gr_id parent_of goals [] g of
        Inl (ChaseCycle k) \<Rightarrow> Inl (GoalLineageCycle k)
      | Inl (ChaseMissing k) \<Rightarrow> Inl (GoalLineageMissing k)
      | Inr path \<Rightarrow> Inr (gr_id (last path)))"

section \<open>The current membership\<close>

definition member_row :: "goal_row list \<Rightarrow> string \<Rightarrow> goal_error + goal_row" where
  "member_row goals i = (case lookup_by gr_id goals i of None \<Rightarrow> Inl (MissingGoal i) | Some g \<Rightarrow> Inr g)"

fun check_canonical :: "goal_row list \<Rightarrow> goal_contract list \<Rightarrow> goal_error + unit" where
  "check_canonical [] _ = Inr ()"
| "check_canonical (g # gs) [] = Inl (NotCanonical (gr_id g))"
| "check_canonical (g # gs) (c # cs) = (if c = contract_of g then check_canonical gs cs else Inl (NotCanonical (gr_id g)))"

fun check_slices :: "string list \<Rightarrow> slice_identity list \<Rightarrow> goal_error + unit" where
  "check_slices seen [] = Inr ()"
| "check_slices seen (s # ss) =
     (if sl_slice s \<in> set seen then Inl (SliceProjectedTwice (sl_slice s)) else check_slices (sl_slice s # seen) ss)"

record membership_context =
  mc_projection :: "string option"
  mc_goals :: "(slice_identity \<times> goal_row) list"
  mc_graph :: "graph_payload option"
  mc_historical :: "goal_row list"

text \<open>The contract graph that the projection names, when the reader wants it.\<close>

definition linked_graph ::
  "goal_env \<Rightarrow> goal_store \<Rightarrow> string \<Rightarrow> projection_payload \<Rightarrow> goal_error + graph_payload option" where
  "linked_graph env st tid p =
     (case pp_graph p of
        None \<Rightarrow> Inr None
      | Some l \<Rightarrow> rbind (artifact_by_locator env st tid l) (\<lambda>a.
          rbind (parse_contract_graph env a) (\<lambda>g. Inr (Some g))))"

definition membership_of ::
  "goal_env \<Rightarrow> goal_store \<Rightarrow> string \<Rightarrow> graph_fact option \<Rightarrow> goal_error + membership_context" where
  "membership_of env st tid tip =
     (let goals = goals_of st tid
      in case tip of
           None \<Rightarrow> Inr \<lparr>mc_projection = None, mc_goals = [], mc_graph = None, mc_historical = goals\<rparr>
         | Some f \<Rightarrow>
             (case pp_projection (gf_payload f) of
                None \<Rightarrow> Inr \<lparr>mc_projection = None, mc_goals = [], mc_graph = None, mc_historical = goals\<rparr>
              | Some g \<Rightarrow>
                  rbind (rtraverse (member_row goals) (gp_members g)) (\<lambda>rows.
                  rbind (check_canonical rows (pp_goals (gf_payload f))) (\<lambda>_.
                  rbind (rtraverse (slice_identity_of goals) rows) (\<lambda>slices.
                  rbind (check_slices [] slices) (\<lambda>_.
                  rbind (linked_graph env st tid (gf_payload f)) (\<lambda>graph.
                    Inr \<lparr>mc_projection = Some (gf_id f), mc_goals = zip slices rows, mc_graph = graph,
                         mc_historical = filter (\<lambda>r. gr_id r \<notin> gr_id ` set rows) goals\<rparr>)))))))"

definition current_membership :: "goal_env \<Rightarrow> goal_store \<Rightarrow> string \<Rightarrow> goal_error + membership_context" where
  "current_membership env st tid = rbind (current_projection env st tid) (membership_of env st tid)"

end
