(* ===== verification/GoalWrite.thy ===== *)
theory GoalWrite
  imports GoalGraph
begin

text \<open>
  Writing the goal graph (\<open>engine/persist.ts\<close>): one command of the operator or the Orchestrator
  (\<open>applyGoalGraphMutationInTransaction\<close>), the goals of a completed Architect Turn
  (\<open>persistArchitectGoalProjection\<close>), and a candidate that could not be projected
  (\<open>persistArchitectUnprojectableGoalGraphCandidate\<close>). Each runs in one transaction, so a failure
  leaves the tables as they were.
\<close>

section \<open>Inserting rows\<close>

definition binding_exact :: "goal_store \<Rightarrow> string \<Rightarrow> goal_artifact_kind \<Rightarrow> locator option \<Rightarrow> bool" where
  "binding_exact st tid k l =
     (case l of None \<Rightarrow> True
      | Some m \<Rightarrow> list_ex (\<lambda>a. locator_of a = m \<and> ga_task a = tid \<and> payload_kind (ga_payload a) = k)
          (gs_artifacts st @ gs_versions st))"

text \<open>The primary key, the foreign key of the Task and the triggers of \<open>engine_goal\<close>.\<close>

definition goal_insertable :: "goal_store \<Rightarrow> goal_row \<Rightarrow> bool" where
  "goal_insertable st g \<longleftrightarrow> gr_task g \<in> set (gs_tasks st) \<and> gr_id g \<notin> gr_id ` set (gs_goals st)
     \<and> binding_exact st (gr_task g) RequirementKind (gr_requirement g)
     \<and> binding_exact st (gr_task g) ContractGraphKind (gr_graph g)
     \<and> (case gr_supersede g of None \<Rightarrow> True
        | Some p \<Rightarrow> list_ex (\<lambda>q. gr_id q = p \<and> gr_task q = gr_task g) (gs_goals st))"

definition insert_goal :: "goal_store \<Rightarrow> goal_row \<Rightarrow> goal_error + goal_store" where
  "insert_goal st g = (if goal_insertable st g then Inr (st\<lparr>gs_goals := gs_goals st @ [g]\<rparr>) else Inl InsertRefused)"

definition insert_payload ::
  "goal_env \<Rightarrow> goal_store \<Rightarrow> string \<Rightarrow> string \<Rightarrow> goal_payload \<Rightarrow> goal_error + goal_store \<times> locator" where
  "insert_payload env st i tid p =
     (let high = gs_revision st + 1; a = \<lparr>ga_id = i, ga_task = tid, ga_payload = p, ga_sha = ge_sha env p, ga_revision = high\<rparr>
      in if high \<le> 0 \<or> high > max_safe_integer \<or> tid \<notin> set (gs_tasks st) \<or> i \<in> ga_id ` set (gs_artifacts st) then Inl InsertRefused
         else if \<not> locator_ok (locator_of a) then Inl SchemaInvalid
         else Inr (st\<lparr>gs_artifacts := gs_artifacts st @ [a], gs_revision := high\<rparr>, locator_of a))"

definition exact_binding ::
  "goal_env \<Rightarrow> goal_store \<Rightarrow> string \<Rightarrow> goal_artifact_kind \<Rightarrow> locator option \<Rightarrow> goal_error + goal_artifact option" where
  "exact_binding env st tid k l =
     (case l of None \<Rightarrow> Inr None
      | Some m \<Rightarrow>
          if \<not> locator_ok m then Inl SchemaInvalid
          else rbind (artifact_by_locator env st tid m) (\<lambda>a.
            if payload_kind (ga_payload a) = k then Inr (Some a) else Inl (WrongArtifactKind k)))"

section \<open>Goal rows\<close>

text \<open>Everything that is no lower case letter or digit becomes a dash; one dash is cut off at each end.\<close>

definition slug_char :: "char \<Rightarrow> bool" where
  "slug_char c \<longleftrightarrow> c \<in> set ''abcdefghijklmnopqrstuvwxyz0123456789''"

fun dash_runs :: "bool \<Rightarrow> string \<Rightarrow> string" where
  "dash_runs inside [] = []"
| "dash_runs inside (c # cs) =
     (if slug_char c then c # dash_runs False cs else if inside then dash_runs True cs else CHR ''-'' # dash_runs True cs)"

fun drop_dash :: "string \<Rightarrow> string" where
  "drop_dash [] = []"
| "drop_dash (c # cs) = (if c = CHR ''-'' then cs else c # cs)"

definition goal_slug :: "goal_env \<Rightarrow> string \<Rightarrow> string" where
  "goal_slug env title =
     (let t = take 40 (rev (drop_dash (rev (drop_dash (dash_runs False (ge_lower env title))))))
      in if t = [] then ''goal'' else t)"

record goal_input =
  gi_id :: "string option"
  gi_title :: string
  gi_objective :: string
  gi_specs :: "acceptance_spec list"
  gi_paths :: "string list option"
  gi_kind :: "string option"
  gi_priority :: "goal_priority option"
  gi_source :: "string option"
  gi_metadata :: "(string \<times> json) list option"

definition default :: "'a \<Rightarrow> 'a option \<Rightarrow> 'a" where
  "default d x = (case x of None \<Rightarrow> d | Some a \<Rightarrow> a)"

definition next_order :: "goal_row list \<Rightarrow> int" where
  "next_order gs = fold (\<lambda>g m. max m (gr_order g)) gs (-1) + 1"

text \<open>\<open>{...a, ...b}\<close>.\<close>

definition spread :: "(string \<times> json) list \<Rightarrow> (string \<times> json) list \<Rightarrow> (string \<times> json) list" where
  "spread a b = map (\<lambda>(k, v). (k, default v (map_of (rev b) k))) a @ filter (\<lambda>(k, _). k \<notin> fst ` set a) b"

definition row_of_input ::
  "goal_env \<Rightarrow> string \<Rightarrow> string \<Rightarrow> locator option \<Rightarrow> locator option \<Rightarrow> string \<Rightarrow> goal_input \<Rightarrow> string option \<Rightarrow> int
   \<Rightarrow> (string \<times> json) list \<Rightarrow> int \<Rightarrow> goal_row" where
  "row_of_input env i tid requirement graph source inp supersede order metadata now =
     \<lparr>gr_id = i, gr_task = tid, gr_requirement = requirement, gr_graph = graph, gr_supersede = supersede,
      gr_title = gi_title inp, gr_slug = goal_slug env (gi_title inp), gr_objective = gi_objective inp,
      gr_specs = gi_specs inp, gr_paths = default [] (gi_paths inp), gr_kind = default ''feature'' (gi_kind inp),
      gr_priority = default Blocking (gi_priority inp), gr_source = default source (gi_source inp), gr_order = order,
      gr_metadata = metadata, gr_created = now\<rparr>"

section \<open>A command on one goal\<close>

record goal_update =
  gu_title :: "string option"
  gu_objective :: "string option"
  gu_specs :: "acceptance_spec list option"
  gu_paths :: "string list option"
  gu_priority :: "goal_priority option"
  gu_kind :: "string option"

datatype goal_mutation =
    AddMutation goal_input
  | ModifyMutation string goal_update
  | RemoveMutation string

fun operation_of :: "goal_mutation \<Rightarrow> goal_operation" where
  "operation_of (AddMutation _) = AddGoal"
| "operation_of (ModifyMutation _ _) = ModifyGoal"
| "operation_of (RemoveMutation _) = RemoveGoal"

record mutation_input =
  mi_task :: string
  mi_producer :: mutation_producer
  mi_mutation :: goal_mutation
  mi_now :: int

text \<open>The identities drawn: goals in order, the contract graph and the projection.\<close>

record goal_names =
  gn_goal :: "nat \<Rightarrow> string"
  gn_graph :: string
  gn_projection :: string

datatype mutation_result =
    MutationUnchanged string locator
  | MutationApplied string "string option" locator

definition author_text :: "mutation_author \<Rightarrow> string" where
  "author_text a = (case a of OperatorCommand \<Rightarrow> ''operator_command'' | OrchestratorDecision _ _ _ \<Rightarrow> ''orchestrator_decision'')"

record mutation_plan =
  pl_store :: goal_store
  pl_members :: "string list"
  pl_removals :: "removal list"
  pl_goal :: string
  pl_supersede :: "string option"
  pl_finding :: "finding_code \<times> string"

text \<open>The locators of requirement set and contract graph that new rows are bound to.\<close>

record goal_bindings =
  gb_requirement :: "locator option"
  gb_graph :: "locator option"

definition add_plan ::
  "goal_env \<Rightarrow> goal_names \<Rightarrow> goal_store \<Rightarrow> mutation_input \<Rightarrow> goal_bindings \<Rightarrow> string list \<Rightarrow> goal_input \<Rightarrow> goal_error + mutation_plan" where
  "add_plan env nm st inp b members g =
     (let goals = goals_of st (mi_task inp); i = default (gn_goal nm 0) (gi_id g)
      in if i \<in> gr_id ` set goals then Inl (GoalIdTaken i)
         else rbind (insert_goal st (row_of_input env i (mi_task inp) (gb_requirement b) (gb_graph b) ''system'' g None
                (next_order goals) (default [] (gi_metadata g)) (mi_now inp))) (\<lambda>st'.
           Inr \<lparr>pl_store = st', pl_members = members @ [i], pl_removals = [], pl_goal = i, pl_supersede = None,
                pl_finding = (NotReauthoredAfterAdd, ''Goal '' @ i @ '' was added by '' @ author_text (mp_author (mi_producer inp))
                  @ ''; the referenced Architect graph was not rewritten by this command.'')\<rparr>))"

definition update_changes :: "goal_update \<Rightarrow> goal_row \<Rightarrow> bool" where
  "update_changes u g \<longleftrightarrow>
     default (gr_title g) (gu_title u) \<noteq> gr_title g \<or> default (gr_objective g) (gu_objective u) \<noteq> gr_objective g
     \<or> default (gr_specs g) (gu_specs u) \<noteq> gr_specs g \<or> default (gr_paths g) (gu_paths u) \<noteq> gr_paths g
     \<or> default (gr_priority g) (gu_priority u) \<noteq> gr_priority g \<or> default (gr_kind g) (gu_kind u) \<noteq> gr_kind g"

definition revised_row :: "goal_env \<Rightarrow> string \<Rightarrow> goal_bindings \<Rightarrow> goal_row \<Rightarrow> goal_update \<Rightarrow> string \<Rightarrow> int \<Rightarrow> goal_row" where
  "revised_row env i b g u reason now =
     (let title = default (gr_title g) (gu_title u)
      in g\<lparr>gr_id := i, gr_title := title, gr_slug := (if title = gr_title g then gr_slug g else goal_slug env title),
           gr_objective := default (gr_objective g) (gu_objective u), gr_specs := default (gr_specs g) (gu_specs u),
           gr_paths := default (gr_paths g) (gu_paths u), gr_priority := default (gr_priority g) (gu_priority u),
           gr_kind := default (gr_kind g) (gu_kind u), gr_requirement := gb_requirement b, gr_graph := gb_graph b,
           gr_supersede := Some (gr_id g), gr_metadata := spread (gr_metadata g) [(''revision_reason'', JsonStr reason)],
           gr_created := now\<rparr>)"

fun replace_first :: "'a \<Rightarrow> 'a \<Rightarrow> 'a list \<Rightarrow> 'a list" where
  "replace_first old new [] = []"
| "replace_first old new (x # xs) = (if x = old then new # xs else x # replace_first old new xs)"

text \<open>The goal that a command names must be a member, and the one that its producer names.\<close>

definition mutation_target :: "goal_store \<Rightarrow> mutation_input \<Rightarrow> string list \<Rightarrow> string \<Rightarrow> goal_error + goal_row" where
  "mutation_target st inp members i =
     (if i \<notin> set members then Inl (NotCurrentMember i)
      else rbind (member_row (goals_of st (mi_task inp)) i) (\<lambda>g.
        case mp_target (mi_producer inp) of
          None \<Rightarrow> Inr g
        | Some t \<Rightarrow> if t = gr_id g then Inr g else Inl ProducerMismatch))"

definition modify_plan ::
  "goal_env \<Rightarrow> goal_names \<Rightarrow> goal_store \<Rightarrow> mutation_input \<Rightarrow> goal_bindings \<Rightarrow> string list \<Rightarrow> goal_row \<Rightarrow> goal_update
   \<Rightarrow> goal_error + mutation_plan" where
  "modify_plan env nm st inp b members g u =
     (let i = gn_goal nm 0
      in rbind (insert_goal st (revised_row env i b g u (mp_reason (mi_producer inp)) (mi_now inp))) (\<lambda>st'.
           Inr \<lparr>pl_store = st', pl_members = replace_first (gr_id g) i members, pl_removals = [], pl_goal = i,
                pl_supersede = Some (gr_id g),
                pl_finding = (NotReauthoredAfterModify, ''Goal '' @ gr_id g @ '' was revised as '' @ i @ '' by ''
                  @ author_text (mp_author (mi_producer inp)) @ ''; the referenced Architect graph remains immutable provenance.'')\<rparr>))"

definition remove_plan :: "goal_store \<Rightarrow> mutation_input \<Rightarrow> string list \<Rightarrow> goal_row \<Rightarrow> mutation_plan" where
  "remove_plan st inp members g =
     \<lparr>pl_store = st, pl_members = remove1 (gr_id g) members,
      pl_removals = [\<lparr>rm_goal = gr_id g, rm_reason = mp_reason (mi_producer inp)\<rparr>], pl_goal = gr_id g, pl_supersede = None,
      pl_finding = (ReferencesRemovedGoal, ''Goal '' @ gr_id g @ '' was removed by '' @ author_text (mp_author (mi_producer inp))
        @ ''; any references in the immutable Architect graph remain visible until Architect re-entry.'')\<rparr>"

text \<open>\<open>Inr None\<close> is a modification that changes nothing.\<close>

definition plan_mutation ::
  "goal_env \<Rightarrow> goal_names \<Rightarrow> goal_store \<Rightarrow> mutation_input \<Rightarrow> goal_bindings \<Rightarrow> string list \<Rightarrow> goal_error + mutation_plan option" where
  "plan_mutation env nm st inp b members =
     (case mi_mutation inp of
        AddMutation g \<Rightarrow> rbind (add_plan env nm st inp b members g) (\<lambda>p. Inr (Some p))
      | ModifyMutation i u \<Rightarrow>
          rbind (mutation_target st inp members i) (\<lambda>g.
            if update_changes u g then rbind (modify_plan env nm st inp b members g u) (\<lambda>p. Inr (Some p)) else Inr None)
      | RemoveMutation i \<Rightarrow> rbind (mutation_target st inp members i) (\<lambda>g. Inr (Some (remove_plan st inp members g))))"

definition no_provenance :: provenance where
  "no_provenance = \<lparr>pv_observed = [], pv_sources = []\<rparr>"

text \<open>The payload that makes a list of goals current.\<close>

definition executable_payload ::
  "provenance \<Rightarrow> goal_producer \<Rightarrow> locator option \<Rightarrow> locator option \<Rightarrow> string list \<Rightarrow> removal list \<Rightarrow> goal_contract list
   \<Rightarrow> (finding_code \<times> string) list \<Rightarrow> projection_payload" where
  "executable_payload pv producer prior graph members removals goals findings =
     \<lparr>pp_provenance = pv, pp_producer = producer, pp_prior = prior, pp_graph = graph,
      pp_projection = Some \<lparr>gp_members = members, gp_removals = removals\<rparr>, pp_goals = goals, pp_candidates = [],
      pp_candidate_removals = [], pp_findings = findings, pp_conflicts = [], pp_observed = None\<rparr>"

definition publish_plan ::
  "goal_env \<Rightarrow> goal_names \<Rightarrow> mutation_input \<Rightarrow> graph_fact option \<Rightarrow> mutation_plan \<Rightarrow> goal_error + goal_store \<times> locator" where
  "publish_plan env nm inp current plan =
     rbind (rtraverse (member_row (goals_of (pl_store plan) (mi_task inp))) (pl_members plan)) (\<lambda>rows.
     rbind (parse_projection (executable_payload no_provenance (MutationBy (mi_producer inp)) (map_option fact_locator current)
         (case current of None \<Rightarrow> None | Some f \<Rightarrow> pp_graph (gf_payload f)) (pl_members plan) (pl_removals plan)
         (map contract_of rows) [pl_finding plan])) (\<lambda>payload.
       insert_payload env (pl_store plan) (gn_projection nm) (mi_task inp) (ProjectionPayload payload)))"

definition current_bindings ::
  "goal_env \<Rightarrow> goal_store \<Rightarrow> string \<Rightarrow> graph_fact option \<Rightarrow> goal_error + goal_bindings" where
  "current_bindings env st tid current =
     rbind (exact_binding env st tid ContractGraphKind (case current of None \<Rightarrow> None | Some f \<Rightarrow> pp_graph (gf_payload f))) (\<lambda>graph.
     rbind (case graph of None \<Rightarrow> Inr None | Some a \<Rightarrow> rbind (parse_contract_graph env a) (\<lambda>g. Inr (cg_requirement g))) (\<lambda>requirement.
     rbind (exact_binding env st tid RequirementKind requirement) (\<lambda>row.
       Inr \<lparr>gb_requirement = map_option locator_of row, gb_graph = map_option locator_of graph\<rparr>)))"

definition apply_goal_mutation ::
  "goal_env \<Rightarrow> goal_names \<Rightarrow> goal_store \<Rightarrow> mutation_input \<Rightarrow> goal_error + goal_store \<times> mutation_result" where
  "apply_goal_mutation env nm st inp =
     (if mp_operation (mi_producer inp) \<noteq> operation_of (mi_mutation inp) then Inl ProducerMismatch
      else
        rbind (current_projection env st (mi_task inp)) (\<lambda>current.
        rbind (case current of None \<Rightarrow> Inr () | Some f \<Rightarrow> guard_else (locator_ok (fact_locator f)) SchemaInvalid) (\<lambda>_.
        rbind (rtraverse (member_row (goals_of st (mi_task inp))) (members_of current)) (\<lambda>_.
        rbind (current_bindings env st (mi_task inp) current) (\<lambda>b.
        rbind (plan_mutation env nm st inp b (members_of current)) (\<lambda>plan.
          case plan of
            None \<Rightarrow>
              (case (mi_mutation inp, current) of
                 (ModifyMutation i _, Some f) \<Rightarrow> Inr (st, MutationUnchanged i (fact_locator f))
               | (m, _) \<Rightarrow> Inl (NoCurrentProjection (case m of ModifyMutation i _ \<Rightarrow> i | _ \<Rightarrow> [])))
          | Some p \<Rightarrow>
              rbind (publish_plan env nm inp current p) (\<lambda>(st', l).
                Inr (st', MutationApplied (pl_goal p) (pl_supersede p) l))))))))"

end
