(* ===== verification/GoalArchitect.thy ===== *)
theory GoalArchitect
  imports GoalWrite
begin

text \<open>
  The goals of a completed Architect Turn (\<open>engine/persist.ts\<close>, \<open>architect/reference-integrity.ts\<close>):
  the partition of the prior goals into returned and removed ones, the signature that tells whether
  a returned goal has changed, and the publication, either as the current graph or as a candidate
  that could not be projected.
\<close>

record architect_input =
  ar_task :: string
  ar_producer :: "string \<times> string"
  ar_requirement :: "locator option"
  ar_prior :: "locator option"
  ar_provenance :: provenance
  ar_goals :: "(string \<times> goal_input) list"
  ar_removals :: "removal list"
  ar_graph :: contract_graph
  ar_fidelity :: fidelity
  ar_now :: int

section \<open>Reference integrity\<close>

definition audited_contracts :: "acceptance_spec list \<Rightarrow> string list" where
  "audited_contracts specs =
     concat (map (\<lambda>s. concat (map (\<lambda>r. case r of ContractAudit _ ids \<Rightarrow> ids | _ \<Rightarrow> []) (as_scorers s))) specs)"

definition required_ids :: "acceptance_spec list \<Rightarrow> string list" where
  "required_ids specs = concat (map (\<lambda>s. case as_source s of Some (k, i) \<Rightarrow> if k = ''requirement'' then [i] else [] | None \<Rightarrow> []) specs)"

text \<open>The first issue is thrown: unknown requirements, then contracts, then research evidence.\<close>

definition reference_issue :: "(string \<times> goal_input) list \<Rightarrow> contract_graph \<Rightarrow> string list \<Rightarrow> string list \<Rightarrow> string list" where
  "reference_issue goals graph requirements evidence =
     (let specs = concat (map (gi_specs \<circ> snd) goals);
          r = filter (\<lambda>i. i \<notin> set requirements) (required_ids specs);
          c = filter (\<lambda>i. i \<notin> ct_id ` set graph) (audited_contracts specs);
          e = filter (\<lambda>i. i \<notin> set evidence) (concat (map ct_evidence graph))
      in if r \<noteq> [] then r else if c \<noteq> [] then c else e)"

definition requirements_of :: "goal_artifact option \<Rightarrow> string list" where
  "requirements_of a = (case a of None \<Rightarrow> [] | Some x \<Rightarrow> (case ga_payload x of RequirementPayload ids _ \<Rightarrow> ids | _ \<Rightarrow> []))"

section \<open>The signature of a goal\<close>

definition normal_graph ::
  "goal_env \<Rightarrow> contract_graph \<Rightarrow> (string \<Rightarrow> goal_error + string) \<Rightarrow> goal_error + contract_graph" where
  "normal_graph env g f =
     rbind (remap_graph f g) (\<lambda>m. Inr (sort_by (\<lambda>a b. ge_locale env (ct_id a) (ct_id b))
       (map (\<lambda>c. c\<lparr>ct_consumers := sort_by text_cmp (ct_consumers c), ct_paths := sort_by text_cmp (ct_paths c),
                  ct_evidence := sort_by text_cmp (ct_evidence c)\<rparr>) m)))"

definition graph_slice :: "contract_graph \<Rightarrow> string \<Rightarrow> string list \<Rightarrow> contract_graph" where
  "graph_slice g slice ids = filter (\<lambda>c. ct_producer c = slice \<or> slice \<in> set (ct_consumers c) \<or> ct_id c \<in> set ids) g"

definition map_fidelity :: "(string \<Rightarrow> goal_error + string) \<Rightarrow> fidelity \<Rightarrow> goal_error + fidelity" where
  "map_fidelity f d =
     rbind (rtraverse (\<lambda>r. rbind (rtraverse f (fs_goals r)) (\<lambda>gs. Inr (r\<lparr>fs_goals := gs\<rparr>))) (fd_source d)) (\<lambda>ss.
     rbind (rtraverse (\<lambda>r. rbind (rtraverse f (fr_goals r)) (\<lambda>gs. Inr (r\<lparr>fr_goals := gs\<rparr>))) (fd_reference d)) (\<lambda>rs.
     rbind (rtraverse (\<lambda>r. rbind (f (fo_goal r)) (\<lambda>g. Inr (r\<lparr>fo_goal := g\<rparr>))) (fd_owners d)) (\<lambda>os.
       Inr \<lparr>fd_source = ss, fd_reference = rs, fd_owners = os\<rparr>)))"

definition fidelity_slice ::
  "goal_env \<Rightarrow> fidelity \<Rightarrow> string \<Rightarrow> (string \<Rightarrow> goal_error + string) \<Rightarrow> goal_error + fidelity" where
  "fidelity_slice env d i f =
     rbind (f i) (\<lambda>g. rbind (map_fidelity f d) (\<lambda>m. Inr
       \<lparr>fd_source = sort_by (\<lambda>a b. ge_locale env (fs_id a) (fs_id b))
          (map (\<lambda>r. r\<lparr>fs_paths := sort_by text_cmp (fs_paths r), fs_goals := sort_by text_cmp (fs_goals r)\<rparr>)
            (filter (\<lambda>r. g \<in> set (fs_goals r)) (fd_source m))),
        fd_reference = sort_by (\<lambda>a b. ge_locale env (fr_id a) (fr_id b))
          (map (\<lambda>r. r\<lparr>fr_goals := sort_by text_cmp (fr_goals r), fr_specs := sort_by text_cmp (fr_specs r),
                     fr_regions := sort_by (\<lambda>a b. ge_locale env (fst a) (fst b)) (fr_regions r)\<rparr>)
            (filter (\<lambda>r. g \<in> set (fr_goals r)) (fd_reference m))),
        fd_owners = sort_by (\<lambda>a b. ge_locale env (fo_surface a) (fo_surface b))
          (filter (\<lambda>r. fo_goal r = g) (fd_owners m))\<rparr>))"

text \<open>The code compares two JSON texts with sorted keys, which are equal when the values are.\<close>

record goal_signature =
  sg_requirement :: "locator option"
  sg_title :: string
  sg_objective :: string
  sg_specs :: "acceptance_spec list"
  sg_paths :: "string list"
  sg_kind :: string
  sg_priority :: goal_priority
  sg_source :: string
  sg_contracts :: contract_graph
  sg_fidelity :: fidelity

definition sort_specs :: "goal_env \<Rightarrow> acceptance_spec list \<Rightarrow> acceptance_spec list" where
  "sort_specs env ss = sort_by (\<lambda>a b. ge_locale env (as_id a) (as_id b)) ss"

definition row_signature :: "goal_env \<Rightarrow> goal_row \<Rightarrow> contract_graph \<Rightarrow> fidelity \<Rightarrow> goal_signature" where
  "row_signature env g contracts fid =
     \<lparr>sg_requirement = gr_requirement g, sg_title = gr_title g, sg_objective = gr_objective g,
      sg_specs = sort_specs env (gr_specs g), sg_paths = sort_by text_cmp (gr_paths g), sg_kind = gr_kind g,
      sg_priority = gr_priority g, sg_source = gr_source g, sg_contracts = contracts, sg_fidelity = fid\<rparr>"

definition input_signature :: "goal_env \<Rightarrow> locator option \<Rightarrow> goal_input \<Rightarrow> contract_graph \<Rightarrow> fidelity \<Rightarrow> goal_signature" where
  "input_signature env requirement g contracts fid =
     \<lparr>sg_requirement = requirement, sg_title = gi_title g, sg_objective = gi_objective g,
      sg_specs = sort_specs env (gi_specs g), sg_paths = sort_by text_cmp (default [] (gi_paths g)),
      sg_kind = default ''feature'' (gi_kind g), sg_priority = default Blocking (gi_priority g),
      sg_source = default ''spec'' (gi_source g), sg_contracts = contracts, sg_fidelity = fid\<rparr>"

section \<open>What is compared with what\<close>

text \<open>
  \<open>ac_goals\<close> are all goals of the Task, \<open>ac_current\<close> the members, \<open>ac_prior\<close> the prior contract graph
  and \<open>ac_requirement\<close> the requirement set of the new goals.
\<close>

record architect_context =
  ac_goals :: "goal_row list"
  ac_members :: "string list"
  ac_prior :: "graph_payload option"
  ac_requirement :: "locator option"

definition current_row :: "architect_context \<Rightarrow> string \<Rightarrow> goal_row option" where
  "current_row c i = (if i \<in> set (ac_members c) then lookup_by gr_id (ac_goals c) i else None)"

definition logical_id :: "architect_context \<Rightarrow> (string \<times> goal_input) list \<Rightarrow> string \<Rightarrow> goal_error + string" where
  "logical_id c goals i =
     (if i \<notin> fst ` set goals then Inl (UnknownGraphGoal i)
      else case current_row c i of None \<Rightarrow> Inr i | Some g \<Rightarrow> lineage_root (ac_goals c) g)"

definition prior_logical_id :: "architect_context \<Rightarrow> string \<Rightarrow> goal_error + string" where
  "prior_logical_id c i = rbind (member_row (ac_goals c) i) (lineage_root (ac_goals c))"

definition prior_graph_of :: "architect_context \<Rightarrow> contract_graph" where
  "prior_graph_of c = (case ac_prior c of None \<Rightarrow> [] | Some p \<Rightarrow> cg_graph p)"

definition prior_fidelity_of :: "architect_context \<Rightarrow> fidelity" where
  "prior_fidelity_of c = (case ac_prior c of None \<Rightarrow> empty_fidelity | Some p \<Rightarrow> cg_fidelity p)"

definition prior_signature ::
  "goal_env \<Rightarrow> architect_context \<Rightarrow> contract_graph \<Rightarrow> goal_row \<Rightarrow> goal_error + goal_signature" where
  "prior_signature env c graph g =
     rbind (lineage_root (ac_goals c) g) (\<lambda>slice.
     rbind (fidelity_slice env (prior_fidelity_of c) (gr_id g) (prior_logical_id c)) (\<lambda>fid.
       Inr (row_signature env g (graph_slice graph slice (audited_contracts (gr_specs g))) fid)))"

definition next_signature ::
  "goal_env \<Rightarrow> architect_context \<Rightarrow> architect_input \<Rightarrow> contract_graph \<Rightarrow> string \<times> goal_input \<Rightarrow> goal_row \<Rightarrow> goal_error + goal_signature" where
  "next_signature env c inp graph ag g =
     rbind (lineage_root (ac_goals c) g) (\<lambda>slice.
     rbind (fidelity_slice env (ar_fidelity inp) (fst ag) (logical_id c (ar_goals inp))) (\<lambda>fid.
       Inr (input_signature env (ac_requirement c) (snd ag) (graph_slice graph slice (audited_contracts (gi_specs (snd ag)))) fid)))"

text \<open>
  The identities of the returned goals that are current: the same for an unchanged one, a fresh one
  otherwise. An assignment maps the alias of a goal to its identity; \<open>n\<close> counts the identities drawn.
\<close>

record assignment =
  as_ids :: "(string \<times> string) list"
  as_changed :: "string list"
  as_drawn :: nat

fun assign_current ::
  "goal_env \<Rightarrow> goal_names \<Rightarrow> architect_context \<Rightarrow> architect_input \<Rightarrow> contract_graph \<times> contract_graph
   \<Rightarrow> (string \<times> goal_input) list \<Rightarrow> assignment \<Rightarrow> goal_error + assignment" where
  "assign_current env nm c inp graphs [] a = Inr a"
| "assign_current env nm c inp graphs (ag # ags) a =
     (case current_row c (fst ag) of
        None \<Rightarrow> assign_current env nm c inp graphs ags a
      | Some g \<Rightarrow>
          rbind (prior_signature env c (fst graphs) g) (\<lambda>p.
          rbind (next_signature env c inp (snd graphs) ag g) (\<lambda>q.
            assign_current env nm c inp graphs ags
              (if p = q then a\<lparr>as_ids := as_ids a @ [(fst ag, gr_id g)]\<rparr>
               else a\<lparr>as_ids := as_ids a @ [(fst ag, gn_goal nm (as_drawn a))], as_changed := as_changed a @ [fst ag],
                      as_drawn := Suc (as_drawn a)\<rparr>))))"

fun assign_new ::
  "goal_names \<Rightarrow> architect_context \<Rightarrow> (string \<times> goal_input) list \<Rightarrow> assignment \<Rightarrow> goal_error + assignment" where
  "assign_new nm c [] a = Inr a"
| "assign_new nm c (ag # ags) a =
     (if fst ag \<in> fst ` set (as_ids a) then assign_new nm c ags a
      else case gi_id (snd ag) of
          Some i \<Rightarrow>
            if i \<in> gr_id ` set (ac_goals c) \<or> i \<in> snd ` set (as_ids a) then Inl (GoalIdTaken i)
            else assign_new nm c ags (a\<lparr>as_ids := as_ids a @ [(fst ag, i)]\<rparr>)
        | None \<Rightarrow>
            (let i = gn_goal nm (as_drawn a)
             in if i \<in> gr_id ` set (ac_goals c) \<or> i \<in> snd ` set (as_ids a) then Inl (GoalIdTaken i)
                else assign_new nm c ags (a\<lparr>as_ids := as_ids a @ [(fst ag, i)], as_drawn := Suc (as_drawn a)\<rparr>)))"

definition assigned :: "assignment \<Rightarrow> string \<Rightarrow> goal_error + string" where
  "assigned a i = (case map_of (as_ids a) i of None \<Rightarrow> Inl (UnknownGraphGoal i) | Some d \<Rightarrow> Inr d)"

section \<open>Publication\<close>

text \<open>The checks on the goals and removals of the Turn against the current members.\<close>

definition check_partition :: "goal_row list \<Rightarrow> string list \<Rightarrow> (string \<times> goal_input) list \<Rightarrow> removal list \<Rightarrow> goal_error + unit" where
  "check_partition goals members ags removals =
     (let aliases = map fst ags; removed = map rm_goal removals;
          unknown = filter (\<lambda>i. i \<notin> set members) removed;
          both = filter (\<lambda>i. i \<in> set members \<and> i \<in> set removed) aliases;
          omitted = filter (\<lambda>i. i \<notin> set aliases \<and> i \<notin> set removed) members;
          historical = filter (\<lambda>i. i \<in> gr_id ` set goals \<and> i \<notin> set members) aliases
      in if unknown \<noteq> [] then Inl (RemovesUnknown unknown)
         else if both \<noteq> [] then Inl (ReturnsAndRemoves both)
         else if omitted \<noteq> [] then Inl (OmitsPrior omitted)
         else if historical \<noteq> [] then Inl (HistoricalAlias historical)
         else Inr ())"

definition check_paths :: "goal_env \<Rightarrow> (string \<times> goal_input) list \<Rightarrow> goal_error + unit" where
  "check_paths env ags =
     (case find (\<lambda>ag. list_ex (ge_internal env) (default [] (gi_paths (snd ag)))) ags of
        None \<Rightarrow> Inr () | Some ag \<Rightarrow> Inl (InternalPaths (fst ag)))"

text \<open>A prior that the Turn selected must be executable, and for a publication the current one.\<close>

definition selected_prior :: "goal_env \<Rightarrow> goal_store \<Rightarrow> string \<Rightarrow> locator option \<Rightarrow> goal_error + graph_fact option" where
  "selected_prior env st tid l =
     rbind (exact_binding env st tid ProjectionKind l) (\<lambda>row.
       case row of None \<Rightarrow> Inr None
       | Some a \<Rightarrow> rbind (parse_fact env a) (\<lambda>f.
           if pp_projection (gf_payload f) = None then Inl (NonExecutablePrior (gf_id f)) else Inr (Some f)))"

definition same_fact :: "graph_fact option \<Rightarrow> graph_fact option \<Rightarrow> bool" where
  "same_fact current selected =
     (case (current, selected) of
        (None, None) \<Rightarrow> True
      | (Some f, Some g) \<Rightarrow> gf_id f = gf_id g \<and> gf_sha f = gf_sha g
      | _ \<Rightarrow> False)"

definition prior_contract_graph ::
  "goal_env \<Rightarrow> goal_store \<Rightarrow> string \<Rightarrow> graph_fact option \<Rightarrow> goal_error + goal_artifact option" where
  "prior_contract_graph env st tid prior =
     exact_binding env st tid ContractGraphKind (case prior of None \<Rightarrow> None | Some f \<Rightarrow> pp_graph (gf_payload f))"

definition parse_optional_graph :: "goal_env \<Rightarrow> goal_artifact option \<Rightarrow> goal_error + graph_payload option" where
  "parse_optional_graph env a = (case a of None \<Rightarrow> Inr None | Some x \<Rightarrow> rbind (parse_contract_graph env x) (\<lambda>g. Inr (Some g)))"

definition insert_graph ::
  "goal_env \<Rightarrow> goal_names \<Rightarrow> goal_store \<Rightarrow> architect_input \<Rightarrow> locator option \<Rightarrow> locator option \<Rightarrow> contract_graph \<Rightarrow> fidelity
   \<Rightarrow> goal_error + goal_store \<times> locator" where
  "insert_graph env nm st inp requirement prior graph fid =
     rbind (parse_graph_payload \<lparr>cg_provenance = ar_provenance inp, cg_producer = ar_producer inp, cg_requirement = requirement,
         cg_prior = prior, cg_graph = graph, cg_fidelity = fid\<rparr>) (\<lambda>payload.
       insert_payload env st (gn_graph nm) (ar_task inp) (ContractGraphPayload payload))"

definition goal_contract_for :: "goal_row list \<Rightarrow> string \<Rightarrow> goal_input \<Rightarrow> goal_contract" where
  "goal_contract_for goals i g =
     (case lookup_by gr_id goals i of
        Some row \<Rightarrow> contract_of row
      | None \<Rightarrow> \<lparr>gc_id = i, gc_title = gi_title g, gc_objective = gi_objective g, gc_specs = gi_specs g,
                 gc_paths = default [] (gi_paths g), gc_priority = default Blocking (gi_priority g),
                 gc_kind = default ''feature'' (gi_kind g), gc_source = default ''spec'' (gi_source g)\<rparr>)"

text \<open>The rows of the changed and new goals, in the order of the Turn.\<close>

fun insert_rows ::
  "goal_env \<Rightarrow> architect_context \<Rightarrow> architect_input \<Rightarrow> locator \<Rightarrow> string list \<Rightarrow> goal_store \<Rightarrow> int \<Rightarrow> ((string \<times> goal_input) \<times> string) list
   \<Rightarrow> goal_error + goal_store" where
  "insert_rows env c inp graph changed st order [] = Inr st"
| "insert_rows env c inp graph changed st order ((ag, i) # rest) =
     (let existing = current_row c (fst ag);
          ord = (case existing of None \<Rightarrow> order | Some g \<Rightarrow> gr_order g);
          metadata = spread (case existing of None \<Rightarrow> [] | Some g \<Rightarrow> gr_metadata g) (default [] (gi_metadata (snd ag)))
      in if map_option gr_id existing = Some i then insert_rows env c inp graph changed st order rest
         else rbind (insert_goal st (row_of_input env i (ar_task inp) (ac_requirement c) (Some graph) ''spec'' (snd ag)
                (if fst ag \<in> set changed then Some (fst ag) else None) ord metadata (ar_now inp))) (\<lambda>st'.
           insert_rows env c inp graph changed st' (if existing = None then order + 1 else order) rest))"

text \<open>From the context of the comparison to the identities of the goals.\<close>

definition assign_goals ::
  "goal_env \<Rightarrow> goal_names \<Rightarrow> architect_context \<Rightarrow> architect_input \<Rightarrow> goal_error + assignment" where
  "assign_goals env nm c inp =
     rbind (rtraverse (logical_id c (ar_goals inp)) (map fst (ar_goals inp))) (\<lambda>_.
     rbind (normal_graph env (prior_graph_of c) (prior_logical_id c)) (\<lambda>before.
     rbind (normal_graph env (ar_graph inp) (logical_id c (ar_goals inp))) (\<lambda>after.
     rbind (assign_current env nm c inp (before, after) (ar_goals inp) \<lparr>as_ids = [], as_changed = [], as_drawn = 0\<rparr>) (\<lambda>a.
       assign_new nm c (ar_goals inp) a))))"

definition publish_goals ::
  "goal_env \<Rightarrow> goal_names \<Rightarrow> goal_store \<Rightarrow> architect_input \<Rightarrow> architect_context \<Rightarrow> removal list \<Rightarrow> locator option \<Rightarrow> locator option
   \<Rightarrow> assignment \<Rightarrow> goal_error + goal_store \<times> locator" where
  "publish_goals env nm st inp c removals prior prior_graph a =
     rbind (remap_graph (assigned a) (ar_graph inp)) (\<lambda>graph.
     rbind (rtraverse (assigned a) (map fst (ar_goals inp))) (\<lambda>ids.
     rbind (map_fidelity (assigned a) (ar_fidelity inp)) (\<lambda>fid.
     rbind (insert_graph env nm st inp (ac_requirement c) prior_graph graph fid) (\<lambda>(st1, gl).
     rbind (parse_projection (executable_payload (ar_provenance inp) (ArchitectTurn (fst (ar_producer inp)) (snd (ar_producer inp)))
         prior (Some gl) ids removals (map (\<lambda>(ag, i). goal_contract_for (ac_goals c) i (snd ag)) (zip (ar_goals inp) ids)) [])) (\<lambda>payload.
     rbind (insert_payload env st1 (gn_projection nm) (ar_task inp) (ProjectionPayload payload)) (\<lambda>(st2, pl).
     rbind (insert_rows env c inp gl (as_changed a) st2 (next_order (ac_goals c)) (zip (ar_goals inp) ids)) (\<lambda>st3.
       case filter (\<lambda>i. i \<notin> gr_id ` set (goals_of st3 (ar_task inp))) ids of
         [] \<Rightarrow> Inr (st3, pl)
       | i # _ \<Rightarrow> Inl (MissingGoal i))))))))"

definition persist_architect ::
  "goal_env \<Rightarrow> goal_names \<Rightarrow> goal_store \<Rightarrow> architect_input \<Rightarrow> goal_error + goal_store \<times> locator" where
  "persist_architect env nm st inp =
     (let tid = ar_task inp; goals = goals_of st tid
      in rbind (guard_else (graph_ok (ar_graph inp)) SchemaInvalid) (\<lambda>_.
         rbind (rtraverse parse_removal (ar_removals inp)) (\<lambda>removals.
         rbind (guard_else (distinct (map fst (ar_goals inp))) DuplicateGoals) (\<lambda>_.
         rbind (guard_else (distinct (map rm_goal removals)) DuplicateRemovals) (\<lambda>_.
         rbind (exact_binding env st tid RequirementKind (ar_requirement inp)) (\<lambda>requirement.
         rbind (case reference_issue (ar_goals inp) (ar_graph inp) (requirements_of requirement)
                    (ge_evidence env st tid (pv_sources (ar_provenance inp))) of
                  [] \<Rightarrow> Inr () | unknown \<Rightarrow> Inl (ReferenceIntegrity unknown)) (\<lambda>_.
         rbind (selected_prior env st tid (ar_prior inp)) (\<lambda>selected.
         rbind (current_projection env st tid) (\<lambda>current.
         rbind (guard_else (same_fact current selected) StalePrior) (\<lambda>_.
         rbind (prior_contract_graph env st tid selected) (\<lambda>prior_graph.
         rbind (parse_optional_graph env prior_graph) (\<lambda>prior_payload.
         rbind (rtraverse (member_row goals) (members_of current)) (\<lambda>_.
         rbind (check_partition goals (members_of current) (ar_goals inp) removals) (\<lambda>_.
         rbind (check_paths env (ar_goals inp)) (\<lambda>_.
           let c = \<lparr>ac_goals = goals, ac_members = members_of current, ac_prior = prior_payload,
                    ac_requirement = map_option locator_of requirement\<rparr>
           in rbind (assign_goals env nm c inp) (\<lambda>a.
                publish_goals env nm st inp c removals (map_option fact_locator selected) (map_option locator_of prior_graph) a))))))))))))))))"

section \<open>A candidate\<close>

definition candidate_payload ::
  "architect_input \<Rightarrow> locator option \<Rightarrow> locator \<Rightarrow> (conflict_code \<times> string) list \<Rightarrow> locator option \<Rightarrow> projection_payload" where
  "candidate_payload inp prior graph conflicts observed =
     \<lparr>pp_provenance = ar_provenance inp, pp_producer = ArchitectTurn (fst (ar_producer inp)) (snd (ar_producer inp)),
      pp_prior = prior, pp_graph = Some graph, pp_projection = None, pp_goals = [],
      pp_candidates = map (\<lambda>(i, g). goal_contract_for [] i g) (ar_goals inp),
      pp_candidate_removals = ar_removals inp, pp_findings = [], pp_conflicts = conflicts, pp_observed = observed\<rparr>"

definition fact_text :: "string \<Rightarrow> graph_fact option \<Rightarrow> string" where
  "fact_text none f = (case f of None \<Rightarrow> none | Some g \<Rightarrow> gf_id g)"

definition stale_conflict :: "graph_fact option \<Rightarrow> graph_fact option \<Rightarrow> conflict_code \<times> string" where
  "stale_conflict current selected = (StalePriorProjection, ''Completed Architect turn selected ''
     @ fact_text ''no prior projection'' selected @ '' while the observed current GoalGraph projection is ''
     @ fact_text ''absent'' current @ ''.'')"

definition persist_candidate ::
  "goal_env \<Rightarrow> goal_names \<Rightarrow> goal_store \<Rightarrow> architect_input \<Rightarrow> (conflict_code \<times> string) list \<Rightarrow> goal_error + goal_store \<times> locator" where
  "persist_candidate env nm st inp given =
     (let tid = ar_task inp
      in rbind (exact_binding env st tid RequirementKind (ar_requirement inp)) (\<lambda>requirement.
         rbind (guard_else (graph_ok (ar_graph inp)) SchemaInvalid) (\<lambda>_.
         rbind (selected_prior env st tid (ar_prior inp)) (\<lambda>selected.
         rbind (prior_contract_graph env st tid selected) (\<lambda>prior_graph.
         rbind (current_projection env st tid) (\<lambda>current.
         rbind (case current of None \<Rightarrow> Inr () | Some f \<Rightarrow> guard_else (locator_ok (fact_locator f)) SchemaInvalid) (\<lambda>_.
           let conflicts = (if same_fact current selected then given else given @ [stale_conflict current selected])
           in rbind (guard_else (conflicts \<noteq> []) NoConflict) (\<lambda>_.
              rbind (insert_graph env nm st inp (map_option locator_of requirement) (map_option locator_of prior_graph)
                  (ar_graph inp) (ar_fidelity inp)) (\<lambda>(st1, gl).
              rbind (parse_projection (candidate_payload inp (map_option fact_locator selected) gl conflicts
                  (map_option fact_locator current))) (\<lambda>payload.
                insert_payload env st1 (gn_projection nm) tid (ProjectionPayload payload)))))))))))"

end
