(* ===== verification/GoalLineage.thy ===== *)
theory GoalLineage
  imports GoalArchitect "HOL-Library.Multiset"
begin

text \<open>
  What following links returns, and the lineage of projections: there is a tip exactly when the
  executable projections form one chain, each consuming the one before.
\<close>

section \<open>Paths\<close>

fun path_from :: "('a \<Rightarrow> 'k) \<Rightarrow> ('a \<Rightarrow> 'k option) \<Rightarrow> 'a list \<Rightarrow> 'a \<Rightarrow> 'a list \<Rightarrow> bool" where
  "path_from key link m x [] \<longleftrightarrow> False"
| "path_from key link m x (z # p) \<longleftrightarrow> z = x \<and>
     (case link x of None \<Rightarrow> p = []
      | Some k \<Rightarrow> (case lookup_by key m k of None \<Rightarrow> False | Some y \<Rightarrow> path_from key link m y p))"

lemma chase_Inr_iff:
  "chase key link m v x = Inr p \<longleftrightarrow> path_from key link m x p \<and> distinct (map key p) \<and> set (map key p) \<inter> set v = {}"
proof (induction key link m v x arbitrary: p rule: chase.induct)
  case (1 key link m v x)
  note simps = chase.simps [of key link m v x]
  show ?case
  proof (cases p)
    case Nil
    then show ?thesis by (auto simp: simps rbind_Inr_iff split: option.splits)
  next
    case (Cons z q)
    show ?thesis
    proof (cases "key x \<in> set v")
      case True
      then show ?thesis by (auto simp: simps Cons)
    next
      case new: False
      show ?thesis
      proof (cases "link x")
        case None
        then show ?thesis using new by (auto simp: simps Cons)
      next
        case link: (Some k)
        show ?thesis
        proof (cases "lookup_by key m k")
          case None
          then show ?thesis using new link by (simp add: simps Cons)
        next
          case (Some y)
          from "1.IH" [OF new link Some, of q] new link Some show ?thesis by (auto simp: simps Cons rbind_Inr_iff)
        qed
      qed
    qed
  qed
qed

lemma path_from_ends: "path_from key link m x p \<Longrightarrow> p \<noteq> [] \<and> hd p = x \<and> link (last p) = None"
proof (induction p arbitrary: x)
  case (Cons z p)
  show ?case
  proof (cases "link x")
    case None
    then show ?thesis using Cons.prems by simp
  next
    case (Some k)
    then obtain y where "path_from key link m y p" using Cons.prems by (auto split: option.splits)
    from Cons.IH [OF this] show ?thesis using Cons.prems by simp
  qed
qed simp

lemma path_from_subset: "path_from key link m x p \<Longrightarrow> x \<in> set m \<Longrightarrow> set p \<subseteq> set m"
proof (induction p arbitrary: x)
  case (Cons z p)
  show ?case
  proof (cases "link x")
    case None
    then show ?thesis using Cons.prems by simp
  next
    case (Some k)
    then obtain y where y: "lookup_by key m k = Some y" "path_from key link m y p" using Cons.prems by (auto split: option.splits)
    from Cons.IH [OF y(2)] lookup_by_mem [OF y(1)] show ?thesis using Cons.prems by simp
  qed
qed simp

lemma lookup_by_append: "distinct (map key (m @ zs)) \<Longrightarrow> lookup_by key m k = Some y \<Longrightarrow> lookup_by key (m @ zs) k = Some y"
  using lookup_by_mem [of key m k y] lookup_by_distinct [of key "m @ zs" y] by auto

lemma path_from_append: "distinct (map key (m @ zs)) \<Longrightarrow> path_from key link m x p \<Longrightarrow> path_from key link (m @ zs) x p"
proof (induction p arbitrary: x)
  case (Cons z p)
  show ?case
  proof (cases "link x")
    case None
    then show ?thesis using Cons.prems by simp
  next
    case (Some k)
    then obtain y where y: "lookup_by key m k = Some y" "path_from key link m y p"
      using Cons.prems(2) by (auto split: option.splits)
    then show ?thesis using Cons.IH [OF Cons.prems(1) y(2)] lookup_by_append [OF Cons.prems(1) y(1)] Some Cons.prems(2) by simp
  qed
qed simp

text \<open>More rows do not change what a chase has found.\<close>

lemma chase_append: "distinct (map key (m @ zs)) \<Longrightarrow> chase key link m v x = Inr p \<Longrightarrow> chase key link (m @ zs) v x = Inr p"
  unfolding chase_Inr_iff by (intro conjI path_from_append) simp_all

text \<open>In an append-only table each row links to an earlier one, so a chase always ends at a root.\<close>

definition backlinked :: "('a \<Rightarrow> 'k) \<Rightarrow> ('a \<Rightarrow> 'k option) \<Rightarrow> 'a list \<Rightarrow> bool" where
  "backlinked key link m \<longleftrightarrow> distinct (map key m)
     \<and> (\<forall>i < length m. \<forall>k. link (m ! i) = Some k \<longrightarrow> (\<exists>j < i. key (m ! j) = k))"

lemma backlinked_Nil [simp]: "backlinked key link []"
  by (simp add: backlinked_def)

lemma backlinked_snoc:
  "backlinked key link m \<Longrightarrow> key x \<notin> key ` set m \<Longrightarrow> (\<And>k. link x = Some k \<Longrightarrow> k \<in> key ` set m) \<Longrightarrow> backlinked key link (m @ [x])"
proof -
  assume b: "backlinked key link m" and new: "key x \<notin> key ` set m" and old: "\<And>k. link x = Some k \<Longrightarrow> k \<in> key ` set m"
  have "\<exists>j < i. key ((m @ [x]) ! j) = k" if "i < length (m @ [x])" "link ((m @ [x]) ! i) = Some k" for i k
  proof (cases "i < length m")
    case True
    with b that obtain j where "j < i" "key (m ! j) = k" by (auto simp: backlinked_def nth_append)
    then show ?thesis using True by (intro exI [of _ j]) (simp add: nth_append)
  next
    case False
    with that have "link x = Some k" "i = length m" by (simp_all add: nth_append)
    with old obtain j where "j < length m" "key (m ! j) = k" by (auto simp: in_set_conv_nth)
    then show ?thesis using \<open>i = length m\<close> by (intro exI [of _ j]) (simp add: nth_append)
  qed
  with b new show ?thesis by (auto simp: backlinked_def)
qed

lemma backlinked_path:
  assumes "backlinked key link m" and "i < length m"
  shows "\<exists>p. path_from key link m (m ! i) p \<and> distinct (map key p) \<and> set p \<subseteq> set (take (Suc i) m)"
  using assms(2)
proof (induction i rule: less_induct)
  case (less i)
  have d: "distinct (map key m)" using assms(1) by (simp add: backlinked_def)
  have here: "m ! i \<in> set (take (Suc i) m)" using less.prems by (simp add: take_Suc_conv_app_nth)
  show ?case
  proof (cases "link (m ! i)")
    case None
    then show ?thesis using here by (intro exI [of _ "[m ! i]"]) simp
  next
    case (Some k)
    then obtain j where j: "j < i" "key (m ! j) = k" using assms(1) less.prems by (auto simp: backlinked_def)
    then have "j < length m" using less.prems by simp
    then have look: "lookup_by key m k = Some (m ! j)" using lookup_by_distinct [OF d, of "m ! j"] j(2) by simp
    obtain p where p: "path_from key link m (m ! j) p" "distinct (map key p)" "set p \<subseteq> set (take (Suc j) m)"
      using less.IH [OF j(1) \<open>j < length m\<close>] by blast
    have sub: "set (take (Suc j) m) \<subseteq> set (take i m)" using j(1) by (intro set_take_subset_set_take) simp
    have "key (m ! i) \<notin> key ` set (take i m)"
    proof
      assume "key (m ! i) \<in> key ` set (take i m)"
      then obtain l where l: "l < i" "l < length m" "key (m ! i) = key (m ! l)" by (auto simp: in_set_conv_nth)
      with d less.prems nth_eq_iff_index_eq [of "map key m" i l] show False by simp
    qed
    then have "key (m ! i) \<notin> key ` set p" using p(3) sub by blast
    then show ?thesis using p Some look here sub
      by (intro exI [of _ "m ! i # p"]) (auto simp: take_Suc_conv_app_nth less.prems)
  qed
qed

lemma backlinked_chase:
  assumes "backlinked key link m" and "x \<in> set m"
  obtains p where "chase key link m [] x = Inr p" and "p \<noteq> []" and "hd p = x" and "set p \<subseteq> set m" and "link (last p) = None"
proof -
  from assms(2) obtain i where i: "i < length m" "m ! i = x" by (auto simp: in_set_conv_nth)
  obtain p where p: "path_from key link m x p" "distinct (map key p)" "set p \<subseteq> set (take (Suc i) m)"
    using backlinked_path [OF assms(1) i(1)] i(2) by auto
  show ?thesis
  proof (rule that)
    show "chase key link m [] x = Inr p" using p by (simp add: chase_Inr_iff)
    show "set p \<subseteq> set m" using p(3) set_take_subset [of "Suc i" m] by (rule order_trans)
    show "p \<noteq> []" and "hd p = x" and "link (last p) = None" using path_from_ends [OF p(1)] by simp_all
  qed
qed

section \<open>Chains of projections\<close>

definition consumes :: "graph_fact \<Rightarrow> graph_fact option \<Rightarrow> bool" where
  "consumes f prev \<longleftrightarrow>
     (case (pp_prior (gf_payload f), prev) of
        (None, None) \<Rightarrow> True
      | (Some l, Some p) \<Rightarrow> loc_artifact l = gf_id p \<and> loc_sha l = gf_sha p
      | _ \<Rightarrow> False)"

fun chained :: "graph_fact option \<Rightarrow> graph_fact list \<Rightarrow> bool" where
  "chained prev [] \<longleftrightarrow> True"
| "chained prev (f # fs) \<longleftrightarrow> consumes f prev \<and> chained (Some f) fs"

definition last_fact :: "graph_fact option \<Rightarrow> graph_fact list \<Rightarrow> graph_fact option" where
  "last_fact prev fs = (if fs = [] then prev else Some (last fs))"

lemma last_fact_simps [simp]:
  "last_fact prev [] = prev"
  "last_fact prev (f # fs) = last_fact (Some f) fs"
  "last_fact prev (fs @ [f]) = Some f"
  by (simp_all add: last_fact_def)

lemma chained_snoc: "chained prev (fs @ [f]) \<longleftrightarrow> chained prev fs \<and> consumes f (last_fact prev fs)"
  by (induction fs arbitrary: prev) auto

lemma consumes_prior: "consumes f prev \<Longrightarrow> fact_prior f = map_option gf_id prev"
  by (auto simp: consumes_def fact_prior_def split: option.splits)

lemma consumes_checked:
  assumes "consumes f prev" and "distinct (map gf_id fs)" and "\<And>p. prev = Some p \<Longrightarrow> p \<in> set fs"
  shows "check_prior fs f = Inr ()"
proof (cases prev)
  case None
  then show ?thesis using assms(1) by (auto simp: check_prior_def consumes_def split: option.splits)
next
  case (Some p)
  with lookup_by_distinct [OF assms(2) assms(3) [OF Some]] assms(1) show ?thesis
    by (auto simp: check_prior_def consumes_def split: option.splits)
qed

lemma chained_mem:
  assumes "chained prev chain" and "f \<in> set chain"
  shows "\<exists>q. consumes f q \<and> (q = prev \<or> (\<exists>p \<in> set chain. q = Some p))"
  using assms by (induction chain arbitrary: prev) auto

lemma chained_priors: "chained prev chain \<Longrightarrow> map fact_prior chain = map (map_option gf_id) (butlast (prev # map Some chain))"
  by (induction chain arbitrary: prev) (auto simp: consumes_prior)

lemma chained_path:
  assumes "distinct (map gf_id fs)"
  shows "chained None chain \<Longrightarrow> chain \<noteq> [] \<Longrightarrow> set chain \<subseteq> set fs \<Longrightarrow> path_from gf_id fact_prior fs (last chain) (rev chain)"
proof (induction chain rule: rev_induct)
  case (snoc f chain)
  have c: "consumes f (last_fact None chain)" using snoc.prems(1) by (simp add: chained_snoc)
  show ?case
  proof (cases "chain = []")
    case True
    then show ?thesis using consumes_prior [OF c] by simp
  next
    case False
    have "lookup_by gf_id fs (gf_id (last chain)) = Some (last chain)"
      using assms snoc.prems(3) last_in_set [OF False] by (intro lookup_by_distinct) auto
    moreover have "path_from gf_id fact_prior fs (last chain) (rev chain)"
      using snoc.IH snoc.prems False by (simp add: chained_snoc)
    ultimately show ?thesis using consumes_prior [OF c] False by (simp add: last_fact_def)
  qed
qed simp

lemma path_linked:
  "path_from gf_id fact_prior fs x p \<Longrightarrow> (\<And>f. f \<in> set p \<Longrightarrow> check_prior fs f = Inr ()) \<Longrightarrow> chained None (rev p) \<and> last_fact None (rev p) = Some x"
proof (induction p arbitrary: x)
  case (Cons z p)
  have z: "z = x" "check_prior fs x = Inr ()" using Cons.prems by auto
  show ?case
  proof (cases "pp_prior (gf_payload x)")
    case None
    then show ?thesis using Cons.prems(1) z by (auto simp: fact_prior_def consumes_def)
  next
    case (Some l)
    then have "fact_prior x = Some (loc_artifact l)" by (simp add: fact_prior_def)
    then obtain y where y: "lookup_by gf_id fs (loc_artifact l) = Some y" "path_from gf_id fact_prior fs y p"
      using Cons.prems(1) by (auto split: option.splits)
    have rest: "chained None (rev p)" "last_fact None (rev p) = Some y" using Cons.IH [OF y(2)] Cons.prems(2) by auto
    have "gf_sha y = loc_sha l" using z(2) Some y(1) by (auto simp: check_prior_def split: if_splits)
    then have "consumes x (Some y)" using Some lookup_by_mem [OF y(1)] by (simp add: consumes_def)
    then show ?thesis using rest z(1) by (simp add: chained_snoc)
  qed
qed simp

section \<open>The tip\<close>

definition one_chain :: "graph_fact list \<Rightarrow> graph_fact list \<Rightarrow> bool" where
  "one_chain fs chain \<longleftrightarrow> chain \<noteq> [] \<and> mset chain = mset (successful fs) \<and> chained None chain"

lemma successful_distinct: "distinct (map gf_id facts) \<Longrightarrow> distinct (map gf_id (successful facts))"
  by (simp add: successful_def distinct_map_filter)

lemma filter_unique: "distinct xs \<Longrightarrow> x \<in> set xs \<Longrightarrow> (\<And>y. y \<in> set xs \<Longrightarrow> P y \<longleftrightarrow> y = x) \<Longrightarrow> filter P xs = [x]"
proof -
  assume a: "distinct xs" "x \<in> set xs" "\<And>y. y \<in> set xs \<Longrightarrow> P y \<longleftrightarrow> y = x"
  then have "set (filter P xs) = {x}" "distinct (filter P xs)" by auto
  then show "filter P xs = [x]" by (metis distinct.simps(2) distinct_length_2_or_more insertI1 list.set_intros(1) list.simps(15) neq_Nil_conv set_empty singletonD)
qed

lemma chain_tips:
  assumes "distinct (map gf_id fs)" and "chained None chain" and "chain \<noteq> []" and "mset chain = mset fs"
  shows "tips fs = [last chain]"
proof -
  have same: "set chain = set fs" using assms(4) by (metis set_mset_mset)
  have dc: "distinct (map gf_id chain)" using assms(1,4) by (metis mset_eq_imp_distinct_iff mset_map)
  have priors: "set (map fact_prior fs) = set (map fact_prior chain)" using same by simp
  obtain bs where bs: "chain = bs @ [last chain]" using assms(3) by (metis append_butlast_last_id)
  have "map fact_prior chain = None # map (\<lambda>f. Some (gf_id f)) bs"
    unfolding chained_priors [OF assms(2)] by (subst bs) (simp add: butlast_append comp_def)
  then have "Some (gf_id f) \<in> set (map fact_prior fs) \<longleftrightarrow> gf_id f \<in> gf_id ` set bs" for f
    unfolding priors by auto
  moreover have "gf_id f \<notin> gf_id ` set bs \<longleftrightarrow> f = last chain" if "f \<in> set fs" for f
  proof -
    have "f \<in> insert (last chain) (set bs)" using that same bs by (metis Un_insert_right append_Nil2 list.simps(15) list.set(1) set_append)
    moreover have "gf_id (last chain) \<notin> gf_id ` set bs" using dc by (subst (asm) bs) auto
    ultimately show ?thesis by auto
  qed
  ultimately show ?thesis unfolding tips_def
    using assms(1,3) same by (intro filter_unique) (auto simp: distinct_map)
qed

lemma tip_chain_iff:
  assumes "distinct (map gf_id facts)"
  shows "resolve_tip facts = Inr (Some t) \<longleftrightarrow> (\<exists>chain. one_chain facts chain \<and> last chain = t)"
proof
  let ?fs = "successful facts"
  have d: "distinct (map gf_id ?fs)" using assms by (rule successful_distinct)
  assume "resolve_tip facts = Inr (Some t)"
  then obtain path us where ok: "rtraverse (check_prior ?fs) ?fs = Inr us" and t: "tips ?fs = [t]"
      and walk: "chase gf_id fact_prior ?fs [] t = Inr path" and len: "length path = length ?fs"
    by (auto simp: resolve_tip_def walk_lineage_def Let_def rbind_Inr_iff split: if_splits list.splits sum.splits chase_fault.splits)
  from walk have path: "path_from gf_id fact_prior ?fs t path" "distinct (map gf_id path)" by (auto simp: chase_Inr_iff)
  have "t \<in> set ?fs" using t by (metis (no_types) filter_is_subset list.set_intros(1) subsetD tips_def)
  then have sub: "set path \<subseteq> set ?fs" using path(1) by (rule path_from_subset [rotated])
  have "check_prior ?fs f = Inr ()" if "f \<in> set path" for f
    using rtraverse_Inr_mem [OF ok] that sub by fastforce
  from path_linked [OF path(1) this] have l: "chained None (rev path)" "last_fact None (rev path) = Some t" by auto
  have dp: "distinct path" "distinct ?fs" using path(2) d by (simp_all add: distinct_map)
  then have "set path = set ?fs" using sub len by (metis card_subset_eq distinct_card List.finite_set)
  then have "mset (rev path) = mset ?fs" using dp by (metis distinct_rev mset_rev set_eq_iff_mset_eq_distinct)
  moreover have "path \<noteq> []" using path(1) by auto
  ultimately show "\<exists>chain. one_chain facts chain \<and> last chain = t"
    using l by (intro exI [of _ "rev path"]) (simp add: one_chain_def last_fact_def)
next
  let ?fs = "successful facts"
  have d: "distinct (map gf_id ?fs)" using assms by (rule successful_distinct)
  assume "\<exists>chain. one_chain facts chain \<and> last chain = t"
  then obtain chain where c: "chain \<noteq> []" "mset chain = mset ?fs" "chained None chain" "last chain = t" by (auto simp: one_chain_def)
  have same: "set chain = set ?fs" using c(2) by (metis set_mset_mset)
  have dc: "distinct (map gf_id chain)" using d c(2) by (metis mset_eq_imp_distinct_iff mset_map)
  have "check_prior ?fs f = Inr ()" if f: "f \<in> set ?fs" for f
  proof -
    obtain q where "consumes f q" "q = None \<or> (\<exists>p \<in> set chain. q = Some p)" using chained_mem [OF c(3)] f same by blast
    then show ?thesis using same by (intro consumes_checked [OF _ d]) auto
  qed
  then have ok: "rtraverse (check_prior ?fs) ?fs = Inr (map (\<lambda>_. ()) ?fs)" by (rule rtraverse_total)
  have tip: "tips ?fs = [t]" using chain_tips [OF d c(3,1,2)] c(4) by simp
  have "path_from gf_id fact_prior ?fs t (rev chain)" using chained_path [OF d c(3,1)] same c(4) by simp
  then have "chase gf_id fact_prior ?fs [] t = Inr (rev chain)" using dc by (simp add: chase_Inr_iff rev_map [symmetric])
  moreover have "length chain = length ?fs" using c(2) by (metis size_mset)
  moreover have "?fs \<noteq> []" using c(1) same by auto
  ultimately show "resolve_tip facts = Inr (Some t)" by (simp add: resolve_tip_def Let_def ok tip walk_lineage_def)
qed

lemma no_tip_iff: "resolve_tip facts = Inr None \<longleftrightarrow> successful facts = []"
  by (auto simp: resolve_tip_def Let_def rbind_Inr_iff split: list.splits if_splits)

text \<open>
  C30: The current GoalGraph of a Task is well defined exactly when its executable projections form one
  chain, in which each consumes the one before with its exact digest; the current one is then the
  last of the chain. A fork, a cycle, a gap and a projection beside the chain are all refused.
\<close>

theorem tip_iff_chain:
  assumes "distinct (map gf_id facts)"
  shows "resolve_tip facts = Inr (Some t) \<longleftrightarrow> (\<exists>chain. one_chain facts chain \<and> last chain = t)"
  using assms by (rule tip_chain_iff)

end
