(* ===== verification/GoalStore.thy ===== *)
theory GoalStore
  imports GoalLineage
begin

text \<open>
  The invariant of the goal tables. Goals and projections are only ever appended: a goal revises an
  earlier one of its Task, the executable projections of a Task form one chain in the order in which
  they were written, and each of them is backed by rows that repeat its contracts.
\<close>

section \<open>What was stored is read back\<close>

lemma parse_mutation_producer_stable: "parse_mutation_producer p = Inr q \<Longrightarrow> parse_mutation_producer q = Inr q"
  by (auto simp: parse_mutation_producer_def rbind_Inr_iff parse_text_stable)

lemma parse_producer_stable: "parse_producer p = Inr q \<Longrightarrow> parse_producer q = Inr q"
  by (cases p) (auto simp: rbind_Inr_iff parse_mutation_producer_stable)

lemma parse_note_stable: "parse_note n = Inr m \<Longrightarrow> parse_note m = Inr m"
  by (auto simp: parse_note_def rbind_Inr_iff parse_text_stable)

lemma parse_removals_stable: "rtraverse parse_removal rs = Inr qs \<Longrightarrow> rtraverse parse_removal qs = Inr qs"
  by (erule rtraverse_stable [where f = parse_removal, rotated]) (rule parse_removal_stable)

lemma parse_contracts_stable: "rtraverse parse_contract rs = Inr qs \<Longrightarrow> rtraverse parse_contract qs = Inr qs"
  by (erule rtraverse_stable [where f = parse_contract, rotated]) (rule parse_contract_stable)

lemma parse_notes_stable: "rtraverse parse_note rs = Inr qs \<Longrightarrow> rtraverse parse_note qs = Inr qs"
  by (erule rtraverse_stable [where f = parse_note, rotated]) (rule parse_note_stable)

lemma parse_graph_projection_stable: "parse_graph_projection p = Inr q \<Longrightarrow> parse_graph_projection q = Inr q"
  by (auto simp: parse_graph_projection_def rbind_Inr_iff parse_removals_stable)

lemma parse_graph_projection_members: "parse_graph_projection p = Inr q \<Longrightarrow> gp_members q = gp_members p \<and> distinct (gp_members p)"
  by (auto simp: parse_graph_projection_def rbind_Inr_iff)

lemma parse_optional_stable:
  assumes "\<And>x y. f x = Inr y \<Longrightarrow> f y = Inr y" and "parse_optional f p = Inr q"
  shows "parse_optional f q = Inr q"
  using assms(2) by (auto simp: parse_optional_def rbind_Inr_iff assms(1) split: option.splits)

lemma parse_optional_projection_stable:
  "parse_optional parse_graph_projection p = Inr q \<Longrightarrow> parse_optional parse_graph_projection q = Inr q"
  by (erule parse_optional_stable [where f = parse_graph_projection, rotated]) (rule parse_graph_projection_stable)

lemma parse_projection_stable:
  assumes "parse_projection p = Inr q"
  shows "parse_projection q = Inr q"
proof -
  obtain a b c d e f g where parts: "parse_producer (pp_producer p) = Inr a"
      "parse_optional parse_graph_projection (pp_projection p) = Inr b" "rtraverse parse_contract (pp_goals p) = Inr c"
      "rtraverse parse_contract (pp_candidates p) = Inr d" "rtraverse parse_removal (pp_candidate_removals p) = Inr e"
      "rtraverse parse_note (pp_findings p) = Inr f" "rtraverse parse_note (pp_conflicts p) = Inr g"
    and q: "q = p\<lparr>pp_producer := a, pp_projection := b, pp_goals := c, pp_candidates := d, pp_candidate_removals := e,
       pp_findings := f, pp_conflicts := g\<rparr>"
    and ok: "provenance_ok (pp_provenance q)" "list_all (\<lambda>l. case l of None \<Rightarrow> True | Some m \<Rightarrow> locator_ok m) [pp_prior q, pp_graph q, pp_observed q]"
      "projection_consistent q"
    using assms unfolding parse_projection_def rbind_Inr_iff checked_Inr_iff by blast
  have fields: "pp_producer q = a" "pp_projection q = b" "pp_goals q = c" "pp_candidates q = d" "pp_candidate_removals q = e"
      "pp_findings q = f" "pp_conflicts q = g"
    by (simp_all add: q)
  note stable = parse_producer_stable [OF parts(1)]
    parse_optional_projection_stable [OF parts(2)]
    parse_contracts_stable [OF parts(3)] parse_contracts_stable [OF parts(4)] parse_removals_stable [OF parts(5)]
    parse_notes_stable [OF parts(6)] parse_notes_stable [OF parts(7)]
  have "q\<lparr>pp_producer := a, pp_projection := b, pp_goals := c, pp_candidates := d, pp_candidate_removals := e,
       pp_findings := f, pp_conflicts := g\<rparr> = q"
    by (simp add: q)
  then show ?thesis unfolding parse_projection_def fields stable rbind_simps using ok by simp
qed

text \<open>What parsing keeps of a payload that makes goals current.\<close>

lemma rtraverse_map_same:
  assumes "rtraverse f xs = Inr ys" and "\<And>x y. f x = Inr y \<Longrightarrow> g y = g x"
  shows "map g ys = map g xs"
  using assms(1) by (induction xs arbitrary: ys) (auto simp: rbind_Inr_iff assms(2))

lemma parse_projection_fields:
  assumes "parse_projection p = Inr q"
  shows "pp_prior q = pp_prior p" and "pp_graph q = pp_graph p" and "pp_projection q = None \<longleftrightarrow> pp_projection p = None"
    and "pp_projection p = Some g \<Longrightarrow> \<exists>h. pp_projection q = Some h \<and> gp_members h = gp_members g \<and> distinct (gp_members g)"
    and "rtraverse parse_contract (pp_goals p) = Inr (pp_goals q)" and "projection_consistent q"
  using assms unfolding parse_projection_def rbind_Inr_iff checked_Inr_iff
  by (auto simp: parse_optional_def rbind_Inr_iff dest: parse_graph_projection_members split: option.splits)

section \<open>The facts of a Task\<close>

definition graph_kind :: "goal_artifact \<Rightarrow> bool" where
  "graph_kind a \<longleftrightarrow> payload_kind (ga_payload a) = ContractGraphKind \<or> payload_kind (ga_payload a) = ProjectionKind"

definition fact_of :: "goal_artifact \<Rightarrow> graph_fact list" where
  "fact_of a = (case ga_payload a of
      ProjectionPayload p \<Rightarrow> [\<lparr>gf_id = ga_id a, gf_revision = ga_revision a, gf_sha = ga_sha a, gf_payload = p\<rparr>]
    | _ \<Rightarrow> [])"

definition facts_of :: "goal_artifact list \<Rightarrow> string \<Rightarrow> graph_fact list" where
  "facts_of as tid = concat (map fact_of (projection_rows as tid))"

definition artifact_sound :: "goal_env \<Rightarrow> int \<Rightarrow> goal_artifact \<Rightarrow> bool" where
  "artifact_sound env high a \<longleftrightarrow> ga_sha a = ge_sha env (ga_payload a) \<and> ga_revision a \<le> high \<and> locator_ok (locator_of a)
     \<and> (case ga_payload a of
          ProjectionPayload p \<Rightarrow> parse_projection p = Inr p
        | ContractGraphPayload g \<Rightarrow> parse_graph_payload g = Inr g
        | _ \<Rightarrow> True)"

lemma facts_append [simp]: "facts_of (as @ bs) tid = facts_of as tid @ facts_of bs tid"
  by (simp add: facts_of_def projection_rows_def)

lemma facts_Nil [simp]: "facts_of [] tid = []"
  by (simp add: facts_of_def projection_rows_def)

lemma projection_rows_graph: "projection_rows (filter graph_kind as) tid = projection_rows as tid"
  by (auto simp: projection_rows_def graph_kind_def intro: filter_cong)

lemma facts_graph: "facts_of (filter graph_kind as) tid = facts_of as tid"
  by (simp add: facts_of_def projection_rows_graph)

lemma fact_of_row: "a \<in> set (projection_rows as tid) \<Longrightarrow> \<exists>f. fact_of a = [f] \<and> gf_id f = ga_id a \<and> fact_locator f = locator_of a"
  by (auto simp: projection_rows_def fact_of_def fact_locator_def locator_of_def split: goal_payload.splits)

lemma facts_mem:
  assumes "f \<in> set (facts_of as tid)"
  obtains a where "a \<in> set as" and "ga_task a = tid" and "fact_of a = [f]" and "ga_payload a = ProjectionPayload (gf_payload f)"
    and "fact_locator f = locator_of a" and "gf_id f = ga_id a"
  using assms by (fastforce simp: facts_of_def projection_rows_def fact_of_def fact_locator_def locator_of_def split: goal_payload.splits)

lemma rows_facts_ids: "map gf_id (facts_of as tid) = map ga_id (projection_rows as tid)"
proof -
  have "map gf_id (concat (map fact_of rows)) = map ga_id rows" if "set rows \<subseteq> set (projection_rows as tid)" for rows
    using that by (induction rows) (auto dest: fact_of_row)
  then show ?thesis by (simp add: facts_of_def)
qed

lemma facts_distinct: "distinct (map ga_id as) \<Longrightarrow> distinct (map gf_id (facts_of as tid))"
  unfolding rows_facts_ids projection_rows_def by (rule distinct_map_filter)

text \<open>On sound artifacts the parser of the code reads exactly the facts.\<close>

lemma parse_facts:
  assumes "\<And>a. a \<in> set rows \<Longrightarrow> payload_kind (ga_payload a) = ProjectionKind \<and> artifact_sound env high a"
  shows "rtraverse (parse_fact env) rows = Inr (concat (map fact_of rows))"
  using assms
proof (induction rows)
  case (Cons a rows)
  have "payload_kind (ga_payload a) = ProjectionKind" "artifact_sound env high a" using Cons.prems by auto
  then obtain p where "ga_payload a = ProjectionPayload p" "parse_projection p = Inr p" "ga_sha a = ge_sha env (ProjectionPayload p)"
    by (cases "ga_payload a") (auto simp: artifact_sound_def)
  then have "parse_fact env a = Inr \<lparr>gf_id = ga_id a, gf_revision = ga_revision a, gf_sha = ga_sha a, gf_payload = p\<rparr>"
      "fact_of a = [\<lparr>gf_id = ga_id a, gf_revision = ga_revision a, gf_sha = ga_sha a, gf_payload = p\<rparr>]"
    by (simp_all add: parse_fact_def fact_of_def)
  then show ?case using Cons by simp
qed simp

section \<open>The invariant\<close>

text \<open>
  An executable projection is backed: its members are rows, its contracts repeat them, no two of
  them are revisions of one Delivery Slice, and its contract graph exists.
\<close>

definition fact_backed :: "goal_row list \<Rightarrow> goal_artifact list \<Rightarrow> string \<Rightarrow> graph_fact \<Rightarrow> bool" where
  "fact_backed goals as tid f \<longleftrightarrow>
     (\<exists>rows slices. rtraverse (member_row goals) (members_of (Some f)) = Inr rows
        \<and> pp_goals (gf_payload f) = map contract_of rows
        \<and> rtraverse (slice_identity_of goals) rows = Inr slices \<and> distinct (map sl_slice slices))
     \<and> (case pp_graph (gf_payload f) of None \<Rightarrow> True
        | Some l \<Rightarrow> \<exists>a \<in> set as. payload_kind (ga_payload a) = ContractGraphKind \<and> ga_task a = tid \<and> locator_of a = l)"

text \<open>The acceptance specs of a row have passed their schema.\<close>

definition specs_parsed :: "acceptance_spec list \<Rightarrow> bool" where
  "specs_parsed ss \<longleftrightarrow> rtraverse parse_spec ss = Inr ss"

definition rows_ok :: "goal_row list \<Rightarrow> bool" where
  "rows_ok goals \<longleftrightarrow> distinct (map gr_id goals) \<and> (\<forall>tid. backlinked gr_id parent_of (filter (\<lambda>g. gr_task g = tid) goals))"

definition goal_ok :: "goal_env \<Rightarrow> goal_store \<Rightarrow> bool" where
  "goal_ok env st \<longleftrightarrow>
     rows_ok (gs_goals st) \<and> list_all (\<lambda>g. specs_parsed (gr_specs g)) (gs_goals st)
     \<and> distinct (map ga_id (gs_artifacts st))
     \<and> (\<forall>a \<in> set (gs_artifacts st). graph_kind a \<longrightarrow> artifact_sound env (gs_revision st) a)
     \<and> (\<forall>tid. chained None (successful (facts_of (gs_artifacts st) tid)))
     \<and> (\<forall>tid. \<forall>f \<in> set (successful (facts_of (gs_artifacts st) tid)). fact_backed (goals_of st tid) (gs_artifacts st) tid f)"

lemma goal_okD:
  assumes "goal_ok env st"
  shows "rows_ok (gs_goals st)" and "backlinked gr_id parent_of (goals_of st tid)"
    and "g \<in> set (gs_goals st) \<Longrightarrow> specs_parsed (gr_specs g)"
    and "distinct (map ga_id (gs_artifacts st))" and "a \<in> set (gs_artifacts st) \<Longrightarrow> graph_kind a \<Longrightarrow> artifact_sound env (gs_revision st) a"
    and "chained None (successful (facts_of (gs_artifacts st) tid))"
    and "f \<in> set (successful (facts_of (gs_artifacts st) tid)) \<Longrightarrow> fact_backed (goals_of st tid) (gs_artifacts st) tid f"
  using assms by (simp_all add: goal_ok_def rows_ok_def goals_of_def list_all_iff)

section \<open>The tip under the invariant\<close>

definition tip_fact :: "goal_store \<Rightarrow> string \<Rightarrow> graph_fact option" where
  "tip_fact st tid = last_fact None (successful (facts_of (gs_artifacts st) tid))"

lemma resolve_linked:
  assumes "distinct (map gf_id facts)" and "chained None (successful facts)"
  shows "resolve_tip facts = Inr (last_fact None (successful facts))"
proof (cases "successful facts = []")
  case True
  then show ?thesis by (simp add: no_tip_iff)
next
  case False
  then have "one_chain facts (successful facts)" using assms(2) by (simp add: one_chain_def)
  then have "resolve_tip facts = Inr (Some (last (successful facts)))" using tip_chain_iff [OF assms(1)] by blast
  then show ?thesis using False by (simp add: last_fact_def)
qed

lemma tip_of_sound_rows:
  assumes "\<And>a. a \<in> set rows \<Longrightarrow> payload_kind (ga_payload a) = ProjectionKind \<and> artifact_sound env high a"
    and "distinct (map ga_id rows)" and "chained None (successful (concat (map fact_of rows)))"
    and "\<And>a. a \<in> set rows \<Longrightarrow> ga_task a = tid"
  shows "tip_of_rows env rows = Inr (last_fact None (successful (concat (map fact_of rows))))"
proof -
  have same: "projection_rows rows tid = rows" using assms(1,4) by (simp add: projection_rows_def)
  have "distinct (map gf_id (concat (map fact_of rows)))"
    using facts_distinct [OF assms(2), of tid] by (simp add: facts_of_def same)
  from resolve_linked [OF this assms(3)] show ?thesis by (simp add: tip_of_rows_def parse_facts [OF assms(1)])
qed

lemma current_projection_ok:
  assumes "goal_ok env st"
  shows "current_projection env st tid = Inr (tip_fact st tid)"
proof -
  let ?rows = "projection_rows (gs_artifacts st) tid"
  have "payload_kind (ga_payload a) = ProjectionKind \<and> artifact_sound env (gs_revision st) a" if "a \<in> set ?rows" for a
    using that goal_okD(5) [OF assms, of a] by (simp add: projection_rows_def graph_kind_def)
  moreover have "distinct (map ga_id ?rows)" using goal_okD(4) [OF assms] by (simp add: projection_rows_def distinct_map_filter)
  moreover have "chained None (successful (concat (map fact_of ?rows)))" using goal_okD(6) [OF assms] by (simp add: facts_of_def)
  moreover have "ga_task a = tid" if "a \<in> set ?rows" for a using that by (simp add: projection_rows_def)
  ultimately have "tip_of_rows env ?rows = Inr (last_fact None (successful (concat (map fact_of ?rows))))" by (rule tip_of_sound_rows)
  then show ?thesis by (simp add: current_projection_def tip_fact_def facts_of_def)
qed

lemma tip_fact_mem: "tip_fact st tid = Some f \<Longrightarrow> f \<in> set (successful (facts_of (gs_artifacts st) tid))"
  by (auto simp: tip_fact_def last_fact_def split: if_splits)

section \<open>Growth\<close>

text \<open>
  What every operation does to the tables: goals and graph artifacts are appended, the latter at
  fresh catalog revisions.
\<close>

definition grows :: "goal_store \<Rightarrow> goal_row list \<Rightarrow> goal_artifact list \<Rightarrow> goal_store \<Rightarrow> bool" where
  "grows st gs as st' \<longleftrightarrow> gs_goals st' = gs_goals st @ gs
     \<and> filter graph_kind (gs_artifacts st') = filter graph_kind (gs_artifacts st) @ as
     \<and> gs_revision st \<le> gs_revision st' \<and> list_all (\<lambda>a. gs_revision st < ga_revision a) as"

lemma grows_refl: "grows st [] [] st"
  by (simp add: grows_def)

lemma grows_trans: "grows st gs as st' \<Longrightarrow> grows st' hs bs st'' \<Longrightarrow> grows st (gs @ hs) (as @ bs) st''"
  by (auto simp: grows_def list_all_iff)

lemma grows_facts: "grows st gs as st' \<Longrightarrow> facts_of (gs_artifacts st') tid = facts_of (gs_artifacts st) tid @ facts_of as tid"
  by (metis facts_append facts_graph grows_def)

lemma grows_goals: "grows st gs as st' \<Longrightarrow> goals_of st' tid = goals_of st tid @ filter (\<lambda>g. gr_task g = tid) gs"
  by (simp add: grows_def goals_of_def)

lemma successful_Nil [simp]: "successful [] = []"
  by (simp add: successful_def)

lemma successful_append [simp]: "successful (xs @ ys) = successful xs @ successful ys"
  by (simp add: successful_def)

lemma last_fact_append: "last_fact prev (xs @ ys) = last_fact (last_fact prev xs) ys"
  by (simp add: last_fact_def)

lemma chained_append: "chained prev (xs @ ys) \<longleftrightarrow> chained prev xs \<and> chained (last_fact prev xs) ys"
  by (induction xs arbitrary: prev) auto

lemma rows_ok_distinct: "rows_ok goals \<Longrightarrow> distinct (map gr_id (filter P goals))"
  by (simp add: rows_ok_def distinct_map_filter)

lemma member_row_Inr_iff: "member_row goals i = Inr r \<longleftrightarrow> lookup_by gr_id goals i = Some r"
  by (auto simp: member_row_def split: option.splits)

lemma member_row_append:
  "distinct (map gr_id (goals @ gs)) \<Longrightarrow> member_row goals i = Inr r \<Longrightarrow> member_row (goals @ gs) i = Inr r"
  unfolding member_row_Inr_iff by (rule lookup_by_append)

lemma slice_identity_append:
  assumes "distinct (map gr_id (goals @ gs))" and "slice_identity_of goals r = Inr s"
  shows "slice_identity_of (goals @ gs) r = Inr s"
proof -
  let ?P = "\<lambda>q. gr_task q = gr_task r"
  obtain path where p: "chase gr_id parent_of (filter ?P goals) [] r = Inr path"
    using assms(2) by (auto simp: slice_identity_of_def split: sum.splits chase_fault.splits)
  have "distinct (map gr_id (filter ?P goals @ filter ?P gs))"
    using distinct_map_filter [OF assms(1), of ?P] by simp
  from chase_append [OF this p] p assms(2) show ?thesis by (simp add: slice_identity_of_def)
qed

lemma lineage_root_append:
  assumes "distinct (map gr_id (goals @ gs))" and "lineage_root goals r = Inr s"
  shows "lineage_root (goals @ gs) r = Inr s"
proof -
  obtain path where p: "chase gr_id parent_of goals [] r = Inr path"
    using assms(2) by (auto simp: lineage_root_def split: sum.splits chase_fault.splits)
  from chase_append [OF assms(1) p] p assms(2) show ?thesis by (simp add: lineage_root_def)
qed

lemma rtraverse_mono:
  assumes "rtraverse f xs = Inr ys" and "\<And>x y. x \<in> set xs \<Longrightarrow> f x = Inr y \<Longrightarrow> g x = Inr y"
  shows "rtraverse g xs = Inr ys"
  using assms by (induction xs arbitrary: ys) (auto simp: rbind_Inr_iff)

lemma fact_backed_append:
  assumes "fact_backed goals as tid f" and "distinct (map gr_id (goals @ gs))" and "set (filter graph_kind as) \<subseteq> set bs"
  shows "fact_backed (goals @ gs) bs tid f"
proof -
  obtain rows slices where r: "rtraverse (member_row goals) (members_of (Some f)) = Inr rows"
      "pp_goals (gf_payload f) = map contract_of rows"
      "rtraverse (slice_identity_of goals) rows = Inr slices" "distinct (map sl_slice slices)"
    and g: "case pp_graph (gf_payload f) of None \<Rightarrow> True
        | Some l \<Rightarrow> \<exists>a \<in> set as. payload_kind (ga_payload a) = ContractGraphKind \<and> ga_task a = tid \<and> locator_of a = l"
    using assms(1) by (auto simp: fact_backed_def)
  have "rtraverse (member_row (goals @ gs)) (members_of (Some f)) = Inr rows"
    by (rule rtraverse_mono [OF r(1)]) (rule member_row_append [OF assms(2)])
  moreover have "rtraverse (slice_identity_of (goals @ gs)) rows = Inr slices"
    by (rule rtraverse_mono [OF r(3)]) (rule slice_identity_append [OF assms(2)])
  moreover have "case pp_graph (gf_payload f) of None \<Rightarrow> True
      | Some l \<Rightarrow> \<exists>a \<in> set bs. payload_kind (ga_payload a) = ContractGraphKind \<and> ga_task a = tid \<and> locator_of a = l"
    using g assms(3) by (fastforce simp: graph_kind_def split: option.splits)
  ultimately show ?thesis using r(2,4) unfolding fact_backed_def by blast
qed

text \<open>The invariant after an operation follows from what is new.\<close>

lemma goal_ok_grows:
  assumes ok: "goal_ok env st" and g: "grows st gs as st'"
    and rows: "rows_ok (gs_goals st')" and specs: "\<And>g. g \<in> set gs \<Longrightarrow> specs_parsed (gr_specs g)"
    and ids: "distinct (map ga_id (gs_artifacts st'))"
    and sound: "\<And>a. a \<in> set as \<Longrightarrow> artifact_sound env (gs_revision st') a"
    and chain: "\<And>tid. chained (tip_fact st tid) (successful (facts_of as tid))"
    and backed: "\<And>tid f. f \<in> set (successful (facts_of as tid)) \<Longrightarrow> fact_backed (goals_of st' tid) (gs_artifacts st') tid f"
  shows "goal_ok env st'"
proof -
  have kinds: "filter graph_kind (gs_artifacts st') = filter graph_kind (gs_artifacts st) @ as" and high: "gs_revision st \<le> gs_revision st'"
    using g by (simp_all add: grows_def)
  have "artifact_sound env (gs_revision st') a" if a: "a \<in> set (gs_artifacts st')" "graph_kind a" for a
  proof -
    have "a \<in> set (filter graph_kind (gs_artifacts st'))" using a by simp
    then have "a \<in> set as \<or> (a \<in> set (gs_artifacts st) \<and> graph_kind a)" unfolding kinds by auto
    then show ?thesis
    proof
      assume "a \<in> set (gs_artifacts st) \<and> graph_kind a"
      then have "artifact_sound env (gs_revision st) a" using goal_okD(5) [OF ok] by blast
      then show ?thesis using high by (auto simp: artifact_sound_def)
    qed (rule sound)
  qed
  moreover have "chained None (successful (facts_of (gs_artifacts st') tid))" for tid
    using goal_okD(6) [OF ok, of tid] chain [of tid] by (simp add: grows_facts [OF g] chained_append tip_fact_def)
  moreover have "fact_backed (goals_of st' tid) (gs_artifacts st') tid f"
    if f: "f \<in> set (successful (facts_of (gs_artifacts st') tid))" for tid f
  proof (cases "f \<in> set (successful (facts_of as tid))")
    case True
    then show ?thesis by (rule backed)
  next
    case False
    then have old: "fact_backed (goals_of st tid) (gs_artifacts st) tid f"
      using f goal_okD(7) [OF ok] by (simp add: grows_facts [OF g])
    have "distinct (map gr_id (goals_of st' tid))" unfolding goals_of_def by (rule rows_ok_distinct [OF rows])
    then have d: "distinct (map gr_id (goals_of st tid @ filter (\<lambda>g. gr_task g = tid) gs))" by (simp only: grows_goals [OF g])
    have "set (filter graph_kind (gs_artifacts st)) \<subseteq> set (filter graph_kind (gs_artifacts st'))" unfolding kinds by auto
    then have "set (filter graph_kind (gs_artifacts st)) \<subseteq> set (gs_artifacts st')" by auto
    from fact_backed_append [OF old d this] show ?thesis by (simp only: grows_goals [OF g])
  qed
  moreover have "list_all (\<lambda>g. specs_parsed (gr_specs g)) (gs_goals st')"
    using specs goal_okD(3) [OF ok] g by (auto simp: grows_def list_all_iff)
  ultimately show ?thesis using rows ids unfolding goal_ok_def by blast
qed

lemma tip_fact_grows: "grows st gs as st' \<Longrightarrow> tip_fact st' tid = last_fact (tip_fact st tid) (successful (facts_of as tid))"
  by (simp add: tip_fact_def grows_facts last_fact_append)

section \<open>Inserting one row\<close>

lemma insert_goal_rows:
  assumes "insert_goal st g = Inr st'" and "rows_ok (gs_goals st)"
  shows "rows_ok (gs_goals st') \<and> grows st [g] [] st' \<and> gs_artifacts st' = gs_artifacts st \<and> gr_id g \<notin> gr_id ` set (gs_goals st)"
proof -
  have ins: "goal_insertable st g" and st': "st' = st\<lparr>gs_goals := gs_goals st @ [g]\<rparr>"
    using assms(1) by (auto simp: insert_goal_def split: if_splits)
  have fresh: "gr_id g \<notin> gr_id ` set (gs_goals st)" using ins by (simp add: goal_insertable_def)
  have "backlinked gr_id parent_of (filter (\<lambda>q. gr_task q = tid) (gs_goals st @ [g]))" for tid
  proof -
    let ?m = "filter (\<lambda>q. gr_task q = tid) (gs_goals st)"
    have b: "backlinked gr_id parent_of ?m" using assms(2) by (simp add: rows_ok_def)
    have "k \<in> gr_id ` set ?m" if "parent_of g = Some k" "gr_task g = tid" for k
      using that ins by (auto simp: goal_insertable_def parent_of_def list_ex_iff split: option.splits if_splits)
    then show ?thesis using b fresh by (auto intro: backlinked_snoc)
  qed
  then show ?thesis using fresh assms(2) by (auto simp: st' rows_ok_def grows_def)
qed

lemma insert_payload_facts:
  assumes "insert_payload env st i tid p = Inr (st', l)"
  obtains a where "st' = st\<lparr>gs_artifacts := gs_artifacts st @ [a], gs_revision := gs_revision st + 1\<rparr>" and "l = locator_of a"
    and "ga_payload a = p" and "ga_task a = tid" and "ga_id a = i" and "i \<notin> ga_id ` set (gs_artifacts st)"
    and "ga_sha a = ge_sha env p" and "ga_revision a = gs_revision st + 1" and "locator_ok (locator_of a)"
  using assms by (auto simp: insert_payload_def Let_def split: if_splits)

section \<open>Slices of new rows\<close>

lemma chase_cons:
  assumes "chase key link m [] y = Inr p" and "link x = Some (key y)" and "y \<in> set m" and "distinct (map key m)"
    and "key x \<notin> key ` set p"
  shows "chase key link m [] x = Inr (x # p)"
  using assms lookup_by_distinct [OF assms(4,3)] by (simp add: chase_Inr_iff)

definition task_rows :: "string \<Rightarrow> goal_row list \<Rightarrow> bool" where
  "task_rows tid goals \<longleftrightarrow> distinct (map gr_id goals) \<and> backlinked gr_id parent_of goals \<and> (\<forall>g \<in> set goals. gr_task g = tid)"

lemma rows_ok_task: "rows_ok goals \<Longrightarrow> task_rows tid (filter (\<lambda>g. gr_task g = tid) goals)"
  by (simp add: task_rows_def rows_ok_def distinct_map_filter)

lemma task_rows_all: "task_rows tid goals \<Longrightarrow> g \<in> set goals \<Longrightarrow> filter (\<lambda>r. gr_task r = gr_task g) goals = goals"
  by (auto simp: task_rows_def intro: filter_True)

lemma slice_total:
  assumes "task_rows tid goals" and "g \<in> set goals"
  shows "\<exists>s. slice_identity_of goals g = Inr s \<and> sl_slice s \<in> gr_id ` set goals"
proof -
  have "backlinked gr_id parent_of goals" using assms(1) by (simp add: task_rows_def)
  from backlinked_chase [OF this assms(2)] obtain p where p: "chase gr_id parent_of goals [] g = Inr p" "p \<noteq> []" "set p \<subseteq> set goals"
    by metis
  then have "last p \<in> set goals" by (meson last_in_set subsetD)
  then have "gr_id (last p) \<in> gr_id ` set goals" by (rule imageI)
  then show ?thesis unfolding slice_identity_of_def task_rows_all [OF assms] p(1) by simp
qed

text \<open>The Delivery Slice of a goal, read by its identity in the rows of its Task.\<close>

definition slice_key :: "goal_row list \<Rightarrow> string \<Rightarrow> string" where
  "slice_key goals i = (case lookup_by gr_id goals i of None \<Rightarrow> []
     | Some r \<Rightarrow> (case slice_identity_of goals r of Inl _ \<Rightarrow> [] | Inr s \<Rightarrow> sl_slice s))"

lemma slice_key_row: "task_rows tid goals \<Longrightarrow> r \<in> set goals \<Longrightarrow> slice_identity_of goals r = Inr s \<Longrightarrow> slice_key goals (gr_id r) = sl_slice s"
  by (simp add: slice_key_def lookup_by_distinct task_rows_def)

lemma slice_key_mem: "task_rows tid goals \<Longrightarrow> i \<in> gr_id ` set goals \<Longrightarrow> slice_key goals i \<in> gr_id ` set goals"
  using slice_total slice_key_row by fastforce

lemma slice_key_append:
  assumes "task_rows tid goals" and "task_rows tid (goals @ gs)" and "i \<in> gr_id ` set goals"
  shows "slice_key (goals @ gs) i = slice_key goals i"
proof -
  obtain r where r: "r \<in> set goals" "gr_id r = i" using assms(3) by auto
  obtain s where s: "slice_identity_of goals r = Inr s" using slice_total [OF assms(1) r(1)] by auto
  have "distinct (map gr_id (goals @ gs))" using assms(2) by (simp add: task_rows_def)
  from slice_identity_append [OF this s] have "slice_identity_of (goals @ gs) r = Inr s" .
  from slice_key_row [OF assms(2) _ this] slice_key_row [OF assms(1) r(1) s] r show ?thesis by simp
qed

lemma slice_key_root:
  assumes "task_rows tid goals" and "g \<in> set goals" and "parent_of g = None"
  shows "slice_key goals (gr_id g) = gr_id g"
proof -
  have "slice_identity_of goals g = Inr \<lparr>sl_slice = gr_id g, sl_revision_id = gr_id g, sl_revision = 1, sl_prior = gr_supersede g\<rparr>"
    using assms(3) by (simp add: slice_identity_of_def chase.simps)
  from slice_key_row [OF assms(1,2) this] show ?thesis by simp
qed

text \<open>A revision stays in the Delivery Slice of the row that it replaces.\<close>

lemma slice_of_revision:
  assumes new: "task_rows tid (goals @ gs)" and old: "task_rows tid goals" and q: "q \<in> set goals" and g: "g \<in> set gs"
    and parent: "parent_of g = Some (gr_id q)"
  shows "slice_key (goals @ gs) (gr_id g) = slice_key goals (gr_id q)"
proof -
  obtain s where s: "slice_identity_of goals q = Inr s" using slice_total [OF old q] by auto
  then obtain p where p: "chase gr_id parent_of goals [] q = Inr p" and sl: "sl_slice s = gr_id (last p)"
    unfolding slice_identity_of_def task_rows_all [OF old q] by (auto split: sum.splits chase_fault.splits)
  have pf: "path_from gr_id parent_of goals q p" using p by (simp add: chase_Inr_iff)
  have ends: "p \<noteq> []" "set p \<subseteq> set goals" using path_from_ends [OF pf] path_from_subset [OF pf q] by simp_all
  have d: "distinct (map gr_id (goals @ gs))" using new by (simp add: task_rows_def)
  have p': "chase gr_id parent_of (goals @ gs) [] q = Inr p" by (rule chase_append [OF d p])
  have "gr_id g \<notin> gr_id ` set p" using ends(2) d g by auto
  then have "chase gr_id parent_of (goals @ gs) [] g = Inr (g # p)"
    using chase_cons [OF p' _ _ d] parent q by simp
  moreover have all: "filter (\<lambda>r. gr_task r = gr_task g) (goals @ gs) = goals @ gs"
    using task_rows_all [OF new, of g] g by (simp del: filter_append)
  ultimately have "\<exists>t. slice_identity_of (goals @ gs) g = Inr t \<and> sl_slice t = gr_id (last p)"
    unfolding slice_identity_of_def all using ends(1) by simp
  then obtain t where "slice_identity_of (goals @ gs) g = Inr t" "sl_slice t = gr_id (last p)" by auto
  with slice_key_row [OF new _ this(1)] slice_key_row [OF old q s] sl g show ?thesis by simp
qed

lemma slices_of_rows:
  assumes "task_rows tid goals" and "set rows \<subseteq> set goals"
  shows "\<exists>slices. rtraverse (slice_identity_of goals) rows = Inr slices \<and> map sl_slice slices = map (\<lambda>r. slice_key goals (gr_id r)) rows"
  using assms(2)
proof (induction rows)
  case (Cons r rows)
  then obtain s where "slice_identity_of goals r = Inr s" using slice_total [OF assms(1), of r] by auto
  with Cons slice_key_row [OF assms(1) _ this] show ?case by auto
qed simp

section \<open>Members\<close>

lemma member_rows_mem: "rtraverse (member_row goals) is = Inr rows \<Longrightarrow> set rows \<subseteq> set goals \<and> map gr_id rows = is"
  by (induction "is" arbitrary: rows) (auto simp: rbind_Inr_iff member_row_Inr_iff dest: lookup_by_mem)

lemma member_rows_total:
  assumes "distinct (map gr_id goals)" and "set rows \<subseteq> set goals"
  shows "rtraverse (member_row goals) (map gr_id rows) = Inr rows"
  using assms(2) by (induction rows) (auto simp: member_row_Inr_iff [THEN iffD2, OF lookup_by_distinct [OF assms(1)]])

lemma contracts_repeat:
  assumes "rtraverse parse_contract (map contract_of rows) = Inr cs" and "\<And>r. r \<in> set rows \<Longrightarrow> specs_parsed (gr_specs r)"
  shows "cs = map contract_of rows"
  using assms
proof (induction rows arbitrary: cs)
  case (Cons r rows)
  have "specs_parsed (gr_specs r)" using Cons.prems by simp
  then show ?case using Cons by (auto simp: rbind_Inr_iff parse_contract_def contract_of_def specs_parsed_def)
qed simp

text \<open>What backs a projection, in the identities of its members.\<close>

definition graph_present :: "goal_artifact list \<Rightarrow> string \<Rightarrow> locator option \<Rightarrow> bool" where
  "graph_present as tid l \<longleftrightarrow> (case l of None \<Rightarrow> True
     | Some m \<Rightarrow> \<exists>a \<in> set as. payload_kind (ga_payload a) = ContractGraphKind \<and> ga_task a = tid \<and> locator_of a = m)"

lemma fact_backedI:
  assumes "task_rows tid goals" and "rtraverse (member_row goals) (members_of (Some f)) = Inr rows"
    and "pp_goals (gf_payload f) = map contract_of rows" and "distinct (map (slice_key goals) (members_of (Some f)))"
    and "graph_present as tid (pp_graph (gf_payload f))"
  shows "fact_backed goals as tid f"
proof -
  have rows: "set rows \<subseteq> set goals" "map gr_id rows = members_of (Some f)" using member_rows_mem [OF assms(2)] by simp_all
  obtain slices where s: "rtraverse (slice_identity_of goals) rows = Inr slices" "map sl_slice slices = map (\<lambda>r. slice_key goals (gr_id r)) rows"
    using slices_of_rows [OF assms(1) rows(1)] by auto
  have "map sl_slice slices = map (slice_key goals) (members_of (Some f))" unfolding s(2) rows(2) [symmetric] by simp
  then have "distinct (map sl_slice slices)" using assms(4) by simp
  then show ?thesis using assms(2,3,5) s(1) unfolding fact_backed_def graph_present_def by blast
qed

lemma fact_backedE:
  assumes "task_rows tid goals" and "fact_backed goals as tid f"
  obtains rows where "rtraverse (member_row goals) (members_of (Some f)) = Inr rows" and "pp_goals (gf_payload f) = map contract_of rows"
    and "distinct (map (slice_key goals) (members_of (Some f)))" and "graph_present as tid (pp_graph (gf_payload f))"
proof -
  obtain rows slices where r: "rtraverse (member_row goals) (members_of (Some f)) = Inr rows" "pp_goals (gf_payload f) = map contract_of rows"
      "rtraverse (slice_identity_of goals) rows = Inr slices" "distinct (map sl_slice slices)"
      and g: "graph_present as tid (pp_graph (gf_payload f))"
    using assms(2) unfolding fact_backed_def graph_present_def by blast
  have rows: "set rows \<subseteq> set goals" "map gr_id rows = members_of (Some f)" using member_rows_mem [OF r(1)] by simp_all
  from slices_of_rows [OF assms(1) rows(1)] r(3) have "map sl_slice slices = map (\<lambda>r. slice_key goals (gr_id r)) rows" by auto
  then have "map sl_slice slices = map (slice_key goals) (members_of (Some f))" unfolding rows(2) [symmetric] by simp
  with r g that show ?thesis by metis
qed

end
