(* ===== verification/GoalCommand.thy ===== *)
theory GoalCommand
  imports GoalStore
begin

text \<open>
  A command on one goal keeps the invariant of the goal tables: what a publication adds to the chain
  of projections, and the rows and members of the three commands.
\<close>

section \<open>Publishing a projection\<close>

lemma insert_fact:
  assumes "insert_payload env st i tid (ProjectionPayload q) = Inr (st', l)" and "parse_projection q = Inr q"
    and "distinct (map ga_id (gs_artifacts st))"
  obtains a f where "gs_artifacts st' = gs_artifacts st @ [a]" and "gs_goals st' = gs_goals st" and "grows st [] [a] st'"
    and "fact_of a = [f]" and "gf_payload f = q" and "ga_task a = tid" and "artifact_sound env (gs_revision st') a"
    and "distinct (map ga_id (gs_artifacts st'))" and "l = fact_locator f" and "gs_revision st' = gs_revision st + 1"
    and "gf_id f = i" and "gs_tasks st' = gs_tasks st" and "gf_revision f = gs_revision st'"
proof -
  obtain a where a: "st' = st\<lparr>gs_artifacts := gs_artifacts st @ [a], gs_revision := gs_revision st + 1\<rparr>" "l = locator_of a"
      "ga_payload a = ProjectionPayload q" "ga_task a = tid" "ga_id a = i" "i \<notin> ga_id ` set (gs_artifacts st)"
      "ga_sha a = ge_sha env (ProjectionPayload q)" "ga_revision a = gs_revision st + 1" "locator_ok (locator_of a)"
    using insert_payload_facts [OF assms(1)] .
  let ?f = "\<lparr>gf_id = ga_id a, gf_revision = ga_revision a, gf_sha = ga_sha a, gf_payload = q\<rparr>"
  show ?thesis
  proof (rule that [of a ?f])
    show "grows st [] [a] st'" using a by (simp add: grows_def graph_kind_def)
    show "artifact_sound env (gs_revision st') a" using a assms(2) by (simp add: artifact_sound_def)
    show "distinct (map ga_id (gs_artifacts st'))" using a assms(3) by simp
  qed (use a in \<open>simp_all add: fact_of_def fact_locator_def locator_of_def\<close>)
qed

lemma facts_of_one: "fact_of a = [f] \<Longrightarrow> facts_of [a] t = (if t = ga_task a then [f] else [])"
  by (cases "ga_payload a") (simp_all add: facts_of_def projection_rows_def fact_of_def)

text \<open>What the schema leaves of a payload that makes goals current.\<close>

lemma parsed_executable:
  assumes "parse_projection (executable_payload pv producer prior graph members removals goals findings) = Inr q"
  shows "pp_prior q = prior" and "pp_graph q = graph" and "rtraverse parse_contract goals = Inr (pp_goals q)"
    and "gf_payload f = q \<Longrightarrow> members_of (Some f) = members" and "distinct members" and "pp_projection q \<noteq> None"
    and "parse_projection q = Inr q"
  using parse_projection_fields [OF assms] parse_projection_stable [OF assms]
  by (auto simp: executable_payload_def split: option.splits)

lemma consumes_current: "pp_prior (gf_payload f) = map_option fact_locator current \<Longrightarrow> consumes f current"
  by (cases current) (simp_all add: consumes_def fact_locator_def)

lemma publish_ok:
  assumes ok: "goal_ok env st" and g: "grows st gs as st'"
    and rows: "rows_ok (gs_goals st')" and specs: "\<And>g. g \<in> set gs \<Longrightarrow> specs_parsed (gr_specs g)"
    and ids: "distinct (map ga_id (gs_artifacts st'))"
    and sound: "\<And>a. a \<in> set as \<Longrightarrow> artifact_sound env (gs_revision st') a"
    and facts: "\<And>t. successful (facts_of as t) = (if t = tid then [f] else [])"
    and prior: "consumes f (tip_fact st tid)" and backed: "fact_backed (goals_of st' tid) (gs_artifacts st') tid f"
  shows "goal_ok env st' \<and> tip_fact st' tid = Some f \<and> (\<forall>t. t \<noteq> tid \<longrightarrow> tip_fact st' t = tip_fact st t)"
proof (intro conjI allI impI)
  show "goal_ok env st'"
    by (rule goal_ok_grows [OF ok g rows specs ids sound]) (use facts prior backed in \<open>auto split: if_splits\<close>)
qed (simp_all add: tip_fact_grows [OF g] facts)

lemma goals_of_task: "goal_ok env st \<Longrightarrow> task_rows tid (goals_of st tid)"
  unfolding goals_of_def by (rule rows_ok_task [OF goal_okD(1)])

lemma tip_backed:
  assumes "goal_ok env st"
  obtains rows where "rtraverse (member_row (goals_of st tid)) (members_of (tip_fact st tid)) = Inr rows"
    and "distinct (map (slice_key (goals_of st tid)) (members_of (tip_fact st tid)))"
    and "graph_present (gs_artifacts st) tid (case tip_fact st tid of None \<Rightarrow> None | Some f \<Rightarrow> pp_graph (gf_payload f))"
proof (cases "tip_fact st tid")
  case None
  then show ?thesis by (auto intro!: that [of "[]"] simp: graph_present_def)
next
  case (Some f)
  have "fact_backed (goals_of st tid) (gs_artifacts st) tid f" by (rule goal_okD(7) [OF assms tip_fact_mem [OF Some]])
  then obtain rows where "rtraverse (member_row (goals_of st tid)) (members_of (Some f)) = Inr rows"
      "distinct (map (slice_key (goals_of st tid)) (members_of (Some f)))" "graph_present (gs_artifacts st) tid (pp_graph (gf_payload f))"
    by (rule fact_backedE [OF goals_of_task [OF assms]])
  with that show ?thesis unfolding Some by simp
qed

lemma tip_members:
  assumes "goal_ok env st"
  shows "set (members_of (tip_fact st tid)) \<subseteq> gr_id ` set (goals_of st tid)" and "distinct (members_of (tip_fact st tid))"
proof -
  obtain rows where "rtraverse (member_row (goals_of st tid)) (members_of (tip_fact st tid)) = Inr rows"
    and d: "distinct (map (slice_key (goals_of st tid)) (members_of (tip_fact st tid)))"
    using tip_backed [OF assms] by blast
  from member_rows_mem [OF this(1)] have rows: "set rows \<subseteq> set (goals_of st tid)" "map gr_id rows = members_of (tip_fact st tid)"
    by simp_all
  show "set (members_of (tip_fact st tid)) \<subseteq> gr_id ` set (goals_of st tid)"
    unfolding rows(2) [symmetric] set_map by (rule image_mono [OF rows(1)])
  from d show "distinct (members_of (tip_fact st tid))" by (simp add: distinct_map)
qed

section \<open>Members of a command\<close>

lemma replace_first_map:
  assumes "old \<in> set xs" and "distinct xs" and "\<And>x. x \<in> set xs \<Longrightarrow> f' x = f x" and "f' new = f old"
  shows "map f' (replace_first old new xs) = map f xs"
  using assms by (induction xs) (auto intro: map_cong)

lemma replace_first_mem: "set (replace_first old new xs) \<subseteq> insert new (set xs)"
  by (induction xs) auto

lemma distinct_map_remove1: "distinct (map f xs) \<Longrightarrow> distinct (map f (remove1 x xs))"
  by (auto simp: distinct_map intro: inj_on_subset)

text \<open>The specs that a command brings have passed their schema.\<close>

fun mutation_parsed :: "goal_mutation \<Rightarrow> bool" where
  "mutation_parsed (AddMutation g) \<longleftrightarrow> specs_parsed (gi_specs g)"
| "mutation_parsed (ModifyMutation _ u) \<longleftrightarrow> (case gu_specs u of None \<Rightarrow> True | Some ss \<Rightarrow> specs_parsed ss)"
| "mutation_parsed (RemoveMutation _) \<longleftrightarrow> True"

definition plan_good :: "goal_store \<Rightarrow> string \<Rightarrow> mutation_plan \<Rightarrow> bool" where
  "plan_good st tid p \<longleftrightarrow> rows_ok (gs_goals (pl_store p)) \<and> gs_artifacts (pl_store p) = gs_artifacts st
     \<and> distinct (map (slice_key (goals_of (pl_store p) tid)) (pl_members p))
     \<and> (\<exists>gs. grows st gs [] (pl_store p) \<and> (\<forall>g \<in> set gs. specs_parsed (gr_specs g) \<and> gr_task g = tid))"

lemma insert_goal_task:
  assumes "insert_goal st g = Inr st'" and "rows_ok (gs_goals st)" and "gr_task g = tid"
  shows "task_rows tid (goals_of st tid)" and "task_rows tid (goals_of st tid @ [g])" and "goals_of st' tid = goals_of st tid @ [g]"
    and "rows_ok (gs_goals st')" and "grows st [g] [] st'" and "gs_artifacts st' = gs_artifacts st"
    and "gr_id g \<notin> gr_id ` set (goals_of st tid)"
proof -
  have r: "rows_ok (gs_goals st')" "grows st [g] [] st'" "gs_artifacts st' = gs_artifacts st" "gr_id g \<notin> gr_id ` set (gs_goals st)"
    using insert_goal_rows [OF assms(1,2)] by simp_all
  have eq: "goals_of st' tid = goals_of st tid @ [g]" using grows_goals [OF r(2), of tid] assms(3) by simp
  have "task_rows tid (goals_of st' tid)" unfolding goals_of_def by (rule rows_ok_task [OF r(1)])
  then show "task_rows tid (goals_of st tid @ [g])" by (simp only: eq)
  show "task_rows tid (goals_of st tid)" unfolding goals_of_def by (rule rows_ok_task [OF assms(2)])
  show "gr_id g \<notin> gr_id ` set (goals_of st tid)" using r(4) by (auto simp: goals_of_def)
  show "goals_of st' tid = goals_of st tid @ [g]" by (rule eq)
  show "rows_ok (gs_goals st')" "grows st [g] [] st'" "gs_artifacts st' = gs_artifacts st" by (rule r)+
qed

lemma added_key:
  assumes "insert_goal st g = Inr st'" and "rows_ok (gs_goals st)" and "gr_task g = tid" and "parent_of g = None"
  shows "slice_key (goals_of st' tid) (gr_id g) = gr_id g"
proof -
  note t = insert_goal_task [OF assms(1,2,3)]
  show ?thesis unfolding t(3) by (rule slice_key_root [OF t(2) _ assms(4)]) simp
qed

lemma revised_key:
  assumes "insert_goal st g = Inr st'" and "rows_ok (gs_goals st)" and "gr_task g = tid"
    and "parent_of g = Some (gr_id q)" and "q \<in> set (goals_of st tid)"
  shows "slice_key (goals_of st' tid) (gr_id g) = slice_key (goals_of st tid) (gr_id q)"
proof -
  note t = insert_goal_task [OF assms(1,2,3)]
  show ?thesis unfolding t(3) by (rule slice_of_revision [OF t(2,1) assms(5) _ assms(4)]) simp
qed

lemma added_good:
  assumes ins: "insert_goal st g = Inr st'" and rows: "rows_ok (gs_goals st)" and tid: "gr_task g = tid"
    and root: "parent_of g = None" and members: "set members \<subseteq> gr_id ` set (goals_of st tid)"
    and slices: "distinct (map (slice_key (goals_of st tid)) members)"
  shows "distinct (map (slice_key (goals_of st' tid)) (members @ [gr_id g]))"
proof -
  note t = insert_goal_task [OF ins rows tid]
  have old: "map (slice_key (goals_of st' tid)) members = map (slice_key (goals_of st tid)) members"
    unfolding t(3) by (rule map_cong [OF refl], rule slice_key_append [OF t(1,2)], rule subsetD [OF members])
  have "slice_key (goals_of st' tid) (gr_id g) = gr_id g" by (rule added_key [OF ins rows tid root])
  moreover have "gr_id g \<notin> slice_key (goals_of st tid) ` set members"
    using slice_key_mem [OF t(1) subsetD [OF members]] t(7) by force
  ultimately show ?thesis using slices unfolding map_append old by simp
qed

lemma revised_good:
  assumes ins: "insert_goal st g = Inr st'" and rows: "rows_ok (gs_goals st)" and tid: "gr_task g = tid"
    and parent: "parent_of g = Some (gr_id q)" and q: "q \<in> set (goals_of st tid)"
    and members: "set members \<subseteq> gr_id ` set (goals_of st tid)" "distinct members" "gr_id q \<in> set members"
  shows "map (slice_key (goals_of st' tid)) (replace_first (gr_id q) (gr_id g) members) = map (slice_key (goals_of st tid)) members"
proof -
  note t = insert_goal_task [OF ins rows tid]
  show ?thesis
  proof (rule replace_first_map [OF members(3,2)])
    show "slice_key (goals_of st' tid) (gr_id g) = slice_key (goals_of st tid) (gr_id q)"
      by (rule revised_key [OF ins rows tid parent q])
    show "slice_key (goals_of st' tid) x = slice_key (goals_of st tid) x" if "x \<in> set members" for x
      unfolding t(3) by (rule slice_key_append [OF t(1,2) subsetD [OF members(1) that]])
  qed
qed

text \<open>The members of a projection have an identity.\<close>

lemma tip_nonempty:
  assumes "goal_ok env st" and "i \<in> set (members_of (tip_fact st tid))"
  shows "i \<noteq> []"
proof -
  obtain f where f: "tip_fact st tid = Some f" using assms(2) by (cases "tip_fact st tid") auto
  have "f \<in> set (facts_of (gs_artifacts st) tid)" using tip_fact_mem [OF f] by (simp add: successful_def)
  then obtain a where a: "a \<in> set (gs_artifacts st)" "ga_payload a = ProjectionPayload (gf_payload f)" by (rule facts_mem)
  then have "artifact_sound env (gs_revision st) a" by (intro goal_okD(5) [OF assms(1)]) (simp_all add: graph_kind_def)
  then have parsed: "parse_projection (gf_payload f) = Inr (gf_payload f)" using a(2) by (simp add: artifact_sound_def)
  obtain g where g: "pp_projection (gf_payload f) = Some g" "i \<in> set (gp_members g)"
    using assms(2) f by (cases "pp_projection (gf_payload f)") auto
  then have "i \<in> set (map gc_id (pp_goals (gf_payload f)))"
    using parse_projection_fields(6) [OF parsed] by (simp add: projection_consistent_def)
  then obtain c where c: "c \<in> set (pp_goals (gf_payload f))" "gc_id c = i" by auto
  from rtraverse_Inr_mem [OF parse_projection_fields(5) [OF parsed] c(1)] obtain d where "parse_contract c = Inr d" by auto
  then show ?thesis using c(2) by (auto simp: parse_contract_def rbind_Inr_iff nonempty_texts_def)
qed

lemma target_member:
  assumes "mutation_target st inp members i = Inr g"
  shows "i \<in> set members" and "g \<in> set (goals_of st (mi_task inp))" and "gr_id g = i"
  using assms by (auto simp: mutation_target_def rbind_Inr_iff member_row_Inr_iff dest: lookup_by_mem split: if_splits option.splits)

text \<open>The list of members before and after a command.\<close>

fun next_members :: "goal_mutation \<Rightarrow> string \<Rightarrow> string list \<Rightarrow> string list" where
  "next_members (AddMutation _) i members = members @ [i]"
| "next_members (ModifyMutation old _) i members = replace_first old i members"
| "next_members (RemoveMutation old) _ members = remove1 old members"

definition plan_key :: "goal_store \<Rightarrow> mutation_input \<Rightarrow> goal_row list \<Rightarrow> string \<Rightarrow> bool" where
  "plan_key st inp goals' i \<longleftrightarrow> (case mi_mutation inp of
      AddMutation _ \<Rightarrow> slice_key goals' i = i
    | ModifyMutation old _ \<Rightarrow> slice_key goals' i = slice_key (goals_of st (mi_task inp)) old
    | RemoveMutation _ \<Rightarrow> True)"

lemma plan_mutation_good:
  assumes ok: "goal_ok env st" and parsed: "mutation_parsed (mi_mutation inp)"
    and plan: "plan_mutation env nm st inp b (members_of (tip_fact st (mi_task inp))) = Inr (Some p)"
  shows "plan_good st (mi_task inp) p \<and> pl_members p = next_members (mi_mutation inp) (pl_goal p) (members_of (tip_fact st (mi_task inp)))
    \<and> plan_key st inp (goals_of (pl_store p) (mi_task inp)) (pl_goal p)"
proof -
  let ?tid = "mi_task inp" and ?members = "members_of (tip_fact st (mi_task inp))"
  have rows: "rows_ok (gs_goals st)" by (rule goal_okD(1) [OF ok])
  note mem = tip_members [OF ok, of ?tid]
  obtain rs where slices: "distinct (map (slice_key (goals_of st ?tid)) ?members)" using tip_backed [OF ok] by blast
  show ?thesis
  proof (cases "mi_mutation inp")
    case (AddMutation g)
    then obtain i st' order where ins: "insert_goal st (row_of_input env i ?tid (gb_requirement b) (gb_graph b) ''system'' g None order
            (default [] (gi_metadata g)) (mi_now inp)) = Inr st'" (is "insert_goal st ?r = _")
        and p: "pl_store p = st'" "pl_members p = ?members @ [i]" "pl_goal p = i"
      using plan by (auto simp: plan_mutation_def add_plan_def Let_def rbind_Inr_iff split: if_splits)
    have r: "gr_task ?r = ?tid" "parent_of ?r = None" "gr_id ?r = i" "gr_specs ?r = gi_specs g"
      by (simp_all add: row_of_input_def parent_of_def)
    note t = insert_goal_task [OF ins rows r(1)]
    have "distinct (map (slice_key (goals_of st' ?tid)) (?members @ [gr_id ?r]))"
      by (rule added_good [OF ins rows r(1,2) mem(1) slices])
    then show ?thesis using t(4,5,6) r p parsed AddMutation added_key [OF ins rows r(1,2)] by (auto simp: plan_good_def plan_key_def)
  next
    case (ModifyMutation i u)
    then obtain g where tg: "mutation_target st inp ?members i = Inr g"
        and mp: "modify_plan env nm st inp b ?members g u = Inr p"
      using plan by (auto simp: plan_mutation_def rbind_Inr_iff split: if_splits)
    note g = target_member [OF tg]
    let ?r = "revised_row env (gn_goal nm 0) b g u (mp_reason (mi_producer inp)) (mi_now inp)"
    obtain st' where ins: "insert_goal st ?r = Inr st'"
        and p: "pl_store p = st'" "pl_members p = replace_first i (gn_goal nm 0) ?members" "pl_goal p = gn_goal nm 0"
      using mp g(3) by (auto simp: modify_plan_def Let_def rbind_Inr_iff)
    have "gr_task g = ?tid" using g(2) by (simp add: goals_of_def)
    then have r: "gr_task ?r = ?tid" "gr_id ?r = gn_goal nm 0" "gr_specs ?r = default (gr_specs g) (gu_specs u)"
      by (simp_all add: revised_row_def Let_def)
    have parent: "parent_of ?r = Some (gr_id g)" using tip_nonempty [OF ok g(1)] g(3) by (simp add: revised_row_def parent_of_def Let_def)
    from revised_good [OF ins rows r(1) parent g(2) mem] g(1,3)
    have "map (slice_key (goals_of st' ?tid)) (pl_members p) = map (slice_key (goals_of st ?tid)) ?members"
      by (simp add: p(2) r(2))
    moreover have "specs_parsed (gr_specs ?r)"
      using parsed ModifyMutation goal_okD(3) [OF ok, of g] g(2) r(3) by (simp add: default_def goals_of_def split: option.splits)
    ultimately show ?thesis
      using insert_goal_task(4,5,6) [OF ins rows r(1)] r p slices ModifyMutation revised_key [OF ins rows r(1) parent g(2)] g(3)
      by (auto simp: plan_good_def plan_key_def)
  next
    case (RemoveMutation i)
    then obtain g where "mutation_target st inp ?members i = Inr g" and p: "p = remove_plan st inp ?members g"
      using plan by (auto simp: plan_mutation_def rbind_Inr_iff)
    then have "gr_id g = i" using target_member by blast
    then have "pl_store p = st" "pl_members p = remove1 i ?members" by (simp_all add: p remove_plan_def)
    moreover have "grows st [] [] st" by (rule grows_refl)
    ultimately show ?thesis using rows distinct_map_remove1 [OF slices] RemoveMutation by (auto simp: plan_good_def plan_key_def)
  qed
qed

section \<open>A command keeps the invariant\<close>

lemma publish_plan_ok:
  assumes ok: "goal_ok env st" and good: "plan_good st (mi_task inp) p"
    and pub: "publish_plan env nm inp (tip_fact st (mi_task inp)) p = Inr (st', l)"
  obtains f where "goal_ok env st'" and "tip_fact st' (mi_task inp) = Some f" and "members_of (Some f) = pl_members p"
    and "\<forall>t. t \<noteq> mi_task inp \<longrightarrow> tip_fact st' t = tip_fact st t" and "l = fact_locator f"
    and "\<exists>gs as. grows st gs as st'" and "gs_goals st' = gs_goals (pl_store p)"
proof -
  let ?tid = "mi_task inp" and ?st = "pl_store p"
  let ?graph = "case tip_fact st ?tid of None \<Rightarrow> None | Some f \<Rightarrow> pp_graph (gf_payload f)"
  obtain gs where gs: "rows_ok (gs_goals ?st)" "gs_artifacts ?st = gs_artifacts st"
      "distinct (map (slice_key (goals_of ?st ?tid)) (pl_members p))" "grows st gs [] ?st"
      "\<And>g. g \<in> set gs \<Longrightarrow> specs_parsed (gr_specs g)"
    using good unfolding plan_good_def by blast
  obtain rows q where rows: "rtraverse (member_row (goals_of ?st ?tid)) (pl_members p) = Inr rows"
      and q: "parse_projection (executable_payload no_provenance (MutationBy (mi_producer inp)) (map_option fact_locator (tip_fact st ?tid))
         ?graph (pl_members p) (pl_removals p) (map contract_of rows) [pl_finding p]) = Inr q"
      and ins: "insert_payload env ?st (gn_projection nm) ?tid (ProjectionPayload q) = Inr (st', l)"
    using pub by (auto simp: publish_plan_def rbind_Inr_iff)
  note pq = parsed_executable [OF q]
  have ids: "distinct (map ga_id (gs_artifacts ?st))" using goal_okD(4) [OF ok] gs(2) by simp
  obtain a f where a: "gs_artifacts st' = gs_artifacts ?st @ [a]" "gs_goals st' = gs_goals ?st" "grows ?st [] [a] st'"
      "fact_of a = [f]" "gf_payload f = q" "ga_task a = ?tid" "artifact_sound env (gs_revision st') a"
      "distinct (map ga_id (gs_artifacts st'))" "l = fact_locator f"
    by (rule insert_fact [OF ins pq(7) ids])
  have grow: "grows st gs [a] st'" using grows_trans [OF gs(4) a(3)] by simp
  have goals: "goals_of st' ?tid = goals_of ?st ?tid" by (simp add: goals_of_def a(2))
  have task: "task_rows ?tid (goals_of ?st ?tid)" unfolding goals_of_def by (rule rows_ok_task [OF gs(1)])
  have members: "members_of (Some f) = pl_members p" by (rule pq(4) [OF a(5)])
  have "specs_parsed (gr_specs r)" if "r \<in> set rows" for r
  proof -
    have "r \<in> set (gs_goals ?st)" using member_rows_mem [OF rows] that by (auto simp: goals_of_def)
    then show ?thesis using gs(4,5) goal_okD(3) [OF ok] by (auto simp: grows_def)
  qed
  then have contracts: "pp_goals (gf_payload f) = map contract_of rows" using contracts_repeat [OF pq(3)] a(5) by simp
  have "graph_present (gs_artifacts st) ?tid ?graph" using tip_backed [OF ok] by blast
  then have "graph_present (gs_artifacts st') ?tid (pp_graph (gf_payload f))"
    using a(1,5) gs(2) pq(2) by (auto simp: graph_present_def split: option.splits)
  then have backed: "fact_backed (goals_of st' ?tid) (gs_artifacts st') ?tid f"
    unfolding goals using fact_backedI [OF task] rows contracts gs(3) members by simp
  have "successful [f] = [f]" using pq(6) a(5) by (simp add: successful_def)
  then have facts: "successful (facts_of [a] t) = (if t = ?tid then [f] else [])" for t
    using facts_of_one [OF a(4)] a(6) by (simp add: successful_def)
  have prior: "consumes f (tip_fact st ?tid)" by (rule consumes_current) (simp add: a(5) pq(1))
  have rows': "rows_ok (gs_goals st')" using gs(1) a(2) by simp
  have sound: "artifact_sound env (gs_revision st') c" if "c \<in> set [a]" for c using a(7) that by simp
  have "goal_ok env st' \<and> tip_fact st' ?tid = Some f \<and> (\<forall>t. t \<noteq> ?tid \<longrightarrow> tip_fact st' t = tip_fact st t)"
    by (rule publish_ok [OF ok grow rows' gs(5) a(8) sound facts prior backed])
  with that members a(2,9) grow show ?thesis by blast
qed

text \<open>What a command does to the tip of its Task.\<close>

definition commanded :: "goal_store \<Rightarrow> mutation_input \<Rightarrow> goal_store \<Rightarrow> mutation_result \<Rightarrow> bool" where
  "commanded st inp st' r \<longleftrightarrow> (case r of
      MutationUnchanged _ _ \<Rightarrow> st' = st
    | MutationApplied i _ l \<Rightarrow>
        members_of (tip_fact st' (mi_task inp)) = next_members (mi_mutation inp) i (members_of (tip_fact st (mi_task inp)))
        \<and> Some l = map_option fact_locator (tip_fact st' (mi_task inp))
        \<and> plan_key st inp (goals_of st' (mi_task inp)) i)"

lemma apply_mutation_ok:
  assumes ok: "goal_ok env st" and parsed: "mutation_parsed (mi_mutation inp)"
    and run: "apply_goal_mutation env nm st inp = Inr (st', r)"
  shows "goal_ok env st' \<and> (\<exists>gs as. grows st gs as st') \<and> (\<forall>t. t \<noteq> mi_task inp \<longrightarrow> tip_fact st' t = tip_fact st t)
    \<and> commanded st inp st' r"
proof -
  obtain b plan where plan: "plan_mutation env nm st inp b (members_of (tip_fact st (mi_task inp))) = Inr plan"
      and rest: "(case plan of
            None \<Rightarrow>
              (case (mi_mutation inp, tip_fact st (mi_task inp)) of
                 (ModifyMutation i _, Some f) \<Rightarrow> Inr (st, MutationUnchanged i (fact_locator f))
               | (m, _) \<Rightarrow> Inl (NoCurrentProjection (case m of ModifyMutation i _ \<Rightarrow> i | _ \<Rightarrow> [])))
          | Some p \<Rightarrow>
              rbind (publish_plan env nm inp (tip_fact st (mi_task inp)) p) (\<lambda>(st', l).
                Inr (st', MutationApplied (pl_goal p) (pl_supersede p) l))) = Inr (st', r)"
    using run unfolding apply_goal_mutation_def current_projection_ok [OF ok] rbind_simps by (auto simp: rbind_Inr_iff split: if_splits)
  show ?thesis
  proof (cases plan)
    case None
    then have "st' = st" "\<exists>i l. r = MutationUnchanged i l" using rest by (auto split: goal_mutation.splits option.splits)
    then show ?thesis using ok grows_refl by (auto simp: commanded_def)
  next
    case (Some p)
    then obtain l where pub: "publish_plan env nm inp (tip_fact st (mi_task inp)) p = Inr (st', l)"
        and r: "r = MutationApplied (pl_goal p) (pl_supersede p) l"
      using rest by (auto simp: rbind_Inr_iff)
    have good: "plan_good st (mi_task inp) p"
        and after: "pl_members p = next_members (mi_mutation inp) (pl_goal p) (members_of (tip_fact st (mi_task inp)))"
        and key: "plan_key st inp (goals_of (pl_store p) (mi_task inp)) (pl_goal p)"
      using plan_mutation_good [OF ok parsed] plan Some by blast+
    obtain f where "goal_ok env st'" "tip_fact st' (mi_task inp) = Some f" "members_of (Some f) = pl_members p"
        "\<forall>t. t \<noteq> mi_task inp \<longrightarrow> tip_fact st' t = tip_fact st t" "l = fact_locator f" "\<exists>gs as. grows st gs as st'"
        "gs_goals st' = gs_goals (pl_store p)"
      by (rule publish_plan_ok [OF ok good pub])
    then show ?thesis using r after key by (simp add: commanded_def goals_of_def)
  qed
qed

end
