(* ===== verification/GoalPublish.thy ===== *)
theory GoalPublish
  imports GoalCommand
begin

text \<open>
  The publication of a completed Architect Turn keeps the invariant of the goal tables, and so does
  the preservation of a candidate. The rows are inserted after the projection that names them, so
  the invariant is restored only by the last insert of the transaction.
\<close>

section \<open>Assigning identities\<close>

definition changed_current :: "architect_context \<Rightarrow> assignment \<Rightarrow> bool" where
  "changed_current c a \<longleftrightarrow> (\<forall>x \<in> set (as_changed a). current_row c x \<noteq> None)
     \<and> (\<forall>(al, i) \<in> set (as_ids a). \<forall>g. current_row c al = Some g \<longrightarrow> i = gr_id g \<or> al \<in> set (as_changed a))"

lemma assign_current_ok:
  assumes "assign_current env nm c inp graphs ags a = Inr a'" and "changed_current c a"
  shows "changed_current c a' \<and> fst ` set (as_ids a) \<subseteq> fst ` set (as_ids a')
    \<and> (\<forall>ag \<in> set ags. current_row c (fst ag) \<noteq> None \<longrightarrow> fst ag \<in> fst ` set (as_ids a'))"
  using assms
proof (induction ags arbitrary: a)
  case (Cons ag ags)
  show ?case
  proof (cases "current_row c (fst ag)")
    case None
    then show ?thesis using Cons.IH [of a] Cons.prems by simp
  next
    case (Some g)
    let ?same = "a\<lparr>as_ids := as_ids a @ [(fst ag, gr_id g)]\<rparr>"
    let ?fresh = "a\<lparr>as_ids := as_ids a @ [(fst ag, gn_goal nm (as_drawn a))], as_changed := as_changed a @ [fst ag],
                      as_drawn := Suc (as_drawn a)\<rparr>"
    obtain b where b: "b = ?same \<or> b = ?fresh" "assign_current env nm c inp graphs ags b = Inr a'"
      using Cons.prems(1) Some by (auto simp: rbind_Inr_iff split: if_splits)
    have "changed_current c b" using b(1) Cons.prems(2) Some unfolding changed_current_def by (elim disjE) fastforce+
    note IH = Cons.IH [OF b(2) this]
    obtain j where "as_ids b = as_ids a @ [(fst ag, j)]" using b(1) by auto
    then have "fst ` set (as_ids b) = insert (fst ag) (fst ` set (as_ids a))" by simp
    with IH show ?thesis by (simp add: insert_subset)
  qed
qed simp

lemma assign_new_ok:
  assumes "assign_new nm c ags a = Inr a'" and "changed_current c a"
    and "\<And>ag. ag \<in> set ags \<Longrightarrow> current_row c (fst ag) \<noteq> None \<Longrightarrow> fst ag \<in> fst ` set (as_ids a)"
  shows "changed_current c a'"
  using assms
proof (induction ags arbitrary: a)
  case (Cons ag ags)
  have sub: "changed_current c a'" if "assign_new nm c ags b = Inr a'" "b = a \<or> (fst ag \<notin> fst ` set (as_ids a)
      \<and> (\<exists>i n. b = a\<lparr>as_ids := as_ids a @ [(fst ag, i)], as_drawn := n\<rparr>))" for b
  proof (rule Cons.IH [OF that(1)])
    have "current_row c (fst ag) = None" if "fst ag \<notin> fst ` set (as_ids a)"
      using that Cons.prems(3) [of ag] by auto
    then show "changed_current c b" using that(2) Cons.prems(2) unfolding changed_current_def by (elim disjE conjE exE) fastforce+
    show "fst x \<in> fst ` set (as_ids b)" if "x \<in> set ags" "current_row c (fst x) \<noteq> None" for x
      using Cons.prems(3) [of x] that \<open>b = a \<or> _\<close> by auto
  qed
  show ?case
  proof (cases "gi_id (snd ag)")
    case None
    then show ?thesis using Cons.prems(1) by (auto simp: Let_def intro: sub split: if_splits)
  next
    case (Some i)
    have "\<exists>j n. a\<lparr>as_ids := as_ids a @ [(fst ag, i)]\<rparr> = a\<lparr>as_ids := as_ids a @ [(fst ag, j)], as_drawn := n\<rparr>"
      by (intro exI [of _ i] exI [of _ "as_drawn a"]) simp
    then show ?thesis using Cons.prems(1) Some by (auto intro: sub split: if_splits)
  qed
qed simp

lemma assign_goals_ok: "assign_goals env nm c inp = Inr a \<Longrightarrow> changed_current c a"
proof -
  assume "assign_goals env nm c inp = Inr a"
  then obtain graphs b where b: "assign_current env nm c inp graphs (ar_goals inp) \<lparr>as_ids = [], as_changed = [], as_drawn = 0\<rparr> = Inr b"
      and a: "assign_new nm c (ar_goals inp) b = Inr a"
    by (auto simp: assign_goals_def rbind_Inr_iff)
  have "changed_current c \<lparr>as_ids = [], as_changed = [], as_drawn = 0\<rparr>" by (simp add: changed_current_def)
  from assign_current_ok [OF b this] assign_new_ok [OF a] show ?thesis by blast
qed

lemma assigned_mem: "assigned a al = Inr i \<Longrightarrow> (al, i) \<in> set (as_ids a)"
  by (auto simp: assigned_def dest: map_of_SomeD split: option.splits)

section \<open>Inserting the rows\<close>

definition kept :: "architect_context \<Rightarrow> (string \<times> goal_input) \<times> string \<Rightarrow> bool" where
  "kept c z \<longleftrightarrow> map_option gr_id (current_row c (fst (fst z))) = Some (snd z)"

definition placed :: "architect_input \<Rightarrow> string list \<Rightarrow> (string \<times> goal_input) \<times> string \<Rightarrow> goal_row \<Rightarrow> bool" where
  "placed inp changed z g \<longleftrightarrow> gr_id g = snd z \<and> gr_task g = ar_task inp \<and> gr_specs g = gi_specs (snd (fst z))
     \<and> contract_of g = goal_contract_for [] (snd z) (snd (fst z))
     \<and> gr_supersede g = (if fst (fst z) \<in> set changed then Some (fst (fst z)) else None)"

lemma placed_row:
  "placed inp changed ((al, g), i) (row_of_input env i (ar_task inp) requirement graph ''spec'' g
     (if al \<in> set changed then Some al else None) order metadata now)"
  by (simp add: placed_def row_of_input_def contract_of_def goal_contract_for_def lookup_by_def)

lemma insert_rows_ok:
  assumes "insert_rows env c inp graph changed st order zs = Inr st'" and "rows_ok (gs_goals st)"
  shows "\<exists>gs. grows st gs [] st' \<and> rows_ok (gs_goals st') \<and> gs_artifacts st' = gs_artifacts st
    \<and> gs_revision st' = gs_revision st
    \<and> (\<forall>g \<in> set gs. gr_id g \<notin> gr_id ` set (gs_goals st) \<and> (\<exists>z \<in> set zs. placed inp changed z g))
    \<and> (\<forall>z \<in> set zs. kept c z \<or> (\<exists>g \<in> set gs. placed inp changed z g))"
  using assms
proof (induction zs arbitrary: st order)
  case Nil
  then show ?case using grows_refl by auto
next
  case (Cons z zs)
  obtain al g i where z: "z = ((al, g), i)" by (metis prod.exhaust)
  show ?case
  proof (cases "kept c z")
    case True
    then have "insert_rows env c inp graph changed st order zs = Inr st'" using Cons.prems(1) by (simp add: z kept_def)
    from Cons.IH [OF this Cons.prems(2)] True show ?thesis by auto
  next
    case False
    let ?ex = "current_row c al"
    let ?r = "row_of_input env i (ar_task inp) (ac_requirement c) (Some graph) ''spec'' g (if al \<in> set changed then Some al else None)
      (case ?ex of None \<Rightarrow> order | Some e \<Rightarrow> gr_order e)
      (spread (case ?ex of None \<Rightarrow> [] | Some e \<Rightarrow> gr_metadata e) (default [] (gi_metadata g))) (ar_now inp)"
    obtain st1 where ins: "insert_goal st ?r = Inr st1"
        and rest: "insert_rows env c inp graph changed st1 (if ?ex = None then order + 1 else order) zs = Inr st'"
      using Cons.prems(1) False unfolding z kept_def insert_rows.simps Let_def fst_conv snd_conv if_not_P [OF False [unfolded z kept_def fst_conv snd_conv]]
        rbind_Inr_iff by blast
    note r = insert_goal_rows [OF ins Cons.prems(2)]
    have p: "placed inp changed z ?r" unfolding z by (rule placed_row)
    have rev1: "gs_revision st1 = gs_revision st" using ins by (auto simp: insert_goal_def split: if_splits)
    from Cons.IH [OF rest] r obtain gs where gs: "grows st1 gs [] st'" "rows_ok (gs_goals st')" "gs_artifacts st' = gs_artifacts st1"
        "gs_revision st' = gs_revision st1"
        "\<forall>g \<in> set gs. gr_id g \<notin> gr_id ` set (gs_goals st1) \<and> (\<exists>z \<in> set zs. placed inp changed z g)"
        "\<forall>z \<in> set zs. kept c z \<or> (\<exists>g \<in> set gs. placed inp changed z g)" by blast
    have g1: "gs_goals st1 = gs_goals st @ [?r]" using r by (simp add: grows_def)
    have "grows st ([?r] @ gs) [] st'" using grows_trans [of st "[?r]" "[]" st1 gs "[]" st'] r gs(1) by simp
    moreover have "\<forall>g \<in> set ([?r] @ gs). gr_id g \<notin> gr_id ` set (gs_goals st) \<and> (\<exists>y \<in> set (z # zs). placed inp changed y g)"
      using gs(5) r p g1 by auto
    moreover have "\<forall>y \<in> set (z # zs). kept c y \<or> (\<exists>g \<in> set ([?r] @ gs). placed inp changed y g)"
      using gs(6) p by auto
    ultimately show ?thesis using gs(2,3,4) r rev1 by (intro exI [of _ "[?r] @ gs"]) simp
  qed
qed

section \<open>Inserting the contract graph\<close>

lemma insert_graph_ok:
  assumes "insert_graph env nm st inp requirement prior graph fid = Inr (st', l)" and "distinct (map ga_id (gs_artifacts st))"
  obtains a where "gs_artifacts st' = gs_artifacts st @ [a]" and "gs_goals st' = gs_goals st" and "grows st [] [a] st'"
    and "\<And>t. facts_of [a] t = []" and "ga_task a = ar_task inp" and "artifact_sound env (gs_revision st') a"
    and "distinct (map ga_id (gs_artifacts st'))" and "l = locator_of a" and "payload_kind (ga_payload a) = ContractGraphKind"
proof -
  obtain p q where p: "parse_graph_payload p = Inr q"
      and ins: "insert_payload env st (gn_graph nm) (ar_task inp) (ContractGraphPayload q) = Inr (st', l)"
    using assms(1) by (auto simp: insert_graph_def rbind_Inr_iff)
  have q: "parse_graph_payload q = Inr q" using p by (simp add: parse_graph_payload_def)
  obtain a where a: "st' = st\<lparr>gs_artifacts := gs_artifacts st @ [a], gs_revision := gs_revision st + 1\<rparr>" "l = locator_of a"
      "ga_payload a = ContractGraphPayload q" "ga_task a = ar_task inp" "ga_id a = gn_graph nm" "gn_graph nm \<notin> ga_id ` set (gs_artifacts st)"
      "ga_sha a = ge_sha env (ContractGraphPayload q)" "ga_revision a = gs_revision st + 1" "locator_ok (locator_of a)"
    using insert_payload_facts [OF ins] .
  show ?thesis
  proof (rule that [of a])
    show "grows st [] [a] st'" using a by (simp add: grows_def graph_kind_def)
    show "artifact_sound env (gs_revision st') a" using a q by (simp add: artifact_sound_def)
    show "distinct (map ga_id (gs_artifacts st'))" using a assms(2) by simp
    show "facts_of [a] t = []" for t using a(3) by (simp add: facts_of_def projection_rows_def fact_of_def)
  qed (use a in simp_all)
qed

section \<open>The members of a publication\<close>

text \<open>
  The rows of the new members: \<open>zs\<close> pairs the returned goals with their identities, \<open>goals\<close> are the
  rows of the Task before and \<open>goals @ gs\<close> those after.
\<close>

lemma current_row_Some:
  assumes "current_row c al = Some g" and "task_rows tid (ac_goals c)"
  shows "al \<in> set (ac_members c) \<and> g \<in> set (ac_goals c) \<and> gr_id g = al"
  using assms by (auto simp: current_row_def dest: lookup_by_mem split: if_splits)

lemma new_contract:
  assumes rows: "task_rows tid (ac_goals c @ gs)" "task_rows tid (ac_goals c)"
    and z: "kept c z \<or> (\<exists>g \<in> set gs. placed inp changed z g)" and r: "member_row (ac_goals c @ gs) (snd z) = Inr r"
  shows "contract_of r = goal_contract_for (ac_goals c) (snd z) (snd (fst z))"
proof -
  have d: "distinct (map gr_id (ac_goals c @ gs))" using rows(1) by (simp add: task_rows_def)
  then have d1: "distinct (map gr_id (ac_goals c))" by simp
  have look: "lookup_by gr_id (ac_goals c @ gs) (snd z) = Some r" using r by (simp add: member_row_Inr_iff)
  from z show ?thesis
  proof
    assume "kept c z"
    then obtain g where g: "current_row c (fst (fst z)) = Some g" "gr_id g = snd z" by (auto simp: kept_def)
    then have mem: "g \<in> set (ac_goals c)" using current_row_Some [OF _ rows(2)] by blast
    have "r = g" using lookup_by_distinct [OF d, of g] mem look g(2) by simp
    then show ?thesis using lookup_by_distinct [OF d1 mem] g(2) by (simp add: goal_contract_for_def)
  next
    assume "\<exists>g \<in> set gs. placed inp changed z g"
    then obtain g where g: "g \<in> set gs" "placed inp changed z g" by blast
    then have id: "gr_id g = snd z" by (simp add: placed_def)
    have "r = g" using lookup_by_distinct [OF d, of g] g(1) look id by simp
    moreover have "snd z \<notin> gr_id ` set (ac_goals c)" using d g(1) id by (auto simp flip: id)
    then have "lookup_by gr_id (ac_goals c) (snd z) = None" by (simp add: lookup_by_None_iff)
    moreover have "lookup_by gr_id ([] :: goal_row list) (snd z) = None" by (simp add: lookup_by_def)
    ultimately show ?thesis using g(2) by (simp add: placed_def goal_contract_for_def)
  qed
qed

text \<open>A returned current goal stays in its Delivery Slice, every other one starts a slice of its own.\<close>

lemma new_slice:
  assumes rows: "task_rows tid (ac_goals c @ gs)" "task_rows tid (ac_goals c)"
    and members: "set (ac_members c) \<subseteq> gr_id ` set (ac_goals c)" "[] \<notin> set (ac_members c)"
    and a: "changed_current c a" and id: "(fst (fst z), snd z) \<in> set (as_ids a)"
    and z: "kept c z \<or> (\<exists>g \<in> set gs. placed inp (as_changed a) z g)"
  shows "(fst (fst z) \<in> set (ac_members c) \<and> slice_key (ac_goals c @ gs) (snd z) = slice_key (ac_goals c) (fst (fst z)))
    \<or> (fst (fst z) \<notin> set (ac_members c) \<and> snd z \<notin> gr_id ` set (ac_goals c) \<and> slice_key (ac_goals c @ gs) (snd z) = snd z)"
proof -
  have d: "distinct (map gr_id (ac_goals c @ gs))" using rows(1) by (simp add: task_rows_def)
  let ?al = "fst (fst z)"
  have same: ?thesis if "current_row c ?al = Some g" "gr_id g = snd z" for g
  proof -
    have g: "?al \<in> set (ac_members c)" "g \<in> set (ac_goals c)" "gr_id g = ?al" using current_row_Some [OF that(1) rows(2)] by simp_all
    have "slice_key (ac_goals c @ gs) (gr_id g) = slice_key (ac_goals c) (gr_id g)"
      by (rule slice_key_append [OF rows(2,1)]) (use g(2) in simp)
    then show ?thesis using g(1,3) that(2) by simp
  qed
  from z show ?thesis
  proof
    assume "kept c z"
    then show ?thesis using same by (auto simp: kept_def)
  next
    assume "\<exists>g \<in> set gs. placed inp (as_changed a) z g"
    then obtain g where g: "g \<in> set gs" "gr_id g = snd z" "gr_supersede g = (if ?al \<in> set (as_changed a) then Some ?al else None)"
      by (auto simp: placed_def)
    show ?thesis
    proof (cases "?al \<in> set (as_changed a)")
      case True
      then obtain q where "current_row c ?al = Some q" using a by (auto simp: changed_current_def)
      then have q: "?al \<in> set (ac_members c)" "q \<in> set (ac_goals c)" "gr_id q = ?al" using current_row_Some [OF _ rows(2)] by simp_all
      then have "?al \<noteq> []" using members(2) by auto
      then have "parent_of g = Some (gr_id q)" using True g(3) q(3) by (simp add: parent_of_def)
      from slice_of_revision [OF rows(1,2) q(2) g(1) this] show ?thesis using q(1,3) g(2) by simp
    next
      case False
      show ?thesis
      proof (cases "current_row c ?al")
        case None
        then have "?al \<notin> set (ac_members c)" using members(1) by (auto simp: current_row_def lookup_by_None_iff split: if_splits)
        moreover have "snd z \<notin> gr_id ` set (ac_goals c)" using d g(1) by (auto simp flip: g(2))
        moreover have "slice_key (ac_goals c @ gs) (gr_id g) = gr_id g"
          by (rule slice_key_root [OF rows(1)]) (use g False in \<open>simp_all add: parent_of_def\<close>)
        ultimately show ?thesis using g(2) by simp
      next
        case (Some q)
        then have "gr_id q = snd z" using a id False by (fastforce simp: changed_current_def)
        with Some show ?thesis by (rule same)
      qed
    qed
  qed
qed

lemma new_slices_distinct:
  assumes rows: "task_rows tid goals" and old: "distinct (map (slice_key goals) members)" "set members \<subseteq> gr_id ` set goals"
    and al: "distinct (map (fst \<circ> fst) zs)" and ids: "distinct (map snd zs)"
    and z: "\<And>z. z \<in> set zs \<Longrightarrow> (fst (fst z) \<in> set members \<and> slice_key goals' (snd z) = slice_key goals (fst (fst z)))
      \<or> (fst (fst z) \<notin> set members \<and> snd z \<notin> gr_id ` set goals \<and> slice_key goals' (snd z) = snd z)"
  shows "distinct (map (slice_key goals') (map snd zs))"
proof -
  have "inj_on (\<lambda>z. slice_key goals' (snd z)) (set zs)"
  proof (rule inj_onI)
    fix y w
    assume y: "y \<in> set zs" and w: "w \<in> set zs" and eq: "slice_key goals' (snd y) = slice_key goals' (snd w)"
    have key: "slice_key goals i \<in> gr_id ` set goals" if "i \<in> set members" for i
      by (rule slice_key_mem [OF rows subsetD [OF old(2) that]])
    consider "fst (fst y) = fst (fst w)" | "snd y = snd w"
      using z [OF y] z [OF w] eq key old(1) unfolding distinct_map inj_on_def by metis
    then show "y = w"
    proof cases
      case 1
      then show ?thesis using al y w by (auto simp: distinct_map inj_on_def)
    next
      case 2
      then show ?thesis using ids y w by (auto simp: distinct_map inj_on_def)
    qed
  qed
  moreover have "distinct zs" using ids by (simp add: distinct_map)
  ultimately show ?thesis by (simp add: distinct_map comp_def)
qed

section \<open>Publication keeps the invariant\<close>

definition goals_parsed :: "architect_input \<Rightarrow> bool" where
  "goals_parsed inp \<longleftrightarrow> list_all (\<lambda>ag. specs_parsed (gi_specs (snd ag))) (ar_goals inp)"

lemma consumes_selected:
  "pp_prior (gf_payload f) = map_option fact_locator selected \<Longrightarrow> same_fact current selected \<Longrightarrow> consumes f current"
  by (cases current; cases selected) (simp_all add: same_fact_def consumes_def fact_locator_def)

text \<open>What becomes of the Delivery Slice of each returned goal.\<close>

definition slice_step :: "goal_row list \<Rightarrow> string list \<Rightarrow> goal_row list \<Rightarrow> (string \<times> goal_input) \<times> string \<Rightarrow> bool" where
  "slice_step goals members goals' z \<longleftrightarrow>
     (fst (fst z) \<in> set members \<and> slice_key goals' (snd z) = slice_key goals (fst (fst z)))
     \<or> (fst (fst z) \<notin> set members \<and> snd z \<notin> gr_id ` set goals \<and> slice_key goals' (snd z) = snd z)"

definition published :: "goal_store \<Rightarrow> architect_input \<Rightarrow> goal_store \<Rightarrow> locator \<Rightarrow> bool" where
  "published st inp st' l \<longleftrightarrow>
     (let tid = ar_task inp; ids = members_of (tip_fact st' tid)
      in length ids = length (ar_goals inp) \<and> Some l = map_option fact_locator (tip_fact st' tid)
         \<and> (\<forall>z \<in> set (zip (ar_goals inp) ids).
              slice_step (goals_of st tid) (members_of (tip_fact st tid)) (goals_of st' tid) z))"

lemma case_first_Inr: "(case xs of [] \<Rightarrow> Inr a | i # _ \<Rightarrow> Inl (g i)) = Inr b \<longleftrightarrow> xs = [] \<and> a = b"
  by (cases xs) auto

lemma rtraverse_rows_map:
  assumes "rtraverse (member_row goals) (map snd zs) = Inr rows"
    and "\<And>z r. z \<in> set zs \<Longrightarrow> member_row goals (snd z) = Inr r \<Longrightarrow> contract_of r = h z"
  shows "map contract_of rows = map h zs"
  using assms by (induction zs arbitrary: rows) (auto simp: rbind_Inr_iff)

lemma publish_goals_ok:
  assumes ok: "goal_ok env st" and c: "ac_goals c = goals_of st (ar_task inp)" "ac_members c = members_of (tip_fact st (ar_task inp))"
    and a: "changed_current c a" and al: "distinct (map fst (ar_goals inp))" and same: "same_fact (tip_fact st (ar_task inp)) selected"
    and parsed: "goals_parsed inp"
    and pub: "publish_goals env nm st inp c removals (map_option fact_locator selected) pg a = Inr (st', l)"
  shows "goal_ok env st' \<and> (\<exists>gs as. grows st gs as st') \<and> (\<forall>t. t \<noteq> ar_task inp \<longrightarrow> tip_fact st' t = tip_fact st t)
    \<and> published st inp st' l"
proof -
  let ?tid = "ar_task inp" and ?goals = "goals_of st (ar_task inp)" and ?members = "members_of (tip_fact st (ar_task inp))"
  obtain graph ids fid st1 gl q st2 where ids: "rtraverse (assigned a) (map fst (ar_goals inp)) = Inr ids"
      and ig: "insert_graph env nm st inp (ac_requirement c) pg graph fid = Inr (st1, gl)"
      and q: "parse_projection (executable_payload (ar_provenance inp) (ArchitectTurn (fst (ar_producer inp)) (snd (ar_producer inp)))
         (map_option fact_locator selected) (Some gl) ids removals
         (map (\<lambda>(ag, i). goal_contract_for (ac_goals c) i (snd ag)) (zip (ar_goals inp) ids)) []) = Inr q"
      and ip: "insert_payload env st1 (gn_projection nm) ?tid (ProjectionPayload q) = Inr (st2, l)"
      and ir: "insert_rows env c inp gl (as_changed a) st2 (next_order (ac_goals c)) (zip (ar_goals inp) ids) = Inr st'"
      and all: "filter (\<lambda>i. i \<notin> gr_id ` set (goals_of st' ?tid)) ids = []"
    using pub by (auto simp: publish_goals_def rbind_Inr_iff case_first_Inr)
  note pq = parsed_executable [OF q]
  let ?zs = "zip (ar_goals inp) ids"
  have len: "length ids = length (ar_goals inp)" using rtraverse_Inr_length [OF ids] by simp
  have zs: "map fst ?zs = ar_goals inp" "map snd ?zs = ids" using len by simp_all
  obtain ga where ga: "gs_artifacts st1 = gs_artifacts st @ [ga]" "gs_goals st1 = gs_goals st" "grows st [] [ga] st1"
      "\<And>t. facts_of [ga] t = []" "ga_task ga = ?tid" "artifact_sound env (gs_revision st1) ga"
      "distinct (map ga_id (gs_artifacts st1))" "gl = locator_of ga" "payload_kind (ga_payload ga) = ContractGraphKind"
    using insert_graph_ok [OF ig goal_okD(4) [OF ok]] by blast
  obtain pa f where pa: "gs_artifacts st2 = gs_artifacts st1 @ [pa]" "gs_goals st2 = gs_goals st1" "grows st1 [] [pa] st2"
      "fact_of pa = [f]" "gf_payload f = q" "ga_task pa = ?tid" "artifact_sound env (gs_revision st2) pa"
      "distinct (map ga_id (gs_artifacts st2))" "l = fact_locator f" "gs_revision st2 = gs_revision st1 + 1"
    by (rule insert_fact [OF ip pq(7) ga(7)])
  have "rows_ok (gs_goals st2)" using goal_okD(1) [OF ok] pa(2) ga(2) by simp
  from insert_rows_ok [OF ir this] obtain gs where gs: "grows st2 gs [] st'" "rows_ok (gs_goals st')" "gs_artifacts st' = gs_artifacts st2"
      "gs_revision st' = gs_revision st2"
      "\<And>g. g \<in> set gs \<Longrightarrow> \<exists>z \<in> set ?zs. placed inp (as_changed a) z g"
      "\<And>z. z \<in> set ?zs \<Longrightarrow> kept c z \<or> (\<exists>g \<in> set gs. placed inp (as_changed a) z g)" by blast
  have grow: "grows st gs [ga, pa] st'" using grows_trans [OF grows_trans [OF ga(3) pa(3)] gs(1)] by simp
  have task_gs: "filter (\<lambda>g. gr_task g = ?tid) gs = gs" using gs(5) by (fastforce simp: placed_def intro: filter_True)
  have goals': "goals_of st' ?tid = ?goals @ gs" using grows_goals [OF grow, of ?tid] task_gs by simp
  have rows: "task_rows ?tid (ac_goals c @ gs)" "task_rows ?tid (ac_goals c)"
    using rows_ok_task [OF gs(2), of ?tid] goals_of_task [OF ok, of ?tid] goals' by (simp_all add: c goals_of_def)
  have members: "set (ac_members c) \<subseteq> gr_id ` set (ac_goals c)" "[] \<notin> set (ac_members c)"
    using tip_members(1) [OF ok] tip_nonempty [OF ok] by (auto simp: c)
  have step: "slice_step ?goals ?members (goals_of st' ?tid) z" if z: "z \<in> set ?zs" for z
  proof -
    have "\<exists>k < length ids. z = (ar_goals inp ! k, ids ! k)" using z len by (auto simp: set_zip)
    then have "assigned a (fst (fst z)) = Inr (snd z)" using ids len by (auto simp: rtraverse_Inr_iff list_all2_conv_all_nth)
    then have "(fst (fst z), snd z) \<in> set (as_ids a)" by (rule assigned_mem)
    from new_slice [OF rows members a this gs(6) [OF z]] show ?thesis by (simp add: slice_step_def goals' c)
  qed
  have "map gr_id (map (\<lambda>i. the (lookup_by gr_id (ac_goals c @ gs) i)) ids) = ids"
    and look: "\<And>i. i \<in> set ids \<Longrightarrow> \<exists>r. member_row (ac_goals c @ gs) i = Inr r"
  proof -
    have *: "\<exists>r. lookup_by gr_id (ac_goals c @ gs) i = Some r" if "i \<in> set ids" for i
      using all that lookup_by_None_iff [of gr_id "ac_goals c @ gs" i] by (cases "lookup_by gr_id (ac_goals c @ gs) i") (auto simp: goals' c filter_empty_conv)
    show "\<And>i. i \<in> set ids \<Longrightarrow> \<exists>r. member_row (ac_goals c @ gs) i = Inr r" using * by (simp add: member_row_Inr_iff)
    show "map gr_id (map (\<lambda>i. the (lookup_by gr_id (ac_goals c @ gs) i)) ids) = ids"
      using * lookup_by_mem [of gr_id "ac_goals c @ gs"] by (auto intro!: map_idI)
  qed
  obtain rs where rs: "rtraverse (member_row (ac_goals c @ gs)) ids = Inr rs"
    using rtraverse_total [of ids "member_row (ac_goals c @ gs)" "\<lambda>i. the (lookup_by gr_id (ac_goals c @ gs) i)"] look
    by (metis member_row_Inr_iff option.sel)
  have "map contract_of rs = map (\<lambda>z. goal_contract_for (ac_goals c) (snd z) (snd (fst z))) ?zs"
  proof (rule rtraverse_rows_map)
    show "rtraverse (member_row (ac_goals c @ gs)) (map snd ?zs) = Inr rs" using rs zs(2) by simp
    show "contract_of r = goal_contract_for (ac_goals c) (snd z) (snd (fst z))"
      if "z \<in> set ?zs" "member_row (ac_goals c @ gs) (snd z) = Inr r" for z r
      by (rule new_contract [OF rows gs(6) [OF that(1)] that(2)])
  qed
  then have contracts: "rtraverse parse_contract (map contract_of rs) = Inr (pp_goals q)" using pq(3) by (simp add: case_prod_unfold)
  have specs: "specs_parsed (gr_specs g)" if g: "g \<in> set gs" for g
  proof -
    obtain z where "z \<in> set ?zs" "gr_specs g = gi_specs (snd (fst z))" using gs(5) [OF g] by (auto simp: placed_def)
    moreover from this have "fst z \<in> set (ar_goals inp)" by (metis image_eqI zs(1) set_map)
    ultimately show ?thesis using parsed by (auto simp: goals_parsed_def list_all_iff)
  qed
  have "specs_parsed (gr_specs r)" if "r \<in> set rs" for r
    using member_rows_mem [OF rs] that specs goal_okD(3) [OF ok, of r] by (auto simp: c goals_of_def)
  then have pg: "pp_goals (gf_payload f) = map contract_of rs" using contracts_repeat [OF contracts] pa(5) by simp
  have mem: "members_of (Some f) = ids" by (rule pq(4) [OF pa(5)])
  obtain rs0 where "distinct (map (slice_key ?goals) ?members)" using tip_backed [OF ok] by blast
  then have "distinct (map (slice_key (goals_of st' ?tid)) (map snd ?zs))"
    using goals_of_task [OF ok] tip_members(1) [OF ok] al zs pq(5) step [unfolded slice_step_def]
    by (intro new_slices_distinct [where goals = ?goals and members = ?members and zs = ?zs]) (simp_all flip: map_map)
  then have slices: "distinct (map (slice_key (goals_of st' ?tid)) ids)" using zs(2) by simp
  have "graph_present (gs_artifacts st') ?tid (pp_graph (gf_payload f))"
    using ga pa gs(3) pq(2) by (auto simp: graph_present_def)
  then have backed: "fact_backed (goals_of st' ?tid) (gs_artifacts st') ?tid f"
    using fact_backedI [of ?tid "goals_of st' ?tid" f rs] rows(1) rs pg slices mem by (simp add: goals' c)
  have facts: "successful (facts_of [ga, pa] t) = (if t = ?tid then [f] else [])" for t
    using facts_append [of "[ga]" "[pa]" t] facts_of_one [OF pa(4), of t] ga(4) [of t] pa(5,6) pq(6) by (simp add: successful_def)
  have prior: "consumes f (tip_fact st ?tid)" by (rule consumes_selected [OF _ same]) (simp add: pa(5) pq(1))
  have arts: "distinct (map ga_id (gs_artifacts st'))" using pa(8) gs(3) by simp
  have sound: "artifact_sound env (gs_revision st') x" if "x \<in> set [ga, pa]" for x
    using that ga(6) pa(7,10) gs(4) by (auto simp: artifact_sound_def)
  have "goal_ok env st' \<and> tip_fact st' ?tid = Some f \<and> (\<forall>t. t \<noteq> ?tid \<longrightarrow> tip_fact st' t = tip_fact st t)"
    by (rule publish_ok [OF ok grow gs(2) specs arts sound facts prior backed])
  then show ?thesis using grow len mem step pa(9) unfolding published_def Let_def by auto
qed

lemma persist_architectE:
  assumes ok: "goal_ok env st" and run: "persist_architect env nm st inp = Inr (st', l)"
  obtains selected c a removals pg u where "selected_prior env st (ar_task inp) (ar_prior inp) = Inr selected"
    and "rtraverse parse_removal (ar_removals inp) = Inr removals"
    and "same_fact (tip_fact st (ar_task inp)) selected" and "distinct (map fst (ar_goals inp))"
    and "check_partition (goals_of st (ar_task inp)) (members_of (tip_fact st (ar_task inp))) (ar_goals inp) removals = Inr u"
    and "ac_goals c = goals_of st (ar_task inp)" and "ac_members c = members_of (tip_fact st (ar_task inp))"
    and "changed_current c a" and "publish_goals env nm st inp c removals (map_option fact_locator selected) pg a = Inr (st', l)"
proof -
  let ?tid = "ar_task inp"
  obtain removals requirement selected prior_graph prior_payload a u where
      removals: "rtraverse parse_removal (ar_removals inp) = Inr removals"
    and s: "selected_prior env st ?tid (ar_prior inp) = Inr selected" "same_fact (tip_fact st ?tid) selected"
    and d: "distinct (map fst (ar_goals inp))"
    and part: "check_partition (goals_of st ?tid) (members_of (tip_fact st ?tid)) (ar_goals inp) removals = Inr u"
    and a: "assign_goals env nm \<lparr>ac_goals = goals_of st ?tid, ac_members = members_of (tip_fact st ?tid), ac_prior = prior_payload,
        ac_requirement = map_option locator_of requirement\<rparr> inp = Inr a"
    and pub: "publish_goals env nm st inp \<lparr>ac_goals = goals_of st ?tid, ac_members = members_of (tip_fact st ?tid), ac_prior = prior_payload,
        ac_requirement = map_option locator_of requirement\<rparr> removals (map_option fact_locator selected)
        (map_option locator_of prior_graph) a = Inr (st', l)"
    using run unfolding persist_architect_def Let_def current_projection_ok [OF ok] rbind_Inr_iff guard_else_Inr_iff sum.inject by blast
  show ?thesis by (rule that [OF s(1) removals s(2) d part _ _ assign_goals_ok [OF a] pub]) simp_all
qed

lemma persist_architect_ok:
  assumes ok: "goal_ok env st" and parsed: "goals_parsed inp" and run: "persist_architect env nm st inp = Inr (st', l)"
  shows "goal_ok env st' \<and> (\<exists>gs as. grows st gs as st') \<and> (\<forall>t. t \<noteq> ar_task inp \<longrightarrow> tip_fact st' t = tip_fact st t)
    \<and> published st inp st' l"
proof -
  obtain selected c a removals pg where e: "same_fact (tip_fact st (ar_task inp)) selected" "distinct (map fst (ar_goals inp))"
      "ac_goals c = goals_of st (ar_task inp)" "ac_members c = members_of (tip_fact st (ar_task inp))" "changed_current c a"
      "publish_goals env nm st inp c removals (map_option fact_locator selected) pg a = Inr (st', l)"
    using persist_architectE [OF ok run] by metis
  show ?thesis by (rule publish_goals_ok [OF ok e(3,4,5,2,1) parsed e(6)])
qed

section \<open>Candidates\<close>

lemma parsed_candidate:
  assumes "parse_projection (candidate_payload inp prior graph conflicts observed) = Inr q"
  shows "pp_projection q = None"
  using parse_projection_fields(3) [OF assms] by (simp add: candidate_payload_def)

lemma persist_candidate_ok:
  assumes ok: "goal_ok env st" and run: "persist_candidate env nm st inp given = Inr (st', l)"
  shows "goal_ok env st' \<and> (\<exists>as. grows st [] as st') \<and> (\<forall>t. tip_fact st' t = tip_fact st t)"
proof -
  obtain req pg prior gl conflicts observed st1 q where ig: "insert_graph env nm st inp req pg (ar_graph inp) (ar_fidelity inp) = Inr (st1, gl)"
      and q: "parse_projection (candidate_payload inp prior gl conflicts observed) = Inr q"
      and ip: "insert_payload env st1 (gn_projection nm) (ar_task inp) (ProjectionPayload q) = Inr (st', l)"
    using run unfolding persist_candidate_def by (auto simp: rbind_Inr_iff Let_def)
  obtain ga where ga: "gs_artifacts st1 = gs_artifacts st @ [ga]" "gs_goals st1 = gs_goals st" "grows st [] [ga] st1"
      "\<And>t. facts_of [ga] t = []" "artifact_sound env (gs_revision st1) ga" "distinct (map ga_id (gs_artifacts st1))"
    using insert_graph_ok [OF ig goal_okD(4) [OF ok]] by blast
  obtain pa f where pa: "gs_goals st' = gs_goals st1" "grows st1 [] [pa] st'" "fact_of pa = [f]" "gf_payload f = q"
      "artifact_sound env (gs_revision st') pa" "distinct (map ga_id (gs_artifacts st'))" "gs_revision st' = gs_revision st1 + 1"
    using insert_fact [OF ip parse_projection_stable [OF q] ga(6)] by metis
  have grow: "grows st [] [ga, pa] st'" using grows_trans [OF ga(3) pa(2)] by simp
  have none: "successful (facts_of [ga, pa] t) = []" for t
    using facts_append [of "[ga]" "[pa]" t] facts_of_one [OF pa(3), of t] ga(4) [of t] pa(4) parsed_candidate [OF q]
    by (simp add: successful_def)
  have sound: "artifact_sound env (gs_revision st') x" if "x \<in> set [ga, pa]" for x
    using that ga(5) pa(5,7) by (auto simp: artifact_sound_def)
  have rows: "rows_ok (gs_goals st')" using goal_okD(1) [OF ok] pa(1) ga(2) by simp
  have "goal_ok env st'" by (rule goal_ok_grows [OF ok grow rows _ pa(6) sound]) (simp_all add: none)
  moreover have "tip_fact st' t = tip_fact st t" for t by (simp add: tip_fact_grows [OF grow] none)
  ultimately show ?thesis using grow by blast
qed

end
