(* ===== verification/GoalProps.thy ===== *)
theory GoalProps
  imports GoalPublish
begin

text \<open>
  The goal graph over time: the operations of the writer as steps, the invariant that they keep, and
  what it gives to the readers.
\<close>

section \<open>Steps\<close>

text \<open>
  The other parts of the program never write goals, contract graphs or projections; they add other
  artifacts, replace some of those, and allocate catalog revisions.
\<close>

datatype goal_event =
    Command goal_names mutation_input
  | Publication goal_names architect_input
  | Preservation goal_names architect_input "(conflict_code \<times> string) list"
  | Elsewhere goal_store

definition elsewhere :: "goal_store \<Rightarrow> goal_store \<Rightarrow> bool" where
  "elsewhere st st' \<longleftrightarrow> gs_goals st' = gs_goals st \<and> filter graph_kind (gs_artifacts st') = filter graph_kind (gs_artifacts st)
     \<and> distinct (map ga_id (gs_artifacts st')) \<and> gs_revision st \<le> gs_revision st'"

fun new_store :: "goal_store \<Rightarrow> goal_error + goal_store \<times> 'r \<Rightarrow> goal_store" where
  "new_store st (Inl _) = st"
| "new_store st (Inr (st', _)) = st'"

text \<open>The callers hand over only acceptance specs that have passed their schema.\<close>

fun goal_step :: "goal_env \<Rightarrow> goal_store \<Rightarrow> goal_event \<Rightarrow> goal_store" where
  "goal_step env st (Command nm inp) =
     (if mutation_parsed (mi_mutation inp) then new_store st (apply_goal_mutation env nm st inp) else st)"
| "goal_step env st (Publication nm inp) = (if goals_parsed inp then new_store st (persist_architect env nm st inp) else st)"
| "goal_step env st (Preservation nm inp given) = new_store st (persist_candidate env nm st inp given)"
| "goal_step env st (Elsewhere st') = (if elsewhere st st' then st' else st)"

definition no_goals :: goal_store where
  "no_goals = \<lparr>gs_tasks = [], gs_goals = [], gs_artifacts = [], gs_versions = [], gs_revision = 0\<rparr>"

abbreviation goal_run :: "goal_env \<Rightarrow> goal_store \<Rightarrow> goal_event list \<Rightarrow> goal_store" where
  "goal_run env st es \<equiv> run_steps (goal_step env) st es"

lemma elsewhere_grows: "elsewhere st st' \<Longrightarrow> grows st [] [] st'"
  by (simp add: elsewhere_def grows_def)

lemma elsewhere_goal_ok: "goal_ok env st \<Longrightarrow> elsewhere st st' \<Longrightarrow> goal_ok env st'"
  by (rule goal_ok_grows [OF _ elsewhere_grows]) (auto simp: elsewhere_def dest: goal_okD(1))

lemma goal_step_ok:
  assumes "goal_ok env st"
  shows "goal_ok env (goal_step env st e) \<and> (\<exists>gs as. grows st gs as (goal_step env st e))"
proof -
  have stay: "goal_ok env st \<and> (\<exists>gs as. grows st gs as st)" using assms grows_refl by blast
  show ?thesis
  proof (cases e)
    case (Command nm inp)
    show ?thesis
    proof (cases "apply_goal_mutation env nm st inp")
      case (Inr r)
      then show ?thesis using apply_mutation_ok [OF assms, of inp nm] stay Command by (cases r) auto
    qed (use Command stay in simp)
  next
    case (Publication nm inp)
    show ?thesis
    proof (cases "persist_architect env nm st inp")
      case (Inr r)
      then show ?thesis using persist_architect_ok [OF assms, of inp nm] stay Publication by (cases r) auto
    qed (use Publication stay in simp)
  next
    case (Preservation nm inp given)
    show ?thesis
    proof (cases "persist_candidate env nm st inp given")
      case (Inr r)
      then show ?thesis using persist_candidate_ok [OF assms, of nm inp given] stay Preservation by (cases r) auto
    qed (use Preservation stay in simp)
  next
    case (Elsewhere st')
    then show ?thesis using stay elsewhere_goal_ok [OF assms, of st'] elsewhere_grows [of st st'] by auto
  qed
qed

lemma no_goals_ok: "goal_ok env no_goals"
  by (simp add: goal_ok_def no_goals_def rows_ok_def)

interpretation goals: step_system "goal_step env" no_goals "goal_ok env" for env
  by unfold_locales (simp_all add: no_goals_ok goal_step_ok)

lemma run_grows: "goal_ok env st \<Longrightarrow> \<exists>gs as. grows st gs as (goal_run env st es)"
proof (induction es arbitrary: st)
  case Nil
  then show ?case using grows_refl by auto
next
  case (Cons e es)
  obtain gs as where g: "grows st gs as (goal_step env st e)" using goal_step_ok [OF Cons.prems] by blast
  obtain hs bs where "grows (goal_step env st e) hs bs (goal_run env (goal_step env st e) es)"
    using Cons.IH goal_step_ok [OF Cons.prems] by blast
  from grows_trans [OF g this] show ?case by auto
qed

section \<open>Reading under the invariant\<close>

definition member_ids :: "membership_context \<Rightarrow> string list" where
  "member_ids m = map (gr_id \<circ> snd) (mc_goals m)"

definition member_slices :: "membership_context \<Rightarrow> string list" where
  "member_slices m = map (sl_slice \<circ> fst) (mc_goals m)"

lemma check_canonical_map: "check_canonical rows (map contract_of rows) = Inr ()"
  by (induction rows) auto

lemma check_slices_distinct: "distinct (map sl_slice ss) \<Longrightarrow> set (map sl_slice ss) \<inter> set seen = {} \<Longrightarrow> check_slices seen ss = Inr ()"
  by (induction ss arbitrary: seen) auto

lemma find_in_prefix: "find P xs = Some x \<Longrightarrow> find P (xs @ ys) = Some x"
  by (induction xs) (auto split: if_splits)

lemma linked_graph_present:
  assumes ok: "goal_ok env st" and q: "pp_graph q = Some l"
    and a: "a \<in> set (gs_artifacts st)" "payload_kind (ga_payload a) = ContractGraphKind" "ga_task a = tid" "locator_of a = l"
  shows "linked_graph env st tid q = (case ga_payload a of ContractGraphPayload g \<Rightarrow> Inr (Some g) | _ \<Rightarrow> Inr None)"
proof -
  obtain b where b: "find (\<lambda>a. locator_of a = l \<and> ga_task a = tid) (gs_artifacts st) = Some b"
    using a by (cases "find (\<lambda>a. locator_of a = l \<and> ga_task a = tid) (gs_artifacts st)") (auto simp: find_None_iff)
  have "b = a"
  proof -
    have "b \<in> set (gs_artifacts st)" "ga_id b = ga_id a" using b a(4) by (auto simp: find_Some_iff locator_of_def)
    then show ?thesis using goal_okD(4) [OF ok] a(1) by (auto simp: distinct_map inj_on_def)
  qed
  have "find (\<lambda>a. locator_of a = l \<and> ga_task a = tid) (gs_artifacts st @ gs_versions st) = Some a"
    using find_in_prefix [OF b] \<open>b = a\<close> by simp
  moreover obtain g where "ga_payload a = ContractGraphPayload g" using a(2) by (cases "ga_payload a") auto
  moreover have "artifact_sound env (gs_revision st) a" using goal_okD(5) [OF ok a(1)] a(2) by (simp add: graph_kind_def)
  ultimately show ?thesis
    by (simp add: linked_graph_def q artifact_by_locator_def parse_contract_graph_def artifact_sound_def)
qed

lemma linked_graph_ok:
  assumes ok: "goal_ok env st" and p: "graph_present (gs_artifacts st) tid (pp_graph q)"
  shows "\<exists>g. linked_graph env st tid q = Inr g"
proof (cases "pp_graph q")
  case None
  then show ?thesis by (simp add: linked_graph_def)
next
  case (Some l)
  then obtain a where a: "a \<in> set (gs_artifacts st)" "payload_kind (ga_payload a) = ContractGraphKind" "ga_task a = tid" "locator_of a = l"
    using p by (auto simp: graph_present_def)
  then show ?thesis unfolding linked_graph_present [OF ok Some a] by (cases "ga_payload a") auto
qed

lemma membership_ok:
  assumes ok: "goal_ok env st"
  obtains m where "current_membership env st tid = Inr m" and "member_ids m = members_of (tip_fact st tid)"
    and "member_slices m = map (slice_key (goals_of st tid)) (members_of (tip_fact st tid))" and "distinct (member_slices m)"
proof (cases "tip_fact st tid")
  case None
  then show ?thesis using that
    by (simp add: current_membership_def current_projection_ok [OF ok] membership_of_def Let_def member_ids_def member_slices_def)
next
  case (Some f)
  note task = goals_of_task [OF ok, of tid]
  obtain rows where rows: "rtraverse (member_row (goals_of st tid)) (members_of (Some f)) = Inr rows" "pp_goals (gf_payload f) = map contract_of rows"
      "distinct (map (slice_key (goals_of st tid)) (members_of (Some f)))" and g: "graph_present (gs_artifacts st) tid (pp_graph (gf_payload f))"
    by (rule fact_backedE [OF task goal_okD(7) [OF ok tip_fact_mem [OF Some]]])
  have mem: "set rows \<subseteq> set (goals_of st tid)" "map gr_id rows = members_of (Some f)" using member_rows_mem [OF rows(1)] by simp_all
  obtain slices where s: "rtraverse (slice_identity_of (goals_of st tid)) rows = Inr slices"
      "map sl_slice slices = map (\<lambda>r. slice_key (goals_of st tid) (gr_id r)) rows"
    using slices_of_rows [OF task mem(1)] by blast
  have s': "map sl_slice slices = map (slice_key (goals_of st tid)) (members_of (Some f))" unfolding s(2) mem(2) [symmetric] by simp
  have cs: "check_slices [] slices = Inr ()" by (rule check_slices_distinct) (simp_all add: s' rows(3) del: members_of.simps)
  obtain graph where lg: "linked_graph env st tid (gf_payload f) = Inr graph" using linked_graph_ok [OF ok g] by blast
  obtain p where p: "pp_projection (gf_payload f) = Some p" using tip_fact_mem [OF Some] by (auto simp: successful_def)
  have gp: "gp_members p = members_of (Some f)" by (simp add: p)
  have len: "length slices = length rows" using rtraverse_Inr_length [OF s(1)] .
  let ?m = "\<lparr>mc_projection = Some (gf_id f), mc_goals = zip slices rows, mc_graph = graph,
                         mc_historical = filter (\<lambda>r. gr_id r \<notin> gr_id ` set rows) (goals_of st tid)\<rparr>"
  have m: "current_membership env st tid = Inr ?m"
    unfolding current_membership_def current_projection_ok [OF ok] rbind_simps membership_of_def Let_def Some option.case p gp rows(1,2)
      check_canonical_map s(1) cs lg by simp
  show ?thesis
  proof (rule that [OF m])
    have "map snd (zip slices rows) = rows" "map fst (zip slices rows) = slices" using len by simp_all
    then show "member_ids ?m = members_of (tip_fact st tid)" "member_slices ?m = map (slice_key (goals_of st tid)) (members_of (tip_fact st tid))"
      using mem(2) s' by (simp_all add: member_ids_def member_slices_def Some del: members_of.simps flip: map_map)
    then show "distinct (member_slices ?m)" using rows(3) Some by simp
  qed
qed

lemma tip_graph_present:
  assumes "goal_ok env st" and "tip_fact st tid = Some f"
  shows "graph_present (gs_artifacts st) tid (pp_graph (gf_payload f))"
  using tip_backed [OF assms(1), of tid] assms(2) by auto

text \<open>Nothing that a reader of the current graph sees depends on artifacts that were appended later.\<close>

lemma membership_stays:
  assumes ok: "goal_ok env st" "goal_ok env st'" and g: "grows st [] as st'" and tip: "tip_fact st' tid = tip_fact st tid"
  shows "current_membership env st' tid = current_membership env st tid"
proof -
  have goals: "goals_of st' tid = goals_of st tid" using grows_goals [OF g] by simp
  have "linked_graph env st' tid (gf_payload f) = linked_graph env st tid (gf_payload f)" if f: "tip_fact st tid = Some f" for f
  proof (cases "pp_graph (gf_payload f)")
    case None
    then show ?thesis by (simp add: linked_graph_def)
  next
    case (Some l)
    then obtain a where a: "a \<in> set (gs_artifacts st)" "payload_kind (ga_payload a) = ContractGraphKind" "ga_task a = tid" "locator_of a = l"
      using tip_graph_present [OF ok(1) f] by (auto simp: graph_present_def)
    have "a \<in> set (filter graph_kind (gs_artifacts st'))" using g a(1,2) by (simp add: grows_def graph_kind_def)
    then have "a \<in> set (gs_artifacts st')" by simp
    from linked_graph_present [OF ok(2) Some this a(2,3,4)] linked_graph_present [OF ok(1) Some a] show ?thesis by simp
  qed
  then show ?thesis
    by (cases "tip_fact st tid")
      (simp_all add: current_membership_def current_projection_ok [OF ok(1)] current_projection_ok [OF ok(2)] tip goals membership_of_def Let_def
        cong: option.case_cong)
qed

section \<open>The current graph is always readable\<close>

text \<open>
  C26: In every state that the commands, the publications and candidates of Architect Turns and the
  rest of the program lead to, the current GoalGraph of every Task can be read: its projections form
  one chain, every member is a Goal row that its contract repeats, its contract graph is there with
  its digest, no lineage is broken, and no Delivery Slice has two current revisions.
\<close>

theorem current_graph_readable:
  "\<exists>m. current_membership env (goal_run env no_goals es) tid = Inr m \<and> distinct (member_slices m)"
  using membership_ok [OF goals.reachable_inv] by metis

section \<open>A command is an operation on a list\<close>

text \<open>What a reader sees of a membership: Delivery Slices with their current revisions, in order.\<close>

definition slice_graph :: "membership_context \<Rightarrow> (string \<times> string) list" where
  "slice_graph m = map (\<lambda>(s, r). (sl_slice s, gr_id r)) (mc_goals m)"

fun next_graph :: "goal_mutation \<Rightarrow> string \<Rightarrow> (string \<times> string) list \<Rightarrow> (string \<times> string) list" where
  "next_graph (AddMutation _) i g = g @ [(i, i)]"
| "next_graph (ModifyMutation old _) i g = map (\<lambda>(s, r). (s, if r = old then i else r)) g"
| "next_graph (RemoveMutation old) _ g = filter (\<lambda>(_, r). r \<noteq> old) g"

lemma slice_graph_zip: "slice_graph m = zip (member_slices m) (member_ids m)"
  unfolding slice_graph_def member_slices_def member_ids_def by (induction "mc_goals m") (auto simp: zip_map_fst_snd case_prod_unfold zip_map1 zip_map2 zip_same_conv_map)

lemma zip_map_self: "zip (map f xs) xs = map (\<lambda>x. (f x, x)) xs"
  by (induction xs) auto

lemma replace_first_distinct: "distinct xs \<Longrightarrow> replace_first old new xs = map (\<lambda>x. if x = old then new else x) xs"
  by (induction xs) (auto intro: map_idI [symmetric])

lemma next_members_graph:
  assumes "distinct members" and "\<And>x. x \<in> set members \<Longrightarrow> key' x = key x"
    and "case mut of AddMutation _ \<Rightarrow> key' i = i | ModifyMutation old _ \<Rightarrow> key' i = key old | RemoveMutation _ \<Rightarrow> True"
  shows "map (\<lambda>x. (key' x, x)) (next_members mut i members) = next_graph mut i (map (\<lambda>x. (key x, x)) members)"
proof (cases mut)
  case (RemoveMutation old)
  have "remove1 old members = filter (\<lambda>x. x \<noteq> old) members" using assms(1) by (simp add: distinct_remove1_removeAll removeAll_filter_not_eq) metis
  then show ?thesis using assms(2) RemoveMutation by (auto simp: filter_map comp_def intro: map_cong)
qed (use assms in \<open>auto simp: replace_first_distinct\<close>)

lemma slice_graph_keys:
  assumes "goal_ok env st" and "current_membership env st tid = Inr m"
  shows "slice_graph m = map (\<lambda>i. (slice_key (goals_of st tid) i, i)) (members_of (tip_fact st tid))"
proof -
  obtain m' where "current_membership env st tid = Inr m'" "member_ids m' = members_of (tip_fact st tid)"
      "member_slices m' = map (slice_key (goals_of st tid)) (members_of (tip_fact st tid))"
    using membership_ok [OF assms(1), of tid] by metis
  with assms(2) show ?thesis by (simp add: slice_graph_zip zip_map_self)
qed

lemma command_graph:
  assumes ok: "goal_ok env st" and parsed: "mutation_parsed (mi_mutation inp)"
    and run: "apply_goal_mutation env nm st inp = Inr (st', MutationApplied i s l)"
    and m: "current_membership env st (mi_task inp) = Inr m" and m': "current_membership env st' (mi_task inp) = Inr m'"
  shows "slice_graph m' = next_graph (mi_mutation inp) i (slice_graph m)"
proof -
  let ?tid = "mi_task inp"
  obtain gs as where ok': "goal_ok env st'" and g: "grows st gs as st'" and c: "commanded st inp st' (MutationApplied i s l)"
    using apply_mutation_ok [OF ok parsed run] by blast
  have "slice_key (goals_of st' ?tid) x = slice_key (goals_of st ?tid) x" if "x \<in> set (members_of (tip_fact st ?tid))" for x
  proof -
    have "task_rows ?tid (goals_of st ?tid @ filter (\<lambda>g. gr_task g = ?tid) gs)"
      using goals_of_task [OF ok', of ?tid] by (simp only: grows_goals [OF g])
    from slice_key_append [OF goals_of_task [OF ok] this subsetD [OF tip_members(1) [OF ok] that]] show ?thesis
      by (simp only: grows_goals [OF g])
  qed
  then show ?thesis
    unfolding slice_graph_keys [OF ok m] slice_graph_keys [OF ok' m'] using c tip_members(2) [OF ok, of ?tid]
    by (simp add: commanded_def next_members_graph plan_key_def)
qed

text \<open>
  C27: An applied command of the operator or the Orchestrator is, for a reader, one operation on the
  list of Delivery Slices: an added goal is a new slice at the end, a modified one a new revision at the
  place and in the slice of the old one, a removed one is gone, and nothing else moves.
\<close>

theorem command_refines_graph:
  assumes "mutation_parsed (mi_mutation inp)"
    and "apply_goal_mutation env nm (goal_run env no_goals es) inp = Inr (st', MutationApplied i s l)"
  shows "\<exists>m m'. current_membership env (goal_run env no_goals es) (mi_task inp) = Inr m
    \<and> current_membership env st' (mi_task inp) = Inr m' \<and> slice_graph m' = next_graph (mi_mutation inp) i (slice_graph m)"
proof -
  have ok: "goal_ok env (goal_run env no_goals es)" by (rule goals.reachable_inv)
  moreover have "goal_ok env st'" using apply_mutation_ok [OF ok assms] by blast
  ultimately show ?thesis using command_graph [OF ok assms] membership_ok by metis
qed

end
