(* ===== verification/GoalTurns.thy ===== *)
theory GoalTurns
  imports GoalProps
begin

text \<open>
  Turns against a graph that moves on: which Delivery Slices a publication continues, that no graph
  is superseded twice, that a candidate changes nothing for the readers, and that the membership at
  a past catalog revision never changes.
\<close>

section \<open>What a publication does to the Delivery Slices\<close>

lemma check_partition_sets:
  assumes "check_partition goals members ags removals = Inr u"
  shows "set members \<subseteq> fst ` set ags \<union> rm_goal ` set removals" and "fst ` set ags \<inter> set members \<inter> rm_goal ` set removals = {}"
  using assms by (fastforce simp: check_partition_def Let_def filter_empty_conv split: if_splits)+

lemma removals_goals: "rtraverse parse_removal rs = Inr qs \<Longrightarrow> rm_goal ` set qs = rm_goal ` set rs"
  using rtraverse_map_same [of parse_removal rs qs rm_goal] parse_removal_goal by (metis list.set_map)

lemma published_slices:
  assumes ok: "goal_ok env st" and pub: "published st inp st' l"
    and cover: "set (members_of (tip_fact st (ar_task inp))) \<subseteq> fst ` set (ar_goals inp) \<union> R"
    and apart: "fst ` set (ar_goals inp) \<inter> set (members_of (tip_fact st (ar_task inp))) \<inter> R = {}"
    and i: "i \<in> set (members_of (tip_fact st (ar_task inp)))"
  shows "i \<in> R \<longleftrightarrow> slice_key (goals_of st (ar_task inp)) i
    \<notin> slice_key (goals_of st' (ar_task inp)) ` set (members_of (tip_fact st' (ar_task inp)))"
proof -
  let ?old = "goals_of st (ar_task inp)" and ?new = "goals_of st' (ar_task inp)"
  let ?members = "members_of (tip_fact st (ar_task inp))" and ?ids = "members_of (tip_fact st' (ar_task inp))"
  have len: "length ?ids = length (ar_goals inp)"
      and step: "\<And>z. z \<in> set (zip (ar_goals inp) ?ids) \<Longrightarrow> slice_step ?old ?members ?new z"
    using pub by (simp_all add: published_def Let_def)
  have key: "slice_key ?old i \<in> gr_id ` set ?old"
    by (rule slice_key_mem [OF goals_of_task [OF ok] subsetD [OF tip_members(1) [OF ok] i]])
  have inj: "inj_on (slice_key ?old) (set ?members)" using tip_backed [OF ok, of "ar_task inp"] by (auto simp: distinct_map)
  have zs: "map fst (zip (ar_goals inp) ?ids) = ar_goals inp" "map snd (zip (ar_goals inp) ?ids) = ?ids" using len by simp_all
  have "slice_key ?old i \<in> slice_key ?new ` set ?ids \<longleftrightarrow> i \<in> fst ` set (ar_goals inp)"
  proof
    assume "slice_key ?old i \<in> slice_key ?new ` set ?ids"
    then obtain d where "d \<in> set ?ids" and eq: "slice_key ?new d = slice_key ?old i" by auto
    then have "d \<in> snd ` set (zip (ar_goals inp) ?ids)" by (metis list.set_map zs(2))
    then obtain z where z: "z \<in> set (zip (ar_goals inp) ?ids)" "snd z = d" by auto
    from step [OF z(1)] key eq z(2) have "fst (fst z) \<in> set ?members" "slice_key ?old (fst (fst z)) = slice_key ?old i"
      unfolding slice_step_def by auto
    then have "fst (fst z) = i" using inj i by (simp add: inj_on_def)
    moreover have "fst z \<in> set (ar_goals inp)" using z(1) by (metis image_eqI list.set_map zs(1))
    ultimately show "i \<in> fst ` set (ar_goals inp)" by auto
  next
    assume "i \<in> fst ` set (ar_goals inp)"
    then obtain ag where "ag \<in> set (ar_goals inp)" and ag: "fst ag = i" by auto
    then have "ag \<in> fst ` set (zip (ar_goals inp) ?ids)" by (metis list.set_map zs(1))
    then obtain z where z: "z \<in> set (zip (ar_goals inp) ?ids)" "fst z = ag" by auto
    from step [OF z(1)] z(2) ag i have "slice_key ?new (snd z) = slice_key ?old i" by (auto simp: slice_step_def)
    moreover have "snd z \<in> set ?ids" using z(1) by (metis image_eqI list.set_map zs(2))
    ultimately show "slice_key ?old i \<in> slice_key ?new ` set ?ids" by (metis image_eqI)
  qed
  then show ?thesis using cover apart i by auto
qed

text \<open>
  C28: A published Architect Turn accounts for every Delivery Slice: the slice of a current goal is in
  the new graph exactly when the Turn did not remove that goal. So no slice is lost by omission and
  none survives its removal, whatever identities the revised goals were given.
\<close>

theorem publication_accounts_for_slices:
  assumes "goals_parsed inp" and "persist_architect env nm (goal_run env no_goals es) inp = Inr (st', l)"
  shows "\<exists>m m'. current_membership env (goal_run env no_goals es) (ar_task inp) = Inr m
    \<and> current_membership env st' (ar_task inp) = Inr m'
    \<and> list_all (\<lambda>(s, r). r \<in> rm_goal ` set (ar_removals inp) \<longleftrightarrow> s \<notin> set (member_slices m')) (slice_graph m)"
proof -
  let ?st = "goal_run env no_goals es"
  have ok: "goal_ok env ?st" by (rule goals.reachable_inv)
  have ok': "goal_ok env st'" and pub: "published ?st inp st' l" using persist_architect_ok [OF ok assms] by blast+
  obtain removals u where r: "rtraverse parse_removal (ar_removals inp) = Inr removals"
      and part: "check_partition (goals_of ?st (ar_task inp)) (members_of (tip_fact ?st (ar_task inp))) (ar_goals inp) removals = Inr u"
    by (rule persist_architectE [OF ok assms(2)])
  obtain m where m: "current_membership env ?st (ar_task inp) = Inr m" using membership_ok [OF ok] by metis
  obtain m' where m': "current_membership env st' (ar_task inp) = Inr m'"
      "member_slices m' = map (slice_key (goals_of st' (ar_task inp))) (members_of (tip_fact st' (ar_task inp)))"
    using membership_ok [OF ok'] by metis
  from published_slices [OF ok pub check_partition_sets [OF part]]
  have "list_all (\<lambda>(s, r). r \<in> rm_goal ` set (ar_removals inp) \<longleftrightarrow> s \<notin> set (member_slices m')) (slice_graph m)"
    unfolding slice_graph_keys [OF ok m] m'(2) removals_goals [OF r] by (simp add: list_all_iff)
  with m m'(1) show ?thesis by blast
qed

section \<open>One successor for each graph\<close>

lemma selected_prior_id:
  assumes "selected_prior env st tid l = Inr selected"
  shows "map_option gf_id selected = map_option loc_artifact l"
proof (cases l)
  case None
  then show ?thesis using assms by (auto simp: selected_prior_def exact_binding_def)
next
  case (Some k)
  then obtain a f where a: "artifact_by_locator env st tid k = Inr a" "parse_fact env a = Inr f" "selected = Some f"
    using assms by (auto simp: selected_prior_def exact_binding_def rbind_Inr_iff split: if_splits)
  have "locator_of a = k" using a(1) by (auto simp: artifact_by_locator_def find_Some_iff split: option.splits if_splits)
  moreover have "gf_id f = ga_id a" using a(2) by (auto simp: parse_fact_def rbind_Inr_iff split: goal_payload.splits if_splits)
  ultimately show ?thesis using a(3) Some by (auto simp: locator_of_def)
qed

lemma publishable_tip:
  assumes ok: "goal_ok env st" and run: "persist_architect env nm st inp = Inr (st', l)"
  shows "map_option gf_id (tip_fact st (ar_task inp)) = map_option loc_artifact (ar_prior inp)"
proof -
  obtain selected where "selected_prior env st (ar_task inp) (ar_prior inp) = Inr selected" "same_fact (tip_fact st (ar_task inp)) selected"
    by (rule persist_architectE [OF ok run])
  with selected_prior_id [OF this(1)] show ?thesis by (auto simp: same_fact_def split: option.splits)
qed

lemma same_tip:
  assumes ok: "goal_ok env st" "goal_ok env st'" and g: "grows st gs as st'"
    and id: "map_option gf_id (tip_fact st tid) = map_option gf_id (tip_fact st' tid)"
  shows "tip_fact st tid = tip_fact st' tid"
proof (cases "tip_fact st tid")
  case None
  then show ?thesis using id by simp
next
  case (Some f)
  then obtain f' where f': "tip_fact st' tid = Some f'" "gf_id f = gf_id f'" using id by (cases "tip_fact st' tid") auto
  have "f' \<in> set (facts_of (gs_artifacts st') tid)" using tip_fact_mem [OF f'(1)] by (simp add: successful_def)
  moreover have "f \<in> set (facts_of (gs_artifacts st') tid)"
    using tip_fact_mem [OF Some] unfolding grows_facts [OF g] by (simp add: successful_def)
  moreover have "distinct (map gf_id (facts_of (gs_artifacts st') tid))" by (rule facts_distinct [OF goal_okD(4) [OF ok(2)]])
  ultimately have "f = f'" using f'(2) by (auto simp: distinct_map inj_on_def)
  with Some f'(1) show ?thesis by simp
qed

text \<open>
  C29: A graph has at most one successor. Once the current projection of a Task is no longer the one
  that a Turn could be published over, whatever happened in between, every Turn of the Task that
  selected the same prior projection is refused; it cannot overwrite the graph it did not see.
\<close>

theorem stale_turn_refused:
  assumes "persist_architect env nm (goal_run env no_goals es) inp = Inr (st', l)"
    and "ar_task late = ar_task inp" and "ar_prior late = ar_prior inp"
    and "current_projection env (goal_run env (goal_run env no_goals es) es') (ar_task inp)
      \<noteq> current_projection env (goal_run env no_goals es) (ar_task inp)"
  shows "\<exists>e. persist_architect env nm' (goal_run env (goal_run env no_goals es) es') late = Inl e"
proof (cases "persist_architect env nm' (goal_run env (goal_run env no_goals es) es') late")
  case (Inr r)
  let ?st = "goal_run env no_goals es"
  have ok: "goal_ok env ?st" by (rule goals.reachable_inv)
  then have ok': "goal_ok env (goal_run env ?st es')" by (rule goals.run_inv)
  obtain gs as where g: "grows ?st gs as (goal_run env ?st es')" using run_grows [OF ok] by blast
  have "map_option gf_id (tip_fact ?st (ar_task inp)) = map_option gf_id (tip_fact (goal_run env ?st es') (ar_task inp))"
    using publishable_tip [OF ok assms(1)] publishable_tip [OF ok', of nm' late "fst r" "snd r"] Inr assms(2,3) by simp
  from same_tip [OF ok ok' g this] assms(4) show ?thesis
    by (simp add: current_projection_ok [OF ok] current_projection_ok [OF ok'])
qed auto

section \<open>Candidates\<close>

text \<open>
  C31: A Turn that cannot be projected is preserved beside the graph: whatever its goals and conflicts
  are, every reader of every Task finds the graph that was current before.
\<close>

theorem candidate_changes_no_graph:
  assumes "persist_candidate env nm (goal_run env no_goals es) inp given = Inr (st', l)"
  shows "current_membership env st' tid = current_membership env (goal_run env no_goals es) tid"
proof -
  have ok: "goal_ok env (goal_run env no_goals es)" by (rule goals.reachable_inv)
  obtain as where "goal_ok env st'" "grows (goal_run env no_goals es) [] as st'"
      "tip_fact st' tid = tip_fact (goal_run env no_goals es) tid"
    using persist_candidate_ok [OF ok assms] by blast
  then show ?thesis by (intro membership_stays [OF ok])
qed

section \<open>The membership at a catalog revision\<close>

lemma grows_rows:
  assumes "grows st gs as st'" and "high \<le> gs_revision st + 1"
  shows "filter (\<lambda>a. ga_revision a < high) (projection_rows (gs_artifacts st') tid)
    = filter (\<lambda>a. ga_revision a < high) (projection_rows (gs_artifacts st) tid)"
proof -
  have "projection_rows (gs_artifacts st') tid = projection_rows (filter graph_kind (gs_artifacts st) @ as) tid"
    using assms(1) by (metis grows_def projection_rows_graph)
  also have "\<dots> = projection_rows (gs_artifacts st) tid @ projection_rows as tid"
    using projection_rows_graph [of "gs_artifacts st" tid] by (simp add: projection_rows_def)
  finally have rows: "projection_rows (gs_artifacts st') tid = projection_rows (gs_artifacts st) tid @ projection_rows as tid" .
  have "filter (\<lambda>a. ga_revision a < high) (projection_rows as tid) = []"
    using assms by (fastforce simp: grows_def list_all_iff projection_rows_def filter_empty_conv)
  then show ?thesis by (simp add: rows)
qed

text \<open>
  C32: The membership that was current before a catalog revision is fixed once that revision is
  allocated: a reader who asks for it later gets the same projection and the same goals, however
  often the graph was changed since.
\<close>

theorem past_membership_fixed:
  assumes "high \<le> gs_revision (goal_run env no_goals es) + 1"
  shows "membership_before env (goal_run env (goal_run env no_goals es) es') tid high
    = membership_before env (goal_run env no_goals es) tid high"
proof -
  have "goal_ok env (goal_run env no_goals es)" by (rule goals.reachable_inv)
  from run_grows [OF this, of es'] obtain gs as
    where "grows (goal_run env no_goals es) gs as (goal_run env (goal_run env no_goals es) es')" by blast
  from grows_rows [OF this assms] show ?thesis by (simp add: membership_before_def)
qed

end
