(* ===== verification/GoalCases.thy ===== *)
theory GoalCases
  imports GoalTurns
begin

text \<open>
  A concrete Task: the operator adds a goal, an Architect Turn revises it and returns another one,
  and a later command removes the first one again.
\<close>

definition demo_goals_env :: goal_env where
  "demo_goals_env = \<lparr>ge_sha = (\<lambda>_. replicate 64 (CHR ''0'')), ge_locale = text_cmp, ge_lower = (\<lambda>s. s),
     ge_internal = (\<lambda>_. False), ge_evidence = (\<lambda>_ _ _. [])\<rparr>"

definition demo_goal :: "string \<Rightarrow> string option \<Rightarrow> goal_input" where
  "demo_goal title i = \<lparr>gi_id = i, gi_title = title, gi_objective = ''do it'', gi_specs = [], gi_paths = Some [''src/'' @ title],
     gi_kind = None, gi_priority = None, gi_source = None, gi_metadata = None\<rparr>"

definition demo_names :: "string \<Rightarrow> goal_names" where
  "demo_names s = \<lparr>gn_goal = (\<lambda>n. CHR ''g'' # replicate n (CHR ''x'') @ s), gn_graph = CHR ''c'' # s, gn_projection = CHR ''p'' # s\<rparr>"

definition demo_command :: "goal_mutation \<Rightarrow> mutation_input" where
  "demo_command m = \<lparr>mi_task = ''T'',
     mi_producer = \<lparr>mp_author = OperatorCommand, mp_operation = operation_of m, mp_reason = ''asked'', mp_target = None\<rparr>,
     mi_mutation = m, mi_now = 5\<rparr>"

definition demo_prior :: locator where
  "demo_prior = \<lparr>loc_artifact = ''p1'', loc_revision = 1, loc_sha = replicate 64 (CHR ''0'')\<rparr>"

definition demo_turn :: architect_input where
  "demo_turn = \<lparr>ar_task = ''T'', ar_producer = (''s'', ''m''), ar_requirement = None, ar_prior = Some demo_prior,
     ar_provenance = no_provenance, ar_goals = [(''new'', demo_goal ''second'' None), (''a'', demo_goal ''revised'' None)],
     ar_removals = [],
     ar_graph = [\<lparr>ct_id = ''k'', ct_kind = RouteKind, ct_name = ''route'', ct_producer = ''a'', ct_consumers = [''new''],
       ct_summary = ''served'', ct_ir = None, ct_rest = JsonNull, ct_paths = [], ct_evidence = []\<rparr>],
     ar_fidelity = empty_fidelity, ar_now = 6\<rparr>"

definition demo_events :: "goal_event list" where
  "demo_events = [Elsewhere (no_goals\<lparr>gs_tasks := [''T'']\<rparr>), Command (demo_names ''1'') (demo_command (AddMutation (demo_goal ''first'' (Some ''a''))))]"

definition demo_removal :: "goal_event" where
  "demo_removal = Command (demo_names ''3'') (demo_command (RemoveMutation ''a''))"

definition demo_modify :: goal_mutation where
  "demo_modify = ModifyMutation ''a'' \<lparr>gu_title = None, gu_objective = Some ''do more'', gu_specs = None, gu_paths = None,
     gu_priority = None, gu_kind = None\<rparr>"

definition demo_chain :: "graph_fact list" where
  "demo_chain = facts_of (gs_artifacts (goal_run demo_goals_env no_goals demo_events)) ''T''"

fun result_ok :: "goal_error + 'a \<Rightarrow> bool" where
  "result_ok (Inl _) \<longleftrightarrow> False"
| "result_ok (Inr _) \<longleftrightarrow> True"

lemma result_okE: "result_ok r \<Longrightarrow> \<exists>st' l. r = Inr (st', l)"
  by (cases r) auto

theorem tip_iff_chain_witness:
  "\<exists>t. resolve_tip demo_chain = Inr (Some t) \<and> (\<exists>chain. one_chain demo_chain chain \<and> last chain = t)"
proof -
  have "distinct (map gf_id demo_chain)" "resolve_tip demo_chain = Inr (Some (hd demo_chain))" by code_simp+
  with tip_iff_chain [of demo_chain "hd demo_chain"] show ?thesis by blast
qed

theorem command_refines_graph_witness:
  "\<exists>st' l m. apply_goal_mutation demo_goals_env (demo_names ''2'') (goal_run demo_goals_env no_goals demo_events) (demo_command demo_modify)
      = Inr (st', MutationApplied ''g2'' (Some ''a'') l)
    \<and> current_membership demo_goals_env st' ''T'' = Inr m \<and> slice_graph m = [(''a'', ''g2'')]"
proof -
  let ?st = "goal_run demo_goals_env no_goals demo_events"
  let ?r = "apply_goal_mutation demo_goals_env (demo_names ''2'') ?st (demo_command demo_modify)"
  have "case ?r of Inr (st', MutationApplied i s l) \<Rightarrow> i = ''g2'' \<and> s = Some ''a'' | _ \<Rightarrow> False" by code_simp
  then obtain st' l where r: "?r = Inr (st', MutationApplied ''g2'' (Some ''a'') l)"
    by (auto split: sum.splits prod.splits mutation_result.splits)
  have p: "mutation_parsed (mi_mutation (demo_command demo_modify))" and t: "mi_task (demo_command demo_modify) = ''T''" by code_simp+
  have "case current_membership demo_goals_env ?st ''T'' of Inr m \<Rightarrow> slice_graph m = [(''a'', ''a'')] | _ \<Rightarrow> False" by code_simp
  with command_refines_graph [OF p r] t show ?thesis
    using r by (auto simp: demo_command_def demo_modify_def)
qed

theorem publication_accounts_for_slices_witness:
  "\<exists>st' l m. persist_architect demo_goals_env (demo_names ''2'') (goal_run demo_goals_env no_goals demo_events) demo_turn = Inr (st', l)
    \<and> current_membership demo_goals_env st' ''T'' = Inr m \<and> ''a'' \<in> set (member_slices m)"
proof -
  let ?st = "goal_run demo_goals_env no_goals demo_events"
  have "result_ok (persist_architect demo_goals_env (demo_names ''2'') ?st demo_turn)" by code_simp
  then obtain st' l where r: "persist_architect demo_goals_env (demo_names ''2'') ?st demo_turn = Inr (st', l)" using result_okE by blast
  have p: "goals_parsed demo_turn" and t: "ar_task demo_turn = ''T''" "ar_removals demo_turn = []" by code_simp+
  have "case current_membership demo_goals_env ?st ''T'' of Inr m \<Rightarrow> slice_graph m = [(''a'', ''a'')] | _ \<Rightarrow> False" by code_simp
  with publication_accounts_for_slices [OF p r] t show ?thesis using r by auto
qed

theorem stale_turn_refused_witness:
  "\<exists>e. persist_architect demo_goals_env (demo_names ''4'')
     (goal_run demo_goals_env (goal_run demo_goals_env no_goals demo_events) [demo_removal]) demo_turn = Inl e"
proof -
  let ?st = "goal_run demo_goals_env no_goals demo_events"
  have "result_ok (persist_architect demo_goals_env (demo_names ''2'') ?st demo_turn)" by code_simp
  then obtain st' l where r: "persist_architect demo_goals_env (demo_names ''2'') ?st demo_turn = Inr (st', l)" using result_okE by blast
  have t: "ar_task demo_turn = ''T''" by code_simp
  have "members_of (case current_projection demo_goals_env ?st ''T'' of Inr f \<Rightarrow> f | _ \<Rightarrow> None) = [''a'']" by code_simp
  moreover have "members_of (case current_projection demo_goals_env (goal_run demo_goals_env ?st [demo_removal]) ''T'' of Inr f \<Rightarrow> f | _ \<Rightarrow> None) = []"
    by code_simp
  ultimately have "current_projection demo_goals_env (goal_run demo_goals_env ?st [demo_removal]) ''T'' \<noteq> current_projection demo_goals_env ?st ''T''"
    by (metis list.distinct(1))
  from stale_turn_refused [OF r refl refl this [folded t]] show ?thesis .
qed

theorem candidate_changes_no_graph_witness:
  "\<exists>st' l. persist_candidate demo_goals_env (demo_names ''2'') (goal_run demo_goals_env no_goals demo_events) demo_turn
       [(InvalidGoalPartition, ''lost a goal'')] = Inr (st', l)
    \<and> current_membership demo_goals_env st' ''T'' = current_membership demo_goals_env (goal_run demo_goals_env no_goals demo_events) ''T''"
proof -
  let ?st = "goal_run demo_goals_env no_goals demo_events"
  have "result_ok (persist_candidate demo_goals_env (demo_names ''2'') ?st demo_turn [(InvalidGoalPartition, ''lost a goal'')])" by code_simp
  then obtain st' l where r: "persist_candidate demo_goals_env (demo_names ''2'') ?st demo_turn [(InvalidGoalPartition, ''lost a goal'')] = Inr (st', l)"
    using result_okE by blast
  from candidate_changes_no_graph [OF r, of "''T''"] r show ?thesis by blast
qed

theorem past_membership_fixed_witness:
  "membership_before demo_goals_env (goal_run demo_goals_env (goal_run demo_goals_env no_goals demo_events) [demo_removal]) ''T'' 2
     = Inr (Some (demo_prior, [''a'']))"
proof -
  let ?st = "goal_run demo_goals_env no_goals demo_events"
  have high: "(2 :: int) \<le> gs_revision ?st + 1" by code_simp
  have past: "membership_before demo_goals_env ?st ''T'' 2 = Inr (Some (demo_prior, [''a'']))" by code_simp
  show ?thesis by (rule trans [OF past_membership_fixed [OF high] past])
qed

end
