(* ===== verification/KeyedLock.thy ===== *)
theory KeyedLock
  imports Prelude
begin

text \<open>
  The readers-writer lock of one key (\<open>util/lock.ts\<close>, namespace \<open>Lock\<close>). The entry of the
  map is \<open>cell\<close>; a closure keeps the lock object it was created with, so a handle remembers
  the generation of its object, and an entry created after a deletion is a new generation. An
  operation runs to completion before the next one (the code has no \<open>await\<close> inside them), so
  a history is a sequence of operations. \<open>raises\<close> says that the caller's \<open>onAcquire\<close> throws.
\<close>

datatype handle_kind = PlainRead | ReservedRead | Write

datatype handle_status = Unused | WaitingForLock | Held | Released | FailedToAcquire | CancelledHandle

record lock_cell =
  readers :: int
  writer :: bool
  waiting_readers :: "nat list"
  waiting_writers :: "nat list"

record lock_world =
  cell :: "lock_cell option"
  generation :: nat
  status :: "nat \<Rightarrow> handle_status"
  kind :: "nat \<Rightarrow> handle_kind"
  raises :: "nat \<Rightarrow> bool"
  object :: "nat \<Rightarrow> nat"

definition fresh_cell :: lock_cell where
  "fresh_cell = \<lparr>readers = 0, writer = False, waiting_readers = [], waiting_writers = []\<rparr>"

definition get_cell :: "lock_world \<Rightarrow> lock_world" where
  "get_cell w = (case cell w of Some _ \<Rightarrow> w
     | None \<Rightarrow> w\<lparr>cell := Some fresh_cell, generation := Suc (generation w)\<rparr>)"

text \<open>An assignment to the lock object of a handle: it reaches the map's entry only if that is the same object.\<close>

definition on_object :: "nat \<Rightarrow> (lock_cell \<Rightarrow> lock_cell) \<Rightarrow> lock_world \<Rightarrow> lock_world" where
  "on_object i f w =
     (case cell w of Some c \<Rightarrow> if object w i = generation w then w\<lparr>cell := Some (f c)\<rparr> else w | None \<Rightarrow> w)"

definition set_status :: "nat \<Rightarrow> handle_status \<Rightarrow> lock_world \<Rightarrow> lock_world" where
  "set_status i s w = w\<lparr>status := (status w)(i := s)\<rparr>"

definition add_readers :: "int \<Rightarrow> lock_cell \<Rightarrow> lock_cell" where
  "add_readers k c = c\<lparr>readers := readers c + k\<rparr>"

text \<open>
  \<open>process\<close> and the closures it calls. A waiter that is woken and whose callback throws runs
  \<open>process\<close> again, so the recursion is bounded by \<open>fuel\<close>; \<open>lock_fuel\<close> is enough
  (lemma \<open>process_core\<close>).
\<close>

fun process_lock :: "nat \<Rightarrow> lock_world \<Rightarrow> lock_world"
  and acquire_read :: "nat \<Rightarrow> nat \<Rightarrow> lock_world \<Rightarrow> lock_world"
  and acquire_write :: "nat \<Rightarrow> nat \<Rightarrow> lock_world \<Rightarrow> lock_world"
  and wake_readers :: "nat \<Rightarrow> lock_world \<Rightarrow> lock_world" where
  "process_lock 0 w = w"
| "process_lock (Suc n) w =
     (case cell w of None \<Rightarrow> w | Some c \<Rightarrow>
      if writer c \<or> readers c > 0 then w
      else case waiting_writers c of
        i # is \<Rightarrow> acquire_write n i (w\<lparr>cell := Some (c\<lparr>waiting_writers := is\<rparr>)\<rparr>)
      | [] \<Rightarrow> (let w1 = wake_readers n w
               in case cell w1 of None \<Rightarrow> w1 | Some c1 \<Rightarrow>
                  if readers c1 = 0 \<and> \<not> writer c1 \<and> waiting_readers c1 = [] \<and> waiting_writers c1 = []
                  then w1\<lparr>cell := None\<rparr> else w1))"
| "acquire_read n i w =
     (if status w i = CancelledHandle then process_lock n w
      else if raises w i
        then process_lock n (on_object i (add_readers (-1)) (on_object i (add_readers 1) (set_status i FailedToAcquire w)))
      else on_object i (add_readers 1) (set_status i Held w))"
| "acquire_write n i w =
     (if status w i = CancelledHandle then process_lock n w
      else on_object i (\<lambda>c. c\<lparr>writer := True\<rparr>) (set_status i Held w))"
| "wake_readers 0 w = w"
| "wake_readers (Suc n) w =
     (case cell w of None \<Rightarrow> w | Some c \<Rightarrow>
      case waiting_readers c of
        [] \<Rightarrow> w
      | i # is \<Rightarrow> wake_readers n (acquire_read n i (w\<lparr>cell := Some (c\<lparr>waiting_readers := is\<rparr>)\<rparr>)))"

definition lock_fuel :: "lock_world \<Rightarrow> nat" where
  "lock_fuel w = 2 * (case cell w of None \<Rightarrow> 0 | Some c \<Rightarrow> length (waiting_readers c)) + 2"

definition new_handle :: "nat \<Rightarrow> handle_kind \<Rightarrow> bool \<Rightarrow> lock_world \<Rightarrow> lock_world" where
  "new_handle i k r w = (let w1 = get_cell w
     in w1\<lparr>kind := (kind w1)(i := k), raises := (raises w1)(i := r), object := (object w1)(i := generation w1)\<rparr>)"

definition request_read :: "nat \<Rightarrow> handle_kind \<Rightarrow> bool \<Rightarrow> lock_world \<Rightarrow> lock_world" where
  "request_read i k r w =
     (let w1 = new_handle i k r w
      in case cell w1 of None \<Rightarrow> w1 | Some c \<Rightarrow>
         if \<not> writer c \<and> waiting_writers c = [] then acquire_read (lock_fuel w1) i w1
         else set_status i WaitingForLock (w1\<lparr>cell := Some (c\<lparr>waiting_readers := waiting_readers c @ [i]\<rparr>)\<rparr>))"

definition request_write :: "nat \<Rightarrow> lock_world \<Rightarrow> lock_world" where
  "request_write i w =
     (let w1 = new_handle i Write False w
      in case cell w1 of None \<Rightarrow> w1 | Some c \<Rightarrow>
         if \<not> writer c \<and> readers c = 0 then acquire_write (lock_fuel w1) i w1
         else set_status i WaitingForLock (w1\<lparr>cell := Some (c\<lparr>waiting_writers := waiting_writers c @ [i]\<rparr>)\<rparr>))"

text \<open>
  \<open>Symbol.dispose\<close>. The disposables of \<open>reserveRead\<close> and \<open>reserveWrite\<close> remember that
  they were released; the one of \<open>read\<close> does not.
\<close>

definition dispose :: "nat \<Rightarrow> lock_world \<Rightarrow> lock_world" where
  "dispose i w =
     (let free = (\<lambda>f w. let w1 = on_object i f (set_status i Released w) in process_lock (lock_fuel w1) w1)
      in if status w i = Held
         then free (if kind w i = Write then (\<lambda>c. c\<lparr>writer := False\<rparr>) else add_readers (-1)) w
         else if status w i = Released \<and> kind w i = PlainRead then free (add_readers (-1)) w
         else w)"

definition cancel_handle :: "nat \<Rightarrow> lock_world \<Rightarrow> lock_world" where
  "cancel_handle i w =
     (if kind w i = PlainRead then w
      else if status w i = Held then dispose i w
      else if status w i = WaitingForLock
        then (let w1 = set_status i CancelledHandle (on_object i
                  (\<lambda>c. c\<lparr>waiting_readers := remove1 i (waiting_readers c), waiting_writers := remove1 i (waiting_writers c)\<rparr>) w)
              in process_lock (lock_fuel w1) w1)
      else w)"

datatype lock_op = OpRead nat handle_kind bool | OpWrite nat | OpDispose nat | OpCancelHandle nat

fun lock_step :: "lock_world \<Rightarrow> lock_op \<Rightarrow> lock_world" where
  "lock_step w (OpRead i k r) =
     (if status w i = Unused then request_read i (if k = ReservedRead then ReservedRead else PlainRead) r w else w)"
| "lock_step w (OpWrite i) = (if status w i = Unused then request_write i w else w)"
| "lock_step w (OpDispose i) = dispose i w"
| "lock_step w (OpCancelHandle i) = cancel_handle i w"

text \<open>A history in which no disposable of \<open>read\<close> is disposed twice.\<close>

fun single_dispose :: "lock_world \<Rightarrow> lock_op \<Rightarrow> bool" where
  "single_dispose w (OpDispose i) \<longleftrightarrow> \<not> (status w i = Released \<and> kind w i = PlainRead)"
| "single_dispose w _ \<longleftrightarrow> True"

fun disposed_once :: "lock_world \<Rightarrow> lock_op list \<Rightarrow> bool" where
  "disposed_once w [] \<longleftrightarrow> True"
| "disposed_once w (op # ops) \<longleftrightarrow> single_dispose w op \<and> disposed_once (lock_step w op) ops"

definition careful_step :: "lock_world \<Rightarrow> lock_op \<Rightarrow> lock_world" where
  "careful_step w op = (if single_dispose w op then lock_step w op else w)"

lemma careful_run: "disposed_once w ops \<Longrightarrow> run_steps lock_step w ops = run_steps careful_step w ops"
  by (induction ops arbitrary: w) (simp_all add: careful_step_def)

definition no_locks :: lock_world where
  "no_locks = \<lparr>cell = None, generation = 0, status = (\<lambda>_. Unused), kind = (\<lambda>_. PlainRead), raises = (\<lambda>_. False),
     object = (\<lambda>_. 0)\<rparr>"

section \<open>The invariant\<close>

definition held_readers :: "lock_world \<Rightarrow> nat set" where
  "held_readers w = {i. status w i = Held \<and> kind w i \<noteq> Write}"

definition held_writers :: "lock_world \<Rightarrow> nat set" where
  "held_writers w = {i. status w i = Held \<and> kind w i = Write}"

definition waiting :: "lock_world \<Rightarrow> bool \<Rightarrow> nat set" where
  "waiting w wr = {i. status w i = WaitingForLock \<and> (kind w i = Write) = wr}"

definition cell_core :: "lock_world \<Rightarrow> lock_cell \<Rightarrow> bool" where
  "cell_core w c \<longleftrightarrow>
     readers c = int (card (held_readers w)) \<and> finite (held_readers w)
     \<and> (writer c \<longleftrightarrow> held_writers w \<noteq> {}) \<and> (\<forall>i \<in> held_writers w. \<forall>j \<in> held_writers w. i = j)
     \<and> (writer c \<longrightarrow> held_readers w = {})
     \<and> set (waiting_readers c) = waiting w False \<and> distinct (waiting_readers c)
     \<and> set (waiting_writers c) = waiting w True \<and> distinct (waiting_writers c)
     \<and> (\<forall>i. status w i = Held \<or> status w i = WaitingForLock \<longrightarrow> object w i = generation w)"

definition core :: "lock_world \<Rightarrow> bool" where
  "core w \<longleftrightarrow> (case cell w of
       None \<Rightarrow> (\<forall>i. status w i \<noteq> Held \<and> status w i \<noteq> WaitingForLock)
     | Some c \<Rightarrow> cell_core w c)"

definition busy :: "lock_world \<Rightarrow> bool" where
  "busy w \<longleftrightarrow> (case cell w of None \<Rightarrow> True | Some c \<Rightarrow> readers c > 0 \<or> writer c)"

definition lock_ok :: "lock_world \<Rightarrow> bool" where
  "lock_ok w \<longleftrightarrow> core w \<and> busy w"

lemma set_status_simps [simp]:
  "cell (set_status i s w) = cell w" "generation (set_status i s w) = generation w"
  "kind (set_status i s w) = kind w" "raises (set_status i s w) = raises w" "object (set_status i s w) = object w"
  "status (set_status i s w) j = (if j = i then s else status w j)"
  "set_status i s (set_status i s' w) = set_status i s w"
  "set_status i s (w\<lparr>cell := x\<rparr>) = (set_status i s w)\<lparr>cell := x\<rparr>"
  by (simp_all add: set_status_def)

lemma live_sets [simp]:
  "held_readers (set_status i s w) =
     (if s = Held \<and> kind w i \<noteq> Write then insert i (held_readers w) else held_readers w - {i})"
  "held_writers (set_status i s w) =
     (if s = Held \<and> kind w i = Write then insert i (held_writers w) else held_writers w - {i})"
  "waiting (set_status i s w) wr =
     (if s = WaitingForLock \<and> (kind w i = Write) = wr then insert i (waiting w wr) else waiting w wr - {i})"
  by (auto simp: held_readers_def held_writers_def waiting_def)

lemma live_sets_cell [simp]:
  "held_readers (w\<lparr>cell := x\<rparr>) = held_readers w" "held_writers (w\<lparr>cell := x\<rparr>) = held_writers w"
  "waiting (w\<lparr>cell := x\<rparr>) wr = waiting w wr"
  by (simp_all add: held_readers_def held_writers_def waiting_def)

lemma live_mem:
  "i \<in> held_readers w \<longleftrightarrow> status w i = Held \<and> kind w i \<noteq> Write"
  "i \<in> held_writers w \<longleftrightarrow> status w i = Held \<and> kind w i = Write"
  "i \<in> waiting w wr \<longleftrightarrow> status w i = WaitingForLock \<and> (kind w i = Write) = wr"
  by (simp_all add: held_readers_def held_writers_def waiting_def)

lemma on_object_same:
  "cell w = Some c \<Longrightarrow> object w i = generation w \<Longrightarrow> on_object i f w = w\<lparr>cell := Some (f c)\<rparr>"
  by (simp add: on_object_def)

definition dormant :: "handle_status \<Rightarrow> bool" where
  "dormant s \<longleftrightarrow> s \<noteq> Held \<and> s \<noteq> WaitingForLock"

lemma dormant_not_live:
  "dormant (status w i) \<Longrightarrow> i \<notin> held_readers w \<and> i \<notin> held_writers w \<and> i \<notin> waiting w wr"
  by (auto simp: dormant_def live_mem)

lemma core_dormant: "core w \<Longrightarrow> dormant (status w i) \<Longrightarrow> dormant s \<Longrightarrow> core (set_status i s w)"
  using dormant_not_live [of w i]
  by (auto simp: core_def cell_core_def dormant_def split: option.split)

text \<open>Taking a handle out of a queue, and admitting a handle that is in no queue.\<close>

lemma unqueue_reader:
  assumes "core w" "cell w = Some c" "waiting_readers c = i # is"
  shows "core (set_status i Unused (w\<lparr>cell := Some (c\<lparr>waiting_readers := is\<rparr>)\<rparr>))"
    and "status w i = WaitingForLock" "kind w i \<noteq> Write" "object w i = generation w"
proof -
  have c: "cell_core w c" using assms by (simp add: core_def)
  then have "i \<in> waiting w False" using assms(3) by (auto simp: cell_core_def)
  then show live: "status w i = WaitingForLock" "kind w i \<noteq> Write" by (auto simp: live_mem)
  show "object w i = generation w" using c live by (simp add: cell_core_def)
  have "i \<notin> held_readers w" "i \<notin> held_writers w" "i \<notin> waiting w True" using live by (auto simp: live_mem)
  moreover have "set is = waiting w False - {i}" using c assms(3) by (auto simp: cell_core_def)
  ultimately show "core (set_status i Unused (w\<lparr>cell := Some (c\<lparr>waiting_readers := is\<rparr>)\<rparr>))"
    using c assms(3) by (auto simp: core_def cell_core_def)
qed

lemma unqueue_writer:
  assumes "core w" "cell w = Some c" "waiting_writers c = i # is"
  shows "core (set_status i Unused (w\<lparr>cell := Some (c\<lparr>waiting_writers := is\<rparr>)\<rparr>))"
    and "status w i = WaitingForLock" "kind w i = Write" "object w i = generation w"
proof -
  have c: "cell_core w c" using assms by (simp add: core_def)
  then have "i \<in> waiting w True" using assms(3) by (auto simp: cell_core_def)
  then show live: "status w i = WaitingForLock" "kind w i = Write" by (auto simp: live_mem)
  show "object w i = generation w" using c live by (simp add: cell_core_def)
  have "i \<notin> held_readers w" "i \<notin> held_writers w" "i \<notin> waiting w False" using live by (auto simp: live_mem)
  moreover have "set is = waiting w True - {i}" using c assms(3) by (auto simp: cell_core_def)
  ultimately show "core (set_status i Unused (w\<lparr>cell := Some (c\<lparr>waiting_writers := is\<rparr>)\<rparr>))"
    using c assms(3) by (auto simp: core_def cell_core_def)
qed

lemma admit_reader:
  assumes "core w" "cell w = Some c" "dormant (status w i)" "kind w i \<noteq> Write" "object w i = generation w" "\<not> writer c"
  shows "core (set_status i Held (w\<lparr>cell := Some (add_readers 1 c)\<rparr>))"
  using assms dormant_not_live [OF assms(3)]
  by (auto simp: core_def cell_core_def add_readers_def)

lemma admit_writer:
  assumes "core w" "cell w = Some c" "dormant (status w i)" "kind w i = Write" "object w i = generation w"
    and "\<not> writer c" "readers c = 0"
  shows "core (set_status i Held (w\<lparr>cell := Some (c\<lparr>writer := True\<rparr>)\<rparr>))"
  using assms dormant_not_live [OF assms(3)]
  by (auto simp: core_def cell_core_def)

section \<open>Waking the waiters\<close>

definition queued_readers :: "lock_world \<Rightarrow> nat" where
  "queued_readers w = (case cell w of None \<Rightarrow> 0 | Some c \<Rightarrow> length (waiting_readers c))"

definition readers_only :: "lock_world \<Rightarrow> bool" where
  "readers_only w \<longleftrightarrow> (case cell w of None \<Rightarrow> True | Some c \<Rightarrow> \<not> writer c \<and> waiting_writers c = [])"

lemma acquire_read_core:
  assumes "core (set_status i Unused w)" "cell w = Some c" "\<not> writer c" "status w i \<noteq> CancelledHandle"
    "kind w i \<noteq> Write" "object w i = generation w"
  shows "raises w i \<Longrightarrow> acquire_read n i w = process_lock n (set_status i FailedToAcquire w)
      \<and> core (set_status i FailedToAcquire w)"
    and "\<not> raises w i \<Longrightarrow> acquire_read n i w = set_status i Held (w\<lparr>cell := Some (add_readers 1 c)\<rparr>)
      \<and> core (set_status i Held (w\<lparr>cell := Some (add_readers 1 c)\<rparr>))"
proof -
  assume "raises w i"
  moreover have "on_object i (add_readers (-1)) (on_object i (add_readers 1) (set_status i FailedToAcquire w))
      = set_status i FailedToAcquire w"
    using assms(2,6) by (simp add: on_object_def add_readers_def)
  moreover have "core (set_status i FailedToAcquire (set_status i Unused w))"
    by (rule core_dormant [OF assms(1)]) (simp_all add: dormant_def)
  ultimately show "acquire_read n i w = process_lock n (set_status i FailedToAcquire w)
      \<and> core (set_status i FailedToAcquire w)" using assms(4) by simp
next
  assume "\<not> raises w i"
  moreover have "on_object i (add_readers 1) (set_status i Held w) = set_status i Held (w\<lparr>cell := Some (add_readers 1 c)\<rparr>)"
    using assms(2,6) by (simp add: on_object_def)
  moreover have "core (set_status i Held ((set_status i Unused w)\<lparr>cell := Some (add_readers 1 c)\<rparr>))"
    using assms by (intro admit_reader) (simp_all add: dormant_def)
  ultimately show "acquire_read n i w = set_status i Held (w\<lparr>cell := Some (add_readers 1 c)\<rparr>)
      \<and> core (set_status i Held (w\<lparr>cell := Some (add_readers 1 c)\<rparr>))" using assms(4) by simp
qed

lemma process_wake:
  "(core w \<longrightarrow> 2 * queued_readers w + 2 \<le> n \<longrightarrow>
      core (process_lock n w) \<and> busy (process_lock n w)
      \<and> (readers_only w \<longrightarrow> readers_only (process_lock n w) \<and> queued_readers (process_lock n w) \<le> queued_readers w))
   \<and> (core w \<longrightarrow> readers_only w \<longrightarrow> 2 * queued_readers w + 1 \<le> n \<longrightarrow>
      core (wake_readers n w) \<and> readers_only (wake_readers n w) \<and> queued_readers (wake_readers n w) = 0)"
proof (induction n arbitrary: w)
  case 0
  then show ?case by simp
next
  case (Suc n)
  have wake: "core (wake_readers (Suc n) w) \<and> readers_only (wake_readers (Suc n) w) \<and> queued_readers (wake_readers (Suc n) w) = 0"
    if w: "core w" "readers_only w" "2 * queued_readers w + 1 \<le> Suc n" for w
  proof (cases "cell w")
    case None
    then show ?thesis using w by (simp add: queued_readers_def)
  next
    case (Some c)
    show ?thesis
    proof (cases "waiting_readers c")
      case Nil
      then show ?thesis using w Some by (simp add: queued_readers_def)
    next
      case (Cons i "is")
      let ?p = "w\<lparr>cell := Some (c\<lparr>waiting_readers := is\<rparr>)\<rparr>"
      note un = unqueue_reader [OF w(1) Some Cons]
      have nw: "\<not> writer c" "waiting_writers c = []" using w(2) Some by (simp_all add: readers_only_def)
      have len: "2 * length is + 2 \<le> n" using w(3) Some Cons by (simp add: queued_readers_def)
      have pre: "core (set_status i Unused ?p)" "cell ?p = Some (c\<lparr>waiting_readers := is\<rparr>)"
        "\<not> writer (c\<lparr>waiting_readers := is\<rparr>)" "status ?p i \<noteq> CancelledHandle" "kind ?p i \<noteq> Write"
        "object ?p i = generation ?p"
        using un nw by simp_all
      have "core (acquire_read n i ?p) \<and> readers_only (acquire_read n i ?p) \<and> queued_readers (acquire_read n i ?p) \<le> length is"
      proof (cases "raises ?p i")
        case True
        let ?q = "set_status i FailedToAcquire ?p"
        have q: "acquire_read n i ?p = process_lock n ?q" "core ?q"
          using acquire_read_core(1) [OF pre True, of n] by blast+
        have "readers_only ?q" "queued_readers ?q = length is" using nw by (simp_all add: readers_only_def queued_readers_def)
        with Suc.IH [of ?q] q len show ?thesis by auto
      next
        case False
        have "acquire_read n i ?p = set_status i Held (?p\<lparr>cell := Some (add_readers 1 (c\<lparr>waiting_readers := is\<rparr>))\<rparr>)"
          "core (set_status i Held (?p\<lparr>cell := Some (add_readers 1 (c\<lparr>waiting_readers := is\<rparr>))\<rparr>))"
          using acquire_read_core(2) [OF pre False, of n] by blast+
        then show ?thesis using nw by (simp add: readers_only_def queued_readers_def add_readers_def)
      qed
      with Suc.IH [of "acquire_read n i ?p"] len show ?thesis
        by (simp add: Some Cons del: acquire_read.simps)
    qed
  qed
  have "core (process_lock (Suc n) w) \<and> busy (process_lock (Suc n) w)
      \<and> (readers_only w \<longrightarrow> readers_only (process_lock (Suc n) w) \<and> queued_readers (process_lock (Suc n) w) \<le> queued_readers w)"
    if w: "core w" "2 * queued_readers w + 2 \<le> Suc n" for w
  proof (cases "cell w")
    case None
    then show ?thesis using w by (simp add: busy_def)
  next
    case (Some c)
    show ?thesis
    proof (cases "writer c \<or> readers c > 0")
      case True
      then show ?thesis using w Some by (auto simp: busy_def)
    next
      case idle: False
      then have r0: "readers c = 0" using w(1) Some by (simp add: core_def cell_core_def)
      show ?thesis
      proof (cases "waiting_writers c")
        case (Cons i "is")
        let ?p = "w\<lparr>cell := Some (c\<lparr>waiting_writers := is\<rparr>)\<rparr>"
        note un = unqueue_writer [OF w(1) Some Cons]
        have "core (set_status i Held ((set_status i Unused ?p)\<lparr>cell := Some ((c\<lparr>waiting_writers := is\<rparr>)\<lparr>writer := True\<rparr>)\<rparr>))"
          using un idle r0 by (intro admit_writer) (simp_all add: dormant_def)
        then show ?thesis using Some idle Cons un
          by (simp add: on_object_def busy_def readers_only_def)
      next
        case Nil
        have ro: "readers_only w" using Some idle Nil by (simp add: readers_only_def)
        let ?w = "wake_readers n w"
        have k: "core ?w" "readers_only ?w" "queued_readers ?w = 0"
          using Suc.IH [of w] w ro by auto
        show ?thesis
        proof (cases "cell ?w")
          case None
          then show ?thesis using k Some idle Nil by (simp add: busy_def)
        next
          case (Some d)
          have d: "\<not> writer d" "waiting_writers d = []" "waiting_readers d = []"
            using k(2,3) Some by (simp_all add: readers_only_def queued_readers_def)
          have cc: "cell_core ?w d" using k(1) Some by (simp add: core_def)
          show ?thesis
          proof (cases "readers d = 0")
            case True
            have "status ?w j \<noteq> Held" "status ?w j \<noteq> WaitingForLock" for j
            proof -
              have "held_readers ?w = {}" "held_writers ?w = {}" "waiting ?w False = {}" "waiting ?w True = {}"
                using cc True d by (auto simp: cell_core_def)
              then show "status ?w j \<noteq> Held" "status ?w j \<noteq> WaitingForLock"
                by (auto simp: held_readers_def held_writers_def waiting_def)
            qed
            then show ?thesis using \<open>cell w = Some c\<close> Some idle Nil True d
              by (simp add: core_def busy_def readers_only_def queued_readers_def)
          next
            case False
            then have "readers d > 0" using cc by (auto simp: cell_core_def card_gt_0_iff)
            then show ?thesis using \<open>cell w = Some c\<close> Some idle Nil k d
              by (simp add: busy_def queued_readers_def)
          qed
        qed
      qed
    qed
  qed
  with wake show ?case by blast
qed

lemma process_core: "core w \<Longrightarrow> lock_ok (process_lock (lock_fuel w) w)"
  using process_wake [of w "lock_fuel w"] by (simp add: lock_ok_def lock_fuel_def queued_readers_def)

section \<open>Every operation keeps the invariant\<close>

lemma get_cell_core:
  "lock_ok w \<Longrightarrow> \<exists>c. cell (get_cell w) = Some c \<and> core (get_cell w)"
proof (cases "cell w")
  case None
  assume "lock_ok w"
  with None have "held_readers w = {}" "held_writers w = {}" "waiting w wr = {}" for wr
    by (auto simp: lock_ok_def core_def held_readers_def held_writers_def waiting_def)
  then have "held_readers (get_cell w) = {}" "held_writers (get_cell w) = {}" "waiting (get_cell w) wr = {}" for wr
    by (simp_all add: get_cell_def None held_readers_def held_writers_def waiting_def)
  moreover have "status (get_cell w) i \<noteq> Held" "status (get_cell w) i \<noteq> WaitingForLock" for i
    using \<open>lock_ok w\<close> None by (auto simp: lock_ok_def core_def get_cell_def)
  moreover have "cell (get_cell w) = Some fresh_cell" by (simp add: get_cell_def None)
  ultimately show ?thesis by (simp add: core_def cell_core_def fresh_cell_def)
qed (simp add: get_cell_def lock_ok_def)

lemma new_handle_core:
  assumes ok: "lock_ok w" and i: "status w i = Unused"
  obtains c where "cell (new_handle i k r w) = Some c" "core (new_handle i k r w)" "status (new_handle i k r w) i = Unused"
    "kind (new_handle i k r w) i = k" "object (new_handle i k r w) i = generation (new_handle i k r w)"
    "\<And>j. status (new_handle i k r w) j = status w j" "\<And>d. cell w = Some d \<Longrightarrow> c = d"
    "\<And>j. j \<noteq> i \<Longrightarrow> kind (new_handle i k r w) j = kind w j"
proof -
  let ?g = "get_cell w" and ?h = "new_handle i k r w"
  obtain c where c: "cell ?g = Some c" "core ?g" using get_cell_core [OF ok] by blast
  have st: "status ?g j = status w j" "kind ?g j = kind w j" for j by (simp_all add: get_cell_def split: option.split)
  have same: "held_readers ?h = held_readers ?g" "held_writers ?h = held_writers ?g" "waiting ?h wr = waiting ?g wr" for wr
    using i by (auto simp: new_handle_def Let_def held_readers_def held_writers_def waiting_def st)
  have "cell_core ?h c" using c i unfolding cell_core_def core_def same
    by (auto simp: cell_core_def new_handle_def Let_def st)
  with c show thesis
    by (intro that [of c]) (auto simp: new_handle_def Let_def core_def st i get_cell_def split: option.splits)
qed

lemma queue_core:
  assumes "core w" "cell w = Some c" "status w i = Unused" "object w i = generation w"
  shows "kind w i \<noteq> Write \<Longrightarrow>
      core (set_status i WaitingForLock (w\<lparr>cell := Some (c\<lparr>waiting_readers := waiting_readers c @ [i]\<rparr>)\<rparr>))"
    and "kind w i = Write \<Longrightarrow>
      core (set_status i WaitingForLock (w\<lparr>cell := Some (c\<lparr>waiting_writers := waiting_writers c @ [i]\<rparr>)\<rparr>))"
  using assms dormant_not_live [of w i] by (auto simp: core_def cell_core_def dormant_def)

lemma busy_queue: "busy w \<Longrightarrow> cell w = Some c \<Longrightarrow> readers c' = readers c \<Longrightarrow> writer c' = writer c
    \<Longrightarrow> busy (set_status i s (w\<lparr>cell := Some c'\<rparr>))"
  by (simp add: busy_def)

lemma request_read_ok:
  assumes ok: "lock_ok w" and i: "status w i = Unused" and k: "k \<noteq> Write"
  shows "lock_ok (request_read i k r w)"
proof -
  let ?h = "new_handle i k r w"
  obtain c where h: "cell ?h = Some c" "core ?h" "status ?h i = Unused" "kind ?h i = k" "object ?h i = generation ?h"
    and old: "\<And>d. cell w = Some d \<Longrightarrow> c = d"
    using new_handle_core [OF ok i] by metis
  have "core (set_status i Unused ?h)" by (rule core_dormant [OF h(2)]) (simp_all add: dormant_def h)
  note acq = acquire_read_core [OF this h(1) _ _ _ h(5)]
  show ?thesis
  proof (cases "\<not> writer c \<and> waiting_writers c = []")
    case True
    show ?thesis
    proof (cases "raises ?h i")
      case r: True
      let ?q = "set_status i FailedToAcquire ?h"
      have "core ?q" "acquire_read (lock_fuel ?h) i ?h = process_lock (lock_fuel ?q) ?q"
        using acq(1) [of "lock_fuel ?h"] True h k r by (simp_all add: lock_fuel_def)
      with process_core [of ?q] True h show ?thesis by (simp add: request_read_def Let_def del: acquire_read.simps)
    next
      case nr: False
      have a: "acquire_read (lock_fuel ?h) i ?h = set_status i Held (?h\<lparr>cell := Some (add_readers 1 c)\<rparr>)"
        "core (set_status i Held (?h\<lparr>cell := Some (add_readers 1 c)\<rparr>))"
        using acq(2) [of "lock_fuel ?h"] True h k nr by simp_all
      have "readers c \<ge> 0" using h(1,2) by (simp add: core_def cell_core_def)
      then show ?thesis using a True h
        by (simp add: request_read_def Let_def lock_ok_def busy_def add_readers_def del: acquire_read.simps)
    qed
  next
    case False
    then have "cell w = Some c" using old h(1) ok
      by (cases "cell w") (auto simp: new_handle_def Let_def get_cell_def fresh_cell_def)
    then have "readers c > 0 \<or> writer c" using ok by (simp add: lock_ok_def busy_def)
    with False h k queue_core(1) [OF h(2,1,3,5)] show ?thesis
      by (auto simp: request_read_def Let_def lock_ok_def busy_def)
  qed
qed

lemma request_write_ok:
  assumes ok: "lock_ok w" and i: "status w i = Unused"
  shows "lock_ok (request_write i w)"
proof -
  let ?h = "new_handle i Write False w"
  obtain c where h: "cell ?h = Some c" "core ?h" "status ?h i = Unused" "kind ?h i = Write" "object ?h i = generation ?h"
    using new_handle_core [OF ok i] by metis
  show ?thesis
  proof (cases "\<not> writer c \<and> readers c = 0")
    case True
    have "core (set_status i Held (?h\<lparr>cell := Some (c\<lparr>writer := True\<rparr>)\<rparr>))"
      using True h by (intro admit_writer) (simp_all add: dormant_def)
    then show ?thesis using True h
      by (simp add: request_write_def Let_def lock_ok_def busy_def on_object_def)
  next
    case False
    moreover have "readers c \<ge> 0" using h(1,2) by (simp add: core_def cell_core_def)
    ultimately have "readers c > 0 \<or> writer c" by auto
    with False h queue_core(2) [OF h(2,1,3,5)] show ?thesis
      by (auto simp: request_write_def Let_def lock_ok_def busy_def)
  qed
qed

text \<open>Releasing a held handle.\<close>

lemma release_core:
  assumes ok: "lock_ok w" and i: "status w i = Held"
  shows "kind w i \<noteq> Write \<Longrightarrow> core (on_object i (add_readers (-1)) (set_status i Released w))"
    and "kind w i = Write \<Longrightarrow> core (on_object i (\<lambda>c. c\<lparr>writer := False\<rparr>) (set_status i Released w))"
proof -
  obtain c where c: "cell w = Some c" "cell_core w c"
    using ok i by (cases "cell w") (auto simp: lock_ok_def core_def)
  have ob: "object w i = generation w" using c(2) i by (simp add: cell_core_def)
  {
    assume "kind w i \<noteq> Write"
    then have mem: "i \<in> held_readers w" "i \<notin> held_writers w" "i \<notin> waiting w wr" for wr using i by (auto simp: live_mem)
    have fin: "finite (held_readers w)" and cnt: "readers c = int (card (held_readers w))"
      and nw: "\<not> writer c" "held_writers w = {}" using c(2) mem(1) by (auto simp: cell_core_def)
    have "card (held_readers w) = Suc (card (held_readers w - {i}))" by (rule card.remove [OF fin mem(1)])
    then have "readers c + - 1 = int (card (held_readers w - {i}))" using cnt by simp
    moreover have "held_writers w - {i} = held_writers w" "waiting w wr - {i} = waiting w wr" for wr using mem by blast+
    ultimately have "cell_core (set_status i Released w) (add_readers (-1) c)"
      using c(2) nw fin by (simp add: cell_core_def add_readers_def)
    then show "core (on_object i (add_readers (-1)) (set_status i Released w))"
      using c(1) ob by (simp add: on_object_same core_def cell_core_def)
  }
  {
    assume "kind w i = Write"
    then have "i \<in> held_writers w" "i \<notin> held_readers w" "i \<notin> waiting w wr" for wr using i by (auto simp: live_mem)
    moreover from this have "held_writers w = {i}" using c(2) by (auto simp: cell_core_def)
    ultimately have "cell_core (set_status i Released w) (c\<lparr>writer := False\<rparr>)"
      using c(2) by (auto simp: cell_core_def)
    then show "core (on_object i (\<lambda>c. c\<lparr>writer := False\<rparr>) (set_status i Released w))"
      using c(1) ob by (simp add: on_object_same core_def cell_core_def)
  }
qed

lemma dispose_ok:
  assumes "lock_ok w" "single_dispose w (OpDispose i)"
  shows "lock_ok (dispose i w)"
proof (cases "status w i = Held")
  case True
  then show ?thesis
    using process_core [OF release_core(1) [OF assms(1) True]] process_core [OF release_core(2) [OF assms(1) True]]
    by (cases "kind w i = Write") (simp_all add: dispose_def Let_def)
next
  case False
  then have "dispose i w = w" using assms(2) by (auto simp: dispose_def)
  with assms(1) show ?thesis by simp
qed

lemma cancel_ok:
  assumes ok: "lock_ok w"
  shows "lock_ok (cancel_handle i w)"
proof (cases "kind w i \<noteq> PlainRead \<and> status w i = WaitingForLock")
  case True
  obtain c where c: "cell w = Some c" "cell_core w c"
    using ok True by (cases "cell w") (auto simp: lock_ok_def core_def)
  let ?c = "c\<lparr>waiting_readers := remove1 i (waiting_readers c), waiting_writers := remove1 i (waiting_writers c)\<rparr>"
  have "i \<notin> held_readers w" "i \<notin> held_writers w" using True by (auto simp: live_mem)
  then have "cell_core (set_status i CancelledHandle w) ?c" using c(2) by (auto simp: cell_core_def)
  moreover have "object w i = generation w" using c(2) True by (simp add: cell_core_def)
  ultimately have "core (set_status i CancelledHandle (on_object i
      (\<lambda>c. c\<lparr>waiting_readers := remove1 i (waiting_readers c), waiting_writers := remove1 i (waiting_writers c)\<rparr>) w))"
    using c(1) by (simp add: on_object_same core_def cell_core_def)
  with process_core True show ?thesis by (simp add: cancel_handle_def Let_def)
next
  case False
  then show ?thesis using ok dispose_ok [OF ok, of i] by (auto simp: cancel_handle_def)
qed

lemma careful_step_ok: "lock_ok w \<Longrightarrow> lock_ok (careful_step w op)"
  by (cases op) (auto simp: careful_step_def request_read_ok request_write_ok dispose_ok cancel_ok)

lemma no_locks_ok: "lock_ok no_locks"
  by (simp add: lock_ok_def core_def busy_def no_locks_def)

interpretation lock_runs: step_system careful_step no_locks lock_ok
  by unfold_locales (simp_all add: no_locks_ok careful_step_ok)

section \<open>Properties\<close>

text \<open>
  C9: the lock excludes. After any history of lock operations in which no disposable of a plain
  read is disposed a second time, a handle that holds the lock for writing is the only handle
  that holds it. The restriction is needed: the disposable of \<open>read\<close> has no release guard, and
  disposing it twice admits a writer beside a reader (\<open>double_dispose_breaks_exclusion\<close> below).
  Disposing a reserved handle twice is not excluded.
\<close>

theorem writer_excludes_everyone:
  assumes "w = run_steps lock_step no_locks ops" "disposed_once no_locks ops"
    and "status w i = Held" "kind w i = Write" "status w j = Held"
  shows "i = j"
proof -
  have "core w" using lock_runs.reachable_inv [of ops] careful_run [OF assms(2)] assms(1) by (simp add: lock_ok_def)
  then obtain c where c: "cell w = Some c" "cell_core w c" using assms(3) by (cases "cell w") (auto simp: core_def)
  have "i \<in> held_writers w" using assms(3,4) by (simp add: live_mem)
  with c(2) have "held_readers w = {}" by (auto simp: cell_core_def)
  then have "j \<in> held_writers w" using assms(5) by (auto simp: held_readers_def live_mem)
  moreover have "\<forall>i \<in> held_writers w. \<forall>j \<in> held_writers w. i = j" using c(2) by (simp add: cell_core_def)
  ultimately show ?thesis using \<open>i \<in> held_writers w\<close> by blast
qed

text \<open>
  C10: no wakeup is lost and no entry leaks. After any history of lock operations in which no
  disposable of a plain read is disposed a second time, callbacks that throw and cancellations
  included, a handle waits only while another one holds the lock, and when nothing holds it the
  map has no entry for the key.
\<close>

theorem waiting_implies_held:
  assumes "w = run_steps lock_step no_locks ops" "disposed_once no_locks ops"
  shows "(status w i = WaitingForLock \<longrightarrow> (\<exists>j. status w j = Held))
    \<and> ((\<forall>j. status w j \<noteq> Held) \<longrightarrow> cell w = None)"
proof -
  have ok: "lock_ok w" unfolding assms(1) careful_run [OF assms(2)] by (rule lock_runs.reachable_inv)
  show ?thesis
  proof (cases "cell w")
    case None
    then show ?thesis using ok by (auto simp: lock_ok_def core_def)
  next
    case (Some c)
    then have c: "cell_core w c" "readers c > 0 \<or> writer c" using ok by (simp_all add: lock_ok_def core_def busy_def)
    then have "held_readers w \<noteq> {} \<or> held_writers w \<noteq> {}" by (auto simp: cell_core_def)
    then have "\<exists>j. status w j = Held" by (auto simp: held_readers_def held_writers_def)
    then show ?thesis by blast
  qed
qed

text \<open>
  A reader never overtakes a writer: while a writer waits, a newly requested read waits too.
\<close>

theorem reader_waits_behind_writer:
  assumes "w = run_steps careful_step no_locks ops"
    and "status w i = WaitingForLock" "kind w i = Write" "status w j = Unused"
  shows "status (careful_step w (OpRead j k r)) j = WaitingForLock"
proof -
  have ok: "lock_ok w" unfolding assms(1) by (rule lock_runs.reachable_inv)
  obtain d where d: "cell w = Some d" "cell_core w d" using ok assms(2) by (cases "cell w") (auto simp: lock_ok_def core_def)
  have "i \<in> waiting w True" using assms(2,3) by (simp add: live_mem)
  moreover have "set (waiting_writers d) = waiting w True" using d(2) by (simp add: cell_core_def)
  ultimately have "waiting_writers d \<noteq> []" by auto
  moreover have "cell (new_handle j k' r w) = Some d" for k' using d(1) by (simp add: new_handle_def Let_def get_cell_def)
  ultimately show ?thesis using assms(4) by (simp add: careful_step_def request_read_def Let_def)
qed

definition demo_contended :: "lock_op list" where
  "demo_contended = [OpRead 1 PlainRead False, OpWrite 2, OpRead 3 ReservedRead True, OpRead 4 ReservedRead False, OpDispose 1]"

theorem writer_excludes_everyone_witness:
  "{j. status (run_steps lock_step no_locks demo_contended) j = Held} = {2}"
proof -
  have "disposed_once no_locks demo_contended" "status (run_steps lock_step no_locks demo_contended) 2 = Held"
    "kind (run_steps lock_step no_locks demo_contended) 2 = Write" by code_simp+
  then show ?thesis using writer_excludes_everyone [OF refl, of demo_contended 2] by blast
qed

theorem waiting_implies_held_witness:
  "(\<exists>j. status (run_steps lock_step no_locks demo_contended) j = Held)
   \<and> cell (run_steps lock_step no_locks (demo_contended @ [OpDispose 2, OpDispose 4])) = None"
proof -
  have w: "disposed_once no_locks demo_contended" "status (run_steps lock_step no_locks demo_contended) 4 = WaitingForLock"
    by code_simp+
  have "cell (run_steps lock_step no_locks (demo_contended @ [OpDispose 2, OpDispose 4])) = None" by code_simp
  with w waiting_implies_held [OF refl, of demo_contended 4] show ?thesis by blast
qed

theorem reader_waits_behind_writer_witness:
  "status (careful_step (run_steps careful_step no_locks (take 2 demo_contended)) (OpRead 3 PlainRead False)) 3 = WaitingForLock"
proof -
  have "status (run_steps careful_step no_locks (take 2 demo_contended)) 2 = WaitingForLock"
    "kind (run_steps careful_step no_locks (take 2 demo_contended)) 2 = Write"
    "status (run_steps careful_step no_locks (take 2 demo_contended)) 3 = Unused" by code_simp+
  then show ?thesis by (rule reader_waits_behind_writer [OF refl])
qed

text \<open>
  Without the release guard that the reserved handles have, exclusion is lost. Disposing
  one plain read twice while another reader is active admits a writer next to that reader.
\<close>

theorem double_dispose_breaks_exclusion:
  "status (run_steps lock_step no_locks
      [OpRead 1 PlainRead False, OpRead 2 PlainRead False, OpDispose 1, OpDispose 1, OpWrite 3]) 3 = Held
   \<and> status (run_steps lock_step no_locks
      [OpRead 1 PlainRead False, OpRead 2 PlainRead False, OpDispose 1, OpDispose 1, OpWrite 3]) 2 = Held
   \<and> kind (run_steps lock_step no_locks
      [OpRead 1 PlainRead False, OpRead 2 PlainRead False, OpDispose 1, OpDispose 1, OpWrite 3]) 3 = Write"
  by code_simp

end
