(* ===== verification/JsString.thy ===== *)
theory JsString
  imports Prelude
begin

text \<open>
  JavaScript strings as lists of UTF-16 code units, with the operations of
  \<open>String.prototype\<close> and \<open>Array.prototype.join\<close> that the text components use.
\<close>

type_synonym ustring = "int list"

definition lit :: "string \<Rightarrow> ustring" where
  "lit s = map of_char s"

abbreviation newline :: int where
  "newline \<equiv> 10"

text \<open>White space and line terminators, as \<open>trim\<close> and \<open>\s\<close> of a regular expression know them.\<close>

definition unit_space :: "int \<Rightarrow> bool" where
  "unit_space n \<longleftrightarrow> (9 \<le> n \<and> n \<le> 13) \<or> n = 32 \<or> n = 160 \<or> n = 0x1680 \<or> (0x2000 \<le> n \<and> n \<le> 0x200A)
     \<or> n = 0x2028 \<or> n = 0x2029 \<or> n = 0x202F \<or> n = 0x205F \<or> n = 0x3000 \<or> n = 0xFEFF"

definition unit_word :: "int \<Rightarrow> bool" where
  "unit_word n \<longleftrightarrow> (48 \<le> n \<and> n \<le> 57) \<or> (65 \<le> n \<and> n \<le> 90) \<or> (97 \<le> n \<and> n \<le> 122) \<or> n = 95"

definition trim_start :: "ustring \<Rightarrow> ustring" where
  "trim_start s = dropWhile unit_space s"

definition trim_end :: "ustring \<Rightarrow> ustring" where
  "trim_end s = rev (dropWhile unit_space (rev s))"

definition trim :: "ustring \<Rightarrow> ustring" where
  "trim s = trim_end (trim_start s)"

definition starts_with :: "ustring \<Rightarrow> ustring \<Rightarrow> bool" where
  "starts_with s p \<longleftrightarrow> take (length p) s = p"

definition ends_with :: "ustring \<Rightarrow> ustring \<Rightarrow> bool" where
  "ends_with s p \<longleftrightarrow> length p \<le> length s \<and> drop (length s - length p) s = p"

fun split_lines :: "ustring \<Rightarrow> ustring list" where
  "split_lines [] = [[]]"
| "split_lines (c # cs) =
     (if c = newline then [] # split_lines cs
      else (case split_lines cs of [] \<Rightarrow> [[c]] | l # ls \<Rightarrow> (c # l) # ls))"

fun join_lines :: "ustring list \<Rightarrow> ustring" where
  "join_lines [] = []"
| "join_lines [l] = l"
| "join_lines (l # ls) = l @ newline # join_lines ls"

lemma split_lines_nonempty [simp]: "split_lines s \<noteq> []"
  by (induction s) (auto split: list.splits)

lemma join_lines_Cons: "ls \<noteq> [] \<Longrightarrow> join_lines (l # ls) = l @ newline # join_lines ls"
  by (cases ls) simp_all

text \<open>\<open>s.split("\n").join("\n") = s\<close>, and back for lines without a newline.\<close>

lemma join_split: "join_lines (split_lines s) = s"
proof (induction s)
  case (Cons c cs)
  show ?case
  proof (cases "c = newline")
    case True
    then show ?thesis using Cons by (simp add: join_lines_Cons)
  next
    case False
    obtain l ls where s: "split_lines cs = l # ls" using split_lines_nonempty by (metis neq_Nil_conv)
    with Cons False show ?thesis by (cases ls) auto
  qed
qed simp

lemma split_plain: "newline \<notin> set l \<Longrightarrow> split_lines l = [l]"
  by (induction l) auto

lemma split_append_newline: "newline \<notin> set l \<Longrightarrow> split_lines (l @ newline # r) = l # split_lines r"
  by (induction l) auto

lemma split_join:
  "ls \<noteq> [] \<Longrightarrow> list_all (\<lambda>l. newline \<notin> set l) ls \<Longrightarrow> split_lines (join_lines ls) = ls"
  by (induction ls rule: join_lines.induct) (simp_all add: split_plain split_append_newline)

lemma split_lines_plain: "l \<in> set (split_lines s) \<Longrightarrow> newline \<notin> set l"
  by (induction s arbitrary: l) (auto split: list.splits if_splits)

lemma starts_with_append [simp]: "starts_with (p @ s) p"
  by (simp add: starts_with_def)

lemma lit_simps [simp]: "lit [] = []" "length (lit s) = length s" "lit (s @ t) = lit s @ lit t"
  by (simp_all add: lit_def)

end
