(* ===== verification/PatchText.thy ===== *)
theory PatchText
  imports JsString
begin

text \<open>
  The patch format (\<open>patch/index.ts\<close>): parsing, locating the chunks of an update in a file,
  applying the replacements and writing the files. A position in \<open>lines\<close> is the list of the
  lines from it on; an index into a file is a natural number and \<open>-1\<close> is \<open>None\<close>.
\<close>

record chunk =
  old_lines :: "ustring list"
  new_lines :: "ustring list"
  change_context :: "ustring option"
  is_end_of_file :: bool

datatype hunk = AddFile ustring ustring | DeleteFile ustring | UpdateFile ustring "ustring option" "chunk list"

datatype patch_error =
    MissingMarkers
  | ContextNotFound ustring
  | LinesNotFound "ustring list"
  | NothingModified
  | TargetExists ustring
  | FileNotFound ustring

section \<open>Parsing\<close>

text \<open>A header line: the path, the move target, and the lines after the header.\<close>

definition header_path :: "ustring \<Rightarrow> string \<Rightarrow> ustring" where
  "header_path line p = trim (drop (length p) line)"

definition parse_patch_header :: "ustring list \<Rightarrow> (ustring \<times> ustring option \<times> ustring list) option" where
  "parse_patch_header ls =
     (case ls of [] \<Rightarrow> None | line # rest \<Rightarrow>
      if starts_with line (lit ''*** Add File:'') then
        (let p = header_path line ''*** Add File:'' in if p \<noteq> [] then Some (p, None, rest) else None)
      else if starts_with line (lit ''*** Delete File:'') then
        (let p = header_path line ''*** Delete File:'' in if p \<noteq> [] then Some (p, None, rest) else None)
      else if starts_with line (lit ''*** Update File:'') then
        (let p = header_path line ''*** Update File:'';
             (mv, rest') = (case rest of
                 m # ms \<Rightarrow> if starts_with m (lit ''*** Move to:'') then (Some (header_path m ''*** Move to:''), ms)
                             else (None, rest)
               | [] \<Rightarrow> (None, rest))
         in if p \<noteq> [] then Some (p, mv, rest') else None)
      else None)"

text \<open>The change lines of one chunk: old lines, new lines, the end-of-file mark, and the lines after them.\<close>

fun change_lines :: "ustring list \<Rightarrow> ustring list \<times> ustring list \<times> bool \<times> ustring list" where
  "change_lines [] = ([], [], False, [])"
| "change_lines (l # ls) =
     (if starts_with l (lit ''@@'') \<or> starts_with l (lit ''***'') then ([], [], False, l # ls)
      else if l = lit ''*** End of File'' then ([], [], True, ls)
      else (let (o', n, e, r) = change_lines ls
            in if starts_with l (lit '' '') then (drop 1 l # o', drop 1 l # n, e, r)
               else if starts_with l (lit ''-'') then (drop 1 l # o', n, e, r)
               else if starts_with l (lit ''+'') then (o', drop 1 l # n, e, r)
               else (o', n, e, r)))"

lemma change_lines_rest: "change_lines ls = (o', n, e, r) \<Longrightarrow> length r \<le> length ls"
  by (induction ls arbitrary: o' n e r) (force split: if_split_asm prod.split_asm simp: Let_def)+

function (sequential) parse_update_chunks :: "ustring list \<Rightarrow> chunk list \<times> ustring list" where
  "parse_update_chunks [] = ([], [])"
| "parse_update_chunks (l # ls) =
     (if starts_with l (lit ''***'') then ([], l # ls)
      else if starts_with l (lit ''@@'') then
        (case change_lines ls of (o', n, e, r) \<Rightarrow>
         (case parse_update_chunks r of (cs, rest) \<Rightarrow>
           (\<lparr>old_lines = o', new_lines = n,
             change_context = (let c = trim (drop 2 l) in if c = [] then None else Some c),
             is_end_of_file = e\<rparr> # cs, rest)))
      else parse_update_chunks ls)"
  by pat_completeness auto

termination parse_update_chunks
  by (relation "measure length") (auto intro: le_imp_less_Suc change_lines_rest [OF sym])

fun add_lines :: "ustring list \<Rightarrow> ustring \<times> ustring list" where
  "add_lines [] = ([], [])"
| "add_lines (l # ls) =
     (if starts_with l (lit ''***'') then ([], l # ls)
      else (case add_lines ls of (c, r) \<Rightarrow>
        (if starts_with l (lit ''+'') then drop 1 l @ [newline] @ c else c, r)))"

definition parse_add_file_content :: "ustring list \<Rightarrow> ustring \<times> ustring list" where
  "parse_add_file_content ls =
     (case add_lines ls of (c, r) \<Rightarrow> (if ends_with c [newline] then butlast c else c, r))"

lemma update_chunks_rest: "parse_update_chunks ls = (cs, r) \<Longrightarrow> length r \<le> length ls"
  by (induction ls arbitrary: cs r rule: parse_update_chunks.induct)
     (fastforce dest: change_lines_rest split: if_split_asm prod.split_asm)+

lemma add_lines_rest: "add_lines ls = (c, r) \<Longrightarrow> length r \<le> length ls"
  by (induction ls arbitrary: c r) (fastforce split: if_split_asm prod.split_asm)+

lemma header_rest: "parse_patch_header ls = Some (p, mv, r) \<Longrightarrow> length r < length ls"
  by (auto simp: parse_patch_header_def Let_def split: list.split_asm if_split_asm)

text \<open>
  The main loop. \<open>keep\<close> is the number of lines from the end marker on: the loop runs while
  the position is before it, but a sub-parser may run past it.
\<close>

definition next_hunk :: "ustring list \<Rightarrow> (hunk \<times> ustring list) option" where
  "next_hunk ls =
     (case (ls, parse_patch_header ls) of
        (line # _, Some (p, mv, rest)) \<Rightarrow>
          if starts_with line (lit ''*** Add File:'') then
            (case parse_add_file_content rest of (c, r) \<Rightarrow> Some (AddFile p c, r))
          else if starts_with line (lit ''*** Delete File:'') then Some (DeleteFile p, rest)
          else if starts_with line (lit ''*** Update File:'') then
            (case parse_update_chunks rest of (cs, r) \<Rightarrow> Some (UpdateFile p mv cs, r))
          else None
      | _ \<Rightarrow> None)"

lemma next_hunk_rest: "next_hunk ls = Some (h, r) \<Longrightarrow> length r < length ls"
  by (auto simp: next_hunk_def parse_add_file_content_def dest!: header_rest update_chunks_rest add_lines_rest
      split: list.split_asm option.split_asm if_split_asm prod.split_asm)

function (sequential) parse_hunks :: "nat \<Rightarrow> ustring list \<Rightarrow> hunk list" where
  "parse_hunks keep ls =
     (if length ls \<le> keep then []
      else case next_hunk ls of
        None \<Rightarrow> parse_hunks keep (tl ls)
      | Some (h, r) \<Rightarrow> h # parse_hunks keep r)"
  by pat_completeness auto

termination parse_hunks
  by (relation "measure (\<lambda>(keep, ls). length ls)") (auto dest: next_hunk_rest)

declare parse_hunks.simps [simp del]

text \<open>
  \<open>stripHeredoc\<close> on a trimmed input: \<open>/^(?:cat\s+)?<<['"]?(\w+)['"]?\s*\n([\s\S]*?)\n\1\s*$/\<close>.
  The white space before the body backtracks from its last newline.
\<close>

definition skip_quote :: "ustring \<Rightarrow> ustring" where
  "skip_quote s = (case s of c # cs \<Rightarrow> if c = 39 \<or> c = 34 then cs else s | [] \<Rightarrow> s)"

definition skip_cat :: "ustring \<Rightarrow> ustring" where
  "skip_cat s =
     (if starts_with s (lit ''cat'') \<and> takeWhile unit_space (drop 3 s) \<noteq> []
      then dropWhile unit_space (drop 3 s) else s)"

definition strip_heredoc :: "ustring \<Rightarrow> ustring" where
  "strip_heredoc input =
     (let s = skip_cat input
      in if \<not> starts_with s (lit ''<<'') then input
         else let s1 = skip_quote (drop 2 s); tag = takeWhile unit_word s1;
                  s2 = skip_quote (dropWhile unit_word s1);
                  close = newline # tag;
                  starts = filter (\<lambda>p. s2 ! p = newline \<and> ends_with (drop (Suc p) s2) close)
                             (rev [0..<length (takeWhile unit_space s2)])
              in if tag = [] then input
                 else case starts of
                   [] \<Rightarrow> input
                 | p # _ \<Rightarrow> take (length s2 - Suc p - length close) (drop (Suc p) s2))"

fun index_where :: "('a \<Rightarrow> bool) \<Rightarrow> 'a list \<Rightarrow> nat option" where
  "index_where p [] = None"
| "index_where p (x # xs) = (if p x then Some 0 else map_option Suc (index_where p xs))"

definition parse_patch :: "ustring \<Rightarrow> patch_error + hunk list" where
  "parse_patch text =
     (let lines = split_lines (strip_heredoc (trim text))
      in case (index_where (\<lambda>l. trim l = lit ''*** Begin Patch'') lines,
               index_where (\<lambda>l. trim l = lit ''*** End Patch'') lines) of
           (Some b, Some e) \<Rightarrow>
             if b \<ge> e then Inl MissingMarkers
             else Inr (parse_hunks (length lines - e) (drop (Suc b) lines))
         | _ \<Rightarrow> Inl MissingMarkers)"

section \<open>Locating a chunk\<close>

definition replace_unit :: "int \<Rightarrow> ustring" where
  "replace_unit n =
     (if n \<in> {0x2018, 0x2019, 0x201A, 0x201B} then [39]
      else if n \<in> {0x201C, 0x201D, 0x201E, 0x201F} then [34]
      else if n \<in> {0x2010, 0x2011, 0x2012, 0x2013, 0x2014, 0x2015} then [45]
      else if n = 0x2026 then [46, 46, 46]
      else if n = 0xA0 then [32]
      else [n])"

definition normalize_unicode :: "ustring \<Rightarrow> ustring" where
  "normalize_unicode s = concat (map replace_unit s)"

definition matches_at :: "(ustring \<Rightarrow> ustring \<Rightarrow> bool) \<Rightarrow> ustring list \<Rightarrow> ustring list \<Rightarrow> nat \<Rightarrow> bool" where
  "matches_at eq lines pat i \<longleftrightarrow> list_all2 eq (take (length pat) (drop i lines)) pat"

definition try_match ::
  "ustring list \<Rightarrow> ustring list \<Rightarrow> nat \<Rightarrow> (ustring \<Rightarrow> ustring \<Rightarrow> bool) \<Rightarrow> bool \<Rightarrow> nat option" where
  "try_match lines pat start eq eof =
     (if eof \<and> length pat \<le> length lines \<and> length lines - length pat \<ge> start
           \<and> matches_at eq lines pat (length lines - length pat)
      then Some (length lines - length pat)
      else find (matches_at eq lines pat)
             (if length pat \<le> length lines then [start..<Suc (length lines - length pat)] else []))"

definition line_comparators :: "(ustring \<Rightarrow> ustring \<Rightarrow> bool) list" where
  "line_comparators =
     [\<lambda>a b. a = b, \<lambda>a b. trim_end a = trim_end b, \<lambda>a b. trim a = trim b,
      \<lambda>a b. normalize_unicode (trim a) = normalize_unicode (trim b)]"

fun first_match ::
  "ustring list \<Rightarrow> ustring list \<Rightarrow> nat \<Rightarrow> bool \<Rightarrow> (ustring \<Rightarrow> ustring \<Rightarrow> bool) list \<Rightarrow> nat option" where
  "first_match lines pat start eof [] = None"
| "first_match lines pat start eof (eq # eqs) =
     (case try_match lines pat start eq eof of Some i \<Rightarrow> Some i | None \<Rightarrow> first_match lines pat start eof eqs)"

definition seek_sequence :: "ustring list \<Rightarrow> ustring list \<Rightarrow> nat \<Rightarrow> bool \<Rightarrow> nat option" where
  "seek_sequence lines pat start eof =
     (if pat = [] then None else first_match lines pat start eof line_comparators)"

section \<open>Replacements\<close>

type_synonym replacement = "nat \<times> nat \<times> ustring list"

definition drop_trailing_empty :: "ustring list \<Rightarrow> ustring list" where
  "drop_trailing_empty ls = (if ls \<noteq> [] \<and> last ls = [] then butlast ls else ls)"

definition seek_context :: "ustring list \<Rightarrow> chunk \<Rightarrow> nat \<Rightarrow> patch_error + nat" where
  "seek_context lines c idx =
     (case change_context c of
        Some ctx \<Rightarrow> if ctx = [] then Inr idx
                    else (case seek_sequence lines [ctx] idx False of
                        None \<Rightarrow> Inl (ContextNotFound ctx) | Some i \<Rightarrow> Inr (Suc i))
      | None \<Rightarrow> Inr idx)"

definition insertion_index :: "ustring list \<Rightarrow> nat" where
  "insertion_index lines = (if lines \<noteq> [] \<and> last lines = [] then length lines - 1 else length lines)"

text \<open>The region a chunk replaces: the old lines, or, if not found, the old lines without a trailing empty one.\<close>

definition locate_chunk :: "ustring list \<Rightarrow> chunk \<Rightarrow> nat \<Rightarrow> patch_error + replacement" where
  "locate_chunk lines c idx =
     (case seek_sequence lines (old_lines c) idx (is_end_of_file c) of
        Some i \<Rightarrow> Inr (i, length (old_lines c), new_lines c)
      | None \<Rightarrow>
          (if old_lines c \<noteq> [] \<and> last (old_lines c) = []
           then (case seek_sequence lines (butlast (old_lines c)) idx (is_end_of_file c) of
               Some i \<Rightarrow> Inr (i, length (butlast (old_lines c)), drop_trailing_empty (new_lines c))
             | None \<Rightarrow> Inl (LinesNotFound (old_lines c)))
           else Inl (LinesNotFound (old_lines c))))"

fun collect_replacements :: "ustring list \<Rightarrow> nat \<Rightarrow> chunk list \<Rightarrow> patch_error + replacement list" where
  "collect_replacements lines idx [] = Inr []"
| "collect_replacements lines idx (c # cs) =
     rbind (seek_context lines c idx) (\<lambda>at.
       if old_lines c = []
       then rbind (collect_replacements lines at cs) (\<lambda>rs. Inr ((insertion_index lines, 0, new_lines c) # rs))
       else rbind (locate_chunk lines c at) (\<lambda>(i, n, seg).
              rbind (collect_replacements lines (i + n) cs) (\<lambda>rs. Inr ((i, n, seg) # rs))))"

definition compute_replacements :: "ustring list \<Rightarrow> chunk list \<Rightarrow> patch_error + replacement list" where
  "compute_replacements lines cs =
     rbind (collect_replacements lines 0 cs) (\<lambda>rs. Inr (sort_by (cmp_key (\<lambda>r. int (fst r))) rs))"

definition apply_one :: "replacement \<Rightarrow> ustring list \<Rightarrow> ustring list" where
  "apply_one r lines = (case r of (i, n, seg) \<Rightarrow> take i lines @ seg @ drop (i + n) lines)"

definition apply_replacements :: "ustring list \<Rightarrow> replacement list \<Rightarrow> ustring list" where
  "apply_replacements lines rs = foldr apply_one rs lines"

fun diff_lines :: "ustring list \<Rightarrow> ustring list \<Rightarrow> ustring \<times> bool" where
  "diff_lines [] [] = ([], False)"
| "diff_lines (o' # os) [] = (case diff_lines os [] of (d, ch) \<Rightarrow>
     (if o' \<noteq> [] then (lit ''-'' @ o' @ [newline] @ d, True) else (d, ch)))"
| "diff_lines [] (n # ns) = (case diff_lines [] ns of (d, ch) \<Rightarrow>
     (if n \<noteq> [] then (lit ''+'' @ n @ [newline] @ d, True) else (d, ch)))"
| "diff_lines (o' # os) (n # ns) = (case diff_lines os ns of (d, ch) \<Rightarrow>
     (if o' \<noteq> n
      then ((if o' \<noteq> [] then lit ''-'' @ o' @ [newline] else []) @ (if n \<noteq> [] then lit ''+'' @ n @ [newline] else []) @ d, True)
      else if o' \<noteq> [] then (lit '' '' @ o' @ [newline] @ d, ch) else (d, ch)))"

definition generate_unified_diff :: "ustring \<Rightarrow> ustring \<Rightarrow> ustring" where
  "generate_unified_diff old new =
     (case diff_lines (split_lines old) (split_lines new) of
        (d, ch) \<Rightarrow> if ch then lit ''@@ -1 +1 @@'' @ [newline] @ d else [])"

definition new_file_lines :: "ustring \<Rightarrow> chunk list \<Rightarrow> patch_error + ustring list" where
  "new_file_lines content cs =
     (let lines = drop_trailing_empty (split_lines content)
      in rbind (compute_replacements lines cs) (\<lambda>rs.
           let out = apply_replacements lines rs
           in Inr (if out = [] \<or> last out \<noteq> [] then out @ [[]] else out)))"

definition derive_new_contents :: "ustring \<Rightarrow> chunk list \<Rightarrow> patch_error + ustring \<times> ustring" where
  "derive_new_contents content cs =
     rbind (new_file_lines content cs) (\<lambda>ls.
       Inr (generate_unified_diff content (join_lines ls), join_lines ls))"

end
