(* ===== verification/PatchProps.thy ===== *)
theory PatchProps
  imports PatchText
begin

text \<open>
  What the patch code guarantees: parsing inverts rendering, the replacements of an update are
  the located regions in file order, and what happens at the end of a file.
\<close>

section \<open>Parsing inverts rendering\<close>

datatype line_op = Keep ustring | Remove ustring | Insert ustring

fun render_op :: "line_op \<Rightarrow> ustring" where
  "render_op (Keep l) = lit '' '' @ l"
| "render_op (Remove l) = lit ''-'' @ l"
| "render_op (Insert l) = lit ''+'' @ l"

fun old_side :: "line_op list \<Rightarrow> ustring list" where
  "old_side [] = []"
| "old_side (Keep l # xs) = l # old_side xs"
| "old_side (Remove l # xs) = l # old_side xs"
| "old_side (Insert l # xs) = old_side xs"

fun new_side :: "line_op list \<Rightarrow> ustring list" where
  "new_side [] = []"
| "new_side (Keep l # xs) = l # new_side xs"
| "new_side (Remove l # xs) = new_side xs"
| "new_side (Insert l # xs) = l # new_side xs"

definition render_chunk :: "ustring option \<times> line_op list \<Rightarrow> ustring list" where
  "render_chunk c = (case c of (ctx, xs) \<Rightarrow>
     (lit ''@@ '' @ (case ctx of None \<Rightarrow> [] | Some t \<Rightarrow> t)) # map render_op xs)"

definition chunk_of :: "ustring option \<times> line_op list \<Rightarrow> chunk" where
  "chunk_of c = (case c of (ctx, xs) \<Rightarrow>
     \<lparr>old_lines = old_side xs, new_lines = new_side xs, change_context = ctx, is_end_of_file = False\<rparr>)"

definition context_ok :: "ustring option \<times> line_op list \<Rightarrow> bool" where
  "context_ok c \<longleftrightarrow> (case fst c of None \<Rightarrow> True | Some t \<Rightarrow> t \<noteq> [] \<and> \<not> unit_space (hd t) \<and> \<not> unit_space (last t))"

definition chunk_end :: "ustring list \<Rightarrow> bool" where
  "chunk_end ls \<longleftrightarrow> (case ls of [] \<Rightarrow> True | l # _ \<Rightarrow> starts_with l (lit ''***''))"

lemma lit_codes [simp]:
  "lit '' '' = [32]" "lit ''-'' = [45]" "lit ''+'' = [43]" "lit ''@@'' = [64, 64]" "lit ''***'' = [42, 42, 42]"
  "lit ''@@ '' = [64, 64, 32]"
  by (simp_all add: lit_def)

lemma starts_with_Cons [simp]: "starts_with (c # s) (d # p) \<longleftrightarrow> c = d \<and> starts_with s p" "starts_with s []"
  "starts_with [] (d # p) \<longleftrightarrow> False"
  by (auto simp: starts_with_def)

lemma end_of_file_line [simp]: "starts_with (lit ''*** End of File'') [42, 42, 42]"
  by (simp add: lit_def starts_with_def)

lemma change_lines_stop:
  "ls = [] \<or> starts_with (hd ls) (lit ''@@'') \<or> starts_with (hd ls) (lit ''***'') \<Longrightarrow> change_lines ls = ([], [], False, ls)"
  by (cases ls) auto

lemma change_lines_render:
  assumes "rest = [] \<or> starts_with (hd rest) (lit ''@@'') \<or> starts_with (hd rest) (lit ''***'')"
  shows "change_lines (map render_op xs @ rest) = (old_side xs, new_side xs, False, rest)"
proof (induction xs)
  case Nil
  then show ?case using change_lines_stop [OF assms] by simp
next
  case (Cons x xs)
  have "render_op x \<noteq> lit ''*** End of File''" by (cases x) (simp_all add: lit_def)
  with Cons show ?case by (cases x) simp_all
qed

lemma blank_is_space [simp]: "unit_space 32"
  by (simp add: unit_space_def)

lemma trim_id: "t \<noteq> [] \<Longrightarrow> \<not> unit_space (hd t) \<Longrightarrow> \<not> unit_space (last t) \<Longrightarrow> trim (32 # t) = t"
  by (simp add: trim_def trim_start_def trim_end_def dropWhile_eq_self_iff [THEN iffD2] hd_rev)

lemma trim_context:
  assumes "context_ok (ctx, xs)"
  shows "(let c = trim (32 # (case ctx of None \<Rightarrow> [] | Some t \<Rightarrow> t)) in if c = [] then None else Some c) = ctx"
proof (cases ctx)
  case None
  then show ?thesis by (simp add: trim_def trim_start_def trim_end_def)
next
  case (Some t)
  then show ?thesis using assms by (simp add: context_ok_def trim_id)
qed

lemma chunks_start:
  "rest = concat (map render_chunk cs) @ tl' \<Longrightarrow> chunk_end tl' \<Longrightarrow>
     rest = [] \<or> starts_with (hd rest) (lit ''@@'') \<or> starts_with (hd rest) (lit ''***'')"
  by (cases cs; cases tl') (auto simp: render_chunk_def chunk_end_def split: prod.split_asm)

lemma render_chunk_pair:
  "render_chunk (ctx, xs) = (64 # 64 # 32 # (case ctx of None \<Rightarrow> [] | Some t \<Rightarrow> t)) # map render_op xs"
  by (simp add: render_chunk_def)

lemma chunk_of_pair:
  "chunk_of (ctx, xs) = \<lparr>old_lines = old_side xs, new_lines = new_side xs, change_context = ctx, is_end_of_file = False\<rparr>"
  by (simp add: chunk_of_def)

lemma parse_rendered_chunks:
  assumes "list_all context_ok cs" "chunk_end rest"
  shows "parse_update_chunks (concat (map render_chunk cs) @ rest) = (map chunk_of cs, rest)"
  using assms(1)
proof (induction cs)
  case Nil
  then show ?case using assms(2) by (cases rest) (simp_all add: chunk_end_def)
next
  case (Cons c cs)
  obtain ctx xs where c: "c = (ctx, xs)" by (cases c)
  have start: "concat (map render_chunk cs) @ rest = [] \<or> starts_with (hd (concat (map render_chunk cs) @ rest)) (lit ''@@'')
      \<or> starts_with (hd (concat (map render_chunk cs) @ rest)) (lit ''***'')"
    by (rule chunks_start [OF refl assms(2)])
  have cl: "change_lines (map render_op xs @ concat (map render_chunk cs) @ rest)
      = (old_side xs, new_side xs, False, concat (map render_chunk cs) @ rest)"
    by (rule change_lines_render [OF start])
  have "context_ok (ctx, xs)" using Cons.prems c by simp
  from trim_context [OF this] Cons cl show ?case
    by (simp add: c render_chunk_pair chunk_of_pair)
qed

section \<open>Replacements in file order\<close>

text \<open>The file with regions replaced from left to right: the specification of an update.\<close>

fun splice_regions :: "nat \<Rightarrow> ustring list \<Rightarrow> replacement list \<Rightarrow> ustring list" where
  "splice_regions pos rest [] = rest"
| "splice_regions pos rest ((i, n, seg) # rs) = take (i - pos) rest @ seg @ splice_regions (i + n) (drop (i + n - pos) rest) rs"

fun in_order :: "nat \<Rightarrow> nat \<Rightarrow> replacement list \<Rightarrow> bool" where
  "in_order pos len [] \<longleftrightarrow> pos \<le> len"
| "in_order pos len ((i, n, seg) # rs) \<longleftrightarrow> pos \<le> i \<and> 0 < n \<and> i + n \<le> len \<and> in_order (i + n) len rs"

lemma in_order_bound: "in_order pos len rs \<Longrightarrow> pos \<le> len"
  by (cases rs) auto

lemma apply_in_order:
  "in_order pos (length lines) rs \<Longrightarrow>
     apply_replacements lines rs = take pos lines @ splice_regions pos (drop pos lines) rs"
proof (induction rs arbitrary: pos)
  case Nil
  then show ?case by (simp add: apply_replacements_def)
next
  case (Cons r rs)
  obtain i n seg where r: "r = (i, n, seg)" by (cases r)
  from Cons.prems r have b: "pos \<le> i" "i + n \<le> length lines" "in_order (i + n) (length lines) rs" by auto
  have "apply_replacements lines (r # rs) = apply_one r (apply_replacements lines rs)"
    by (simp add: apply_replacements_def)
  also have "\<dots> = take i lines @ seg @ splice_regions (i + n) (drop (i + n) lines) rs"
    using Cons.IH [OF b(3)] b by (simp add: apply_one_def r)
  also have "take i lines = take pos lines @ take (i - pos) (drop pos lines)"
    using b(1) by (metis take_add le_add_diff_inverse)
  finally show ?case using b by (simp add: r)
qed

lemma insert_by_after:
  "\<forall>y \<in> set as. 0 < cmp x y \<Longrightarrow> insert_by cmp x (as @ bs) = as @ insert_by cmp x bs"
  by (induction as) auto

text \<open>A stable sort moves one block of equal, greatest keys behind a sorted rest.\<close>

lemma sort_by_two_blocks:
  assumes "sorted_wrt (\<lambda>a b. cmp a b \<le> 0) (filter p xs)"
    and "\<And>x y. x \<in> set xs \<Longrightarrow> y \<in> set xs \<Longrightarrow> p x \<Longrightarrow> \<not> p y \<Longrightarrow> cmp x y \<le> 0 \<and> 0 < cmp y x"
    and "\<And>x y. x \<in> set xs \<Longrightarrow> y \<in> set xs \<Longrightarrow> \<not> p x \<Longrightarrow> \<not> p y \<Longrightarrow> cmp x y \<le> 0"
  shows "sort_by cmp xs = filter p xs @ filter (\<lambda>x. \<not> p x) xs"
  using assms
proof (induction xs)
  case (Cons x xs)
  have IH: "sort_by cmp xs = filter p xs @ filter (\<lambda>x. \<not> p x) xs"
    using Cons.prems by (intro Cons.IH) (auto split: if_split_asm)
  show ?case
  proof (cases "p x")
    case True
    then have "cmp x y \<le> 0" if "y \<in> set (filter p xs @ filter (\<lambda>x. \<not> p x) xs)" for y
      using that Cons.prems(1) Cons.prems(2) [of x y] by auto
    then have "insert_by cmp x (filter p xs @ filter (\<lambda>x. \<not> p x) xs) = x # filter p xs @ filter (\<lambda>x. \<not> p x) xs"
      by (rule insert_by_least)
    with True IH show ?thesis by simp
  next
    case False
    then have "insert_by cmp x (filter p xs @ filter (\<lambda>x. \<not> p x) xs) = filter p xs @ insert_by cmp x (filter (\<lambda>x. \<not> p x) xs)"
      using Cons.prems(2) [of _ x] by (intro insert_by_after) auto
    also have "insert_by cmp x (filter (\<lambda>x. \<not> p x) xs) = x # filter (\<lambda>x. \<not> p x) xs"
      using False Cons.prems(3) [of x] by (intro insert_by_least) auto
    finally show ?thesis using False IH by simp
  qed
qed simp

section \<open>Locating\<close>

lemma matches_at_bound: "matches_at eq lines pat i \<Longrightarrow> pat \<noteq> [] \<Longrightarrow> i + length pat \<le> length lines"
  by (cases pat) (auto simp: matches_at_def min_def dest!: list_all2_lengthD split: if_split_asm)

lemma try_match_sound:
  assumes "try_match lines pat start eq eof = Some i"
  shows "start \<le> i \<and> matches_at eq lines pat i"
proof (cases "eof \<and> length pat \<le> length lines \<and> length lines - length pat \<ge> start
           \<and> matches_at eq lines pat (length lines - length pat)")
  case False
  then have "find (matches_at eq lines pat)
      (if length pat \<le> length lines then [start..<Suc (length lines - length pat)] else []) = Some i"
    using assms unfolding try_match_def by (simp only: if_False)
  then have "matches_at eq lines pat i \<and> i \<in> set (if length pat \<le> length lines then [start..<Suc (length lines - length pat)] else [])"
    by (metis (lifting) find_Some_iff nth_mem)
  then show ?thesis by (auto split: if_split_asm)
qed (use assms in \<open>simp add: try_match_def\<close>)

lemma first_match_sound:
  "first_match lines pat start eof eqs = Some i \<Longrightarrow> start \<le> i \<and> (\<exists>eq \<in> set eqs. matches_at eq lines pat i)"
  by (induction eqs) (auto dest: try_match_sound split: option.split_asm)

lemma seek_sound:
  assumes "seek_sequence lines pat start eof = Some i"
  shows "pat \<noteq> []" "start \<le> i" "i + length pat \<le> length lines" "\<exists>eq \<in> set line_comparators. matches_at eq lines pat i"
  using assms first_match_sound [of lines pat start eof line_comparators i] matches_at_bound
  by (auto simp: seek_sequence_def split: if_split_asm)

lemma seek_context_mono:
  "seek_context lines c idx = Inr at \<Longrightarrow> idx \<le> length lines \<Longrightarrow> idx \<le> at \<and> at \<le> length lines"
  by (auto simp: seek_context_def split: option.split_asm if_split_asm dest: seek_sound)

lemma locate_sound:
  assumes "locate_chunk lines c idx = Inr (i, n, seg)"
  shows "idx \<le> i" "0 < n" "i + n \<le> length lines"
    "\<exists>eq \<in> set line_comparators. matches_at eq lines (take n (old_lines c)) i"
    "n = length (old_lines c) \<and> seg = new_lines c
     \<or> Suc n = length (old_lines c) \<and> last (old_lines c) = [] \<and> seg = drop_trailing_empty (new_lines c)"
proof -
  consider (full) "seek_sequence lines (old_lines c) idx (is_end_of_file c) = Some i" "n = length (old_lines c)" "seg = new_lines c"
    | (short) "seek_sequence lines (butlast (old_lines c)) idx (is_end_of_file c) = Some i" "n = length (butlast (old_lines c))"
        "seg = drop_trailing_empty (new_lines c)" "old_lines c \<noteq> []" "last (old_lines c) = []"
    using assms by (auto simp: locate_chunk_def split: option.split_asm if_split_asm)
  then have "idx \<le> i \<and> 0 < n \<and> i + n \<le> length lines
    \<and> (\<exists>eq \<in> set line_comparators. matches_at eq lines (take n (old_lines c)) i)
    \<and> (n = length (old_lines c) \<and> seg = new_lines c
       \<or> Suc n = length (old_lines c) \<and> last (old_lines c) = [] \<and> seg = drop_trailing_empty (new_lines c))"
  proof cases
    case full
    with seek_sound [OF full(1)] show ?thesis by simp
  next
    case short
    from seek_sound [OF short(1)] short show ?thesis by (simp add: butlast_conv_take)
  qed
  then show "idx \<le> i" "0 < n" "i + n \<le> length lines"
    "\<exists>eq \<in> set line_comparators. matches_at eq lines (take n (old_lines c)) i"
    "n = length (old_lines c) \<and> seg = new_lines c
     \<or> Suc n = length (old_lines c) \<and> last (old_lines c) = [] \<and> seg = drop_trailing_empty (new_lines c)" by blast+
qed

definition located :: "nat \<Rightarrow> replacement \<Rightarrow> bool" where
  "located len r \<longleftrightarrow> fst r < len"

lemma located_pair [simp]: "located len (i, x) \<longleftrightarrow> i < len"
  by (simp add: located_def)

text \<open>
  The located replacements come out in file order and without overlap; the others are the pure
  additions, at the insertion index.
\<close>

lemma collect_in_order:
  assumes "collect_replacements lines idx cs = Inr rs" "idx \<le> length lines"
    "list_all (\<lambda>c. old_lines c \<noteq> []) cs \<or> insertion_index lines = length lines"
  shows "in_order idx (length lines) (filter (located (length lines)) rs)
    \<and> (\<forall>r \<in> set rs. located (length lines) r \<or> fst r = length lines \<and> fst (snd r) = 0)"
  using assms
proof (induction cs arbitrary: idx rs)
  case (Cons c cs)
  then obtain at where at: "seek_context lines c idx = Inr at" by (auto simp: rbind_Inr_iff)
  from seek_context_mono [OF at Cons.prems(2)] have mono: "idx \<le> at" "at \<le> length lines" by auto
  have place: "list_all (\<lambda>c. old_lines c \<noteq> []) cs \<or> insertion_index lines = length lines"
    "old_lines c = [] \<Longrightarrow> insertion_index lines = length lines"
    using Cons.prems(3) by auto
  show ?case
  proof (cases "old_lines c = []")
    case True
    then obtain rs' where rs': "collect_replacements lines at cs = Inr rs'" "rs = (insertion_index lines, 0, new_lines c) # rs'"
      using Cons.prems(1) at by (auto simp: rbind_Inr_iff)
    have "in_order at (length lines) (filter (located (length lines)) rs')"
      "\<forall>r \<in> set rs'. located (length lines) r \<or> fst r = length lines \<and> fst (snd r) = 0"
      using Cons.IH [OF rs'(1) mono(2) place(1)] by blast+
    moreover from this(1) have "in_order idx (length lines) (filter (located (length lines)) rs')"
      using mono(1) by (cases "filter (located (length lines)) rs'") auto
    ultimately show ?thesis by (simp add: rs'(2) place(2) [OF True])
  next
    case False
    then obtain i n seg rs' where loc: "locate_chunk lines c at = Inr (i, n, seg)"
      and rs': "collect_replacements lines (i + n) cs = Inr rs'" "rs = (i, n, seg) # rs'"
      using Cons.prems(1) at by (auto simp: rbind_Inr_iff split: prod.split_asm)
    note l = locate_sound [OF loc]
    have "in_order (i + n) (length lines) (filter (located (length lines)) rs')"
      "\<forall>r \<in> set rs'. located (length lines) r \<or> fst r = length lines \<and> fst (snd r) = 0"
      using Cons.IH [OF rs'(1) l(3) place(1)] by blast+
    then show ?thesis using l mono by (auto simp: rs'(2))
  qed
qed auto

lemma in_order_lower: "in_order pos len rs \<Longrightarrow> r \<in> set rs \<Longrightarrow> pos \<le> fst r"
  by (induction pos len rs rule: in_order.induct) force+

lemma in_order_sorted: "in_order pos len rs \<Longrightarrow> sorted_wrt (\<lambda>a b. cmp_key (\<lambda>r. int (fst r)) a b \<le> 0) rs"
proof (induction pos len rs rule: in_order.induct)
  case (2 pos len i n seg rs)
  then show ?case using in_order_lower [of "i + n" len rs] by (force simp: cmp_key_def)
qed simp

lemma apply_additions:
  "list_all (\<lambda>r. fst r = length lines \<and> fst (snd r) = 0) rs \<Longrightarrow>
     apply_replacements lines rs = lines @ concat (map (\<lambda>r. snd (snd r)) rs)"
  by (induction rs) (auto simp: apply_replacements_def apply_one_def)

lemma apply_then_additions:
  assumes "in_order pos (length lines) rs" "list_all (\<lambda>r. fst r = length lines \<and> fst (snd r) = 0) as"
  shows "apply_replacements lines (rs @ as) = take pos lines @ splice_regions pos (drop pos lines) rs @ concat (map (\<lambda>r. snd (snd r)) as)"
  using assms(1)
proof (induction rs arbitrary: pos)
  case Nil
  then show ?case using apply_additions [OF assms(2)] by simp
next
  case (Cons r rs)
  obtain i n seg where r: "r = (i, n, seg)" by (cases r)
  from Cons.prems r have b: "pos \<le> i" "i + n \<le> length lines" "in_order (i + n) (length lines) rs" by auto
  have "apply_replacements lines ((r # rs) @ as) = apply_one r (apply_replacements lines (rs @ as))"
    by (simp add: apply_replacements_def)
  also have "\<dots> = take i lines @ seg @ splice_regions (i + n) (drop (i + n) lines) rs @ concat (map (\<lambda>r. snd (snd r)) as)"
    using Cons.IH [OF b(3)] b by (simp add: apply_one_def r)
  also have "take i lines = take pos lines @ take (i - pos) (drop pos lines)"
    using b(1) by (metis take_add le_add_diff_inverse)
  finally show ?case using b by (simp add: r)
qed

end
