(* ===== verification/PatchApply.thy ===== *)
theory PatchApply
  imports PatchProps
begin

text \<open>
  Writing a parsed patch to a file system (\<open>applyHunksToFiles\<close>, \<open>applyPatch\<close>). A file system maps
  a path to the text of a file; directories and failures of the device are left out. An error
  in the middle leaves the changes made so far, so the result pairs the file system with the
  error or the affected paths.
\<close>

type_synonym file_system = "ustring \<Rightarrow> ustring option"

record affected_paths =
  added :: "ustring list"
  modified :: "ustring list"
  deleted :: "ustring list"

definition write_file :: "ustring \<Rightarrow> ustring \<Rightarrow> file_system \<Rightarrow> file_system" where
  "write_file p c fs = fs(p := Some c)"

definition unlink_file :: "ustring \<Rightarrow> file_system \<Rightarrow> file_system" where
  "unlink_file p fs = fs(p := None)"

definition apply_hunk ::
  "hunk \<Rightarrow> file_system \<Rightarrow> affected_paths \<Rightarrow> file_system \<times> (patch_error + affected_paths)" where
  "apply_hunk h fs a =
     (case h of
        AddFile p c \<Rightarrow> if fs p \<noteq> None then (fs, Inl (TargetExists p))
                       else (write_file p c fs, Inr (a\<lparr>added := added a @ [p]\<rparr>))
      | DeleteFile p \<Rightarrow> if fs p = None then (fs, Inl (FileNotFound p))
                        else (unlink_file p fs, Inr (a\<lparr>deleted := deleted a @ [p]\<rparr>))
      | UpdateFile p mv cs \<Rightarrow>
          (case fs p of None \<Rightarrow> (fs, Inl (FileNotFound p))
           | Some content \<Rightarrow>
             (case derive_new_contents content cs of
                Inl e \<Rightarrow> (fs, Inl e)
              | Inr (_, out) \<Rightarrow>
                  (case mv of
                     Some m \<Rightarrow> if m \<noteq> [] then (unlink_file p (write_file m out fs), Inr (a\<lparr>modified := modified a @ [m]\<rparr>))
                               else (write_file p out fs, Inr (a\<lparr>modified := modified a @ [p]\<rparr>))
                   | None \<Rightarrow> (write_file p out fs, Inr (a\<lparr>modified := modified a @ [p]\<rparr>))))))"

fun run_hunks ::
  "hunk list \<Rightarrow> file_system \<Rightarrow> affected_paths \<Rightarrow> file_system \<times> (patch_error + affected_paths)" where
  "run_hunks [] fs a = (fs, Inr a)"
| "run_hunks (h # hs) fs a =
     (case apply_hunk h fs a of (fs', Inl e) \<Rightarrow> (fs', Inl e) | (fs', Inr a') \<Rightarrow> run_hunks hs fs' a')"

fun existing_add_target :: "file_system \<Rightarrow> hunk list \<Rightarrow> ustring option" where
  "existing_add_target fs [] = None"
| "existing_add_target fs (AddFile p c # hs) = (if fs p \<noteq> None then Some p else existing_add_target fs hs)"
| "existing_add_target fs (h # hs) = existing_add_target fs hs"

definition apply_hunks :: "hunk list \<Rightarrow> file_system \<Rightarrow> file_system \<times> (patch_error + affected_paths)" where
  "apply_hunks hs fs =
     (if hs = [] then (fs, Inl NothingModified)
      else case existing_add_target fs hs of
        Some p \<Rightarrow> (fs, Inl (TargetExists p))
      | None \<Rightarrow> run_hunks hs fs \<lparr>added = [], modified = [], deleted = []\<rparr>)"

definition apply_patch :: "ustring \<Rightarrow> file_system \<Rightarrow> file_system \<times> (patch_error + affected_paths)" where
  "apply_patch text fs = (case parse_patch text of Inl e \<Rightarrow> (fs, Inl e) | Inr hs \<Rightarrow> apply_hunks hs fs)"

section \<open>Lemmas\<close>

fun hunk_paths :: "hunk \<Rightarrow> ustring set" where
  "hunk_paths (AddFile p c) = {p}"
| "hunk_paths (DeleteFile p) = {p}"
| "hunk_paths (UpdateFile p mv cs) = insert p (set_option mv)"

lemma apply_hunk_frame: "q \<notin> hunk_paths h \<Longrightarrow> fst (apply_hunk h fs a) q = fs q"
  by (auto simp: apply_hunk_def write_file_def unlink_file_def split: hunk.split option.split sum.split prod.split)

lemma run_hunks_frame: "(\<forall>h \<in> set hs. q \<notin> hunk_paths h) \<Longrightarrow> fst (run_hunks hs fs a) q = fs q"
proof (induction hs arbitrary: fs a)
  case (Cons h hs)
  obtain fs' r where h: "apply_hunk h fs a = (fs', r)" by fastforce
  have "fs' q = fs q" using apply_hunk_frame [of q h fs a] Cons.prems h by simp
  with Cons h show ?case by (cases r) auto
qed simp

lemma no_existing_target: "existing_add_target fs hs = None \<Longrightarrow> AddFile p c \<in> set hs \<Longrightarrow> fs p = None"
  by (induction fs hs rule: existing_add_target.induct) (auto split: if_split_asm)

lemma change_lines_no_eof: "change_lines ls = (o', n, e, r) \<Longrightarrow> \<not> e"
proof (induction ls arbitrary: o' n e r)
  case (Cons l ls)
  then show ?case by (cases "l = lit ''*** End of File''") (auto simp: Let_def split: if_split_asm prod.split_asm)
qed simp

lemma chunks_no_eof: "parse_update_chunks ls = (cs, r) \<Longrightarrow> c \<in> set cs \<Longrightarrow> \<not> is_end_of_file c"
proof (induction ls arbitrary: cs r rule: parse_update_chunks.induct)
  case (2 l ls)
  obtain o' n e q where cl: "change_lines ls = (o', n, e, q)" by (metis prod_cases4)
  obtain ds s where pq: "parse_update_chunks q = (ds, s)" by fastforce
  show ?case
  proof (cases "starts_with l (lit ''***'')")
    case True
    then show ?thesis using "2.prems" by simp
  next
    case no: False
    show ?thesis
    proof (cases "starts_with l (lit ''@@'')")
      case True
      have "c = \<lparr>old_lines = o', new_lines = n,
             change_context = (let c = trim (drop 2 l) in if c = [] then None else Some c), is_end_of_file = e\<rparr> \<or> c \<in> set ds"
        using "2.prems" no True cl pq by auto
      then show ?thesis using change_lines_no_eof [OF cl] "2.IH"(1) [OF no True cl [symmetric] refl refl pq] by auto
    next
      case False
      then show ?thesis using "2.IH"(2) [OF no False] "2.prems" no by simp
    qed
  qed
qed simp

lemma next_hunk_no_eof: "next_hunk ls = Some (UpdateFile p mv cs, r) \<Longrightarrow> c \<in> set cs \<Longrightarrow> \<not> is_end_of_file c"
  by (auto simp: next_hunk_def dest: chunks_no_eof split: list.split_asm option.split_asm if_split_asm prod.split_asm)

lemma parse_hunks_no_eof: "UpdateFile p mv cs \<in> set (parse_hunks keep ls) \<Longrightarrow> c \<in> set cs \<Longrightarrow> \<not> is_end_of_file c"
proof (induction keep ls rule: parse_hunks.induct)
  case (1 keep ls)
  show ?case
  proof (cases "length ls \<le> keep")
    case True
    then show ?thesis using "1.prems" by (simp add: parse_hunks.simps [of keep ls])
  next
    case False
    show ?thesis
    proof (cases "next_hunk ls")
      case None
      then show ?thesis using "1.IH"(1) [OF False None] "1.prems" False by (simp add: parse_hunks.simps [of keep ls])
    next
      case (Some hr)
      obtain h r where hr: "hr = (h, r)" by (cases hr)
      have "UpdateFile p mv cs = h \<or> UpdateFile p mv cs \<in> set (parse_hunks keep r)"
        using "1.prems" False Some by (simp add: parse_hunks.simps [of keep ls] hr)
      then show ?thesis
        using "1.IH"(2) [OF False Some hr [symmetric]] next_hunk_no_eof [of ls p mv cs r c] "1.prems"(2) Some hr by auto
    qed
  qed
qed

section \<open>Properties\<close>

text \<open>
  C16: parsing inverts rendering. Rendering chunks with any keep, remove and insert lines, and
  any context without surrounding white space, and parsing the result gives the chunks back
  and stops at the next directive.
\<close>

theorem chunks_round_trip:
  assumes "list_all context_ok cs" "chunk_end rest"
  shows "parse_update_chunks (concat (map render_chunk cs) @ rest) = (map chunk_of cs, rest)"
  by (rule parse_rendered_chunks [OF assms])

text \<open>
  C15: an update that succeeds refines the left-to-right specification, provided that no chunk
  is a pure addition (a chunk without old lines) or that the lines of the file do not end in a
  blank one, so that additions go to the very end. Then the located regions are in file order,
  inside the file and disjoint, the new text is the old one with exactly those regions
  replaced, and the pure additions follow at the end. Without the proviso the statement is
  false: an addition before a trailing blank line can be swallowed by the region of another
  chunk (\<open>addition_lost_at_blank_end\<close> below).
\<close>

theorem update_refines_splice:
  assumes "new_file_lines content cs = Inr ls" "lines = drop_trailing_empty (split_lines content)"
    and "list_all (\<lambda>c. old_lines c \<noteq> []) cs \<or> insertion_index lines = length lines"
  shows "\<exists>rs. collect_replacements lines 0 cs = Inr rs
    \<and> in_order 0 (length lines) (filter (located (length lines)) rs)
    \<and> ls = (let out = splice_regions 0 lines (filter (located (length lines)) rs)
                 @ concat (map (\<lambda>r. snd (snd r)) (filter (\<lambda>r. \<not> located (length lines) r) rs))
            in if out = [] \<or> last out \<noteq> [] then out @ [[]] else out)"
proof -
  let ?n = "length lines" and ?c = "cmp_key (\<lambda>r :: replacement. int (fst r))"
  obtain rs where rs: "collect_replacements lines 0 cs = Inr rs"
    and ls: "ls = (let out = apply_replacements lines (sort_by ?c rs) in if out = [] \<or> last out \<noteq> [] then out @ [[]] else out)"
    using assms(1) by (auto simp: new_file_lines_def compute_replacements_def rbind_Inr_iff assms(2) [symmetric] Let_def)
  note ord = collect_in_order [OF rs _ assms(3), simplified]
  have in_ord: "in_order 0 ?n (filter (located ?n) rs)" using ord by blast
  have rest: "\<And>r. r \<in> set rs \<Longrightarrow> \<not> located ?n r \<Longrightarrow> fst r = ?n \<and> fst (snd r) = 0" using ord by blast
  have sorted: "sort_by ?c rs = filter (located ?n) rs @ filter (\<lambda>r. \<not> located ?n r) rs"
  proof (rule sort_by_two_blocks)
    show "sorted_wrt (\<lambda>a b. ?c a b \<le> 0) (filter (located ?n) rs)" by (rule in_order_sorted [OF in_ord])
    show "?c x y \<le> 0 \<and> 0 < ?c y x" if "x \<in> set rs" "y \<in> set rs" "located ?n x" "\<not> located ?n y" for x y
      using that rest by (auto simp: cmp_key_def located_def)
    show "?c x y \<le> 0" if "x \<in> set rs" "y \<in> set rs" "\<not> located ?n x" "\<not> located ?n y" for x y
      using that rest by (auto simp: cmp_key_def)
  qed
  have "list_all (\<lambda>r. fst r = ?n \<and> fst (snd r) = 0) (filter (\<lambda>r. \<not> located ?n r) rs)"
    using rest by (auto simp: list_all_iff)
  from apply_then_additions [OF in_ord this] have "apply_replacements lines (sort_by ?c rs)
      = splice_regions 0 lines (filter (located ?n) rs) @ concat (map (\<lambda>r. snd (snd r)) (filter (\<lambda>r. \<not> located ?n r) rs))"
    by (simp add: sorted)
  then show ?thesis using rs in_ord ls by (intro exI [of _ rs]) simp
qed

text \<open>
  A chunk is only ever placed on lines that match its old lines, possibly without their last
  empty one, under one of the four comparisons, and never before the position reached so far.
\<close>

theorem chunk_lands_on_matching_lines:
  assumes "locate_chunk lines c idx = Inr (i, n, seg)"
  shows "idx \<le> i \<and> i + n \<le> length lines
    \<and> (\<exists>eq \<in> set line_comparators. list_all2 eq (take n (drop i lines)) (take n (old_lines c)))
    \<and> (n = length (old_lines c) \<and> seg = new_lines c
       \<or> Suc n = length (old_lines c) \<and> last (old_lines c) = [] \<and> seg = drop_trailing_empty (new_lines c))"
proof -
  note l = locate_sound [OF assms]
  have "length (take n (old_lines c)) = n" using l(5) by auto
  with l show ?thesis unfolding matches_at_def by simp
qed

text \<open>
  Applying a patch touches only the files it names: whatever happens, an error in the middle
  included, every other file is as before.
\<close>

theorem patch_frame:
  assumes "parse_patch text = Inr hs" "\<forall>h \<in> set hs. q \<notin> hunk_paths h"
  shows "fst (apply_patch text fs) q = fs q"
  using assms run_hunks_frame [OF assms(2)] by (simp add: apply_patch_def apply_hunks_def split: option.split)

text \<open>A patch that succeeds overwrote no file with an added one.\<close>

theorem added_files_were_absent:
  assumes "snd (apply_hunks hs fs) = Inr a" "AddFile p c \<in> set hs"
  shows "fs p = None"
  using assms no_existing_target by (auto simp: apply_hunks_def split: if_split_asm option.split_asm)

text \<open>
  The end-of-file mark is never seen. No parsed update carries it, because the loop over the
  change lines stops at every line that starts with three stars.
\<close>

theorem end_of_file_mark_is_lost:
  assumes "parse_patch text = Inr hs" "UpdateFile p mv cs \<in> set hs" "c \<in> set cs"
  shows "\<not> is_end_of_file c"
  using assms parse_hunks_no_eof by (auto simp: parse_patch_def Let_def split: option.split_asm if_split_asm)

text \<open>An update that moves a file onto itself deletes it.\<close>

theorem move_onto_itself_deletes:
  assumes "snd (apply_hunks [UpdateFile p (Some p) cs] fs) = Inr a" "p \<noteq> []"
  shows "fst (apply_hunks [UpdateFile p (Some p) cs] fs) p = None"
  using assms by (auto simp: apply_hunks_def apply_hunk_def unlink_file_def split: option.splits sum.splits prod.splits)

section \<open>Concrete patches\<close>

definition demo_chunks :: "(ustring option \<times> line_op list) list" where
  "demo_chunks = [(Some (lit ''fn a''), [Keep (lit ''x''), Remove (lit ''y''), Insert (lit ''z'')]), (None, [Insert (lit ''w'')])]"

theorem chunks_round_trip_witness:
  "parse_update_chunks (concat (map render_chunk demo_chunks) @ [lit ''*** End Patch''])
     = (map chunk_of demo_chunks, [lit ''*** End Patch''])"
proof (rule chunks_round_trip)
  show "list_all context_ok demo_chunks" by code_simp
  show "chunk_end [lit ''*** End Patch'']" by code_simp
qed

definition demo_content :: ustring where
  "demo_content = join_lines [lit ''fn a'', lit ''x'', lit ''y'', lit ''q'', []]"

definition demo_lines :: "ustring list" where
  "demo_lines = drop_trailing_empty (split_lines demo_content)"

theorem update_refines_splice_witness:
  "new_file_lines demo_content (map chunk_of demo_chunks)
     = Inr [lit ''fn a'', lit ''x'', lit ''z'', lit ''q'', lit ''w'', []]
   \<and> (\<exists>rs. collect_replacements demo_lines 0 (map chunk_of demo_chunks) = Inr rs
        \<and> in_order 0 (length demo_lines) (filter (located (length demo_lines)) rs))"
proof -
  have a: "new_file_lines demo_content (map chunk_of demo_chunks)
     = Inr [lit ''fn a'', lit ''x'', lit ''z'', lit ''q'', lit ''w'', []]" by code_simp
  have "insertion_index demo_lines = length demo_lines" by code_simp
  then have "list_all (\<lambda>c. old_lines c \<noteq> []) (map chunk_of demo_chunks) \<or> insertion_index demo_lines = length demo_lines" ..
  from update_refines_splice [OF a demo_lines_def this] a show ?thesis by blast
qed

theorem chunk_lands_on_matching_lines_witness:
  "locate_chunk [lit ''a'', lit ''b ''] \<lparr>old_lines = [lit ''b'', []], new_lines = [lit ''c'', []], change_context = None,
       is_end_of_file = False\<rparr> 0 = Inr (1, 1, [lit ''c''])
   \<and> (\<exists>eq \<in> set line_comparators. list_all2 eq [lit ''b ''] [lit ''b''])"
proof -
  have l: "locate_chunk [lit ''a'', lit ''b ''] \<lparr>old_lines = [lit ''b'', []], new_lines = [lit ''c'', []], change_context = None,
       is_end_of_file = False\<rparr> 0 = Inr (1, 1, [lit ''c''])" by code_simp
  from chunk_lands_on_matching_lines [OF l] l show ?thesis by simp
qed

definition demo_patch :: ustring where
  "demo_patch = join_lines [lit ''*** Begin Patch'', lit ''*** Update File: f'', lit ''@@'', lit ''-q'', lit ''+r'',
     lit ''*** End of File'', lit ''@@'', lit ''-x'', lit ''+X'', lit ''*** End Patch'']"

definition demo_files :: file_system where
  "demo_files = (\<lambda>p. if p = lit ''f'' then Some demo_content else if p = lit ''g'' then Some (lit ''old'') else None)"

lemma demo_patch_parses:
  "parse_patch demo_patch = Inr [UpdateFile (lit ''f'') None
     [\<lparr>old_lines = [lit ''q''], new_lines = [lit ''r''], change_context = None, is_end_of_file = False\<rparr>]]"
  by code_simp

theorem patch_frame_witness: "fst (apply_patch demo_patch demo_files) (lit ''g'') = Some (lit ''old'')"
proof -
  have "fst (apply_patch demo_patch demo_files) (lit ''g'') = demo_files (lit ''g'')"
    by (rule patch_frame [OF demo_patch_parses]) (simp add: lit_def)
  then show ?thesis by (simp add: demo_files_def lit_def)
qed

theorem added_files_were_absent_witness:
  "demo_files (lit ''h'') = None \<and> snd (apply_hunks [AddFile (lit ''h'') (lit ''new'')] demo_files) \<noteq> Inl NothingModified"
proof -
  have a: "snd (apply_hunks [AddFile (lit ''h'') (lit ''new'')] demo_files)
      = Inr \<lparr>added = [lit ''h''], modified = [], deleted = []\<rparr>" by code_simp
  from added_files_were_absent [OF a, of "lit ''h''" "lit ''new''"] a show ?thesis by simp
qed

text \<open>The second chunk of \<open>demo_patch\<close>, behind the end-of-file mark, is dropped without an error.\<close>

theorem end_of_file_mark_is_lost_witness:
  "\<not> is_end_of_file \<lparr>old_lines = [lit ''q''], new_lines = [lit ''r''], change_context = None, is_end_of_file = False\<rparr>
   \<and> (\<exists>out. fst (apply_patch demo_patch demo_files) (lit ''f'') = Some out
        \<and> split_lines out = [lit ''fn a'', lit ''x'', lit ''y'', lit ''r'', []])"
proof -
  have "map_option split_lines (fst (apply_patch demo_patch demo_files) (lit ''f''))
      = Some [lit ''fn a'', lit ''x'', lit ''y'', lit ''r'', []]" by code_simp
  with end_of_file_mark_is_lost [OF demo_patch_parses] show ?thesis by auto
qed

theorem move_onto_itself_deletes_witness:
  "fst (apply_hunks [UpdateFile (lit ''f'') (Some (lit ''f'')) (map chunk_of demo_chunks)] demo_files) (lit ''f'') = None"
proof -
  have "case snd (apply_hunks [UpdateFile (lit ''f'') (Some (lit ''f'')) (map chunk_of demo_chunks)] demo_files) of
      Inr _ \<Rightarrow> True | Inl _ \<Rightarrow> False" by code_simp
  then obtain a where "snd (apply_hunks [UpdateFile (lit ''f'') (Some (lit ''f'')) (map chunk_of demo_chunks)] demo_files) = Inr a"
    by (auto split: sum.splits)
  moreover have "lit ''f'' \<noteq> []" by (simp add: lit_def)
  ultimately show ?thesis by (rule move_onto_itself_deletes)
qed

text \<open>
  When the file ends in a blank line, a pure addition can overlap the region of another
  chunk: the added line is then swallowed by that chunk's removal and lost.
\<close>

theorem addition_lost_at_blank_end:
  "new_file_lines (join_lines [lit ''a'', [], []])
     [\<lparr>old_lines = [lit ''a'', []], new_lines = [lit ''b''], change_context = None, is_end_of_file = False\<rparr>,
      \<lparr>old_lines = [], new_lines = [lit ''added''], change_context = None, is_end_of_file = False\<rparr>]
   = Inr [lit ''b'', []]"
  by code_simp

end
