(* ===== verification/Identity.thy ===== *)
theory Identity
  imports Prelude "HOL-Library.Word" "HOL-Library.Signed_Division"
begin

text \<open>
  Identities (\<open>id/id.ts\<close>). An identity is a prefix of its kind, a format marker, a logical
  timestamp and a sequence in fixed-width Base62, and random Base62 digits. The module keeps,
  per kind and direction, the last timestamp and sequence it handed out; a call that throws
  keeps what it had written before, so the operations return the state beside the result.
  Random bytes and SHA-256 digests are arguments.
\<close>

section \<open>Kinds\<close>

datatype id_kind =
    KSession | KMessage | KPermission | KQuestion | KUser | KProject | KPart | KPty | KTool | KWorkspace
  | KMemory | KMemchunk | KAutomation | KAutomationRun | KEventJob | KTask | KPlan | KGoal | KInteraction
  | KArtifact | KAttachment | KAcceptance | KAcceptanceRound | KEvaluation | KBinding | KProgress | KNote
  | KBrief | KMilestone | KSpec | KSpecitem | KGoalSnapshot | KPlanNode | KRequirement | KCall
  | KProtocolEvent | KProtocolInbox | KSessionControl | KWorkerTurnDescriptor | KDecisionLog | KMetricSpec
  | KMetricResult | KActivity | KProviderUsage

fun prefix_of :: "id_kind \<Rightarrow> string" where
  "prefix_of KSession = ''ses''"
| "prefix_of KMessage = ''msg''"
| "prefix_of KPermission = ''per''"
| "prefix_of KQuestion = ''que''"
| "prefix_of KUser = ''usr''"
| "prefix_of KProject = ''prj''"
| "prefix_of KPart = ''prt''"
| "prefix_of KPty = ''pty''"
| "prefix_of KTool = ''tool''"
| "prefix_of KWorkspace = ''wrk''"
| "prefix_of KMemory = ''mem''"
| "prefix_of KMemchunk = ''mck''"
| "prefix_of KAutomation = ''atm''"
| "prefix_of KAutomationRun = ''atr''"
| "prefix_of KEventJob = ''evt''"
| "prefix_of KTask = ''tsk''"
| "prefix_of KPlan = ''pln''"
| "prefix_of KGoal = ''gol''"
| "prefix_of KInteraction = ''int''"
| "prefix_of KArtifact = ''art''"
| "prefix_of KAttachment = ''att''"
| "prefix_of KAcceptance = ''dlv''"
| "prefix_of KAcceptanceRound = ''dlr''"
| "prefix_of KEvaluation = ''evl''"
| "prefix_of KBinding = ''bnd''"
| "prefix_of KProgress = ''prg''"
| "prefix_of KNote = ''nte''"
| "prefix_of KBrief = ''brf''"
| "prefix_of KMilestone = ''mst''"
| "prefix_of KSpec = ''spc''"
| "prefix_of KSpecitem = ''spi''"
| "prefix_of KGoalSnapshot = ''gls''"
| "prefix_of KPlanNode = ''pln_node''"
| "prefix_of KRequirement = ''req''"
| "prefix_of KCall = ''cal''"
| "prefix_of KProtocolEvent = ''pev''"
| "prefix_of KProtocolInbox = ''pib''"
| "prefix_of KSessionControl = ''sctl''"
| "prefix_of KWorkerTurnDescriptor = ''wtd''"
| "prefix_of KDecisionLog = ''dlog''"
| "prefix_of KMetricSpec = ''mts''"
| "prefix_of KMetricResult = ''mtr''"
| "prefix_of KActivity = ''act''"
| "prefix_of KProviderUsage = ''pvu''"

datatype id_error =
    TimestampNotSafe
  | TimestampExceedsField
  | TimestampExceedsCompact
  | PrefixTooLong
  | DirectoryKeyOverflow
  | NotCanonical
  | WrongPrefix
  | InvalidSegment
  | EmptyKeyMaterial
  | NotAscendingEncoding
  | InvalidTimestamp
  | InvalidBase62

section \<open>Canonical identities\<close>

definition alnum :: "char \<Rightarrow> bool" where
  "alnum c \<longleftrightarrow> (let n = of_char c :: int in (48 \<le> n \<and> n \<le> 57) \<or> (65 \<le> n \<and> n \<le> 90) \<or> (97 \<le> n \<and> n \<le> 122))"

text \<open>The body of \<open>canonicalPattern\<close>: one alphanumeric, or a longer run that ends in one.\<close>

definition canonical_body :: "string \<Rightarrow> bool" where
  "canonical_body b \<longleftrightarrow>
     (case b of [] \<Rightarrow> False
      | c # rest \<Rightarrow>
          (if rest = [] then alnum c
           else (alnum c \<or> c = CHR ''-'') \<and> alnum (last rest)
                \<and> list_all (\<lambda>d. alnum d \<or> d \<in> set ''._-'') (butlast rest)))"

definition is_canonical :: "id_kind \<Rightarrow> string \<Rightarrow> bool" where
  "is_canonical k s \<longleftrightarrow>
     (let p = prefix_of k @ ''_'' in take (length p) s = p \<and> canonical_body (drop (length p) s))"

section \<open>Base62\<close>

definition base62_alphabet :: string where
  "base62_alphabet = ''0123456789ABCDEFGHIJKLMNOPQRSTUVWXYZabcdefghijklmnopqrstuvwxyz''"

text \<open>\<open>ALPHABET[digit] + output\<close>: indexing outside the string gives the text \<open>undefined\<close>.\<close>

definition digit_text :: "int \<Rightarrow> string" where
  "digit_text d = (if 0 \<le> d \<and> d < 62 then [base62_alphabet ! nat d] else ''undefined'')"

function base62_loop :: "int \<Rightarrow> string \<Rightarrow> string" where
  "base62_loop remaining output =
     (let out = digit_text (remaining smod 62) @ output; left = remaining sdiv 62
      in if left > 0 then base62_loop left out else out)"
  by pat_completeness auto

termination
  by (relation "measure (\<lambda>(r, _). nat r)") (auto simp: signed_divide_int_def sgn_if split: if_splits)

declare base62_loop.simps [simp del]

definition pad_start :: "nat \<Rightarrow> string \<Rightarrow> string" where
  "pad_start n s = replicate (n - length s) (CHR ''0'') @ s"

definition base62_fixed :: "int \<Rightarrow> nat \<Rightarrow> id_error + string" where
  "base62_fixed v n =
     (let out = base62_loop v [] in if length out > n then Inl DirectoryKeyOverflow else Inr (pad_start n out))"

fun index_of :: "char \<Rightarrow> string \<Rightarrow> int" where
  "index_of c [] = -1"
| "index_of c (d # ds) = (if c = d then 0 else (let i = index_of c ds in if i < 0 then -1 else i + 1))"

fun base62_value :: "int \<Rightarrow> string \<Rightarrow> id_error + int" where
  "base62_value v [] = Inr v"
| "base62_value v (c # cs) =
     (let d = index_of c base62_alphabet in if d < 0 then Inl InvalidBase62 else base62_value (v * 62 + d) cs)"

definition random_base62 :: "(nat \<Rightarrow> 8 word) \<Rightarrow> nat \<Rightarrow> string" where
  "random_base62 bytes n = map (\<lambda>i. base62_alphabet ! nat (uint (bytes i) mod 62)) [0..<n]"

section \<open>Generation\<close>

definition max_length :: nat where "max_length = 24"

definition max_field_value :: int where "max_field_value = 2 ^ 48 - 1"

definition compact_timestamp_max :: int where "compact_timestamp_max = 62 ^ 8 - 1"

definition compact_sequence_max :: int where "compact_sequence_max = 62\<^sup>2 - 1"

record id_state =
  ascending_states :: "id_kind \<Rightarrow> (int \<times> int) option"
  descending_states :: "id_kind \<Rightarrow> (int \<times> int) option"
  ascending_task :: "int \<times> int"
  descending_task :: "int \<times> int"

definition no_identities :: id_state where
  "no_identities = \<lparr>ascending_states = (\<lambda>_. None), descending_states = (\<lambda>_. None),
     ascending_task = (- 1, 0), descending_task = (- 1, 0)\<rparr>"

text \<open>
  The clock of one kind and direction: a later wall clock restarts the sequence, otherwise
  the sequence counts on, and an exhausted sequence moves the timestamp ahead of the clock.
\<close>

definition tick :: "int \<Rightarrow> int \<times> int \<Rightarrow> int \<times> int" where
  "tick wall = (\<lambda>(t, s). if wall > t then (wall, 0)
     else if s + 1 > compact_sequence_max then (t + 1, 0) else (t, s + 1))"

definition compact_text ::
  "string \<Rightarrow> bool \<Rightarrow> int \<Rightarrow> nat \<Rightarrow> int \<Rightarrow> string \<Rightarrow> id_error + string" where
  "compact_text pre descending ts width sq random =
     rbind (base62_fixed ts width) (\<lambda>a. rbind (base62_fixed sq 2) (\<lambda>b.
       Inr (pre @ ''_'' @ (if descending then ''-'' else ''g'') @ a @ b @ random)))"

definition create_compact_task_id ::
  "id_state \<Rightarrow> bool \<Rightarrow> int \<Rightarrow> (nat \<Rightarrow> 8 word) \<Rightarrow> id_state \<times> (id_error + string)" where
  "create_compact_task_id st descending wall bytes =
     (let c = tick wall (if descending then descending_task st else ascending_task st);
          st' = (if descending then st\<lparr>descending_task := c\<rparr> else st\<lparr>ascending_task := c\<rparr>)
      in (st', compact_text (prefix_of KTask) descending
                 (if descending then max_field_value - fst c else fst c) 9
                 (if descending then compact_sequence_max - snd c else snd c)
                 (random_base62 bytes 8)))"

definition clock_of :: "id_state \<Rightarrow> id_kind \<Rightarrow> bool \<Rightarrow> int \<times> int" where
  "clock_of st k descending =
     (case (if descending then descending_states st else ascending_states st) k of None \<Rightarrow> (- 1, 0) | Some c \<Rightarrow> c)"

definition create_id ::
  "id_state \<Rightarrow> id_kind \<Rightarrow> bool \<Rightarrow> js_value \<Rightarrow> (nat \<Rightarrow> 8 word) \<Rightarrow> id_state \<times> (id_error + string)" where
  "create_id st k descending now bytes =
     (if \<not> is_safe_integer now \<or> js_number now < 0 then (st, Inl TimestampNotSafe)
      else if js_number now > max_field_value then (st, Inl TimestampExceedsField)
      else if k = KTask then create_compact_task_id st descending (js_number now) bytes
      else
        let c = tick (js_number now) (clock_of st k descending);
            st' = (if descending then st\<lparr>descending_states := (descending_states st)(k := Some c)\<rparr>
                   else st\<lparr>ascending_states := (ascending_states st)(k := Some c)\<rparr>);
            fixed_length = length (prefix_of k) + 1 + 1 + 8 + 2
        in if fst c > compact_timestamp_max then (st', Inl TimestampExceedsCompact)
           else if \<not> fixed_length < max_length then (st', Inl PrefixTooLong)
           else (st', compact_text (prefix_of k) descending
                   (if descending then compact_timestamp_max - fst c else fst c) 8
                   (if descending then compact_sequence_max - snd c else snd c)
                   (random_base62 bytes (max_length - fixed_length))))"

text \<open>\<open>ascending\<close> and \<open>descending\<close>: a given identity is checked and handed back.\<close>

definition generate_id ::
  "id_state \<Rightarrow> id_kind \<Rightarrow> bool \<Rightarrow> string option \<Rightarrow> js_value \<Rightarrow> (nat \<Rightarrow> 8 word) \<Rightarrow> id_state \<times> (id_error + string)" where
  "generate_id st k descending given now bytes =
     (case given of
        None \<Rightarrow> create_id st k descending now bytes
      | Some g \<Rightarrow>
          if g = [] then create_id st k descending now bytes
          else if k = KTask \<or> k = KSession then (st, if is_canonical k g then Inr g else Inl NotCanonical)
          else (st, if take (length (prefix_of k)) g = prefix_of k then Inr g else Inl WrongPrefix))"

section \<open>Derived keys and reading an identity\<close>

definition deterministic_id :: "(string \<Rightarrow> int) \<Rightarrow> id_kind \<Rightarrow> string \<Rightarrow> id_error + string" where
  "deterministic_id sha k material =
     (let body = max_length - length (prefix_of k) - 1; encoded = body - 1
      in if body < 1 \<or> encoded < 1 then Inl PrefixTooLong
         else rbind (base62_fixed (sha (''opencorvus.identity.v1'' @ [CHR 0x00] @ prefix_of k @ [CHR 0x00] @ material)
                       mod 62 ^ encoded) encoded)
                (\<lambda>e. Inr (prefix_of k @ ''_h'' @ e)))"

text \<open>The part before and after the last underscore; \<open>separator <= 0\<close> also rejects a leading one.\<close>

definition split_id :: "string \<Rightarrow> id_error + string \<times> string" where
  "split_id s =
     (let tail = takeWhile (\<lambda>c. c \<noteq> CHR ''_'') (rev s); head = drop (Suc (length tail)) (rev s)
      in if length tail = length s \<or> head = [] then Inl InvalidSegment else Inr (rev head, rev tail))"

definition short_path :: "string \<Rightarrow> id_error + string" where
  "short_path s = rbind (split_id s) (\<lambda>(p, b).
     if b = [] then Inl InvalidSegment else Inr (p @ ''_'' @ take 25 b))"

definition scoped_directory_key :: "(string \<Rightarrow> int) \<Rightarrow> string \<Rightarrow> string \<Rightarrow> id_error + string" where
  "scoped_directory_key sha scope value =
     (if js_trim scope = [] \<or> js_trim value = [] then Inl EmptyKeyMaterial
      else base62_fixed (sha (scope @ '':'' @ value) mod 62 ^ 8) 8)"

definition directory_key :: "(string \<Rightarrow> int) \<Rightarrow> string \<Rightarrow> id_error + string" where
  "directory_key sha s = rbind (split_id s) (\<lambda>(_, b).
     if b = [] then Inl InvalidSegment else scoped_directory_key sha ''id'' s)"

definition hex_digit :: "char \<Rightarrow> int" where
  "hex_digit c = index_of c ''0123456789abcdef''"

definition timestamp_of :: "string \<Rightarrow> id_error + int" where
  "timestamp_of s = rbind (split_id s) (\<lambda>(p, b).
     if take 1 b \<noteq> ''g'' then Inl NotAscendingEncoding
     else if p = prefix_of KTask \<and> length b = 20 then base62_value 0 (take 9 (drop 1 b))
     else if int (length b) = int max_length - int (length p) - 1 then base62_value 0 (take 8 (drop 1 b))
     else let hex = take 12 (drop 1 b)
          in if length hex \<noteq> 12 \<or> list_ex (\<lambda>c. hex_digit c < 0) hex then Inl InvalidTimestamp
             else Inr (foldl (\<lambda>v c. v * 16 + hex_digit c) 0 hex))"

section \<open>Fixed-width Base62\<close>

fun fix62 :: "nat \<Rightarrow> int \<Rightarrow> string" where
  "fix62 0 v = []"
| "fix62 (Suc n) v = fix62 n (v div 62) @ [base62_alphabet ! nat (v mod 62)]"

lemma length_alphabet [simp]: "length base62_alphabet = 62"
  by (simp add: base62_alphabet_def)

lemma alphabet_0 [simp]: "base62_alphabet ! 0 = CHR ''0''"
  by (simp add: base62_alphabet_def)

lemma length_fix62 [simp]: "length (fix62 n v) = n"
  by (induction n v rule: fix62.induct) auto

lemma fix62_0: "fix62 n 0 = replicate n (CHR ''0'')"
  by (induction n) (simp_all flip: replicate_append_same)

lemma base62_loop_step:
  "0 \<le> v \<Longrightarrow> base62_loop v out =
     (if v < 62 then (base62_alphabet ! nat v) # out else base62_loop (v div 62) ((base62_alphabet ! nat (v mod 62)) # out))"
  by (subst base62_loop.simps)
     (auto simp: digit_text_def signed_divide_int_def signed_modulo_int_def sgn_if pos_imp_zdiv_pos_iff)

lemma base62_loop_fix62:
  "0 \<le> v \<Longrightarrow> v < 62 ^ n \<Longrightarrow> 0 < n \<Longrightarrow>
    length (base62_loop v out) \<le> n + length out
    \<and> replicate (n + length out - length (base62_loop v out)) (CHR ''0'') @ base62_loop v out = fix62 n v @ out"
proof (induction n arbitrary: v out)
  case (Suc n)
  show ?case
  proof (cases "v < 62")
    case True
    then have "v div 62 = 0" "v mod 62 = v" using Suc.prems by auto
    with True Suc.prems show ?thesis by (simp add: base62_loop_step fix62_0)
  next
    case False
    with Suc.prems have "0 \<le> v div 62" "v div 62 < 62 ^ n" "0 < n" by (auto intro!: Nat.gr0I)
    from Suc.IH [OF this, of "(base62_alphabet ! nat (v mod 62)) # out"] False Suc.prems
    show ?thesis by (simp add: base62_loop_step [of v out])
  qed
qed simp

lemma base62_fixed_fix62: "0 \<le> v \<Longrightarrow> v < 62 ^ n \<Longrightarrow> 0 < n \<Longrightarrow> base62_fixed v n = Inr (fix62 n v)"
  using base62_loop_fix62 [of v n "[]"] by (auto simp: base62_fixed_def pad_start_def Let_def)

lemma alphabet_mono:
  assumes "i < j" "j < 62"
  shows "(of_char (base62_alphabet ! i) :: int) < of_char (base62_alphabet ! j)"
proof -
  have "map (of_char :: char \<Rightarrow> int) base62_alphabet = [48..57] @ [65..90] @ [97..122]" by code_simp
  then have "sorted_wrt (<) (map (of_char :: char \<Rightarrow> int) base62_alphabet)"
    by (auto simp: sorted_wrt_append sorted_wrt_upto simp del: upto_rec_numeral)
  from sorted_wrt_nth_less [OF this, of i j] assms show ?thesis by simp
qed

lemma text_cmp_prefix [simp]: "text_cmp (p @ a) (p @ b) = text_cmp a b"
  by (induction p) auto

lemma text_cmp_append_equal_length:
  "length a = length b \<Longrightarrow> text_cmp (a @ x) (b @ y) = (if a = b then text_cmp x y else text_cmp a b)"
proof (induction a b rule: list_induct2)
  case (Cons a as b bs)
  have "(of_char a :: int) = of_char b \<longleftrightarrow> a = b" by (rule of_char_eq_iff)
  with Cons show ?case by auto
qed simp

lemma fix62_mono:
  "0 \<le> v \<Longrightarrow> v < w \<Longrightarrow> w < 62 ^ n \<Longrightarrow> text_cmp (fix62 n v) (fix62 n w) < 0"
proof (induction n arbitrary: v w)
  case (Suc n)
  show ?case
  proof (cases "v div 62 = w div 62")
    case True
    with Suc.prems have "v mod 62 < w mod 62" by (metis mult_div_mod_eq add_less_cancel_left)
    then have "(of_char (base62_alphabet ! nat (v mod 62)) :: int) < of_char (base62_alphabet ! nat (w mod 62))"
      by (intro alphabet_mono) (auto simp: nat_less_iff)
    then show ?thesis by (simp add: True)
  next
    case False
    with Suc.prems have "v div 62 < w div 62" by (metis linorder_le_less_linear zdiv_mono1 order_le_less zero_less_numeral)
    moreover have "w div 62 < 62 ^ n" using Suc.prems by simp
    ultimately have IH: "text_cmp (fix62 n (v div 62)) (fix62 n (w div 62)) < 0" using Suc by simp
    then have "fix62 n (v div 62) \<noteq> fix62 n (w div 62)" by force
    with IH show ?thesis by (simp add: text_cmp_append_equal_length)
  qed
qed simp

lemma index_of_alphabet: "i < 62 \<Longrightarrow> index_of (base62_alphabet ! i) base62_alphabet = int i"
proof -
  have distinct: "index_of (xs ! i) xs = int i" if "distinct xs" "i < length xs" for xs :: string and i
    using that
  proof (induction xs arbitrary: i)
    case (Cons x xs)
    then show ?case by (cases i) auto
  qed simp
  have "distinct base62_alphabet" by (simp add: base62_alphabet_def)
  then show "i < 62 \<Longrightarrow> ?thesis" by (simp add: distinct)
qed

lemma base62_value_append:
  "base62_value v (a @ b) = rbind (base62_value v a) (\<lambda>w. base62_value w b)"
  by (induction v a rule: base62_value.induct) (auto simp: Let_def)

lemma base62_value_fix62:
  "0 \<le> v \<Longrightarrow> v < 62 ^ n \<Longrightarrow> base62_value a (fix62 n v) = Inr (a * 62 ^ n + v)"
proof (induction n arbitrary: v)
  case (Suc n)
  then have "base62_value a (fix62 n (v div 62)) = Inr (a * 62 ^ n + v div 62)" by simp
  moreover have "index_of (base62_alphabet ! nat (v mod 62)) base62_alphabet = v mod 62"
    by (simp add: index_of_alphabet nat_less_iff)
  moreover have "(a * 62 ^ n + v div 62) * 62 + v mod 62 = a * 62 ^ Suc n + v"
    by (simp add: algebra_simps)
  ultimately show ?case by (simp add: base62_value_append Let_def)
qed simp

section \<open>The clocks\<close>

type_synonym id_op = "id_kind \<times> bool \<times> js_value \<times> (nat \<Rightarrow> 8 word)"

fun id_step :: "id_state \<Rightarrow> id_op \<Rightarrow> id_state" where
  "id_step st (k, descending, now, bytes) = fst (create_id st k descending now bytes)"

definition id_clock :: "id_state \<Rightarrow> id_kind \<Rightarrow> bool \<Rightarrow> int \<times> int" where
  "id_clock st k d =
     (if k = KTask then (if d then descending_task st else ascending_task st) else clock_of st k d)"

definition clock_ok :: "int \<times> int \<Rightarrow> bool" where
  "clock_ok c \<longleftrightarrow> - 1 \<le> fst c \<and> 0 \<le> snd c \<and> snd c \<le> compact_sequence_max"

definition clock_before :: "int \<times> int \<Rightarrow> int \<times> int \<Rightarrow> bool" where
  "clock_before a b \<longleftrightarrow> fst a < fst b \<or> fst a = fst b \<and> snd a < snd b"

definition clocks_ok :: "id_state \<Rightarrow> bool" where
  "clocks_ok st \<longleftrightarrow> (\<forall>k d. clock_ok (id_clock st k d))"

lemma compact_sequence_max_val [simp]: "compact_sequence_max = 3843"
  by (simp add: compact_sequence_max_def)

lemma tick_advances: "clock_ok c \<Longrightarrow> clock_before c (tick w c)"
  by (cases c) (auto simp: tick_def clock_before_def clock_ok_def)

lemma tick_ok: "0 \<le> w \<Longrightarrow> clock_ok c \<Longrightarrow> clock_ok (tick w c) \<and> w \<le> fst (tick w c) \<and> 0 \<le> fst (tick w c)"
  by (cases c) (auto simp: tick_def clock_ok_def)

text \<open>A creation moves at most its own clock, by one tick of a valid reading.\<close>

lemma create_id_clocks:
  "id_clock (fst (create_id st k d now bytes)) k' d' =
     (if k' = k \<and> d' = d \<and> is_safe_integer now \<and> 0 \<le> js_number now \<and> js_number now \<le> max_field_value
      then tick (js_number now) (id_clock st k d) else id_clock st k' d')"
  by (auto simp: create_id_def create_compact_task_id_def id_clock_def clock_of_def Let_def)

lemma id_step_clocks_ok: "clocks_ok st \<Longrightarrow> clocks_ok (id_step st op)"
  by (cases op) (auto simp: clocks_ok_def create_id_clocks dest: tick_ok)

interpretation id_runs: step_system id_step no_identities clocks_ok
proof unfold_locales
  show "clocks_ok no_identities"
    by (simp add: clocks_ok_def id_clock_def clock_of_def no_identities_def clock_ok_def)
qed (rule id_step_clocks_ok)

lemma clock_before_trans: "clock_before a b \<Longrightarrow> clock_before b c \<Longrightarrow> clock_before a c"
  by (auto simp: clock_before_def)

lemma id_run_monotone:
  assumes "clocks_ok st"
  shows "id_clock (run_steps id_step st ops) k d = id_clock st k d
    \<or> clock_before (id_clock st k d) (id_clock (run_steps id_step st ops) k d)"
  using assms
proof (induction ops arbitrary: st)
  case (Cons op ops)
  have "id_clock (id_step st op) k d = id_clock st k d \<or> clock_before (id_clock st k d) (id_clock (id_step st op) k d)"
    using Cons.prems by (cases op) (auto simp: create_id_clocks clocks_ok_def intro: tick_advances)
  with Cons.IH [OF id_step_clocks_ok [OF Cons.prems, of op]] show ?case
    by (auto intro: clock_before_trans)
qed simp

section \<open>The shape of a created identity\<close>

lemma base62_loop_grows: "length out < length (base62_loop v out)"
proof (induction v out rule: base62_loop.induct)
  case (1 v out)
  have "length out < length (digit_text (v smod 62) @ out)" by (simp add: digit_text_def)
  then show ?case using "1.IH" [OF refl refl] unfolding base62_loop.simps [of v out] Let_def
    by (auto intro: less_trans)
qed

lemma base62_fixed_small:
  assumes "0 \<le> v" "0 < n" "base62_fixed v n = Inr s"
  shows "v < 62 ^ n \<and> s = fix62 n v"
proof -
  have long: "n + length out < length (base62_loop v out)" if "62 ^ n \<le> v" for n v out
    using that
  proof (induction n arbitrary: v out)
    case 0
    show ?case by (simp add: base62_loop_grows)
  next
    case (Suc n)
    have "62 ^ n * 62 \<le> v" using Suc.prems by simp
    then have "62 ^ n \<le> v div 62" by (metis zdiv_mono1 zero_less_numeral nonzero_mult_div_cancel_right zero_neq_numeral)
    moreover have "(1 :: int) \<le> 62 ^ n" by simp
    with \<open>62 ^ n * 62 \<le> v\<close> have "62 \<le> v" by linarith
    ultimately show ?case using Suc.IH [of "v div 62" "(base62_alphabet ! nat (v mod 62)) # out"]
      by (simp add: base62_loop_step [of v out])
  qed
  have "v < 62 ^ n" using long [of n v "[]"] assms(3) by (fastforce simp: base62_fixed_def Let_def split: if_splits)
  with assms show ?thesis by (simp add: base62_fixed_fix62)
qed

definition id_width :: "id_kind \<Rightarrow> nat" where
  "id_width k = (if k = KTask then 9 else 8)"

definition id_limit :: "id_kind \<Rightarrow> int" where
  "id_limit k = (if k = KTask then max_field_value else compact_timestamp_max)"

definition id_random :: "id_kind \<Rightarrow> (nat \<Rightarrow> 8 word) \<Rightarrow> string" where
  "id_random k bytes = random_base62 bytes (if k = KTask then 8 else 12 - length (prefix_of k))"

text \<open>What an identity is, in terms of its kind's clock after the call.\<close>

lemma created_shape:
  assumes "create_id st k d now bytes = (st', Inr i)" "clocks_ok st"
    and "d \<longrightarrow> fst (id_clock st' k d) \<le> id_limit k"
  shows "i = prefix_of k @ ''_'' @ (if d then ''-'' else ''g'')
      @ fix62 (id_width k) (if d then id_limit k - fst (id_clock st' k d) else fst (id_clock st' k d))
      @ fix62 2 (if d then compact_sequence_max - snd (id_clock st' k d) else snd (id_clock st' k d))
      @ id_random k bytes"
    and "id_clock st' k d = tick (js_number now) (id_clock st k d)"
    and "0 \<le> js_number now" and "0 \<le> fst (id_clock st' k d)" and "fst (id_clock st' k d) < 62 ^ id_width k"
    and "clock_ok (id_clock st' k d)"
proof -
  have now: "is_safe_integer now" "0 \<le> js_number now" "js_number now \<le> max_field_value"
    using assms(1) by (auto simp: create_id_def split: if_splits)
  have st': "st' = fst (create_id st k d now bytes)" using assms(1) by simp
  show c: "id_clock st' k d = tick (js_number now) (id_clock st k d)"
    unfolding st' create_id_clocks using now by simp
  have ok: "clock_ok (id_clock st k d)" using assms(2) by (simp add: clocks_ok_def)
  from tick_ok [OF now(2) ok] show ok': "clock_ok (id_clock st' k d)" and c0: "0 \<le> fst (id_clock st' k d)"
    unfolding c by simp_all
  show "0 \<le> js_number now" by (rule now(2))
  let ?c = "id_clock st' k d"
  let ?t = "if d then id_limit k - fst ?c else fst ?c" and ?s = "if d then compact_sequence_max - snd ?c else snd ?c"
  have ct: "compact_text (prefix_of k) d ?t (id_width k) ?s (id_random k bytes) = Inr i"
    using assms(1) now unfolding c
    by (auto simp: create_id_def create_compact_task_id_def id_clock_def clock_of_def Let_def id_width_def id_limit_def
        id_random_def max_length_def split: if_splits)
  have s: "0 \<le> ?s" "?s < 62 ^ 2" using ok' by (auto simp: clock_ok_def)
  have t: "0 \<le> ?t" using c0 assms(3) by auto
  from ct obtain a where "base62_fixed ?t (id_width k) = Inr a" by (auto simp: compact_text_def rbind_Inr_iff)
  moreover have w: "0 < id_width k" by (simp add: id_width_def)
  ultimately have fit: "?t < 62 ^ id_width k" using base62_fixed_small [OF t] by blast
  show "i = prefix_of k @ ''_'' @ (if d then ''-'' else ''g'') @ fix62 (id_width k) ?t @ fix62 2 ?s @ id_random k bytes"
    using ct unfolding compact_text_def base62_fixed_fix62 [OF t fit w] base62_fixed_fix62 [OF s, simplified] by simp
  have "fst ?c < 62 ^ id_width k" if d
    using assms(3) that by (auto simp: id_limit_def id_width_def max_field_value_def compact_timestamp_max_def split: if_splits)
  then show "fst ?c < 62 ^ id_width k" using fit by (cases d) auto
qed

text \<open>Only the clock of descending Task identities can pass its limit unnoticed.\<close>

lemma created_limit:
  assumes "create_id st k d now bytes = (st', Inr i)" "d \<and> k = KTask \<longrightarrow> fst (id_clock st' k d) \<le> max_field_value"
  shows "d \<longrightarrow> fst (id_clock st' k d) \<le> id_limit k"
  using assms by (auto simp: create_id_def id_clock_def clock_of_def id_limit_def Let_def split: if_splits)

lemma alphabet_alnum: "list_all alnum base62_alphabet"
  by (simp add: base62_alphabet_def alnum_def)

lemma digits_alnum: "i < 62 \<Longrightarrow> alnum (base62_alphabet ! i)"
  using alphabet_alnum by (simp add: list_all_length)

lemma fix62_alnum: "c \<in> set (fix62 n v) \<Longrightarrow> alnum c"
  by (induction n v rule: fix62.induct) (auto simp: digits_alnum nat_less_iff)

lemma random_alnum: "c \<in> set (random_base62 bytes n) \<Longrightarrow> alnum c"
  by (auto simp: random_base62_def digits_alnum nat_less_iff)

lemma underscore_not_alnum [simp]: "\<not> alnum (CHR ''_'')"
  by (simp add: alnum_def)

lemma length_prefix: "3 \<le> length (prefix_of k) \<and> length (prefix_of k) \<le> 8 \<and> (k = KTask \<longrightarrow> length (prefix_of k) = 3)"
  by (cases k) simp_all

lemma split_id_append:
  assumes "p \<noteq> []" "CHR ''_'' \<notin> set b"
  shows "split_id (p @ ''_'' @ b) = Inr (p, b)"
proof -
  have "takeWhile (\<lambda>c. c \<noteq> CHR ''_'') (rev b @ CHR ''_'' # rev p) = rev b"
    using assms(2) by (subst takeWhile_append2) auto
  then show ?thesis using assms(1) by (simp add: split_id_def Let_def)
qed

section \<open>Properties\<close>

text \<open>
  C19: identities of one kind sort in the order of their creation: of two ascending creations
  of the kind that succeed, with any operations in between (failed ones included) and wall
  clocks that stand still or run backwards, the later identity is greater; of two descending
  ones it is smaller. One case is excluded by a hypothesis, because the code does not check
  it: the logical clock of descending Task identities must not have moved past the 48-bit
  limit, which takes 3844 creations at its very last millisecond.
\<close>

theorem identities_sort_by_creation:
  assumes "st = run_steps id_step no_identities ops" "create_id st k d now bytes = (st1, Inr a)"
    and "create_id (run_steps id_step st1 later) k d now' bytes' = (st3, Inr b)"
    and "d \<and> k = KTask \<longrightarrow> fst (id_clock st3 k d) \<le> max_field_value"
  shows "if d then text_cmp b a < 0 else text_cmp a b < 0"
proof -
  have ok: "clocks_ok st" using assms(1) id_runs.reachable_inv by simp
  have st1: "st1 = id_step st (k, d, now, bytes)" using assms(2) by simp
  have ok1: "clocks_ok st1" unfolding st1 by (rule id_step_clocks_ok [OF ok])
  let ?st2 = "run_steps id_step st1 later"
  have ok2: "clocks_ok ?st2" by (rule id_runs.run_inv [OF ok1])
  have limit: "d \<longrightarrow> fst (id_clock st3 k d) \<le> id_limit k" by (rule created_limit [OF assms(3,4)])
  note B = created_shape [OF assms(3) ok2 limit]
  have "clock_before (id_clock ?st2 k d) (id_clock st3 k d)"
    unfolding B(2) using ok2 by (auto simp: clocks_ok_def intro: tick_advances)
  then have before: "clock_before (id_clock st1 k d) (id_clock st3 k d)"
    using id_run_monotone [OF ok1, of later k d] by (auto intro: clock_before_trans)
  then have "d \<longrightarrow> fst (id_clock st1 k d) \<le> id_limit k" using limit by (auto simp: clock_before_def)
  note A = created_shape [OF assms(2) ok this]
  have bounds: "0 \<le> snd (id_clock st1 k d)" "snd (id_clock st1 k d) < 62 ^ 2" "0 \<le> snd (id_clock st3 k d)" "snd (id_clock st3 k d) < 62 ^ 2"
    using A(6) B(6) by (auto simp: clock_ok_def)
  have lim: "id_limit k < 62 ^ id_width k"
    by (simp add: id_limit_def id_width_def max_field_value_def compact_timestamp_max_def)
  show ?thesis
  proof (cases "fst (id_clock st1 k d) = fst (id_clock st3 k d)")
    case True
    then have "snd (id_clock st1 k d) < snd (id_clock st3 k d)" using before by (simp add: clock_before_def)
    then have "if d then text_cmp (fix62 2 (3843 - snd (id_clock st3 k d))) (fix62 2 (3843 - snd (id_clock st1 k d))) < 0
      else text_cmp (fix62 2 (snd (id_clock st1 k d))) (fix62 2 (snd (id_clock st3 k d))) < 0"
      using bounds by (auto intro!: fix62_mono simp del: fix62.simps)
    then show ?thesis using True by (auto simp: A(1) B(1) text_cmp_append_equal_length simp del: fix62.simps split: if_splits)
  next
    case False
    then have "fst (id_clock st1 k d) < fst (id_clock st3 k d)" using before by (simp add: clock_before_def)
    then have "if d then text_cmp (fix62 (id_width k) (id_limit k - fst (id_clock st3 k d))) (fix62 (id_width k) (id_limit k - fst (id_clock st1 k d))) < 0
      else text_cmp (fix62 (id_width k) (fst (id_clock st1 k d))) (fix62 (id_width k) (fst (id_clock st3 k d))) < 0"
      using A(4) B(5) limit lim by (auto intro!: fix62_mono)
    then show ?thesis by (auto simp: A(1) B(1) text_cmp_append_equal_length simp del: fix62.simps split: if_splits)
  qed
qed

text \<open>
  C20: every created identity is 24 characters long and canonical for its kind, and it is
  accepted and handed back unchanged where a given identity is expected (for descending Task
  identities as long as their logical clock has not moved past the 48-bit limit).
\<close>

theorem created_identity_is_canonical:
  assumes "st = run_steps id_step no_identities ops" "create_id st k d now bytes = (st', Inr i)"
    and "d \<and> k = KTask \<longrightarrow> fst (id_clock st' k d) \<le> max_field_value"
  shows "length i = max_length \<and> is_canonical k i \<and> snd (generate_id st0 k d0 (Some i) now0 bytes0) = Inr i"
proof -
  have ok: "clocks_ok st" using assms(1) id_runs.reachable_inv by simp
  note S = created_shape(1) [OF assms(2) ok created_limit [OF assms(2,3)]]
  define body where "body = fix62 (id_width k) (if d then id_limit k - fst (id_clock st' k d) else fst (id_clock st' k d))
      @ fix62 2 (if d then compact_sequence_max - snd (id_clock st' k d) else snd (id_clock st' k d)) @ id_random k bytes"
  have i: "i = (prefix_of k @ ''_'') @ (if d then CHR ''-'' else CHR ''g'') # body" using S by (simp add: body_def)
  have an: "alnum c" if "c \<in> set body" for c
    using that by (auto simp: body_def id_random_def random_alnum simp del: fix62.simps dest: fix62_alnum)
  have "0 < length body" by (simp add: body_def id_width_def)
  then have ne: "body \<noteq> []" by blast
  have "list_all alnum body" "alnum (last body)" using an ne by (auto simp: list_all_iff)
  then have "canonical_body ((if d then CHR ''-'' else CHR ''g'') # body)"
    using ne by (auto simp: canonical_body_def alnum_def list_all_iff dest: in_set_butlastD)
  then have can: "is_canonical k i" unfolding i is_canonical_def Let_def by simp
  have "length i = max_length"
    using length_prefix [of k] by (auto simp: i body_def max_length_def id_width_def id_random_def random_base62_def)
  moreover have "i \<noteq> []" "take (length (prefix_of k)) i = prefix_of k" by (simp_all add: i)
  ultimately show ?thesis using can by (simp add: generate_id_def)
qed

text \<open>
  Reading the timestamp of an ascending identity gives back the kind's logical timestamp,
  which is never behind the clock reading it was created from, and is that reading whenever
  the clock has moved past the kind's previous timestamp.
\<close>

theorem timestamp_round_trip:
  assumes "st = run_steps id_step no_identities ops" "create_id st k False now bytes = (st', Inr i)"
  shows "timestamp_of i = Inr (fst (id_clock st' k False))
    \<and> js_number now \<le> fst (id_clock st' k False)
    \<and> (fst (id_clock st k False) < js_number now \<longrightarrow> timestamp_of i = Inr (js_number now))"
proof -
  have ok: "clocks_ok st" using assms(1) id_runs.reachable_inv by simp
  note S = created_shape [OF assms(2) ok, simplified]
  define body where "body = fix62 (id_width k) (fst (id_clock st' k False)) @ fix62 2 (snd (id_clock st' k False)) @ id_random k bytes"
  have i: "i = prefix_of k @ ''_'' @ CHR ''g'' # body" using S(1) by (simp add: body_def)
  have "alnum c" if "c \<in> set (CHR ''g'' # body)" for c
    using that by (auto simp: body_def id_random_def random_alnum alnum_def [of "CHR ''g''"] simp del: fix62.simps dest: fix62_alnum)
  then have "CHR ''_'' \<notin> set (CHR ''g'' # body)" using underscore_not_alnum by blast
  moreover have "prefix_of k \<noteq> []" using length_prefix [of k] by auto
  ultimately have split: "split_id i = Inr (prefix_of k, CHR ''g'' # body)" unfolding i by (rule split_id_append [rotated])
  have len: "length body = (if k = KTask then 19 else 22 - length (prefix_of k))"
    using length_prefix [of k] by (auto simp: body_def id_width_def id_random_def random_base62_def)
  have take: "take (id_width k) body = fix62 (id_width k) (fst (id_clock st' k False))" by (simp add: body_def)
  have width: "id_width k = 8" if "prefix_of k \<noteq> prefix_of KTask" using that by (auto simp: id_width_def)
  have task: "id_width k = 9 \<and> length body = 19" if "prefix_of k = prefix_of KTask"
    using that len by (cases k) (simp_all add: id_width_def)
  have "timestamp_of i = Inr (fst (id_clock st' k False))"
    using S(4,5) take width task len length_prefix [of k] base62_value_fix62 [of "fst (id_clock st' k False)" "id_width k" 0]
    by (cases "prefix_of k = prefix_of KTask") (auto simp: timestamp_of_def split max_length_def simp del: prefix_of.simps)
  moreover have "js_number now \<le> fst (id_clock st' k False)" "fst (id_clock st k False) < js_number now \<Longrightarrow> fst (id_clock st' k False) = js_number now"
    unfolding S(2) using tick_ok [OF S(3)] ok by (auto simp: clocks_ok_def tick_def split: prod.split)
  ultimately show ?thesis by simp
qed

text \<open>
  A timestamp between 62^8 and 2^48 passes the field check, is stored, and only then fails
  the compact check: from then on no ordinary clock reading creates an identity of the kind.
\<close>

lemma far_timestamp_poisons_kind:
  assumes "clocks_ok st" "k \<noteq> KTask" "fst (id_clock st k d) > compact_timestamp_max" "js_number now \<le> compact_timestamp_max"
  shows "\<exists>e. snd (create_id st k d now bytes) = Inl e"
  using assms by (auto simp: create_id_def id_clock_def tick_def Let_def split: prod.split)

text \<open>
  The logical clock of descending Task identities is not checked against the 48-bit limit: the
  creation after the last sequence number of the last millisecond subtracts past zero, and its
  timestamp field reads \<open>undefined\<close>.
\<close>

lemma descending_task_clock_overflows:
  "snd (create_id (no_identities\<lparr>descending_task := (max_field_value, compact_sequence_max)\<rparr>) KTask True
      (JInt max_field_value) (\<lambda>_. 0)) = Inr ''tsk_-undefinedzz00000000''"
  by code_simp

definition demo_ids :: "id_op list" where
  "demo_ids = [(KMessage, False, JInt 1000, \<lambda>_. 200)]"

text \<open>The second creation happens after a third one failed and with the clock running backwards.\<close>

theorem identities_sort_by_creation_witness:
  "\<exists>a b. snd (create_id (run_steps id_step no_identities []) KMessage False (JInt 1000) (\<lambda>_. 200)) = Inr a
    \<and> snd (create_id (run_steps id_step no_identities (demo_ids @ [(KMessage, False, JInt (- 1), \<lambda>_. 0)]))
            KMessage False (JInt 900) (\<lambda>_. 3)) = Inr b
    \<and> text_cmp a b < 0"
proof -
  let ?c1 = "create_id (run_steps id_step no_identities []) KMessage False (JInt 1000) (\<lambda>_. 200)"
  let ?later = "[(KMessage, False, JInt (- 1), \<lambda>_. 0)]"
  let ?c2 = "create_id (run_steps id_step (fst ?c1) ?later) KMessage False (JInt 900) (\<lambda>_. 3)"
  have "snd ?c1 = Inr ''msg_g000000G800EEEEEEEEE''" by code_simp
  then have c1: "?c1 = (fst ?c1, Inr ''msg_g000000G800EEEEEEEEE'')" by (metis prod.collapse)
  have "snd ?c2 = Inr ''msg_g000000G801333333333''" by code_simp
  then have c2: "?c2 = (fst ?c2, Inr ''msg_g000000G801333333333'')" by (metis prod.collapse)
  have "run_steps id_step no_identities (demo_ids @ ?later) = run_steps id_step (fst ?c1) ?later"
    by (simp add: demo_ids_def)
  moreover have "False \<and> KMessage = KTask \<longrightarrow> fst (id_clock (fst ?c2) KMessage False) \<le> max_field_value" by simp
  ultimately show ?thesis using identities_sort_by_creation [OF refl c1 c2] c1 c2 by (metis snd_conv)
qed

theorem created_identity_is_canonical_witness:
  "\<exists>i. snd (create_id (run_steps id_step no_identities demo_ids) KPlanNode True (JInt 1000) (\<lambda>_. 200)) = Inr i
    \<and> length i = 24 \<and> is_canonical KPlanNode i"
proof -
  let ?c = "create_id (run_steps id_step no_identities demo_ids) KPlanNode True (JInt 1000) (\<lambda>_. 200)"
  have "snd ?c = Inr ''pln_node_-zzzzzzjrzzEEEE''" by code_simp
  then have c: "?c = (fst ?c, Inr ''pln_node_-zzzzzzjrzzEEEE'')" by (metis prod.collapse)
  have "True \<and> KPlanNode = KTask \<longrightarrow> fst (id_clock (fst ?c) KPlanNode True) \<le> max_field_value" by simp
  from created_identity_is_canonical [OF refl c this] show ?thesis using c by (metis max_length_def snd_conv)
qed

theorem timestamp_round_trip_witness:
  "\<exists>i. snd (create_id (run_steps id_step no_identities demo_ids) KTask False (JInt 1720000000000) (\<lambda>_. 9)) = Inr i
    \<and> timestamp_of i = Inr 1720000000000"
proof -
  let ?c = "create_id (run_steps id_step no_identities demo_ids) KTask False (JInt 1720000000000) (\<lambda>_. 9)"
  have "snd ?c = Inr ''tsk_g00UHSKiJs0099999999''" by code_simp
  then have c: "?c = (fst ?c, Inr ''tsk_g00UHSKiJs0099999999'')" by (metis prod.collapse)
  have "fst (id_clock (run_steps id_step no_identities demo_ids) KTask False) < js_number (JInt 1720000000000)" by code_simp
  with timestamp_round_trip [OF refl c] show ?thesis using c by (metis snd_conv js_number.simps(1))
qed

end
