(* ===== verification/LiveReplay.thy ===== *)
theory LiveReplay
  imports ProtocolLog
begin

text \<open>
  The live replay buffers of \<open>protocol/store.ts\<close>. An ephemeral event of a Task gets the next
  live sequence of that Task and is kept for resuming subscribers, at most 4096 events and
  thirty seconds; dropping the oldest raises the retention floor of the Task. An event that
  closes a part or removes a part or message makes earlier buffered events obsolete.
\<close>

section \<open>Events and buffers\<close>

record live_event =
  le_id :: string
  le_type :: string
  le_aggregate :: aggregate_kind
  le_aggregate_id :: string
  le_task :: "string option"
  le_session :: "string option"
  le_source :: string
  le_order_key :: string
  le_sequence :: "int option"
  le_epoch :: "int option"
  le_summary :: string
  le_payload :: "json option"
  le_emitted :: int

record live_state =
  live_epoch :: int
  live_sequences :: "string \<Rightarrow> int option"
  live_events :: "string \<Rightarrow> live_event list option"
  live_floors :: "string \<Rightarrow> int option"

definition replay_max_events :: nat where "replay_max_events = 4096"

definition replay_max_age_ms :: int where "replay_max_age_ms = 30000"

definition live_seq :: "live_event \<Rightarrow> int" where
  "live_seq e = (case le_sequence e of None \<Rightarrow> 0 | Some n \<Rightarrow> n)"

definition buffered :: "live_state \<Rightarrow> string \<Rightarrow> live_event list" where
  "buffered st tid = (case live_events st tid of None \<Rightarrow> [] | Some es \<Rightarrow> es)"

definition floor_of :: "live_state \<Rightarrow> string \<Rightarrow> int" where
  "floor_of st tid = (case live_floors st tid of None \<Rightarrow> 0 | Some n \<Rightarrow> n)"

definition current_live_sequence :: "live_state \<Rightarrow> string \<Rightarrow> int" where
  "current_live_sequence st tid = (case live_sequences st tid of None \<Rightarrow> 0 | Some n \<Rightarrow> n)"

section \<open>Payload access\<close>

definition text_field :: "json \<Rightarrow> string \<Rightarrow> string option" where
  "text_field j k = (case json_field j k of Some (JsonStr s) \<Rightarrow> Some s | _ \<Rightarrow> None)"

definition object_field :: "json \<Rightarrow> string \<Rightarrow> json option" where
  "object_field j k = (case json_field j k of Some (JsonObj o') \<Rightarrow> Some (JsonObj o') | Some (JsonArr a) \<Rightarrow> Some (JsonArr a) | _ \<Rightarrow> None)"

fun json_truthy :: "json \<Rightarrow> bool" where
  "json_truthy JsonNull = False"
| "json_truthy (JsonBool b) = b"
| "json_truthy (JsonInt n) = (n \<noteq> 0)"
| "json_truthy (JsonFrac _) = True"
| "json_truthy (JsonStr s) = (s \<noteq> [])"
| "json_truthy (JsonArr _) = True"
| "json_truthy (JsonObj _) = True"

definition event_payload :: "live_event \<Rightarrow> json" where
  "event_payload e = (case le_payload e of None \<Rightarrow> JsonObj [] | Some p \<Rightarrow> p)"

definition or_empty :: "string option \<Rightarrow> string" where
  "or_empty s = (case s of None \<Rightarrow> [] | Some t \<Rightarrow> t)"

fun first_some :: "'a option list \<Rightarrow> 'a option" where
  "first_some [] = None"
| "first_some (Some x # _) = Some x"
| "first_some (None # xs) = first_some xs"

definition part_text :: "json \<Rightarrow> string \<Rightarrow> string option" where
  "part_text p k = (case object_field p ''part'' of None \<Rightarrow> None | Some part \<Rightarrow> text_field part k)"

text \<open>\<open>eventLiveReplayKey\<close>: Task, Session, Message, Part, and the field of a delta.\<close>

definition live_replay_key :: "live_event \<Rightarrow> string" where
  "live_replay_key e =
     (let p = event_payload e; bar = ''|'' in
      if le_type e = ''message.part.delta''
      then or_empty (le_task e) @ bar
           @ or_empty (first_some [text_field p ''sessionID'', le_session e]) @ bar
           @ or_empty (text_field p ''messageID'') @ bar
           @ or_empty (text_field p ''partID'') @ bar
           @ or_empty (text_field p ''field'')
      else or_empty (le_task e) @ bar
           @ or_empty (first_some [part_text p ''sessionID'', text_field p ''sessionID'', le_session e]) @ bar
           @ or_empty (first_some [part_text p ''messageID'', text_field p ''messageID'']) @ bar
           @ or_empty (first_some [part_text p ''id'', text_field p ''partID'']) @ bar)"

definition part_updated_closed :: "live_event \<Rightarrow> bool" where
  "part_updated_closed e \<longleftrightarrow>
     (case object_field (event_payload e) ''part'' of
        None \<Rightarrow> False
      | Some part \<Rightarrow>
          (text_field part ''type'' \<in> {Some ''text'', Some ''reasoning''}
             \<and> (case json_field part ''time'' of None \<Rightarrow> False
                 | Some t \<Rightarrow> (case json_field t ''end'' of Some (JsonInt _) \<Rightarrow> True | Some (JsonFrac _) \<Rightarrow> True | _ \<Rightarrow> False)))
        \<or> (text_field part ''type'' = Some ''tool''
             \<and> (case json_field part ''state'' of None \<Rightarrow> False
                 | Some s \<Rightarrow> (case json_field s ''status'' of None \<Rightarrow> False
                     | Some v \<Rightarrow> json_truthy v \<and> v \<noteq> JsonStr ''pending''))))"

definition begins_with :: "string \<Rightarrow> string \<Rightarrow> bool" where
  "begins_with s p \<longleftrightarrow> take (length p) s = p"

text \<open>Whether the new event \<open>e\<close> makes the buffered event \<open>c\<close> obsolete (\<open>pruneClosedLiveDeltas\<close>).\<close>

definition makes_obsolete :: "live_event \<Rightarrow> live_event \<Rightarrow> bool" where
  "makes_obsolete e c \<longleftrightarrow>
     (if le_type e = ''message.part.updated'' \<and> part_updated_closed e
      then le_type c = ''message.part.delta'' \<and> begins_with (live_replay_key c) (live_replay_key e)
      else if le_type e = ''message.part.removed''
      then begins_with (live_replay_key c) (live_replay_key e)
      else if le_type e = ''message.removed''
      then (let p = event_payload e; q = event_payload c;
                message_id = or_empty (first_some [text_field p ''messageID'',
                  (case object_field p ''info'' of None \<Rightarrow> None | Some info \<Rightarrow> text_field info ''id'')]);
                session_id = or_empty (first_some [text_field p ''sessionID'', le_session e])
            in or_empty (first_some [part_text q ''sessionID'', text_field q ''sessionID'', le_session c]) = session_id
               \<and> or_empty (first_some [part_text q ''messageID'', text_field q ''messageID'']) = message_id)
      else False)"

section \<open>Operations\<close>

definition set_events :: "string \<Rightarrow> live_event list \<Rightarrow> live_state \<Rightarrow> live_state" where
  "set_events tid es st =
     st\<lparr>live_events := (live_events st)(tid := (if es = [] then None else Some es))\<rparr>"

definition prune_obsolete :: "string \<Rightarrow> live_event \<Rightarrow> live_state \<Rightarrow> live_state" where
  "prune_obsolete tid e st = set_events tid (filter (\<lambda>c. \<not> makes_obsolete e c) (buffered st tid)) st"

text \<open>The loop of \<open>trimTaskLiveReplay\<close> with the floor it leaves.\<close>

fun trim_events :: "int \<Rightarrow> int option \<Rightarrow> live_event list \<Rightarrow> int option \<times> live_event list" where
  "trim_events min_time fl [] = (fl, [])"
| "trim_events min_time fl (e # es) =
     (if length (e # es) > replay_max_events \<or> le_emitted e < min_time
      then trim_events min_time
             (if live_seq e \<le> 0 then fl else Some (max (case fl of None \<Rightarrow> 0 | Some n \<Rightarrow> n) (live_seq e))) es
      else (fl, e # es))"

definition compact_live_replay :: "int \<Rightarrow> live_state \<Rightarrow> live_state" where
  "compact_live_replay now st =
     (let trimmed = (\<lambda>tid. trim_events (now - replay_max_age_ms) (live_floors st tid) (buffered st tid))
      in st\<lparr>live_events := (\<lambda>tid. case live_events st tid of None \<Rightarrow> None
                | Some _ \<Rightarrow> (let es = snd (trimmed tid) in if es = [] then None else Some es)),
            live_floors := (\<lambda>tid. fst (trimmed tid))\<rparr>)"

definition clear_task_live_replay :: "string \<Rightarrow> live_state \<Rightarrow> live_state" where
  "clear_task_live_replay tid st =
     st\<lparr>live_events := (live_events st)(tid := None), live_sequences := (live_sequences st)(tid := None),
        live_floors := (live_floors st)(tid := None)\<rparr>"

text \<open>What \<open>publishEventSideEffects\<close> does to the buffers when a persisted event is published.\<close>

definition publish_side_effects :: "event_input \<Rightarrow> live_state \<Rightarrow> live_state" where
  "publish_side_effects inp st =
     (if in_aggregate inp = AggTask \<and> in_kind inp \<in> {TaskCompleted, TaskFailed, TaskCancelled}
      then clear_task_live_replay (in_aggregate_id inp) st else st)"

record ephemeral_input =
  ep_type :: string
  ep_aggregate :: aggregate_kind
  ep_task :: "string option"
  ep_session :: "string option"
  ep_source :: string
  ep_order_key :: string
  ep_payload :: "json option"

datatype live_error = MissingOrderKey

definition ephemeral_task :: "ephemeral_input \<Rightarrow> string option" where
  "ephemeral_task inp = (if ep_aggregate inp = AggTask \<and> ep_task inp \<noteq> Some [] then ep_task inp else None)"

definition ephemeral_event :: "live_state \<Rightarrow> ephemeral_input \<Rightarrow> int \<Rightarrow> string \<Rightarrow> live_event" where
  "ephemeral_event st inp now fresh =
     (let task = (if ep_aggregate inp = AggTask then ep_task inp else None) in
      \<lparr>le_id = fresh, le_type = ep_type inp, le_aggregate = ep_aggregate inp,
       le_aggregate_id = or_empty (if ep_aggregate inp = AggTask then task else ep_session inp),
       le_task = task, le_session = ep_session inp, le_source = ep_source inp,
       le_order_key = js_trim (ep_order_key inp),
       le_sequence = map_option (\<lambda>tid. current_live_sequence st tid + 1) (ephemeral_task inp),
       le_epoch = map_option (\<lambda>_. live_epoch st) (ephemeral_task inp),
       le_summary = (case ep_payload inp of None \<Rightarrow> ep_type inp
         | Some p \<Rightarrow> (case text_field p ''summary'' of Some s \<Rightarrow> if s = [] then ep_type inp else s | None \<Rightarrow> ep_type inp)),
       le_payload = ep_payload inp, le_emitted = now\<rparr>)"

definition dispatch_ephemeral ::
  "live_state \<Rightarrow> ephemeral_input \<Rightarrow> int \<Rightarrow> string \<Rightarrow> live_error + live_state \<times> live_event" where
  "dispatch_ephemeral st inp now fresh =
     (if js_trim (ep_order_key inp) = [] then Inl MissingOrderKey
      else let e = ephemeral_event st inp now fresh in
        (case ephemeral_task inp of
           None \<Rightarrow> Inr (st, e)
         | Some tid \<Rightarrow>
             let st1 = st\<lparr>live_sequences := (live_sequences st)(tid := Some (live_seq e))\<rparr>;
                 st2 = prune_obsolete tid e st1;
                 st3 = set_events tid (buffered st2 tid @ [e]) st2
             in Inr (compact_live_replay now st3, e)))"

datatype replay_expiry = EpochChanged | RetentionExpired

datatype live_replay = Expired replay_expiry | Replayed "live_event list"

text \<open>\<open>listTaskLiveEventsAfter\<close>; the cursor is an integer number.\<close>

definition list_live_events_after ::
  "live_state \<Rightarrow> string \<Rightarrow> int \<Rightarrow> int option \<Rightarrow> int \<Rightarrow> live_state \<times> live_replay" where
  "list_live_events_after st tid cursor epoch now =
     (let st' = compact_live_replay now st; aft = max 0 cursor in
      (st', if (case epoch of None \<Rightarrow> False | Some ep \<Rightarrow> ep \<noteq> live_epoch st) then Expired EpochChanged
            else if aft > 0 \<and> aft < floor_of st' tid then Expired RetentionExpired
            else Replayed (filter (\<lambda>e. live_seq e > aft) (buffered st' tid))))"

section \<open>The unbounded log the buffers stand for\<close>

text \<open>
  Per Task: how many events were dispatched since the last terminal event, and those of them
  that no later event has made obsolete. The specification never trims.
\<close>

type_synonym replay_log = "string \<Rightarrow> int \<times> live_event list"

definition log_dispatch :: "string \<Rightarrow> live_event \<Rightarrow> replay_log \<Rightarrow> replay_log" where
  "log_dispatch tid e lg = lg(tid := (fst (lg tid) + 1, filter (\<lambda>c. \<not> makes_obsolete e c) (snd (lg tid)) @ [e]))"

datatype live_op =
    DispatchEphemeral ephemeral_input int string
  | PublishPersisted event_input
  | CompactReplay int
  | ResumeLive string int "int option" int

fun replay_step :: "live_state \<times> replay_log \<Rightarrow> live_op \<Rightarrow> live_state \<times> replay_log" where
  "replay_step (st, lg) (DispatchEphemeral inp now fresh) =
     (case dispatch_ephemeral st inp now fresh of
        Inl _ \<Rightarrow> (st, lg)
      | Inr (st', e) \<Rightarrow> (st', case ephemeral_task inp of None \<Rightarrow> lg | Some tid \<Rightarrow> log_dispatch tid e lg))"
| "replay_step (st, lg) (PublishPersisted inp) =
     (publish_side_effects inp st,
      if in_aggregate inp = AggTask \<and> in_kind inp \<in> {TaskCompleted, TaskFailed, TaskCancelled}
      then lg(in_aggregate_id inp := (0, [])) else lg)"
| "replay_step (st, lg) (CompactReplay now) = (compact_live_replay now st, lg)"
| "replay_step (st, lg) (ResumeLive tid cursor epoch now) = (fst (list_live_events_after st tid cursor epoch now), lg)"

definition no_replay :: "int \<Rightarrow> live_state \<times> replay_log" where
  "no_replay ep = (\<lparr>live_epoch = ep, live_sequences = (\<lambda>_. None), live_events = (\<lambda>_. None), live_floors = (\<lambda>_. None)\<rparr>,
     \<lambda>_. (0, []))"

definition task_log_ok :: "int \<times> live_event list \<Rightarrow> bool" where
  "task_log_ok l \<longleftrightarrow> sorted_wrt (<) (map live_seq (snd l)) \<and> (\<forall>e \<in> set (snd l). 1 \<le> live_seq e \<and> live_seq e \<le> fst l) \<and> 0 \<le> fst l"

text \<open>The buffer of a Task is the part of its log above the floor, and it is bounded.\<close>

definition task_tracks :: "live_state \<Rightarrow> string \<Rightarrow> int \<times> live_event list \<Rightarrow> bool" where
  "task_tracks st tid l \<longleftrightarrow> task_log_ok l \<and> current_live_sequence st tid = fst l
     \<and> 0 \<le> floor_of st tid \<and> floor_of st tid \<le> fst l
     \<and> buffered st tid = filter (\<lambda>e. floor_of st tid < live_seq e) (snd l)
     \<and> length (buffered st tid) \<le> replay_max_events"

definition tracks :: "live_state \<times> replay_log \<Rightarrow> bool" where
  "tracks w \<longleftrightarrow> (\<forall>tid. task_tracks (fst w) tid (snd w tid))"

lemma sorted_map_filter: "sorted_wrt (<) (map f xs) \<Longrightarrow> sorted_wrt (<) (map f (filter P xs))" for f :: "'a \<Rightarrow> int"
  by (induction xs) auto

lemma filter_all_cong: "(\<And>x. x \<in> set xs \<Longrightarrow> P x) \<Longrightarrow> filter P xs = xs"
  by (simp add: filter_id_conv)

lemma trim_events_filter:
  assumes "trim_events m fl es = (fl', es')" "sorted_wrt (<) (map live_seq es)"
    and "\<forall>e \<in> set es. v < live_seq e" "0 \<le> v" "v = (case fl of None \<Rightarrow> 0 | Some n \<Rightarrow> n)"
  shows "\<exists>v'. v' = (case fl' of None \<Rightarrow> 0 | Some n \<Rightarrow> n) \<and> v \<le> v' \<and> (v' = v \<or> v' \<in> live_seq ` set es)
    \<and> es' = filter (\<lambda>e. v' < live_seq e) es \<and> length es' \<le> replay_max_events"
  using assms
proof (induction es arbitrary: fl v)
  case Nil
  then show ?case by simp
next
  case (Cons e es)
  show ?case
  proof (cases "length (e # es) > replay_max_events \<or> le_emitted e < m")
    case True
    have e: "v < live_seq e" "\<forall>x \<in> set es. live_seq e < live_seq x" using Cons.prems(2,3) by auto
    have "max v (live_seq e) = live_seq e" using e(1) by simp
    then have step: "trim_events m (Some (live_seq e)) es = (fl', es')"
      using Cons.prems(1,4,5) True e(1) by auto
    have "0 \<le> live_seq e" "sorted_wrt (<) (map live_seq es)" using Cons.prems(2,4) e(1) by auto
    from Cons.IH [OF step this(2) e(2) this(1)] obtain v' where
      v': "v' = (case fl' of None \<Rightarrow> 0 | Some n \<Rightarrow> n)" "live_seq e \<le> v'" "v' = live_seq e \<or> v' \<in> live_seq ` set es"
        "es' = filter (\<lambda>e. v' < live_seq e) es" "length es' \<le> replay_max_events" by auto
    then show ?thesis using e(1) by auto
  next
    case False
    then have "fl' = fl" "es' = e # es" using Cons.prems(1) by auto
    moreover have "filter (\<lambda>x. v < live_seq x) (e # es) = e # es" using Cons.prems(3) by (intro filter_all_cong) auto
    ultimately show ?thesis using False Cons.prems(5) by (intro exI [of _ v]) (auto simp: not_less)
  qed
qed

lemma buffered_compact:
  "buffered (compact_live_replay now st) tid = snd (trim_events (now - replay_max_age_ms) (live_floors st tid) (buffered st tid))"
  by (auto simp: buffered_def compact_live_replay_def Let_def split: option.split)

lemma compact_tracks:
  assumes "task_log_ok l" "current_live_sequence st tid = fst l" "0 \<le> floor_of st tid" "floor_of st tid \<le> fst l"
    and "buffered st tid = filter (\<lambda>e. floor_of st tid < live_seq e) (snd l)"
  shows "task_tracks (compact_live_replay now st) tid l"
proof -
  let ?b = "buffered st tid"
  obtain fl' es' where t: "trim_events (now - replay_max_age_ms) (live_floors st tid) ?b = (fl', es')" by force
  have "sorted_wrt (<) (map live_seq ?b)" using assms(1) unfolding assms(5) task_log_ok_def
    by (blast intro: sorted_map_filter)
  from trim_events_filter [OF t this, of "floor_of st tid"] assms obtain v' where
    v': "v' = (case fl' of None \<Rightarrow> 0 | Some n \<Rightarrow> n)" "floor_of st tid \<le> v'" "v' = floor_of st tid \<or> v' \<in> live_seq ` set ?b"
      "es' = filter (\<lambda>e. v' < live_seq e) ?b" "length es' \<le> replay_max_events"
    by (auto simp: floor_of_def)
  have fl: "floor_of (compact_live_replay now st) tid = v'" using t v'(1)
    by (simp add: floor_of_def compact_live_replay_def Let_def)
  have b: "buffered (compact_live_replay now st) tid = es'" using t by (simp add: buffered_compact)
  have "v' \<le> fst l" using v'(3) assms(1,4) unfolding assms(5) task_log_ok_def by auto
  moreover have "es' = filter (\<lambda>e. v' < live_seq e) (snd l)"
    unfolding v'(4) assms(5) filter_filter using v'(2) by (intro filter_cong) auto
  moreover have "current_live_sequence (compact_live_replay now st) tid = fst l"
    using assms(2) by (simp add: current_live_sequence_def compact_live_replay_def Let_def)
  ultimately show ?thesis using assms(1,3) v'(2,5) by (simp add: task_tracks_def fl b)
qed

lemma tracks_compact: "tracks (st, lg) \<Longrightarrow> tracks (compact_live_replay now st, lg)"
proof -
  have "task_tracks (compact_live_replay now st) tid l" if "task_tracks st tid l" for tid l
    using that by (intro compact_tracks) (simp_all add: task_tracks_def)
  then show "tracks (st, lg) \<Longrightarrow> ?thesis" by (simp add: tracks_def)
qed

lemma tracks_clear: "tracks (st, lg) \<Longrightarrow> tracks (clear_task_live_replay tid st, lg(tid := (0, [])))"
proof -
  let ?st = "clear_task_live_replay tid st"
  have other: "buffered ?st t = buffered st t" "current_live_sequence ?st t = current_live_sequence st t" "floor_of ?st t = floor_of st t"
    if "t \<noteq> tid" for t
    using that by (simp_all add: clear_task_live_replay_def current_live_sequence_def floor_of_def buffered_def)
  have "buffered ?st tid = []" "current_live_sequence ?st tid = 0" "floor_of ?st tid = 0"
    by (simp_all add: clear_task_live_replay_def current_live_sequence_def floor_of_def buffered_def)
  then have "task_tracks ?st tid (0, [])" by (simp add: task_tracks_def task_log_ok_def)
  moreover have "task_tracks ?st t (lg t)" if "tracks (st, lg)" "t \<noteq> tid" for t
  proof -
    have "task_tracks st t (lg t)" using that(1) by (simp add: tracks_def)
    then show ?thesis unfolding task_tracks_def other [OF that(2)] by blast
  qed
  ultimately show "tracks (st, lg) \<Longrightarrow> ?thesis" by (simp add: tracks_def)
qed

lemma dispatch_tracks:
  assumes "tracks (st, lg)" "dispatch_ephemeral st inp now fresh = Inr (st', e)" "ephemeral_task inp = Some tid"
  shows "tracks (st', log_dispatch tid e lg)"
proof -
  define st1 where "st1 = st\<lparr>live_sequences := (live_sequences st)(tid := Some (live_seq e))\<rparr>"
  define st2 where "st2 = prune_obsolete tid e st1"
  define st3 where "st3 = set_events tid (buffered st2 tid @ [e]) st2"
  have e: "e = ephemeral_event st inp now fresh" and st': "st' = compact_live_replay now st3"
    using assms(2,3) by (auto simp: dispatch_ephemeral_def Let_def st1_def st2_def st3_def split: if_splits)
  have seq: "live_seq e = current_live_sequence st tid + 1"
    using assms(3) by (simp add: e ephemeral_event_def Let_def live_seq_def)
  have here: "current_live_sequence st3 tid = live_seq e" "floor_of st3 tid = floor_of st tid"
    "buffered st3 tid = filter (\<lambda>c. \<not> makes_obsolete e c) (buffered st tid) @ [e]"
    by (simp_all add: st3_def st2_def st1_def prune_obsolete_def set_events_def current_live_sequence_def floor_of_def buffered_def)
  have there: "current_live_sequence st3 t = current_live_sequence st t" "floor_of st3 t = floor_of st t"
    "buffered st3 t = buffered st t" if "t \<noteq> tid" for t
    using that by (simp_all add: st3_def st2_def st1_def prune_obsolete_def set_events_def current_live_sequence_def floor_of_def buffered_def)
  have old: "task_tracks st t (lg t)" for t using assms(1) by (simp add: tracks_def)
  have "task_tracks (compact_live_replay now st3) t (log_dispatch tid e lg t)" for t
  proof (cases "t = tid")
    case False
    then show ?thesis using old [of t] by (intro compact_tracks) (simp_all add: task_tracks_def log_dispatch_def there)
  next
    case True
    note o = old [of tid, unfolded task_tracks_def task_log_ok_def]
    have "sorted_wrt (<) (map live_seq (filter (\<lambda>c. \<not> makes_obsolete e c) (snd (lg tid))))"
      using o by (blast intro: sorted_map_filter)
    moreover have "live_seq x < live_seq e" if "x \<in> set (snd (lg tid))" for x using o seq that by auto
    ultimately have "task_log_ok (log_dispatch tid e lg tid)"
      using o seq by (fastforce simp: task_log_ok_def log_dispatch_def sorted_wrt_append)
    moreover have "floor_of st tid < live_seq e" using o seq by simp
    ultimately show ?thesis using o seq unfolding True
      by (intro compact_tracks) (auto simp: here log_dispatch_def conj_commute)
  qed
  then show ?thesis by (simp add: tracks_def st')
qed

lemma dispatch_taskless: "dispatch_ephemeral st inp now fresh = Inr (st', e) \<Longrightarrow> ephemeral_task inp = None \<Longrightarrow> st' = st"
  by (auto simp: dispatch_ephemeral_def Let_def split: if_splits)

lemma replay_step_tracks: "tracks w \<Longrightarrow> tracks (replay_step w op)"
proof (cases w; cases op)
  fix st lg inp now fresh
  assume w: "tracks w" "w = (st, lg)" "op = DispatchEphemeral inp now fresh"
  show ?thesis
  proof (cases "dispatch_ephemeral st inp now fresh")
    case (Inr r)
    then show ?thesis using w dispatch_tracks [of st lg inp now fresh] dispatch_taskless [of st inp now fresh]
      by (cases r) (auto split: option.split)
  qed (use w in simp)
qed (auto simp: publish_side_effects_def list_live_events_after_def Let_def intro: tracks_compact tracks_clear)

interpretation replay_runs: step_system replay_step "no_replay ep" tracks for ep
proof unfold_locales
  show "tracks (no_replay ep)"
    by (simp add: no_replay_def tracks_def task_tracks_def task_log_ok_def current_live_sequence_def floor_of_def buffered_def)
qed (rule replay_step_tracks)

section \<open>Properties\<close>

text \<open>
  C17: a replay refines the log since the last terminal event of the Task. The log numbers the
  events dispatched for the Task since its last terminal event (or the start) from 1 and
  forgets those that a later event has made obsolete. After any history, a replay that is not
  expired returns, in order, exactly the events of this log numbered above the cursor, when
  the cursor is positive; without a cursor it returns those above the retention floor. The
  numbers start again at a terminal event: a cursor taken before one is compared with the new
  numbers, so a subscriber that resumes with it can miss events dispatched after the reopening
  (\<open>stale_cursor_loses_reopened_events\<close>), and the statement promises it nothing more.
\<close>

theorem live_replay_refines_log:
  assumes "run_steps replay_step (no_replay ep) ops = (st, lg)"
    and "list_live_events_after st tid cursor epoch now = (st', Replayed es)"
  shows "es = filter (\<lambda>e. max (max 0 cursor) (floor_of st' tid) < live_seq e) (snd (lg tid))
    \<and> (0 < cursor \<longrightarrow> es = filter (\<lambda>e. cursor < live_seq e) (snd (lg tid)))"
proof -
  have "tracks (st, lg)" using replay_runs.reachable_inv [of ep ops] assms(1) by simp
  then have "tracks (st', lg)" using assms(2) by (auto simp: list_live_events_after_def Let_def intro: tracks_compact)
  then have b: "buffered st' tid = filter (\<lambda>e. floor_of st' tid < live_seq e) (snd (lg tid))"
    by (simp add: tracks_def task_tracks_def)
  have es: "es = filter (\<lambda>e. max 0 cursor < live_seq e) (buffered st' tid)" "0 < cursor \<Longrightarrow> floor_of st' tid \<le> cursor"
    using assms(2) by (auto simp: list_live_events_after_def Let_def not_less split: if_splits option.splits)
  have "es = filter (\<lambda>e. max (max 0 cursor) (floor_of st' tid) < live_seq e) (snd (lg tid))"
    unfolding es b filter_filter by (intro filter_cong) auto
  moreover have "max (max 0 cursor) (floor_of st' tid) = cursor" if "0 < cursor" using es(2) [OF that] that by simp
  ultimately show ?thesis by metis
qed

text \<open>
  The live buffers are bounded. In every reachable state a Task keeps at most 4096 events,
  with strictly increasing live sequences above the retention floor and not beyond the Task's
  current one.
\<close>

theorem live_buffers_bounded:
  "length (buffered (fst (run_steps replay_step (no_replay ep) ops)) tid) \<le> 4096
   \<and> sorted_wrt (<) (map live_seq (buffered (fst (run_steps replay_step (no_replay ep) ops)) tid))
   \<and> live_seq ` set (buffered (fst (run_steps replay_step (no_replay ep) ops)) tid)
       \<subseteq> {floor_of (fst (run_steps replay_step (no_replay ep) ops)) tid
            <.. current_live_sequence (fst (run_steps replay_step (no_replay ep) ops)) tid}"
proof -
  let ?w = "run_steps replay_step (no_replay ep) ops"
  have t: "task_tracks (fst ?w) tid (snd ?w tid)" using replay_runs.reachable_inv [of ep ops] by (simp add: tracks_def)
  then have "sorted_wrt (<) (map live_seq (buffered (fst ?w) tid))"
    unfolding task_tracks_def task_log_ok_def by (metis sorted_map_filter)
  then show ?thesis using t by (auto simp: task_tracks_def task_log_ok_def replay_max_events_def)
qed

definition demo_delta :: "string \<Rightarrow> ephemeral_input" where
  "demo_delta x = \<lparr>ep_type = ''message.part.delta'', ep_aggregate = AggTask, ep_task = Some ''t'', ep_session = Some ''s'',
     ep_source = ''llm'', ep_order_key = ''k'',
     ep_payload = Some (JsonObj [(''messageID'', JsonStr ''m''), (''partID'', JsonStr x), (''field'', JsonStr ''text'')])\<rparr>"

definition demo_closing :: "string \<Rightarrow> ephemeral_input" where
  "demo_closing x = (demo_delta x)\<lparr>ep_type := ''message.part.updated'',
     ep_payload := Some (JsonObj [(''part'', JsonObj [(''id'', JsonStr x), (''messageID'', JsonStr ''m''), (''type'', JsonStr ''text''),
       (''time'', JsonObj [(''end'', JsonInt 9)])])])\<rparr>"

definition demo_terminal :: event_input where
  "demo_terminal = \<lparr>in_kind = TaskCompleted, in_aggregate = AggTask, in_aggregate_id = ''t'', in_session = None,
     in_source = ''state.task'', in_causation = None, in_seq = None, in_emitted_at = 5, in_epoch = JInt 1,
     in_error = JUndefined, in_reason = JUndefined\<rparr>"

text \<open>
  A live cursor does not survive the end of an execution epoch. A terminal event resets the
  live sequence and the floor of its Task but not the live epoch, so a subscriber that resumes
  after the Task was reopened is answered with an unexpired, empty replay although the buffer
  holds new events.
\<close>

theorem stale_cursor_loses_reopened_events:
  "let w = run_steps replay_step (no_replay 77)
        [DispatchEphemeral (demo_delta ''a'') 1 ''e1'', DispatchEphemeral (demo_delta ''b'') 2 ''e2'',
         PublishPersisted demo_terminal, DispatchEphemeral (demo_delta ''c'') 6 ''e3'']
   in current_live_sequence (fst (run_steps replay_step (no_replay 77)
        [DispatchEphemeral (demo_delta ''a'') 1 ''e1'', DispatchEphemeral (demo_delta ''b'') 2 ''e2''])) ''t'' = 2
      \<and> map le_id (buffered (fst w) ''t'') = [''e3'']
      \<and> snd (list_live_events_after (fst w) ''t'' 2 (Some 77) 7) = Replayed []"
  by code_simp

theorem live_replay_refines_log_witness:
  "\<exists>es. snd (list_live_events_after (fst (run_steps replay_step (no_replay 77)
        [DispatchEphemeral (demo_delta ''a'') 1 ''e1'', DispatchEphemeral (demo_delta ''a'') 2 ''e2'',
         DispatchEphemeral (demo_delta ''b'') 3 ''e3'', DispatchEphemeral (demo_closing ''a'') 4 ''e4'']))
      ''t'' 1 (Some 77) 7) = Replayed es \<and> map le_id es = [''e3'', ''e4'']"
proof -
  let ?w = "run_steps replay_step (no_replay 77)
        [DispatchEphemeral (demo_delta ''a'') 1 ''e1'', DispatchEphemeral (demo_delta ''a'') 2 ''e2'',
         DispatchEphemeral (demo_delta ''b'') 3 ''e3'', DispatchEphemeral (demo_closing ''a'') 4 ''e4'']"
  have "\<exists>es. snd (list_live_events_after (fst ?w) ''t'' 1 (Some 77) 7) = Replayed es"
    by (simp add: list_live_events_after_def Let_def) code_simp
  then obtain es where es: "list_live_events_after (fst ?w) ''t'' 1 (Some 77) 7
      = (fst (list_live_events_after (fst ?w) ''t'' 1 (Some 77) 7), Replayed es)" by (metis prod.collapse)
  have "map le_id (filter (\<lambda>e. 1 < live_seq e) (snd (snd ?w ''t''))) = [''e3'', ''e4'']" by code_simp
  with live_replay_refines_log [OF prod.collapse [symmetric] es] es show ?thesis by (metis snd_conv zero_less_one)
qed

end
