(* ===== verification/EditMatch.thy ===== *)
theory EditMatch
  imports JsString
begin

text \<open>
  The edit matcher (\<open>tool/edit.ts\<close>): \<open>replace\<close> tries eight replacers in turn, each proposing
  texts of the file that may be what the caller meant, and replaces the first one that occurs
  exactly once. A replacer is the list of the texts its generator yields. The replacer of
  multiple occurrences may yield for ever (on an empty search text), so it and \<open>replace\<close> are
  partial: \<open>None\<close> is a call that never returns.
\<close>

section \<open>String searching\<close>

definition occurs_at :: "ustring \<Rightarrow> ustring \<Rightarrow> nat \<Rightarrow> bool" where
  "occurs_at content search i \<longleftrightarrow> i + length search \<le> length content \<and> take (length search) (drop i content) = search"

definition occurrences :: "ustring \<Rightarrow> ustring \<Rightarrow> nat list" where
  "occurrences content search = filter (occurs_at content search) [0..<Suc (length content)]"

definition index_from :: "ustring \<Rightarrow> ustring \<Rightarrow> nat \<Rightarrow> nat option" where
  "index_from content search start = List.find (occurs_at content search) [start..<Suc (length content)]"

definition last_index :: "ustring \<Rightarrow> ustring \<Rightarrow> nat option" where
  "last_index content search = List.find (occurs_at content search) (rev [0..<Suc (length content)])"

definition contains_text :: "ustring \<Rightarrow> ustring \<Rightarrow> bool" where
  "contains_text content search \<longleftrightarrow> index_from content search 0 \<noteq> None"

definition substring :: "ustring \<Rightarrow> nat \<Rightarrow> nat \<Rightarrow> ustring" where
  "substring s a b = take (b - a) (drop a s)"

definition replace_first_at :: "ustring \<Rightarrow> ustring \<Rightarrow> ustring \<Rightarrow> nat \<Rightarrow> ustring" where
  "replace_first_at content search new i = take i content @ new @ drop (i + length search) content"

text \<open>
  \<open>String.prototype.replaceAll\<close> with a string replacement: the replacement patterns \<open>$$\<close>,
  \<open>$&\<close>, \<open>$`\<close> and \<open>$'\<close> are expanded, and an empty search text matches at every position.
\<close>

fun expand_replacement :: "ustring \<Rightarrow> ustring \<Rightarrow> nat \<Rightarrow> ustring \<Rightarrow> ustring" where
  "expand_replacement content search p [] = []"
| "expand_replacement content search p [c] = [c]"
| "expand_replacement content search p (c # d # rest) =
     (if c = 36 \<and> d = 36 then 36 # expand_replacement content search p rest
      else if c = 36 \<and> d = 38 then search @ expand_replacement content search p rest
      else if c = 36 \<and> d = 96 then take p content @ expand_replacement content search p rest
      else if c = 36 \<and> d = 39 then drop (p + length search) content @ expand_replacement content search p rest
      else c # expand_replacement content search p (d # rest))"

lemma index_from_Some:
  "index_from content search start = Some i \<Longrightarrow> start \<le> i \<and> i \<le> length content \<and> occurs_at content search i"
  by (auto simp: index_from_def find_Some_iff nth_append split: if_splits)

function match_positions :: "ustring \<Rightarrow> ustring \<Rightarrow> nat \<Rightarrow> nat list" where
  "match_positions content search start =
     (case index_from content search start of
        None \<Rightarrow> [] | Some p \<Rightarrow> p # match_positions content search (p + max 1 (length search)))"
  by pat_completeness auto

termination
  by (relation "measure (\<lambda>(content, search, start). Suc (length content) - start)") (auto dest!: index_from_Some)

declare match_positions.simps [simp del]

fun replace_at_positions :: "ustring \<Rightarrow> ustring \<Rightarrow> ustring \<Rightarrow> nat \<Rightarrow> nat list \<Rightarrow> ustring" where
  "replace_at_positions content search new from [] = drop from content"
| "replace_at_positions content search new from (p # ps) =
     substring content from p @ expand_replacement content search p new
       @ replace_at_positions content search new (p + length search) ps"

definition replace_all :: "ustring \<Rightarrow> ustring \<Rightarrow> ustring \<Rightarrow> ustring" where
  "replace_all content search new = replace_at_positions content search new 0 (match_positions content search 0)"

section \<open>The replacers\<close>

text \<open>The blocks of as many consecutive lines as \<open>n\<close>, in order.\<close>

definition line_blocks :: "ustring list \<Rightarrow> nat \<Rightarrow> ustring list list" where
  "line_blocks ls n = map (\<lambda>i. take n (drop i ls)) [0..<Suc (length ls) - n]"

definition simple_replacer :: "ustring \<Rightarrow> ustring \<Rightarrow> ustring list" where
  "simple_replacer content wanted = [wanted]"

definition pop_empty :: "ustring list \<Rightarrow> ustring list" where
  "pop_empty ls = (if last ls = [] then butlast ls else ls)"

definition line_start :: "ustring list \<Rightarrow> nat \<Rightarrow> nat" where
  "line_start ls i = sum_list (map (\<lambda>l. length l + 1) (take i ls))"

definition line_end :: "ustring list \<Rightarrow> nat \<Rightarrow> nat \<Rightarrow> nat" where
  "line_end ls i n = line_start ls i + sum_list (map length (take n (drop i ls))) + (n - 1)"

definition line_trimmed_replacer :: "ustring \<Rightarrow> ustring \<Rightarrow> ustring list" where
  "line_trimmed_replacer content wanted =
     (let ls = split_lines content; searched = pop_empty (split_lines wanted); n = length searched
      in map (\<lambda>i. substring content (line_start ls i) (line_end ls i n))
           (filter (\<lambda>i. list_all2 (\<lambda>a b. trim a = trim b) (take n (drop i ls)) searched) [0..<Suc (length ls) - n]))"

text \<open>\<open>text.replace(/\s+/g, " ").trim()\<close>\<close>

fun collapse_space :: "ustring \<Rightarrow> ustring" where
  "collapse_space [] = []"
| "collapse_space [c] = [if unit_space c then 32 else c]"
| "collapse_space (c # d # rest) =
     (if unit_space c then (if unit_space d then collapse_space (d # rest) else 32 # collapse_space (d # rest))
      else c # collapse_space (d # rest))"

definition normalize_whitespace :: "ustring \<Rightarrow> ustring" where
  "normalize_whitespace s = trim (collapse_space s)"

lemma drop_spaces_shorter:
  "dropWhile (\<lambda>c. \<not> unit_space c) s \<noteq> [] \<Longrightarrow>
    length (dropWhile unit_space (dropWhile (\<lambda>c. \<not> unit_space c) s)) < length s"
proof -
  assume "dropWhile (\<lambda>c. \<not> unit_space c) s \<noteq> []"
  then obtain c cs where r: "dropWhile (\<lambda>c. \<not> unit_space c) s = c # cs" "unit_space c"
    by (metis dropWhile_eq_Cons_conv neq_Nil_conv)
  have "length (c # cs) \<le> length s" unfolding r(1) [symmetric] by (rule length_dropWhile_le)
  moreover have "length (dropWhile unit_space cs) \<le> length cs" by (rule length_dropWhile_le)
  ultimately show ?thesis using r by simp
qed

text \<open>\<open>s.split(/\s+/)\<close>\<close>

function split_spaces :: "ustring \<Rightarrow> ustring list" where
  "split_spaces s =
     (let rest = dropWhile (\<lambda>c. \<not> unit_space c) s
      in takeWhile (\<lambda>c. \<not> unit_space c) s # (if rest = [] then [] else split_spaces (dropWhile unit_space rest)))"
  by pat_completeness auto

termination
  by (relation "measure length") (simp_all add: drop_spaces_shorter)

declare split_spaces.simps [simp del]

text \<open>
  A match of the words with \<open>\s+\<close> between them at the start of the text. A word has no white
  space, so the greedy run of white space is the only one that can precede it.
\<close>

fun match_words :: "ustring list \<Rightarrow> ustring \<Rightarrow> ustring option" where
  "match_words [] s = Some []"
| "match_words [w] s = (if starts_with s w then Some w else None)"
| "match_words (w # ws) s =
     (if \<not> starts_with s w then None
      else let rest = drop (length w) s; sp = takeWhile unit_space rest
        in if sp = [] then None
           else map_option (\<lambda>m. w @ sp @ m) (match_words ws (dropWhile unit_space rest)))"

definition match_line :: "ustring list \<Rightarrow> ustring \<Rightarrow> ustring option" where
  "match_line ws line =
     (case List.find (\<lambda>i. match_words ws (drop i line) \<noteq> None) [0..<Suc (length line)] of
        None \<Rightarrow> None | Some i \<Rightarrow> match_words ws (drop i line))"

definition whitespace_normalized_replacer :: "ustring \<Rightarrow> ustring \<Rightarrow> ustring list" where
  "whitespace_normalized_replacer content wanted =
     (let ls = split_lines content; nf = normalize_whitespace wanted; find_lines = split_lines wanted
      in concat (map (\<lambda>line.
             if normalize_whitespace line = nf then [line]
             else if contains_text (normalize_whitespace line) nf
             then (case match_line (split_spaces (trim wanted)) line of None \<Rightarrow> [] | Some m \<Rightarrow> [m])
             else []) ls)
         @ (if length find_lines > 1
            then filter (\<lambda>b. normalize_whitespace b = nf) (map join_lines (line_blocks ls (length find_lines))) else []))"

definition remove_indentation :: "ustring \<Rightarrow> ustring" where
  "remove_indentation s =
     (let ls = split_lines s; non_empty = filter (\<lambda>l. trim l \<noteq> []) ls
      in if non_empty = [] then s
         else let k = Min (set (map (\<lambda>l. length (takeWhile unit_space l)) non_empty))
           in join_lines (map (\<lambda>l. if trim l = [] then l else drop k l) ls))"

definition indentation_flexible_replacer :: "ustring \<Rightarrow> ustring \<Rightarrow> ustring list" where
  "indentation_flexible_replacer content wanted =
     filter (\<lambda>b. remove_indentation b = remove_indentation wanted)
       (map join_lines (line_blocks (split_lines content) (length (split_lines wanted))))"

definition escape_target :: "int \<Rightarrow> int option" where
  "escape_target c =
     (if c = 110 then Some 10 else if c = 116 then Some 9 else if c = 114 then Some 13
      else if c \<in> {39, 34, 96, 92, 10, 36} then Some c else None)"

fun unescape_string :: "ustring \<Rightarrow> ustring" where
  "unescape_string [] = []"
| "unescape_string [c] = [c]"
| "unescape_string (c # d # rest) =
     (if c = 92 then (case escape_target d of
          Some e \<Rightarrow> e # unescape_string rest
        | None \<Rightarrow> c # unescape_string (d # rest))
      else c # unescape_string (d # rest))"

definition escape_normalized_replacer :: "ustring \<Rightarrow> ustring \<Rightarrow> ustring list" where
  "escape_normalized_replacer content wanted =
     (let uf = unescape_string wanted
      in (if contains_text content uf then [uf] else [])
         @ filter (\<lambda>b. unescape_string b = uf)
             (map join_lines (line_blocks (split_lines content) (length (split_lines uf)))))"

definition trimmed_boundary_replacer :: "ustring \<Rightarrow> ustring \<Rightarrow> ustring list" where
  "trimmed_boundary_replacer content wanted =
     (if trim wanted = wanted then []
      else (if contains_text content (trim wanted) then [trim wanted] else [])
           @ filter (\<lambda>b. trim b = trim wanted)
               (map join_lines (line_blocks (split_lines content) (length (split_lines wanted)))))"

text \<open>At least half of the non-empty middle lines of the block agree with the searched ones.\<close>

definition middle_agrees :: "ustring list \<Rightarrow> ustring list \<Rightarrow> bool" where
  "middle_agrees block searched \<longleftrightarrow>
     (let pairs = filter (\<lambda>(a, b). trim a \<noteq> [] \<or> trim b \<noteq> []) (zip (butlast (tl block)) (butlast (tl searched)))
      in length pairs \<le> 2 * length (filter (\<lambda>(a, b). trim a = trim b) pairs))"

definition context_aware_replacer :: "ustring \<Rightarrow> ustring \<Rightarrow> ustring list" where
  "context_aware_replacer content wanted =
     (if length (split_lines wanted) < 3 then []
      else let searched = pop_empty (split_lines wanted); ls = split_lines content
        in concat (map (\<lambda>i.
             if trim (ls ! i) \<noteq> trim (hd searched) then []
             else (case List.find (\<lambda>j. trim (ls ! j) = trim (last searched)) [i + 2..<length ls] of
                 None \<Rightarrow> []
               | Some j \<Rightarrow>
                   let block = take (Suc j - i) (drop i ls)
                   in if length block = length searched \<and> middle_agrees block searched then [join_lines block] else []))
             [0..<length ls]))"

partial_function (option) multi_occurrence_replacer :: "ustring \<Rightarrow> ustring \<Rightarrow> nat \<Rightarrow> ustring list option" where
  "multi_occurrence_replacer content wanted start =
     (case index_from content wanted start of
        None \<Rightarrow> Some []
      | Some i \<Rightarrow>
          Option.bind (multi_occurrence_replacer content wanted (i + length wanted)) (\<lambda>rest. Some (wanted # rest)))"

definition finite_replacers :: "(ustring \<Rightarrow> ustring \<Rightarrow> ustring list) list" where
  "finite_replacers = [simple_replacer, line_trimmed_replacer, whitespace_normalized_replacer,
     indentation_flexible_replacer, escape_normalized_replacer, trimmed_boundary_replacer, context_aware_replacer]"

section \<open>Replacing\<close>

datatype edit_error =
    NoChanges
  | NotFound
  | MultipleMatches
  | MissingFilePath
  | TargetExists
  | FileMissing
  | StaleRead

text \<open>One generator: the result at the first candidate that decides, and whether any occurred.\<close>

fun try_candidates :: "ustring \<Rightarrow> ustring \<Rightarrow> bool \<Rightarrow> ustring list \<Rightarrow> bool \<times> ustring option" where
  "try_candidates content new all [] = (False, None)"
| "try_candidates content new all (s # ss) =
     (case index_from content s 0 of
        None \<Rightarrow> try_candidates content new all ss
      | Some i \<Rightarrow>
          if all then (True, Some (replace_all content s new))
          else if last_index content s \<noteq> Some i then (True, snd (try_candidates content new all ss))
          else (True, Some (replace_first_at content s new i)))"

definition replace_text :: "ustring \<Rightarrow> ustring \<Rightarrow> ustring \<Rightarrow> bool \<Rightarrow> (edit_error + ustring) option" where
  "replace_text content old new all =
     (if old = new then Some (Inl NoChanges)
      else case try_candidates content new all (concat (map (\<lambda>r. r content old) finite_replacers)) of
        (_, Some out) \<Rightarrow> Some (Inr out)
      | (found, None) \<Rightarrow>
          (case multi_occurrence_replacer content old 0 of
             None \<Rightarrow> None
           | Some ms \<Rightarrow>
               (case try_candidates content new all ms of
                  (_, Some out) \<Rightarrow> Some (Inr out)
                | (found', None) \<Rightarrow> Some (Inl (if found \<or> found' then MultipleMatches else NotFound)))))"

section \<open>The tool around it\<close>

fun normalize_line_endings :: "ustring \<Rightarrow> ustring" where
  "normalize_line_endings [] = []"
| "normalize_line_endings [c] = [c]"
| "normalize_line_endings (c # d # rest) =
     (if c = 13 \<and> d = 10 then 10 # normalize_line_endings rest else c # normalize_line_endings (d # rest))"

definition uses_crlf :: "ustring \<Rightarrow> bool" where
  "uses_crlf s \<longleftrightarrow> contains_text s [13, 10]"

definition convert_to_line_ending :: "ustring \<Rightarrow> bool \<Rightarrow> ustring" where
  "convert_to_line_ending s crlf = (if crlf then concat (map (\<lambda>c. if c = 10 then [13, 10] else [c]) s) else s)"

definition edited_content :: "ustring \<Rightarrow> ustring \<Rightarrow> ustring \<Rightarrow> bool \<Rightarrow> (edit_error + ustring) option" where
  "edited_content content old new all =
     (let crlf = uses_crlf content
      in replace_text content (convert_to_line_ending (normalize_line_endings old) crlf)
           (convert_to_line_ending (normalize_line_endings new) crlf) all)"

text \<open>
  \<open>EditTool.execute\<close> on a file system: creating a file when the old text is empty, otherwise
  rewriting an existing one whose read is fresh (\<open>FileTime.assert\<close>, a parameter). The path is
  absolute; the checks of the allowed directories are not modelled.
\<close>

definition execute_edit ::
  "(ustring \<Rightarrow> bool) \<Rightarrow> (ustring \<Rightarrow> ustring option) \<Rightarrow> ustring \<Rightarrow> ustring \<Rightarrow> ustring \<Rightarrow> bool
   \<Rightarrow> (edit_error + (ustring \<Rightarrow> ustring option)) option" where
  "execute_edit fresh fs path old new all =
     (if path = [] then Some (Inl MissingFilePath)
      else if old = new then Some (Inl NoChanges)
      else if old = [] then (if fs path \<noteq> None then Some (Inl TargetExists) else Some (Inr (fs(path := Some new))))
      else case fs path of
        None \<Rightarrow> Some (Inl FileMissing)
      | Some content \<Rightarrow>
          if \<not> fresh path then Some (Inl StaleRead)
          else (case edited_content content old new all of
              None \<Rightarrow> None
            | Some (Inl e) \<Rightarrow> Some (Inl e)
            | Some (Inr out) \<Rightarrow> Some (Inr (fs(path := Some out)))))"

definition diff_content_line :: "ustring \<Rightarrow> bool" where
  "diff_content_line l \<longleftrightarrow> l \<noteq> [] \<and> hd l \<in> {43, 45, 32} \<and> \<not> starts_with l [45, 45, 45] \<and> \<not> starts_with l [43, 43, 43]"

definition trim_diff :: "ustring \<Rightarrow> ustring" where
  "trim_diff diff =
     (let ls = split_lines diff; widths = map (\<lambda>l. length (takeWhile unit_space (tl l)))
            (filter (\<lambda>l. trim (tl l) \<noteq> []) (filter diff_content_line ls))
      in if widths = [] \<or> Min (set widths) = 0 then diff
         else join_lines (map (\<lambda>l. if diff_content_line l then hd l # drop (Min (set widths)) (tl l) else l) ls))"

section \<open>Lemmas\<close>

lemma occurs_at_bound: "occurs_at content search i \<Longrightarrow> i \<le> length content"
  by (simp add: occurs_at_def)

lemma index_from_None: "index_from content search start = None \<longleftrightarrow> (\<forall>i \<ge> start. \<not> occurs_at content search i)"
  unfolding index_from_def find_None_iff by (auto simp: less_Suc_eq_le simp del: upt_Suc dest: occurs_at_bound)

lemma index_from_least:
  assumes "index_from content search start = Some i" "start \<le> j" "j < i"
  shows "\<not> occurs_at content search j"
proof -
  obtain k where k: "k < length [start..<Suc (length content)]" "i = [start..<Suc (length content)] ! k"
    "\<forall>m < k. \<not> occurs_at content search ([start..<Suc (length content)] ! m)"
    using assms(1) unfolding index_from_def find_Some_iff by blast
  have "i = start + k" using k(1,2) by (simp del: upt_Suc)
  then have "j - start < k" "[start..<Suc (length content)] ! (j - start) = j"
    using assms(2,3) k(1) by (simp_all del: upt_Suc)
  with k(3) show ?thesis by metis
qed

lemma last_index_greatest:
  assumes "last_index content search = Some i" "i < j"
  shows "\<not> occurs_at content search j"
proof
  assume j: "occurs_at content search j"
  let ?r = "rev [0..<Suc (length content)]"
  obtain k where k: "k < length ?r" "i = ?r ! k" "\<forall>m < k. \<not> occurs_at content search (?r ! m)"
    using assms(1) unfolding last_index_def find_Some_iff by auto
  have jb: "j \<le> length content" using j by (rule occurs_at_bound)
  then have "?r ! (length content - j) = j" by (simp add: rev_nth del: upt_Suc)
  moreover have "i = length content - k" using k(1,2) by (simp add: rev_nth del: upt_Suc)
  then have "length content - j < k" using assms(2) jb k(1) by (simp del: upt_Suc)
  ultimately show False using k(3) j by metis
qed

lemma occurrences_set: "j \<in> set (occurrences content search) \<longleftrightarrow> occurs_at content search j"
  using occurs_at_bound [of content search j] by (auto simp: occurrences_def less_Suc_eq_le simp del: upt_Suc)

lemma unique_occurrence:
  assumes "index_from content search 0 = Some i" "last_index content search = Some i"
  shows "occurrences content search = [i]"
proof -
  have i: "occurs_at content search i" using index_from_Some [OF assms(1)] by simp
  have "set (occurrences content search) = {i}"
    using i index_from_least [OF assms(1)] last_index_greatest [OF assms(2)] occurs_at_bound
    by (auto simp: occurrences_def less_Suc_eq_le simp del: upt_Suc) (metis le0 linorder_neqE_nat)
  moreover have "distinct (occurrences content search)" by (simp add: occurrences_def del: upt_Suc)
  ultimately show ?thesis
    by (metis card.empty card_insert_disjoint distinct_card empty_iff finite.emptyI length_0_conv length_Suc_conv list.set_intros(1) singletonD)
qed

lemma try_candidates_single:
  "try_candidates content new False ss = (b, Some out) \<Longrightarrow>
    \<exists>s \<in> set ss. \<exists>i. index_from content s 0 = Some i \<and> last_index content s = Some i \<and> out = replace_first_at content s new i"
proof (induction ss arbitrary: b)
  case (Cons s ss)
  show ?case
  proof (cases "index_from content s 0")
    case None
    then show ?thesis using Cons by auto
  next
    case (Some i)
    then show ?thesis using Cons.prems Cons.IH [of "fst (try_candidates content new False ss)"]
      by (cases "try_candidates content new False ss") (auto split: if_splits)
  qed
qed simp

lemma try_candidates_hit:
  "index_from content s 0 = Some i \<Longrightarrow> all \<or> last_index content s = Some i \<Longrightarrow>
    try_candidates content new all (s # ss) =
      (True, Some (if all then replace_all content s new else replace_first_at content s new i))"
  by auto

lemma multi_occurrence_terminates:
  assumes "wanted \<noteq> []"
  shows "\<exists>n. multi_occurrence_replacer content wanted start = Some (replicate n wanted)"
proof (induction "Suc (length content) - start" arbitrary: start rule: less_induct)
  case less
  show ?case
  proof (cases "index_from content wanted start")
    case None
    then show ?thesis by (subst multi_occurrence_replacer.simps) (auto intro: exI [of _ 0])
  next
    case (Some i)
    then have "Suc (length content) - (i + length wanted) < Suc (length content) - start"
      using index_from_Some [OF Some] assms by (cases wanted) auto
    from less [OF this] obtain n where "multi_occurrence_replacer content wanted (i + length wanted) = Some (replicate n wanted)" ..
    then show ?thesis using Some by (subst multi_occurrence_replacer.simps) (auto intro: exI [of _ "Suc n"])
  qed
qed

lemma index_from_empty: "k \<le> length content \<Longrightarrow> index_from content [] k = Some k"
proof -
  assume k: "k \<le> length content"
  then have o: "occurs_at content [] k" by (simp add: occurs_at_def)
  then obtain a where a: "index_from content [] k = Some a" using index_from_None [of content "[]" k] by auto
  have "k \<le> a" using index_from_Some [OF a] by simp
  moreover have "\<not> k < a" using index_from_least [OF a order_refl] o by blast
  ultimately show ?thesis using a by simp
qed

text \<open>On an empty search text the generator yields for ever.\<close>

lemma multi_occurrence_diverges:
  assumes "start \<le> length content"
  shows "multi_occurrence_replacer content [] start = None"
proof -
  have "\<not> (wanted = [] \<and> start \<le> length content)" if "multi_occurrence_replacer content wanted start = Some r"
    for content wanted start r
  proof (rule multi_occurrence_replacer.raw_induct [where P = "\<lambda>content wanted start r. \<not> (wanted = [] \<and> start \<le> length content)", OF _ that])
    fix f content wanted start r
    assume IH: "\<And>content wanted start r. f content wanted start = Some r \<Longrightarrow> \<not> (wanted = [] \<and> start \<le> length content)"
      and body: "(case index_from content wanted start of None \<Rightarrow> Some []
        | Some i \<Rightarrow> Option.bind (f content wanted (i + length wanted)) (\<lambda>rest. Some (wanted # rest))) = Some r"
    show "\<not> (wanted = [] \<and> start \<le> length content)"
    proof
      assume e: "wanted = [] \<and> start \<le> length content"
      then obtain q where "f content wanted start = Some q" using body by (auto simp: index_from_empty bind_eq_Some_conv)
      from IH [OF this] e show False by simp
    qed
  qed
  then show ?thesis using assms by (cases "multi_occurrence_replacer content [] start") auto
qed

section \<open>Replacing every occurrence\<close>

text \<open>The specification: scan from the left and put the new text for each occurrence.\<close>

function replace_each :: "ustring \<Rightarrow> ustring \<Rightarrow> ustring \<Rightarrow> ustring" where
  "replace_each s search new =
     (if s = [] then []
      else if search \<noteq> [] \<and> starts_with s search then new @ replace_each (drop (length search) s) search new
      else hd s # replace_each (tl s) search new)"
  by pat_completeness auto

termination
  by (relation "measure (\<lambda>(s, _, _). length s)") auto

declare replace_each.simps [simp del]

lemma expand_plain: "36 \<notin> set new \<Longrightarrow> expand_replacement content search p new = new"
  by (induction content search p new rule: expand_replacement.induct) auto

lemma occurs_at_starts_with: "i \<le> length content \<Longrightarrow> occurs_at content search i \<longleftrightarrow> starts_with (drop i content) search"
proof -
  assume i: "i \<le> length content"
  have "length search \<le> length content - i" if "take (length search) (drop i content) = search"
    using arg_cong [OF that, of length] by simp
  then show ?thesis using i by (auto simp: occurs_at_def starts_with_def)
qed

lemma replace_each_skip:
  assumes "\<forall>k. i \<le> k \<and> k < j \<longrightarrow> \<not> occurs_at content search k" "i \<le> j" "j \<le> length content" "search \<noteq> []"
  shows "replace_each (drop i content) search new = substring content i j @ replace_each (drop j content) search new"
  using assms(2,1)
proof (induction "j - i" arbitrary: i)
  case 0
  then show ?case by (simp add: substring_def)
next
  case (Suc n)
  then have i: "i < j" "\<not> starts_with (drop i content) search" "i < length content"
    using assms(3) by (auto simp flip: occurs_at_starts_with)
  have IH: "replace_each (drop (Suc i) content) search new = substring content (Suc i) j @ replace_each (drop j content) search new"
    using Suc.hyps(2) i(1) Suc.prems(2) by (intro Suc.hyps(1)) auto
  have "replace_each (drop i content) search new = content ! i # replace_each (drop (Suc i) content) search new"
    using i by (subst replace_each.simps) (simp add: hd_drop_conv_nth drop_Suc tl_drop)
  moreover have "content ! i # substring content (Suc i) j = substring content i j"
  proof -
    have "j - i = Suc (j - Suc i)" using i(1) by simp
    then show ?thesis using i(3) by (simp add: substring_def flip: Cons_nth_drop_Suc)
  qed
  ultimately show ?case using IH by (metis append_Cons)
qed

lemma replace_at_positions_each:
  assumes "36 \<notin> set new"
  shows "from \<le> length content \<Longrightarrow> search \<noteq> [] \<Longrightarrow>
    replace_at_positions content search new from (match_positions content search from) = replace_each (drop from content) search new"
proof (induction content search "from" rule: match_positions.induct)
  case (1 content search start)
  show ?case
  proof (cases "index_from content search start")
    case None
    then have "\<forall>k. start \<le> k \<and> k < length content \<longrightarrow> \<not> occurs_at content search k" by (simp add: index_from_None)
    from replace_each_skip [OF this "1.prems"(1) order_refl "1.prems"(2)]
    have "replace_each (drop start content) search new = drop start content"
      by (simp add: substring_def replace_each.simps)
    then show ?thesis using None by (simp add: match_positions.simps)
  next
    case (Some p)
    note p = index_from_Some [OF Some]
    have fits: "p + length search \<le> length content" using p by (simp add: occurs_at_def)
    have "\<forall>k. start \<le> k \<and> k < p \<longrightarrow> \<not> occurs_at content search k" using index_from_least [OF Some] by blast
    from replace_each_skip [OF this _ _ "1.prems"(2)] p
    have "replace_each (drop start content) search new = substring content start p @ replace_each (drop p content) search new" by blast
    moreover have "starts_with (drop p content) search" using p occurs_at_starts_with [of p content search] by blast
    then have "replace_each (drop p content) search new = new @ replace_each (drop (p + length search) content) search new"
      using "1.prems"(2) by (subst replace_each.simps) (auto simp: starts_with_def add.commute)
    moreover have "max 1 (length search) = length search" using "1.prems"(2) by (cases search) auto
    ultimately show ?thesis using "1.IH" [OF Some] fits "1.prems" Some assms
      by (simp add: match_positions.simps [of content search start] expand_plain)
  qed
qed

lemma replace_all_each: "search \<noteq> [] \<Longrightarrow> 36 \<notin> set new \<Longrightarrow> replace_all content search new = replace_each content search new"
  using replace_at_positions_each [of new 0 content search] by (simp add: replace_all_def)

section \<open>Properties\<close>

text \<open>The only occurrence of a text is both the first and the last one.\<close>

lemma single_occurrence:
  assumes "occurrences content s = [k]"
  shows "index_from content s 0 = Some k" "last_index content s = Some k"
proof -
  have at: "occurs_at content s j \<longleftrightarrow> j = k" for j using occurrences_set [of j content s] assms by simp
  show "index_from content s 0 = Some k"
  proof (cases "index_from content s 0")
    case None
    then show ?thesis using at by (simp add: index_from_None)
  next
    case (Some a)
    then show ?thesis using index_from_Some [OF Some] at by simp
  qed
  show "last_index content s = Some k"
  proof (cases "last_index content s")
    case None
    then show ?thesis using at occurs_at_bound [of content s k]
      by (auto simp: last_index_def find_None_iff less_Suc_eq_le simp del: upt_Suc)
  next
    case (Some a)
    then show ?thesis using at by (auto simp: last_index_def find_Some_iff simp del: upt_Suc)
  qed
qed

text \<open>The candidates of a successful edit start with the old text itself.\<close>

lemma single_edit_candidates:
  assumes "replace_text content old new False = Some (Inr out)"
  shows "\<exists>b rest. try_candidates content new False (old # rest) = (b, Some out)"
proof -
  let ?cs = "concat (map (\<lambda>r. r content old) finite_replacers)"
  have cs: "\<exists>rest. ?cs = old # rest" by (simp add: finite_replacers_def simple_replacer_def)
  obtain f r where fr: "try_candidates content new False ?cs = (f, r)" by fastforce
  show ?thesis
  proof (cases r)
    case (Some o')
    then show ?thesis using assms fr cs by (auto simp: replace_text_def simp del: try_candidates.simps split: if_splits)
  next
    case None
    then obtain ms where ms: "multi_occurrence_replacer content old 0 = Some ms" "snd (try_candidates content new False ms) = Some out"
      using assms fr by (auto simp: replace_text_def split: if_splits option.splits prod.splits)
    have "old \<noteq> []" using ms(1) multi_occurrence_diverges [of 0 content] by auto
    from multi_occurrence_terminates [OF this, of content 0] ms(1) obtain n where n: "ms = replicate n old" by auto
    with ms(2) have "\<exists>rest. ms = old # rest" by (cases n) auto
    then show ?thesis using ms(2) by (metis prod.collapse)
  qed
qed

text \<open>
  C0: a single edit changes exactly one place. When \<open>replace\<close> without \<open>replaceAll\<close> returns a
  text, that text is the file with one region replaced by the new text, the replaced region's
  text occurs nowhere else in the file, and if the old text itself occurs exactly once then it
  is that region.
\<close>

theorem edit_replaces_unique_region:
  assumes "replace_text content old new False = Some (Inr out)"
  shows "\<exists>s i. occurrences content s = [i] \<and> out = take i content @ new @ drop (i + length s) content
    \<and> (length (occurrences content old) = 1 \<longrightarrow> s = old)"
proof -
  obtain b rest where ss: "try_candidates content new False (old # rest) = (b, Some out)"
    using single_edit_candidates [OF assms] by blast
  from try_candidates_single [OF ss] obtain s i where
    s: "index_from content s 0 = Some i" "last_index content s = Some i" "out = replace_first_at content s new i" by blast
  have one: "occurrences content s = [i]" by (rule unique_occurrence [OF s(1,2)])
  show ?thesis
  proof (cases "length (occurrences content old) = 1")
    case False
    then show ?thesis using one s(3) by (auto simp: replace_first_at_def)
  next
    case True
    then obtain k where k: "occurrences content old = [k]" by (cases "occurrences content old") auto
    have "out = replace_first_at content old new k"
      using ss try_candidates_hit [OF single_occurrence(1) [OF k], of False new rest] single_occurrence(2) [OF k] by simp
    then show ?thesis using k by (auto simp: replace_first_at_def)
  qed
qed

text \<open>
  C0: \<open>replace\<close> returns on every non-empty old text, whatever the file; on an empty one (which
  the tool treats as a file creation and never passes on) it may run for ever.
\<close>

theorem edit_replace_returns:
  "(old \<noteq> [] \<longrightarrow> (\<exists>r. replace_text content old new all = Some r)) \<and> replace_text (lit ''ab'') [] (lit ''x'') False = None"
proof
  show "old \<noteq> [] \<longrightarrow> (\<exists>r. replace_text content old new all = Some r)"
  proof
    assume "old \<noteq> []"
    from multi_occurrence_terminates [OF this, of content 0] show "\<exists>r. replace_text content old new all = Some r"
      by (auto simp: replace_text_def split: prod.split option.split)
  qed
  have "try_candidates (lit ''ab'') (lit ''x'') False (concat (map (\<lambda>r. r (lit ''ab'') []) finite_replacers)) = (True, None)"
    by code_simp
  then show "replace_text (lit ''ab'') [] (lit ''x'') False = None"
    by (simp add: replace_text_def multi_occurrence_diverges lit_def)
qed

text \<open>
  C0: with \<open>replaceAll\<close>, an old text that occurs in the file and a new text without a dollar
  sign, the result is the left-to-right replacement of every occurrence.
\<close>

theorem edit_replaces_every_occurrence:
  assumes "contains_text content old" "old \<noteq> []" "old \<noteq> new" "36 \<notin> set new"
  shows "replace_text content old new True = Some (Inr (replace_each content old new))"
proof -
  obtain i where i: "index_from content old 0 = Some i" using assms(1) by (auto simp: contains_text_def)
  have "concat (map (\<lambda>r. r content old) finite_replacers) = old # concat (map (\<lambda>r. r content old) (tl finite_replacers))"
    by (simp add: finite_replacers_def simple_replacer_def)
  then show ?thesis using assms try_candidates_hit [OF i, of True] by (simp add: replace_text_def replace_all_each)
qed

text \<open>
  C0: \<open>replaceAll\<close> is not literal. A dollar pair in the new text becomes one dollar sign, although
  a single edit inserts it as it is; and an old text of white space that is not in the file, but
  equals a blank line up to trimming, inserts the new text before every character.
\<close>

theorem replace_all_is_not_literal:
  "replace_text (lit ''a'') (lit ''a'') (lit ''$$'') True = Some (Inr (lit ''$''))
   \<and> replace_text (lit ''a'') (lit ''a'') (lit ''$$'') False = Some (Inr (lit ''$$''))
   \<and> replace_text (lit ''ab'' @ [10, 10] @ lit ''c'') [9, 10] (lit ''X'') True
       = Some (Inr (lit ''XaXbX'' @ [10] @ lit ''X'' @ [10] @ lit ''XcX''))"
proof (intro conjI)
  show "replace_text (lit ''a'') (lit ''a'') (lit ''$$'') True = Some (Inr (lit ''$''))" by code_simp
  show "replace_text (lit ''a'') (lit ''a'') (lit ''$$'') False = Some (Inr (lit ''$$''))" by code_simp
  show "replace_text (lit ''ab'' @ [10, 10] @ lit ''c'') [9, 10] (lit ''X'') True
       = Some (Inr (lit ''XaXbX'' @ [10] @ lit ''X'' @ [10] @ lit ''XcX''))" by code_simp
qed

text \<open>The only line of the file that equals the old text up to indentation is the one replaced.\<close>

theorem edit_replaces_unique_region_witness:
  "occurrences (lit ''if x:'' @ [10] @ lit ''  y'') (lit ''  y'') = [6]
   \<and> replace_text (lit ''if x:'' @ [10] @ lit ''  y'') (lit ''    y'') (lit '' z'') False
       = Some (Inr (take 6 (lit ''if x:'' @ [10] @ lit ''  y'') @ lit '' z''))"
proof -
  let ?c = "lit ''if x:'' @ [10] @ lit ''  y''"
  have r: "replace_text ?c (lit ''    y'') (lit '' z'') False = Some (Inr (lit ''if x:'' @ [10] @ lit '' z''))" by code_simp
  from edit_replaces_unique_region [OF r] obtain s i where
    "occurrences ?c s = [i]" "lit ''if x:'' @ [10] @ lit '' z'' = take i ?c @ lit '' z'' @ drop (i + length s) ?c" by blast
  moreover have "occurrences ?c (lit ''  y'') = [6]" by code_simp
  moreover have "lit ''if x:'' @ [10] @ lit '' z'' = take 6 ?c @ lit '' z''" by code_simp
  ultimately show ?thesis using r by simp
qed

theorem edit_replace_returns_witness:
  "\<exists>r. replace_text (lit ''a b'') (lit ''b'') [] False = Some r"
proof -
  have "lit ''b'' \<noteq> []" by (simp add: lit_def)
  then show ?thesis using edit_replace_returns by blast
qed

theorem edit_replaces_every_occurrence_witness:
  "replace_text (lit ''aaba'') (lit ''a'') (lit ''xy'') True = Some (Inr (lit ''xyxybxy''))"
proof -
  have "contains_text (lit ''aaba'') (lit ''a'')" "lit ''a'' \<noteq> []" "lit ''a'' \<noteq> lit ''xy''" "36 \<notin> set (lit ''xy'')" by code_simp+
  from edit_replaces_every_occurrence [OF this] show ?thesis by (simp add: lit_def replace_each.simps starts_with_def)
qed

end
