(* ===== verification/ControlDriver.thy ===== *)
theory ControlDriver
  imports Prelude
begin

text \<open>
  The liveness owner of the Task control plane (\<open>engine/task-control-driver.ts\<close>): it turns
  requests, timers and the heartbeat into scans of Tasks, at most one per Task and at most
  \<open>maximumConcurrentScans\<close> at a time. JavaScript runs each piece between two \<open>await\<close>s to its
  end, so a history is a sequence of such pieces, in any order the event loop may choose: a
  request, the return of a scan, the release of a slot, the resumption of a promised slot, a
  timer, a re-entry. Every piece reads the clock once. Entries are objects that closures keep
  after the table has dropped them, so they live in a heap. The input revision, the outcome of a
  scan and whether the Project can be re-entered come from outside: they are arguments of the
  piece that reads them.
\<close>

section \<open>State\<close>

record driver_options =
  max_passes :: int
  minimum_wake_delay :: int
  maximum_wake_delay :: int
  initial_backoff :: int
  maximum_backoff :: int
  heartbeat_delay :: int
  maximum_scans :: int
  maximum_pending :: int
  retire_settled :: bool
  reads_revision :: bool

definition valid_options :: "driver_options \<Rightarrow> bool" where
  "valid_options c \<longleftrightarrow> \<not> (\<not> is_safe_integer (JInt (max_passes c)) \<or> max_passes c \<le> 0
     \<or> minimum_wake_delay c \<le> 0 \<or> maximum_wake_delay c < minimum_wake_delay c
     \<or> initial_backoff c \<le> 0 \<or> maximum_backoff c < initial_backoff c
     \<or> heartbeat_delay c \<le> 0
     \<or> \<not> is_safe_integer (JInt (maximum_scans c)) \<or> maximum_scans c \<le> 0
     \<or> \<not> is_safe_integer (JInt (maximum_pending c)) \<or> maximum_pending c \<le> 0)"

record driver_entry =
  ent_task :: string
  revision :: int
  running :: bool
  timer_at :: "int option"
  failures :: int
  last_fault :: "int option"
  retry_not_before :: "int option"
  input_revision :: "string option"

text \<open>
  Where the asynchronous owner of an entry is: waiting for the promise of a slot, resumed with
  the promise's answer but not yet run, or awaiting the scan of a pass (with the revision it
  observed and the wake instants reported so far).
\<close>

datatype owner_phase = AwaitingSlot | SlotAdmitted | SlotRefused | Scanning int int "int list"

record scan_owner =
  own_phase :: owner_phase
  own_activated :: int
  own_failed :: bool
  own_propagate :: bool

record driver =
  entry_table :: "string \<Rightarrow> nat option"
  entry_heap :: "nat \<Rightarrow> driver_entry"
  next_entry :: nat
  owners :: "nat \<Rightarrow> scan_owner option"
  active_scans :: int
  releasing :: nat
  scan_waiters :: "nat list"
  rearms :: "(string \<times> nat) list"
  disposed :: bool

datatype admission = Admitted | Coalesced | Rejected

datatype driver_event = Answered string admission | Began string | Completed string int bool | Dropped string

datatype revision_read = ReadRevision string | ReadFault

datatype scan_outcome = ScanFault | ScanResult int "int option" bool

definition blank_entry :: "string \<Rightarrow> driver_entry" where
  "blank_entry t = \<lparr>ent_task = t, revision = 0, running = False, timer_at = None, failures = 0,
     last_fault = None, retry_not_before = None, input_revision = None\<rparr>"

definition new_driver :: driver where
  "new_driver = \<lparr>entry_table = (\<lambda>_. None), entry_heap = (\<lambda>_. blank_entry []), next_entry = 0, owners = (\<lambda>_. None),
     active_scans = 0, releasing = 0, scan_waiters = [], rearms = [], disposed = False\<rparr>"

definition upd_entry :: "nat \<Rightarrow> (driver_entry \<Rightarrow> driver_entry) \<Rightarrow> driver \<Rightarrow> driver" where
  "upd_entry a f d = d\<lparr>entry_heap := (entry_heap d)(a := f (entry_heap d a))\<rparr>"

definition set_owner :: "nat \<Rightarrow> scan_owner option \<Rightarrow> driver \<Rightarrow> driver" where
  "set_owner a o' d = d\<lparr>owners := (owners d)(a := o')\<rparr>"

section \<open>Pacing\<close>

definition penalty :: "driver_options \<Rightarrow> int \<Rightarrow> int list \<Rightarrow> driver_entry \<Rightarrow> int" where
  "penalty c now wakes e =
     foldl (\<lambda>deadline i. if i > now then min deadline i else deadline)
       (now + min (initial_backoff c * 2 ^ nat (min (failures e) 30)) (maximum_backoff c)) wakes"

definition penalize :: "driver_options \<Rightarrow> int \<Rightarrow> int list \<Rightarrow> driver_entry \<Rightarrow> driver_entry" where
  "penalize c now wakes e = e\<lparr>failures := failures e + 1, last_fault := Some now,
     retry_not_before := Some (penalty c now wakes e)\<rparr>"

definition decay_failures :: "driver_options \<Rightarrow> int \<Rightarrow> driver_entry \<Rightarrow> driver_entry" where
  "decay_failures c now e =
     (if failures e = 0 then e
      else if (case last_fault e of None \<Rightarrow> False | Some f \<Rightarrow> now - f < maximum_backoff c) then e
      else e\<lparr>failures := 0, last_fault := None\<rparr>)"

definition arm_entry :: "driver_options \<Rightarrow> bool \<Rightarrow> int option \<Rightarrow> int \<Rightarrow> driver_entry \<Rightarrow> driver_entry" where
  "arm_entry c gone wake now e = e\<lparr>timer_at :=
     (if gone then None
      else map_option (\<lambda>w. now + max (min (max (w - now) (minimum_wake_delay c)) (maximum_wake_delay c))
             ((case retry_not_before e of None \<Rightarrow> 0 | Some r \<Rightarrow> r) - now)) wake)\<rparr>"

definition earliest :: "int list \<Rightarrow> int option" where
  "earliest ws = (case ws of [] \<Rightarrow> None | w # rest \<Rightarrow> Some (foldl min w rest))"

definition read_revision ::
  "driver_options \<Rightarrow> revision_read \<Rightarrow> driver_entry \<Rightarrow> driver_entry \<times> string option option" where
  "read_revision c r e =
     (if \<not> reads_revision c then (e, Some None)
      else case r of ReadRevision v \<Rightarrow> (e, Some (Some v)) | ReadFault \<Rightarrow> (e\<lparr>input_revision := None\<rparr>, None))"

definition changed_after_scan ::
  "driver_options \<Rightarrow> revision_read \<Rightarrow> driver_entry \<Rightarrow> driver_entry \<times> bool" where
  "changed_after_scan c r e =
     (if \<not> reads_revision c \<or> input_revision e = None then (e, False)
      else case read_revision c r e of (e1, None) \<Rightarrow> (e1, False) | (e1, Some v) \<Rightarrow> (e1, v \<noteq> input_revision e))"

section \<open>Owning a scan\<close>

definition retire_entry :: "driver_options \<Rightarrow> nat \<Rightarrow> driver \<Rightarrow> driver" where
  "retire_entry c a d =
     (if retire_settled c \<and> timer_at (entry_heap d a) = None
      then d\<lparr>entry_table := (entry_table d)(ent_task (entry_heap d a) := None)\<rparr> else d)"

text \<open>The end of \<open>own\<close>; the release of the slot follows in a later piece.\<close>

definition finish_scan :: "driver_options \<Rightarrow> nat \<Rightarrow> int list \<Rightarrow> int \<Rightarrow> int \<Rightarrow> bool \<Rightarrow> driver \<Rightarrow> driver \<times> driver_event list" where
  "finish_scan c a wakes now activated failed d =
     (let d1 = upd_entry a (\<lambda>e. arm_entry c (disposed d) (earliest wakes) now (e\<lparr>running := False\<rparr>)) d;
          d2 = set_owner a None (retire_entry c a d1)
      in (d2\<lparr>releasing := Suc (releasing d2)\<rparr>, [Completed (ent_task (entry_heap d a)) activated failed]))"

text \<open>
  One turn of the loop up to its \<open>await\<close>: observe the revision, forgive old failures, read the
  input revision. A read that throws ends the loop like a scan that throws.
\<close>

definition begin_pass ::
  "driver_options \<Rightarrow> nat \<Rightarrow> int \<Rightarrow> int list \<Rightarrow> int \<Rightarrow> bool \<Rightarrow> bool \<Rightarrow> int \<Rightarrow> revision_read \<Rightarrow> driver
   \<Rightarrow> driver \<times> driver_event list" where
  "begin_pass c a pass wakes activated failed propagate now start d =
     (let e0 = decay_failures c now (entry_heap d a)
      in case read_revision c start e0 of
           (e1, None) \<Rightarrow>
             finish_scan c a (wakes @ [penalty c now wakes e1]) now activated (failed \<or> pass = 0 \<and> propagate)
               (upd_entry a (\<lambda>_. penalize c now wakes e1) d)
         | (e1, Some v) \<Rightarrow>
             (set_owner a (Some \<lparr>own_phase = Scanning pass (revision e1) wakes, own_activated = activated,
                 own_failed = failed, own_propagate = propagate\<rparr>)
               (upd_entry a (\<lambda>_. e1\<lparr>input_revision := v\<rparr>) d), [Began (ent_task e1)]))"

definition scan_returned ::
  "driver_options \<Rightarrow> nat \<Rightarrow> scan_outcome \<Rightarrow> int \<Rightarrow> revision_read \<Rightarrow> revision_read \<Rightarrow> driver \<Rightarrow> driver \<times> driver_event list" where
  "scan_returned c a outcome now probe start d =
     (case owners d a of None \<Rightarrow> (d, []) | Some ow \<Rightarrow>
      case own_phase ow of
        Scanning pass observed wakes \<Rightarrow>
          (let e = entry_heap d a in
           case outcome of
             ScanFault \<Rightarrow>
               (let retry = penalty c now wakes e; e1 = penalize c now wakes e;
                    failed = (own_failed ow \<or> pass = 0 \<and> own_propagate ow);
                    (e2, changed) = (if pass + 1 < max_passes c then changed_after_scan c probe e1 else (e1, False))
                in if changed
                   then begin_pass c a (pass + 1) wakes (own_activated ow) failed (own_propagate ow) now start
                          (upd_entry a (\<lambda>_. e2\<lparr>retry_not_before := None\<rparr>) d)
                   else finish_scan c a (wakes @ [retry]) now (own_activated ow) failed (upd_entry a (\<lambda>_. e2) d))
           | ScanResult n wake no_progress \<Rightarrow>
               (let activated = own_activated ow + n;
                    wakes1 = wakes @ (case wake of None \<Rightarrow> [] | Some w \<Rightarrow> [w]);
                    again = begin_pass c a (pass + 1) wakes1 activated (own_failed ow) (own_propagate ow) now start;
                    paced = (\<lambda>e'. finish_scan c a (wakes1 @ [penalty c now wakes1 e']) now activated (own_failed ow)
                               (upd_entry a (\<lambda>_. penalize c now wakes1 e') d))
                in if no_progress
                   then (let (e2, changed) = (if pass + 1 < max_passes c then changed_after_scan c probe e else (e, False))
                         in if changed then again (upd_entry a (\<lambda>_. e2) d) else paced e2)
                   else if revision e = observed then finish_scan c a wakes1 now activated (own_failed ow) d
                   else if pass + 1 = max_passes c then paced e
                   else again d))
      | _ \<Rightarrow> (d, []))"

section \<open>Requests and slots\<close>

definition entry_of :: "string \<Rightarrow> driver \<Rightarrow> driver \<times> nat" where
  "entry_of t d =
     (case entry_table d t of Some a \<Rightarrow> (d, a)
      | None \<Rightarrow> (d\<lparr>entry_table := (entry_table d)(t := Some (next_entry d)),
             entry_heap := (entry_heap d)(next_entry d := blank_entry t), next_entry := Suc (next_entry d)\<rparr>, next_entry d))"

definition waiting_owner :: "owner_phase \<Rightarrow> bool \<Rightarrow> scan_owner" where
  "waiting_owner p propagate = \<lparr>own_phase = p, own_activated = 0, own_failed = False, own_propagate = propagate\<rparr>"

definition admit_request ::
  "driver_options \<Rightarrow> nat \<Rightarrow> bool \<Rightarrow> int \<Rightarrow> revision_read \<Rightarrow> driver \<Rightarrow> driver \<times> driver_event list" where
  "admit_request c a propagate now start d =
     (let t = ent_task (entry_heap d a);
          d1 = upd_entry a (\<lambda>e. e\<lparr>retry_not_before := None, running := True\<rparr>) d
      in if active_scans d1 < maximum_scans c
         then (let (d2, evs) = begin_pass c a 0 [] 0 False propagate now start
                     (set_owner a (Some (waiting_owner SlotAdmitted propagate)) (d1\<lparr>active_scans := active_scans d1 + 1\<rparr>))
               in (d2, Answered t Admitted # evs))
         else if int (length (scan_waiters d1)) \<ge> maximum_pending c
         then (retire_entry c a (upd_entry a (\<lambda>e. e\<lparr>running := False\<rparr>) d1), [Answered t Rejected])
         else (set_owner a (Some (waiting_owner AwaitingSlot propagate)) (d1\<lparr>scan_waiters := scan_waiters d1 @ [a]\<rparr>),
               [Answered t Admitted]))"

definition retry_held :: "int \<Rightarrow> driver_entry \<Rightarrow> bool" where
  "retry_held now e \<longleftrightarrow> (case retry_not_before e of None \<Rightarrow> False | Some r \<Rightarrow> now < r)"

text \<open>The revision a request sees: an entry whose revision was unreadable is not read again before its retry.\<close>

definition requested_revision ::
  "driver_options \<Rightarrow> int \<Rightarrow> revision_read \<Rightarrow> driver_entry \<Rightarrow> driver_entry \<times> string option option" where
  "requested_revision c now req e =
     (if reads_revision c \<and> input_revision e = None \<and> retry_held now e then (e, Some (input_revision e))
      else read_revision c req e)"

definition request_idle ::
  "driver_options \<Rightarrow> nat \<Rightarrow> bool \<Rightarrow> int \<Rightarrow> revision_read \<Rightarrow> revision_read \<Rightarrow> driver \<Rightarrow> driver \<times> driver_event list" where
  "request_idle c a propagate now req start d =
     (case requested_revision c now req (entry_heap d a) of
        (e, None) \<Rightarrow>
          (upd_entry a (\<lambda>_. arm_entry c False (Some (penalty c now [] e)) now (penalize c now [] e)) d,
           [Answered (ent_task e) Admitted, Completed (ent_task e) 0 propagate])
      | (e, Some v) \<Rightarrow>
          (let e1 = (if v \<noteq> input_revision e then e\<lparr>retry_not_before := None\<rparr> else e)
           in if retry_held now e1
              then (upd_entry a (\<lambda>_. arm_entry c False (retry_not_before e1) now e1) d, [Answered (ent_task e) Coalesced])
              else admit_request c a propagate now start (upd_entry a (\<lambda>_. e1) d)))"

definition start_request ::
  "driver_options \<Rightarrow> string \<Rightarrow> bool \<Rightarrow> int \<Rightarrow> revision_read \<Rightarrow> revision_read \<Rightarrow> driver \<Rightarrow> driver \<times> driver_event list" where
  "start_request c t propagate now req start d0 =
     (if disposed d0 then (d0, [Answered t Rejected])
      else let (d1, a) = entry_of t d0; d = upd_entry a (\<lambda>e. e\<lparr>revision := revision e + 1\<rparr>) d1
           in if running (entry_heap d a) then (d, [Answered t Coalesced])
              else request_idle c a propagate now req start d)"

text \<open>\<open>releaseScanSlot\<close>, run when a finished owner's \<open>finally\<close> is reached.\<close>

fun admit_next :: "nat list \<Rightarrow> driver \<Rightarrow> driver" where
  "admit_next [] d = d\<lparr>scan_waiters := []\<rparr>"
| "admit_next (a # rest) d =
     (let resolve = (\<lambda>p d. set_owner a (map_option (\<lambda>ow. ow\<lparr>own_phase := p\<rparr>) (owners d a)) d)
      in if disposed d then admit_next rest (resolve SlotRefused d)
         else resolve SlotAdmitted (d\<lparr>scan_waiters := rest, active_scans := active_scans d + 1\<rparr>))"

definition release_slot :: "driver \<Rightarrow> driver" where
  "release_slot d = (if releasing d = 0 then d
     else admit_next (scan_waiters d) (d\<lparr>releasing := releasing d - 1, active_scans := active_scans d - 1\<rparr>))"

text \<open>The continuation of a promised slot.\<close>

definition slot_resolved ::
  "driver_options \<Rightarrow> nat \<Rightarrow> int \<Rightarrow> revision_read \<Rightarrow> driver \<Rightarrow> driver \<times> driver_event list" where
  "slot_resolved c a now start d =
     (case owners d a of None \<Rightarrow> (d, []) | Some ow \<Rightarrow>
      case own_phase ow of
        SlotAdmitted \<Rightarrow> begin_pass c a 0 [] 0 False (own_propagate ow) now start d
      | SlotRefused \<Rightarrow>
          (set_owner a None (retire_entry c a (upd_entry a (\<lambda>e. e\<lparr>running := False\<rparr>) d)),
           [Completed (ent_task (entry_heap d a)) 0 False])
      | _ \<Rightarrow> (d, []))"

section \<open>Timers and disposal\<close>

definition timer_fired :: "nat \<Rightarrow> driver \<Rightarrow> driver" where
  "timer_fired a d =
     (case timer_at (entry_heap d a) of None \<Rightarrow> d
      | Some _ \<Rightarrow> (upd_entry a (\<lambda>e. e\<lparr>timer_at := None\<rparr>) d)\<lparr>rearms := rearms d @ [(ent_task (entry_heap d a), a)]\<rparr>)"

text \<open>
  The re-entry of a fired timer: it runs the request, it throws, or the closing Project declines
  it. Nobody looks at the answer of the request, so a demand that it rejects is \<open>Dropped\<close>.
\<close>

definition rearm_runs ::
  "driver_options \<Rightarrow> string \<Rightarrow> nat \<Rightarrow> int \<Rightarrow> revision_read \<Rightarrow> revision_read \<Rightarrow> driver \<Rightarrow> driver \<times> driver_event list" where
  "rearm_runs c t a now req start d =
     (if (t, a) \<notin> set (rearms d) then (d, [])
      else let (d1, evs) = start_request c t False now req start (d\<lparr>rearms := remove1 (t, a) (rearms d)\<rparr>)
           in (d1, evs @ (if Answered t Rejected \<in> set evs then [Dropped t] else [])))"

definition rearm_fails :: "driver_options \<Rightarrow> string \<Rightarrow> nat \<Rightarrow> int \<Rightarrow> driver \<Rightarrow> driver \<times> driver_event list" where
  "rearm_fails c t a now d =
     (if (t, a) \<notin> set (rearms d) then (d, [])
      else let d1 = d\<lparr>rearms := remove1 (t, a) (rearms d)\<rparr>
           in if disposed d \<or> entry_table d t \<noteq> Some a then (d1, [Dropped t])
              else (upd_entry a (\<lambda>e. arm_entry c False (Some (penalty c now [] e)) now (penalize c now [] e)) d1, []))"

definition rearm_declined :: "string \<Rightarrow> nat \<Rightarrow> driver \<Rightarrow> driver \<times> driver_event list" where
  "rearm_declined t a d =
     (if (t, a) \<notin> set (rearms d) then (d, []) else (d\<lparr>rearms := remove1 (t, a) (rearms d)\<rparr>, [Dropped t]))"

definition dispose_driver :: "driver \<Rightarrow> driver" where
  "dispose_driver d = d\<lparr>disposed := True,
     owners := (\<lambda>a. if a \<in> set (scan_waiters d) then map_option (\<lambda>ow. ow\<lparr>own_phase := SlotRefused\<rparr>) (owners d a) else owners d a),
     scan_waiters := [],
     entry_heap := (\<lambda>a. if entry_table d (ent_task (entry_heap d a)) = Some a
                        then (entry_heap d a)\<lparr>timer_at := None\<rparr> else entry_heap d a),
     entry_table := (\<lambda>_. None)\<rparr>"

datatype driver_op =
    Request string bool int revision_read revision_read
  | ScanReturns nat scan_outcome int revision_read revision_read
  | ReleaseSlot
  | ResumeSlot nat int revision_read
  | FireTimer nat
  | RearmRuns string nat int revision_read revision_read
  | RearmFails string nat int
  | RearmDeclined string nat
  | DisposeDriver

fun driver_piece :: "driver_options \<Rightarrow> driver \<Rightarrow> driver_op \<Rightarrow> driver \<times> driver_event list" where
  "driver_piece c d (Request t propagate now req start) = start_request c t propagate now req start d"
| "driver_piece c d (ScanReturns a outcome now probe start) = scan_returned c a outcome now probe start d"
| "driver_piece c d ReleaseSlot = (release_slot d, [])"
| "driver_piece c d (ResumeSlot a now start) = slot_resolved c a now start d"
| "driver_piece c d (FireTimer a) = (timer_fired a d, [])"
| "driver_piece c d (RearmRuns t a now req start) = rearm_runs c t a now req start d"
| "driver_piece c d (RearmFails t a now) = rearm_fails c t a now d"
| "driver_piece c d (RearmDeclined t a) = rearm_declined t a d"
| "driver_piece c d DisposeDriver = (dispose_driver d, [])"

text \<open>A history: the driver and everything it has answered and begun so far.\<close>

fun driver_step :: "driver_options \<Rightarrow> driver \<times> driver_event list \<Rightarrow> driver_op \<Rightarrow> driver \<times> driver_event list" where
  "driver_step c (d, log) op = (case driver_piece c d op of (d1, evs) \<Rightarrow> (d1, log @ evs))"

section \<open>The invariant\<close>

definition holds_slot :: "driver \<Rightarrow> nat \<Rightarrow> bool" where
  "holds_slot d a \<longleftrightarrow> (\<exists>ow. owners d a = Some ow \<and> own_phase ow \<noteq> AwaitingSlot \<and> own_phase ow \<noteq> SlotRefused)"

definition awaits_slot :: "driver \<Rightarrow> nat \<Rightarrow> bool" where
  "awaits_slot d a \<longleftrightarrow> (\<exists>ow. owners d a = Some ow \<and> own_phase ow = AwaitingSlot)"

definition observed_ok :: "driver_entry \<Rightarrow> owner_phase \<Rightarrow> bool" where
  "observed_ok e p \<longleftrightarrow> (case p of Scanning _ observed _ \<Rightarrow> observed \<le> revision e | _ \<Rightarrow> True)"

text \<open>What the owner of an entry and the entry itself know of each other.\<close>

definition entry_ok :: "driver \<Rightarrow> nat \<Rightarrow> bool" where
  "entry_ok d a \<longleftrightarrow>
     (running (entry_heap d a) \<longleftrightarrow> owners d a \<noteq> None)
     \<and> (running (entry_heap d a) \<or> timer_at (entry_heap d a) \<noteq> None \<longrightarrow>
          a < next_entry d \<and> (\<not> disposed d \<longrightarrow> entry_table d (ent_task (entry_heap d a)) = Some a))
     \<and> (timer_at (entry_heap d a) \<noteq> None \<longrightarrow> \<not> disposed d)
     \<and> (\<forall>ow. owners d a = Some ow \<longrightarrow> (own_phase ow = SlotRefused \<longrightarrow> disposed d) \<and> observed_ok (entry_heap d a) (own_phase ow))"

definition slots_ok :: "driver_options \<Rightarrow> driver \<Rightarrow> bool" where
  "slots_ok c d \<longleftrightarrow>
     active_scans d = int (card {a. holds_slot d a}) + int (releasing d) \<and> active_scans d \<le> maximum_scans c
     \<and> distinct (scan_waiters d) \<and> set (scan_waiters d) = {a. awaits_slot d a}
     \<and> int (length (scan_waiters d)) \<le> maximum_pending c
     \<and> (scan_waiters d \<noteq> [] \<longrightarrow> \<not> disposed d \<and> active_scans d = maximum_scans c)"

definition table_ok :: "driver \<Rightarrow> bool" where
  "table_ok d \<longleftrightarrow> (\<forall>t a. entry_table d t = Some a \<longrightarrow> a < next_entry d \<and> ent_task (entry_heap d a) = t)"

definition driver_ok :: "driver_options \<Rightarrow> driver \<Rightarrow> bool" where
  "driver_ok c d \<longleftrightarrow> table_ok d \<and> (\<forall>a. entry_ok d a) \<and> slots_ok c d"

lemmas driver_ok_defs = driver_ok_def table_ok_def entry_ok_def

lemma upd_entry_simps [simp]:
  "entry_table (upd_entry a f d) = entry_table d" "next_entry (upd_entry a f d) = next_entry d"
  "owners (upd_entry a f d) = owners d" "active_scans (upd_entry a f d) = active_scans d"
  "releasing (upd_entry a f d) = releasing d" "scan_waiters (upd_entry a f d) = scan_waiters d"
  "rearms (upd_entry a f d) = rearms d" "disposed (upd_entry a f d) = disposed d"
  "entry_heap (upd_entry a f d) = (entry_heap d)(a := f (entry_heap d a))"
  by (simp_all add: upd_entry_def)

lemma set_owner_simps [simp]:
  "entry_table (set_owner a ow d) = entry_table d" "next_entry (set_owner a ow d) = next_entry d"
  "owners (set_owner a ow d) = (owners d)(a := ow)" "active_scans (set_owner a ow d) = active_scans d"
  "releasing (set_owner a ow d) = releasing d" "scan_waiters (set_owner a ow d) = scan_waiters d"
  "rearms (set_owner a ow d) = rearms d" "disposed (set_owner a ow d) = disposed d"
  "entry_heap (set_owner a ow d) = entry_heap d"
  by (simp_all add: set_owner_def)

lemma retire_entry_simps [simp]:
  "next_entry (retire_entry c a d) = next_entry d" "owners (retire_entry c a d) = owners d"
  "active_scans (retire_entry c a d) = active_scans d" "releasing (retire_entry c a d) = releasing d"
  "scan_waiters (retire_entry c a d) = scan_waiters d" "rearms (retire_entry c a d) = rearms d"
  "disposed (retire_entry c a d) = disposed d" "entry_heap (retire_entry c a d) = entry_heap d"
  by (simp_all add: retire_entry_def)

lemma retire_entry_table:
  "entry_table (retire_entry c a d) = (if retire_settled c \<and> timer_at (entry_heap d a) = None
     then (entry_table d)(ent_task (entry_heap d a) := None) else entry_table d)"
  by (simp add: retire_entry_def)

lemma slots_ok_cong:
  assumes "\<And>a. holds_slot d' a = holds_slot d a" "\<And>a. awaits_slot d' a = awaits_slot d a"
    and "active_scans d' = active_scans d" "releasing d' = releasing d" "scan_waiters d' = scan_waiters d"
    "disposed d' = disposed d"
  shows "slots_ok c d' = slots_ok c d"
  unfolding slots_ok_def assms by simp

lemma slot_simps [simp]:
  "holds_slot (upd_entry a f d) = holds_slot d" "awaits_slot (upd_entry a f d) = awaits_slot d"
  "holds_slot (retire_entry c a d) = holds_slot d" "awaits_slot (retire_entry c a d) = awaits_slot d"
  by (auto simp: holds_slot_def awaits_slot_def fun_eq_iff)

lemma slots_ok_simps [simp]:
  "slots_ok c (upd_entry a f d) = slots_ok c d" "slots_ok c (retire_entry c' a d) = slots_ok c d"
  by (rule slots_ok_cong; simp)+

text \<open>Holders are entries of the heap, so there are finitely many.\<close>

lemma finite_holders: "\<forall>a. entry_ok d a \<Longrightarrow> finite {a. holds_slot d a}"
  by (rule finite_subset [of _ "{..<next_entry d}"]) (auto simp: holds_slot_def entry_ok_def)

section \<open>Every piece keeps the invariant\<close>

lemma entry_update_ok:
  assumes "driver_ok c d" "ent_task (f (entry_heap d a)) = ent_task (entry_heap d a)"
    "running (f (entry_heap d a)) = running (entry_heap d a)" "revision (entry_heap d a) \<le> revision (f (entry_heap d a))"
    "timer_at (f (entry_heap d a)) \<noteq> None \<longrightarrow> \<not> disposed d \<and> a < next_entry d \<and> entry_table d (ent_task (entry_heap d a)) = Some a"
  shows "driver_ok c (upd_entry a f d)"
proof -
  have "observed_ok (f (entry_heap d a)) p" if "observed_ok (entry_heap d a) p" for p
    using that assms(4) by (auto simp: observed_ok_def split: owner_phase.splits)
  then show ?thesis using assms unfolding driver_ok_def table_ok_def entry_ok_def by auto
qed

lemma pacing_fields [simp]:
  "ent_task (penalize c now ws e) = ent_task e" "running (penalize c now ws e) = running e"
  "revision (penalize c now ws e) = revision e" "timer_at (penalize c now ws e) = timer_at e"
  "ent_task (decay_failures c now e) = ent_task e" "running (decay_failures c now e) = running e"
  "revision (decay_failures c now e) = revision e" "timer_at (decay_failures c now e) = timer_at e"
  "ent_task (arm_entry c g w now e) = ent_task e" "running (arm_entry c g w now e) = running e"
  "revision (arm_entry c g w now e) = revision e"
  by (simp_all add: penalize_def decay_failures_def arm_entry_def)

lemma read_revision_fields:
  assumes "read_revision c r e = (e1, v)"
  shows "ent_task e1 = ent_task e \<and> running e1 = running e \<and> revision e1 = revision e \<and> timer_at e1 = timer_at e"
  using assms by (auto simp: read_revision_def split: if_splits revision_read.splits)

lemma changed_after_scan_fields:
  assumes "changed_after_scan c r e = (e1, v)"
  shows "ent_task e1 = ent_task e \<and> running e1 = running e \<and> revision e1 = revision e \<and> timer_at e1 = timer_at e"
  using assms by (auto simp: changed_after_scan_def split: if_splits prod.splits option.splits dest: read_revision_fields)

lemma finish_scan_ok:
  assumes ok: "driver_ok c d" and hold: "holds_slot d a"
  shows "driver_ok c (fst (finish_scan c a ws now n fl d))"
proof -
  let ?d = "fst (finish_scan c a ws now n fl d)"
  have h: "{b. holds_slot ?d b} = {b. holds_slot d b} - {a}" "awaits_slot ?d = awaits_slot d"
    using hold by (auto simp: finish_scan_def Let_def holds_slot_def awaits_slot_def fun_eq_iff)
  have "slots_ok c ?d" using ok hold finite_holders [of d] card_Suc_Diff1 [of "{b. holds_slot d b}" a]
    unfolding slots_ok_def h driver_ok_def by (auto simp: finish_scan_def Let_def)
  moreover have a: "entry_ok d a" "running (entry_heap d a)" and b: "entry_ok d b" for b
    using ok hold by (auto simp: driver_ok_defs holds_slot_def)
  then have a: "a < next_entry d" "\<not> disposed d \<longrightarrow> entry_table d (ent_task (entry_heap d a)) = Some a"
    by (auto simp: entry_ok_def)
  have heap: "entry_heap ?d = (entry_heap d)(a := arm_entry c (disposed d) (earliest ws) now (entry_heap d a\<lparr>running := False\<rparr>))"
    and others: "owners ?d = (owners d)(a := None)" "next_entry ?d = next_entry d" "disposed ?d = disposed d"
    by (simp_all add: finish_scan_def Let_def)
  have tab: "entry_table ?d = (if retire_settled c \<and> timer_at (entry_heap ?d a) = None
      then (entry_table d)(ent_task (entry_heap d a) := None) else entry_table d)"
    by (simp add: finish_scan_def Let_def retire_entry_table)
  have "table_ok ?d" using ok unfolding driver_ok_def table_ok_def tab by (auto simp: heap others split: if_splits)
  moreover have "entry_ok ?d b" for b
  proof (cases "b = a")
    case True
    then show ?thesis using a unfolding entry_ok_def tab by (auto simp: heap others arm_entry_def)
  next
    case False
    then show ?thesis using b [of b] a unfolding entry_ok_def tab by (auto simp: heap others)
  qed
  ultimately show ?thesis by (simp add: driver_ok_def)
qed

lemma set_holder_ok:
  assumes ok: "driver_ok c d" and hold: "holds_slot d a"
    and ow: "own_phase ow \<noteq> AwaitingSlot" "own_phase ow \<noteq> SlotRefused" "observed_ok (entry_heap d a) (own_phase ow)"
  shows "driver_ok c (set_owner a (Some ow) d)"
proof -
  let ?d = "set_owner a (Some ow) d"
  have "holds_slot ?d b = holds_slot d b" "awaits_slot ?d b = awaits_slot d b" for b
    using hold ow by (auto simp: holds_slot_def awaits_slot_def)
  then have "slots_ok c ?d = slots_ok c d" by (intro slots_ok_cong) simp_all
  moreover have "entry_ok d b" for b using ok by (simp add: driver_ok_def)
  then have "entry_ok ?d b" for b using hold ow unfolding entry_ok_def holds_slot_def by auto
  ultimately show ?thesis using ok by (simp add: driver_ok_def table_ok_def)
qed

lemma holder_entry:
  assumes "driver_ok c d" "holds_slot d a"
  shows "a < next_entry d" "running (entry_heap d a)" "\<not> disposed d \<Longrightarrow> entry_table d (ent_task (entry_heap d a)) = Some a"
    "timer_at (entry_heap d a) \<noteq> None \<Longrightarrow> \<not> disposed d"
proof -
  have "entry_ok d a" using assms by (simp add: driver_ok_def)
  then show "a < next_entry d" "running (entry_heap d a)" "\<not> disposed d \<Longrightarrow> entry_table d (ent_task (entry_heap d a)) = Some a"
    "timer_at (entry_heap d a) \<noteq> None \<Longrightarrow> \<not> disposed d"
    using assms(2) by (auto simp: entry_ok_def holds_slot_def)
qed

text \<open>An update of a holder's entry that keeps its identity, its owner and its timer.\<close>

lemma holder_update_ok:
  assumes "driver_ok c d" "holds_slot d a"
    and "ent_task e = ent_task (entry_heap d a)" "running e = running (entry_heap d a)"
      "revision e = revision (entry_heap d a)" "timer_at e = timer_at (entry_heap d a)"
  shows "driver_ok c (upd_entry a (\<lambda>_. e) d)"
  using assms holder_entry [OF assms(1,2)] by (intro entry_update_ok) auto

lemma begin_pass_ok:
  assumes ok: "driver_ok c d" and hold: "holds_slot d a"
  shows "driver_ok c (fst (begin_pass c a pass ws n fl pr now start d))"
proof -
  obtain e1 v where r: "read_revision c start (decay_failures c now (entry_heap d a)) = (e1, v)" by fastforce
  note f = read_revision_fields [OF r, simplified]
  show ?thesis
  proof (cases v)
    case None
    have "driver_ok c (upd_entry a (\<lambda>_. penalize c now ws e1) d)" by (rule holder_update_ok [OF ok hold]) (use f in auto)
    from finish_scan_ok [OF this] hold None r show ?thesis by (simp add: begin_pass_def Let_def)
  next
    case (Some w)
    have "driver_ok c (upd_entry a (\<lambda>_. e1\<lparr>input_revision := w\<rparr>) d)" by (rule holder_update_ok [OF ok hold]) (use f in auto)
    from set_holder_ok [OF this] hold Some r f show ?thesis by (simp add: begin_pass_def Let_def observed_ok_def)
  qed
qed

lemma scan_returned_ok:
  assumes ok: "driver_ok c d"
  shows "driver_ok c (fst (scan_returned c a outcome now probe start d))"
proof (cases "owners d a")
  case None
  then show ?thesis using ok by (simp add: scan_returned_def)
next
  case (Some ow)
  show ?thesis
  proof (cases "own_phase ow")
    case (Scanning pass obs ws)
    have hold: "holds_slot d a" using Some Scanning by (simp add: holds_slot_def)
    let ?e = "entry_heap d a"
    have upd: "driver_ok c (upd_entry a (\<lambda>_. e) d)" if "ent_task e = ent_task ?e \<and> running e = running ?e
        \<and> revision e = revision ?e \<and> timer_at e = timer_at ?e" for e
      using that by (intro holder_update_ok [OF ok hold]) auto
    have step: "driver_ok c (fst (begin_pass c a p w n fl pr now start (upd_entry a (\<lambda>_. e) d)))"
        "driver_ok c (fst (finish_scan c a w now n fl (upd_entry a (\<lambda>_. e) d)))"
      if "ent_task e = ent_task ?e \<and> running e = running ?e \<and> revision e = revision ?e \<and> timer_at e = timer_at ?e"
      for e p w n fl pr
      using upd [OF that] hold by (simp_all add: begin_pass_ok finish_scan_ok)
    show ?thesis
    proof (cases outcome)
      case ScanFault
      obtain e2 ch where ch: "(if pass + 1 < max_passes c then changed_after_scan c probe (penalize c now ws ?e)
          else (penalize c now ws ?e, False)) = (e2, ch)" by fastforce
      then have "ent_task e2 = ent_task ?e \<and> running e2 = running ?e \<and> revision e2 = revision ?e \<and> timer_at e2 = timer_at ?e"
        using changed_after_scan_fields [of c probe "penalize c now ws ?e"] by (auto split: if_splits)
      then show ?thesis using step [of e2] step [of "e2\<lparr>retry_not_before := None\<rparr>"]
        by (simp add: scan_returned_def Some Scanning ScanFault Let_def ch)
    next
      case (ScanResult n w np)
      obtain e2 ch where ch: "(if pass + 1 < max_passes c then changed_after_scan c probe ?e else (?e, False)) = (e2, ch)"
        by fastforce
      then have "ent_task e2 = ent_task ?e \<and> running e2 = running ?e \<and> revision e2 = revision ?e \<and> timer_at e2 = timer_at ?e"
        using changed_after_scan_fields [of c probe ?e] by (auto split: if_splits)
      then show ?thesis using step [of e2] step [of "penalize c now ws' e2" for ws'] step [of "penalize c now ws' ?e" for ws']
          begin_pass_ok [OF ok hold] finish_scan_ok [OF ok hold]
        by (simp add: scan_returned_def Some Scanning ScanResult Let_def ch)
    qed
  qed (use Some ok in \<open>simp_all add: scan_returned_def\<close>)
qed

text \<open>An entry that nobody runs becomes a holder, or is queued.\<close>

lemma idle_entry:
  assumes "driver_ok c d" "\<not> running (entry_heap d a)"
  shows "owners d a = None" "\<not> holds_slot d a" "\<not> awaits_slot d a" "a \<notin> set (scan_waiters d)"
proof -
  have "entry_ok d a" "slots_ok c d" using assms(1) by (simp_all add: driver_ok_def)
  then show "owners d a = None" "\<not> holds_slot d a" "\<not> awaits_slot d a" "a \<notin> set (scan_waiters d)"
    using assms(2) by (auto simp: entry_ok_def holds_slot_def awaits_slot_def slots_ok_def)
qed

lemma claim_entry_ok:
  assumes ok: "driver_ok c d" and idle: "\<not> running (entry_heap d a)" and live: "\<not> disposed d"
    and tab: "entry_table d (ent_task (entry_heap d a)) = Some a"
    and e: "ent_task e = ent_task (entry_heap d a)" "running e" "timer_at e = timer_at (entry_heap d a)"
    and ow: "own_phase ow = SlotAdmitted \<or> own_phase ow = AwaitingSlot"
    and d': "entry_table d' = entry_table d" "next_entry d' = next_entry d" "disposed d' = disposed d"
      "entry_heap d' = (entry_heap d)(a := e)" "owners d' = (owners d)(a := Some ow)"
  shows "table_ok d' \<and> (\<forall>b. entry_ok d' b)"
proof -
  have "a < next_entry d" using ok tab by (auto simp: driver_ok_def table_ok_def)
  moreover have "entry_ok d b" for b using ok by (simp add: driver_ok_def)
  ultimately have "entry_ok d' b" for b
    using live tab e ow unfolding entry_ok_def d' by (auto simp: observed_ok_def)
  then show ?thesis using ok e unfolding driver_ok_def table_ok_def d' by auto
qed

lemma retire_ok:
  assumes ok: "driver_ok c d" and idle: "\<not> running (entry_heap d a)"
    and tab: "\<not> disposed d \<longrightarrow> entry_table d (ent_task (entry_heap d a)) = Some a"
  shows "driver_ok c (retire_entry c a d)"
proof -
  have "entry_ok (retire_entry c a d) b" for b
  proof -
    have "entry_ok d b" using ok by (simp add: driver_ok_def)
    moreover have "b \<noteq> a \<longrightarrow> entry_table d (ent_task (entry_heap d b)) = Some b \<longrightarrow> \<not> disposed d
        \<longrightarrow> ent_task (entry_heap d b) \<noteq> ent_task (entry_heap d a)" using tab by auto
    ultimately show ?thesis using idle by (cases "b = a") (auto simp: entry_ok_def retire_entry_table)
  qed
  then show ?thesis using ok unfolding driver_ok_def table_ok_def by (auto simp: retire_entry_table)
qed

lemma admitted_ok:
  assumes ok: "driver_ok c d" and idle: "\<not> running (entry_heap d a)" and live: "\<not> disposed d"
    and tab: "entry_table d (ent_task (entry_heap d a)) = Some a" and free: "active_scans d < maximum_scans c"
  shows "driver_ok c (set_owner a (Some (waiting_owner SlotAdmitted pr))
    ((upd_entry a (\<lambda>e. e\<lparr>retry_not_before := None, running := True\<rparr>) d)\<lparr>active_scans := active_scans d + 1\<rparr>))"
proof -
  note I = idle_entry [OF ok idle]
  let ?e = "entry_heap d a\<lparr>retry_not_before := None, running := True\<rparr>" and ?ow = "waiting_owner SlotAdmitted pr"
  let ?d = "set_owner a (Some ?ow) ((upd_entry a (\<lambda>e. e\<lparr>retry_not_before := None, running := True\<rparr>) d)\<lparr>active_scans := active_scans d + 1\<rparr>)"
  have slots: "slots_ok c d" and fin: "finite {b. holds_slot d b}" using ok finite_holders by (auto simp: driver_ok_def)
  have te: "table_ok ?d \<and> (\<forall>b. entry_ok ?d b)"
    by (rule claim_entry_ok [OF ok idle live tab, of ?e ?ow]) (simp_all add: waiting_owner_def)
  have h: "{b. holds_slot ?d b} = insert a {b. holds_slot d b}" and w: "awaits_slot ?d = awaits_slot d"
    using I by (auto simp: holds_slot_def awaits_slot_def waiting_owner_def fun_eq_iff)
  have "int (card (insert a {b. holds_slot d b})) = int (card {b. holds_slot d b}) + 1"
    using fin I(2) by simp
  moreover have "scan_waiters d = []" "\<not> awaits_slot d b" for b using slots free by (auto simp: slots_ok_def)
  ultimately have "slots_ok c ?d" using slots free unfolding slots_ok_def h w by simp
  with te show ?thesis by (simp add: driver_ok_def)
qed

lemma admit_request_ok:
  assumes ok: "driver_ok c d" and idle: "\<not> running (entry_heap d a)" and live: "\<not> disposed d"
    and tab: "entry_table d (ent_task (entry_heap d a)) = Some a"
  shows "driver_ok c (fst (admit_request c a pr now start d))"
proof -
  note I = idle_entry [OF ok idle]
  let ?e = "entry_heap d a\<lparr>retry_not_before := None, running := True\<rparr>"
  have a: "a < next_entry d" using ok tab by (auto simp: driver_ok_def table_ok_def)
  have slots: "slots_ok c d" using ok by (simp add: driver_ok_def)
  consider "active_scans d < maximum_scans c"
    | "\<not> active_scans d < maximum_scans c" "int (length (scan_waiters d)) \<ge> maximum_pending c"
    | "\<not> active_scans d < maximum_scans c" "int (length (scan_waiters d)) < maximum_pending c" by linarith
  then show ?thesis
  proof cases
    case 1
    let ?d = "set_owner a (Some (waiting_owner SlotAdmitted pr))
      ((upd_entry a (\<lambda>e. e\<lparr>retry_not_before := None, running := True\<rparr>) d)\<lparr>active_scans := active_scans d + 1\<rparr>)"
    have "holds_slot ?d a" by (simp add: holds_slot_def waiting_owner_def)
    from begin_pass_ok [OF admitted_ok [OF ok idle live tab 1] this] show ?thesis using 1 by (simp add: admit_request_def Let_def split_beta)
  next
    case 2
    have "driver_ok c (upd_entry a (\<lambda>e. e\<lparr>retry_not_before := None, running := False\<rparr>) d)"
      using idle tab live a by (intro entry_update_ok [OF ok]) auto
    from retire_ok [OF this, of a] show ?thesis using 2 tab by (simp add: admit_request_def Let_def upd_entry_def)
  next
    case 3
    let ?ow = "waiting_owner AwaitingSlot pr"
    let ?d = "set_owner a (Some ?ow) ((upd_entry a (\<lambda>e. e\<lparr>retry_not_before := None, running := True\<rparr>) d)\<lparr>scan_waiters := scan_waiters d @ [a]\<rparr>)"
    have "table_ok ?d \<and> (\<forall>b. entry_ok ?d b)"
      by (rule claim_entry_ok [OF ok idle live tab, of ?e ?ow]) (simp_all add: waiting_owner_def)
    moreover have h: "holds_slot ?d = holds_slot d" and w: "{b. awaits_slot ?d b} = insert a {b. awaits_slot d b}"
      using I by (auto simp: holds_slot_def awaits_slot_def waiting_owner_def fun_eq_iff)
    moreover have "slots_ok c ?d" using slots 3 I(4) live unfolding slots_ok_def h w by auto
    ultimately have "driver_ok c ?d" by (simp add: driver_ok_def)
    then show ?thesis using 3 by (simp add: admit_request_def Let_def)
  qed
qed

lemma entry_of_ok:
  assumes ok: "driver_ok c d" and "entry_of t d = (d1, a)"
  shows "driver_ok c d1" "entry_table d1 t = Some a" "ent_task (entry_heap d1 a) = t" "disposed d1 = disposed d"
    "owners d1 = owners d" "rearms d1 = rearms d"
    "\<And>u. u \<noteq> t \<Longrightarrow> entry_table d1 u = entry_table d u" "\<And>b. b < next_entry d \<Longrightarrow> entry_heap d1 b = entry_heap d b"
    "\<And>b. entry_table d t = Some b \<Longrightarrow> a = b \<and> d1 = d"
proof -
  show "driver_ok c d1"
  proof (cases "entry_table d t")
    case None
    let ?n = "next_entry d"
    have d1: "d1 = d\<lparr>entry_table := (entry_table d)(t := Some ?n), entry_heap := (entry_heap d)(?n := blank_entry t), next_entry := Suc ?n\<rparr>"
      using assms(2) None by (auto simp: entry_of_def)
    have e: "entry_ok d b" for b using ok by (simp add: driver_ok_def)
    from e [of ?n] have "owners d ?n = None" by (auto simp: entry_ok_def)
    then have "entry_ok d1 b" for b
      using None e [of b] unfolding entry_ok_def d1 by (cases "b = ?n") (auto simp: blank_entry_def)
    moreover have "table_ok d1"
      using ok unfolding driver_ok_def table_ok_def d1 by (auto simp: blank_entry_def intro: less_SucI)
    moreover have "slots_ok c d1 = slots_ok c d"
      by (intro slots_ok_cong) (auto simp: d1 holds_slot_def awaits_slot_def)
    ultimately show ?thesis using ok by (simp add: driver_ok_def)
  qed (use assms in \<open>simp add: entry_of_def\<close>)
qed (use assms in \<open>auto simp: entry_of_def blank_entry_def driver_ok_def table_ok_def split: option.splits\<close>)

lemma requested_revision_fields:
  assumes "requested_revision c now req e = (e1, v)"
  shows "ent_task e1 = ent_task e \<and> running e1 = running e \<and> revision e1 = revision e \<and> timer_at e1 = timer_at e"
  using assms by (auto simp: requested_revision_def split: if_splits dest: read_revision_fields)

lemma request_idle_ok:
  assumes ok: "driver_ok c d" and idle: "\<not> running (entry_heap d a)" and live: "\<not> disposed d"
    and tab: "entry_table d (ent_task (entry_heap d a)) = Some a"
  shows "driver_ok c (fst (request_idle c a pr now req start d))"
proof -
  let ?e = "entry_heap d a"
  have a: "a < next_entry d" using ok tab by (auto simp: driver_ok_def table_ok_def)
  have upd: "driver_ok c (upd_entry a (\<lambda>_. e) d)"
    if "ent_task e = ent_task ?e \<and> running e = running ?e \<and> revision e = revision ?e" for e
    using that tab a live by (intro entry_update_ok [OF ok]) auto
  have adm: "driver_ok c (fst (admit_request c a pr now start (upd_entry a (\<lambda>_. e) d)))"
    if "ent_task e = ent_task ?e \<and> running e = running ?e \<and> revision e = revision ?e" for e
    using that idle live tab by (intro admit_request_ok upd) auto
  obtain e1 v where r: "requested_revision c now req ?e = (e1, v)" by fastforce
  note f = requested_revision_fields [OF r]
  show ?thesis
  proof (cases v)
    case None
    then show ?thesis using upd f by (simp add: request_idle_def r)
  next
    case (Some w)
    define e2 where "e2 = (if w \<noteq> input_revision e1 then e1\<lparr>retry_not_before := None\<rparr> else e1)"
    have "ent_task e2 = ent_task ?e \<and> running e2 = running ?e \<and> revision e2 = revision ?e" using f by (simp add: e2_def)
    then show ?thesis using upd adm [of e2] by (simp add: request_idle_def r Some e2_def [symmetric] Let_def)
  qed
qed

lemma start_request_ok:
  assumes ok: "driver_ok c d0"
  shows "driver_ok c (fst (start_request c t pr now req start d0))"
proof (cases "disposed d0")
  case True
  then show ?thesis using ok by (simp add: start_request_def)
next
  case False
  obtain d1 a where da: "entry_of t d0 = (d1, a)" by fastforce
  note E = entry_of_ok [OF ok da]
  let ?d = "upd_entry a (\<lambda>e. e\<lparr>revision := revision e + 1\<rparr>) d1"
  have "a < next_entry d1" using E(1,2) by (auto simp: driver_ok_def table_ok_def)
  then have okd: "driver_ok c ?d" using E False by (intro entry_update_ok) auto
  have "driver_ok c (fst (request_idle c a pr now req start ?d))" if "\<not> running (entry_heap d1 a)"
    using okd that E False by (intro request_idle_ok) auto
  then show ?thesis using False okd by (auto simp: start_request_def da Let_def)
qed

text \<open>A released slot goes to the first waiter, so no slot is free while somebody waits.\<close>

lemma release_slot_ok:
  assumes ok: "driver_ok c d"
  shows "driver_ok c (release_slot d)"
proof (cases "releasing d = 0")
  case True
  then show ?thesis using ok by (simp add: release_slot_def)
next
  case False
  let ?d1 = "d\<lparr>releasing := releasing d - 1, active_scans := active_scans d - 1\<rparr>"
  have slots: "slots_ok c d" and tab: "table_ok d" and ent: "entry_ok d b" for b using ok by (simp_all add: driver_ok_def)
  have fin: "finite {b. holds_slot d b}" using ok finite_holders by (auto simp: driver_ok_def)
  show ?thesis
  proof (cases "scan_waiters d")
    case Nil
    then have r: "release_slot d = ?d1\<lparr>scan_waiters := []\<rparr>" using False by (simp add: release_slot_def)
    have "entry_ok (release_slot d) b" for b using ent [of b] unfolding entry_ok_def r by simp
    moreover have "table_ok (release_slot d)" using tab unfolding table_ok_def r by simp
    moreover have "slots_ok c (release_slot d)"
      using slots False Nil by (auto simp: slots_ok_def r holds_slot_def awaits_slot_def)
    ultimately show ?thesis by (simp add: driver_ok_def)
  next
    case (Cons a rest)
    then have live: "\<not> disposed d" "active_scans d = maximum_scans c" and aw: "awaits_slot d a"
      using slots by (auto simp: slots_ok_def)
    then obtain ow where ow: "owners d a = Some ow" "own_phase ow = AwaitingSlot" by (auto simp: awaits_slot_def)
    have r: "release_slot d = set_owner a (Some (ow\<lparr>own_phase := SlotAdmitted\<rparr>))
        (?d1\<lparr>scan_waiters := rest, active_scans := active_scans d\<rparr>)"
      using False Cons live ow by (simp add: release_slot_def Let_def)
    have na: "\<not> holds_slot d a" using ow by (simp add: holds_slot_def)
    have h: "{b. holds_slot (release_slot d) b} = insert a {b. holds_slot d b}"
      and w: "{b. awaits_slot (release_slot d) b} = {b. awaits_slot d b} - {a}"
      unfolding r using ow by (auto simp: holds_slot_def awaits_slot_def)
    have "entry_ok (release_slot d) b" for b
      using ent [of b] ow unfolding entry_ok_def r by (auto simp: observed_ok_def)
    moreover have "table_ok (release_slot d)" using tab unfolding table_ok_def r by simp
    moreover have "int (card (insert a {b. holds_slot d b})) = int (card {b. holds_slot d b}) + 1" using fin na by simp
    then have "slots_ok c (release_slot d)"
      using slots False Cons live unfolding slots_ok_def h w by (auto simp: r)
    ultimately show ?thesis by (simp add: driver_ok_def)
  qed
qed

lemma slot_resolved_ok:
  assumes ok: "driver_ok c d"
  shows "driver_ok c (fst (slot_resolved c a now start d))"
proof (cases "owners d a")
  case None
  then show ?thesis using ok by (simp add: slot_resolved_def)
next
  case (Some ow)
  show ?thesis
  proof (cases "own_phase ow")
    case SlotAdmitted
    then have "holds_slot d a" using Some by (simp add: holds_slot_def)
    from begin_pass_ok [OF ok this] show ?thesis using Some SlotAdmitted by (simp add: slot_resolved_def)
  next
    case SlotRefused
    let ?d = "set_owner a None (upd_entry a (\<lambda>e. e\<lparr>running := False\<rparr>) d)"
    have ent: "entry_ok d b" for b using ok by (simp add: driver_ok_def)
    from ent [of a] have gone: "disposed d" using Some SlotRefused by (auto simp: entry_ok_def)
    have "entry_ok ?d b" for b using ent [of b] gone unfolding entry_ok_def by auto
    moreover have "table_ok ?d" using ok unfolding driver_ok_def table_ok_def by simp
    moreover have "slots_ok c ?d = slots_ok c d"
      using Some SlotRefused by (intro slots_ok_cong) (auto simp: holds_slot_def awaits_slot_def)
    ultimately have "driver_ok c ?d" using ok by (simp add: driver_ok_def)
    from retire_ok [OF this, of a] gone have "driver_ok c (retire_entry c a ?d)" by simp
    moreover have "retire_entry c a ?d = set_owner a None (retire_entry c a (upd_entry a (\<lambda>e. e\<lparr>running := False\<rparr>) d))"
      by (simp add: retire_entry_def set_owner_def)
    ultimately show ?thesis using Some SlotRefused by (simp add: slot_resolved_def)
  qed (use Some ok in \<open>simp_all add: slot_resolved_def\<close>)
qed

lemma rearms_ok: "driver_ok c (d\<lparr>rearms := r\<rparr>) = driver_ok c d"
  by (simp add: driver_ok_def table_ok_def entry_ok_def slots_ok_def holds_slot_def awaits_slot_def)

lemma timer_fired_ok: "driver_ok c d \<Longrightarrow> driver_ok c (timer_fired a d)"
  by (auto simp: timer_fired_def rearms_ok intro: entry_update_ok split: option.split)

lemma rearm_fails_ok:
  assumes "driver_ok c d"
  shows "driver_ok c (fst (rearm_fails c t a now d))"
proof -
  have "entry_table d t = Some a \<Longrightarrow> a < next_entry d \<and> ent_task (entry_heap d a) = t"
    using assms by (auto simp: driver_ok_def table_ok_def)
  then show ?thesis using assms
    by (auto simp: rearm_fails_def Let_def rearms_ok intro!: entry_update_ok)
qed

lemma driver_dispose_ok:
  assumes ok: "driver_ok c d"
  shows "driver_ok c (dispose_driver d)"
proof -
  let ?d = "dispose_driver d"
  have slots: "slots_ok c d" and tab: "table_ok d" and ent: "entry_ok d b" for b using ok by (simp_all add: driver_ok_def)
  have waits: "b \<in> set (scan_waiters d) \<longleftrightarrow> awaits_slot d b" for b using slots by (auto simp: slots_ok_def)
  have ow: "owners ?d b = (if awaits_slot d b then map_option (\<lambda>ow. ow\<lparr>own_phase := SlotRefused\<rparr>) (owners d b) else owners d b)" for b
    by (simp add: dispose_driver_def waits)
  have gone: "disposed ?d" "entry_table ?d = (\<lambda>_. None)" "scan_waiters ?d = []" "next_entry ?d = next_entry d"
    "releasing ?d = releasing d" "active_scans ?d = active_scans d" by (simp_all add: dispose_driver_def)
  have heap: "entry_heap ?d b = (if entry_table d (ent_task (entry_heap d b)) = Some b then entry_heap d b\<lparr>timer_at := None\<rparr> else entry_heap d b)" for b
    by (simp add: dispose_driver_def)
  have "entry_ok ?d b" for b
  proof -
    let ?e = "entry_heap d b" and ?e' = "entry_heap ?d b"
    have t: "timer_at ?e' = None" using ent [of b] by (auto simp: heap entry_ok_def)
    have r: "running ?e' = running ?e" by (simp add: heap)
    have o: "observed_ok ?e' p = observed_ok ?e p" for p by (simp add: heap observed_ok_def split: owner_phase.split)
    have "observed_ok ?e SlotRefused" by (simp add: observed_ok_def)
    then show ?thesis using ent [of b] unfolding entry_ok_def ow gone t r o
      by (cases "owners d b"; cases "awaits_slot d b"; simp add: gone(1))
  qed
  moreover have h: "holds_slot ?d b = holds_slot d b" and w: "\<not> awaits_slot ?d b" for b
    by (auto simp: holds_slot_def awaits_slot_def ow)
  moreover have "slots_ok c ?d" using slots unfolding slots_ok_def h by (simp add: gone w)
  ultimately show ?thesis by (simp add: driver_ok_def table_ok_def gone)
qed

lemma driver_piece_ok:
  assumes "driver_ok c d"
  shows "driver_ok c (fst (driver_piece c d op))"
proof (cases op)
  case (RearmRuns t a now req start)
  then show ?thesis using assms start_request_ok [of c "d\<lparr>rearms := remove1 (t, a) (rearms d)\<rparr>"]
    by (simp add: rearm_runs_def rearms_ok split_beta)
qed (use assms in \<open>simp_all add: start_request_ok scan_returned_ok release_slot_ok slot_resolved_ok timer_fired_ok
      rearm_fails_ok rearm_declined_def rearms_ok driver_dispose_ok\<close>)

section \<open>No demand is lost silently\<close>

text \<open>
  A Task is owed a scan from an accepted request (admitted or coalesced) until a pass for it
  begins, or its demand is dropped with the re-entry of a timer.
\<close>

fun after_event :: "(string \<Rightarrow> bool) \<Rightarrow> driver_event \<Rightarrow> string \<Rightarrow> bool" where
  "after_event ow (Answered t r) = (if r = Rejected then ow else ow(t := True))"
| "after_event ow (Began t) = ow(t := False)"
| "after_event ow (Completed t n b) = ow"
| "after_event ow (Dropped t) = ow(t := False)"

definition owed :: "driver_event list \<Rightarrow> string \<Rightarrow> bool" where
  "owed log = foldl after_event (\<lambda>_. False) log"

text \<open>
  The driver will come back to a Task: its timer is armed or has fired, its scan is queued, or
  the running scan observed an older revision and will run another pass or arm a timer.
\<close>

definition covered :: "driver \<Rightarrow> string \<Rightarrow> bool" where
  "covered d t \<longleftrightarrow> disposed d \<or>
     (case entry_table d t of None \<Rightarrow> t \<in> fst ` set (rearms d)
      | Some a \<Rightarrow> (case owners d a of
            None \<Rightarrow> timer_at (entry_heap d a) \<noteq> None \<or> t \<in> fst ` set (rearms d)
          | Some ow \<Rightarrow> (case own_phase ow of Scanning _ observed _ \<Rightarrow> observed < revision (entry_heap d a) | _ \<Rightarrow> True)))"

definition covers :: "driver \<Rightarrow> (string \<Rightarrow> bool) \<Rightarrow> string set \<Rightarrow> bool" where
  "covers d ow except \<longleftrightarrow> (\<forall>u. ow u \<longrightarrow> u \<in> except \<or> covered d u)"

text \<open>A piece that works on one entry does not touch the coverage of the other Tasks.\<close>

lemma covered_frame:
  assumes "covered d u" "entry_table d' u = entry_table d u" "entry_table d u \<noteq> Some a"
    "\<And>b. b \<noteq> a \<Longrightarrow> owners d' b = owners d b" "\<And>b. b \<noteq> a \<Longrightarrow> entry_heap d' b = entry_heap d b"
    "u \<in> fst ` set (rearms d) \<Longrightarrow> u \<in> fst ` set (rearms d')" "disposed d \<Longrightarrow> disposed d'"
  shows "covered d' u"
proof (cases "entry_table d u")
  case (Some b)
  then have "owners d' b = owners d b" "entry_heap d' b = entry_heap d b" using assms(3,4,5) by auto
  then show ?thesis using assms(1,2,6,7) Some by (auto simp: covered_def split: option.splits owner_phase.splits)
qed (use assms in \<open>auto simp: covered_def\<close>)

lemma not_in_table:
  "driver_ok c d \<Longrightarrow> u \<noteq> ent_task (entry_heap d a) \<Longrightarrow> entry_table d u \<noteq> Some a"
  by (auto simp: driver_ok_def table_ok_def)

lemma arm_entry_armed: "timer_at (arm_entry c False (Some w) now e) \<noteq> None"
  by (simp add: arm_entry_def)

lemma earliest_Some: "ws \<noteq> [] \<Longrightarrow> \<exists>w. earliest ws = Some w"
  by (auto simp: earliest_def split: list.split)

lemma finish_scan_covers:
  assumes ok: "driver_ok c d" and hold: "holds_slot d a" and t: "ent_task (entry_heap d a) = t"
    and cov: "covers d ow {t}" and last: "ws = [] \<longrightarrow> \<not> ow t \<or> disposed d"
  shows "covers (fst (finish_scan c a ws now n fl d)) (foldl after_event ow (snd (finish_scan c a ws now n fl d))) {}"
proof -
  let ?d = "fst (finish_scan c a ws now n fl d)"
  note H = holder_entry [OF ok hold]
  have same: "disposed ?d = disposed d" "rearms ?d = rearms d"
    "\<And>b. b \<noteq> a \<Longrightarrow> owners ?d b = owners d b" "\<And>b. b \<noteq> a \<Longrightarrow> entry_heap ?d b = entry_heap d b"
    "\<And>u. u \<noteq> t \<Longrightarrow> entry_table ?d u = entry_table d u"
    using t by (simp_all add: finish_scan_def Let_def retire_entry_table)
  have "covered ?d u" if "ow u" "u \<noteq> t" for u
  proof -
    have "covered d u" using cov that by (auto simp: covers_def)
    then show ?thesis by (rule covered_frame [of _ _ _ a]) (use same that t not_in_table [OF ok] in auto)
  qed
  moreover have "covered ?d t" if "ow t"
  proof (cases "disposed d")
    case False
    then obtain w where w: "earliest ws = Some w" using last \<open>ow t\<close> earliest_Some by blast
    then have timer: "timer_at (entry_heap ?d a) \<noteq> None" using False by (simp add: finish_scan_def Let_def arm_entry_def)
    then have "entry_table ?d t = Some a" using H(3) [OF False] t by (simp add: finish_scan_def Let_def retire_entry_table)
    moreover have "owners ?d a = None" by (simp add: finish_scan_def Let_def)
    ultimately show ?thesis using timer by (simp add: covered_def)
  qed (simp add: covered_def same)
  ultimately show ?thesis by (auto simp: covers_def finish_scan_def Let_def)
qed

lemma covers_update:
  assumes "driver_ok c d" "covers d ow {t}" "ent_task (entry_heap d a) = t"
  shows "covers (upd_entry a f d) ow {t}"
  unfolding covers_def
proof (intro allI impI)
  fix u assume u: "ow u"
  show "u \<in> {t} \<or> covered (upd_entry a f d) u"
  proof (cases "u = t")
    case False
    then have "covered d u" using assms u by (auto simp: covers_def)
    then have "covered (upd_entry a f d) u"
      by (rule covered_frame [of _ _ _ a]) (use assms False not_in_table [OF assms(1)] in auto)
    then show ?thesis by simp
  qed simp
qed

lemma begin_pass_covers:
  assumes ok: "driver_ok c d" and hold: "holds_slot d a" and t: "ent_task (entry_heap d a) = t"
    and cov: "covers d ow {t}"
  shows "covers (fst (begin_pass c a pass ws n fl pr now start d))
    (foldl after_event ow (snd (begin_pass c a pass ws n fl pr now start d))) {}"
proof -
  obtain e1 v where r: "read_revision c start (decay_failures c now (entry_heap d a)) = (e1, v)" by fastforce
  note f = read_revision_fields [OF r, simplified]
  show ?thesis
  proof (cases v)
    case None
    let ?d = "upd_entry a (\<lambda>_. penalize c now ws e1) d"
    have "driver_ok c ?d" by (rule holder_update_ok [OF ok hold]) (use f in auto)
    from finish_scan_covers [OF this, of a t ow "ws @ [penalty c now ws e1]"] hold f t
    show ?thesis using covers_update [OF ok cov t] by (simp add: begin_pass_def Let_def r None)
  next
    case (Some w)
    let ?d = "set_owner a (Some \<lparr>own_phase = Scanning pass (revision e1) ws, own_activated = n, own_failed = fl, own_propagate = pr\<rparr>)
               (upd_entry a (\<lambda>_. e1\<lparr>input_revision := w\<rparr>) d)"
    have "covered ?d u" if "ow u" "u \<noteq> t" for u
    proof -
      have "covered d u" using cov that by (auto simp: covers_def)
      then show ?thesis by (rule covered_frame [of _ _ _ a]) (use that t not_in_table [OF ok] in auto)
    qed
    then show ?thesis using f t by (simp add: begin_pass_def Let_def r Some covers_def)
  qed
qed

lemma scan_returned_covers:
  assumes ok: "driver_ok c d" and cov: "covers d ow {}"
  shows "covers (fst (scan_returned c a outcome now probe start d))
    (foldl after_event ow (snd (scan_returned c a outcome now probe start d))) {}"
proof (cases "owners d a")
  case None
  then show ?thesis using cov by (simp add: scan_returned_def)
next
  case (Some o1)
  show ?thesis
  proof (cases "own_phase o1")
    case (Scanning pass obs ws)
    have hold: "holds_slot d a" using Some Scanning by (simp add: holds_slot_def)
    let ?e = "entry_heap d a" and ?t = "ent_task (entry_heap d a)"
    have cov1: "covers d ow {?t}" using cov by (auto simp: covers_def)
    have upd: "driver_ok c (upd_entry a (\<lambda>_. e) d)" if "ent_task e = ?t \<and> running e = running ?e
        \<and> revision e = revision ?e \<and> timer_at e = timer_at ?e" for e
      using that by (intro holder_update_ok [OF ok hold]) auto
    have step: "covers (fst (begin_pass c a p w n fl pr now start (upd_entry a (\<lambda>_. e) d)))
          (foldl after_event ow (snd (begin_pass c a p w n fl pr now start (upd_entry a (\<lambda>_. e) d)))) {}"
        "w \<noteq> [] \<Longrightarrow> covers (fst (finish_scan c a w now n fl (upd_entry a (\<lambda>_. e) d)))
          (foldl after_event ow (snd (finish_scan c a w now n fl (upd_entry a (\<lambda>_. e) d)))) {}"
      if "ent_task e = ?t \<and> running e = running ?e \<and> revision e = revision ?e \<and> timer_at e = timer_at ?e"
      for e p w n fl pr
      using begin_pass_covers [OF upd [OF that], of a ?t ow] finish_scan_covers [OF upd [OF that], of a ?t ow w]
        hold that covers_update [OF ok cov1 refl] by simp_all
    show ?thesis
    proof (cases outcome)
      case ScanFault
      obtain e2 ch where ch: "(if pass + 1 < max_passes c then changed_after_scan c probe (penalize c now ws ?e)
          else (penalize c now ws ?e, False)) = (e2, ch)" by fastforce
      then have "ent_task e2 = ?t \<and> running e2 = running ?e \<and> revision e2 = revision ?e \<and> timer_at e2 = timer_at ?e"
        using changed_after_scan_fields [of c probe "penalize c now ws ?e"] by (auto split: if_splits)
      then show ?thesis using step [of e2] step [of "e2\<lparr>retry_not_before := None\<rparr>"]
        by (simp add: scan_returned_def Some Scanning ScanFault Let_def ch)
    next
      case (ScanResult n w np)
      obtain e2 ch where ch: "(if pass + 1 < max_passes c then changed_after_scan c probe ?e else (?e, False)) = (e2, ch)"
        by fastforce
      then have f: "ent_task e2 = ?t \<and> running e2 = running ?e \<and> revision e2 = revision ?e \<and> timer_at e2 = timer_at ?e"
        using changed_after_scan_fields [of c probe ?e] by (auto split: if_splits)
      have settled: "\<not> ow ?t \<or> disposed d" if "revision ?e = obs"
      proof (rule ccontr)
        assume n: "\<not> ?thesis"
        then have "covered d ?t" using cov by (simp add: covers_def)
        then show False using n that Some Scanning holder_entry(3) [OF ok hold] by (simp add: covered_def)
      qed
      show ?thesis
        using step [of e2] step [of "penalize c now ws' e2" for ws'] step [of "penalize c now ws' ?e" for ws'] f settled
          begin_pass_covers [OF ok hold refl cov1] finish_scan_covers [OF ok hold refl cov1]
        by (simp add: scan_returned_def Some Scanning ScanResult Let_def ch)
    qed
  qed (use Some cov in \<open>simp_all add: scan_returned_def\<close>)
qed

lemma admit_request_covers:
  assumes ok: "driver_ok c d" and idle: "\<not> running (entry_heap d a)" and live: "\<not> disposed d"
    and tab: "entry_table d t = Some a" and t: "ent_task (entry_heap d a) = t" and cov: "covers d ow {t}"
    and rej: "Answered t Rejected \<in> set (snd (admit_request c a pr now start d)) \<longrightarrow> ow t \<longrightarrow> t \<in> except \<or> covered d t"
  shows "covers (fst (admit_request c a pr now start d))
    (foldl after_event ow (snd (admit_request c a pr now start d))) except"
proof -
  note I = idle_entry [OF ok idle]
  have cov': "covers d (ow(t := True)) {t}" using cov by (auto simp: covers_def)
  consider "active_scans d < maximum_scans c"
    | "\<not> active_scans d < maximum_scans c" "int (length (scan_waiters d)) \<ge> maximum_pending c"
    | "\<not> active_scans d < maximum_scans c" "int (length (scan_waiters d)) < maximum_pending c" by linarith
  then show ?thesis
  proof cases
    case 1
    let ?d = "set_owner a (Some (waiting_owner SlotAdmitted pr))
      ((upd_entry a (\<lambda>e. e\<lparr>retry_not_before := None, running := True\<rparr>) d)\<lparr>active_scans := active_scans d + 1\<rparr>)"
    have okd: "driver_ok c ?d" using admitted_ok [OF ok idle live] 1 tab t by simp
    have "covers ?d (ow(t := True)) {t}" unfolding covers_def
    proof (intro allI impI)
      fix u assume u: "(ow(t := True)) u"
      show "u \<in> {t} \<or> covered ?d u"
      proof (cases "u = t")
        case False
        then have "covered d u" using cov u by (auto simp: covers_def)
        then have "covered ?d u" by (rule covered_frame [of _ _ _ a]) (use False t not_in_table [OF ok] in auto)
        then show ?thesis by simp
      qed simp
    qed
    from begin_pass_covers [OF okd _ _ this] t show ?thesis using 1
      by (simp add: admit_request_def Let_def split_beta holds_slot_def waiting_owner_def covers_def)
  next
    case 2
    let ?d = "retire_entry c a (upd_entry a (\<lambda>e. e\<lparr>retry_not_before := None, running := False\<rparr>) d)"
    have r: "admit_request c a pr now start d = (?d, [Answered t Rejected])"
      using 2 t by (simp add: admit_request_def Let_def upd_entry_def)
    have "covered ?d u" if "ow u" "u \<noteq> t" for u
    proof -
      have "covered d u" using cov that by (auto simp: covers_def)
      then show ?thesis by (rule covered_frame [of _ _ _ a]) (use that t not_in_table [OF ok] in \<open>auto simp: retire_entry_table\<close>)
    qed
    moreover have "covered ?d t" if "covered d t"
      using that tab t I live by (auto simp: covered_def retire_entry_table)
    ultimately show ?thesis using rej unfolding r by (auto simp: covers_def)
  next
    case 3
    let ?d = "set_owner a (Some (waiting_owner AwaitingSlot pr))
      ((upd_entry a (\<lambda>e. e\<lparr>retry_not_before := None, running := True\<rparr>) d)\<lparr>scan_waiters := scan_waiters d @ [a]\<rparr>)"
    have "covered ?d u" if "ow u" "u \<noteq> t" for u
    proof -
      have "covered d u" using cov that by (auto simp: covers_def)
      then show ?thesis by (rule covered_frame [of _ _ _ a]) (use that t not_in_table [OF ok] in auto)
    qed
    moreover have "covered ?d t" using tab by (simp add: covered_def waiting_owner_def)
    ultimately show ?thesis using 3 t by (auto simp: admit_request_def Let_def covers_def)
  qed
qed

lemma request_idle_covers:
  assumes ok: "driver_ok c d" and idle: "\<not> running (entry_heap d a)" and live: "\<not> disposed d"
    and tab: "entry_table d t = Some a" and t: "ent_task (entry_heap d a) = t"
    and cov: "covers d ow ex" and ex: "ex \<subseteq> {t}"
  shows "covers (fst (request_idle c a pr now req start d)) (foldl after_event ow (snd (request_idle c a pr now req start d)))
    (if Answered t Rejected \<in> set (snd (request_idle c a pr now req start d)) then ex else {})"
proof -
  let ?e = "entry_heap d a"
  note I = idle_entry [OF ok idle]
  have cov1: "covers d ow {t}" using cov ex by (auto simp: covers_def)
  have armed: "covers (upd_entry a (\<lambda>_. arm_entry c False (Some w) now e) d) (ow(t := True)) {}" for e w
  proof -
    let ?d = "upd_entry a (\<lambda>_. arm_entry c False (Some w) now e) d"
    have "covered ?d t" using tab I(1) arm_entry_armed [of c w now e] by (simp add: covered_def)
    then show ?thesis using covers_update [OF ok cov1 t, of "\<lambda>_. arm_entry c False (Some w) now e"] by (auto simp: covers_def)
  qed
  have adm: "covers (fst (admit_request c a pr now start (upd_entry a (\<lambda>_. e) d)))
      (foldl after_event ow (snd (admit_request c a pr now start (upd_entry a (\<lambda>_. e) d))))
      (if Answered t Rejected \<in> set (snd (admit_request c a pr now start (upd_entry a (\<lambda>_. e) d))) then ex else {})"
    if f: "ent_task e = t \<and> \<not> running e \<and> revision e = revision ?e \<and> timer_at e = timer_at ?e" for e
  proof -
    have "a < next_entry d" using ok tab by (auto simp: driver_ok_def table_ok_def)
    then have "driver_ok c (upd_entry a (\<lambda>_. e) d)" using f idle t tab live by (intro entry_update_ok [OF ok]) auto
    moreover have "covered (upd_entry a (\<lambda>_. e) d) t" if "covered d t"
      using that tab I(1) f by (auto simp: covered_def)
    ultimately show ?thesis using f live tab t cov cov1 covers_update [OF ok cov1 t]
      by (intro admit_request_covers) (auto simp: covers_def)
  qed
  obtain e1 v where r: "requested_revision c now req ?e = (e1, v)" by fastforce
  note f = requested_revision_fields [OF r]
  show ?thesis
  proof (cases v)
    case None
    then show ?thesis using armed f t by (simp add: request_idle_def r)
  next
    case (Some w)
    define e2 where "e2 = (if w \<noteq> input_revision e1 then e1\<lparr>retry_not_before := None\<rparr> else e1)"
    have f2: "ent_task e2 = t \<and> \<not> running e2 \<and> revision e2 = revision ?e \<and> timer_at e2 = timer_at ?e"
      using f t idle by (simp add: e2_def)
    show ?thesis
    proof (cases "retry_not_before e2")
      case None
      then show ?thesis using adm [OF f2] by (simp add: request_idle_def r Some e2_def [symmetric] retry_held_def Let_def)
    next
      case (Some r')
      then show ?thesis using adm [OF f2] armed [of r' e2] f t
        by (cases "now < r'") (simp_all add: request_idle_def r \<open>v = Some w\<close> e2_def [symmetric] retry_held_def Let_def)
    qed
  qed
qed

lemma start_request_covers:
  assumes ok: "driver_ok c d0" and cov: "covers d0 ow ex" and ex: "ex \<subseteq> {t}"
  shows "covers (fst (start_request c t pr now req start d0)) (foldl after_event ow (snd (start_request c t pr now req start d0)))
    (if Answered t Rejected \<in> set (snd (start_request c t pr now req start d0)) then ex else {})"
proof (cases "disposed d0")
  case True
  then show ?thesis using cov by (simp add: start_request_def covers_def)
next
  case False
  obtain d1 a where da: "entry_of t d0 = (d1, a)" by fastforce
  note E = entry_of_ok [OF ok da]
  let ?d = "upd_entry a (\<lambda>e. e\<lparr>revision := revision e + 1\<rparr>) d1"
  have "a < next_entry d1" using E(1,2) by (auto simp: driver_ok_def table_ok_def)
  then have okd: "driver_ok c ?d" using E False by (intro entry_update_ok) auto
  have old: "covered d1 u" if "covered d0 u" for u
  proof (cases "entry_table d0 t")
    case None
    then have a: "a = next_entry d0" using da by (auto simp: entry_of_def)
    have none: "owners d0 a = None" using ok unfolding a driver_ok_def entry_ok_def by (metis less_irrefl)
    show ?thesis
    proof (cases "u = t")
      case True
      then show ?thesis using that None E False none by (auto simp: covered_def)
    next
      case f: False
      have "entry_table d0 u \<noteq> Some a" using ok a by (auto simp: driver_ok_def table_ok_def)
      moreover have "entry_heap d1 b = entry_heap d0 b" if "b \<noteq> a" for b using da None that by (auto simp: entry_of_def)
      ultimately show ?thesis using that f E by (intro covered_frame [of d0 u d1 a]) auto
    qed
  next
    case (Some b)
    then show ?thesis using E(9) that by simp
  qed
  have new: "covered ?d u" if "covered d1 u" for u
  proof (cases "u = t")
    case True
    then show ?thesis using that E(2) by (auto simp: covered_def split: option.splits owner_phase.splits)
  next
    case f: False
    then have "entry_table d1 u \<noteq> Some a" using E(3) by (intro not_in_table [OF E(1)]) simp
    then show ?thesis by (intro covered_frame [OF that, of _ a]) simp_all
  qed
  have covd: "covers ?d ow ex" using cov old new by (auto simp: covers_def)
  show ?thesis
  proof (cases "running (entry_heap d1 a)")
    case True
    have ent: "entry_ok d1 a" using E(1) by (simp add: driver_ok_def)
    with True obtain o1 where o1: "owners d1 a = Some o1" by (auto simp: entry_ok_def)
    with ent have "observed_ok (entry_heap d1 a) (own_phase o1)" by (simp add: entry_ok_def)
    then have "covered ?d t" using o1 E(2) by (auto simp: covered_def observed_ok_def split: owner_phase.split)
    then show ?thesis using True False covd ex by (auto simp: start_request_def da Let_def covers_def)
  next
    case idle: False
    have "covers (fst (request_idle c a pr now req start ?d)) (foldl after_event ow (snd (request_idle c a pr now req start ?d)))
      (if Answered t Rejected \<in> set (snd (request_idle c a pr now req start ?d)) then ex else {})"
      by (rule request_idle_covers [OF okd]) (use idle False E covd ex in auto)
    then show ?thesis using False idle by (simp add: start_request_def da Let_def)
  qed
qed

lemma covered_cong:
  assumes "disposed d' = disposed d" "entry_table d' = entry_table d" "owners d' = owners d" "entry_heap d' = entry_heap d"
    "u \<in> fst ` set (rearms d') \<longleftrightarrow> u \<in> fst ` set (rearms d)"
  shows "covered d' u = covered d u"
  unfolding covered_def assms ..

text \<open>The pieces that leave entries as they are, or only hand a slot on.\<close>

lemma release_slot_covers:
  assumes ok: "driver_ok c d" and cov: "covers d ow {}"
  shows "covers (release_slot d) ow {}"
proof -
  have "covered (release_slot d) u" if "covered d u" for u
  proof (cases "releasing d = 0 \<or> scan_waiters d = []")
    case True
    then have "covered (release_slot d) u = covered d u"
      by (intro covered_cong) (auto simp: release_slot_def)
    then show ?thesis using that by simp
  next
    case False
    then obtain a rest where w: "scan_waiters d = a # rest" by (cases "scan_waiters d") auto
    then have live: "\<not> disposed d" and "awaits_slot d a" using ok by (auto simp: driver_ok_def slots_ok_def)
    then obtain o1 where o1: "owners d a = Some o1" by (auto simp: awaits_slot_def)
    show ?thesis
    proof (cases "entry_table d u = Some a")
      case True
      then show ?thesis using False w live o1 by (simp add: release_slot_def covered_def Let_def)
    next
      case other: False
      then show ?thesis using False w live by (intro covered_frame [OF that, of _ a]) (simp_all add: release_slot_def Let_def)
    qed
  qed
  then show ?thesis using cov by (auto simp: covers_def)
qed

lemma slot_resolved_covers:
  assumes ok: "driver_ok c d" and cov: "covers d ow {}"
  shows "covers (fst (slot_resolved c a now start d)) (foldl after_event ow (snd (slot_resolved c a now start d))) {}"
proof (cases "owners d a")
  case None
  then show ?thesis using cov by (simp add: slot_resolved_def)
next
  case (Some o1)
  show ?thesis
  proof (cases "own_phase o1")
    case SlotAdmitted
    then have "holds_slot d a" using Some by (simp add: holds_slot_def)
    moreover have "covers d ow {ent_task (entry_heap d a)}" using cov by (auto simp: covers_def)
    ultimately show ?thesis using begin_pass_covers [OF ok _ refl] Some SlotAdmitted by (simp add: slot_resolved_def)
  next
    case SlotRefused
    have "entry_ok d a" using ok by (simp add: driver_ok_def)
    then have "disposed d" using Some SlotRefused by (auto simp: entry_ok_def)
    then show ?thesis using Some SlotRefused by (simp add: slot_resolved_def covers_def covered_def)
  qed (use Some cov in \<open>simp_all add: slot_resolved_def\<close>)
qed

lemma timer_fired_covers:
  assumes ok: "driver_ok c d" and cov: "covers d ow {}"
  shows "covers (timer_fired a d) ow {}"
proof (cases "timer_at (entry_heap d a)")
  case (Some w)
  let ?t = "ent_task (entry_heap d a)"
  have "covered (timer_fired a d) u" if "covered d u" for u
  proof (cases "entry_table d u = Some a")
    case True
    then have "u = ?t" using ok by (auto simp: driver_ok_def table_ok_def)
    then show ?thesis using True that Some
      by (auto simp: timer_fired_def covered_def split: option.splits owner_phase.splits)
  next
    case False
    then show ?thesis using Some by (intro covered_frame [OF that, of _ a]) (auto simp: timer_fired_def)
  qed
  then show ?thesis using cov by (auto simp: covers_def)
qed (use cov in \<open>simp add: timer_fired_def\<close>)

lemma other_rearms:
  "u \<noteq> t \<Longrightarrow> u \<in> fst ` set (remove1 (t, a) r) \<longleftrightarrow> u \<in> fst ` set r"
  by (induction r) (auto simp: image_iff)

lemma unqueue_rearm_covers:
  assumes "covers d ow {}"
  shows "covers (d\<lparr>rearms := remove1 (t, a) (rearms d)\<rparr>) ow {t}"
proof -
  have "covered (d\<lparr>rearms := remove1 (t, a) (rearms d)\<rparr>) u = covered d u" if "u \<noteq> t" for u
    by (rule covered_cong) (simp_all add: other_rearms [OF that])
  then show ?thesis using assms by (auto simp: covers_def)
qed

lemma rearm_runs_covers:
  assumes ok: "driver_ok c d" and cov: "covers d ow {}"
  shows "covers (fst (rearm_runs c t a now req start d)) (foldl after_event ow (snd (rearm_runs c t a now req start d))) {}"
proof -
  let ?d = "d\<lparr>rearms := remove1 (t, a) (rearms d)\<rparr>"
  have "driver_ok c ?d" using ok by (simp add: rearms_ok)
  from start_request_covers [OF this unqueue_rearm_covers [OF cov] order.refl, where pr = False and now = now and req = req and start = start]
  show ?thesis using cov by (auto simp: rearm_runs_def split_beta covers_def split: if_splits)
qed

lemma rearm_fails_covers:
  assumes ok: "driver_ok c d" and cov: "covers d ow {}"
  shows "covers (fst (rearm_fails c t a now d)) (foldl after_event ow (snd (rearm_fails c t a now d))) {}"
proof -
  let ?d = "d\<lparr>rearms := remove1 (t, a) (rearms d)\<rparr>"
  have cov1: "covers ?d ow {t}" by (rule unqueue_rearm_covers [OF cov])
  have okd: "driver_ok c ?d" using ok by (simp add: rearms_ok)
  show ?thesis
  proof (cases "disposed d \<or> entry_table d t \<noteq> Some a")
    case True
    then show ?thesis using cov cov1 by (auto simp: rearm_fails_def Let_def covers_def)
  next
    case False
    then have t: "ent_task (entry_heap d a) = t" using ok by (auto simp: driver_ok_def table_ok_def)
    let ?f = "\<lambda>e. arm_entry c False (Some (penalty c now [] e)) now (penalize c now [] e)"
    have "covered (upd_entry a ?f ?d) t" if "ow t" "(t, a) \<in> set (rearms d)"
    proof -
      have "covered d t" using cov that by (auto simp: covers_def)
      then show ?thesis using False arm_entry_armed [of c _ now]
        by (auto simp: covered_def split: option.splits owner_phase.splits)
    qed
    then show ?thesis using False cov covers_update [OF okd cov1, of a ?f] t
      by (auto simp: rearm_fails_def Let_def covers_def)
  qed
qed

lemma driver_piece_covers:
  assumes "driver_ok c d" "covers d ow {}"
  shows "covers (fst (driver_piece c d op)) (foldl after_event ow (snd (driver_piece c d op))) {}"
proof (cases op)
  case (Request t pr now req start)
  then show ?thesis using start_request_covers [OF assms, of t pr now req start] by (simp split: if_splits)
next
  case (RearmDeclined t a)
  then show ?thesis using assms unqueue_rearm_covers [OF assms(2), of t a] by (auto simp: rearm_declined_def covers_def)
next
  case DisposeDriver
  then show ?thesis by (simp add: covers_def covered_def dispose_driver_def)
qed (use assms in \<open>simp_all add: scan_returned_covers release_slot_covers slot_resolved_covers timer_fired_covers
      rearm_runs_covers rearm_fails_covers\<close>)

lemma new_driver_ok:
  assumes "valid_options c"
  shows "driver_ok c new_driver"
proof -
  have "0 < maximum_scans c" "0 < maximum_pending c" using assms by (simp_all add: valid_options_def)
  then show ?thesis
    by (simp add: driver_ok_def table_ok_def entry_ok_def slots_ok_def new_driver_def holds_slot_def awaits_slot_def blank_entry_def)
qed

definition history_ok :: "driver_options \<Rightarrow> driver \<times> driver_event list \<Rightarrow> bool" where
  "history_ok c w \<longleftrightarrow> (valid_options c \<longrightarrow> driver_ok c (fst w) \<and> covers (fst w) (owed (snd w)) {})"

interpretation driver_runs: step_system "driver_step c" "(new_driver, [])" "history_ok c" for c
proof unfold_locales
  show "history_ok c (new_driver, [])" by (simp add: history_ok_def new_driver_ok covers_def owed_def)
  fix w op assume "history_ok c w"
  then show "history_ok c (driver_step c w op)"
    using driver_piece_ok [of c "fst w" op] driver_piece_covers [of c "fst w" "owed (snd w)" op]
    by (cases w) (simp add: history_ok_def owed_def split_beta)
qed

section \<open>Pacing of a finished scan\<close>

text \<open>
  What the timer of an entry must respect when a scan at \<open>now\<close> has ended with the reported
  instants \<open>ws\<close>: it is armed if there is anything to come back for, never before the minimum
  delay or the retry deadline, never later than the largest delay, and it never fires after an
  instant in the future that the scan has reported (up to the minimum delay).
\<close>

definition paced :: "driver_options \<Rightarrow> int \<Rightarrow> int list \<Rightarrow> driver_entry \<Rightarrow> bool" where
  "paced c now ws e \<longleftrightarrow> (case timer_at e of
     None \<Rightarrow> ws = [] \<and> retry_not_before e = None
   | Some w \<Rightarrow> now + minimum_wake_delay c \<le> w \<and> w \<le> now + max (maximum_wake_delay c) (maximum_backoff c)
       \<and> (\<forall>i \<in> set ws. now < i \<longrightarrow> w \<le> max i (now + minimum_wake_delay c))
       \<and> (case retry_not_before e of None \<Rightarrow> True | Some r \<Rightarrow> now < r \<and> r \<le> w))"

lemma penalty_bounds:
  fixes now b :: int
  defines "f \<equiv> foldl (\<lambda>deadline i. if i > now then min deadline i else deadline)"
  shows "now < b \<Longrightarrow> now < f b ws" "f b ws \<le> b" "i \<in> set ws \<Longrightarrow> now < i \<Longrightarrow> f b ws \<le> i"
proof -
  show le: "f b ws \<le> b" for b ws
  proof (induction ws arbitrary: b)
    case (Cons i ws)
    from Cons [of "min b i"] Cons [of b] show ?case by (simp add: f_def)
  qed (simp add: f_def)
  show "now < b \<Longrightarrow> now < f b ws" unfolding f_def by (induction ws arbitrary: b) auto
  show "i \<in> set ws \<Longrightarrow> now < i \<Longrightarrow> f b ws \<le> i"
  proof (induction ws arbitrary: b)
    case (Cons j ws)
    have "f (min b i) ws \<le> i" using le [of "min b i" ws] by simp
    with Cons show ?case by (auto simp: f_def)
  qed simp
qed

lemma penalty_ok:
  assumes "valid_options c"
  shows "now < penalty c now ws e" "penalty c now ws e \<le> now + maximum_backoff c"
    "i \<in> set ws \<Longrightarrow> now < i \<Longrightarrow> penalty c now ws e \<le> i"
proof -
  have "0 < initial_backoff c" "0 < maximum_backoff c" using assms by (auto simp: valid_options_def)
  then have "0 < initial_backoff c * 2 ^ n" "0 < maximum_backoff c" for n by simp_all
  then have base: "now < now + min (initial_backoff c * 2 ^ nat (min (failures e) 30)) (maximum_backoff c)" by simp
  show "now < penalty c now ws e" unfolding penalty_def by (rule penalty_bounds(1) [OF base])
  show "penalty c now ws e \<le> now + maximum_backoff c" unfolding penalty_def
    by (rule order.trans [OF penalty_bounds(2)]) simp
  show "i \<in> set ws \<Longrightarrow> now < i \<Longrightarrow> penalty c now ws e \<le> i" unfolding penalty_def by (rule penalty_bounds(3))
qed

lemma earliest_least: "earliest ws = Some m \<Longrightarrow> m \<in> set ws \<and> (\<forall>w \<in> set ws. m \<le> w)"
proof -
  have "foldl min b rest \<in> insert b (set rest) \<and> (\<forall>w \<in> insert b (set rest). foldl min b rest \<le> w)" for b :: int and rest
  proof (induction rest arbitrary: b)
    case (Cons x rest)
    have "foldl min (min b x) rest \<le> min b x" using Cons [of "min b x"] by blast
    then show ?case using Cons [of "min b x"] by (auto simp: min_def split: if_splits)
  qed simp
  then show "earliest ws = Some m \<Longrightarrow> m \<in> set ws \<and> (\<forall>w \<in> set ws. m \<le> w)"
    by (cases ws) (auto simp: earliest_def)
qed

lemma earliest_None: "earliest ws = None \<longleftrightarrow> ws = []"
  by (simp add: earliest_def split: list.split)

lemma finish_paced:
  assumes valid: "valid_options c" and now: "0 \<le> now" and live: "\<not> disposed d"
    and r: "retry_not_before (entry_heap d a) = None \<and> reported = ws
      \<or> retry_not_before (entry_heap d a) = Some (penalty c now ws e) \<and> reported = ws @ [penalty c now ws e]"
  shows "paced c now ws (entry_heap (fst (finish_scan c a reported now n fl d)) a)"
proof -
  have opts: "0 < minimum_wake_delay c" "minimum_wake_delay c \<le> maximum_wake_delay c" "0 < maximum_backoff c"
    using valid by (auto simp: valid_options_def)
  note P = penalty_ok [OF valid, where now = now and ws = ws and e = e]
  show ?thesis
  proof (cases "earliest reported")
    case None
    then have "reported = []" by (simp add: earliest_None)
    then show ?thesis using r by (simp add: finish_scan_def Let_def paced_def arm_entry_def earliest_def)
  next
    case (Some m)
    note m = earliest_least [OF Some]
    have least: "m \<le> i" if "i \<in> set ws" for i using m r that by auto
    define r0 where "r0 = (case retry_not_before (entry_heap d a) of None \<Rightarrow> 0 | Some r \<Rightarrow> r)"
    have r0: "r0 \<le> now + maximum_backoff c" "\<And>i. i \<in> set ws \<Longrightarrow> now < i \<Longrightarrow> r0 \<le> i"
      using r P(2,3) now opts by (auto simp: r0_def)
    define w where "w = now + max (min (max (m - now) (minimum_wake_delay c)) (maximum_wake_delay c)) (r0 - now)"
    have "w \<le> max i (now + minimum_wake_delay c)" if i: "i \<in> set ws" "now < i" for i
    proof -
      have "min (max (m - now) (minimum_wake_delay c)) (maximum_wake_delay c) \<le> max (m - now) (minimum_wake_delay c)" by simp
      also have "\<dots> \<le> max (i - now) (minimum_wake_delay c)" using least [OF i(1)] by auto
      finally show ?thesis using r0(2) [OF i] by (auto simp: w_def)
    qed
    moreover have "now + minimum_wake_delay c \<le> w" "w \<le> now + max (maximum_wake_delay c) (maximum_backoff c)" "r0 \<le> w"
      using opts r0(1) by (auto simp: w_def)
    moreover have "timer_at (entry_heap (fst (finish_scan c a reported now n fl d)) a) = Some w"
      "retry_not_before (entry_heap (fst (finish_scan c a reported now n fl d)) a) = retry_not_before (entry_heap d a)"
      using live by (simp_all add: finish_scan_def Let_def arm_entry_def Some w_def r0_def)
    ultimately show ?thesis using r P(1) by (auto simp: paced_def r0_def)
  qed
qed

text \<open>The reported instants a finished scan leaves: those of earlier passes and its own.\<close>

definition outcome_wakes :: "scan_outcome \<Rightarrow> int list" where
  "outcome_wakes outcome = (case outcome of ScanFault \<Rightarrow> [] | ScanResult _ wake _ \<Rightarrow> (case wake of None \<Rightarrow> [] | Some w \<Rightarrow> [w]))"

lemma read_revision_retry: "read_revision c r e = (e1, v) \<Longrightarrow> retry_not_before e1 = retry_not_before e"
  by (auto simp: read_revision_def split: if_splits revision_read.splits)

lemma changed_after_scan_retry: "changed_after_scan c r e = (e1, v) \<Longrightarrow> retry_not_before e1 = retry_not_before e"
  by (auto simp: changed_after_scan_def split: if_splits prod.splits option.splits dest: read_revision_retry)

lemma begin_pass_finished:
  assumes valid: "valid_options c" and now: "0 \<le> now" and live: "\<not> disposed d"
    and fin: "owners (fst (begin_pass c a pass ws n fl pr now start d)) a = None"
  shows "paced c now ws (entry_heap (fst (begin_pass c a pass ws n fl pr now start d)) a)"
proof -
  obtain e1 v where r: "read_revision c start (decay_failures c now (entry_heap d a)) = (e1, v)" by fastforce
  show ?thesis
  proof (cases v)
    case None
    then show ?thesis using finish_paced [OF valid now, of "upd_entry a (\<lambda>_. penalize c now ws e1) d" a _ ws e1] live
      by (simp add: begin_pass_def Let_def r penalize_def)
  next
    case (Some w)
    then show ?thesis using fin by (simp add: begin_pass_def Let_def r)
  qed
qed

lemma scan_returned_paced:
  assumes valid: "valid_options c" and now: "0 \<le> now" and live: "\<not> disposed d"
    and ow: "owners d a = Some ow" "own_phase ow = Scanning pass obs ws"
    and quiet: "retry_not_before (entry_heap d a) = None"
    and fin: "owners (fst (scan_returned c a outcome now probe start d)) a = None"
  shows "paced c now (ws @ outcome_wakes outcome) (entry_heap (fst (scan_returned c a outcome now probe start d)) a)"
proof -
  let ?e = "entry_heap d a" and ?ws = "ws @ outcome_wakes outcome"
  have begun: "paced c now ?ws (entry_heap (fst (begin_pass c a p ?ws n fl pr now start d')) a)"
    if "\<not> disposed d'" "owners (fst (begin_pass c a p ?ws n fl pr now start d')) a = None" for d' p n fl pr
    using begin_pass_finished [OF valid now that] .
  have ended: "paced c now ?ws (entry_heap (fst (finish_scan c a (?ws @ [penalty c now ?ws e']) now n fl (upd_entry a (\<lambda>_. e) d))) a)"
    if "retry_not_before e = Some (penalty c now ?ws e')" for e e' n fl
    using that live by (intro finish_paced [OF valid now, where e = e']) auto
  show ?thesis
  proof (cases outcome)
    case ScanFault
    obtain e2 ch where ch: "(if pass + 1 < max_passes c then changed_after_scan c probe (penalize c now ws ?e)
        else (penalize c now ws ?e, False)) = (e2, ch)" by fastforce
    then have "retry_not_before e2 = Some (penalty c now ws ?e)"
      using changed_after_scan_retry [of c probe "penalize c now ws ?e"] by (auto simp: penalize_def split: if_splits)
    then show ?thesis using fin live begun ended [of e2 ?e]
      by (cases ch) (simp_all add: scan_returned_def ow ScanFault Let_def ch outcome_wakes_def)
  next
    case (ScanResult n w np)
    obtain e2 ch where ch: "(if pass + 1 < max_passes c then changed_after_scan c probe ?e else (?e, False)) = (e2, ch)"
      by fastforce
    have w: "ws @ (case w of None \<Rightarrow> [] | Some w \<Rightarrow> [w]) = ?ws" by (simp add: ScanResult outcome_wakes_def)
    have settled: "paced c now ?ws (entry_heap (fst (finish_scan c a ?ws now n' fl d)) a)" for n' fl
      using quiet live by (intro finish_paced [OF valid now]) auto
    have pen: "retry_not_before (penalize c now ?ws e') = Some (penalty c now ?ws e')" for e' by (simp add: penalize_def)
    show ?thesis using fin live begun settled ended [OF pen]
      unfolding scan_returned_def ow option.case owner_phase.case Let_def ScanResult scan_outcome.case w [unfolded ScanResult] ch prod.case
      by (auto simp: ScanResult split: if_splits)
  qed
qed

section \<open>What the driver promises\<close>

text \<open>
  C0: the driver keeps its bounds and owns each Task once. In every reachable state at most
  \<open>maximumConcurrentScans\<close> scans run and at most \<open>maximumPendingScans\<close> wait, nobody waits while
  a slot is free, and no two owners work on the same Task.
\<close>

theorem scans_bounded_and_exclusive:
  assumes "valid_options c" "d = fst (run_steps (driver_step c) (new_driver, []) ops)"
  shows "int (card {a. \<exists>ow pass observed ws. owners d a = Some ow \<and> own_phase ow = Scanning pass observed ws}) \<le> maximum_scans c
    \<and> int (length (scan_waiters d)) \<le> maximum_pending c
    \<and> (scan_waiters d \<noteq> [] \<longrightarrow> active_scans d = maximum_scans c)
    \<and> (\<not> disposed d \<longrightarrow> inj_on (\<lambda>a. ent_task (entry_heap d a)) {a. owners d a \<noteq> None})"
proof -
  have ok: "driver_ok c d" using driver_runs.reachable_inv [of c ops] assms by (simp add: history_ok_def)
  then have slots: "slots_ok c d" and fin: "finite {a. holds_slot d a}" and ent: "entry_ok d a" for a
    using finite_holders by (auto simp: driver_ok_def)
  have "card {a. \<exists>ow pass observed ws. owners d a = Some ow \<and> own_phase ow = Scanning pass observed ws} \<le> card {a. holds_slot d a}"
    by (rule card_mono [OF fin]) (auto simp: holds_slot_def)
  then have "int (card {a. \<exists>ow pass observed ws. owners d a = Some ow \<and> own_phase ow = Scanning pass observed ws}) \<le> maximum_scans c"
    using slots unfolding slots_ok_def by linarith
  moreover have "int (length (scan_waiters d)) \<le> maximum_pending c" "scan_waiters d \<noteq> [] \<longrightarrow> active_scans d = maximum_scans c"
    using slots unfolding slots_ok_def by blast+
  moreover have "inj_on (\<lambda>a. ent_task (entry_heap d a)) {a. owners d a \<noteq> None}" if "\<not> disposed d"
  proof (rule inj_onI)
    fix a b assume ab: "a \<in> {a. owners d a \<noteq> None}" "b \<in> {a. owners d a \<noteq> None}"
      and same: "ent_task (entry_heap d a) = ent_task (entry_heap d b)"
    have tab: "entry_table d (ent_task (entry_heap d e)) = Some e" if "owners d e \<noteq> None" for e
      using ent [of e] that \<open>\<not> disposed d\<close> unfolding entry_ok_def by blast
    have "Some a = entry_table d (ent_task (entry_heap d b))" using tab [of a] ab(1) unfolding same by simp
    also have "\<dots> = Some b" using tab [of b] ab(2) by simp
    finally show "a = b" by simp
  qed
  ultimately show ?thesis by blast
qed

text \<open>
  C11: accepted demand stays backed until a pass begins or a fired timer loses it. A Task is
  owed a scan from a request that was admitted or coalesced until a pass for it begins, or
  until the re-entry of its fired timer is dropped: the request of that re-entry is rejected
  for capacity, or it throws after its entry was retired, or the closing Project declines it
  (nobody looks at the answer, so such a demand is lost; \<open>owed\<close> counts it as discharged). While
  the driver is not disposed, in every reachable state in which a Task is owed a scan, its
  timer is armed or has fired, or its scan is queued or has been promised a slot, or the scan
  that runs observed an older revision, in which case it runs another pass or arms the timer.
\<close>

theorem accepted_demand_is_kept:
  assumes "valid_options c" "run_steps (driver_step c) (new_driver, []) ops = (d, log)" "owed log t" "\<not> disposed d"
  shows "t \<in> fst ` set (rearms d) \<or> (\<exists>a. entry_table d t = Some a \<and>
    (timer_at (entry_heap d a) \<noteq> None \<or> a \<in> set (scan_waiters d) \<or>
     (\<exists>ow. owners d a = Some ow \<and> (own_phase ow = SlotAdmitted \<or>
        (\<exists>pass observed ws. own_phase ow = Scanning pass observed ws \<and> observed < revision (entry_heap d a))))))"
proof -
  have ok: "driver_ok c d" and cov: "covered d t"
    using driver_runs.reachable_inv [of c ops] assms by (simp_all add: history_ok_def covers_def)
  show ?thesis
  proof (cases "entry_table d t")
    case None
    then show ?thesis using cov assms(4) by (simp add: covered_def)
  next
    case (Some a)
    show ?thesis
    proof (cases "owners d a")
      case None
      then show ?thesis using cov assms(4) Some by (auto simp: covered_def)
    next
      case (Some ow)
      have "entry_ok d a" "slots_ok c d" using ok by (simp_all add: driver_ok_def)
      then have "own_phase ow \<noteq> SlotRefused" "own_phase ow = AwaitingSlot \<longrightarrow> a \<in> set (scan_waiters d)"
        using Some assms(4) by (auto simp: entry_ok_def slots_ok_def awaits_slot_def)
      then show ?thesis using cov assms(4) Some \<open>entry_table d t = Some a\<close>
        by (cases "own_phase ow") (auto simp: covered_def)
    qed
  qed
qed

text \<open>
  Pacing never postpones a transition that the reducer has announced. When a scan ends, the
  timer is armed if an instant was reported or a fault is paced; it respects the minimum delay
  and the retry deadline, stays below the largest delay, and fires no later than every future
  instant that any pass of the scan has reported.
\<close>

theorem fault_pacing_keeps_transitions:
  assumes "valid_options c" "0 \<le> now" "\<not> disposed d" "owners d a = Some ow" "own_phase ow = Scanning pass obs ws"
    and "retry_not_before (entry_heap d a) = None"
    and "owners (fst (driver_piece c d (ScanReturns a outcome now probe start))) a = None"
  shows "paced c now (ws @ outcome_wakes outcome) (entry_heap (fst (driver_piece c d (ScanReturns a outcome now probe start))) a)"
  using scan_returned_paced [OF assms(1-6)] assms(7) by simp

text \<open>Tasks \<open>x\<close>, \<open>y\<close> and \<open>z\<close> with one slot and one place in the queue.\<close>

definition small_options :: driver_options where
  "small_options = \<lparr>max_passes = 64, minimum_wake_delay = 25, maximum_wake_delay = 3600000, initial_backoff = 1000,
     maximum_backoff = 60000, heartbeat_delay = 30000, maximum_scans = 1, maximum_pending = 1,
     retire_settled = True, reads_revision = False\<rparr>"

definition saturating_ops :: "driver_op list" where
  "saturating_ops =
    [Request ''x'' False 0 ReadFault ReadFault, ScanReturns 0 (ScanResult 0 (Some 1000) False) 0 ReadFault ReadFault, ReleaseSlot,
     Request ''y'' False 1 ReadFault ReadFault, Request ''z'' False 2 ReadFault ReadFault]"

text \<open>
  A timer that fires while all slots are taken is lost. The re-entry ignores that its
  request is rejected; the entry has no timer any more and is retired, so the instant at which
  the reducer announced a transition passes without a scan, although nobody has disposed the
  driver.
\<close>

theorem saturated_timer_drops_demand:
  "let before = run_steps (driver_step small_options) (new_driver, []) saturating_ops;
       after = run_steps (driver_step small_options) before [FireTimer 0, RearmRuns ''x'' 0 1000 ReadFault ReadFault]
   in timer_at (entry_heap (fst before) 0) = Some 1000
      \<and> Dropped ''x'' \<in> set (snd after) \<and> \<not> disposed (fst after)
      \<and> entry_table (fst after) ''x'' = None \<and> rearms (fst after) = [] \<and> owners (fst after) 0 = None"
  by code_simp

lemma small_options_valid: "valid_options small_options"
  by (simp add: valid_options_def small_options_def is_safe_integer.simps max_safe_integer_def)

text \<open>Two Tasks, one slot: the second waits and no slot is free.\<close>

theorem scans_bounded_and_exclusive_witness:
  "let d = fst (run_steps (driver_step small_options) (new_driver, []) saturating_ops)
   in scan_waiters d = [2] \<and> active_scans d = 1 \<and> inj_on (\<lambda>a. ent_task (entry_heap d a)) {a. owners d a \<noteq> None}"
proof -
  let ?d = "fst (run_steps (driver_step small_options) (new_driver, []) saturating_ops)"
  have "scan_waiters ?d = [2] \<and> active_scans ?d = 1 \<and> \<not> disposed ?d" by code_simp
  then show ?thesis using scans_bounded_and_exclusive [OF small_options_valid refl, of saturating_ops] by simp
qed

theorem accepted_demand_is_kept_witness:
  "let w = run_steps (driver_step small_options) (new_driver, []) saturating_ops
   in owed (snd w) ''z'' \<and> rearms (fst w) = [] \<and> (\<exists>a. entry_table (fst w) ''z'' = Some a)"
proof -
  let ?w = "run_steps (driver_step small_options) (new_driver, []) saturating_ops"
  have w: "owed (snd ?w) ''z''" "rearms (fst ?w) = []" "\<not> disposed (fst ?w)" by code_simp+
  from accepted_demand_is_kept [OF small_options_valid _ w(1) w(3), of saturating_ops] w(1,2)
  show ?thesis by (auto simp: Let_def)
qed

text \<open>A scan that reports the instant 1500 and makes no progress at 1000 is woken at 1500, before its backoff ends.\<close>

definition slow_options :: driver_options where
  "slow_options = small_options\<lparr>initial_backoff := 5000\<rparr>"

theorem fault_pacing_keeps_transitions_witness:
  "let d = fst (run_steps (driver_step slow_options) (new_driver, []) [Request ''x'' False 0 ReadFault ReadFault]);
       e = entry_heap (fst (driver_piece slow_options d (ScanReturns 0 (ScanResult 0 (Some 1500) True) 1000 ReadFault ReadFault))) 0
   in paced slow_options 1000 [1500] e \<and> timer_at e = Some 1500 \<and> retry_not_before e = Some 1500"
proof -
  let ?d = "fst (run_steps (driver_step slow_options) (new_driver, []) [Request ''x'' False 0 ReadFault ReadFault])"
  let ?op = "ScanReturns 0 (ScanResult 0 (Some 1500) True) 1000 ReadFault ReadFault"
  have v: "valid_options slow_options" using small_options_valid by (simp add: slow_options_def valid_options_def small_options_def)
  have d: "\<not> disposed ?d" "map_option own_phase (owners ?d 0) = Some (Scanning 0 1 [])" "retry_not_before (entry_heap ?d 0) = None"
    "owners (fst (driver_piece slow_options ?d ?op)) 0 = None" "timer_at (entry_heap (fst (driver_piece slow_options ?d ?op)) 0) = Some 1500"
    "retry_not_before (entry_heap (fst (driver_piece slow_options ?d ?op)) 0) = Some 1500" by code_simp+
  from d(2) obtain ow where ow: "owners ?d 0 = Some ow" "own_phase ow = Scanning 0 1 []" by auto
  from fault_pacing_keeps_transitions [OF v _ d(1) ow d(3,4)] d(5,6) show ?thesis by (simp add: outcome_wakes_def Let_def)
qed

end
