(* ===== verification/Heartbeat.thy ===== *)
theory Heartbeat
  imports ControlDriver
begin

text \<open>
  The level-triggered heartbeat of the Task control driver (\<open>armHeartbeat\<close>, \<open>hintWithOwner\<close>
  and \<open>bootstrapHeartbeatSlice\<close> of \<open>engine/task-control-driver.ts\<close>). A sweep re-enters the
  Project, reads one slice of Tasks unless an earlier slice is unfinished, hints every Task of
  the slice in a re-entry of its own, and keeps the Tasks whose hint was rejected for the next
  sweep; the slice is committed when none is left. A sweep is asynchronous, so its pieces
  interleave with the pieces of the driver and of other sweeps. Slices are objects: a sweep
  keeps the one it has read even after the driver has forgotten it.
\<close>

record heartbeat_slice =
  hs_remaining :: "string list"
  hs_more :: bool

datatype sweep_phase = EnteringProject | SliceAtHand | Hinting nat "(string \<times> admission option) list"

record heartbeat =
  hb_driver :: driver
  hb_timer :: "int option"
  hb_slice :: "nat option"
  hb_slices :: "nat \<Rightarrow> heartbeat_slice"
  hb_next_slice :: nat
  hb_sweeps :: "nat \<Rightarrow> sweep_phase option"
  hb_next_sweep :: nat

datatype heartbeat_event =
    SliceRead nat "string list"
  | HintAnswered nat string admission
  | SliceCommitted nat
  | DriverEvents "driver_event list"

definition arm_heartbeat :: "int \<Rightarrow> heartbeat \<Rightarrow> heartbeat" where
  "arm_heartbeat delay h = (if disposed (hb_driver h) then h else h\<lparr>hb_timer := Some delay\<rparr>)"

definition new_heartbeat :: "driver_options \<Rightarrow> heartbeat" where
  "new_heartbeat c = arm_heartbeat (heartbeat_delay c)
     \<lparr>hb_driver = new_driver, hb_timer = None, hb_slice = None, hb_slices = (\<lambda>_. \<lparr>hs_remaining = [], hs_more = False\<rparr>),
      hb_next_slice = 0, hb_sweeps = (\<lambda>_. None), hb_next_sweep = 0\<rparr>"

definition set_sweep :: "nat \<Rightarrow> sweep_phase option \<Rightarrow> heartbeat \<Rightarrow> heartbeat" where
  "set_sweep k p h = h\<lparr>hb_sweeps := (hb_sweeps h)(k := p)\<rparr>"

definition bootstrap_heartbeat :: "driver_options \<Rightarrow> heartbeat \<Rightarrow> heartbeat" where
  "bootstrap_heartbeat c h = arm_heartbeat (minimum_wake_delay c) h"

definition heartbeat_fires :: "heartbeat \<Rightarrow> heartbeat" where
  "heartbeat_fires h = (case hb_timer h of None \<Rightarrow> h
     | Some _ \<Rightarrow> set_sweep (hb_next_sweep h) (Some EnteringProject)
         (h\<lparr>hb_timer := None, hb_next_sweep := Suc (hb_next_sweep h)\<rparr>))"

text \<open>
  The re-entry of a sweep: it runs (and \<open>liveTasks\<close> gives the Tasks and whether there are more),
  the closing Project declines it, or it throws, which arms the next heartbeat.
\<close>

datatype entering = ReadsSlice "string list" bool | EntryDeclined | EntryThrows

definition sweep_enters :: "driver_options \<Rightarrow> nat \<Rightarrow> entering \<Rightarrow> heartbeat \<Rightarrow> heartbeat \<times> heartbeat_event list" where
  "sweep_enters c k entry h =
     (if hb_sweeps h k \<noteq> Some EnteringProject then (h, [])
      else case entry of
        EntryThrows \<Rightarrow> (arm_heartbeat (heartbeat_delay c) (set_sweep k None h), [])
      | EntryDeclined \<Rightarrow> (set_sweep k (Some SliceAtHand) h, [])
      | ReadsSlice ts again \<Rightarrow>
          (case hb_slice h of Some _ \<Rightarrow> (set_sweep k (Some SliceAtHand) h, [])
           | None \<Rightarrow> (set_sweep k (Some SliceAtHand)
               (h\<lparr>hb_slice := Some (hb_next_slice h), hb_next_slice := Suc (hb_next_slice h),
                  hb_slices := (hb_slices h)(hb_next_slice h := \<lparr>hs_remaining = ts, hs_more = again\<rparr>)\<rparr>),
               [SliceRead (hb_next_slice h) ts])))"

definition sweep_hints :: "driver_options \<Rightarrow> nat \<Rightarrow> heartbeat \<Rightarrow> heartbeat" where
  "sweep_hints c k h =
     (if hb_sweeps h k \<noteq> Some SliceAtHand then h
      else if disposed (hb_driver h) then set_sweep k None h
      else case hb_slice h of
        None \<Rightarrow> arm_heartbeat (heartbeat_delay c) (set_sweep k None h)
      | Some i \<Rightarrow> set_sweep k (Some (Hinting i (map (\<lambda>t. (t, None)) (hs_remaining (hb_slices h i))))) h)"

text \<open>One hint of a sweep: its re-entry starts the request, or is declined or throws.\<close>

definition answer_of :: "string \<Rightarrow> driver_event list \<Rightarrow> admission" where
  "answer_of t evs = (if Answered t Admitted \<in> set evs then Admitted
     else if Answered t Coalesced \<in> set evs then Coalesced else Rejected)"

definition hint_task ::
  "driver_options \<Rightarrow> nat \<Rightarrow> nat \<Rightarrow> (int \<times> revision_read \<times> revision_read) option \<Rightarrow> heartbeat \<Rightarrow> heartbeat \<times> heartbeat_event list" where
  "hint_task c k n run h =
     (case hb_sweeps h k of
        Some (Hinting i hints) \<Rightarrow>
          (if n \<ge> length hints \<or> snd (hints ! n) \<noteq> None then (h, [])
           else let t = fst (hints ! n);
                    (d, evs, a) = (case run of None \<Rightarrow> (hb_driver h, [], Rejected)
                      | Some (now, req, start) \<Rightarrow>
                          (case start_request c t False now req start (hb_driver h) of (d, evs) \<Rightarrow> (d, evs, answer_of t evs)))
                in (set_sweep k (Some (Hinting i (hints[n := (t, Some a)]))) (h\<lparr>hb_driver := d\<rparr>),
                    [DriverEvents evs, HintAnswered i t a]))
      | _ \<Rightarrow> (h, []))"

text \<open>
  All hints of a sweep have been answered. The answers are matched with the Tasks that remain
  in the slice now, by index.
\<close>

definition sweep_ends :: "driver_options \<Rightarrow> nat \<Rightarrow> heartbeat \<Rightarrow> heartbeat \<times> heartbeat_event list" where
  "sweep_ends c k h =
     (case hb_sweeps h k of
        Some (Hinting i hints) \<Rightarrow>
          (if list_ex (\<lambda>p. snd p = None) hints then (h, [])
           else let slice = hb_slices h i;
                    rest = map fst (filter (\<lambda>p. snd p = Some Rejected) (zip (hs_remaining slice) (map snd hints)));
                    h1 = (set_sweep k None h)\<lparr>hb_slices := (hb_slices h)(i := slice\<lparr>hs_remaining := rest\<rparr>)\<rparr>;
                    h2 = (if rest = [] then h1\<lparr>hb_slice := None\<rparr> else h1)
                in (arm_heartbeat (if rest \<noteq> [] \<or> hs_more slice then minimum_wake_delay c else heartbeat_delay c) h2,
                    if rest = [] then [SliceCommitted i] else []))
      | _ \<Rightarrow> (h, []))"

datatype heartbeat_op =
    DriverPiece driver_op
  | Bootstrap
  | HeartbeatFires
  | SweepEnters nat entering
  | SweepHints nat
  | HintTask nat nat "(int \<times> revision_read \<times> revision_read) option"
  | SweepEnds nat

definition driver_runs_piece :: "driver_options \<Rightarrow> driver_op \<Rightarrow> heartbeat \<Rightarrow> heartbeat \<times> heartbeat_event list" where
  "driver_runs_piece c op h =
     (case driver_piece c (hb_driver h) op of (d, evs) \<Rightarrow>
        (if op = DisposeDriver then h\<lparr>hb_driver := d, hb_timer := None, hb_slice := None\<rparr> else h\<lparr>hb_driver := d\<rparr>, [DriverEvents evs]))"

fun heartbeat_piece :: "driver_options \<Rightarrow> heartbeat \<Rightarrow> heartbeat_op \<Rightarrow> heartbeat \<times> heartbeat_event list" where
  "heartbeat_piece c h (DriverPiece op) = driver_runs_piece c op h"
| "heartbeat_piece c h Bootstrap = (bootstrap_heartbeat c h, [])"
| "heartbeat_piece c h HeartbeatFires = (heartbeat_fires h, [])"
| "heartbeat_piece c h (SweepEnters k entry) = sweep_enters c k entry h"
| "heartbeat_piece c h (SweepHints k) = (sweep_hints c k h, [])"
| "heartbeat_piece c h (HintTask k n run) = hint_task c k n run h"
| "heartbeat_piece c h (SweepEnds k) = sweep_ends c k h"

fun heartbeat_step :: "driver_options \<Rightarrow> heartbeat \<times> heartbeat_event list \<Rightarrow> heartbeat_op \<Rightarrow> heartbeat \<times> heartbeat_event list" where
  "heartbeat_step c (h, log) op = (case heartbeat_piece c h op of (h1, evs) \<Rightarrow> (h1, log @ evs))"

text \<open>The same without a bootstrap while a sweep is under way: sweeps never overlap.\<close>

fun orderly_step :: "driver_options \<Rightarrow> heartbeat \<times> heartbeat_event list \<Rightarrow> heartbeat_op \<Rightarrow> heartbeat \<times> heartbeat_event list" where
  "orderly_step c (h, log) op =
     (if op = Bootstrap \<and> list_ex (\<lambda>k. hb_sweeps h k \<noteq> None) [0..<hb_next_sweep h] then (h, log) else heartbeat_step c (h, log) op)"

section \<open>Invariants\<close>

definition hint_accepted :: "heartbeat_event list \<Rightarrow> nat \<Rightarrow> string \<Rightarrow> bool" where
  "hint_accepted log i t \<longleftrightarrow> (\<exists>a. a \<noteq> Rejected \<and> HintAnswered i t a \<in> set log)"

text \<open>The heartbeat is alive: its timer is armed or a sweep is under way.\<close>

definition alive :: "heartbeat \<Rightarrow> bool" where
  "alive h \<longleftrightarrow> disposed (hb_driver h) \<or> hb_timer h \<noteq> None \<or> (\<exists>k. hb_sweeps h k \<noteq> None)"

definition numbers_ok :: "heartbeat \<times> heartbeat_event list \<Rightarrow> bool" where
  "numbers_ok w \<longleftrightarrow> (case w of (h, log) \<Rightarrow>
     (\<forall>k. hb_sweeps h k \<noteq> None \<longrightarrow> k < hb_next_sweep h)
     \<and> (\<forall>i. hb_slice h = Some i \<longrightarrow> i < hb_next_slice h)
     \<and> (\<forall>k i hints. hb_sweeps h k = Some (Hinting i hints) \<longrightarrow> i < hb_next_slice h)
     \<and> (\<forall>i ts. SliceRead i ts \<in> set log \<longrightarrow> i < hb_next_slice h)
     \<and> (\<forall>i. SliceCommitted i \<in> set log \<longrightarrow> i < hb_next_slice h))"

text \<open>Sweeps do not overlap, the hints of a sweep are those of the slice, and no Task of a slice gets lost.\<close>

definition single_sweep :: "heartbeat \<Rightarrow> bool" where
  "single_sweep h \<longleftrightarrow> (\<forall>k j. hb_sweeps h k \<noteq> None \<longrightarrow> hb_timer h = None \<and> (hb_sweeps h j \<noteq> None \<longrightarrow> j = k))"

definition hints_ok :: "heartbeat \<times> heartbeat_event list \<Rightarrow> bool" where
  "hints_ok w \<longleftrightarrow> (case w of (h, log) \<Rightarrow>
     (\<forall>k i hints. hb_sweeps h k = Some (Hinting i hints) \<longrightarrow>
        map fst hints = hs_remaining (hb_slices h i)
        \<and> (\<forall>t a. (t, Some a) \<in> set hints \<longrightarrow> HintAnswered i t a \<in> set log)))"

definition slices_ok :: "heartbeat \<times> heartbeat_event list \<Rightarrow> bool" where
  "slices_ok w \<longleftrightarrow> (case w of (h, log) \<Rightarrow>
     (\<forall>i ts t. SliceRead i ts \<in> set log \<longrightarrow> t \<in> set ts \<longrightarrow> t \<in> set (hs_remaining (hb_slices h i)) \<or> hint_accepted log i t)
     \<and> (\<forall>i. SliceCommitted i \<in> set log \<longrightarrow> hs_remaining (hb_slices h i) = []))"

lemma arm_heartbeat_simps [simp]:
  "hb_driver (arm_heartbeat n h) = hb_driver h" "hb_slice (arm_heartbeat n h) = hb_slice h"
  "hb_slices (arm_heartbeat n h) = hb_slices h" "hb_next_slice (arm_heartbeat n h) = hb_next_slice h"
  "hb_sweeps (arm_heartbeat n h) = hb_sweeps h" "hb_next_sweep (arm_heartbeat n h) = hb_next_sweep h"
  by (simp_all add: arm_heartbeat_def)

lemma set_sweep_simps [simp]:
  "hb_driver (set_sweep k p h) = hb_driver h" "hb_timer (set_sweep k p h) = hb_timer h"
  "hb_slice (set_sweep k p h) = hb_slice h" "hb_slices (set_sweep k p h) = hb_slices h"
  "hb_next_slice (set_sweep k p h) = hb_next_slice h" "hb_sweeps (set_sweep k p h) = (hb_sweeps h)(k := p)"
  "hb_next_sweep (set_sweep k p h) = hb_next_sweep h"
  by (simp_all add: set_sweep_def)

lemma alive_armed: "alive (arm_heartbeat n h)"
  by (simp add: alive_def arm_heartbeat_def)

lemma alive_sweep: "p \<noteq> None \<Longrightarrow> alive (set_sweep k p h)"
  by (auto simp: alive_def)

text \<open>A disposed driver stays disposed.\<close>

lemma disposed_frames [simp]:
  "disposed (fst (entry_of t d)) = disposed d"
  "disposed (fst (finish_scan c a ws now n fl d)) = disposed d"
  "disposed (fst (begin_pass c a pass ws n fl pr now start d)) = disposed d"
  by (auto simp: entry_of_def finish_scan_def begin_pass_def Let_def split: option.split prod.split)

lemma disposed_admit [simp]: "disposed (fst (admit_request c a pr now start d)) = disposed d"
  by (simp add: admit_request_def Let_def split_beta)

lemma disposed_request [simp]: "disposed (fst (start_request c t pr now req start d)) = disposed d"
  using disposed_frames(1) [of t d]
  by (auto simp: start_request_def request_idle_def Let_def simp del: disposed_frames split: prod.split option.split)

lemma disposed_returned [simp]: "disposed (fst (scan_returned c a outcome now probe start d)) = disposed d"
  by (simp add: scan_returned_def Let_def split: option.split owner_phase.split scan_outcome.split prod.split)

lemma admit_next_disposed [simp]: "disposed (admit_next ws d) = disposed d"
  by (induction ws d rule: admit_next.induct) (simp_all add: Let_def)

lemma driver_piece_disposed: "disposed d \<Longrightarrow> disposed (fst (driver_piece c d op))"
  by (cases op) (auto simp: release_slot_def slot_resolved_def timer_fired_def rearm_runs_def rearm_fails_def rearm_declined_def
      dispose_driver_def Let_def split_beta split: option.split owner_phase.split)

lemma alive_piece: "alive h \<Longrightarrow> alive (fst (heartbeat_piece c h op))"
proof (cases op)
  case (DriverPiece dop)
  assume "alive h"
  then show ?thesis using DriverPiece driver_piece_disposed [of "hb_driver h" c dop]
    by (auto simp: driver_runs_piece_def alive_def split_beta dispose_driver_def)
next
  case (SweepHints k)
  assume "alive h"
  then show ?thesis using SweepHints by (auto simp: sweep_hints_def alive_armed alive_sweep alive_def arm_heartbeat_def split: option.split)
next
  case (HintTask k n run)
  assume "alive h"
  then show ?thesis using HintTask
    by (auto simp: hint_task_def alive_sweep Let_def split_beta split: option.split sweep_phase.split)
qed (auto simp: bootstrap_heartbeat_def alive_armed heartbeat_fires_def alive_sweep sweep_enters_def sweep_ends_def Let_def
       split: option.split entering.split sweep_phase.split)

lemma numbers_ok_step:
  assumes ok: "numbers_ok (h, log)"
  shows "numbers_ok (case heartbeat_piece c h op of (h1, evs) \<Rightarrow> (h1, log @ evs))"
proof (cases op)
  case (DriverPiece dop)
  then show ?thesis using ok by (auto simp: numbers_ok_def driver_runs_piece_def split_beta)
next
  case Bootstrap
  then show ?thesis using ok by (simp add: numbers_ok_def bootstrap_heartbeat_def)
next
  case HeartbeatFires
  then show ?thesis using ok by (auto simp: numbers_ok_def heartbeat_fires_def less_SucI split: option.split)
next
  case (SweepEnters k entry)
  show ?thesis
  proof (cases "hb_sweeps h k = Some EnteringProject")
    case True
    then have "k < hb_next_sweep h" using ok by (auto simp: numbers_ok_def)
    then show ?thesis using ok True unfolding SweepEnters
      by (cases entry; cases "hb_slice h") (fastforce simp: numbers_ok_def sweep_enters_def intro: less_SucI split: if_splits)+
  qed (use ok SweepEnters in \<open>simp add: numbers_ok_def sweep_enters_def\<close>)
next
  case (SweepHints k)
  then show ?thesis using ok by (auto simp: numbers_ok_def sweep_hints_def split: option.split)
next
  case (HintTask k n run)
  have "hb_sweeps h k = Some (Hinting i hints) \<Longrightarrow> i < hb_next_slice h" for i hints
    using ok unfolding numbers_ok_def by blast
  then show ?thesis using ok HintTask
    by (auto simp: numbers_ok_def hint_task_def Let_def split_beta split: option.splits sweep_phase.splits)
next
  case (SweepEnds k)
  have "hb_sweeps h k = Some (Hinting i hints) \<Longrightarrow> i < hb_next_slice h" for i hints
    using ok unfolding numbers_ok_def by blast
  then show ?thesis using ok SweepEnds
    by (auto simp: numbers_ok_def sweep_ends_def Let_def split: option.splits sweep_phase.splits if_splits)
qed

lemma single_sweep_step:
  assumes "single_sweep h" "numbers_ok (h, log)" "op = Bootstrap \<longrightarrow> (\<forall>k. hb_sweeps h k = None)"
  shows "single_sweep (fst (heartbeat_piece c h op))"
proof -
  have fire: "single_sweep (heartbeat_fires h)"
    using assms(1) by (auto simp: single_sweep_def heartbeat_fires_def split: option.split)
  have only: "hb_timer h = None \<and> (\<forall>j. j \<noteq> k \<longrightarrow> hb_sweeps h j = None)" if "hb_sweeps h k \<noteq> None" for k
    using assms(1) that unfolding single_sweep_def by metis
  have arm: "single_sweep (arm_heartbeat n g)" if "hb_sweeps g = (hb_sweeps h)(k := None)" "hb_sweeps h k \<noteq> None" for n g k
    using only [of k] that by (simp add: single_sweep_def)
  have keep: "single_sweep g" if "hb_sweeps g = (hb_sweeps h)(k := Some p)" "hb_sweeps h k \<noteq> None" "hb_timer g = hb_timer h" for g k p
    using only [of k] that by (simp add: single_sweep_def)
  have gone: "single_sweep g" if "hb_sweeps g = (hb_sweeps h)(k := None)" "hb_timer g = hb_timer h" for g k
    using assms(1) that by (auto simp: single_sweep_def)
  show ?thesis
  proof (cases op)
    case (DriverPiece dop)
    then show ?thesis using assms(1) by (auto simp: single_sweep_def driver_runs_piece_def split_beta)
  next
    case Bootstrap
    then show ?thesis using assms(3) by (simp add: single_sweep_def bootstrap_heartbeat_def)
  next
    case (SweepEnters k entry)
    then show ?thesis using assms(1)
      by (auto simp: sweep_enters_def intro: arm [of _ k] keep [of _ k] split: option.split entering.split)
  next
    case (SweepHints k)
    then show ?thesis using assms(1)
      by (auto simp: sweep_hints_def intro: arm [of _ k] keep [of _ k] gone [of _ k] split: option.split)
  next
    case (HintTask k n run)
    then show ?thesis using assms(1)
      by (auto simp: hint_task_def Let_def split_beta intro: keep [of _ k] split: option.split sweep_phase.split)
  next
    case (SweepEnds k)
    then show ?thesis using assms(1)
      by (auto simp: sweep_ends_def Let_def intro: arm [of _ k] split: option.split sweep_phase.split)
  qed (use fire in simp)
qed

lemma hint_accepted_mono: "hint_accepted log i t \<Longrightarrow> set log \<subseteq> set log' \<Longrightarrow> hint_accepted log' i t"
  by (auto simp: hint_accepted_def)

lemma slices_mono:
  assumes "slices_ok (h, log)" "hb_slices h' = hb_slices h"
    "\<And>i ts. SliceRead i ts \<notin> set evs" "\<And>i. SliceCommitted i \<notin> set evs"
  shows "slices_ok (h', log @ evs)"
  using assms(1,3,4) unfolding slices_ok_def hint_accepted_def prod.case set_append Un_iff assms(2) by blast

text \<open>The pieces that leave the slices and the hints of sweeps as they are.\<close>

lemma quiet_hints:
  assumes "hints_ok (h, log) \<and> slices_ok (h, log)" "hb_slices h' = hb_slices h"
    "\<And>k i hints. hb_sweeps h' k = Some (Hinting i hints) \<Longrightarrow> hb_sweeps h k = Some (Hinting i hints)"
    "\<And>i ts. SliceRead i ts \<in> set evs \<Longrightarrow> False" "\<And>i. SliceCommitted i \<in> set evs \<Longrightarrow> False"
  shows "hints_ok (h', log @ evs) \<and> slices_ok (h', log @ evs)"
proof
  have "map fst hints = hs_remaining (hb_slices h i) \<and> (\<forall>t a. (t, Some a) \<in> set hints \<longrightarrow> HintAnswered i t a \<in> set log)"
    if "hb_sweeps h' k = Some (Hinting i hints)" for k i hints
    using assms(1) assms(3) [OF that] by (simp add: hints_ok_def)
  then show "hints_ok (h', log @ evs)" by (simp add: hints_ok_def assms(2))
  show "slices_ok (h', log @ evs)" using assms(1,4,5) by (intro slices_mono [OF _ assms(2)]) auto
qed

lemma ended_hints:
  assumes hints: "map fst hints = hs_remaining slice" and "t \<in> set (hs_remaining slice)"
    and "t \<notin> set (map fst (filter (\<lambda>p. snd p = Some Rejected) (zip (hs_remaining slice) (map snd hints))))"
    and "\<not> list_ex (\<lambda>p. snd p = None) hints"
  shows "\<exists>a. a \<noteq> Rejected \<and> (t, Some a) \<in> set hints"
proof -
  have z: "zip (hs_remaining slice) (map snd hints) = hints" unfolding hints [symmetric] by (rule zip_map_fst_snd)
  obtain r where r: "(t, r) \<in> set hints" using assms(2) hints by (metis (no_types, lifting) image_iff list.set_map prod.collapse)
  then obtain a where "r = Some a" using assms(4) by (cases r) (auto simp: list_ex_iff)
  moreover have "r \<noteq> Some Rejected" using assms(3) r z by force
  ultimately show ?thesis using r by auto
qed

lemma hints_step:
  assumes inv: "single_sweep h" "numbers_ok (h, log)" and ok: "hints_ok (h, log) \<and> slices_ok (h, log)"
  shows "case heartbeat_piece c h op of (h1, evs) \<Rightarrow> hints_ok (h1, log @ evs) \<and> slices_ok (h1, log @ evs)"
proof (cases op)
  case (DriverPiece dop)
  let ?p = "driver_runs_piece c dop h"
  have "hints_ok (fst ?p, log @ snd ?p) \<and> slices_ok (fst ?p, log @ snd ?p)"
    by (rule quiet_hints [OF ok]) (auto simp: driver_runs_piece_def split_beta split: if_splits)
  then show ?thesis using DriverPiece by (simp add: split_beta)
next
  case Bootstrap
  have "hints_ok (bootstrap_heartbeat c h, log @ []) \<and> slices_ok (bootstrap_heartbeat c h, log @ [])"
    by (rule quiet_hints [OF ok]) (simp_all add: bootstrap_heartbeat_def)
  then show ?thesis using Bootstrap by simp
next
  case HeartbeatFires
  have "hints_ok (heartbeat_fires h, log @ []) \<and> slices_ok (heartbeat_fires h, log @ [])"
    by (rule quiet_hints [OF ok]) (auto simp: heartbeat_fires_def split: option.splits if_splits)
  then show ?thesis using HeartbeatFires by simp
next
  case (SweepEnters k entry)
  show ?thesis
  proof (cases "hb_sweeps h k = Some EnteringProject \<and> hb_slice h = None \<and> (\<exists>ts again. entry = ReadsSlice ts again)")
    case True
    then obtain ts again where e: "entry = ReadsSlice ts again" by auto
    have only: "hb_sweeps h j = None" if "j \<noteq> k" for j
      using inv(1) True that unfolding single_sweep_def by (metis option.distinct(1))
    have fresh: "SliceRead (hb_next_slice h) ts' \<notin> set log" "SliceCommitted (hb_next_slice h) \<notin> set log" for ts'
      using inv(2) unfolding numbers_ok_def by blast+
    have "hints_ok (fst (sweep_enters c k entry h), log @ [SliceRead (hb_next_slice h) ts])"
      using only True e by (auto simp: hints_ok_def sweep_enters_def)
    moreover have "slices_ok (fst (sweep_enters c k entry h), log @ [SliceRead (hb_next_slice h) ts])"
      using ok fresh True e by (auto simp: slices_ok_def sweep_enters_def hint_accepted_def)
    ultimately show ?thesis using True e SweepEnters by (simp add: sweep_enters_def)
  next
    case False
    have "hints_ok (fst (sweep_enters c k entry h), log @ []) \<and> slices_ok (fst (sweep_enters c k entry h), log @ [])"
      using False by (intro quiet_hints [OF ok]) (auto simp: sweep_enters_def split: if_splits option.splits entering.splits)
    moreover have "snd (sweep_enters c k entry h) = []"
      using False by (auto simp: sweep_enters_def split: option.split entering.split)
    ultimately show ?thesis using SweepEnters by (simp add: split_beta)
  qed
next
  case (SweepHints k)
  have "hints_ok (sweep_hints c k h, log @ []) \<and> slices_ok (sweep_hints c k h, log @ [])"
  proof (cases "hb_sweeps h k = Some SliceAtHand \<and> \<not> disposed (hb_driver h) \<and> hb_slice h \<noteq> None")
    case True
    then obtain i where i: "hb_slice h = Some i" by auto
    have only: "hb_sweeps h j = None" if "j \<noteq> k" for j
      using inv(1) True that unfolding single_sweep_def by (metis option.distinct(1))
    have sw: "sweep_hints c k h = set_sweep k (Some (Hinting i (map (\<lambda>t. (t, None)) (hs_remaining (hb_slices h i))))) h"
      using True i by (simp add: sweep_hints_def)
    have "hints_ok (sweep_hints c k h, log @ [])" using only unfolding sw by (auto simp: hints_ok_def o_def)
    moreover have "slices_ok (sweep_hints c k h, log @ []) = slices_ok (h, log)" unfolding sw by (simp add: slices_ok_def)
    ultimately show ?thesis using ok by simp
  next
    case False
    then show ?thesis by (intro quiet_hints [OF ok]) (auto simp: sweep_hints_def split: if_splits option.splits)
  qed
  then show ?thesis using SweepHints by simp
next
  case (HintTask k n run)
  show ?thesis
  proof (cases "\<exists>i hints. hb_sweeps h k = Some (Hinting i hints) \<and> n < length hints \<and> snd (hints ! n) = None")
    case True
    then obtain i hints where k: "hb_sweeps h k = Some (Hinting i hints)" "n < length hints" "snd (hints ! n) = None" by auto
    let ?t = "fst (hints ! n)"
    obtain d evs a where da: "(case run of None \<Rightarrow> (hb_driver h, [], Rejected)
        | Some (now, req, start) \<Rightarrow> (case start_request c ?t False now req start (hb_driver h) of (d, evs) \<Rightarrow> (d, evs, answer_of ?t evs))) = (d, evs, a)"
      by (rule prod_cases3)
    let ?h = "set_sweep k (Some (Hinting i (hints[n := (?t, Some a)]))) (h\<lparr>hb_driver := d\<rparr>)"
    have piece: "hint_task c k n run h = (?h, [DriverEvents evs, HintAnswered i ?t a])"
      using k da by (simp add: hint_task_def Let_def)
    have "map fst (hints[n := (?t, Some a)]) = map fst hints" by (simp add: map_update list_update_same_conv k(2))
    moreover have "map fst hints = hs_remaining (hb_slices h i)" "(t, Some b) \<in> set hints \<Longrightarrow> HintAnswered i t b \<in> set log" for t b
      using ok k(1) by (auto simp: hints_ok_def)
    moreover have "p \<in> set (hints[n := (?t, Some a)]) \<Longrightarrow> p = (?t, Some a) \<or> p \<in> set hints" for p
      using set_update_subset_insert [of hints n "(?t, Some a)"] by auto
    ultimately have "hints_ok (?h, log @ [DriverEvents evs, HintAnswered i ?t a])"
      using ok unfolding hints_ok_def by auto
    moreover have "slices_ok (?h, log @ [DriverEvents evs, HintAnswered i ?t a])"
      using ok by (intro slices_mono [of h]) auto
    ultimately show ?thesis using HintTask piece by simp
  next
    case False
    then have "hint_task c k n run h = (h, [])" by (auto simp: hint_task_def split: option.split sweep_phase.split)
    then show ?thesis using HintTask ok by simp
  qed
next
  case (SweepEnds k)
  show ?thesis
  proof (cases "\<exists>i hints. hb_sweeps h k = Some (Hinting i hints) \<and> \<not> list_ex (\<lambda>p. snd p = None) hints")
    case True
    then obtain i hints where k: "hb_sweeps h k = Some (Hinting i hints)" "\<not> list_ex (\<lambda>p. snd p = None) hints" by auto
    let ?s = "hb_slices h i"
    define rest where "rest = map fst (filter (\<lambda>p. snd p = Some Rejected) (zip (hs_remaining ?s) (map snd hints)))"
    obtain h' evs where piece: "sweep_ends c k h = (h', evs)" by fastforce
    have h': "hb_sweeps h' = (hb_sweeps h)(k := None)" "hb_slices h' = (hb_slices h)(i := ?s\<lparr>hs_remaining := rest\<rparr>)"
      "evs = (if rest = [] then [SliceCommitted i] else [])"
      using piece k by (auto simp: sweep_ends_def Let_def rest_def split: if_splits)
    have m: "map fst hints = hs_remaining ?s" and ans: "(t, Some b) \<in> set hints \<Longrightarrow> HintAnswered i t b \<in> set log" for t b
      using ok k(1) by (auto simp: hints_ok_def)
    have kept: "t \<in> set rest \<or> hint_accepted log i t" if "t \<in> set (hs_remaining ?s)" for t
      using ended_hints [OF m that _ k(2)] ans by (auto simp: rest_def hint_accepted_def)
    have sub: "hs_remaining ?s = [] \<Longrightarrow> rest = []" by (simp add: rest_def)
    have "hb_sweeps h j = None" if "j \<noteq> k" for j using inv(1) k(1) that unfolding single_sweep_def by (metis option.distinct(1))
    then have "hints_ok (h', log @ evs)" using h'(1) by (auto simp: hints_ok_def)
    moreover have "t \<in> set (hs_remaining (hb_slices h' j)) \<or> hint_accepted (log @ evs) j t"
      if "SliceRead j ts \<in> set (log @ evs)" "t \<in> set ts" for j ts t
    proof -
      have "SliceRead j ts \<in> set log" using that(1) h'(3) by (auto split: if_splits)
      then have "t \<in> set (hs_remaining (hb_slices h j)) \<or> hint_accepted log j t" using ok that(2) by (auto simp: slices_ok_def)
      then show ?thesis using kept [of t] hint_accepted_mono [of log j t "log @ evs"] by (cases "j = i") (auto simp: h'(2))
    qed
    moreover have "hs_remaining (hb_slices h' j) = []" if "SliceCommitted j \<in> set (log @ evs)" for j
    proof (cases "j = i")
      case True
      then show ?thesis using that ok sub h'(3) by (auto simp: h'(2) slices_ok_def split: if_splits)
    next
      case False
      then have "SliceCommitted j \<in> set log" using that h'(3) by (auto split: if_splits)
      then show ?thesis using ok False by (simp add: h'(2) slices_ok_def)
    qed
    ultimately have "hints_ok (h', log @ evs) \<and> slices_ok (h', log @ evs)" by (auto simp: slices_ok_def)
    then show ?thesis using SweepEnds piece by simp
  next
    case False
    then have "sweep_ends c k h = (h, [])" by (auto simp: sweep_ends_def split: option.split sweep_phase.split)
    then show ?thesis using SweepEnds ok by simp
  qed
qed

definition sweeps_ok :: "heartbeat \<times> heartbeat_event list \<Rightarrow> bool" where
  "sweeps_ok w \<longleftrightarrow> single_sweep (fst w) \<and> numbers_ok w \<and> hints_ok w \<and> slices_ok w"

interpretation heartbeat_runs: step_system "heartbeat_step c" "(new_heartbeat c, [])" "\<lambda>w :: heartbeat \<times> heartbeat_event list. alive (fst w)" for c
proof unfold_locales
  show "alive (fst (new_heartbeat c, []))" by (simp add: new_heartbeat_def alive_armed)
  fix w :: "heartbeat \<times> heartbeat_event list" and op assume "alive (fst w)"
  then show "alive (fst (heartbeat_step c w op))" using alive_piece [of "fst w" c op] by (cases w) (simp add: split_beta)
qed

interpretation orderly_runs: step_system "orderly_step c" "(new_heartbeat c, [])" sweeps_ok for c
proof unfold_locales
  show "sweeps_ok (new_heartbeat c, [])"
    by (simp add: sweeps_ok_def new_heartbeat_def single_sweep_def numbers_ok_def hints_ok_def slices_ok_def arm_heartbeat_def)
  fix w op assume ok: "sweeps_ok w"
  obtain h log where w: "w = (h, log)" by fastforce
  have "hb_sweeps h k = None" if "\<not> list_ex (\<lambda>k. hb_sweeps h k \<noteq> None) [0..<hb_next_sweep h]" for k
    using ok that unfolding w sweeps_ok_def numbers_ok_def by (auto simp: list_ex_iff)
  then show "sweeps_ok (orderly_step c w op)"
    using ok single_sweep_step [of h log op c] numbers_ok_step [of h log c op] hints_step [of h log c op]
    unfolding w by (auto simp: sweeps_ok_def split_beta simp del: heartbeat_piece.simps)
qed

section \<open>What the heartbeat promises\<close>

text \<open>
  The heartbeat never stops. Whatever pieces run, in whatever order, and however re-entries
  fail, until the driver is disposed its heartbeat timer is armed or a sweep is under way.
\<close>

theorem heartbeat_never_stops:
  "(let h = fst (run_steps (heartbeat_step c) (new_heartbeat c, []) ops)
    in disposed (hb_driver h) \<or> (\<exists>delay. hb_timer h = Some delay) \<or> (\<exists>k p. hb_sweeps h k = Some p))"
  using heartbeat_runs.reachable_inv [of c ops] by (auto simp: alive_def Let_def)

text \<open>
  C14: discovery loses no Task. When no bootstrap interrupts a sweep, a slice is committed (so that
  the source cursor moves past it) only after the driver has admitted or coalesced a request
  for every Task of the slice.
\<close>

theorem committed_slice_was_accepted:
  assumes "run_steps (orderly_step c) (new_heartbeat c, []) ops = (h, log)"
    and "SliceRead i ts \<in> set log" "SliceCommitted i \<in> set log" "t \<in> set ts"
  shows "HintAnswered i t Admitted \<in> set log \<or> HintAnswered i t Coalesced \<in> set log"
proof -
  have "slices_ok (h, log)" using orderly_runs.reachable_inv [of c ops] assms(1) by (simp add: sweeps_ok_def)
  then have "t \<in> set (hs_remaining (hb_slices h i)) \<or> hint_accepted log i t" "hs_remaining (hb_slices h i) = []"
    using assms(2-4) unfolding slices_ok_def by blast+
  then have "hint_accepted log i t" by simp
  then obtain a where "a \<noteq> Rejected" "HintAnswered i t a \<in> set log" by (auto simp: hint_accepted_def)
  then show ?thesis by (cases a) auto
qed

text \<open>One slot, one place in the queue, a Task \<open>y\<close> that is rejected at first and hinted again.\<close>

definition demo_sweep :: "heartbeat_op list" where
  "demo_sweep =
    [DriverPiece (Request ''x'' False 0 ReadFault ReadFault), HeartbeatFires, SweepEnters 0 (ReadsSlice [''z'', ''y''] False),
     SweepHints 0, HintTask 0 0 (Some (1, ReadFault, ReadFault)), HintTask 0 1 (Some (1, ReadFault, ReadFault))]"

definition demo_second_sweep :: "heartbeat_op list" where
  "demo_second_sweep =
    [SweepEnds 0, DriverPiece (ScanReturns 0 (ScanResult 0 None False) 2 ReadFault ReadFault), DriverPiece ReleaseSlot, HeartbeatFires,
     SweepEnters 1 EntryDeclined, SweepHints 1, HintTask 1 0 (Some (3, ReadFault, ReadFault)), SweepEnds 1]"

theorem committed_slice_was_accepted_witness:
  "let log = snd (run_steps (orderly_step small_options) (new_heartbeat small_options, []) (demo_sweep @ demo_second_sweep))
   in SliceCommitted 0 \<in> set log \<and> HintAnswered 0 ''y'' Rejected \<in> set log
      \<and> (HintAnswered 0 ''y'' Admitted \<in> set log \<or> HintAnswered 0 ''y'' Coalesced \<in> set log)"
proof -
  let ?w = "run_steps (orderly_step small_options) (new_heartbeat small_options, []) (demo_sweep @ demo_second_sweep)"
  have log: "SliceRead 0 [''z'', ''y''] \<in> set (snd ?w)" "SliceCommitted 0 \<in> set (snd ?w)" "HintAnswered 0 ''y'' Rejected \<in> set (snd ?w)"
    by code_simp+
  from committed_slice_was_accepted [of small_options "demo_sweep @ demo_second_sweep" "fst ?w" "snd ?w", OF _ log(1,2), of "''y''"] log
  show ?thesis by (simp add: Let_def)
qed

text \<open>
  A bootstrap while a sweep waits for its hints starts a second sweep over the same slice. Both
  match their answers by index with what remains, so the slice is committed although \<open>y\<close> was
  rejected both times.
\<close>

lemma overlapping_sweeps_commit_rejected_task:
  "let log = snd (run_steps (heartbeat_step small_options) (new_heartbeat small_options, [])
        (demo_sweep @ [Bootstrap, HeartbeatFires, SweepEnters 1 (ReadsSlice [] False), SweepHints 1,
           HintTask 1 0 (Some (2, ReadFault, ReadFault)), HintTask 1 1 (Some (2, ReadFault, ReadFault)), SweepEnds 0, SweepEnds 1]))
   in SliceRead 0 [''z'', ''y''] \<in> set log \<and> SliceCommitted 0 \<in> set log
      \<and> HintAnswered 0 ''y'' Admitted \<notin> set log \<and> HintAnswered 0 ''y'' Coalesced \<notin> set log"
  by code_simp

end
