(* ===== verification/ProjectFrontier.thy ===== *)
theory ProjectFrontier
  imports Activation
begin

text \<open>
  The project-wide work frontier of the Task control plane
  (\<open>engine/task-root-ingress-disposition.ts\<close>, from \<open>TaskControlSourceCursor\<close> on): the heartbeat
  reads a bounded slice of four sources of work in the physical order of their rows, keeps of
  each page the rows that are still current, and answers with their Tasks and with the
  positions for the next slice. The physical row ids, the Project of an event and the worker
  turn descriptors are columns of the database that no other component of the model reads, so
  \<open>frontier_db\<close> adds them to the control store. The classifier of dispatches
  (\<open>engine/dispatch-delivery-disposition.ts\<close>) is a parameter.
\<close>

section \<open>Sources\<close>

datatype work_source = IngressSource | WaitSource | CancellationSource | DispatchSource

record source_row =
  sr_id :: string
  sr_task :: string
  sr_rowid :: int

record descriptor_row =
  desc_id :: string
  desc_task :: string
  desc_session :: string
  desc_project :: string
  desc_dispatch :: "string option"

type_synonym dispatch_key = "string \<times> string \<times> string option"

record frontier_db =
  fdb_store :: control_store
  fdb_connection :: int
  ingress_rowid :: "string \<Rightarrow> int"
  wait_rowid :: "string \<Rightarrow> int"
  event_rowid :: "string \<Rightarrow> int"
  descriptor_rowid :: "string \<Rightarrow> int"
  event_project :: "string \<Rightarrow> string option"
  descriptors :: "descriptor_row list"
  dispatch_candidates :: "dispatch_key list \<Rightarrow> dispatch_key list"

abbreviation fdb_log :: "frontier_db \<Rightarrow> protocol_event list" where
  "fdb_log db \<equiv> event_log (st_tasks (fdb_store db))"

fun locate_row :: "frontier_db \<Rightarrow> work_source \<Rightarrow> string \<Rightarrow> int option" where
  "locate_row db IngressSource i = (if find_ingress (fdb_store db) i = None then None else Some (ingress_rowid db i))"
| "locate_row db WaitSource i = (if find_wait (fdb_store db) i = None then None else Some (wait_rowid db i))"
| "locate_row db CancellationSource i =
     (if list_ex (\<lambda>r. event_id r = i) (fdb_log db) then Some (event_rowid db i) else None)"
| "locate_row db DispatchSource i =
     (if list_ex (\<lambda>r. desc_id r = i) (descriptors db) then Some (descriptor_rowid db i) else None)"

text \<open>The rows a source selects for a Project.\<close>

fun source_rows :: "frontier_db \<Rightarrow> string \<Rightarrow> work_source \<Rightarrow> source_row list" where
  "source_rows db pid IngressSource =
     map (\<lambda>r. \<lparr>sr_id = ing_id r, sr_task = ing_task r, sr_rowid = ingress_rowid db (ing_id r)\<rparr>)
       (filter (\<lambda>r. ing_project r = pid) (ingresses (fdb_store db)))"
| "source_rows db pid WaitSource =
     map (\<lambda>w. \<lparr>sr_id = wait_id w, sr_task = wait_task w, sr_rowid = wait_rowid db (wait_id w)\<rparr>)
       (filter (\<lambda>w. wait_project w = pid) (waits (fdb_store db)))"
| "source_rows db pid CancellationSource =
     map (\<lambda>r. \<lparr>sr_id = event_id r, sr_task = aggregate_id r, sr_rowid = event_rowid db (event_id r)\<rparr>)
       (filter (\<lambda>r. event_project db (event_id r) = Some pid \<and> aggregate r = AggTask
                  \<and> event_kind r = TaskCancellationRequested) (fdb_log db))"
| "source_rows db pid DispatchSource =
     map (\<lambda>r. \<lparr>sr_id = desc_id r, sr_task = desc_task r, sr_rowid = descriptor_rowid db (desc_id r)\<rparr>)
       (filter (\<lambda>r. desc_project r = pid) (descriptors db))"

section \<open>Which rows are still current\<close>

text \<open>The integer that \<open>json_extract\<close> gives, and \<open>MAX\<close> over it: a text sorts above every number.\<close>

fun sql_integer :: "js_value \<Rightarrow> int option" where
  "sql_integer (JInt n) = Some n"
| "sql_integer (JBool b) = Some (if b then 1 else 0)"
| "sql_integer _ = None"

definition sql_max :: "js_value list \<Rightarrow> int option" where
  "sql_max vs = (let ws = filter (\<lambda>v. \<not> sql_null v) vs
     in if list_ex (\<lambda>v. sql_integer v = None) ws then None
        else case map (\<lambda>v. the (sql_integer v)) ws of [] \<Rightarrow> None | n # ns \<Rightarrow> Some (foldl max n ns))"

definition latest_opened_epoch :: "protocol_event list \<Rightarrow> string \<Rightarrow> int option" where
  "latest_opened_epoch log tid = sql_max (map payload_epoch
     (filter (\<lambda>r. aggregate r = AggTask \<and> aggregate_id r = tid \<and> is_open_event r) log))"

definition terminal_after :: "protocol_event list \<Rightarrow> string \<Rightarrow> int \<Rightarrow> int option \<Rightarrow> bool" where
  "terminal_after log tid ep since \<longleftrightarrow> list_ex (\<lambda>r. aggregate r = AggTask \<and> aggregate_id r = tid \<and> is_terminal_event r
     \<and> sql_integer (payload_epoch r) = Some ep \<and> (case since of None \<Rightarrow> True | Some t \<Rightarrow> emitted_at r > t)) log"

definition current_ingress :: "frontier_db \<Rightarrow> ingress_row \<Rightarrow> bool" where
  "current_ingress db r \<longleftrightarrow> latest_opened_epoch (fdb_log db) (ing_task r) = Some (ing_epoch r)
     \<and> \<not> terminal_after (fdb_log db) (ing_task r) (ing_epoch r) (Some (ing_accepted r))
     \<and> undisposed (fdb_store db) r \<and> \<not> store_task_deleted (fdb_store db) (ing_task r)"

definition current_wait :: "frontier_db \<Rightarrow> wait_row \<Rightarrow> bool" where
  "current_wait db w \<longleftrightarrow> latest_opened_epoch (fdb_log db) (wait_task w) = Some (wait_epoch w)
     \<and> \<not> terminal_after (fdb_log db) (wait_task w) (wait_epoch w) None
     \<and> find_settlement (fdb_store db) (wait_id w) = None \<and> \<not> store_task_deleted (fdb_store db) (wait_task w)"

definition current_cancellation :: "frontier_db \<Rightarrow> protocol_event \<Rightarrow> bool" where
  "current_cancellation db r \<longleftrightarrow> \<not> list_ex (\<lambda>s. aggregate s = AggTask \<and> aggregate_id s = aggregate_id r \<and> seq_no s > seq_no r
     \<and> (is_terminal_event s \<or> is_open_event s \<or> event_kind s = TaskDeleted)) (fdb_log db)"

definition dispatch_key_of :: "descriptor_row \<Rightarrow> dispatch_key" where
  "dispatch_key_of r = (desc_task r, desc_session r, desc_dispatch r)"

text \<open>The composite key is one text; an absent dispatch identity reads \<open>null\<close> in it.\<close>

definition key_text :: "dispatch_key \<Rightarrow> string" where
  "key_text k = (case k of (t, s, i) \<Rightarrow> t @ [CHR 0x00] @ s @ [CHR 0x00] @ (case i of None \<Rightarrow> ''null'' | Some d \<Rightarrow> d))"

text \<open>\<open>ids\<close> of a page: the rows that the second query of a source keeps.\<close>

fun current_ids :: "frontier_db \<Rightarrow> work_source \<Rightarrow> string list \<Rightarrow> string list" where
  "current_ids db IngressSource ids =
     map ing_id (filter (\<lambda>r. ing_id r \<in> set ids \<and> current_ingress db r) (ingresses (fdb_store db)))"
| "current_ids db WaitSource ids =
     map wait_id (filter (\<lambda>w. wait_id w \<in> set ids \<and> current_wait db w) (waits (fdb_store db)))"
| "current_ids db CancellationSource ids =
     map event_id (filter (\<lambda>r. event_id r \<in> set ids \<and> current_cancellation db r) (fdb_log db))"
| "current_ids db DispatchSource ids =
     (let page = filter (\<lambda>r. desc_id r \<in> set ids) (descriptors db);
          keys = map key_text (dispatch_candidates db (map dispatch_key_of page))
      in map desc_id (filter (\<lambda>r. key_text (dispatch_key_of r) \<in> set keys) page))"

section \<open>Positions and slices\<close>

type_synonym source_cursor = "int \<times> string"

datatype source_position = AfterRow source_cursor | ExhaustedAt "source_cursor option"

record project_cursor =
  pc_connection :: int
  pc_position :: "work_source \<Rightarrow> source_position option"

fun position_cursor :: "source_position \<Rightarrow> source_cursor option" where
  "position_cursor (AfterRow c) = Some c"
| "position_cursor (ExhaustedAt c) = c"

fun is_exhausted :: "source_position option \<Rightarrow> bool" where
  "is_exhausted (Some (ExhaustedAt c)) = True"
| "is_exhausted _ = False"

text \<open>A saved locator is valid only while the same row still has that row id.\<close>

fun checked_position :: "frontier_db \<Rightarrow> work_source \<Rightarrow> source_position option \<Rightarrow> source_position option" where
  "checked_position db src (Some (AfterRow (n, i))) = (if locate_row db src i = Some n then Some (AfterRow (n, i)) else None)"
| "checked_position db src p = p"

fun after_position :: "source_position option \<Rightarrow> source_row \<Rightarrow> bool" where
  "after_position (Some (AfterRow (n, i))) r \<longleftrightarrow> sr_rowid r > n"
| "after_position _ r \<longleftrightarrow> True"

definition source_page :: "frontier_db \<Rightarrow> string \<Rightarrow> work_source \<Rightarrow> source_position option \<Rightarrow> nat \<Rightarrow> source_row list" where
  "source_page db pid src p limit =
     (if is_exhausted p then [] else take limit (sort_by (cmp_key sr_rowid) (filter (after_position p) (source_rows db pid src))))"

definition next_position :: "source_row list \<Rightarrow> nat \<Rightarrow> source_position option \<Rightarrow> source_position" where
  "next_position rows limit prior =
     (let checkpoint = (if rows \<noteq> [] then Some (sr_rowid (last rows), sr_id (last rows))
                        else case prior of None \<Rightarrow> None | Some p \<Rightarrow> position_cursor p)
      in case checkpoint of
           Some c \<Rightarrow> if length rows = limit then AfterRow c else ExhaustedAt (Some c)
         | None \<Rightarrow> ExhaustedAt None)"

definition source_slice ::
  "frontier_db \<Rightarrow> string \<Rightarrow> nat \<Rightarrow> work_source \<Rightarrow> source_position option \<Rightarrow> source_row list \<times> source_position" where
  "source_slice db pid limit src saved =
     (let p = checked_position db src saved; rows = source_page db pid src p limit
      in (rows, case p of Some (ExhaustedAt c) \<Rightarrow> ExhaustedAt c | _ \<Rightarrow> next_position rows limit p))"

definition current_rows :: "frontier_db \<Rightarrow> work_source \<Rightarrow> source_row list \<Rightarrow> source_row list" where
  "current_rows db src rows = filter (\<lambda>r. sr_id r \<in> set (current_ids db src (map sr_id rows))) rows"

definition work_sources :: "work_source list" where
  "work_sources = [IngressSource, WaitSource, CancellationSource, DispatchSource]"

record frontier_slice =
  fs_tasks :: "string list"
  fs_scanned :: nat
  fs_checkpoint :: project_cursor
  fs_next :: "project_cursor option"

definition frontier_slice_of ::
  "frontier_db \<Rightarrow> string \<Rightarrow> project_cursor option \<Rightarrow> int \<Rightarrow> store_error + frontier_slice" where
  "frontier_slice_of db pid saved limit =
     (if \<not> is_safe_integer (JInt limit) \<or> limit \<le> 0 \<or> limit > max_frontier_page div 4 then Inl InvalidLimit
      else let pos = (case saved of Some c \<Rightarrow> if pc_connection c = fdb_connection db then pc_position c else (\<lambda>_. None)
                      | None \<Rightarrow> (\<lambda>_. None));
               slice = (\<lambda>src. source_slice db pid (nat limit) src (pos src));
               rows = concat (map (\<lambda>src. current_rows db src (fst (slice src))) work_sources);
               next = \<lparr>pc_connection = fdb_connection db, pc_position = (\<lambda>src. Some (snd (slice src)))\<rparr>
           in Inr \<lparr>fs_tasks = rev (remdups (rev (map sr_task rows))),
                   fs_scanned = sum_list (map (\<lambda>src. length (fst (slice src))) work_sources),
                   fs_checkpoint = next,
                   fs_next = (if list_all (\<lambda>src. is_exhausted (pc_position next src)) work_sources then None else Some next)\<rparr>)"

definition restart_frontier :: "project_cursor \<Rightarrow> project_cursor" where
  "restart_frontier c = c\<lparr>pc_position := (\<lambda>src. case pc_position c src of None \<Rightarrow> None
     | Some p \<Rightarrow> map_option AfterRow (position_cursor p))\<rparr>"

text \<open>
  The heartbeat's traversal (\<open>liveTasks\<close> of \<open>engine/task-root-ingress-delivery.ts\<close>): slice after
  slice, each over the database of its moment, until a slice has no \<open>next\<close>; then the next
  traversal starts from the restarted checkpoint.
\<close>

fun sweep_frontier ::
  "frontier_db list \<Rightarrow> string \<Rightarrow> int \<Rightarrow> project_cursor option
   \<Rightarrow> store_error + string list \<times> (project_cursor option + project_cursor)" where
  "sweep_frontier [] pid limit saved = Inr ([], Inl saved)"
| "sweep_frontier (db # dbs) pid limit saved =
     rbind (frontier_slice_of db pid saved limit) (\<lambda>s.
       case fs_next s of
         None \<Rightarrow> Inr (fs_tasks s, Inr (restart_frontier (fs_checkpoint s)))
       | Some c \<Rightarrow> rbind (sweep_frontier dbs pid limit (Some c)) (\<lambda>(ts, r). Inr (fs_tasks s @ ts, r)))"

section \<open>A page and the position after it\<close>

lemma after_row: "after_position (Some (AfterRow (n, i))) = (\<lambda>r. sr_rowid r > n)"
  by (simp add: fun_eq_iff)

lemma length_filter_sort_by: "length (filter P (sort_by cmp xs)) = length (filter P xs)"
proof -
  have ins: "length (filter P (insert_by cmp x ys)) = length (filter P (x # ys))" for x ys
    by (induction ys) auto
  show ?thesis by (induction xs) (simp_all add: ins)
qed

lemma sorted_rowids:
  assumes "distinct (map sr_rowid rows)"
  shows "sorted_wrt (\<lambda>a b. sr_rowid a < sr_rowid b) (sort_by (cmp_key sr_rowid) rows)"
proof -
  have "sorted_wrt (\<lambda>a b. cmp_key sr_rowid a b \<le> 0) (sort_by (cmp_key sr_rowid) rows)" by (rule key_asc.sorted_sort_by)
  moreover have "distinct (map sr_rowid (sort_by (cmp_key sr_rowid) rows))"
    using assms by (simp add: distinct_map)
  ultimately show ?thesis
    by (auto simp: sorted_wrt_iff_nth_less cmp_key_def distinct_conv_nth order.strict_iff_order)
qed

text \<open>A row that the position has not passed is on the page, or the next position has not passed it either.\<close>

lemma source_slice_progress:
  assumes n: "0 < n" and dist: "distinct (map sr_rowid (source_rows db pid src))" and r: "r \<in> set (source_rows db pid src)"
    and ahead: "\<not> is_exhausted saved" "after_position saved r"
    and slice: "source_slice db pid n src saved = (rows, p)"
  shows "r \<in> set rows \<or> \<not> is_exhausted (Some p) \<and> after_position (Some p) r"
proof -
  let ?c = "checked_position db src saved"
  have c: "\<not> is_exhausted ?c" "after_position ?c r"
    using ahead by (cases "(db, src, saved)" rule: checked_position.cases; simp)+
  let ?s = "sort_by (cmp_key sr_rowid) (filter (after_position ?c) (source_rows db pid src))"
  have rows: "rows = take n ?s" and p: "p = next_position rows n ?c"
    using slice c(1) by (auto simp: source_slice_def Let_def source_page_def split: option.splits source_position.splits)
  have sorted: "sorted_wrt (\<lambda>a b. sr_rowid a < sr_rowid b) ?s"
    using dist by (intro sorted_rowids) (simp add: distinct_map inj_on_def)
  have mem: "r \<in> set ?s" using r c(2) by simp
  show ?thesis
  proof (cases "r \<in> set rows")
    case False
    then have rest: "r \<in> set (drop n ?s)" using mem rows by (metis Un_iff append_take_drop_id set_append)
    then have len: "length rows = n" unfolding rows by (cases "n \<le> length ?s") auto
    then have ne: "rows \<noteq> []" using n by auto
    have "sr_rowid (last rows) < sr_rowid r"
      using sorted rest last_in_set [OF ne] rows by (metis append_take_drop_id sorted_wrt_append)
    then show ?thesis using ne len p by (simp add: next_position_def)
  qed simp
qed

lemma slice_fields:
  assumes "frontier_slice_of db pid saved limit = Inr s"
  defines "pos \<equiv> (case saved of Some c \<Rightarrow> if pc_connection c = fdb_connection db then pc_position c else (\<lambda>_. None) | None \<Rightarrow> (\<lambda>_. None))"
  shows "0 < limit" "set (fs_tasks s) = (\<Union>src. sr_task ` set (current_rows db src (fst (source_slice db pid (nat limit) src (pos src)))))"
    "fs_checkpoint s = \<lparr>pc_connection = fdb_connection db, pc_position = (\<lambda>src. Some (snd (source_slice db pid (nat limit) src (pos src))))\<rparr>"
    "fs_next s = (if \<forall>src. is_exhausted (pc_position (fs_checkpoint s) src) then None else Some (fs_checkpoint s))"
proof -
  have all: "P IngressSource \<and> P WaitSource \<and> P CancellationSource \<and> P DispatchSource \<longleftrightarrow> (\<forall>src. P src)" for P
    by (metis work_source.exhaust)
  have un: "f IngressSource \<union> (f WaitSource \<union> (f CancellationSource \<union> f DispatchSource)) = (\<Union>src. f src)" for f :: "work_source \<Rightarrow> string set"
    using all [of "\<lambda>src. x \<notin> f src" for x] by auto
  show "0 < limit" using assms(1) by (auto simp: frontier_slice_of_def split: if_splits)
  show "set (fs_tasks s) = (\<Union>src. sr_task ` set (current_rows db src (fst (source_slice db pid (nat limit) src (pos src)))))"
    using assms(1) unfolding un [symmetric] pos_def
    by (auto simp: frontier_slice_of_def Let_def work_sources_def image_Un split: if_splits)
  show "fs_checkpoint s = \<lparr>pc_connection = fdb_connection db, pc_position = (\<lambda>src. Some (snd (source_slice db pid (nat limit) src (pos src))))\<rparr>"
    using assms(1) unfolding pos_def by (auto simp: frontier_slice_of_def Let_def split: if_splits)
  show "fs_next s = (if \<forall>src. is_exhausted (pc_position (fs_checkpoint s) src) then None else Some (fs_checkpoint s))"
    using assms(1) unfolding all [symmetric]
    by (auto simp: frontier_slice_of_def Let_def work_sources_def split: if_splits)
qed

section \<open>What a traversal covers\<close>

text \<open>A row of a source that stays where it is and stays current, whatever page it is read on.\<close>

definition lasting_row :: "frontier_db list \<Rightarrow> string \<Rightarrow> work_source \<Rightarrow> source_row \<Rightarrow> bool" where
  "lasting_row dbs pid src r \<longleftrightarrow> (\<forall>db \<in> set dbs. r \<in> set (source_rows db pid src)
     \<and> (\<forall>page. r \<in> set page \<longrightarrow> r \<in> set (current_rows db src page)))"

definition row_ahead :: "project_cursor option \<Rightarrow> work_source \<Rightarrow> source_row \<Rightarrow> bool" where
  "row_ahead saved src r \<longleftrightarrow> (case saved of None \<Rightarrow> True
     | Some c \<Rightarrow> \<not> is_exhausted (pc_position c src) \<and> after_position (pc_position c src) r)"

lemma sweep_reports:
  assumes "sweep_frontier dbs pid limit saved = Inr (ts, Inr done)"
    and "\<forall>db \<in> set dbs. distinct (map sr_rowid (source_rows db pid src))"
    and "lasting_row dbs pid src r" "row_ahead saved src r"
  shows "sr_task r \<in> set ts"
  using assms
proof (induction dbs arbitrary: saved ts)
  case (Cons db dbs)
  obtain s where s: "frontier_slice_of db pid saved limit = Inr s"
    using Cons.prems(1) by (auto simp: rbind_Inr_iff)
  note F = slice_fields [OF s]
  define pos where "pos = (case saved of Some c \<Rightarrow> if pc_connection c = fdb_connection db then pc_position c else (\<lambda>_. None) | None \<Rightarrow> (\<lambda>_. None))"
  note F = F [folded pos_def]
  obtain rows p where sl: "source_slice db pid (nat limit) src (pos src) = (rows, p)" by fastforce
  have ahead: "\<not> is_exhausted (pos src)" "after_position (pos src) r"
    using Cons.prems(4) by (auto simp: pos_def row_ahead_def split: option.splits)
  have mem: "r \<in> set (source_rows db pid src)" and cur: "r \<in> set page \<longrightarrow> r \<in> set (current_rows db src page)" for page
    using Cons.prems(3) by (auto simp: lasting_row_def)
  have "r \<in> set rows \<or> \<not> is_exhausted (Some p) \<and> after_position (Some p) r"
    using F(1) Cons.prems(2) by (intro source_slice_progress [OF _ _ mem ahead sl]) auto
  then show ?case
  proof
    assume "r \<in> set rows"
    then have "sr_task r \<in> sr_task ` set (current_rows db src (fst (source_slice db pid (nat limit) src (pos src))))"
      using cur [of rows] sl by simp
    then have "sr_task r \<in> set (fs_tasks s)" unfolding F(2) by blast
    then show ?thesis using Cons.prems(1) s by (auto simp: rbind_Inr_iff split: option.splits prod.splits)
  next
    assume p: "\<not> is_exhausted (Some p) \<and> after_position (Some p) r"
    then have at: "pc_position (fs_checkpoint s) src = Some p" using F(3) sl by simp
    then have "\<not> (\<forall>src. is_exhausted (pc_position (fs_checkpoint s) src))" using p by metis
    then have "fs_next s = Some (fs_checkpoint s)" using F(4) by simp
    then obtain ts' where "sweep_frontier dbs pid limit (Some (fs_checkpoint s)) = Inr (ts', Inr done)" "ts = fs_tasks s @ ts'"
      using Cons.prems(1) s by (auto simp: rbind_Inr_iff split: prod.splits)
    moreover have "row_ahead (Some (fs_checkpoint s)) src r" using at p by (simp add: row_ahead_def)
    ultimately have "sr_task r \<in> set ts'"
      using Cons.prems(2,3) by (intro Cons.IH) (auto simp: lasting_row_def)
    then show ?thesis using \<open>ts = fs_tasks s @ ts'\<close> by simp
  qed
qed simp

text \<open>Every slice of an unchanged database brings an unfinished source closer to its end.\<close>

definition rows_ahead :: "frontier_db \<Rightarrow> string \<Rightarrow> work_source \<Rightarrow> source_position option \<Rightarrow> nat" where
  "rows_ahead db pid src p = (let c = checked_position db src p
     in if is_exhausted c then 0 else length (filter (after_position c) (source_rows db pid src)))"

lemma locate_source_row:
  "r \<in> set (source_rows db pid src) \<Longrightarrow> locate_row db src (sr_id r) = Some (sr_rowid r)"
  by (cases src) (auto simp: find_ingress_def find_wait_def find_None_iff list_ex_iff)

lemma source_slice_shrinks:
  assumes n: "0 < n" and dist: "distinct (map sr_rowid (source_rows db pid src))"
    and slice: "source_slice db pid n src saved = (rows, p)" and go: "\<not> is_exhausted (Some p)"
  shows "rows_ahead db pid src (Some p) + n = rows_ahead db pid src saved"
proof -
  let ?c = "checked_position db src saved"
  have c: "\<not> is_exhausted ?c"
    using slice go by (cases ?c) (auto simp: source_slice_def Let_def split: source_position.splits)
  let ?s = "sort_by (cmp_key sr_rowid) (filter (after_position ?c) (source_rows db pid src))"
  have rows: "rows = take n ?s" and p: "p = next_position rows n ?c"
    using slice c by (auto simp: source_slice_def Let_def source_page_def split: option.splits source_position.splits)
  have sorted: "sorted_wrt (\<lambda>a b. sr_rowid a < sr_rowid b) ?s"
    using dist by (intro sorted_rowids) (simp add: distinct_map inj_on_def)
  have len: "length rows = n" using go p by (auto simp: next_position_def Let_def split: if_splits option.splits)
  then have ne: "rows \<noteq> []" using n by auto
  have p': "p = AfterRow (sr_rowid (last rows), sr_id (last rows))" using p ne len by (simp add: next_position_def)
  have "last rows \<in> set ?s" using in_set_takeD [of "last rows" n ?s] last_in_set [OF ne] rows by simp
  then have "locate_row db src (sr_id (last rows)) = Some (sr_rowid (last rows))"
    by (intro locate_source_row [of _ _ pid]) simp
  then have ahead: "rows_ahead db pid src (Some p) = length (filter (\<lambda>r. sr_rowid r > sr_rowid (last rows)) (source_rows db pid src))"
    by (simp add: rows_ahead_def p' after_row)
  have split: "?s = rows @ drop n ?s" by (simp add: rows)
  have "sorted_wrt (\<lambda>a b. sr_rowid a < sr_rowid b) (butlast rows @ [last rows])"
    using sorted_wrt_take [OF sorted, of n] append_butlast_last_id [OF ne] rows by simp
  then have front: "sr_rowid r \<le> sr_rowid (last rows)" if "r \<in> set rows" for r
    using that append_butlast_last_id [OF ne] by (metis Un_iff append_is_Nil_conv empty_iff empty_set less_imp_le list.set_intros(1)
        order.refl set_ConsD set_append sorted_wrt_append)
  have beyond: "sr_rowid (last rows) < sr_rowid r" if "r \<in> set (drop n ?s)" for r
    using that sorted last_in_set [OF ne] split by (metis sorted_wrt_append)
  have after: "after_position ?c (last rows)" using \<open>last rows \<in> set ?s\<close> by simp
  have "filter (\<lambda>r. sr_rowid r > sr_rowid (last rows)) (source_rows db pid src)
      = filter (\<lambda>r. sr_rowid r > sr_rowid (last rows)) (filter (after_position ?c) (source_rows db pid src))"
    using after by (cases "(?c, last rows)" rule: after_position.cases) (auto intro!: filter_cong simp: filter_filter)
  also have "length \<dots> = length (filter (\<lambda>r. sr_rowid r > sr_rowid (last rows)) ?s)"
    by (simp add: length_filter_sort_by)
  also have "\<dots> = length (drop n ?s)"
  proof -
    have "filter (\<lambda>r. sr_rowid r > sr_rowid (last rows)) rows = []" using front by (auto simp: filter_empty_conv not_less)
    moreover have "filter (\<lambda>r. sr_rowid r > sr_rowid (last rows)) (drop n ?s) = drop n ?s" using beyond by (simp add: filter_id_conv)
    ultimately show ?thesis by (subst split) simp
  qed
  finally show ?thesis using len rows c ahead by (simp add: rows_ahead_def)
qed

lemma sweep_ends:
  assumes "0 < limit" "limit \<le> 16" "k \<noteq> 0" "\<forall>src. distinct (map sr_rowid (source_rows db pid src))"
    and "\<forall>src. rows_ahead db pid src
        (case saved of Some c \<Rightarrow> if pc_connection c = fdb_connection db then pc_position c src else None | None \<Rightarrow> None) < k * nat limit"
  shows "\<exists>ts done. sweep_frontier (replicate k db) pid limit saved = Inr (ts, Inr done)"
  using assms(3,5)
proof (induction k arbitrary: saved)
  case (Suc k)
  have lim: "is_safe_integer (JInt limit)" "limit \<le> max_frontier_page div 4"
    using assms(1,2) by (simp_all add: is_safe_integer.simps max_safe_integer_def max_frontier_page_def)
  then obtain s where s: "frontier_slice_of db pid saved limit = Inr s"
    using assms(1) by (simp add: frontier_slice_of_def Let_def)
  note F = slice_fields [OF s]
  define pos where "pos = (\<lambda>src. case saved of Some c \<Rightarrow> if pc_connection c = fdb_connection db then pc_position c src else None | None \<Rightarrow> None)"
  have pos: "(case saved of Some c \<Rightarrow> if pc_connection c = fdb_connection db then pc_position c else (\<lambda>_. None) | None \<Rightarrow> (\<lambda>_. None)) = pos"
    by (auto simp: pos_def fun_eq_iff split: option.split)
  show ?case
  proof (cases "fs_next s")
    case None
    then show ?thesis using s by simp
  next
    case (Some c)
    then have c: "c = fs_checkpoint s" "\<exists>src. \<not> is_exhausted (pc_position c src)" using F(4) by (auto split: if_splits)
    have at: "pc_connection c = fdb_connection db" "pc_position c src = Some (snd (source_slice db pid (nat limit) src (pos src)))" for src
      using F(3) c(1) pos by simp_all
    have less: "rows_ahead db pid src (pc_position c src) < k * nat limit \<or> is_exhausted (pc_position c src)" for src
    proof (rule disjCI)
      assume go: "\<not> is_exhausted (pc_position c src)"
      obtain rows p where sl: "source_slice db pid (nat limit) src (pos src) = (rows, p)" by fastforce
      have "rows_ahead db pid src (Some p) + nat limit = rows_ahead db pid src (pos src)"
        using assms(1,4) go at(2) [of src] sl by (intro source_slice_shrinks) auto
      moreover have "rows_ahead db pid src (pos src) < Suc k * nat limit" using Suc.prems(2) by (simp add: pos_def)
      ultimately show "rows_ahead db pid src (pc_position c src) < k * nat limit" using at(2) [of src] sl by simp
    qed
    then have k: "k \<noteq> 0" using c(2) by (cases k) auto
    have "rows_ahead db pid src (pc_position c src) < k * nat limit" for src
      using less [of src] k assms(1) by (cases "pc_position c src" rule: is_exhausted.cases) (auto simp: rows_ahead_def)
    then obtain ts d where "sweep_frontier (replicate k db) pid limit (Some c) = Inr (ts, Inr d)"
      using Suc.IH [OF k, of "Some c"] at(1) by auto
    then show ?thesis using s Some by simp
  qed
qed simp

section \<open>What the frontier promises\<close>

text \<open>
  C13: a finished traversal reports every lasting piece of work that lies ahead of where it
  starts. If a source row of the Project keeps its row id and stays current while slice after
  slice is read, over databases that may otherwise change in any way and over reconnections,
  and if the traversal starts from the beginning or from a checkpoint whose position in that
  source has not passed the row (\<open>row_ahead\<close>), then the Task of the row is among the Tasks the
  traversal has reported. Rows behind the checkpoint are not covered: a restarted frontier
  keeps the position of the last row already seen, so an unresolved ingress is reported once
  per connection only (\<open>frontier_passes_unresolved_work_once\<close>).
\<close>

theorem traversal_reports_lasting_work:
  assumes "sweep_frontier dbs pid limit saved = Inr (ts, Inr done)"
    and "\<forall>db \<in> set dbs. distinct (map sr_rowid (source_rows db pid src))"
    and "\<forall>db \<in> set dbs. r \<in> set (source_rows db pid src) \<and> (\<forall>page. r \<in> set page \<longrightarrow> r \<in> set (current_rows db src page))"
    and "row_ahead saved src r"
  shows "sr_task r \<in> set ts"
  using sweep_reports [OF assms(1,2) _ assms(4)] assms(3) by (simp add: lasting_row_def)

text \<open>
  A traversal ends. Over a database that does not change, a traversal from the start is
  finished as soon as its slices could have held more rows than any source has.
\<close>

theorem traversal_ends:
  assumes "0 < limit" "limit \<le> 16" "\<forall>src. distinct (map sr_rowid (source_rows db pid src))"
    and "\<forall>src. length (source_rows db pid src) < k * nat limit"
  shows "\<exists>ts done. sweep_frontier (replicate k db) pid limit None = Inr (ts, Inr done)"
proof (rule sweep_ends [OF assms(1,2) _ assms(3)])
  show "k \<noteq> 0" using assms(4) by (cases k) auto
  have "rows_ahead db pid src None = length (source_rows db pid src)" for src by (simp add: rows_ahead_def)
  then show "\<forall>src. rows_ahead db pid src (case None of Some c \<Rightarrow> if pc_connection c = fdb_connection db then pc_position c src else None
      | None \<Rightarrow> None) < k * nat limit" using assms(4) by simp
qed

lemma current_ingress_reported:
  assumes "i \<in> set (ingresses (fdb_store db))" "current_ingress db i" "sr_id r = ing_id i" "r \<in> set page"
  shows "r \<in> set (current_rows db IngressSource page)"
  using assms by (force simp: current_rows_def)

definition demo_frontier :: frontier_db where
  "demo_frontier = \<lparr>fdb_store = demo_interrupted, fdb_connection = 1, ingress_rowid = (\<lambda>i. if i = ''t/t'' then 1 else 2),
     wait_rowid = (\<lambda>_. 1), event_rowid = (\<lambda>_. 1), descriptor_rowid = (\<lambda>_. 1), event_project = (\<lambda>_. None),
     descriptors = [], dispatch_candidates = (\<lambda>ks. ks)\<rparr>"

text \<open>
  A traversal does not come back to unresolved work. Once a traversal has ended, the next one
  starts after the last row it has seen, so a Task whose ingresses are all still current and
  undisposed is not reported a second time while the connection lasts.
\<close>

theorem frontier_passes_unresolved_work_once:
  "list_all (current_ingress demo_frontier) (ingresses (fdb_store demo_frontier))
   \<and> (case sweep_frontier [demo_frontier] ''p'' 16 None of
        Inr (ts, Inr c) \<Rightarrow> ts = [''t''] \<and>
          (case sweep_frontier [demo_frontier] ''p'' 16 (Some c) of Inr (ts', Inr c') \<Rightarrow> ts' = [] | _ \<Rightarrow> False)
      | _ \<Rightarrow> False)"
  by code_simp

text \<open>With pages of one row, two current ingresses take three slices, of which the second reports the later one.\<close>

theorem traversal_reports_lasting_work_witness:
  "\<exists>ts done. sweep_frontier (replicate 3 demo_frontier) ''p'' 1 None = Inr (ts, Inr done) \<and> ''t'' \<in> set ts"
proof -
  let ?dbs = "replicate 3 demo_frontier"
  have "case sweep_frontier ?dbs ''p'' 1 None of Inr (ts, Inr c) \<Rightarrow> True | _ \<Rightarrow> False" by code_simp
  then obtain ts c where sw: "sweep_frontier ?dbs ''p'' 1 None = Inr (ts, Inr c)"
    by (cases "sweep_frontier ?dbs ''p'' 1 None") (auto split: sum.splits)
  let ?i = "ingresses (fdb_store demo_frontier) ! 1"
  have n: "length (ingresses (fdb_store demo_frontier)) = 2" "list_all (current_ingress demo_frontier) (ingresses (fdb_store demo_frontier))"
    and i: "ing_id ?i = ''t/hello''" "ing_task ?i = ''t''" "ing_project ?i = ''p''"
    and dist: "distinct (map sr_rowid (source_rows demo_frontier ''p'' IngressSource))" by code_simp+
  have mem: "?i \<in> set (ingresses (fdb_store demo_frontier))" using n(1) by simp
  then have cur: "current_ingress demo_frontier ?i" using n(2) by (simp add: list_all_iff)
  let ?r = "\<lparr>sr_id = ing_id ?i, sr_task = ing_task ?i, sr_rowid = ingress_rowid demo_frontier (ing_id ?i)\<rparr>"
  have "?r \<in> set (source_rows demo_frontier ''p'' IngressSource)" using mem i(3) by force
  moreover have "?r \<in> set page \<longrightarrow> ?r \<in> set (current_rows demo_frontier IngressSource page)" for page
    using current_ingress_reported [OF mem cur] by simp
  ultimately have "sr_task ?r \<in> set ts"
    using traversal_reports_lasting_work [OF sw, of IngressSource ?r] dist by (simp add: row_ahead_def)
  then show ?thesis using sw i(2) by auto
qed

theorem traversal_ends_witness:
  "\<exists>ts done. sweep_frontier (replicate 3 demo_frontier) ''p'' 1 None = Inr (ts, Inr done)"
proof (rule traversal_ends)
  have d: "distinct (map sr_rowid (source_rows demo_frontier ''p'' IngressSource)) \<and> length (source_rows demo_frontier ''p'' IngressSource) < 3"
    "distinct (map sr_rowid (source_rows demo_frontier ''p'' WaitSource)) \<and> length (source_rows demo_frontier ''p'' WaitSource) < 3"
    "source_rows demo_frontier ''p'' CancellationSource = []" "source_rows demo_frontier ''p'' DispatchSource = []" by code_simp+
  show "\<forall>src. distinct (map sr_rowid (source_rows demo_frontier ''p'' src))"
  proof
    fix src show "distinct (map sr_rowid (source_rows demo_frontier ''p'' src))" using d by (cases src) simp_all
  qed
  show "\<forall>src. length (source_rows demo_frontier ''p'' src) < 3 * nat 1"
  proof
    fix src show "length (source_rows demo_frontier ''p'' src) < 3 * nat 1" using d by (cases src) simp_all
  qed
qed simp_all

end
