(* ===== verification/Spec2Isabelle.thy ===== *)
theory Spec2Isabelle
  imports InteractionProps EvidenceFindings DeliveryCases RetryBudget ScanCases GoalCases KeyedLock PatchApply Identity LiveReplay EditMatch Heartbeat ProjectFrontier
begin

text \<open>
  A verification development for the control plane of OpenCorvus. All paths below are
  relative to \<open>src/packages/opencorvus/src/\<close>.

  \<^bold>\<open>The program.\<close> OpenCorvus runs Tasks for autonomous agents. What a Task is doing is never a
  mutable status: it is reduced from append-only facts, and every operation that decides
  something runs in one immediate SQLite transaction over those facts. The development models
  that core, the delivery pass and the driver that keep it live, the goal graph that says what a
  Task is to deliver, and five self-contained services beside it: the keyed lock, patches, the
  edit matcher, identities and the replay buffers of live events.

  \<^bold>\<open>Theories, in dependency order.\<close>

  \<^item> \<open>Prelude\<close>: the error monad \<open>error + 'a\<close> (every \<open>throw\<close> is an \<open>Inl\<close>), JavaScript values and
    the checks the code makes on them (\<open>Number.isSafeInteger\<close>, \<open>trim\<close>), stable sorting by a
    comparator (locale \<open>comparator\<close>), and sequences of transactions (locale \<open>step_system\<close>: an
    operation that fails is rolled back, an invariant that each operation keeps holds in every
    reachable state).
  \<^item> \<open>ProtocolLog\<close>: the event table (\<open>protocol/protocol.sql.ts\<close>, \<open>protocol/store.ts\<close>). An append
    reserves the next sequence of its aggregate and meets the partial unique indexes and the
    deletion trigger of \<open>storage/ddl.ts\<close>.
  \<^item> \<open>Lifecycle\<close>: \<open>engine/task-status.ts\<close>, \<open>engine/task-lifecycle.ts\<close>, the Task writer of
    \<open>engine/state.ts\<close>, the cancellation admission and the deletion boundary of
    \<open>task-api/index.ts\<close>. Its invariant \<open>db_ok\<close> is kept by every transaction.
  \<^item> \<open>ControlLease\<close>: \<open>engine/control-lease.ts\<close> (acquire, assert, release, renew over the lease and
    grant tables). The locale \<open>lease_service\<close> is the fencing contract its clients rely on.
  \<^item> \<open>Ingress\<close>: the pure reducer \<open>engine/task-root-ingress-reducer.ts\<close>, all of it.
  \<^item> \<open>ControlStore\<close>, \<open>TaskWait\<close>, \<open>IngressStore\<close>: the tables of \<open>engine/engine.sql.ts\<close> and
    \<open>session/session.sql.ts\<close> that the Task-root control plane uses, \<open>engine/task-wait.ts\<close>, and
    policies, acceptance and fact reading of \<open>engine/task-root-fact-store.ts\<close>.
  \<^item> \<open>StoreInvariant\<close>: the invariant \<open>store_ok\<close> of those tables under any sequence of operations.
    Tables that other components own may change arbitrarily between two operations
    (\<open>Outside\<close>), so the theorems do not depend on what those components do.
  \<^item> \<open>Activation\<close>: frontier pages and dispositions (\<open>engine/task-root-ingress-disposition.ts\<close>) and
    activation, renewal and fences of \<open>engine/task-root-fact-store.ts\<close>.
  \<^item> \<open>Interaction\<close>, \<open>InteractionProps\<close>: requests to the operator and their outcomes
    (\<open>engine/interaction-request.ts\<close>) and their projection in \<open>engine/store.ts\<close>; the rows that a
    published Question or the permission ledger contributes are input.
  \<^item> \<open>Evidence\<close>: the reader \<open>readTaskRootIngressEvidence\<close> of \<open>engine/task-root-ingress-delivery.ts\<close>,
    which acceptance, activation and fences take as an argument, the reconciliation of unknown
    activities, and the decision tools of \<open>orchestrator/decision-tool-names.ts\<close>. \<open>EvidenceProps\<close>
    shows which host faults its evidence cannot produce.
  \<^item> \<open>DispositionTrigger\<close>: the insert trigger of \<open>storage/ddl.ts\<close> that reads the tables again and
    refuses a disposition whose release is not proved; \<open>record_disposition\<close> takes it as an argument.
  \<^item> \<open>Absorption\<close>: \<open>recordAbsorbingTaskRootIngressDisposition\<close>, the exact evidence of a verdict, the
    operator gate and the immutable disposition. \<open>ReleaseProps\<close> shows that the evidence of the code
    satisfies the trigger; \<open>AbsorptionProps\<close>, \<open>EvidenceCases\<close> and
    \<open>EvidenceFindings\<close> show that every verdict can be recorded, what the record changes, and
    two ways in which reader and reducer do not fit together.
  \<^item> \<open>IngressDelivery\<close>: how an event for the Orchestrator names its source, is accepted as an ingress
    and is rebuilt from it (\<open>engine/task-root-ingress-source.ts\<close>, \<open>orchestrator/event.ts\<close> and the
    acceptance half of \<open>engine/task-root-ingress-delivery.ts\<close>), due waits, and the retry budget of
    infrastructure failures with the suppression of \<open>engine/dispatch-delivery-disposition.ts\<close>.
    \<open>DeliveryProps\<close> relates acceptance and delivery, \<open>RetryBudget\<close> bounds the retries of an epoch
    over any history, \<open>DeliveryCases\<close> holds the concrete rows.
  \<^item> \<open>ControlScan\<close>: a pass over the control plane of a Task (\<open>scanTaskControlPlane\<close>, \<open>activate\<close>,
    \<open>terminalizeExpiredTaskRootAssistants\<close>, \<open>reconcileAbandonedDispatches\<close>), composed of the fact
    store, reader, reducer, waits, dispositions and gates above. \<open>ScanProps\<close> holds what a pass
    keeps and reaches (locale \<open>queue_relation\<close>), \<open>ScanCases\<close> the concrete passes.
  \<^item> \<open>ProjectFrontier\<close>: the project-wide work frontier of the same disposition file, and its
    traversal by the heartbeat (\<open>liveTasks\<close> of \<open>engine/task-root-ingress-delivery.ts\<close>).
  \<^item> \<open>ControlDriver\<close>, \<open>Heartbeat\<close>: \<open>engine/task-control-driver.ts\<close>. The driver turns requests and
    timers into scans; the heartbeat sweeps over the slices of the frontier. JavaScript runs the
    code between two \<open>await\<close>s without interruption, so each such piece is one operation and a
    history is any sequence of them.
  \<^item> \<open>GoalData\<close>, \<open>GoalGraph\<close>, \<open>GoalWrite\<close>, \<open>GoalArchitect\<close>: the goal graph of a Task. \<open>GoalData\<close> holds
    what is stored and its schemas (\<open>engine/goal-graph-projection.ts\<close>, \<open>acceptance/types.ts\<close>,
    \<open>architect/contract-graph.ts\<close>, \<open>architect/fidelity.ts\<close>), \<open>GoalGraph\<close> its readers: the tip of the
    lineage of projections, Delivery Slices (\<open>engine/delivery-slice.ts\<close>), the current membership
    (\<open>engine/store.ts\<close>) and a past one (\<open>engine/delivery-slice-membership-facts.ts\<close>). \<open>GoalWrite\<close> and
    \<open>GoalArchitect\<close> are the three writers of \<open>engine/persist.ts\<close>: a command on one goal, the
    publication of an Architect Turn and the preservation of one that cannot be projected.
    \<open>GoalLineage\<close> characterises the tip, \<open>GoalStore\<close> states the invariant \<open>goal_ok\<close> and what growth of
    the tables keeps of it, \<open>GoalCommand\<close> and \<open>GoalPublish\<close> show that the writers keep it, \<open>GoalProps\<close> and
    \<open>GoalTurns\<close> what readers get, \<open>GoalCases\<close> a concrete Task.
  \<^item> \<open>LiveReplay\<close>: the live replay buffers of \<open>protocol/store.ts\<close>.
  \<^item> \<open>Identity\<close>: \<open>id/id.ts\<close>.
  \<^item> \<open>KeyedLock\<close>: the namespace \<open>Lock\<close> of \<open>util/lock.ts\<close>.
  \<^item> \<open>JsString\<close>, \<open>PatchText\<close>, \<open>PatchProps\<close>, \<open>PatchApply\<close>: \<open>patch/index.ts\<close> over strings of UTF-16
    code units: parsing, line matching, replacement, unified diff, application to files.
  \<^item> \<open>EditMatch\<close>: the replacers, \<open>replace\<close> and \<open>trimDiff\<close> of \<open>tool/edit.ts\<close>.

  \<^bold>\<open>How state and operations correspond.\<close> A table is the list of its rows in insertion order, an
  SQL \<open>SELECT ... ORDER BY\<close> is a filter and a stable sort, an insert first checks the unique
  indexes, and an operation of the code is a function from the tables (and the identities and
  clock readings it draws) to an error or the new tables and a result. JavaScript numbers that
  the code checks to be safe integers are \<open>int\<close>; the checks are part of the model.

  \<^bold>\<open>What the lemmas show.\<close> Epochs of a Task are opened and closed in order and a terminal epoch is
  final; an admitted cancellation cannot be overtaken; leases exclude and fence; the reducer is
  sound with respect to time; ingresses of an epoch are numbered without gaps and accepted once;
  waits are settled once and stay on the frontier of their epoch; activation respects the queue;
  the driver keeps its bounds, scans a Task once at a time, keeps accepted demand backed until a
  pass begins or a fired timer loses it, and never
  delays an announced transition; the heartbeat does not stop and a traversal of the frontier
  ends and reports every lasting piece of work ahead of where it starts; identities sort by creation and are read back;
  live buffers are bounded and replay the log since the last terminal event; a single edit replaces the
  one region that matches; the evidence of an ingress is anchored in its own activations, every
  verdict of the reducer can be recorded and takes exactly its ingress out of the queue, and what
  an interaction was answered with is final; an accepted event comes back from its ingress with its source, an
  epoch retries the infrastructure failures that the code counts at most five times, an ingress is activated at most as
  often as its policy allows, and a pass that reaches the end of the queue has emptied it, stops
  without a timer only for a cause, and returns unless a Turn extends the queue; the projections of
  a Task always form one chain whose last is its current graph, each graph has at most one
  successor, and a command or a publication does to the Delivery Slices exactly what it says;
  the lock excludes and loses no wakeup unless a plain read is disposed twice; patches are placed where their old lines are, refine a
  left-to-right replacement and touch only the named files. Where modelling showed the code to
  differ from its comments or intent, a theorem states the actual behaviour, in general or on a
  concrete input.

  \<^bold>\<open>Bounds and fuel.\<close> The lock's dispatcher \<open>process_lock\<close> recurses through callbacks that throw or
  are cancelled; it gets fuel \<open>lock_fuel\<close> (the queue lengths), and the invariant proofs show that
  it never runs out. The search loop of the edit matcher may not
  end, so \<open>multi_occurrence_replacer\<close> is a partial function whose value is \<open>None\<close> when it does
  not; \<open>edit_replace_returns\<close> shows that it returns for every non-empty text. A scan pass of the driver is one operation, so the bound \<open>maxPasses\<close> is the
  code's own. A pass makes at most 32 steps on one ingress (\<open>max_ingress_steps\<close>,
  the code's own bound). Its loop over the pages of the queue has no bound, because a Turn may
  accept new ingresses for ever: \<open>run_pages\<close> is a partial function, and \<open>pass_over_queue_ends\<close> shows
  that it returns when Turns do not extend the queue. The paging loop \<open>scan_prior\<close> and the patch parsers are total, by the number
  of rows after the cursor and the number of lines left, and so is \<open>chase\<close>, by the rows not yet
  visited.

  \<^bold>\<open>Parameters.\<close> \<open>String.prototype.localeCompare\<close> is a comparator argument (\<open>idcmp\<close>, \<open>lc\<close>); hashes and
  deterministic identities and project admission are functions of the environment record, and the
  fact store takes its evidence reader as an argument, as the code does; \<open>Evidence\<close> supplies
  it. The columns of session tables that only the reader looks at, and the checks of message
  schemas on fields it does not read, are \<open>evidence_columns\<close>. The new identity and the clock of
  an event are its stamp. The driver takes as
  arguments of each piece the clock (one reading per piece), the input revision, the outcome of
  the scan and whether the Project could be re-entered. A pass takes from \<open>scan_host\<close> its clock, its
  identities, the Orchestrator Turn, the recovery of Sessions and cancellations, and the page and
  the fate of abandoned dispatches; each may change every table, and a theorem names as hypothesis
  what it must leave alone. \<open>source_columns\<close> are the columns of artifacts, Messages and Worker Turns
  behind an ingress, \<open>delivery_env\<close> the event schema, digests and texts. The frontier takes the classifier of
  dispatches and the physical row ids. \<open>goal_env\<close> holds the digest of a payload, \<open>localeCompare\<close>,
  \<open>toLowerCase\<close>, the internal paths of the runtime and the evidence references of research
  artifacts; \<open>goal_names\<close> are the identities drawn. The writers of the goal graph are handed
  acceptance specs that their callers have parsed with the schema (\<open>mutation_parsed\<close>, \<open>goals_parsed\<close>);
  the other parts of the program write no goals and no graph artifacts (\<open>elsewhere\<close>), which the
  triggers of \<open>storage/ddl.ts\<close> also enforce.

  \<^bold>\<open>Not modelled.\<close> The catalogue columns of artifacts and the insert triggers on artifacts of
  other kinds than dispositions (that of dispatch delivery dispositions among them, so a modelled
  insertion of those may succeed where the database refuses it); the renewal timer of a running Turn, the
  delivery of dispatch outcomes and collections, schedulers, sessions, tools, providers, servers
  and user interfaces, which are orchestration and I/O around the modelled core; bus publications and Git checkpoints of the
  Task writer; \<open>withKeyedLock\<close>; the recognition of shell invocations of a patch;
  permissions, file locks and diagnostics of the edit tool; \<open>snapshot\<close> of the driver.

  \<^bold>\<open>Plan.\<close> Next: the delivery of dispatch outcomes, the collector of an Architect Turn,
  permission rules, permit pools.
\<close>

end
